(* ===== verification/Prelude.thy ===== *)
theory Prelude
  imports Complex_Main "HOL-Library.Char_ord" "HOL-Library.List_Lexorder"
    "HOL-Library.Product_Lexorder" "HOL-Library.Log_Nat" "HOL-Library.Sublist"
    "HOL-Library.Multiset"
begin

text \<open>
  What the components share: Python values, dictionaries in insertion order, the string
  operations the sources call, exceptions as values of a sum type, three-valued truth and
  the collections of lemmas the component proofs are carried by.

  Characters are the code points 0 to 255; a \<^typ>\<open>string\<close> is a Python \<open>str\<close> over them.
  The character classes (white space, digits, letters, case) are Python's on that range.
\<close>

section \<open>Lemma collections\<close>

named_theorems dict_simps \<open>equations of the dictionary operations\<close>
named_theorems res_simps \<open>equations and inversions of the error monad\<close>
named_theorems kleene_simps \<open>equations of three-valued truth\<close>

section \<open>Exceptions as values\<close>

text \<open>A fallible operation returns \<open>Inl\<close> the exception or \<open>Inr\<close> the value.\<close>

type_synonym ('e, 'a) res = "'e + 'a"

definition rbind :: "('e, 'a) res \<Rightarrow> ('a \<Rightarrow> ('e, 'b) res) \<Rightarrow> ('e, 'b) res" where
  "rbind m f = (case m of Inl e \<Rightarrow> Inl e | Inr x \<Rightarrow> f x)"

definition ensure :: "bool \<Rightarrow> 'e \<Rightarrow> ('e, unit) res" where
  "ensure b e = (if b then Inr () else Inl e)"

fun map_res :: "('a \<Rightarrow> ('e, 'b) res) \<Rightarrow> 'a list \<Rightarrow> ('e, 'b list) res" where
  "map_res f [] = Inr []"
| "map_res f (x # xs) = rbind (f x) (\<lambda>y. rbind (map_res f xs) (\<lambda>ys. Inr (y # ys)))"

text \<open>The built-in exceptions the sources can raise on their own.\<close>

datatype py_error = KeyError string | IndexError | TypeError string | ValueError string | OverflowError
  | AttributeError string | RecursionError

section \<open>Python values\<close>

text \<open>
  A finite float is the rational it denotes, so comparisons between numbers are exact, as
  Python's are. \<open>VBroken\<close> is a mapping whose access raises, \<open>VOther\<close> any object that is
  none of the others, named by its type.
\<close>

datatype pyfloat = Fin rat | PosInf | NegInf | NaN

datatype pv =
    VNone
  | VBool bool
  | VInt int
  | VFloat pyfloat
  | VStr string
  | VList "pv list"
  | VTuple "pv list"
  | VDict "(string \<times> pv) list"
  | VBroken
  | VOther string

section \<open>Dictionaries in insertion order\<close>

type_synonym 'v dict = "(string \<times> 'v) list"

definition dget :: "'v dict \<Rightarrow> string \<Rightarrow> 'v option" where
  "dget d k = map_of d k"

fun dset :: "'v dict \<Rightarrow> string \<Rightarrow> 'v \<Rightarrow> 'v dict" where
  "dset [] k v = [(k, v)]"
| "dset ((k', v') # d) k v = (if k' = k then (k, v) # d else (k', v') # dset d k v)"

definition dhas :: "'v dict \<Rightarrow> string \<Rightarrow> bool" where
  "dhas d k \<longleftrightarrow> dget d k \<noteq> None"

definition dkeys :: "'v dict \<Rightarrow> string list" where
  "dkeys d = map fst d"

text \<open>\<open>d[k]\<close> raises when the key is absent; a comprehension builds its dictionary key by key.\<close>

definition dindex :: "'v dict \<Rightarrow> string \<Rightarrow> (py_error, 'v) res" where
  "dindex d k = (case dget d k of None \<Rightarrow> Inl (KeyError k) | Some v \<Rightarrow> Inr v)"

definition dict_of :: "(string \<times> 'v) list \<Rightarrow> 'v dict" where
  "dict_of ps = foldl (\<lambda>d (k, v). dset d k v) [] ps"

text \<open>\<open>d.get(k)\<close> of a dictionary of Python values: \<open>None\<close> when the key is absent.\<close>

definition vget :: "pv dict \<Rightarrow> string \<Rightarrow> pv" where
  "vget d k = (case dget d k of None \<Rightarrow> VNone | Some v \<Rightarrow> v)"

text \<open>An optional text as a Python value.\<close>

definition opt_text :: "string option \<Rightarrow> pv" where
  "opt_text s = (case s of None \<Rightarrow> VNone | Some t \<Rightarrow> VStr t)"

text \<open>Truthiness, as \<open>bool(x)\<close> has it.\<close>

fun truthy :: "pv \<Rightarrow> bool" where
  "truthy VNone = False"
| "truthy (VBool b) = b"
| "truthy (VInt n) = (n \<noteq> 0)"
| "truthy (VFloat (Fin r)) = (r \<noteq> 0)"
| "truthy (VFloat _) = True"
| "truthy (VStr s) = (s \<noteq> [])"
| "truthy (VList xs) = (xs \<noteq> [])"
| "truthy (VTuple xs) = (xs \<noteq> [])"
| "truthy (VDict d) = (d \<noteq> [])"
| "truthy VBroken = True"
| "truthy (VOther t) = True"

text \<open>
  Equality and order of numbers: \<open>True\<close> and \<open>False\<close> are 1 and 0, an integer and a float
  compare by value, a NaN is neither equal to nor ordered with anything. Strings order by
  code point. Any other ordering comparison raises \<open>TypeError\<close>.
\<close>

fun num_of :: "pv \<Rightarrow> pyfloat option" where
  "num_of (VBool b) = Some (Fin (if b then 1 else 0))"
| "num_of (VInt n) = Some (Fin (of_int n))"
| "num_of (VFloat f) = Some f"
| "num_of _ = None"

fun fl_eq :: "pyfloat \<Rightarrow> pyfloat \<Rightarrow> bool" where
  "fl_eq (Fin a) (Fin b) = (a = b)"
| "fl_eq PosInf PosInf = True"
| "fl_eq NegInf NegInf = True"
| "fl_eq _ _ = False"

fun fl_lt :: "pyfloat \<Rightarrow> pyfloat \<Rightarrow> bool" where
  "fl_lt NaN _ = False"
| "fl_lt _ NaN = False"
| "fl_lt (Fin a) (Fin b) = (a < b)"
| "fl_lt NegInf NegInf = False"
| "fl_lt NegInf _ = True"
| "fl_lt _ NegInf = False"
| "fl_lt PosInf _ = False"
| "fl_lt (Fin a) PosInf = True"

definition py_eq :: "pv \<Rightarrow> pv \<Rightarrow> bool" where
  "py_eq a b = (case (num_of a, num_of b) of
     (Some x, Some y) \<Rightarrow> fl_eq x y
   | (None, None) \<Rightarrow> a = b
   | _ \<Rightarrow> False)"

definition py_lt :: "pv \<Rightarrow> pv \<Rightarrow> (py_error, bool) res" where
  "py_lt a b = (case (num_of a, num_of b) of
     (Some x, Some y) \<Rightarrow> Inr (fl_lt x y)
   | _ \<Rightarrow> (case (a, b) of (VStr s, VStr t) \<Rightarrow> Inr (s < t) | _ \<Rightarrow> Inl (TypeError ''not ordered'')))"

definition py_le :: "pv \<Rightarrow> pv \<Rightarrow> (py_error, bool) res" where
  "py_le a b = (case (num_of a, num_of b) of
     (Some x, Some y) \<Rightarrow> Inr (fl_lt x y \<or> fl_eq x y)
   | _ \<Rightarrow> (case (a, b) of (VStr s, VStr t) \<Rightarrow> Inr (s \<le> t) | _ \<Rightarrow> Inl (TypeError ''not ordered'')))"

text \<open>The nearest integer, of two equally near ones the even one.\<close>

definition round_half_even :: "rat \<Rightarrow> int" where
  "round_half_even x =
     (let f = \<lfloor>x\<rfloor>; d = x - of_int f in
      if d < 1 / 2 \<or> d = 1 / 2 \<and> even f then f else f + 1)"

section \<open>Strings\<close>

definition code :: "char \<Rightarrow> nat" where
  "code c = of_char c"

definition is_space :: "char \<Rightarrow> bool" where
  "is_space c = (let n = code c in 9 \<le> n \<and> n \<le> 13 \<or> 28 \<le> n \<and> n \<le> 32 \<or> n = 133 \<or> n = 160)"

definition is_digit :: "char \<Rightarrow> bool" where
  "is_digit c = (48 \<le> code c \<and> code c \<le> 57)"

definition is_lower_ascii :: "char \<Rightarrow> bool" where
  "is_lower_ascii c = (97 \<le> code c \<and> code c \<le> 122)"

definition is_upper_ascii :: "char \<Rightarrow> bool" where
  "is_upper_ascii c = (65 \<le> code c \<and> code c \<le> 90)"

definition is_alpha :: "char \<Rightarrow> bool" where
  "is_alpha c = (let n = code c in is_lower_ascii c \<or> is_upper_ascii c \<or> n = 170 \<or> n = 181 \<or> n = 186
     \<or> 192 \<le> n \<and> n \<noteq> 215 \<and> n \<noteq> 247)"

definition is_alnum :: "char \<Rightarrow> bool" where
  "is_alnum c = (let n = code c in is_alpha c \<or> is_digit c
     \<or> n = 178 \<or> n = 179 \<or> n = 185 \<or> 188 \<le> n \<and> n \<le> 190)"

definition lower_char :: "char \<Rightarrow> char" where
  "lower_char c = (let n = code c in
     if is_upper_ascii c \<or> 192 \<le> n \<and> n \<le> 222 \<and> n \<noteq> 215 then char_of (n + 32) else c)"

definition lower :: "string \<Rightarrow> string" where
  "lower s = map lower_char s"

definition strip :: "string \<Rightarrow> string" where
  "strip s = rev (dropWhile is_space (rev (dropWhile is_space s)))"

text \<open>\<open>s.split(sep, 1)\<close> at the first occurrence of a non-empty separator, if there is one.\<close>

fun split1 :: "string \<Rightarrow> string \<Rightarrow> (string \<times> string) option" where
  "split1 sep [] = None"
| "split1 sep (c # s) =
     (if prefix sep (c # s) then Some ([], drop (length sep) (c # s))
      else map_option (\<lambda>(a, b). (c # a, b)) (split1 sep s))"

text \<open>\<open>sep in s\<close> for a non-empty \<open>sep\<close>.\<close>

definition contains :: "string \<Rightarrow> string \<Rightarrow> bool" where
  "contains sep s \<longleftrightarrow> split1 sep s \<noteq> None"

lemma split1_length: "split1 sep s = Some (a, b) \<Longrightarrow> length a + length sep + length b = length s"
  by (induction s arbitrary: a) (auto split: if_splits dest: prefix_length_le)

function split_on :: "string \<Rightarrow> string \<Rightarrow> string list" where
  "split_on sep s =
     (if sep = [] then [s]
      else case split1 sep s of None \<Rightarrow> [s] | Some (a, b) \<Rightarrow> a # split_on sep b)"
  by pat_completeness auto
termination
  by (relation "measure (length \<circ> snd)") (auto dest!: split1_length simp flip: length_greater_0_conv)

declare split_on.simps [simp del]

text \<open>\<open>str(n)\<close> of a whole number.\<close>

fun str_nat :: "nat \<Rightarrow> string" where
  "str_nat n = (if n < 10 then [char_of (48 + n)] else str_nat (n div 10) @ [char_of (48 + n mod 10)])"

declare str_nat.simps [simp del]

definition str_int :: "int \<Rightarrow> string" where
  "str_int i = (if i < 0 then CHR ''-'' # str_nat (nat (- i)) else str_nat (nat i))"

fun digits_val :: "string \<Rightarrow> nat \<Rightarrow> nat" where
  "digits_val [] acc = acc"
| "digits_val (c # s) acc = digits_val s (acc * 10 + (code c - 48))"

text \<open>\<open>re.match\<close> of \<open>^...$\<close>: the end anchor also matches before one final line feed.\<close>

definition re_match :: "(string \<Rightarrow> bool) \<Rightarrow> string \<Rightarrow> bool" where
  "re_match shape s \<longleftrightarrow> shape s \<or> s \<noteq> [] \<and> last s = CHR 0x0A \<and> shape (butlast s)"

definition ident_char :: "char \<Rightarrow> bool" where
  "ident_char c \<longleftrightarrow> is_lower_ascii c \<or> is_digit c \<or> c = CHR ''_''"

section \<open>Three-valued truth\<close>

text \<open>\<open>None\<close> is unknown; the combinators are Kleene's strong ones over the listed results.\<close>

definition kleene_and :: "bool option list \<Rightarrow> bool option" where
  "kleene_and rs = (if Some False \<in> set rs then Some False else if None \<in> set rs then None else Some True)"

definition kleene_or :: "bool option list \<Rightarrow> bool option" where
  "kleene_or rs = (if Some True \<in> set rs then Some True else if None \<in> set rs then None else Some False)"

definition kleene_not :: "bool option \<Rightarrow> bool option" where
  "kleene_not r = map_option Not r"

text \<open>The information order: \<open>r\<close> knows no more than \<open>r'\<close>.\<close>

definition less_info :: "bool option \<Rightarrow> bool option \<Rightarrow> bool" where
  "less_info r r' \<longleftrightarrow> r = None \<or> r = r'"

section \<open>Lemmas on the error monad\<close>

lemma rbind_Inl [simp, res_simps]: "rbind (Inl e) f = Inl e"
  by (simp add: rbind_def)

lemma rbind_Inr [simp, res_simps]: "rbind (Inr x) f = f x"
  by (simp add: rbind_def)

lemma rbind_eq_Inr [simp, res_simps]: "rbind m f = Inr y \<longleftrightarrow> (\<exists>x. m = Inr x \<and> f x = Inr y)"
  by (cases m) auto

lemma rbind_eq_Inl [res_simps]:
  "rbind m f = Inl e \<longleftrightarrow> m = Inl e \<or> (\<exists>x. m = Inr x \<and> f x = Inl e)"
  by (cases m) auto

lemma rbind_cong [fundef_cong]:
  "m = m' \<Longrightarrow> (\<And>x. m' = Inr x \<Longrightarrow> f x = f' x) \<Longrightarrow> rbind m f = rbind m' f'"
  by (cases m') auto

lemma ensure_eq_Inr [simp, res_simps]: "ensure b e = Inr u \<longleftrightarrow> b"
  by (simp add: ensure_def)

lemma ensure_eq_Inl [simp, res_simps]: "ensure b e = Inl e' \<longleftrightarrow> \<not> b \<and> e' = e"
  by (auto simp: ensure_def)

lemma ensure_True [simp]: "ensure True e = Inr ()"
  by (simp add: ensure_def)

lemma ensure_False [simp]: "ensure False e = Inl e"
  by (simp add: ensure_def)

lemma map_res_cong [fundef_cong]:
  "xs = ys \<Longrightarrow> (\<And>x. x \<in> set ys \<Longrightarrow> f x = g x) \<Longrightarrow> map_res f xs = map_res g ys"
proof (induction ys arbitrary: xs)
  case (Cons y ys)
  then have "map_res f ys = map_res g ys" by simp
  with Cons.prems show ?case by simp
qed simp

lemma map_res_Inr_iff: "map_res f xs = Inr ys \<longleftrightarrow> list_all2 (\<lambda>x y. f x = Inr y) xs ys"
  by (induction xs arbitrary: ys) (auto simp: list_all2_Cons1)

lemma map_res_length: "map_res f xs = Inr ys \<Longrightarrow> length ys = length xs"
  by (auto simp: map_res_Inr_iff dest: list_all2_lengthD)

lemma map_res_set: "map_res f xs = Inr ys \<Longrightarrow> y \<in> set ys \<Longrightarrow> \<exists>x \<in> set xs. f x = Inr y"
  by (auto simp: map_res_Inr_iff list_all2_conv_all_nth in_set_conv_nth) (metis nth_mem)

lemma map_res_total: "(\<And>x. x \<in> set xs \<Longrightarrow> \<exists>y. f x = Inr y) \<Longrightarrow> \<exists>ys. map_res f xs = Inr ys"
proof (induction xs)
  case (Cons x xs)
  then obtain y ys where "f x = Inr y" "map_res f xs = Inr ys" by (metis list.set_intros)
  then show ?case by simp
qed simp

section \<open>Lemmas on lists and orders\<close>

lemma Max_insert_max: "finite S \<Longrightarrow> Max (insert (max a b) S) = Max (insert a (insert (b :: 'a :: linorder) S))"
  by (cases "S = {}") (simp_all add: max.assoc)

lemma Max_insert_Max:
  fixes c :: "'a :: linorder"
  assumes "finite A" "finite B"
  shows "Max (insert (Max (insert c A)) B) = Max (insert c (A \<union> B))"
proof (cases "B = {}")
  case False
  then have "Max (insert (Max (insert c A)) B) = max (Max (insert c A)) (Max B)"
    using assms by simp
  also have "\<dots> = Max (insert c A \<union> B)"
    using False assms by (intro Max_Un [symmetric]) auto
  finally show ?thesis by simp
qed simp

lemma sum_list_filter_mono:
  fixes f :: "'a \<Rightarrow> int"
  assumes "\<And>x. x \<in> set xs \<Longrightarrow> P x \<Longrightarrow> Q x" "\<And>x. x \<in> set xs \<Longrightarrow> 0 \<le> f x"
  shows "(\<Sum>x\<leftarrow>filter P xs. f x) \<le> (\<Sum>x\<leftarrow>filter Q xs. f x)"
  using assms by (induction xs) fastforce+

lemma list_all2_in1: "list_all2 P xs ys \<Longrightarrow> x \<in> set xs \<Longrightarrow> \<exists>y \<in> set ys. P x y"
  by (induction rule: list_all2_induct) auto

lemma sort_eq_Nil [simp]: "sort xs = [] \<longleftrightarrow> xs = []"
  by (metis set_empty set_sort)

lemma list_all2_map_eq: "list_all2 (\<lambda>x y. f x = g y) xs ys \<longleftrightarrow> map f xs = map g ys"
  by (induction xs arbitrary: ys) (auto simp: list_all2_Cons1 Cons_eq_map_conv)

section \<open>Lemmas on dictionaries\<close>

lemma dget_Nil [simp, dict_simps]: "dget [] k = None"
  by (simp add: dget_def)

lemma dget_Cons [simp, dict_simps]: "dget ((k', v) # d) k = (if k' = k then Some v else dget d k)"
  by (simp add: dget_def)

lemma dkeys_Nil [simp]: "dkeys [] = []"
  by (simp add: dkeys_def)

lemma dget_dset [simp, dict_simps]: "dget (dset d k v) k' = (if k' = k then Some v else dget d k')"
  by (induction d) auto

lemma dhas_dset [simp, dict_simps]: "dhas (dset d k v) k' \<longleftrightarrow> k' = k \<or> dhas d k'"
  by (simp add: dhas_def)

lemma dhas_keys: "dhas d k \<longleftrightarrow> k \<in> set (dkeys d)"
  by (induction d) (auto simp: dhas_def dkeys_def)

lemma dget_Some_set: "dget d k = Some v \<Longrightarrow> (k, v) \<in> set d"
  by (simp add: dget_def map_of_SomeD)

lemma dget_append: "dget (d @ e) k = (case dget d k of None \<Rightarrow> dget e k | Some v \<Rightarrow> Some v)"
  by (induction d) auto

lemma dkeys_dset: "dkeys (dset d k v) = (if dhas d k then dkeys d else dkeys d @ [k])"
  by (induction d) (auto simp: dkeys_def dhas_def split: if_splits)

lemma distinct_dset: "distinct (dkeys d) \<Longrightarrow> distinct (dkeys (dset d k v))"
  by (auto simp: dkeys_dset dhas_keys)

lemma set_dkeys_dset [simp]: "set (dkeys (dset d k v)) = insert k (set (dkeys d))"
  by (auto simp: dkeys_dset dhas_keys)

lemma dindex_Inr [simp]: "dindex d k = Inr v \<longleftrightarrow> dget d k = Some v"
  by (simp add: dindex_def split: option.splits)

lemma dset_new: "k \<notin> set (dkeys d) \<Longrightarrow> dset d k v = d @ [(k, v)]"
  by (induction d) (auto simp: dkeys_def)

lemma dict_of_distinct: "distinct (map fst ps) \<Longrightarrow> dict_of ps = ps"
proof -
  have "distinct (map fst (d @ ps)) \<Longrightarrow> foldl (\<lambda>d (k, v). dset d k v) d ps = d @ ps" for d
  proof (induction ps arbitrary: d)
    case (Cons p ps)
    obtain k v where p: "p = (k, v)" by force
    from Cons.prems p have "dset d k v = d @ [(k, v)]"
      by (auto simp: dkeys_def dset_new)
    with Cons.IH [of "d @ [(k, v)]"] Cons.prems p show ?case by simp
  qed simp
  then show "distinct (map fst ps) \<Longrightarrow> dict_of ps = ps"
    by (simp add: dict_of_def)
qed

section \<open>Lemmas on strings\<close>

lemma split1_None: "sep \<noteq> [] \<Longrightarrow> hd sep \<notin> set s \<Longrightarrow> split1 sep s = None"
proof (induction s)
  case (Cons c s)
  moreover have "\<not> prefix sep (c # s)" using Cons.prems by (cases sep) auto
  ultimately show ?case by simp
qed simp

lemma split1_char: "x \<notin> set a \<Longrightarrow> split1 [x] (a @ x # b) = Some (a, b)"
  by (induction a) auto

lemma split_on_none: "x \<notin> set s \<Longrightarrow> split_on [x] s = [s]"
  by (subst split_on.simps) (simp add: split1_None)

lemma split_on_char: "x \<notin> set a \<Longrightarrow> split_on [x] (a @ x # b) = a # split_on [x] b"
  by (subst split_on.simps) (simp add: split1_char)

lemma strip_space: "is_space c \<Longrightarrow> strip (c # s) = strip s"
  by (simp add: strip_def)

lemma dropWhile_id: "s = [] \<or> \<not> P (hd s) \<Longrightarrow> dropWhile P s = s"
  by (cases s) auto

lemma strip_id: "s = [] \<or> \<not> is_space (hd s) \<and> \<not> is_space (last s) \<Longrightarrow> strip s = s"
  by (auto simp: strip_def dropWhile_id hd_rev)

lemma digits_val_append: "digits_val (a @ b) acc = digits_val b (digits_val a acc)"
  by (induction a arbitrary: acc) auto

lemma code_digit: "n < 10 \<Longrightarrow> code (char_of (48 + n :: nat)) = 48 + n"
  by (simp add: code_def)

lemma digit_char: "n < 10 \<Longrightarrow> is_digit (char_of (48 + n :: nat))"
  by (simp add: is_digit_def code_digit)

lemma str_nat_val: "digits_val (str_nat n) 0 = n"
proof (induction n rule: str_nat.induct)
  case (1 n)
  show ?case
    by (subst str_nat.simps) (use 1 in \<open>simp add: digits_val_append code_digit\<close>)
qed

lemma str_nat_digits: "list_all is_digit (str_nat n) \<and> str_nat n \<noteq> []"
proof (induction n rule: str_nat.induct)
  case (1 n)
  show ?case
    by (subst (1 2) str_nat.simps) (use 1 in \<open>simp add: digit_char\<close>)
qed

lemma str_nat_length: "n < 10 ^ k \<Longrightarrow> 0 < k \<Longrightarrow> length (str_nat n) \<le> k"
proof (induction k arbitrary: n)
  case (Suc k)
  show ?case
  proof (cases "n < 10")
    case True
    then show ?thesis by (subst str_nat.simps) simp
  next
    case False
    then have k: "0 < k" using Suc.prems by (cases k) auto
    have "n div 10 < 10 ^ k" using Suc.prems by (simp add: less_mult_imp_div_less)
    with False Suc.IH k show ?thesis by (subst str_nat.simps) simp
  qed
qed simp

section \<open>Lemmas on three-valued truth\<close>

lemma kleene_and_simps [kleene_simps]:
  "kleene_and rs = Some False \<longleftrightarrow> Some False \<in> set rs"
  "kleene_and rs = Some True \<longleftrightarrow> set rs \<subseteq> {Some True}"
  "kleene_and rs = None \<longleftrightarrow> Some False \<notin> set rs \<and> None \<in> set rs"
  by (auto simp: kleene_and_def) (metis (full_types) not_Some_eq)

lemma kleene_or_simps [kleene_simps]:
  "kleene_or rs = Some True \<longleftrightarrow> Some True \<in> set rs"
  "kleene_or rs = Some False \<longleftrightarrow> set rs \<subseteq> {Some False}"
  "kleene_or rs = None \<longleftrightarrow> Some True \<notin> set rs \<and> None \<in> set rs"
  by (auto simp: kleene_or_def) (metis (full_types) not_Some_eq)

lemma kleene_not_simps [kleene_simps]:
  "kleene_not r = None \<longleftrightarrow> r = None"
  "kleene_not r = Some b \<longleftrightarrow> r = Some (\<not> b)"
  by (auto simp: kleene_not_def)

lemma kleene_not_mem [simp]:
  "Some b \<in> kleene_not ` R \<longleftrightarrow> Some (\<not> b) \<in> R"
  "None \<in> kleene_not ` R \<longleftrightarrow> None \<in> R"
proof -
  have inv: "kleene_not (kleene_not r) = r" for r
    by (cases r) (auto simp: kleene_not_def)
  show "Some b \<in> kleene_not ` R \<longleftrightarrow> Some (\<not> b) \<in> R"
    by (metis (no_types, opaque_lifting) image_iff inv kleene_not_simps(2))
  show "None \<in> kleene_not ` R \<longleftrightarrow> None \<in> R"
    by (force simp: kleene_not_def)
qed

lemma kleene_de_morgan: "kleene_not (kleene_and rs) = kleene_or (map kleene_not rs)"
  by (simp add: kleene_and_def kleene_or_def) (simp add: kleene_not_def)

lemma less_info_refl [simp]: "less_info r r"
  by (simp add: less_info_def)

lemma less_info_None [simp]: "less_info None r"
  by (simp add: less_info_def)

lemma kleene_not_mono: "less_info r r' \<Longrightarrow> less_info (kleene_not r) (kleene_not r')"
  by (auto simp: less_info_def kleene_not_def)

lemma kleene_and_mono: "list_all2 less_info rs rs' \<Longrightarrow> less_info (kleene_and rs) (kleene_and rs')"
proof (induction rule: list_all2_induct)
  case (Cons r rs r' rs')
  then show ?case
    by (auto simp: less_info_def kleene_and_def split: if_splits)
qed simp

lemma kleene_or_mono: "list_all2 less_info rs rs' \<Longrightarrow> less_info (kleene_or rs) (kleene_or rs')"
proof (induction rule: list_all2_induct)
  case (Cons r rs r' rs')
  then show ?case
    by (auto simp: less_info_def kleene_or_def split: if_splits)
qed simp

end
