(* ===== verification/Policy_Types.thy ===== *)
theory Policy_Types
  imports Prelude
begin

text \<open>
  The types shared by the policy loader and the policy engine (\<open>core/policy/types.py\<close>):
  tiers and their ranks, operators, compiled conditions, rules, policies and results, with
  the dictionaries a result renders to.
\<close>

section \<open>Tiers\<close>

datatype tier = LOW | MEDIUM | HIGH | BLOCKED

fun rank :: "tier \<Rightarrow> nat" where
  "rank LOW = 0"
| "rank MEDIUM = 1"
| "rank HIGH = 2"
| "rank BLOCKED = 3"

fun tier_value :: "tier \<Rightarrow> string" where
  "tier_value LOW = ''low''"
| "tier_value MEDIUM = ''medium''"
| "tier_value HIGH = ''high''"
| "tier_value BLOCKED = ''blocked''"

text \<open>\<open>Tier(value)\<close>: the member with that value, or \<open>ValueError\<close>.\<close>

fun Tier :: "pv \<Rightarrow> tier option" where
  "Tier (VStr s) =
     (if s = ''low'' then Some LOW else if s = ''medium'' then Some MEDIUM
      else if s = ''high'' then Some HIGH else if s = ''blocked'' then Some BLOCKED else None)"
| "Tier _ = None"

fun DEFAULT_TIER_SCORE :: "tier \<Rightarrow> int" where
  "DEFAULT_TIER_SCORE LOW = 0"
| "DEFAULT_TIER_SCORE MEDIUM = 20"
| "DEFAULT_TIER_SCORE HIGH = 50"
| "DEFAULT_TIER_SCORE BLOCKED = 100"

definition MAX_SCORE :: int where
  "MAX_SCORE = 100"

definition MAX_SAFE_INTEGER :: int where
  "MAX_SAFE_INTEGER = 2 ^ 53"

definition ENGINE_VERSION :: string where
  "ENGINE_VERSION = ''1''"

text \<open>Severity is the order of the ranks.\<close>

instantiation tier :: linorder
begin

definition less_eq_tier :: "tier \<Rightarrow> tier \<Rightarrow> bool" where
  "less_eq_tier t u = (rank t \<le> rank u)"

definition less_tier :: "tier \<Rightarrow> tier \<Rightarrow> bool" where
  "less_tier t u = (rank t < rank u)"

instance
proof
  fix t u v :: tier
  show "t \<le> u \<Longrightarrow> u \<le> t \<Longrightarrow> t = u"
    by (cases t; cases u) (simp_all add: less_eq_tier_def)
qed (auto simp: less_eq_tier_def less_tier_def)

end

section \<open>Operators, conditions, rules and policies\<close>

datatype policy_status = EXAMPLE | PRODUCTION

fun status_value :: "policy_status \<Rightarrow> string" where
  "status_value EXAMPLE = ''example''"
| "status_value PRODUCTION = ''production''"

fun PolicyStatus :: "pv \<Rightarrow> policy_status option" where
  "PolicyStatus (VStr s) =
     (if s = ''example'' then Some EXAMPLE else if s = ''production'' then Some PRODUCTION else None)"
| "PolicyStatus _ = None"

datatype operator = EQ | NE | IN | NOT_IN | GT | GTE | LT | LTE | EXISTS | MISSING

definition Operator :: "string \<Rightarrow> operator option" where
  "Operator s = dget
     [(''eq'', EQ), (''ne'', NE), (''in'', IN), (''not_in'', NOT_IN), (''gt'', GT),
      (''gte'', GTE), (''lt'', LT), (''lte'', LTE), (''exists'', EXISTS), (''missing'', MISSING)] s"

datatype operand = OScalar pv | OItems "pv list"

datatype condition =
    Compare (cmp_path: string) (cmp_segments: "string list") (cmp_op: operator) (cmp_operand: operand)
  | AllOf "condition list"
  | AnyOf "condition list"
  | NotC condition

record effect =
  eff_tier :: tier
  eff_reason :: string
  eff_score :: int

record rule =
  rule_id :: string
  rule_when :: condition
  rule_effect :: effect
  rule_description :: "string option"

record policy =
  policy_id :: string
  policy_version :: string
  policy_status :: policy_status
  policy_reviewed_by :: "string option"
  policy_description :: "string option"
  policy_rules :: "rule list"
  score_thresholds :: "(tier \<times> int) list"
  content_hash :: string
  policy_source :: string
  referenced_paths :: "string list"

text \<open>Why a policy is refused at load.\<close>

datatype load_reason =
    FILE_UNREADABLE | TOO_LARGE | ENCODING_INVALID | YAML_INVALID | DUPLICATE_KEY | YAML_ALIAS
  | MISSING_FIELD | UNKNOWN_KEY | INVALID_VALUE | INVALID_VERSION | INVALID_CONDITION
  | UNKNOWN_OPERATOR | INVALID_PATH | INVALID_OPERAND | DUPLICATE_RULE_ID | LIMIT_EXCEEDED
  | PRODUCTION_UNREVIEWED | NOT_PRODUCTION | DIRECTORY_INVALID | DUPLICATE_POLICY

section \<open>Results\<close>

record policy_reason =
  rsn_rule_id :: string
  rsn_tier :: tier
  rsn_score :: int
  rsn_reason :: string
  rsn_indeterminate :: bool
  rsn_unresolved :: "string list"

record policy_result =
  res_policy_id :: string
  res_policy_version :: string
  res_policy_status :: policy_status
  res_policy_hash :: string
  res_reviewed_by :: "string option"
  res_engine_version :: string
  res_tier :: tier
  res_tier_source :: string
  res_score :: int
  res_reasons :: "policy_reason list"
  res_fired_rules :: "string list"
  res_inputs :: "pv dict"
  res_missing_inputs :: "string list"
  res_invalid_inputs :: "string list"
  res_inputs_hash :: string

definition opt_str :: "string option \<Rightarrow> pv" where
  "opt_str s = (case s of None \<Rightarrow> VNone | Some x \<Rightarrow> VStr x)"

definition reason_to_dict :: "policy_reason \<Rightarrow> pv dict" where
  "reason_to_dict r =
     [(''rule_id'', VStr (rsn_rule_id r)),
      (''tier'', VStr (tier_value (rsn_tier r))),
      (''score'', VInt (rsn_score r)),
      (''reason'', VStr (rsn_reason r)),
      (''indeterminate'', VBool (rsn_indeterminate r)),
      (''unresolved_paths'', VList (map VStr (rsn_unresolved r)))]"

definition result_to_dict :: "policy_result \<Rightarrow> pv dict" where
  "result_to_dict r =
     [(''policy_id'', VStr (res_policy_id r)),
      (''policy_version'', VStr (res_policy_version r)),
      (''policy_status'', VStr (status_value (res_policy_status r))),
      (''policy_hash'', VStr (res_policy_hash r)),
      (''reviewed_by'', opt_str (res_reviewed_by r)),
      (''engine_version'', VStr (res_engine_version r)),
      (''tier'', VStr (tier_value (res_tier r))),
      (''tier_source'', VStr (res_tier_source r)),
      (''score'', VInt (res_score r)),
      (''reasons'', VList (map (VDict \<circ> reason_to_dict) (res_reasons r))),
      (''fired_rules'', VList (map VStr (res_fired_rules r))),
      (''inputs'', VDict (res_inputs r)),
      (''missing_inputs'', VList (map VStr (res_missing_inputs r))),
      (''invalid_inputs'', VList (map VStr (res_invalid_inputs r))),
      (''inputs_hash'', VStr (res_inputs_hash r))]"

section \<open>Lemmas on tiers\<close>

lemma LOW_least [simp]: "LOW \<le> t"
  by (simp add: less_eq_tier_def)

lemma Tier_value [simp]: "Tier (VStr (tier_value t)) = Some t"
  by (cases t) simp_all

lemma Tier_Some: "Tier v = Some t \<Longrightarrow> v = VStr (tier_value t)"
  by (cases v rule: Tier.cases) (auto split: if_splits)

lemma rank_less [simp]: "rank t < rank u \<longleftrightarrow> t < u"
  by (simp add: less_tier_def)

lemma rank_le [simp]: "rank t \<le> rank u \<longleftrightarrow> t \<le> u"
  by (simp add: less_eq_tier_def)

lemma DEFAULT_TIER_SCORE_bounds: "0 \<le> DEFAULT_TIER_SCORE t \<and> DEFAULT_TIER_SCORE t \<le> MAX_SCORE"
  by (cases t) (simp_all add: MAX_SCORE_def)

end
