(* ===== verification/Policy_Engine.thy ===== *)
theory Policy_Engine
  imports Policy_Types
begin

text \<open>
  Deterministic policy evaluation over the evidence of a case (\<open>core/policy/engine.py\<close>) and
  the rendering of its result as a schema document (\<open>core/policy/document.py\<close>).
  SHA-256 over the canonical JSON of the inputs is the parameter \<open>chash\<close>. The evaluation
  counter and the log lines have no effect on the result and are left out.
\<close>

section \<open>Reading evidence\<close>

datatype reading = Missing | Unreadable | Got pv

datatype vkind = KBool | KNumber | KString

fun kind :: "pv \<Rightarrow> vkind option" where
  "kind (VBool b) = Some KBool"
| "kind (VInt n) = (if - MAX_SAFE_INTEGER \<le> n \<and> n \<le> MAX_SAFE_INTEGER then Some KNumber else None)"
| "kind (VFloat (Fin r)) = Some KNumber"
| "kind (VStr s) = Some KString"
| "kind _ = None"

fun read_path :: "pv \<Rightarrow> string list \<Rightarrow> reading" where
  "read_path v [] = (if v = VNone then Missing else Got v)"
| "read_path (VDict d) (s # ss) = (case dget d s of None \<Rightarrow> Missing | Some v \<Rightarrow> read_path v ss)"
| "read_path VBroken (s # ss) = Unreadable"
| "read_path _ (s # ss) = Missing"

definition non_scalar :: "string \<Rightarrow> pv" where
  "non_scalar s = VDict [(''non_scalar'', VStr s)]"

fun snapshot :: "reading \<Rightarrow> pv" where
  "snapshot Missing = VNone"
| "snapshot Unreadable = non_scalar ''unreadable''"
| "snapshot (Got v) =
     (if kind v \<noteq> None then v else
      case v of
        VFloat f \<Rightarrow> non_scalar ''non_finite_number''
      | VInt n \<Rightarrow> non_scalar ''integer_out_of_range''
      | VDict d \<Rightarrow> non_scalar ''mapping''
      | VBroken \<Rightarrow> non_scalar ''mapping''
      | VList xs \<Rightarrow> non_scalar ''list''
      | VTuple xs \<Rightarrow> non_scalar ''list''
      | _ \<Rightarrow> non_scalar ''other'')"

section \<open>Truth of a condition\<close>

text \<open>The set of unresolved paths is threaded through as the list of its elements.\<close>

type_synonym readings = "reading dict"
type_synonym truth_result = "(py_error, bool option \<times> string list) res"

definition unresolved :: "string \<Rightarrow> string list \<Rightarrow> truth_result" where
  "unresolved p u = Inr (None, List.insert p u)"

definition operand_kind :: "operand \<Rightarrow> vkind option" where
  "operand_kind opd = (case opd of OScalar v \<Rightarrow> kind v | OItems xs \<Rightarrow> None)"

fun compare_scalar :: "operator \<Rightarrow> pv \<Rightarrow> pv \<Rightarrow> (py_error, bool) res" where
  "compare_scalar EQ v w = Inr (py_eq v w)"
| "compare_scalar NE v w = Inr (\<not> py_eq v w)"
| "compare_scalar GT v w = py_lt w v"
| "compare_scalar GTE v w = py_le w v"
| "compare_scalar LT v w = py_lt v w"
| "compare_scalar LTE v w = py_le v w"
| "compare_scalar _ v w = Inl (TypeError ''unhandled operator'')"

definition compare_leaf ::
  "readings \<Rightarrow> string \<Rightarrow> operator \<Rightarrow> operand \<Rightarrow> string list \<Rightarrow> truth_result" where
  "compare_leaf vs p op opd u =
     rbind (dindex vs p) (\<lambda>value.
       if value = Unreadable then unresolved p u
       else if op = EXISTS then Inr (Some (value \<noteq> Missing), u)
       else if op = MISSING then Inr (Some (value = Missing), u)
       else case value of
         Got v \<Rightarrow>
           (case kind v of
              None \<Rightarrow> unresolved p u
            | Some k \<Rightarrow>
                if op = IN \<or> op = NOT_IN then
                  (let items = (case opd of OItems xs \<Rightarrow> xs | OScalar w \<Rightarrow> [w]) in
                   case items of
                     [] \<Rightarrow> Inl IndexError
                   | w # ws \<Rightarrow>
                       if Some k \<noteq> kind w then unresolved p u
                       else let found = list_ex (py_eq v) items
                            in Inr (Some (if op = IN then found else \<not> found), u))
                else if Some k \<noteq> operand_kind opd then unresolved p u
                else case opd of
                  OScalar w \<Rightarrow> rbind (compare_scalar op v w) (\<lambda>b. Inr (Some b, u))
                | OItems xs \<Rightarrow> unresolved p u)
       | _ \<Rightarrow> unresolved p u)"

fun truth :: "readings \<Rightarrow> condition \<Rightarrow> string list \<Rightarrow> truth_result"
and truths :: "readings \<Rightarrow> condition list \<Rightarrow> string list \<Rightarrow> (py_error, bool option list \<times> string list) res"
where
  "truth vs (Compare p segs op opd) u = compare_leaf vs p op opd u"
| "truth vs (NotC c) u = rbind (truth vs c u) (\<lambda>(r, u'). Inr (kleene_not r, u'))"
| "truth vs (AllOf cs) u = rbind (truths vs cs u) (\<lambda>(rs, u'). Inr (kleene_and rs, u'))"
| "truth vs (AnyOf cs) u = rbind (truths vs cs u) (\<lambda>(rs, u'). Inr (kleene_or rs, u'))"
| "truths vs [] u = Inr ([], u)"
| "truths vs (c # cs) u =
     rbind (truth vs c u) (\<lambda>(r, u'). rbind (truths vs cs u') (\<lambda>(rs, u''). Inr (r # rs, u'')))"

section \<open>Evaluation\<close>

fun index_paths :: "condition \<Rightarrow> pv \<Rightarrow> readings \<Rightarrow> readings"
and index_all :: "condition list \<Rightarrow> pv \<Rightarrow> readings \<Rightarrow> readings"
where
  "index_paths (Compare p segs op opd) ev into =
     (if dhas into p then into else dset into p (read_path ev segs))"
| "index_paths (NotC c) ev into = index_paths c ev into"
| "index_paths (AllOf cs) ev into = index_all cs ev into"
| "index_paths (AnyOf cs) ev into = index_all cs ev into"
| "index_all [] ev into = into"
| "index_all (c # cs) ev into = index_all cs ev (index_paths c ev into)"

definition make_reason :: "rule \<Rightarrow> bool option \<Rightarrow> string list \<Rightarrow> policy_reason" where
  "make_reason r t u = \<lparr> rsn_rule_id = rule_id r, rsn_tier = eff_tier (rule_effect r),
     rsn_score = eff_score (rule_effect r), rsn_reason = eff_reason (rule_effect r),
     rsn_indeterminate = (t = None), rsn_unresolved = sort u \<rparr>"

fun fire :: "readings \<Rightarrow> nat \<Rightarrow> rule list \<Rightarrow> (py_error, (nat \<times> policy_reason) list) res" where
  "fire vs i [] = Inr []"
| "fire vs i (r # rs) =
     rbind (truth vs (rule_when r) []) (\<lambda>(t, u).
       rbind (fire vs (Suc i) rs) (\<lambda>rest.
         Inr (if t = Some False then rest else (i, make_reason r t u) # rest)))"

definition order_fired :: "(nat \<times> policy_reason) list \<Rightarrow> policy_reason list" where
  "order_fired fired =
     map snd (sort_key (\<lambda>(i, r). (- int (rank (rsn_tier r)), int i)) fired)"

definition total_score :: "policy_reason list \<Rightarrow> int" where
  "total_score reasons = min MAX_SCORE (sum_list (map rsn_score reasons))"

definition rules_tier :: "policy_reason list \<Rightarrow> tier" where
  "rules_tier reasons =
     foldl (\<lambda>t r. if rank (rsn_tier r) > rank t then rsn_tier r else t) LOW reasons"

definition escalate_tier :: "(tier \<times> int) list \<Rightarrow> int \<Rightarrow> tier \<Rightarrow> tier \<times> string" where
  "escalate_tier thresholds score t0 =
     foldl (\<lambda>(t, src) (tt, minimum).
              if score \<ge> minimum \<and> rank tt > rank t then (tt, ''score_threshold'') else (t, src))
       (t0, ''rules'') thresholds"

definition is_mapping :: "pv \<Rightarrow> bool" where
  "is_mapping v = (case v of VDict d \<Rightarrow> True | VBroken \<Rightarrow> True | _ \<Rightarrow> False)"

definition read_all :: "policy \<Rightarrow> pv \<Rightarrow> readings" where
  "read_all p ev = foldl (\<lambda>vs r. index_paths (rule_when r) ev vs) [] (policy_rules p)"

definition unusable :: "reading \<Rightarrow> bool" where
  "unusable r = (case r of Got v \<Rightarrow> kind v = None | Unreadable \<Rightarrow> True | Missing \<Rightarrow> False)"

definition build_result ::
  "(pv dict \<Rightarrow> string) \<Rightarrow> policy \<Rightarrow> (string \<times> reading) list \<Rightarrow> policy_reason list \<Rightarrow> policy_result" where
  "build_result chash p rds reasons =
     (let inputs = dict_of (map (\<lambda>(path, r). (path, snapshot r)) rds);
          score = total_score reasons;
          ts = escalate_tier (score_thresholds p) score (rules_tier reasons)
      in \<lparr> res_policy_id = policy_id p, res_policy_version = policy_version p,
           res_policy_status = policy_status p, res_policy_hash = content_hash p,
           res_reviewed_by = policy_reviewed_by p, res_engine_version = ENGINE_VERSION,
           res_tier = fst ts, res_tier_source = snd ts, res_score = score,
           res_reasons = reasons, res_fired_rules = map rsn_rule_id reasons,
           res_inputs = inputs,
           res_missing_inputs = map fst (filter (\<lambda>(path, r). r = Missing) rds),
           res_invalid_inputs = map fst (filter (\<lambda>(path, r). unusable r) rds),
           res_inputs_hash = chash inputs \<rparr>)"

definition evaluate ::
  "(pv dict \<Rightarrow> string) \<Rightarrow> policy \<Rightarrow> pv \<Rightarrow> (py_error, policy_result) res" where
  "evaluate chash p ev =
     rbind (ensure (is_mapping ev) (TypeError ''evidence must be a mapping'')) (\<lambda>_.
       let vs = read_all p ev in
       rbind (map_res (\<lambda>path. rbind (dindex vs path) (\<lambda>r. Inr (path, r))) (referenced_paths p)) (\<lambda>rds.
         rbind (fire vs 0 (policy_rules p)) (\<lambda>fired.
           Inr (build_result chash p rds (order_fired fired)))))"

section \<open>The result document\<close>

fun paths_of :: "condition \<Rightarrow> string list"
and paths_of_all :: "condition list \<Rightarrow> string list"
where
  "paths_of (Compare p segs op opd) = [p]"
| "paths_of (NotC c) = paths_of c"
| "paths_of (AllOf cs) = paths_of_all cs"
| "paths_of (AnyOf cs) = paths_of_all cs"
| "paths_of_all [] = []"
| "paths_of_all (c # cs) = paths_of c @ paths_of_all cs"

definition sorted_paths :: "string list \<Rightarrow> string list" where
  "sorted_paths ps = sort (remdups ps)"

fun doc_scalar :: "pv \<Rightarrow> pv" where
  "doc_scalar (VStr s) = VStr s"
| "doc_scalar (VBool b) = VBool b"
| "doc_scalar (VInt n) = VInt n"
| "doc_scalar (VFloat f) = VFloat f"
| "doc_scalar _ = VNone"

definition reason_document :: "policy_result \<Rightarrow> (string list) dict \<Rightarrow> policy_reason \<Rightarrow> (py_error, pv) res" where
  "reason_document res rule_paths r =
     rbind (dindex rule_paths (rsn_rule_id r)) (\<lambda>ps.
       Inr (VDict
         [(''rule_id'', VStr (rsn_rule_id r)),
          (''tier'', VStr (tier_value (rsn_tier r))),
          (''reason'', VStr (rsn_reason r)),
          (''score'', VInt (rsn_score r)),
          (''inputs'', VDict (dict_of (map (\<lambda>p. (p, doc_scalar (vget (res_inputs res) p))) ps)))]))"

definition policy_result_document :: "policy \<Rightarrow> policy_result \<Rightarrow> (py_error, pv) res" where
  "policy_result_document p res =
     rbind (ensure ((policy_id p, policy_version p, content_hash p) =
                    (res_policy_id res, res_policy_version res, res_policy_hash res))
              (ValueError ''result was not produced by this policy'')) (\<lambda>_.
       let rule_paths =
             dict_of (map (\<lambda>r. (rule_id r, sorted_paths (paths_of (rule_when r)))) (policy_rules p))
       in rbind (map_res (reason_document res rule_paths) (res_reasons res)) (\<lambda>rs.
            Inr (VDict
              [(''schema_version'', VStr ''1.0.0''),
               (''policy'', VDict
                  [(''policy_id'', VStr (res_policy_id res)),
                   (''version'', VStr (res_policy_version res)),
                   (''example'', VBool (res_policy_status res = EXAMPLE)),
                   (''reviewed_by'', opt_str (res_reviewed_by res))]),
               (''inputs_digest'', VStr (res_inputs_hash res)),
               (''score'', VInt (res_score res)),
               (''tier'', VStr (tier_value (res_tier res))),
               (''reasons'', VList rs)])))"

section \<open>Well-formed policies\<close>

text \<open>What the engine relies on of a compiled policy; the loader establishes it.\<close>

fun leaf_ok :: "operator \<Rightarrow> operand \<Rightarrow> bool" where
  "leaf_ok EXISTS opd = (opd = OScalar (VBool True))"
| "leaf_ok MISSING opd = (opd = OScalar (VBool True))"
| "leaf_ok op (OItems xs) =
     ((op = IN \<or> op = NOT_IN) \<and> xs \<noteq> [] \<and> list_all (\<lambda>x. kind x \<noteq> None \<and> kind x = kind (hd xs)) xs)"
| "leaf_ok op (OScalar w) =
     (if op = EQ \<or> op = NE then kind w \<noteq> None
      else op \<noteq> IN \<and> op \<noteq> NOT_IN \<and> kind w = Some KNumber)"

fun cond_ok :: "condition \<Rightarrow> bool" where
  "cond_ok (Compare p segs op opd) = (segs = split_on ''.'' p \<and> leaf_ok op opd)"
| "cond_ok (NotC c) = cond_ok c"
| "cond_ok (AllOf cs) = (cs \<noteq> [] \<and> (\<forall>c \<in> set cs. cond_ok c))"
| "cond_ok (AnyOf cs) = (cs \<noteq> [] \<and> (\<forall>c \<in> set cs. cond_ok c))"

definition rule_ok :: "rule \<Rightarrow> bool" where
  "rule_ok r \<longleftrightarrow> cond_ok (rule_when r) \<and> 0 \<le> eff_score (rule_effect r) \<and> eff_score (rule_effect r) \<le> MAX_SCORE"

definition policy_paths :: "rule list \<Rightarrow> string list" where
  "policy_paths rs = sorted_paths (concat (map (\<lambda>r. paths_of (rule_when r)) rs))"

definition thresholds_ok :: "(tier \<times> int) list \<Rightarrow> bool" where
  "thresholds_ok ts \<longleftrightarrow> sorted_wrt (\<lambda>a b. fst a < fst b \<and> snd a < snd b) ts
     \<and> (\<forall>(t, m) \<in> set ts. t \<noteq> LOW \<and> 1 \<le> m \<and> m \<le> MAX_SCORE)"

definition policy_ok :: "policy \<Rightarrow> bool" where
  "policy_ok p \<longleftrightarrow> policy_rules p \<noteq> [] \<and> list_all rule_ok (policy_rules p)
     \<and> distinct (map rule_id (policy_rules p)) \<and> thresholds_ok (score_thresholds p)
     \<and> referenced_paths p = policy_paths (policy_rules p)
     \<and> (policy_status p = PRODUCTION \<longrightarrow> policy_reviewed_by p \<noteq> None)"

section \<open>The abstract specification\<close>

text \<open>
  A condition denotes a three-valued truth value of the readings alone; a rule fires unless
  its condition is false; score and tier are a capped sum and a maximum over the fired rules.
\<close>

definition leaf_sem :: "reading \<Rightarrow> operator \<Rightarrow> operand \<Rightarrow> bool option" where
  "leaf_sem r op opd =
     (if r = Unreadable then None
      else if op = EXISTS then Some (r \<noteq> Missing)
      else if op = MISSING then Some (r = Missing)
      else case r of
        Got v \<Rightarrow>
          (case opd of
             OItems xs \<Rightarrow>
               if kind v = None \<or> kind v \<noteq> kind (hd xs) then None
               else Some ((list_ex (py_eq v) xs) = (op = IN))
           | OScalar w \<Rightarrow>
               if kind v = None \<or> kind v \<noteq> kind w then None
               else case compare_scalar op v w of Inr b \<Rightarrow> Some b | Inl e \<Rightarrow> None)
      | _ \<Rightarrow> None)"

fun sem :: "(string \<Rightarrow> reading) \<Rightarrow> condition \<Rightarrow> bool option" where
  "sem \<rho> (Compare p segs op opd) = leaf_sem (\<rho> p) op opd"
| "sem \<rho> (NotC c) = kleene_not (sem \<rho> c)"
| "sem \<rho> (AllOf cs) = kleene_and (map (sem \<rho>) cs)"
| "sem \<rho> (AnyOf cs) = kleene_or (map (sem \<rho>) cs)"

definition evidence_reading :: "pv \<Rightarrow> string \<Rightarrow> reading" where
  "evidence_reading ev p = read_path ev (split_on ''.'' p)"

definition fires :: "(string \<Rightarrow> reading) \<Rightarrow> rule \<Rightarrow> bool" where
  "fires \<rho> r \<longleftrightarrow> sem \<rho> (rule_when r) \<noteq> Some False"

definition spec_score :: "(string \<Rightarrow> reading) \<Rightarrow> policy \<Rightarrow> int" where
  "spec_score \<rho> p = min MAX_SCORE (\<Sum>r\<leftarrow>filter (fires \<rho>) (policy_rules p). eff_score (rule_effect r))"

definition spec_tier :: "(string \<Rightarrow> reading) \<Rightarrow> policy \<Rightarrow> tier" where
  "spec_tier \<rho> p = Max (insert LOW
     ((\<lambda>r. eff_tier (rule_effect r)) ` set (filter (fires \<rho>) (policy_rules p))
      \<union> fst ` set (filter (\<lambda>(t, m). m \<le> spec_score \<rho> p) (score_thresholds p))))"

text \<open>
  A reading \<open>r'\<close> has lost evidence against \<open>r\<close>: the path became unreadable or, for a path no
  \<open>exists\<close> or \<open>missing\<close> operator reads, absent or unusable.
\<close>

fun presence_paths :: "condition \<Rightarrow> string set" where
  "presence_paths (Compare p segs op opd) = (if op = EXISTS \<or> op = MISSING then {p} else {})"
| "presence_paths (NotC c) = presence_paths c"
| "presence_paths (AllOf cs) = \<Union> (set (map presence_paths cs))"
| "presence_paths (AnyOf cs) = \<Union> (set (map presence_paths cs))"

definition policy_presence_paths :: "policy \<Rightarrow> string set" where
  "policy_presence_paths p = \<Union> (set (map (\<lambda>r. presence_paths (rule_when r)) (policy_rules p)))"

definition lost :: "string set \<Rightarrow> string \<Rightarrow> reading \<Rightarrow> reading \<Rightarrow> bool" where
  "lost P q r' r \<longleftrightarrow> r' = r \<or> r' = Unreadable \<or> q \<notin> P \<and> (r' = Missing \<or> unusable r')"

definition rule_pos :: "policy \<Rightarrow> string \<Rightarrow> nat" where
  "rule_pos p i = length (takeWhile (\<lambda>r. rule_id r \<noteq> i) (policy_rules p))"

section \<open>The engine computes the denotation\<close>

lemma kind_same_ordered:
  assumes "kind v = Some k" "kind w = Some k"
  shows "\<exists>b. py_lt v w = Inr b" "\<exists>b. py_le v w = Inr b"
  using assms by (cases v rule: kind.cases; cases w rule: kind.cases;
      auto simp: py_lt_def py_le_def split: if_splits)+

lemma compare_scalar_total:
  assumes "kind v = Some k" "kind w = Some k" "op \<notin> {IN, NOT_IN, EXISTS, MISSING}"
  shows "\<exists>b. compare_scalar op v w = Inr b"
  using assms kind_same_ordered [of v k w] kind_same_ordered [of w k v] by (cases op) auto

lemma compare_leaf_sem:
  assumes ok: "leaf_ok op opd" and r: "dget vs p = Some r"
  shows "compare_leaf vs p op opd u =
     Inr (leaf_sem r op opd, if leaf_sem r op opd = None then List.insert p u else u)"
proof (cases "r = Unreadable \<or> op = EXISTS \<or> op = MISSING")
  case True
  with r show ?thesis
    by (auto simp: compare_leaf_def leaf_sem_def dindex_def unresolved_def)
next
  case F: False
  show ?thesis
  proof (cases r)
    case Missing
    with r F show ?thesis by (simp add: compare_leaf_def leaf_sem_def dindex_def unresolved_def)
  next
    case (Got v)
    show ?thesis
    proof (cases opd)
      case (OItems xs)
      with ok F have xs: "xs \<noteq> []" "op = IN \<or> op = NOT_IN" by (cases op; auto)+
      with Got r F OItems show ?thesis
        by (cases xs) (auto simp: compare_leaf_def leaf_sem_def dindex_def unresolved_def Let_def
            split: option.splits)
    next
      case (OScalar w)
      with ok F have op: "op \<notin> {IN, NOT_IN, EXISTS, MISSING}" by (cases op) auto
      show ?thesis
      proof (cases "kind v \<noteq> None \<and> kind v = kind w")
        case True
        then obtain b where "compare_scalar op v w = Inr b"
          using compare_scalar_total op by (metis not_Some_eq)
        with True OScalar Got r F op show ?thesis
          by (auto simp: compare_leaf_def leaf_sem_def dindex_def operand_kind_def)
      next
        case False
        with OScalar Got r F op show ?thesis
          by (auto simp: compare_leaf_def leaf_sem_def dindex_def operand_kind_def unresolved_def
              split: option.splits)
      qed
    qed
  qed (use F in simp)
qed

definition lookup_reading :: "readings \<Rightarrow> string \<Rightarrow> reading" where
  "lookup_reading vs p = (case dget vs p of None \<Rightarrow> Missing | Some r \<Rightarrow> r)"

definition names_unresolved :: "(string \<Rightarrow> reading) \<Rightarrow> string list \<Rightarrow> string list \<Rightarrow> string list \<Rightarrow> bool \<Rightarrow> bool" where
  "names_unresolved \<rho> ps u u' unknown \<longleftrightarrow>
     set u \<subseteq> set u' \<and> set u' \<subseteq> set u \<union> set ps \<and> (unknown \<longrightarrow> (\<exists>q \<in> set ps. q \<in> set u'))
     \<and> (distinct u \<longrightarrow> distinct u')"

lemma truth_sem_aux:
  "cond_ok c \<Longrightarrow> set (paths_of c) \<subseteq> set (dkeys vs) \<Longrightarrow>
     \<exists>u'. truth vs c u = Inr (sem (lookup_reading vs) c, u')
        \<and> names_unresolved (lookup_reading vs) (paths_of c) u u' (sem (lookup_reading vs) c = None)"
  "\<forall>c \<in> set cs. cond_ok c \<Longrightarrow> set (paths_of_all cs) \<subseteq> set (dkeys vs) \<Longrightarrow>
     \<exists>u'. truths vs cs u = Inr (map (sem (lookup_reading vs)) cs, u')
        \<and> names_unresolved (lookup_reading vs) (paths_of_all cs) u u'
             (None \<in> set (map (sem (lookup_reading vs)) cs))"
proof (induction vs c u and vs cs u rule: truth_truths.induct)
  case (1 vs p segs op opd u)
  then obtain r where r: "dget vs p = Some r"
    by (auto simp flip: dhas_keys simp: dhas_def)
  with 1 show ?case
    by (auto simp: compare_leaf_sem lookup_reading_def names_unresolved_def)
next
  case (2 vs c u)
  then show ?case by (fastforce simp: kleene_simps)
next
  case (3 vs cs u)
  then obtain u' where "truths vs cs u = Inr (map (sem (lookup_reading vs)) cs, u')"
    "names_unresolved (lookup_reading vs) (paths_of_all cs) u u'
       (None \<in> set (map (sem (lookup_reading vs)) cs))" by auto
  then show ?case by (auto simp: names_unresolved_def kleene_simps)
next
  case (4 vs cs u)
  then obtain u' where "truths vs cs u = Inr (map (sem (lookup_reading vs)) cs, u')"
    "names_unresolved (lookup_reading vs) (paths_of_all cs) u u'
       (None \<in> set (map (sem (lookup_reading vs)) cs))" by auto
  then show ?case by (auto simp: names_unresolved_def kleene_simps)
next
  case (5 vs u)
  then show ?case by (simp add: names_unresolved_def)
next
  case (6 vs c cs u)
  let ?\<rho> = "lookup_reading vs"
  from 6 obtain u1 where u1: "truth vs c u = Inr (sem ?\<rho> c, u1)"
    "names_unresolved ?\<rho> (paths_of c) u u1 (sem ?\<rho> c = None)" by auto
  from 6(2) [OF u1(1) refl] 6(3,4) obtain u2 where u2: "truths vs cs u1 = Inr (map (sem ?\<rho>) cs, u2)"
    "names_unresolved ?\<rho> (paths_of_all cs) u1 u2 (None \<in> set (map (sem ?\<rho>) cs))" by auto
  have "names_unresolved ?\<rho> (paths_of_all (c # cs)) u u2 (None \<in> set (map (sem ?\<rho>) (c # cs)))"
    using u1(2) u2(2) unfolding names_unresolved_def by auto
  with u1 u2 show ?case by auto
qed

lemma truth_sem:
  assumes "cond_ok c" "set (paths_of c) \<subseteq> set (dkeys vs)"
  obtains u where "truth vs c [] = Inr (sem (lookup_reading vs) c, u)" "distinct u"
    "set u \<subseteq> set (paths_of c)" "sem (lookup_reading vs) c = None \<Longrightarrow> u \<noteq> []"
proof -
  from truth_sem_aux(1) [OF assms, of "[]"] obtain u where
    "truth vs c [] = Inr (sem (lookup_reading vs) c, u)"
    "names_unresolved (lookup_reading vs) (paths_of c) [] u (sem (lookup_reading vs) c = None)"
    by blast
  then show thesis
    by (intro that [of u]) (auto simp: names_unresolved_def)
qed

section \<open>Indexing reads every path once\<close>

lemma index_keys:
  "set (dkeys (index_paths c ev vs)) = set (dkeys vs) \<union> set (paths_of c)"
  "set (dkeys (index_all cs ev vs)) = set (dkeys vs) \<union> set (paths_of_all cs)"
  by (induction c ev vs and cs ev vs rule: index_paths_index_all.induct) (auto simp: dhas_keys)

definition reads_ok :: "pv \<Rightarrow> readings \<Rightarrow> bool" where
  "reads_ok ev vs \<longleftrightarrow> (\<forall>p r. dget vs p = Some r \<longrightarrow> r = evidence_reading ev p)"

lemma reads_okD: "reads_ok ev vs \<Longrightarrow> dget vs p = Some r \<Longrightarrow> r = evidence_reading ev p"
  by (simp add: reads_ok_def)

lemma reads_ok_dset: "reads_ok ev vs \<Longrightarrow> reads_ok ev (dset vs p (evidence_reading ev p))"
  by (simp add: reads_ok_def)

lemma index_reads_ok:
  "cond_ok c \<Longrightarrow> reads_ok ev vs \<Longrightarrow> reads_ok ev (index_paths c ev vs)"
  "\<forall>c \<in> set cs. cond_ok c \<Longrightarrow> reads_ok ev vs \<Longrightarrow> reads_ok ev (index_all cs ev vs)"
  by (induction c ev vs and cs ev vs rule: index_paths_index_all.induct)
    (simp_all add: reads_ok_dset [unfolded evidence_reading_def])

lemma read_all_reads_ok:
  assumes "list_all rule_ok (policy_rules p)"
  shows "reads_ok ev (read_all p ev)"
proof -
  have step: "list_all rule_ok rs \<Longrightarrow> reads_ok ev vs \<Longrightarrow>
      reads_ok ev (foldl (\<lambda>vs r. index_paths (rule_when r) ev vs) vs rs)" for rs vs
    by (induction rs arbitrary: vs) (auto simp: rule_ok_def index_reads_ok)
  have "reads_ok ev []" by (simp add: reads_ok_def)
  from step [OF assms this] show ?thesis by (simp add: read_all_def)
qed

lemma read_all_keys:
  "set (dkeys (read_all p ev)) = (\<Union>r \<in> set (policy_rules p). set (paths_of (rule_when r)))"
proof -
  have keys: "set (dkeys (foldl (\<lambda>vs r. index_paths (rule_when r) ev vs) vs rs)) =
      set (dkeys vs) \<union> (\<Union>r \<in> set rs. set (paths_of (rule_when r)))" for vs rs
    by (induction rs arbitrary: vs) (auto simp: index_keys)
  show ?thesis by (simp add: read_all_def keys)
qed

lemma read_all_lookup:
  assumes "list_all rule_ok (policy_rules p)" "q \<in> set (dkeys (read_all p ev))"
  shows "dget (read_all p ev) q = Some (evidence_reading ev q)"
proof -
  from assms(2) obtain r where "dget (read_all p ev) q = Some r"
    by (auto simp: dhas_def simp flip: dhas_keys)
  with read_all_reads_ok [OF assms(1)] show ?thesis by (auto dest: reads_okD)
qed

lemma sem_cong:
  "(\<And>q. q \<in> set (paths_of c) \<Longrightarrow> \<rho> q = \<rho>' q) \<Longrightarrow> sem \<rho> c = sem \<rho>' c"
  "(\<And>q. q \<in> set (paths_of_all cs) \<Longrightarrow> \<rho> q = \<rho>' q) \<Longrightarrow> map (sem \<rho>) cs = map (sem \<rho>') cs"
proof (induction c and cs rule: paths_of_paths_of_all.induct)
  case (3 cs)
  then show ?case by (metis paths_of.simps(3) sem.simps(3))
next
  case (4 cs)
  then show ?case by (metis paths_of.simps(4) sem.simps(4))
qed auto

section \<open>Firing, ordering, scoring\<close>

definition reason_for :: "(string \<Rightarrow> reading) \<Rightarrow> rule \<Rightarrow> policy_reason \<Rightarrow> bool" where
  "reason_for \<rho> r x \<longleftrightarrow> (\<exists>u. x = make_reason r (sem \<rho> (rule_when r)) u \<and> distinct u
     \<and> set u \<subseteq> set (paths_of (rule_when r)) \<and> (sem \<rho> (rule_when r) = None \<longrightarrow> u \<noteq> []))"

lemma reason_for_simps:
  assumes "reason_for \<rho> r x"
  shows "rsn_rule_id x = rule_id r" "rsn_tier x = eff_tier (rule_effect r)"
    "rsn_score x = eff_score (rule_effect r)"
    "rsn_indeterminate x \<longleftrightarrow> sem \<rho> (rule_when r) = None"
    "set (rsn_unresolved x) \<subseteq> set (paths_of (rule_when r))"
    "rsn_indeterminate x \<Longrightarrow> rsn_unresolved x \<noteq> []"
  using assms by (auto simp: reason_for_def make_reason_def)

lemma fire_spec:
  assumes "list_all rule_ok rs" "\<And>r. r \<in> set rs \<Longrightarrow> set (paths_of (rule_when r)) \<subseteq> set (dkeys vs)"
  shows "\<exists>fs. fire vs i rs = Inr fs \<and>
     list_all2 (\<lambda>(j, x) (j', r). j = j' \<and> reason_for (lookup_reading vs) r x) fs
       (filter (\<lambda>(j, r). fires (lookup_reading vs) r) (enumerate i rs))"
  using assms
proof (induction rs arbitrary: i)
  case (Cons r rs)
  let ?\<rho> = "lookup_reading vs"
  from Cons.prems have "cond_ok (rule_when r)" "set (paths_of (rule_when r)) \<subseteq> set (dkeys vs)"
    by (auto simp: rule_ok_def)
  then obtain u where u: "truth vs (rule_when r) [] = Inr (sem ?\<rho> (rule_when r), u)" "distinct u"
    "set u \<subseteq> set (paths_of (rule_when r))" "sem ?\<rho> (rule_when r) = None \<Longrightarrow> u \<noteq> []"
    using truth_sem by blast
  then have rf: "reason_for ?\<rho> r (make_reason r (sem ?\<rho> (rule_when r)) u)"
    by (auto simp: reason_for_def)
  from Cons.IH [of "Suc i"] Cons.prems obtain fs where fs: "fire vs (Suc i) rs = Inr fs"
    "list_all2 (\<lambda>(j, x) (j', r). j = j' \<and> reason_for ?\<rho> r x) fs
       (filter (\<lambda>(j, r). fires ?\<rho> r) (enumerate (Suc i) rs))" by auto
  show ?case
    using u(1) fs rf by (auto simp: fires_def)
qed simp

lemma order_fired_mset: "mset (order_fired fired) = mset (map snd fired)"
  unfolding order_fired_def mset_map by simp

lemma rules_tier_Max: "rules_tier reasons = Max (insert LOW (rsn_tier ` set reasons))"
proof -
  have "foldl (\<lambda>t r. if rank (rsn_tier r) > rank t then rsn_tier r else t) t rs
      = Max (insert t (rsn_tier ` set rs))" for t rs
  proof (induction rs arbitrary: t)
    case (Cons r rs)
    have "(if rank (rsn_tier r) > rank t then rsn_tier r else t) = max t (rsn_tier r)"
      by (simp add: max_def not_less less_le_not_le)
    then show ?case using Cons.IH [of "max t (rsn_tier r)"] by (simp add: Max_insert_max)
  qed simp
  then show ?thesis by (simp add: rules_tier_def)
qed

lemma escalate_tier_Max:
  "fst (escalate_tier ts score t) = Max (insert t (fst ` set (filter (\<lambda>(tt, m). m \<le> score) ts)))"
proof -
  have "fst (foldl (\<lambda>(t, src) (tt, m). if score \<ge> m \<and> rank tt > rank t then (tt, ''score_threshold'')
           else (t, src)) (t, src) ts)
      = Max (insert t (fst ` set (filter (\<lambda>(tt, m). m \<le> score) ts)))" for t src
  proof (induction ts arbitrary: t src)
    case (Cons p ts)
    obtain tt m where p: "p = (tt, m)" by force
    let ?S = "fst ` set (filter (\<lambda>(tt, m). m \<le> score) ts)"
    have mx: "Max (insert (max t x) ?S) = Max (insert t (insert x ?S))" for x
      by (rule Max_insert_max) simp
    show ?case
    proof (cases "m \<le> score")
      case True
      then have "(if score \<ge> m \<and> rank tt > rank t then (tt, ''score_threshold'') else (t, src))
          = (max t tt, if t < tt then ''score_threshold'' else src)"
        by (auto simp: max_def)
      moreover have "set (filter (\<lambda>(tt, m). m \<le> score) (p # ts))
          = insert (tt, m) (set (filter (\<lambda>(tt, m). m \<le> score) ts))"
        using True p by simp
      ultimately show ?thesis
        using Cons.IH [of "max t tt"] p mx [of tt] by (simp only: foldl.simps prod.case image_insert fst_conv)
    qed (use Cons.IH p in auto)
  qed simp
  then show ?thesis by (simp add: escalate_tier_def)
qed

lemma sorted_paths_set [simp]: "set (sorted_paths ps) = set ps"
  by (simp add: sorted_paths_def)

lemma sorted_paths_distinct [simp]: "distinct (sorted_paths ps)"
  by (simp add: sorted_paths_def)

lemma policy_paths_set [simp]: "set (policy_paths rs) = (\<Union>r \<in> set rs. set (paths_of (rule_when r)))"
  by (auto simp: policy_paths_def)

section \<open>The result of an evaluation\<close>

definition fired_by :: "(string \<Rightarrow> reading) \<Rightarrow> rule list \<Rightarrow> (nat \<times> policy_reason) list \<Rightarrow> bool" where
  "fired_by \<rho> rs fs \<longleftrightarrow> list_all2 (\<lambda>(j, x) (j', r). j = j' \<and> reason_for \<rho> r x) fs
     (filter (\<lambda>(j, r). fires \<rho> r) (enumerate 0 rs))"

lemma reason_for_cong:
  assumes "\<And>q. q \<in> set (paths_of (rule_when r)) \<Longrightarrow> \<rho> q = \<rho>' q"
  shows "reason_for \<rho> r = reason_for \<rho>' r" "fires \<rho> r = fires \<rho>' r"
  using sem_cong(1) [of "rule_when r" \<rho> \<rho>'] assms
  by (auto simp: reason_for_def fires_def fun_eq_iff)

lemma read_all_reading:
  assumes "list_all rule_ok (policy_rules p)" "r \<in> set (policy_rules p)"
    "q \<in> set (paths_of (rule_when r))"
  shows "lookup_reading (read_all p ev) q = evidence_reading ev q"
proof -
  from assms have "q \<in> set (dkeys (read_all p ev))" by (auto simp: read_all_keys)
  from read_all_lookup [OF assms(1) this] show ?thesis by (simp add: lookup_reading_def)
qed

lemma evaluate_eq:
  assumes ok: "policy_ok p" and ev: "is_mapping ev"
  obtains fs where "fire (read_all p ev) 0 (policy_rules p) = Inr fs"
    "fired_by (evidence_reading ev) (policy_rules p) fs"
    "evaluate chash p ev = Inr (build_result chash p
       (map (\<lambda>q. (q, evidence_reading ev q)) (referenced_paths p)) (order_fired fs))"
proof -
  let ?vs = "read_all p ev" and ?rs = "policy_rules p"
  from ok have rok: "list_all rule_ok ?rs" and ref: "referenced_paths p = policy_paths ?rs"
    by (auto simp: policy_ok_def)
  have "\<And>r. r \<in> set ?rs \<Longrightarrow> set (paths_of (rule_when r)) \<subseteq> set (dkeys ?vs)"
    by (auto simp: read_all_keys)
  from fire_spec [OF rok this] obtain fs where fs: "fire ?vs 0 ?rs = Inr fs"
    "list_all2 (\<lambda>(j, x) (j', r). j = j' \<and> reason_for (lookup_reading ?vs) r x) fs
       (filter (\<lambda>(j, r). fires (lookup_reading ?vs) r) (enumerate 0 ?rs))" by blast
  have cong: "reason_for (lookup_reading ?vs) r = reason_for (evidence_reading ev) r"
    "fires (lookup_reading ?vs) r = fires (evidence_reading ev) r" if "r \<in> set ?rs" for r
    using that read_all_reading [OF rok] by (auto intro!: reason_for_cong)
  have enum: "snd x \<in> set ?rs" if "x \<in> set (enumerate 0 ?rs)" for x
    using that nth_mem [of "fst x" ?rs] by (auto simp: in_set_enumerate_eq)
  have flt: "filter (\<lambda>(j, r). fires (lookup_reading ?vs) r) (enumerate 0 ?rs)
      = filter (\<lambda>(j, r). fires (evidence_reading ev) r) (enumerate 0 ?rs)"
    by (rule filter_cong) (use enum cong in fastforce)+
  have "fired_by (evidence_reading ev) ?rs fs"
    unfolding fired_by_def using fs(2) unfolding flt
    by (rule list.rel_mono_strong) (use enum cong in fastforce)
  moreover have "map_res (\<lambda>path. rbind (dindex ?vs path) (\<lambda>r. Inr (path, r))) (referenced_paths p)
      = Inr (map (\<lambda>q. (q, evidence_reading ev q)) (referenced_paths p))"
    using read_all_lookup [OF rok]
    by (auto simp: map_res_Inr_iff list_all2_conv_all_nth ref read_all_keys dest!: nth_mem)
  ultimately show thesis
    using that fs(1) ev by (simp add: evaluate_def Let_def)
qed

lemma fired_by_facts:
  assumes "fired_by \<rho> rs fs"
  shows "map (rsn_rule_id \<circ> snd) fs = map rule_id (filter (fires \<rho>) rs)"
    "map (rsn_score \<circ> snd) fs = map (\<lambda>r. eff_score (rule_effect r)) (filter (fires \<rho>) rs)"
    "map (rsn_tier \<circ> snd) fs = map (\<lambda>r. eff_tier (rule_effect r)) (filter (fires \<rho>) rs)"
proof -
  have flt: "map snd (filter (\<lambda>(j, r). fires \<rho> r) (enumerate n rs)) = filter (fires \<rho>) rs" for n
    by (induction rs arbitrary: n) auto
  have m: "map (f \<circ> snd) fs = map g (filter (fires \<rho>) rs)"
    if "\<And>r x. reason_for \<rho> r x \<Longrightarrow> f x = g r" for f :: "policy_reason \<Rightarrow> 'b" and g
  proof -
    have "list_all2 (\<lambda>a b. (f \<circ> snd) a = (g \<circ> snd) b) fs (filter (\<lambda>(j, r). fires \<rho> r) (enumerate 0 rs))"
      using assms unfolding fired_by_def by (rule list.rel_mono_strong) (auto simp: that)
    then have "map (f \<circ> snd) fs = map (g \<circ> snd) (filter (\<lambda>(j, r). fires \<rho> r) (enumerate 0 rs))"
      by (simp add: list_all2_map_eq comp_def)
    also have "\<dots> = map g (filter (fires \<rho>) rs)"
      using arg_cong [OF flt [of 0], of "map g"] by simp
    finally show ?thesis .
  qed
  show "map (rsn_rule_id \<circ> snd) fs = map rule_id (filter (fires \<rho>) rs)"
    "map (rsn_score \<circ> snd) fs = map (\<lambda>r. eff_score (rule_effect r)) (filter (fires \<rho>) rs)"
    "map (rsn_tier \<circ> snd) fs = map (\<lambda>r. eff_tier (rule_effect r)) (filter (fires \<rho>) rs)"
    by (auto intro!: m simp: reason_for_simps)
qed

lemma order_fired_sum: "sum_list (map f (order_fired fs)) = (\<Sum>x\<leftarrow>fs. (f (snd x) :: int))"
proof -
  have "sum_mset (image_mset f (mset (order_fired fs))) = sum_mset (image_mset f (mset (map snd fs)))"
    by (simp only: order_fired_mset)
  then show ?thesis by (simp add: sum_mset_sum_list comp_def flip: mset_map)
qed

lemma order_fired_set: "set (order_fired fs) = snd ` set fs"
  using arg_cong [OF order_fired_mset [of fs], of set_mset] by simp

section \<open>Losing evidence\<close>

lemma leaf_sem_lost:
  assumes "lost P q r' r" and "op = EXISTS \<or> op = MISSING \<Longrightarrow> q \<in> P"
  shows "less_info (leaf_sem r' op opd) (leaf_sem r op opd)"
  using assms by (auto simp: lost_def leaf_sem_def unusable_def split: reading.splits operand.splits)

lemma sem_lost:
  "(\<And>q. q \<in> set (paths_of c) \<Longrightarrow> lost P q (\<rho>' q) (\<rho> q)) \<Longrightarrow> presence_paths c \<subseteq> P \<Longrightarrow>
     less_info (sem \<rho>' c) (sem \<rho> c)"
  "(\<And>q. q \<in> set (paths_of_all cs) \<Longrightarrow> lost P q (\<rho>' q) (\<rho> q)) \<Longrightarrow> \<forall>c \<in> set cs. presence_paths c \<subseteq> P \<Longrightarrow>
     list_all2 less_info (map (sem \<rho>') cs) (map (sem \<rho>) cs)"
proof (induction c and cs rule: paths_of_paths_of_all.induct)
  case (1 p segs op opd)
  then show ?case by (auto intro: leaf_sem_lost split: if_splits)
next
  case (2 c)
  then show ?case by (simp add: kleene_not_mono)
next
  case (3 cs)
  then have "list_all2 less_info (map (sem \<rho>') cs) (map (sem \<rho>) cs)" by (auto simp: SUP_le_iff)
  then show ?case by (simp add: kleene_and_mono)
next
  case (4 cs)
  then have "list_all2 less_info (map (sem \<rho>') cs) (map (sem \<rho>) cs)" by (auto simp: SUP_le_iff)
  then show ?case by (simp add: kleene_or_mono)
qed simp_all

lemma fires_lost:
  assumes "\<And>q. q \<in> set (paths_of (rule_when r)) \<Longrightarrow> lost P q (\<rho>' q) (\<rho> q)"
    "presence_paths (rule_when r) \<subseteq> P" "fires \<rho> r"
  shows "fires \<rho>' r"
  using sem_lost(1) [OF assms(1,2)] assms(3) by (auto simp: fires_def less_info_def)

lemma spec_mono:
  assumes "\<And>r. r \<in> set (policy_rules p) \<Longrightarrow> fires \<rho> r \<Longrightarrow> fires \<rho>' r"
    and "list_all rule_ok (policy_rules p)"
  shows "spec_score \<rho> p \<le> spec_score \<rho>' p" "spec_tier \<rho> p \<le> spec_tier \<rho>' p"
proof -
  show sc: "spec_score \<rho> p \<le> spec_score \<rho>' p"
    unfolding spec_score_def using assms
    by (intro min.mono sum_list_filter_mono) (auto simp: list_all_iff rule_ok_def)
  show "spec_tier \<rho> p \<le> spec_tier \<rho>' p"
    unfolding spec_tier_def using assms(1) sc by (intro Max_mono) auto
qed

section \<open>Positions of the fired rules\<close>

lemma rule_pos_nth:
  assumes "distinct (map rule_id (policy_rules p))" "j < length (policy_rules p)"
  shows "rule_pos p (rule_id (policy_rules p ! j)) = j"
proof -
  have "rule_id (policy_rules p ! i) \<noteq> rule_id (policy_rules p ! j)" if "i < j" for i
    using that assms nth_eq_iff_index_eq [OF assms(1), of i j] by simp
  then have "takeWhile (\<lambda>r. rule_id r \<noteq> rule_id (policy_rules p ! j)) (policy_rules p)
      = take j (policy_rules p)"
    using assms(2) by (intro takeWhile_eq_take_P_nth) auto
  with assms(2) show ?thesis by (simp add: rule_pos_def)
qed

lemma fired_by_nth:
  assumes "fired_by \<rho> rs fs" "(j, x) \<in> set fs"
  shows "j < length rs \<and> fires \<rho> (rs ! j) \<and> reason_for \<rho> (rs ! j) x"
proof -
  from list_all2_in1 [OF assms(1) [unfolded fired_by_def] assms(2)]
  obtain b where "b \<in> set (filter (\<lambda>(j, r). fires \<rho> r) (enumerate 0 rs))"
    "j = fst b" "reason_for \<rho> (snd b) x"
    by auto
  then show ?thesis by (auto simp: in_set_enumerate_eq)
qed

lemma fired_by_distinct:
  assumes "fired_by \<rho> rs fs"
  shows "distinct (map fst fs)"
proof -
  have "map fst fs = map fst (filter (\<lambda>(j, r). fires \<rho> r) (enumerate 0 rs))"
    unfolding list_all2_map_eq [symmetric] using assms unfolding fired_by_def
    by (rule list.rel_mono_strong) auto
  moreover have "distinct (map fst (enumerate 0 rs))"
    by (simp del: length_enumerate)
  ultimately show ?thesis by (simp add: distinct_map_filter)
qed

lemma order_fired_sorted:
  assumes "fired_by \<rho> (policy_rules p) fs" "distinct (map rule_id (policy_rules p))"
  shows "sorted_wrt (\<lambda>a b. rsn_tier b < rsn_tier a
      \<or> rsn_tier a = rsn_tier b \<and> rule_pos p (rsn_rule_id a) < rule_pos p (rsn_rule_id b))
    (order_fired fs)"
proof -
  let ?key = "\<lambda>(i, r). (- int (rank (rsn_tier r)), int i)"
  let ?K = "sort_key ?key fs"
  have pos: "rule_pos p (rsn_rule_id x) = j" if "(j, x) \<in> set ?K" for j x
    using fired_by_nth [OF assms(1), of j x] that rule_pos_nth [OF assms(2), of j]
    by (auto simp: reason_for_simps)
  have "distinct (map fst ?K)"
    using fired_by_distinct [OF assms(1)] by (metis distinct_map distinct_sort set_sort)
  moreover have "sorted (map ?key ?K)" by simp
  ultimately have "sorted_wrt (\<lambda>a b. fst a \<noteq> fst b \<and> ?key a \<le> ?key b) ?K"
    by (auto simp: sorted_wrt_iff_nth_less sorted_map distinct_conv_nth)
  then have "sorted_wrt (\<lambda>a b. rsn_tier (snd b) < rsn_tier (snd a) \<or> rsn_tier (snd a) = rsn_tier (snd b)
      \<and> rule_pos p (rsn_rule_id (snd a)) < rule_pos p (rsn_rule_id (snd b))) ?K"
  proof (rule sorted_wrt_mono_rel [rotated])
    fix a b assume ab: "a \<in> set ?K" "b \<in> set ?K" "fst a \<noteq> fst b \<and> ?key a \<le> ?key b"
    obtain i x j y where [simp]: "a = (i, x)" "b = (j, y)" by force
    from ab have "rank (rsn_tier y) < rank (rsn_tier x) \<or> rank (rsn_tier x) = rank (rsn_tier y) \<and> i < j"
      by auto
    with ab pos [of i x] pos [of j y]
    show "rsn_tier (snd b) < rsn_tier (snd a) \<or> rsn_tier (snd a) = rsn_tier (snd b)
        \<and> rule_pos p (rsn_rule_id (snd a)) < rule_pos p (rsn_rule_id (snd b))"
      by (auto simp: order.order_iff_strict)
         (metis linorder_less_linear rank_less less_irrefl)
  qed
  then show ?thesis by (simp add: order_fired_def sorted_wrt_map)
qed

section \<open>Locality of reading\<close>

lemma index_paths_local:
  "(\<And>q. q \<in> set (paths_of c) \<Longrightarrow> evidence_reading ev q = evidence_reading ev' q) \<Longrightarrow> cond_ok c \<Longrightarrow>
     index_paths c ev vs = index_paths c ev' vs"
  "(\<And>q. q \<in> set (paths_of_all cs) \<Longrightarrow> evidence_reading ev q = evidence_reading ev' q) \<Longrightarrow>
     \<forall>c \<in> set cs. cond_ok c \<Longrightarrow> index_all cs ev vs = index_all cs ev' vs"
  by (induction c ev vs and cs ev vs rule: index_paths_index_all.induct)
    (auto simp: evidence_reading_def)

lemma read_all_local:
  assumes "list_all rule_ok (policy_rules p)"
    and "\<And>q. q \<in> set (policy_paths (policy_rules p)) \<Longrightarrow> evidence_reading ev q = evidence_reading ev' q"
  shows "read_all p ev = read_all p ev'"
  unfolding read_all_def
proof (rule foldl_cong [OF refl refl])
  fix vs r assume "r \<in> set (policy_rules p)"
  with assms show "index_paths (rule_when r) ev vs = index_paths (rule_when r) ev' vs"
    by (intro index_paths_local) (auto simp: list_all_iff rule_ok_def)
qed

lemma spec_score_bounds:
  assumes "list_all rule_ok (policy_rules p)"
  shows "0 \<le> spec_score \<rho> p" "spec_score \<rho> p \<le> MAX_SCORE"
  using assms by (auto simp: spec_score_def MAX_SCORE_def list_all_iff rule_ok_def intro!: sum_list_nonneg)

section \<open>Properties of the engine\<close>

lemma evaluate_refines_core:
  assumes "policy_ok p" and "is_mapping ev"
  shows "\<exists>res. evaluate chash p ev = Inr res
    \<and> res_tier res = spec_tier (evidence_reading ev) p
    \<and> res_score res = spec_score (evidence_reading ev) p
    \<and> mset (res_fired_rules res) =
        mset (map rule_id (filter (fires (evidence_reading ev)) (policy_rules p)))"
proof -
  let ?\<rho> = "evidence_reading ev"
  obtain fs where fs: "fired_by ?\<rho> (policy_rules p) fs"
    "evaluate chash p ev = Inr (build_result chash p (map (\<lambda>q. (q, ?\<rho> q)) (referenced_paths p)) (order_fired fs))"
    using evaluate_eq [OF assms] by blast
  note facts = fired_by_facts [OF fs(1)]
  have score: "total_score (order_fired fs) = spec_score ?\<rho> p"
    using facts(2) by (simp add: total_score_def spec_score_def order_fired_sum comp_def)
  have tiers: "rsn_tier ` set (order_fired fs)
      = (\<lambda>r. eff_tier (rule_effect r)) ` set (filter (fires ?\<rho>) (policy_rules p))"
    using arg_cong [OF facts(3), of set] by (simp add: order_fired_set image_image)
  have tier: "fst (escalate_tier (score_thresholds p) (total_score (order_fired fs))
      (rules_tier (order_fired fs))) = spec_tier ?\<rho> p"
    by (simp only: escalate_tier_Max rules_tier_Max tiers score spec_tier_def)
      (rule Max_insert_Max, simp_all)
  have "mset (map rsn_rule_id (order_fired fs)) = mset (map rule_id (filter (fires ?\<rho>) (policy_rules p)))"
    using facts(1) by (simp only: mset_map order_fired_mset)
      (metis (no_types, lifting) image_mset.compositionality map_map mset_map)
  with fs(2) score tier show ?thesis
    by (simp add: build_result_def Let_def)
qed

text \<open>C1: on a well-formed policy and any mapping, \<open>evaluate\<close> returns a result and never raises;
  its tier is the most severe of the fired rules' tiers and the score thresholds reached, its
  score the capped sum over the fired rules, and the fired rules are exactly those whose
  condition is not false in the three-valued denotation.\<close>

theorem evaluate_refines_spec:
  assumes "policy_ok p" and "is_mapping ev"
  shows "\<exists>res. evaluate chash p ev = Inr res
    \<and> res_tier res = spec_tier (evidence_reading ev) p
    \<and> res_score res = spec_score (evidence_reading ev) p
    \<and> mset (res_fired_rules res) =
        mset (map rule_id (filter (fires (evidence_reading ev)) (policy_rules p)))"
  using evaluate_refines_core [OF assms] .


text \<open>The reasons of a result are listed most severe tier first and, within a tier, in the order
  of the rules in the policy file; every reason raised because evidence could not be resolved
  names at least one of the paths its rule reads.\<close>

theorem reasons_most_severe_first:
  assumes "policy_ok p" and "is_mapping ev"
  shows "\<exists>res. evaluate chash p ev = Inr res
    \<and> sorted_wrt (\<lambda>a b. rsn_tier b < rsn_tier a
        \<or> rsn_tier a = rsn_tier b \<and> rule_pos p (rsn_rule_id a) < rule_pos p (rsn_rule_id b)) (res_reasons res)
    \<and> (\<forall>x \<in> set (res_reasons res). set (rsn_unresolved x) \<subseteq> set (referenced_paths p)
        \<and> (rsn_indeterminate x \<longrightarrow> rsn_unresolved x \<noteq> []))"
proof -
  let ?\<rho> = "evidence_reading ev"
  from assms have ids: "distinct (map rule_id (policy_rules p))"
    and ref: "referenced_paths p = policy_paths (policy_rules p)" by (auto simp: policy_ok_def)
  obtain fs where fs: "fired_by ?\<rho> (policy_rules p) fs"
    "evaluate chash p ev = Inr (build_result chash p (map (\<lambda>q. (q, ?\<rho> q)) (referenced_paths p)) (order_fired fs))"
    using evaluate_eq [OF assms] by blast
  have "set (rsn_unresolved x) \<subseteq> set (referenced_paths p) \<and> (rsn_indeterminate x \<longrightarrow> rsn_unresolved x \<noteq> [])"
    if "x \<in> set (order_fired fs)" for x
  proof -
    from that obtain j where "(j, x) \<in> set fs" by (auto simp: order_fired_set)
    from fired_by_nth [OF fs(1) this] have j: "j < length (policy_rules p)"
      "reason_for ?\<rho> (policy_rules p ! j) x" by auto
    from reason_for_simps(5,6) [OF j(2)] j(1) show ?thesis
      by (auto simp: ref) (meson nth_mem subsetD)
  qed
  with fs(2) order_fired_sorted [OF fs(1) ids] show ?thesis
    by (simp add: build_result_def Let_def)
qed

text \<open>Evaluation is a function of the referenced paths alone: two evidence mappings that read
  alike at every path the policy references give the same result, byte for byte.\<close>

theorem evaluate_reads_only_referenced_paths:
  assumes "policy_ok p" and "is_mapping ev" and "is_mapping ev'"
    and "\<forall>q \<in> set (referenced_paths p). evidence_reading ev q = evidence_reading ev' q"
  shows "evaluate chash p ev = evaluate chash p ev'"
proof -
  from assms have "read_all p ev = read_all p ev'"
    by (intro read_all_local) (auto simp: policy_ok_def)
  with assms(2,3) show ?thesis by (simp add: evaluate_def)
qed

text \<open>No rule fires exactly when every rule's condition is definitely false; the case then stays
  in the lowest tier with score 0, and otherwise the score stays within 0 and 100.\<close>

theorem clean_pass_iff_all_false:
  assumes "policy_ok p" and "is_mapping ev"
  shows "\<exists>res. evaluate chash p ev = Inr res \<and> 0 \<le> res_score res \<and> res_score res \<le> MAX_SCORE
    \<and> (res_fired_rules res = [] \<longleftrightarrow>
        (\<forall>r \<in> set (policy_rules p). sem (evidence_reading ev) (rule_when r) = Some False))
    \<and> (res_fired_rules res = [] \<longrightarrow> res_tier res = LOW \<and> res_score res = 0)"
proof -
  let ?\<rho> = "evidence_reading ev"
  obtain res where res: "evaluate chash p ev = Inr res" "res_tier res = spec_tier ?\<rho> p"
    "res_score res = spec_score ?\<rho> p"
    "mset (res_fired_rules res) = mset (map rule_id (filter (fires ?\<rho>) (policy_rules p)))"
    using evaluate_refines_core [OF assms] by blast
  from assms have ok: "list_all rule_ok (policy_rules p)" "thresholds_ok (score_thresholds p)"
    by (auto simp: policy_ok_def)
  have none: "res_fired_rules res = [] \<longleftrightarrow> filter (fires ?\<rho>) (policy_rules p) = []"
    using res(4) by (metis list.map_disc_iff mset_zero_iff)
  have "spec_score ?\<rho> p = 0 \<and> spec_tier ?\<rho> p = LOW" if "filter (fires ?\<rho>) (policy_rules p) = []"
  proof -
    have "spec_score ?\<rho> p = 0" using that by (simp add: spec_score_def MAX_SCORE_def)
    moreover have "filter (\<lambda>(t, m). m \<le> 0) (score_thresholds p) = []"
      using ok(2) by (auto simp: thresholds_ok_def filter_empty_conv)
    ultimately show ?thesis using that by (simp add: spec_tier_def)
  qed
  with res none spec_score_bounds [OF ok(1), of ?\<rho>] show ?thesis
    by (auto simp: filter_empty_conv fires_def)
qed

text \<open>Every result of evaluating a well-formed policy renders as a result document; the
  document is refused only for a result of another policy.\<close>

theorem result_document_total:
  assumes "policy_ok p" and "evaluate chash p ev = Inr res"
  shows "\<exists>d. policy_result_document p res = Inr d"
proof -
  have ev: "is_mapping ev" using assms(2) by (auto simp: evaluate_def)
  obtain fs where fs: "fired_by (evidence_reading ev) (policy_rules p) fs"
    "res = build_result chash p (map (\<lambda>q. (q, evidence_reading ev q)) (referenced_paths p)) (order_fired fs)"
    using evaluate_eq [OF assms(1) ev, of chash] assms(2) by (metis Inr_inject)
  let ?rp = "dict_of (map (\<lambda>r. (rule_id r, sorted_paths (paths_of (rule_when r)))) (policy_rules p))"
  have rp: "?rp = map (\<lambda>r. (rule_id r, sorted_paths (paths_of (rule_when r)))) (policy_rules p)"
    using assms(1) by (intro dict_of_distinct) (simp add: policy_ok_def comp_def)
  have "\<exists>d. reason_document res ?rp x = Inr d" if "x \<in> set (res_reasons res)" for x
  proof -
    from that fs(2) obtain j where "(j, x) \<in> set fs"
      by (auto simp: build_result_def Let_def order_fired_set)
    from fired_by_nth [OF fs(1) this] have "rsn_rule_id x \<in> set (dkeys ?rp)"
      unfolding rp by (auto simp: reason_for_simps dkeys_def comp_def)
    then obtain ps where "dget ?rp (rsn_rule_id x) = Some ps"
      by (auto simp: dhas_def simp flip: dhas_keys)
    then show ?thesis by (simp add: reason_document_def dindex_def)
  qed
  then obtain ds where "map_res (reason_document res ?rp) (res_reasons res) = Inr ds"
    using map_res_total by blast
  with fs(2) show ?thesis
    by (simp add: policy_result_document_def build_result_def Let_def)
qed

section \<open>A concrete policy\<close>

definition sample_policy :: policy where
  "sample_policy = \<lparr> policy_id = ''kyb'', policy_version = ''1.0.0'', policy_status = EXAMPLE,
     policy_reviewed_by = None, policy_description = None,
     policy_rules =
       [\<lparr> rule_id = ''owners'', rule_when = Compare ''owners.count'' [''owners'', ''count''] GT (OScalar (VInt 3)),
          rule_effect = \<lparr> eff_tier = MEDIUM, eff_reason = ''many owners'', eff_score = 20 \<rparr>,
          rule_description = None \<rparr>,
        \<lparr> rule_id = ''country'',
          rule_when = AnyOf [Compare ''country'' [''country''] IN (OItems [VStr ''IR'', VStr ''KP'']),
                             NotC (Compare ''licence'' [''licence''] EXISTS (OScalar (VBool True)))],
          rule_effect = \<lparr> eff_tier = BLOCKED, eff_reason = ''blocked'', eff_score = 100 \<rparr>,
          rule_description = None \<rparr>],
     score_thresholds = [(HIGH, 60)], content_hash = ''sha256:0'', policy_source = ''memory'',
     referenced_paths = [''country'', ''licence'', ''owners.count''] \<rparr>"

definition sample_evidence :: pv where
  "sample_evidence = VDict [(''owners'', VDict [(''count'', VInt 5)]), (''country'', VStr ''IN''),
     (''licence'', VStr ''L1'')]"

definition poorer_evidence :: pv where
  "poorer_evidence = VDict [(''owners'', VBroken), (''country'', VNone), (''licence'', VStr ''L1'')]"

lemma sample_ok: "policy_ok sample_policy"
  by code_simp

lemma sample_mappings: "is_mapping sample_evidence" "is_mapping poorer_evidence"
  by code_simp+

lemma sample_lost: "\<forall>q \<in> set (referenced_paths sample_policy).
    lost (policy_presence_paths sample_policy) q
      (evidence_reading poorer_evidence q) (evidence_reading sample_evidence q)"
  by code_simp

theorem evaluate_refines_spec_witness:
  "policy_ok sample_policy \<and> is_mapping sample_evidence
   \<and> (\<exists>res. evaluate (\<lambda>_. ''h'') sample_policy sample_evidence = Inr res
        \<and> res_tier res = MEDIUM \<and> res_score res = 20)"
proof -
  have "spec_tier (evidence_reading sample_evidence) sample_policy = MEDIUM"
    "spec_score (evidence_reading sample_evidence) sample_policy = 20" by code_simp+
  then show ?thesis
    using evaluate_refines_spec [OF sample_ok sample_mappings(1), of "\<lambda>_. ''h''"]
      sample_ok sample_mappings(1) by auto
qed


theorem reasons_most_severe_first_witness:
  "\<exists>res. evaluate (\<lambda>_. ''h'') sample_policy poorer_evidence = Inr res
     \<and> sorted_wrt (\<lambda>a b. rsn_tier b < rsn_tier a \<or> rsn_tier a = rsn_tier b
          \<and> rule_pos sample_policy (rsn_rule_id a) < rule_pos sample_policy (rsn_rule_id b)) (res_reasons res)"
  using reasons_most_severe_first [OF sample_ok sample_mappings(2), of "\<lambda>_. ''h''"] by blast

theorem evaluate_reads_only_referenced_paths_witness:
  "evaluate (\<lambda>_. ''h'') sample_policy sample_evidence =
   evaluate (\<lambda>_. ''h'') sample_policy (VDict [(''extra'', VInt 1), (''licence'', VStr ''L1''),
     (''country'', VStr ''IN''), (''owners'', VDict [(''name'', VNone), (''count'', VInt 5)])])"
  by (rule evaluate_reads_only_referenced_paths [OF sample_ok sample_mappings(1)]) code_simp+

theorem clean_pass_iff_all_false_witness:
  "\<exists>res. evaluate (\<lambda>_. ''h'') sample_policy
       (VDict [(''owners'', VDict [(''count'', VInt 1)]), (''country'', VStr ''IN''), (''licence'', VStr ''L1'')])
       = Inr res \<and> res_tier res = LOW \<and> res_score res = 0"
proof -
  let ?ev = "VDict [(''owners'', VDict [(''count'', VInt 1)]), (''country'', VStr ''IN''), (''licence'', VStr ''L1'')]"
  have "is_mapping ?ev" by code_simp
  moreover have "\<forall>r \<in> set (policy_rules sample_policy). sem (evidence_reading ?ev) (rule_when r) = Some False"
    by code_simp
  ultimately show ?thesis
    using clean_pass_iff_all_false [OF sample_ok, of ?ev "\<lambda>_. ''h''"] by auto
qed

theorem result_document_total_witness:
  "\<exists>res d. evaluate (\<lambda>_. ''h'') sample_policy poorer_evidence = Inr res
     \<and> policy_result_document sample_policy res = Inr d"
  using evaluate_refines_core [OF sample_ok sample_mappings(2), of "\<lambda>_. ''h''"]
    result_document_total [OF sample_ok, of "\<lambda>_. ''h''" poorer_evidence] by blast

end
