(* ===== verification/Policy_Loader.thy ===== *)
theory Policy_Loader
  imports Policy_Engine
begin

text \<open>
  The strict policy loader (\<open>core/policy/loader.py\<close>): every check of a policy document, in
  the order the code makes them, with the reason code and the location of the refusal. The
  human-readable detail of an error is left out.

  UTF-8 decoding and PyYAML (with the restrictions \<open>_StrictLoader\<close> puts on it) are the
  parameter \<open>parse\<close>, from bytes to a document or a refusal reason; SHA-256 is the parameter
  \<open>sha256\<close>; the file system is a function from paths to contents.
\<close>

section \<open>Errors and limits\<close>

datatype load_error = PolicyLoadError load_reason string

definition fail :: "load_reason \<Rightarrow> string \<Rightarrow> (load_error, 'a) res" where
  "fail reason location = Inl (PolicyLoadError reason location)"

definition MAX_POLICY_BYTES :: int where "MAX_POLICY_BYTES = 256 * 1024"
definition MAX_RULES :: int where "MAX_RULES = 500"
definition MAX_CONDITION_DEPTH :: nat where "MAX_CONDITION_DEPTH = 12"
definition MAX_COMBINATOR_ITEMS :: nat where "MAX_COMBINATOR_ITEMS = 50"
definition MAX_LIST_OPERAND_ITEMS :: int where "MAX_LIST_OPERAND_ITEMS = 200"
definition MAX_PATH_DEPTH :: nat where "MAX_PATH_DEPTH = 8"
definition MAX_PATH_CHARS :: int where "MAX_PATH_CHARS = 200"
definition MAX_STRING_OPERAND_CHARS :: int where "MAX_STRING_OPERAND_CHARS = 200"
definition MAX_REASON_CHARS :: int where "MAX_REASON_CHARS = 500"
definition MAX_TEXT_CHARS :: int where "MAX_TEXT_CHARS = 2000"

definition POLICY_KEYS :: "string list" where
  "POLICY_KEYS = [''policy'', ''version'', ''status'', ''reviewed_by'', ''description'',
     ''score_thresholds'', ''rules'']"

definition RULE_KEYS :: "string list" where
  "RULE_KEYS = [''id'', ''description'', ''when'', ''effect'']"

definition EFFECT_KEYS :: "string list" where
  "EFFECT_KEYS = [''tier'', ''reason'', ''score'']"

section \<open>The regular expressions\<close>

definition ID_RE :: "string \<Rightarrow> bool" where
  "ID_RE s \<longleftrightarrow> s \<noteq> [] \<and> is_lower_ascii (hd s) \<and> list_all ident_char (tl s) \<and> length s \<le> 64"

definition SEGMENT_RE :: "string \<Rightarrow> bool" where
  "SEGMENT_RE s \<longleftrightarrow> s \<noteq> [] \<and> is_lower_ascii (hd s) \<and> list_all ident_char (tl s)"

definition PATH_RE :: "string \<Rightarrow> bool" where
  "PATH_RE s \<longleftrightarrow> list_all SEGMENT_RE (split_on ''.'' s)"

definition numeric_id :: "string \<Rightarrow> bool" where
  "numeric_id s \<longleftrightarrow> s \<noteq> [] \<and> list_all is_digit s \<and> (hd s = CHR ''0'' \<longrightarrow> length s = 1)"

definition build_id :: "string \<Rightarrow> bool" where
  "build_id s \<longleftrightarrow> s \<noteq> [] \<and>
     list_all (\<lambda>c. is_digit c \<or> is_lower_ascii c \<or> is_upper_ascii c \<or> c = CHR ''-'') s"

definition prerelease_id :: "string \<Rightarrow> bool" where
  "prerelease_id s \<longleftrightarrow> build_id s \<and> (list_all is_digit s \<longrightarrow> numeric_id s)"

definition SEMVER_RE :: "string \<Rightarrow> bool" where
  "SEMVER_RE s =
     (let (rest, build_ok) = (case split1 ''+'' s of
            None \<Rightarrow> (s, True)
          | Some (a, b) \<Rightarrow> (a, list_all build_id (split_on ''.'' b)));
          (core, pre_ok) = (case split1 ''-'' rest of
            None \<Rightarrow> (rest, True)
          | Some (a, b) \<Rightarrow> (a, list_all prerelease_id (split_on ''.'' b)))
      in build_ok \<and> pre_ok \<and> length (split_on ''.'' core) = 3
         \<and> list_all numeric_id (split_on ''.'' core))"

definition is_control :: "char \<Rightarrow> bool" where
  "is_control c = (let n = code c in n \<le> 8 \<or> 11 \<le> n \<and> n \<le> 31 \<or> n = 127)"

section \<open>Validation helpers\<close>

definition text_field :: "string \<Rightarrow> int \<Rightarrow> pv \<Rightarrow> (load_error, string) res" where
  "text_field loc max_chars v =
     (case v of
        VStr s \<Rightarrow>
          if strip s = [] then fail INVALID_VALUE loc
          else if int (length s) > max_chars then fail LIMIT_EXCEEDED loc
          else if list_ex is_control s then fail INVALID_VALUE loc
          else Inr s
      | _ \<Rightarrow> fail INVALID_VALUE loc)"

definition check_identifier :: "string \<Rightarrow> pv \<Rightarrow> (load_error, string) res" where
  "check_identifier loc v =
     (case v of
        VStr s \<Rightarrow> if re_match ID_RE s then Inr s else fail INVALID_VALUE loc
      | _ \<Rightarrow> fail INVALID_VALUE loc)"

definition check_keys :: "string \<Rightarrow> string list \<Rightarrow> pv dict \<Rightarrow> (load_error, unit) res" where
  "check_keys loc allowed d =
     (if list_all (\<lambda>k. k \<in> set allowed) (dkeys d) then Inr () else fail UNKNOWN_KEY loc)"

definition require :: "string \<Rightarrow> pv dict \<Rightarrow> string \<Rightarrow> (load_error, pv) res" where
  "require loc d key = (if vget d key = VNone then fail MISSING_FIELD loc else Inr (vget d key))"

definition PLACEHOLDER_REVIEWERS :: "string list" where
  "PLACEHOLDER_REVIEWERS =
     [''anonymous'', ''changeme'', ''example'', ''fixme'', ''na'', ''nobody'', ''none'',
      ''notreviewed'', ''null'', ''pending'', ''placeholder'', ''reviewer'', ''someone'',
      ''tba'', ''tbc'', ''tbd'', ''test'', ''todo'', ''unknown'', ''unreviewed'', ''xxx'', ''yourname'']"

definition casefold :: "string \<Rightarrow> string" where
  "casefold s = concat (map (\<lambda>c. if code c = 223 then ''ss'' else [lower_char c]) s)"

definition is_placeholder_reviewer :: "string \<Rightarrow> bool" where
  "is_placeholder_reviewer value =
     (let folded = filter is_alnum (casefold value);
          letters = length (filter is_alpha folded)
      in letters < 2 \<or> folded \<in> set PLACEHOLDER_REVIEWERS \<or> length (remdups folded) = 1)"

section \<open>Compiling conditions\<close>

definition scalar_operand :: "string \<Rightarrow> pv \<Rightarrow> (load_error, pv) res" where
  "scalar_operand loc v =
     (case kind v of
        None \<Rightarrow> fail INVALID_OPERAND loc
      | Some k \<Rightarrow>
          (case v of
             VStr s \<Rightarrow> if int (length s) > MAX_STRING_OPERAND_CHARS then fail LIMIT_EXCEEDED loc else Inr v
           | _ \<Rightarrow> Inr v))"

definition at_index :: "string \<Rightarrow> nat \<Rightarrow> string" where
  "at_index loc i = loc @ ''['' @ str_nat i @ '']''"

fun scalar_operands :: "string \<Rightarrow> nat \<Rightarrow> pv list \<Rightarrow> (load_error, pv list) res" where
  "scalar_operands loc i [] = Inr []"
| "scalar_operands loc i (v # vs) =
     rbind (scalar_operand (at_index loc i) v) (\<lambda>w.
       rbind (scalar_operands loc (Suc i) vs) (\<lambda>ws. Inr (w # ws)))"

definition compile_operand :: "string \<Rightarrow> operator \<Rightarrow> pv \<Rightarrow> (load_error, operand) res" where
  "compile_operand loc op v =
     (if op = EXISTS \<or> op = MISSING then
        (if v \<noteq> VBool True then fail INVALID_OPERAND loc else Inr (OScalar (VBool True)))
      else if op = GT \<or> op = GTE \<or> op = LT \<or> op = LTE then
        (if kind v \<noteq> Some KNumber then fail INVALID_OPERAND loc else Inr (OScalar v))
      else if op = IN \<or> op = NOT_IN then
        (case v of
           VList xs \<Rightarrow>
             if xs = [] then fail INVALID_OPERAND loc
             else if int (length xs) > MAX_LIST_OPERAND_ITEMS then fail LIMIT_EXCEEDED loc
             else rbind (scalar_operands loc 0 xs) (\<lambda>items.
               if length (remdups (map kind items)) \<noteq> 1 then fail INVALID_OPERAND loc
               else Inr (OItems items))
         | _ \<Rightarrow> fail INVALID_OPERAND loc)
      else rbind (scalar_operand loc v) (\<lambda>w. Inr (OScalar w)))"

definition compile_compare :: "string \<Rightarrow> string \<Rightarrow> pv \<Rightarrow> (load_error, condition) res" where
  "compile_compare loc path spec =
     (if int (length path) > MAX_PATH_CHARS \<or> \<not> re_match PATH_RE path then fail INVALID_PATH loc
      else let segments = split_on ''.'' path in
      if length segments > MAX_PATH_DEPTH then fail INVALID_PATH loc
      else case spec of
        VDict [(op_name, operand)] \<Rightarrow>
          (let op_location = loc @ ''.'' @ path @ ''.'' @ op_name in
           case Operator op_name of
             None \<Rightarrow> fail UNKNOWN_OPERATOR op_location
           | Some op \<Rightarrow>
               rbind (compile_operand op_location op operand) (\<lambda>opd.
                 Inr (Compare path segments op opd)))
      | _ \<Rightarrow> fail INVALID_CONDITION loc)"

fun compile_condition :: "string \<Rightarrow> nat \<Rightarrow> pv \<Rightarrow> (load_error, condition) res"
and compile_conditions :: "string \<Rightarrow> nat \<Rightarrow> nat \<Rightarrow> pv list \<Rightarrow> (load_error, condition list) res"
where
  "compile_condition loc depth node =
     (if depth > MAX_CONDITION_DEPTH then fail LIMIT_EXCEEDED loc
      else case node of
        VDict [(key, value)] \<Rightarrow>
          if key = ''all'' \<or> key = ''any'' then
            (case value of
               VList items \<Rightarrow>
                 if items = [] then fail INVALID_CONDITION loc
                 else if length items > MAX_COMBINATOR_ITEMS then fail LIMIT_EXCEEDED loc
                 else rbind (compile_conditions (loc @ ''.'' @ key) (Suc depth) 0 items) (\<lambda>cs.
                   Inr (if key = ''all'' then AllOf cs else AnyOf cs))
             | _ \<Rightarrow> fail INVALID_CONDITION loc)
          else if key = ''not'' then
            rbind (compile_condition (loc @ ''.not'') (Suc depth) value) (\<lambda>c. Inr (NotC c))
          else compile_compare loc key value
      | _ \<Rightarrow> fail INVALID_CONDITION loc)"
| "compile_conditions loc depth i [] = Inr []"
| "compile_conditions loc depth i (v # vs) =
     rbind (compile_condition (at_index loc i) depth v) (\<lambda>c.
       rbind (compile_conditions loc depth (Suc i) vs) (\<lambda>cs. Inr (c # cs)))"

declare compile_condition.simps [simp del]

section \<open>Compiling rules, thresholds and the policy\<close>

definition optional_text :: "string \<Rightarrow> int \<Rightarrow> pv \<Rightarrow> (load_error, string option) res" where
  "optional_text loc max_chars v =
     (if v = VNone then Inr None else rbind (text_field loc max_chars v) (\<lambda>s. Inr (Some s)))"

text \<open>A whole number in a range; \<open>True\<close> and \<open>False\<close> are not numbers here.\<close>

definition whole_number :: "load_error \<Rightarrow> int \<Rightarrow> int \<Rightarrow> pv \<Rightarrow> (load_error, int) res" where
  "whole_number err lo hi v =
     (case v of VInt n \<Rightarrow> if lo \<le> n \<and> n \<le> hi then Inr n else Inl err | _ \<Rightarrow> Inl err)"

definition compile_effect :: "string \<Rightarrow> pv \<Rightarrow> (load_error, effect) res" where
  "compile_effect loc v =
     (case v of
        VDict d \<Rightarrow>
          rbind (check_keys loc EFFECT_KEYS d) (\<lambda>_.
          rbind (require loc d ''tier'') (\<lambda>tier_raw.
            case Tier tier_raw of
              None \<Rightarrow> fail INVALID_VALUE (loc @ ''.tier'')
            | Some tier \<Rightarrow>
                rbind (require loc d ''reason'') (\<lambda>reason_raw.
                rbind (text_field (loc @ ''.reason'') MAX_REASON_CHARS reason_raw) (\<lambda>reason.
                rbind (if vget d ''score'' = VNone then Inr (DEFAULT_TIER_SCORE tier)
                       else whole_number (PolicyLoadError INVALID_VALUE (loc @ ''.score'')) 0 MAX_SCORE
                              (vget d ''score'')) (\<lambda>score.
                Inr \<lparr> eff_tier = tier, eff_reason = reason, eff_score = score \<rparr>)))))
      | _ \<Rightarrow> fail INVALID_VALUE loc)"

definition compile_rule :: "string \<Rightarrow> pv \<Rightarrow> (load_error, rule) res" where
  "compile_rule loc raw =
     (case raw of
        VDict d \<Rightarrow>
          rbind (check_keys loc RULE_KEYS d) (\<lambda>_.
          rbind (require loc d ''id'') (\<lambda>id_raw.
          rbind (check_identifier (loc @ ''.id'') id_raw) (\<lambda>rid.
          rbind (optional_text (loc @ ''.description'') MAX_TEXT_CHARS (vget d ''description'')) (\<lambda>desc.
          rbind (require loc d ''when'') (\<lambda>when_raw.
          rbind (compile_condition (loc @ ''.when'') 1 when_raw) (\<lambda>cond.
          rbind (require loc d ''effect'') (\<lambda>effect_raw.
          rbind (compile_effect (loc @ ''.effect'') effect_raw) (\<lambda>eff.
          Inr \<lparr> rule_id = rid, rule_when = cond, rule_effect = eff, rule_description = desc \<rparr>))))))))
      | _ \<Rightarrow> fail INVALID_VALUE loc)"

fun compile_rules :: "nat \<Rightarrow> string list \<Rightarrow> pv list \<Rightarrow> (load_error, rule list) res" where
  "compile_rules i seen [] = Inr []"
| "compile_rules i seen (v # vs) =
     rbind (compile_rule (at_index ''rules'' i) v) (\<lambda>r.
       if rule_id r \<in> set seen then fail DUPLICATE_RULE_ID (at_index ''rules'' i @ ''.id'')
       else rbind (compile_rules (Suc i) (rule_id r # seen) vs) (\<lambda>rs. Inr (r # rs)))"

fun threshold_pairs :: "pv dict \<Rightarrow> (load_error, (tier \<times> int) list) res" where
  "threshold_pairs [] = Inr []"
| "threshold_pairs ((name, value) # d) =
     (case Tier (VStr name) of
        None \<Rightarrow> fail UNKNOWN_KEY ''score_thresholds''
      | Some tier \<Rightarrow>
          if tier = LOW then fail INVALID_VALUE (''score_thresholds.'' @ name)
          else rbind (whole_number (PolicyLoadError INVALID_VALUE (''score_thresholds.'' @ name)) 1 MAX_SCORE value)
            (\<lambda>m. rbind (threshold_pairs d) (\<lambda>ps. Inr ((tier, m) # ps))))"

fun increasing :: "(tier \<times> int) list \<Rightarrow> bool" where
  "increasing (a # b # ps) = (snd a < snd b \<and> increasing (b # ps))"
| "increasing _ = True"

definition compile_thresholds :: "pv \<Rightarrow> (load_error, (tier \<times> int) list) res" where
  "compile_thresholds raw =
     (case raw of
        VNone \<Rightarrow> Inr []
      | VDict d \<Rightarrow>
          if d = [] then fail INVALID_VALUE ''score_thresholds''
          else rbind (threshold_pairs d) (\<lambda>pairs.
            let ps = sort_key (\<lambda>pair. rank (fst pair)) pairs in
            if increasing ps then Inr ps else fail INVALID_VALUE ''score_thresholds'')
      | _ \<Rightarrow> fail INVALID_VALUE ''score_thresholds'')"

definition compile_status :: "pv \<Rightarrow> (load_error, policy_status) res" where
  "compile_status v =
     (if v = VNone then Inr EXAMPLE
      else case PolicyStatus v of None \<Rightarrow> fail INVALID_VALUE ''status'' | Some st \<Rightarrow> Inr st)"

definition compile_reviewer :: "policy_status \<Rightarrow> pv \<Rightarrow> (load_error, string option) res" where
  "compile_reviewer status v =
     rbind (optional_text ''reviewed_by'' MAX_STRING_OPERAND_CHARS v) (\<lambda>reviewer.
       case reviewer of
         Some s \<Rightarrow>
           if is_placeholder_reviewer s then
             fail (if status = PRODUCTION then PRODUCTION_UNREVIEWED else INVALID_VALUE) ''reviewed_by''
           else Inr reviewer
       | None \<Rightarrow>
           if status = PRODUCTION then fail PRODUCTION_UNREVIEWED ''reviewed_by'' else Inr None)"

definition compile_version :: "pv \<Rightarrow> (load_error, string) res" where
  "compile_version v =
     (case v of
        VStr s \<Rightarrow> if re_match SEMVER_RE s then Inr s else fail INVALID_VERSION ''version''
      | _ \<Rightarrow> fail INVALID_VERSION ''version'')"

definition compile_rule_list :: "pv \<Rightarrow> (load_error, rule list) res" where
  "compile_rule_list v =
     (case v of
        VList raws \<Rightarrow>
          if raws = [] then fail INVALID_VALUE ''rules''
          else if int (length raws) > MAX_RULES then fail LIMIT_EXCEEDED ''rules''
          else compile_rules 0 [] raws
      | _ \<Rightarrow> fail INVALID_VALUE ''rules'')"

definition compile_policy :: "string \<Rightarrow> string \<Rightarrow> pv \<Rightarrow> (load_error, policy) res" where
  "compile_policy source hash document =
     (case document of
        VDict d \<Rightarrow>
          rbind (check_keys [] POLICY_KEYS d) (\<lambda>_.
          rbind (require [] d ''policy'') (\<lambda>id_raw.
          rbind (check_identifier ''policy'' id_raw) (\<lambda>pid.
          rbind (require [] d ''version'') (\<lambda>version_raw.
          rbind (compile_version version_raw) (\<lambda>version.
          rbind (compile_status (vget d ''status'')) (\<lambda>status.
          rbind (compile_reviewer status (vget d ''reviewed_by'')) (\<lambda>reviewer.
          rbind (optional_text ''description'' MAX_TEXT_CHARS (vget d ''description'')) (\<lambda>desc.
          rbind (compile_thresholds (vget d ''score_thresholds'')) (\<lambda>thresholds.
          rbind (require [] d ''rules'') (\<lambda>rules_raw.
          rbind (compile_rule_list rules_raw) (\<lambda>rules.
            Inr \<lparr> policy_id = pid, policy_version = version, policy_status = status,
                  policy_reviewed_by = reviewer, policy_description = desc,
                  policy_rules = rules, score_thresholds = thresholds,
                  content_hash = hash, policy_source = source,
                  referenced_paths = sorted_paths (concat (map (\<lambda>r. paths_of (rule_when r)) rules)) \<rparr>)))))))))))
      | _ \<Rightarrow> fail INVALID_VALUE [])"

section \<open>Loading\<close>

type_synonym yaml_parser = "string \<Rightarrow> (load_reason, pv) res"

definition load_policy_bytes ::
  "yaml_parser \<Rightarrow> (string \<Rightarrow> string) \<Rightarrow> string \<Rightarrow> string \<Rightarrow> bool \<Rightarrow> (load_error, policy) res" where
  "load_policy_bytes parse sha256 data source require_production =
     (if int (length data) > MAX_POLICY_BYTES then fail TOO_LARGE []
      else case parse data of
        Inl reason \<Rightarrow> fail reason []
      | Inr document \<Rightarrow>
          rbind (compile_policy source (''sha256:'' @ sha256 data) document) (\<lambda>p.
            if require_production \<and> policy_status p \<noteq> PRODUCTION then fail NOT_PRODUCTION ''status''
            else Inr p))"

definition load_policy ::
  "yaml_parser \<Rightarrow> (string \<Rightarrow> string) \<Rightarrow> (string \<Rightarrow> string option) \<Rightarrow> bool \<Rightarrow> string \<Rightarrow> (load_error, policy) res" where
  "load_policy parse sha256 fs require_production path =
     (case fs path of
        None \<Rightarrow> fail FILE_UNREADABLE []
      | Some content \<Rightarrow>
          load_policy_bytes parse sha256 (take (nat MAX_POLICY_BYTES + 1) content) path require_production)"

fun load_files ::
  "(string \<Rightarrow> (load_error, policy) res) \<Rightarrow> policy dict \<Rightarrow> string list \<Rightarrow> (load_error, policy dict) res" where
  "load_files load policies [] = Inr policies"
| "load_files load policies (f # files) =
     rbind (load f) (\<lambda>p.
       if dhas policies (policy_id p) then fail DUPLICATE_POLICY []
       else load_files load (dset policies (policy_id p) p) files)"

text \<open>The listing holds the regular files of the directory whose suffix is a policy suffix.\<close>

definition load_policies ::
  "yaml_parser \<Rightarrow> (string \<Rightarrow> string) \<Rightarrow> (string \<Rightarrow> string option) \<Rightarrow> bool \<Rightarrow> string list option
    \<Rightarrow> (load_error, policy dict) res" where
  "load_policies parse sha256 fs require_production listing =
     (case listing of
        None \<Rightarrow> fail DIRECTORY_INVALID []
      | Some names \<Rightarrow>
          let files = sort names in
          if files = [] then fail DIRECTORY_INVALID []
          else load_files (load_policy parse sha256 fs require_production) [] files)"

section \<open>What a loaded policy satisfies\<close>

fun cond_depth :: "condition \<Rightarrow> nat" where
  "cond_depth (Compare p segs op opd) = 1"
| "cond_depth (NotC c) = Suc (cond_depth c)"
| "cond_depth (AllOf cs) = Suc (foldr (max \<circ> cond_depth) cs 0)"
| "cond_depth (AnyOf cs) = Suc (foldr (max \<circ> cond_depth) cs 0)"

text \<open>A Python dictionary has each key once.\<close>

definition mapping_keys_unique :: "pv \<Rightarrow> bool" where
  "mapping_keys_unique v = (case v of VDict d \<Rightarrow> distinct (dkeys d) | _ \<Rightarrow> True)"

lemma fail_eq [simp]: "fail r l \<noteq> Inr x" "fail r l = Inl e \<longleftrightarrow> e = PolicyLoadError r l"
  by (auto simp: fail_def)

lemma scalar_operand_ok: "scalar_operand loc v = Inr w \<Longrightarrow> w = v \<and> kind v \<noteq> None"
  by (auto simp: scalar_operand_def split: option.splits pv.splits if_splits)

lemma scalar_operands_ok: "scalar_operands loc i vs = Inr ws \<Longrightarrow> ws = vs \<and> (\<forall>v \<in> set vs. kind v \<noteq> None)"
  by (induction loc i vs arbitrary: ws rule: scalar_operands.induct) (auto dest: scalar_operand_ok)

lemma single_kind:
  assumes "length (remdups (map f xs)) = Suc 0" and "x \<in> set xs"
  shows "f x = f (hd xs)"
proof -
  from assms(1) obtain k where "remdups (map f xs) = [k]" by (auto simp: length_Suc_conv)
  then have "f ` set xs = {k}" by (metis list.set(1,2) set_map set_remdups)
  with assms(2) show ?thesis by (cases xs) auto
qed

lemma compile_operand_ok: "compile_operand loc op v = Inr opd \<Longrightarrow> leaf_ok op opd"
  by (cases op) (auto simp: compile_operand_def list_all_iff dest!: scalar_operand_ok scalar_operands_ok
      intro!: single_kind split: if_splits pv.splits)

lemma compile_compare_ok:
  "compile_compare loc path spec = Inr c \<Longrightarrow> cond_ok c \<and> cond_depth c = 1"
  by (auto simp: compile_compare_def Let_def compile_operand_ok
      split: if_splits pv.splits list.splits option.splits)

lemma foldr_max_le: "foldr (max \<circ> f) xs 0 \<le> (n :: nat) \<longleftrightarrow> (\<forall>x \<in> set xs. f x \<le> n)"
  by (induction xs) auto

lemma compile_condition_ok:
  "compile_condition loc depth v = Inr c \<Longrightarrow>
     cond_ok c \<and> depth \<le> MAX_CONDITION_DEPTH \<and> cond_depth c \<le> Suc MAX_CONDITION_DEPTH - depth"
  "compile_conditions loc depth i vs = Inr cs \<Longrightarrow> length cs = length vs \<and> (\<forall>c \<in> set cs. cond_ok c
     \<and> depth \<le> MAX_CONDITION_DEPTH \<and> cond_depth c \<le> Suc MAX_CONDITION_DEPTH - depth)"
proof (induction loc depth v and loc depth i vs arbitrary: c and cs
    rule: compile_condition_compile_conditions.induct)
  case (1 loc depth v)
  from "1.prems" have d: "depth \<le> MAX_CONDITION_DEPTH"
    by (simp add: compile_condition.simps [of loc depth v] split: if_splits)
  with "1.prems" obtain key val where v: "v = VDict [(key, val)]"
    by (auto simp: compile_condition.simps [of loc depth v] split: pv.splits list.splits)
  note prem = "1.prems" [unfolded v compile_condition.simps [of loc depth "VDict [(key, val)]"]]
  consider (comb) "key = ''all'' \<or> key = ''any''" | (neg) "key = ''not''"
    | (leaf) "key \<noteq> ''all''" "key \<noteq> ''any''" "key \<noteq> ''not''" by blast
  then show ?case
  proof cases
    case comb
    with prem d obtain items where val: "val = VList items" by (cases val) auto
    with prem d comb have items: "items \<noteq> []" "length items \<le> MAX_COMBINATOR_ITEMS"
      by (auto split: if_splits)
    with prem d comb val obtain cs
      where cs: "compile_conditions (loc @ ''.'' @ key) (Suc depth) 0 items = Inr cs"
      and c: "c = (if key = ''all'' then AllOf cs else AnyOf cs)" by fastforce
    have IH: "length cs = length items \<and> (\<forall>c \<in> set cs. cond_ok c \<and> Suc depth \<le> MAX_CONDITION_DEPTH
        \<and> cond_depth c \<le> Suc MAX_CONDITION_DEPTH - Suc depth)"
      using "1.IH"(1) cs comb items val v d by force
    then have "foldr (max \<circ> cond_depth) cs 0 \<le> MAX_CONDITION_DEPTH - depth"
      by (simp add: foldr_max_le)
    with IH items(1) c d show ?thesis by (auto simp: Suc_diff_le)
  next
    case neg
    with prem d obtain c' where c': "compile_condition (loc @ ''.not'') (Suc depth) val = Inr c'"
      "c = NotC c'" by auto
    then have "cond_ok c' \<and> Suc depth \<le> MAX_CONDITION_DEPTH \<and> cond_depth c' \<le> Suc MAX_CONDITION_DEPTH - Suc depth"
      using "1.IH"(2) neg v d by force
    with c' show ?thesis by auto
  next
    case leaf
    with prem d have "compile_compare loc key val = Inr c" by auto
    with d show ?thesis by (auto dest: compile_compare_ok)
  qed
qed auto

lemma compile_effect_ok:
  "compile_effect loc v = Inr e \<Longrightarrow> 0 \<le> eff_score e \<and> eff_score e \<le> MAX_SCORE"
  using DEFAULT_TIER_SCORE_bounds
  by (auto simp: compile_effect_def whole_number_def split: pv.splits option.splits if_splits)

definition rule_loaded :: "rule \<Rightarrow> bool" where
  "rule_loaded r \<longleftrightarrow> rule_ok r \<and> cond_depth (rule_when r) \<le> MAX_CONDITION_DEPTH"

lemma compile_rule_ok: "compile_rule loc v = Inr r \<Longrightarrow> rule_loaded r"
  by (auto simp: compile_rule_def rule_ok_def rule_loaded_def
      dest!: compile_effect_ok compile_condition_ok(1) split: pv.splits)

lemma compile_rules_ok:
  "compile_rules i seen vs = Inr rs \<Longrightarrow> length rs = length vs \<and> list_all rule_loaded rs
     \<and> distinct (map rule_id rs) \<and> set (map rule_id rs) \<inter> set seen = {}"
  by (induction i seen vs arbitrary: rs rule: compile_rules.induct)
    (fastforce dest: compile_rule_ok split: if_splits)+

lemma threshold_pairs_ok:
  "threshold_pairs d = Inr ps \<Longrightarrow> map (tier_value \<circ> fst) ps = dkeys d
     \<and> (\<forall>(t, m) \<in> set ps. t \<noteq> LOW \<and> 1 \<le> m \<and> m \<le> MAX_SCORE)"
proof (induction d arbitrary: ps)
  case (Cons p d)
  obtain name v where p: "p = (name, v)" by force
  from Cons.prems p obtain t m ps' where t: "Tier (VStr name) = Some t" "t \<noteq> LOW"
    and m: "whole_number (PolicyLoadError INVALID_VALUE (''score_thresholds.'' @ name)) 1 MAX_SCORE v = Inr m"
    and ps: "threshold_pairs d = Inr ps'" "ps = (t, m) # ps'"
    by (auto split: option.splits if_splits)
  from Cons.IH [OF ps(1)] Tier_Some [OF t(1)] t(2) m p ps(2) show ?case
    by (auto simp: whole_number_def dkeys_def split: pv.splits if_splits)
qed (simp add: dkeys_def)

lemma increasing_sorted: "increasing ps \<Longrightarrow> sorted_wrt (\<lambda>a b. snd a < snd b) ps"
proof (induction ps rule: increasing.induct)
  case (1 a b ps)
  then show ?case by (auto intro: less_trans)
qed auto

lemma compile_thresholds_ok:
  assumes "compile_thresholds v = Inr ts" "mapping_keys_unique v"
  shows "thresholds_ok ts"
proof (cases v)
  case (VDict d)
  with assms obtain ps where ps: "threshold_pairs d = Inr ps"
    "ts = sort_key (\<lambda>pair. rank (fst pair)) ps" "increasing ts"
    by (auto simp: compile_thresholds_def Let_def split: if_splits)
  from threshold_pairs_ok [OF ps(1)] VDict assms(2) have "distinct (map fst ps)"
    by (simp add: mapping_keys_unique_def) (metis distinct_map map_map)
  then have "distinct (map fst ts)"
    unfolding ps(2) by (metis distinct_map distinct_sort set_sort)
  moreover have "sorted (map (\<lambda>pair. rank (fst pair)) ts)" unfolding ps(2) by simp
  ultimately have "sorted_wrt (\<lambda>a b. fst a < fst b \<and> snd a < snd b) ts"
    using increasing_sorted [OF ps(3)]
    by (auto simp: sorted_wrt_iff_nth_less sorted_map distinct_conv_nth order_less_le)
  with threshold_pairs_ok [OF ps(1)] ps(2) show ?thesis by (simp add: thresholds_ok_def)
qed (use assms in \<open>auto simp: compile_thresholds_def thresholds_ok_def\<close>)

definition thresholds_keys_unique :: "pv \<Rightarrow> bool" where
  "thresholds_keys_unique document =
     (case document of VDict d \<Rightarrow> mapping_keys_unique (vget d ''score_thresholds'') | _ \<Rightarrow> True)"

lemma text_field_Inr: "text_field loc m v = Inr s \<Longrightarrow> v = VStr s \<and> strip s \<noteq> []"
  by (auto simp: text_field_def split: pv.splits if_splits)

lemma compile_reviewer_Inr:
  assumes "compile_reviewer status v = Inr reviewer"
  shows "case reviewer of None \<Rightarrow> status \<noteq> PRODUCTION
    | Some s \<Rightarrow> \<not> is_placeholder_reviewer s \<and> strip s \<noteq> []"
proof (cases "v = VNone")
  case True
  with assms show ?thesis
    by (auto simp: compile_reviewer_def optional_text_def split: if_splits)
next
  case False
  with assms obtain s where "text_field ''reviewed_by'' MAX_STRING_OPERAND_CHARS v = Inr s"
    "\<not> is_placeholder_reviewer s" "reviewer = Some s"
    by (auto simp: compile_reviewer_def optional_text_def split: if_splits)
  then show ?thesis by (auto dest: text_field_Inr)
qed

lemma compile_rule_list_ok:
  "compile_rule_list v = Inr rs \<Longrightarrow> rs \<noteq> [] \<and> int (length rs) \<le> MAX_RULES
     \<and> list_all rule_loaded rs \<and> distinct (map rule_id rs)"
  by (auto simp: compile_rule_list_def dest!: compile_rules_ok split: pv.splits if_splits)

lemma compile_policy_Inr:
  assumes "compile_policy source hash document = Inr p"
  obtains d raws where "document = VDict d" "compile_rule_list raws = Inr (policy_rules p)"
    "compile_thresholds (vget d ''score_thresholds'') = Inr (score_thresholds p)"
    "referenced_paths p = policy_paths (policy_rules p)"
    "compile_reviewer (policy_status p) (vget d ''reviewed_by'') = Inr (policy_reviewed_by p)"
    "content_hash p = hash" "policy_source p = source"
proof (cases document)
  case (VDict d)
  with assms show thesis using that by (auto simp: compile_policy_def policy_paths_def)
qed (use assms in \<open>auto simp: compile_policy_def\<close>)

lemma compile_policy_ok:
  assumes "compile_policy source hash document = Inr p" "thresholds_keys_unique document"
  shows "policy_ok p \<and> int (length (policy_rules p)) \<le> MAX_RULES \<and> list_all rule_loaded (policy_rules p)"
proof -
  obtain d raws where d: "document = VDict d" "compile_rule_list raws = Inr (policy_rules p)"
    "compile_thresholds (vget d ''score_thresholds'') = Inr (score_thresholds p)"
    "referenced_paths p = policy_paths (policy_rules p)"
    "compile_reviewer (policy_status p) (vget d ''reviewed_by'') = Inr (policy_reviewed_by p)"
    using compile_policy_Inr [OF assms(1)] by metis
  have "thresholds_ok (score_thresholds p)"
    using d(1,3) assms(2) by (simp add: thresholds_keys_unique_def compile_thresholds_ok)
  moreover have "policy_status p = PRODUCTION \<longrightarrow> policy_reviewed_by p \<noteq> None"
    using compile_reviewer_Inr [OF d(5)] by (auto split: option.splits)
  ultimately show ?thesis
    using compile_rule_list_ok [OF d(2)] d(4)
    by (auto simp: policy_ok_def rule_loaded_def list_all_iff)
qed

lemma load_policy_bytes_compiles:
  assumes "load_policy_bytes parse sha256 data source req = Inr p"
  obtains document where "parse data = Inr document"
    "compile_policy source (''sha256:'' @ sha256 data) document = Inr p"
    "req \<Longrightarrow> policy_status p = PRODUCTION"
  using assms by (auto simp: load_policy_bytes_def split: sum.splits if_splits)

lemma load_files_spec:
  "load_files load ps0 files = Inr ps \<Longrightarrow>
     (\<forall>k v. dget ps0 k = Some v \<longrightarrow> dget ps k = Some v)
     \<and> (\<forall>f \<in> set files. \<exists>p. load f = Inr p \<and> dget ps (policy_id p) = Some p)
     \<and> length ps = length ps0 + length files"
proof (induction load ps0 files rule: load_files.induct)
  case (2 load ps0 f files)
  then obtain p where p: "load f = Inr p" "\<not> dhas ps0 (policy_id p)"
    "load_files load (dset ps0 (policy_id p) p) files = Inr ps" by (auto split: if_splits)
  have "length (dset ps0 (policy_id p) p) = Suc (length ps0)"
    using p(2) by (metis dhas_keys dset_new length_append_singleton)
  moreover have "dget ps0 k = Some v \<Longrightarrow> k \<noteq> policy_id p" for k v
    using p(2) by (auto simp: dhas_def)
  ultimately show ?case
    using "2.IH" [OF p(1) p(2) p(3)] p(1) by auto
qed simp

section \<open>Properties of the loader\<close>

text \<open>C3: a policy the loader accepts is well-formed: its rules are non-empty, at most 500, with
  distinct ids, scores within 0 and 100, conditions at most 12 deep whose operands suit their
  operators; thresholds rise strictly with the tier; the referenced paths are the sorted set of
  paths the rules read; a production policy names its reviewer. The only assumption is that the
  YAML parser refuses duplicate keys.\<close>

theorem loaded_policy_well_formed:
  assumes "load_policy_bytes parse sha256 data source req = Inr p"
    and "\<forall>document. parse data = Inr document \<longrightarrow> thresholds_keys_unique document"
  shows "policy_ok p \<and> int (length (policy_rules p)) \<le> MAX_RULES
    \<and> (\<forall>r \<in> set (policy_rules p). cond_depth (rule_when r) \<le> MAX_CONDITION_DEPTH)"
  using load_policy_bytes_compiles [OF assms(1)] compile_policy_ok assms(2)
  by (metis list_all_iff rule_loaded_def)

text \<open>nothing about a policy's shape is left for the engine to discover: a policy accepted by
  the loader evaluates to a result on every evidence mapping, and the result renders as a document.\<close>

theorem loaded_policy_always_evaluates:
  assumes "load_policy_bytes parse sha256 data source req = Inr p"
    and "\<forall>document. parse data = Inr document \<longrightarrow> thresholds_keys_unique document"
    and "is_mapping ev"
  shows "\<exists>res. evaluate chash p ev = Inr res \<and> res_policy_hash res = ''sha256:'' @ sha256 data"
proof -
  obtain document where d: "parse data = Inr document"
    "compile_policy source (''sha256:'' @ sha256 data) document = Inr p"
    using load_policy_bytes_compiles [OF assms(1)] .
  then have ok: "policy_ok p" using compile_policy_ok assms(2) by blast
  have "content_hash p = ''sha256:'' @ sha256 data"
    using compile_policy_Inr [OF d(2)] by metis
  moreover obtain rds fs where "evaluate chash p ev = Inr (build_result chash p rds (order_fired fs))"
    using evaluate_eq [OF ok assms(3), of chash] by blast
  ultimately show ?thesis by (simp add: build_result_def Let_def)
qed

text \<open>With \<open>require_production\<close> a load succeeds only for a production policy whose
  \<open>reviewed_by\<close> is present and is not one of the placeholder names.\<close>

theorem production_load_names_a_reviewer:
  assumes "load_policy_bytes parse sha256 data source True = Inr p"
  shows "policy_status p = PRODUCTION
    \<and> (\<exists>s. policy_reviewed_by p = Some s \<and> \<not> is_placeholder_reviewer s \<and> strip s \<noteq> [])"
proof -
  obtain document where d: "compile_policy source (''sha256:'' @ sha256 data) document = Inr p"
    "policy_status p = PRODUCTION"
    using load_policy_bytes_compiles [OF assms] by blast
  then obtain v where "compile_reviewer PRODUCTION v = Inr (policy_reviewed_by p)"
    using compile_policy_Inr by metis
  from compile_reviewer_Inr [OF this] d(2) show ?thesis by (auto split: option.splits)
qed

text \<open>Loading a directory fails closed: it succeeds only when every listed file loads, no two
  files declare the same policy id and there is at least one file; the result then holds each
  file's policy under its id and nothing else.\<close>

theorem load_policies_all_or_nothing:
  assumes "load_policies parse sha256 fs req listing = Inr ps"
  shows "\<exists>names. listing = Some names \<and> names \<noteq> [] \<and> length ps = length names
    \<and> (\<forall>f \<in> set names. \<exists>p. load_policy parse sha256 fs req f = Inr p \<and> dget ps (policy_id p) = Some p)"
proof -
  from assms obtain names where n: "listing = Some names" "names \<noteq> []"
    "load_files (load_policy parse sha256 fs req) [] (sort names) = Inr ps"
    by (auto simp: load_policies_def Let_def split: option.splits if_splits)
  from load_files_spec [OF n(3)] n(1,2) show ?thesis by simp
qed

section \<open>A concrete document\<close>

definition sample_document :: pv where
  "sample_document = VDict
     [(''policy'', VStr ''kyb''), (''version'', VStr ''1.2.0-rc.1+b7''), (''status'', VStr ''production''),
      (''reviewed_by'', VStr ''Asha Rao''),
      (''score_thresholds'', VDict [(''blocked'', VInt 90), (''high'', VInt 60)]),
      (''rules'', VList
        [VDict [(''id'', VStr ''owners''),
                (''when'', VDict [(''all'', VList [VDict [(''owners.count'', VDict [(''gt'', VInt 3)])]])]),
                (''effect'', VDict [(''tier'', VStr ''medium''), (''reason'', VStr ''many owners'')])]])]"

definition sample_parser :: yaml_parser where
  "sample_parser data = (if data = ''doc'' then Inr sample_document else Inl YAML_INVALID)"

definition sample_loaded :: "(load_error, policy) res" where
  "sample_loaded = load_policy_bytes sample_parser (\<lambda>_. ''0'') ''doc'' ''memory'' True"

lemma sample_load:
  obtains p where "load_policy_bytes sample_parser (\<lambda>_. ''0'') ''doc'' ''memory'' True = Inr p"
proof -
  have "case sample_loaded of Inl e \<Rightarrow> False | Inr p \<Rightarrow> True" by code_simp
  then show thesis using that by (auto simp: sample_loaded_def split: sum.splits)
qed

lemma sample_load_file:
  obtains p where "load_policy sample_parser (\<lambda>_. ''0'') (\<lambda>f. Some ''doc'') True ''a.yaml'' = Inr p"
proof -
  have "case load_policy_bytes sample_parser (\<lambda>_. ''0'') ''doc'' ''a.yaml'' True of
      Inl e \<Rightarrow> False | Inr p \<Rightarrow> True" by code_simp
  moreover have "take (nat MAX_POLICY_BYTES + 1) ''doc'' = ''doc''"
    by (simp add: MAX_POLICY_BYTES_def)
  ultimately show thesis
    using that by (auto simp: load_policy_def split: sum.splits)
qed

lemma sample_parser_unique:
  "\<forall>document. sample_parser ''doc'' = Inr document \<longrightarrow> thresholds_keys_unique document"
proof -
  have "thresholds_keys_unique sample_document" by code_simp
  then show ?thesis by (simp add: sample_parser_def)
qed

theorem loaded_policy_well_formed_witness:
  "\<exists>p. load_policy_bytes sample_parser (\<lambda>_. ''0'') ''doc'' ''memory'' True = Inr p \<and> policy_ok p"
proof -
  obtain p where p: "load_policy_bytes sample_parser (\<lambda>_. ''0'') ''doc'' ''memory'' True = Inr p"
    using sample_load .
  from p loaded_policy_well_formed [OF p sample_parser_unique] show ?thesis by blast
qed

theorem loaded_policy_always_evaluates_witness:
  "\<exists>p res. load_policy_bytes sample_parser (\<lambda>_. ''0'') ''doc'' ''memory'' True = Inr p
     \<and> evaluate (\<lambda>_. ''h'') p (VDict []) = Inr res \<and> res_policy_hash res = ''sha256:0''"
proof -
  obtain p where p: "load_policy_bytes sample_parser (\<lambda>_. ''0'') ''doc'' ''memory'' True = Inr p"
    using sample_load .
  have "is_mapping (VDict [])" by code_simp
  from loaded_policy_always_evaluates [OF p sample_parser_unique this, of "\<lambda>_. ''h''"] p
  show ?thesis by auto
qed

theorem production_load_names_a_reviewer_witness:
  "\<exists>p. load_policy_bytes sample_parser (\<lambda>_. ''0'') ''doc'' ''memory'' True = Inr p
     \<and> policy_status p = PRODUCTION"
  using sample_load production_load_names_a_reviewer by metis

theorem load_policies_all_or_nothing_witness:
  "\<exists>ps. load_policies sample_parser (\<lambda>_. ''0'') (\<lambda>f. Some ''doc'') True (Some [''a.yaml'']) = Inr ps
     \<and> length ps = 1"
proof -
  obtain p where "load_policy sample_parser (\<lambda>_. ''0'') (\<lambda>f. Some ''doc'') True ''a.yaml'' = Inr p"
    using sample_load_file .
  then obtain ps where ps: "load_policies sample_parser (\<lambda>_. ''0'') (\<lambda>f. Some ''doc'') True (Some [''a.yaml'']) = Inr ps"
    by (auto simp: load_policies_def dhas_def)
  from load_policies_all_or_nothing [OF this] ps show ?thesis by auto
qed

end
