(* ===== verification/Lifecycle.thy ===== *)
theory Lifecycle
  imports Prelude
begin

text \<open>
  State machines given by a table of allowed successors: the interface every lifecycle of the
  platform has, stated as a locale, and two of its providers: the workflow states of the
  orchestrator (\<open>core/orchestrator/state_machine.py\<close>) and the runtime lifecycle of agents
  (\<open>scaling/lifecycle.py\<close>).
\<close>

section \<open>Runs of a move function\<close>

fun run :: "('s \<Rightarrow> 't \<Rightarrow> ('e, 's) res) \<Rightarrow> 's \<Rightarrow> 't list \<Rightarrow> ('e, 's) res" where
  "run move s [] = Inr s"
| "run move s (t # ts) = rbind (move s t) (\<lambda>u. run move u ts)"

lemma run_append: "run move s (ts @ us) = rbind (run move s ts) (\<lambda>u. run move u us)"
proof (induction ts arbitrary: s)
  case (Cons t ts)
  then show ?case by (cases "move s t") auto
qed simp

section \<open>The interface of a lifecycle\<close>

text \<open>
  \<open>allowed s\<close> lists the successors of \<open>s\<close>; \<open>move s t\<close> returns \<open>t\<close> exactly when it is listed and
  raises otherwise.
\<close>

locale lifecycle =
  fixes allowed :: "'s \<Rightarrow> 's list"
    and move :: "'s \<Rightarrow> 's \<Rightarrow> ('e, 's) res"
  assumes move_iff: "move s t = Inr u \<longleftrightarrow> t \<in> set (allowed s) \<and> u = t"
begin

lemma move_refused: "t \<notin> set (allowed s) \<Longrightarrow> \<exists>e. move s t = Inl e"
  by (cases "move s t") (auto simp: move_iff)

lemma terminal_absorbs:
  assumes "allowed s = []" "ts \<noteq> []"
  shows "\<exists>e. run move s ts = Inl e"
proof -
  obtain t us where ts: "ts = t # us" using assms(2) by (cases ts) auto
  obtain e where "move s t = Inl e" using move_refused [of t s] assms(1) by auto
  then show ?thesis by (simp add: ts)
qed

lemma run_last: "run move s ts = Inr u \<Longrightarrow> u = last (s # ts)"
  by (induction ts arbitrary: s) (auto simp: move_iff)

lemma run_closed:
  assumes "\<And>s. s \<in> C \<Longrightarrow> set (allowed s) \<subseteq> C" "s \<in> C" "run move s ts = Inr u"
  shows "u \<in> C"
  using assms(2,3)
proof (induction ts arbitrary: s)
  case (Cons t ts)
  then show ?case using assms(1) by (fastforce simp: move_iff)
qed simp

lemma run_enters:
  assumes "run move s ts = Inr g" "s \<noteq> g"
  shows "\<exists>us vs p. ts = us @ g # vs \<and> run move s us = Inr p \<and> g \<in> set (allowed p) \<and> g \<notin> set us"
  using assms
proof (induction ts arbitrary: s)
  case (Cons t ts)
  then have t: "t \<in> set (allowed s)" "move s t = Inr t" "run move t ts = Inr g"
    by (auto simp: move_iff)
  show ?case
  proof (cases "t = g")
    case True
    with t show ?thesis by (intro exI [of _ "[]"] exI [of _ ts] exI [of _ s]) auto
  next
    case False
    from Cons.IH [OF t(3) this] obtain us vs p where
      "ts = us @ g # vs" "run move t us = Inr p" "g \<in> set (allowed p)" "g \<notin> set us" by blast
    with t False show ?thesis by (intro exI [of _ "t # us"] exI [of _ vs] exI [of _ p]) auto
  qed
qed simp

text \<open>
  Stages: when a move climbs at most one level and level \<open>k + 1\<close> is entered from level \<open>k\<close> only at
  the state \<open>xs ! k\<close>, a run that climbs visits every stage between, in order.
\<close>

lemma stages_visited:
  assumes climb: "\<And>s t. t \<in> set (allowed s) \<Longrightarrow> lvl t \<le> Suc (lvl s)"
    and gate: "\<And>s t. t \<in> set (allowed s) \<Longrightarrow> lvl t = Suc (lvl s) \<Longrightarrow> lvl s < length xs \<Longrightarrow> t = xs ! lvl s"
    and r: "run move s ts = Inr u"
  shows "subseq (drop (lvl s) (take (lvl u) xs)) ts"
  using r
proof (induction ts arbitrary: s)
  case (Cons t ts)
  then have t: "t \<in> set (allowed s)" and rest: "run move t ts = Inr u" by (auto simp: move_iff)
  note IH = Cons.IH [OF rest]
  let ?ys = "take (lvl u) xs"
  show ?case
  proof (cases "lvl t = Suc (lvl s)")
    case climbs: True
    show ?thesis
    proof (cases "lvl s < length ?ys")
      case True
      then have "drop (lvl s) ?ys = ?ys ! lvl s # drop (Suc (lvl s)) ?ys"
        by (metis Cons_nth_drop_Suc)
      moreover have "?ys ! lvl s = t" using gate [OF t climbs] True by simp
      ultimately show ?thesis using IH climbs by simp
    next
      case False
      then have "drop (lvl s) ?ys = []" by (intro drop_all) linarith
      then show ?thesis by simp
    qed
  next
    case False
    then have "lvl t \<le> lvl s" using climb [OF t] by simp
    then have "drop (lvl s) ?ys = drop (lvl s - lvl t) (drop (lvl t) ?ys)" by simp
    then have "subseq (drop (lvl s) ?ys) (drop (lvl t) ?ys)"
      by (metis suffix_drop suffix_imp_subseq)
    then show ?thesis using IH by (meson list_emb_Cons subseq_order.order_trans)
  qed
qed simp

end

section \<open>The workflow states of the orchestrator\<close>

datatype workflow_state = PENDING | RUNNING | WAITING_HITL | COMPLETED | FAILED | CANCELLED

fun TRANSITIONS :: "workflow_state \<Rightarrow> workflow_state list" where
  "TRANSITIONS PENDING = [RUNNING, CANCELLED]"
| "TRANSITIONS RUNNING = [WAITING_HITL, COMPLETED, FAILED, CANCELLED]"
| "TRANSITIONS WAITING_HITL = [RUNNING, FAILED, CANCELLED]"
| "TRANSITIONS COMPLETED = []"
| "TRANSITIONS FAILED = []"
| "TRANSITIONS CANCELLED = []"

definition can_transition :: "workflow_state \<Rightarrow> workflow_state \<Rightarrow> bool" where
  "can_transition current target \<longleftrightarrow> target \<in> set (TRANSITIONS current)"

definition transition :: "workflow_state \<Rightarrow> workflow_state \<Rightarrow> (py_error, workflow_state) res" where
  "transition current target =
     (if \<not> can_transition current target then Inl (ValueError ''Invalid transition'') else Inr target)"

interpretation wf: lifecycle TRANSITIONS transition
  by unfold_locales (auto simp: transition_def can_transition_def)

section \<open>The runtime lifecycle of agents\<close>

definition VALID_TRANSITIONS :: "(string list) dict" where
  "VALID_TRANSITIONS =
     [(''draft'', [''shadow'']),
      (''shadow'', [''review_ready'', ''shadow_failing'']),
      (''shadow_failing'', [''shadow'']),
      (''review_ready'', [''staging'', ''shadow'']),
      (''staging'', [''production_ready'', ''shadow'']),
      (''production_ready'', [''active'', ''staging'']),
      (''active'', [''paused'', ''deprecated'']),
      (''paused'', [''active'', ''deprecated'']),
      (''deprecated'', [''deleted''])]"

definition agent_allowed :: "string \<Rightarrow> string list" where
  "agent_allowed current = (case dget VALID_TRANSITIONS current of None \<Rightarrow> [] | Some ts \<Rightarrow> ts)"

definition agent_can_transition :: "string \<Rightarrow> string \<Rightarrow> bool" where
  "agent_can_transition current target \<longleftrightarrow> target \<in> set (agent_allowed current)"

text \<open>The record of the transition that is returned; the reason is only accepted, never kept.\<close>

definition agent_transition ::
  "string \<Rightarrow> string \<Rightarrow> string \<Rightarrow> string \<Rightarrow> (py_error, string dict) res" where
  "agent_transition agent_id current target triggered_by =
     (if \<not> agent_can_transition current target then Inl (ValueError ''Invalid transition'')
      else Inr [(''agent_id'', agent_id), (''from_status'', current), (''to_status'', target),
                (''triggered_by'', triggered_by)])"

definition check_shadow_promotion :: "int \<Rightarrow> pyfloat \<Rightarrow> int \<Rightarrow> pyfloat \<Rightarrow> string option" where
  "check_shadow_promotion sample_count accuracy min_samples accuracy_floor =
     (if sample_count < min_samples then None
      else if fl_lt accuracy_floor accuracy \<or> fl_eq accuracy_floor accuracy then Some ''review_ready''
      else Some ''shadow_failing'')"

definition agent_move :: "string \<Rightarrow> string \<Rightarrow> string \<Rightarrow> string \<Rightarrow> (py_error, string) res" where
  "agent_move agent_id triggered_by current target =
     rbind (agent_transition agent_id current target triggered_by) (\<lambda>d. dindex d ''to_status'')"

lemma agent_move_iff:
  "agent_move a b s t = Inr u \<longleftrightarrow> t \<in> set (agent_allowed s) \<and> u = t"
  by (auto simp: agent_move_def agent_transition_def agent_can_transition_def)

interpretation ag: lifecycle agent_allowed "agent_move a b"
  by unfold_locales (rule agent_move_iff)

definition agent_level :: "string \<Rightarrow> nat" where
  "agent_level s =
     (if s = ''draft'' then 0
      else if s = ''shadow'' \<or> s = ''shadow_failing'' then 1
      else if s = ''review_ready'' then 2 else if s = ''staging'' then 3
      else if s = ''production_ready'' then 4
      else if s = ''active'' \<or> s = ''paused'' \<or> s = ''deprecated'' \<or> s = ''deleted'' then 5 else 0)"

definition agent_stages :: "string list" where
  "agent_stages = [''shadow'', ''review_ready'', ''staging'', ''production_ready'', ''active'']"

lemma agent_table_levels:
  "list_all (\<lambda>(s, ts). list_all (\<lambda>t. agent_level t \<le> Suc (agent_level s)
      \<and> (agent_level t = Suc (agent_level s) \<longrightarrow> t = agent_stages ! agent_level s)) ts) VALID_TRANSITIONS"
  by code_simp

lemma agent_levels:
  assumes "t \<in> set (agent_allowed s)"
  shows "agent_level t \<le> Suc (agent_level s)"
    and "agent_level t = Suc (agent_level s) \<Longrightarrow> t = agent_stages ! agent_level s"
proof -
  obtain ts where "dget VALID_TRANSITIONS s = Some ts" "t \<in> set ts"
    using assms by (cases "dget VALID_TRANSITIONS s") (simp_all add: agent_allowed_def)
  with agent_table_levels show "agent_level t \<le> Suc (agent_level s)"
    "agent_level t = Suc (agent_level s) \<Longrightarrow> t = agent_stages ! agent_level s"
    by (fastforce dest!: dget_Some_set simp: list_all_iff)+
qed

section \<open>Properties\<close>

text \<open>A workflow that completed, failed or was cancelled is final: every further transition is refused,
  and a run that reaches \<open>completed\<close> from the start was in \<open>running\<close> immediately before it.\<close>
theorem workflow_terminal_and_completion:
  assumes "run transition PENDING ts = Inr s" "s \<in> {COMPLETED, FAILED, CANCELLED}"
  shows "(us \<noteq> [] \<longrightarrow> (\<exists>e. run transition s us = Inl e))
    \<and> (s = COMPLETED \<longrightarrow> (\<exists>pre. run transition PENDING pre = Inr RUNNING \<and> ts = pre @ [COMPLETED]))"
proof (intro conjI impI)
  have final: "TRANSITIONS s = []" using assms(2) by auto
  show "\<exists>e. run transition s us = Inl e" if "us \<noteq> []" by (rule wf.terminal_absorbs [OF final that])
  show "\<exists>pre. run transition PENDING pre = Inr RUNNING \<and> ts = pre @ [COMPLETED]" if s: "s = COMPLETED"
  proof -
    obtain us vs p where d: "ts = us @ COMPLETED # vs" "run transition PENDING us = Inr p"
        "COMPLETED \<in> set (TRANSITIONS p)"
      using wf.run_enters [OF assms(1) [unfolded s]] by auto
    have p: "p = RUNNING" using d(3) by (cases p) auto
    have "run transition COMPLETED vs = Inr COMPLETED"
      using assms(1) d(1,2) p s by (simp add: run_append transition_def can_transition_def)
    then have "vs = []" using wf.terminal_absorbs [of COMPLETED vs] by fastforce
    with d p show ?thesis by auto
  qed
qed

text \<open>An agent that was drafted becomes active only by way of shadow, review, staging and
  production-ready, visited in that order.\<close>
theorem agent_active_only_through_stages:
  assumes "run (agent_move a b) ''draft'' ts = Inr ''active''"
  shows "subseq [''shadow'', ''review_ready'', ''staging'', ''production_ready'', ''active''] ts"
  using ag.stages_visited [where lvl = agent_level and xs = agent_stages,
      OF agent_levels assms]
  by (simp add: agent_level_def agent_stages_def)

theorem workflow_terminal_and_completion_witness:
  "run transition PENDING [RUNNING, WAITING_HITL, RUNNING, COMPLETED] = Inr COMPLETED
   \<and> (\<exists>e. run transition COMPLETED [RUNNING] = Inl e)
   \<and> (\<exists>pre. run transition PENDING pre = Inr RUNNING
        \<and> [RUNNING, WAITING_HITL, RUNNING, COMPLETED] = pre @ [COMPLETED])"
proof -
  have r: "run transition PENDING [RUNNING, WAITING_HITL, RUNNING, COMPLETED] = Inr COMPLETED"
    by code_simp
  show ?thesis
    using r workflow_terminal_and_completion [OF r, of "[RUNNING]"] by simp
qed

theorem agent_active_only_through_stages_witness:
  "subseq [''shadow'', ''review_ready'', ''staging'', ''production_ready'', ''active'']
     [''shadow'', ''shadow_failing'', ''shadow'', ''review_ready'', ''staging'', ''production_ready'', ''active'']"
proof (rule agent_active_only_through_stages [of "''a1''" "''system''"])
  show "run (agent_move ''a1'' ''system'') ''draft''
      [''shadow'', ''shadow_failing'', ''shadow'', ''review_ready'', ''staging'', ''production_ready'', ''active'']
    = Inr ''active''" by code_simp
qed

end
