(* ===== verification/Agent_Registry.thy ===== *)
theory Agent_Registry
  imports Lifecycle
begin

text \<open>
  The governance lifecycle of an agent (\<open>core/agent_registry/lifecycle.py\<close>) and the promotion
  gate that ties it to the runtime (\<open>core/agent_registry/approval.py\<close>). The registry entry is a
  record, the recorded events a list in the order they were added; users and agents are
  identified by strings, times are numbers the caller supplies.
\<close>

section \<open>The entry and its events\<close>

definition STATES :: "string list" where
  "STATES = [''draft'', ''review'', ''approved'', ''published'', ''deprecated'', ''retired'']"

definition REGISTRY_TRANSITIONS :: "(string list) dict" where
  "REGISTRY_TRANSITIONS =
     [(''draft'', [''review'']),
      (''review'', [''draft'', ''approved'']),
      (''approved'', [''draft'', ''review'', ''published'']),
      (''published'', [''deprecated'']),
      (''deprecated'', [''retired'']),
      (''retired'', [])]"

definition CHANNELS :: "string list" where
  "CHANNELS = [''api'', ''chat'', ''voice'', ''email'', ''workflow'', ''a2a'']"

definition ENVIRONMENTS :: "(string option) dict" where
  "ENVIRONMENTS =
     [(''draft'', Some ''development''), (''review'', Some ''development''),
      (''approved'', Some ''staging''), (''published'', Some ''production''),
      (''deprecated'', Some ''production''), (''retired'', None)]"

definition RISK_TIERS :: "string list" where
  "RISK_TIERS = [''low'', ''medium'', ''high'', ''critical'']"

definition MAX_PURPOSE :: nat where "MAX_PURPOSE = 2000"
definition MAX_USE_CASE :: nat where "MAX_USE_CASE = 120"
definition MAX_NOTE :: nat where "MAX_NOTE = 500"

datatype registry_error = RegistryError nat string | RegistryKeyError string

record registry_entry =
  re_agent :: string
  re_purpose :: "string option"
  re_use_case :: "string option"
  re_risk_tier :: pv
  re_channels :: "string list"
  re_state :: string
  re_submitted_by :: "string option"
  re_changed_at :: int
  re_changed_by :: "string option"
  re_updated_at :: int

record registry_event =
  ev_agent :: string
  ev_from :: string
  ev_to :: string
  ev_actor :: "string option"
  ev_note :: "string option"
  ev_at :: int

section \<open>Card fields\<close>

definition registry_text :: "pv \<Rightarrow> nat \<Rightarrow> (registry_error, string option) res" where
  "registry_text value limit =
     (case value of
        VNone \<Rightarrow> Inr None
      | VStr s \<Rightarrow>
          if strip s = [] then Inr None
          else if length (strip s) > limit then Inl (RegistryError 422 ''invalid'')
          else Inr (Some (strip s))
      | _ \<Rightarrow> Inl (RegistryError 422 ''invalid''))"

definition str_items :: "pv list \<Rightarrow> string list" where
  "str_items vs = concat (map (\<lambda>v. case v of VStr s \<Rightarrow> [s] | _ \<Rightarrow> []) vs)"

text \<open>
  The channels that are left out of the request are not in the result; a falsy value is the empty
  list; the result is the set of the channels in the order of \<open>CHANNELS\<close>.
\<close>

definition parse_channels :: "pv \<Rightarrow> (registry_error, string list) res" where
  "parse_channels raw =
     (case (if truthy raw then raw else VList []) of
        VList vs \<Rightarrow>
          if list_ex (\<lambda>v. v \<notin> VStr ` set CHANNELS) vs then Inl (RegistryError 422 ''invalid'')
          else Inr (filter (\<lambda>c. c \<in> set (str_items vs)) CHANNELS)
      | _ \<Rightarrow> Inl (RegistryError 422 ''invalid''))"

record card_fields =
  cf_purpose :: "string option option"
  cf_use_case :: "string option option"
  cf_risk_tier :: "pv option"
  cf_channels :: "string list option"

definition field_of :: "pv dict \<Rightarrow> string \<Rightarrow> (pv \<Rightarrow> (registry_error, 'a) res) \<Rightarrow> (registry_error, 'a option) res" where
  "field_of raw key parse =
     (if dhas raw key then rbind (parse (vget raw key)) (\<lambda>x. Inr (Some x)) else Inr None)"

definition parse_card_fields :: "pv dict \<Rightarrow> (registry_error, card_fields) res" where
  "parse_card_fields raw =
     rbind (ensure (list_all (\<lambda>k. k \<in> set [''purpose'', ''risk_tier'', ''use_case'', ''channels'']) (dkeys raw))
              (RegistryError 422 ''invalid'')) (\<lambda>_.
     rbind (field_of raw ''purpose'' (\<lambda>v. registry_text v MAX_PURPOSE)) (\<lambda>purpose.
     rbind (field_of raw ''use_case'' (\<lambda>v. registry_text v MAX_USE_CASE)) (\<lambda>use_case.
     rbind (field_of raw ''risk_tier'' (\<lambda>v.
              if v \<noteq> VNone \<and> v \<notin> VStr ` set RISK_TIERS then Inl (RegistryError 422 ''invalid'') else Inr v))
       (\<lambda>tier.
     rbind (field_of raw ''channels'' parse_channels) (\<lambda>channels.
       Inr \<lparr> cf_purpose = purpose, cf_use_case = use_case, cf_risk_tier = tier, cf_channels = channels \<rparr>)))))"

definition opt_upd :: "'a option \<Rightarrow> 'a \<Rightarrow> 'a" where
  "opt_upd new old = (case new of None \<Rightarrow> old | Some x \<Rightarrow> x)"

section \<open>Entries of a tenant\<close>

text \<open>The state of a tenant's registry: one entry per agent, and the events in order.\<close>

record registry =
  entries :: "registry_entry dict"
  event_log :: "registry_event list"

definition get_entry :: "registry \<Rightarrow> string \<Rightarrow> registry_entry option" where
  "get_entry R agent = dget (entries R) agent"

definition new_entry :: "string \<Rightarrow> int \<Rightarrow> registry_entry" where
  "new_entry agent now = \<lparr> re_agent = agent, re_purpose = None, re_use_case = None, re_risk_tier = VNone,
     re_channels = [], re_state = ''draft'', re_submitted_by = None, re_changed_at = now,
     re_changed_by = None, re_updated_at = now \<rparr>"

definition ensure_entry :: "registry \<Rightarrow> string \<Rightarrow> int \<Rightarrow> registry_entry" where
  "ensure_entry R agent now =
     (case get_entry R agent of None \<Rightarrow> new_entry agent now | Some e \<Rightarrow> e)"

definition set_card_fields :: "registry \<Rightarrow> string \<Rightarrow> card_fields \<Rightarrow> int \<Rightarrow> registry" where
  "set_card_fields R agent f now =
     (let e = ensure_entry R agent now;
          e' = e\<lparr> re_purpose := opt_upd (cf_purpose f) (re_purpose e),
                  re_use_case := opt_upd (cf_use_case f) (re_use_case e),
                  re_risk_tier := opt_upd (cf_risk_tier f) (re_risk_tier e),
                  re_channels := opt_upd (cf_channels f) (re_channels e),
                  re_updated_at := now \<rparr>
      in R\<lparr> entries := dset (entries R) agent e' \<rparr>)"

text \<open>The check against the transition table alone.\<close>

definition registry_allowed :: "string \<Rightarrow> string list" where
  "registry_allowed s = (case dget REGISTRY_TRANSITIONS s of None \<Rightarrow> [] | Some ts \<Rightarrow> ts)"

definition registry_move :: "string \<Rightarrow> string \<Rightarrow> (registry_error, string) res" where
  "registry_move current to_state =
     (case dget REGISTRY_TRANSITIONS current of
        None \<Rightarrow> Inl (RegistryKeyError current)
      | Some targets \<Rightarrow>
          if to_state \<notin> set targets then Inl (RegistryError 409 ''transition'') else Inr to_state)"

text \<open>
  A refused transition raises inside the transaction, so nothing of it is kept; a transition that
  succeeds returns the registry with the entry moved and the event added.
\<close>

record transition_request =
  tq_agent :: string
  tq_status :: string
  tq_to :: string
  tq_actor :: "string option"
  tq_note :: pv
  tq_require_actor :: bool
  tq_now :: int

definition apply_transition :: "registry \<Rightarrow> transition_request \<Rightarrow> string option \<Rightarrow> registry" where
  "apply_transition R q clean_note =
     (let entry = ensure_entry R (tq_agent q) (tq_now q);
          event = \<lparr> ev_agent = tq_agent q, ev_from = re_state entry, ev_to = tq_to q,
                    ev_actor = tq_actor q, ev_note = clean_note, ev_at = tq_now q \<rparr>;
          entry' = entry\<lparr> re_submitted_by :=
                            (if tq_to q = ''review'' then tq_actor q else re_submitted_by entry),
                          re_state := tq_to q, re_changed_at := tq_now q,
                          re_changed_by := tq_actor q, re_updated_at := tq_now q \<rparr>
      in \<lparr> entries = dset (entries R) (tq_agent q) entry', event_log = event_log R @ [event] \<rparr>)"

definition registry_transition :: "registry \<Rightarrow> transition_request \<Rightarrow> (registry_error, registry) res" where
  "registry_transition R q =
     (let to_state = tq_to q; actor = tq_actor q in
      if to_state \<notin> set STATES then Inl (RegistryError 422 ''invalid'')
      else if (tq_require_actor q \<or> to_state = ''review'') \<and> actor = None then Inl (RegistryError 403 ''no_actor'')
      else rbind (registry_text (tq_note q) MAX_NOTE) (\<lambda>clean_note.
        let entry = ensure_entry R (tq_agent q) (tq_now q) in
        rbind (registry_move (re_state entry) to_state) (\<lambda>_.
          if to_state = ''approved'' \<and> (actor = None \<or> re_submitted_by entry = actor)
          then Inl (RegistryError 409 ''same_person'')
          else if to_state = ''approved'' \<and> re_submitted_by entry = None
          then Inl (RegistryError 409 ''submitter_required'')
          else if to_state = ''published'' \<and> tq_status q \<noteq> ''active''
          then Inl (RegistryError 409 ''not_active'')
          else Inr (apply_transition R q clean_note))))"

definition MAX_LISTED :: nat where "MAX_LISTED = 500"

text \<open>The newest events first; the database orders by time, the log is already in that order.\<close>

definition registry_events :: "registry \<Rightarrow> string \<Rightarrow> registry_event list" where
  "registry_events R agent =
     take MAX_LISTED (rev (sort_key ev_at (filter (\<lambda>e. ev_agent e = agent) (event_log R))))"

section \<open>The promotion gate\<close>

datatype approval_error = ApprovalError string string

definition PROMOTABLE_STATES :: "string list" where
  "PROMOTABLE_STATES = [''approved'', ''published'']"

definition gates_promotion :: "bool \<Rightarrow> bool \<Rightarrow> bool" where
  "gates_promotion setting enabled \<longleftrightarrow> setting \<and> enabled"

definition environment_of :: "string \<Rightarrow> string option" where
  "environment_of state = (case dget ENVIRONMENTS state of None \<Rightarrow> None | Some e \<Rightarrow> e)"

definition check_new_agent_status :: "bool \<Rightarrow> string \<Rightarrow> (approval_error, unit) res" where
  "check_new_agent_status gates status =
     (if gates \<and> status = ''active'' then Inl (ApprovalError ''not_approved'' ''draft'') else Inr ())"

definition entry_state :: "registry \<Rightarrow> string \<Rightarrow> string" where
  "entry_state R agent = (case get_entry R agent of None \<Rightarrow> ''draft'' | Some e \<Rightarrow> re_state e)"

definition check_promotion :: "bool \<Rightarrow> registry \<Rightarrow> string \<Rightarrow> (approval_error, string option) res" where
  "check_promotion gates R agent =
     (if \<not> gates then Inr None
      else let state = entry_state R agent in
        if state \<notin> set PROMOTABLE_STATES then Inl (ApprovalError ''not_approved'' state)
        else Inr (Some state))"

definition follow_request :: "string \<Rightarrow> string \<Rightarrow> string \<Rightarrow> string option \<Rightarrow> string \<Rightarrow> int \<Rightarrow> transition_request" where
  "follow_request agent status to_state actor note now = \<lparr> tq_agent = agent, tq_status = status,
     tq_to = to_state, tq_actor = actor, tq_note = VStr note, tq_require_actor = False, tq_now = now \<rparr>"

definition follow_promotion ::
  "bool \<Rightarrow> registry \<Rightarrow> string \<Rightarrow> string \<Rightarrow> string option \<Rightarrow> int \<Rightarrow> (registry_error, registry) res" where
  "follow_promotion gates R agent status actor now =
     (if \<not> gates then Inr R
      else if entry_state R agent = ''approved''
      then registry_transition R (follow_request agent status ''published'' actor ''Promoted to active'' now)
      else Inr R)"

definition follow_retirement ::
  "bool \<Rightarrow> registry \<Rightarrow> string \<Rightarrow> string \<Rightarrow> string option \<Rightarrow> int \<Rightarrow> (registry_error, registry) res" where
  "follow_retirement gates R agent status actor now =
     (if \<not> gates then Inr R
      else if entry_state R agent \<notin> set [''published'', ''deprecated''] then Inr R
      else rbind (if entry_state R agent = ''published''
                  then registry_transition R (follow_request agent status ''deprecated'' actor ''Agent retired'' now)
                  else Inr R)
        (\<lambda>R'. registry_transition R' (follow_request agent status ''retired'' actor ''Agent retired'' now)))"

section \<open>The table as a lifecycle\<close>

interpretation rg: lifecycle registry_allowed registry_move
  by unfold_locales (auto simp: registry_allowed_def registry_move_def split: option.splits)

definition registry_level :: "string \<Rightarrow> nat" where
  "registry_level s =
     (if s = ''review'' then 1 else if s = ''approved'' then 2
      else if s = ''published'' \<or> s = ''deprecated'' \<or> s = ''retired'' then 3 else 0)"

definition registry_stages :: "string list" where
  "registry_stages = [''review'', ''approved'', ''published'']"

lemma registry_table_levels:
  "list_all (\<lambda>(s, ts). list_all (\<lambda>t. registry_level t \<le> Suc (registry_level s)
      \<and> (registry_level t = Suc (registry_level s) \<longrightarrow> t = registry_stages ! registry_level s)) ts)
     REGISTRY_TRANSITIONS"
  by code_simp

lemma registry_allowed_mem:
  "t \<in> set (registry_allowed s) \<Longrightarrow> \<exists>ts. (s, ts) \<in> set REGISTRY_TRANSITIONS \<and> t \<in> set ts"
  by (cases "dget REGISTRY_TRANSITIONS s") (auto simp: registry_allowed_def dest: dget_Some_set)

lemma registry_levels:
  assumes "t \<in> set (registry_allowed s)"
  shows "registry_level t \<le> Suc (registry_level s)"
    and "registry_level t = Suc (registry_level s) \<Longrightarrow> t = registry_stages ! registry_level s"
  using registry_allowed_mem [OF assms] registry_table_levels by (fastforce simp: list_all_iff)+

section \<open>The invariant of the registry\<close>

definition agent_log :: "registry \<Rightarrow> string \<Rightarrow> registry_event list" where
  "agent_log R a = filter (\<lambda>e. ev_agent e = a) (event_log R)"

text \<open>Who submitted the agent last, as the log has it.\<close>

definition submitter :: "registry_event list \<Rightarrow> string option" where
  "submitter lg =
     (case filter (\<lambda>e. ev_to e = ''review'') lg of [] \<Rightarrow> None | es \<Rightarrow> ev_actor (last es))"

definition second_person :: "registry_event list \<Rightarrow> registry_event \<Rightarrow> bool" where
  "second_person pre e \<longleftrightarrow> (\<exists>x y. ev_actor e = Some x \<and> submitter pre = Some y \<and> x \<noteq> y)"

definition approvals_ok :: "registry_event list \<Rightarrow> bool" where
  "approvals_ok lg \<longleftrightarrow>
     (\<forall>pre e post. lg = pre @ e # post \<longrightarrow> ev_to e = ''approved'' \<longrightarrow> second_person pre e)"

definition entry_submitter :: "registry \<Rightarrow> string \<Rightarrow> string option" where
  "entry_submitter R a = (case get_entry R a of None \<Rightarrow> None | Some e \<Rightarrow> re_submitted_by e)"

definition registry_inv :: "registry \<Rightarrow> bool" where
  "registry_inv R \<longleftrightarrow> (\<forall>a.
     run registry_move ''draft'' (map ev_to (agent_log R a)) = Inr (entry_state R a)
     \<and> entry_submitter R a = submitter (agent_log R a)
     \<and> approvals_ok (agent_log R a))"

inductive registry_step :: "registry \<Rightarrow> registry \<Rightarrow> bool" where
  card: "parse_card_fields raw = Inr f \<Longrightarrow> registry_step R (set_card_fields R a f now)"
| move: "registry_transition R q = Inr R' \<Longrightarrow> registry_step R R'"
| promoted: "follow_promotion gates R a status actor now = Inr R' \<Longrightarrow> registry_step R R'"
| retired: "follow_retirement gates R a status actor now = Inr R' \<Longrightarrow> registry_step R R'"

inductive registry_reach :: "registry \<Rightarrow> bool" where
  start: "registry_reach \<lparr> entries = [], event_log = [] \<rparr>"
| step: "registry_reach R \<Longrightarrow> registry_step R R' \<Longrightarrow> registry_reach R'"

lemma submitter_snoc:
  "submitter (lg @ [e]) = (if ev_to e = ''review'' then ev_actor e else submitter lg)"
  by (cases "filter (\<lambda>e. ev_to e = ''review'') lg") (auto simp: submitter_def)

lemma approvals_ok_snoc:
  "approvals_ok (lg @ [e]) \<longleftrightarrow> approvals_ok lg \<and> (ev_to e = ''approved'' \<longrightarrow> second_person lg e)"
proof (intro iffI conjI impI)
  assume ok: "approvals_ok (lg @ [e])"
  show "approvals_ok lg"
    using ok unfolding approvals_ok_def by (metis append_Cons append_assoc)
  show "second_person lg e" if "ev_to e = ''approved''"
    using ok that unfolding approvals_ok_def by blast
next
  assume a: "approvals_ok lg \<and> (ev_to e = ''approved'' \<longrightarrow> second_person lg e)"
  show "approvals_ok (lg @ [e])"
    unfolding approvals_ok_def
  proof (intro allI impI)
    fix pre e' post
    assume "lg @ [e] = pre @ e' # post" "ev_to e' = ''approved''"
    then show "second_person pre e'"
      using a unfolding approvals_ok_def by (cases post rule: rev_cases) auto
  qed
qed

lemma ensure_entry_facts:
  "re_state (ensure_entry R a n) = entry_state R a"
  "re_submitted_by (ensure_entry R a n) = entry_submitter R a"
  by (auto simp: ensure_entry_def entry_state_def entry_submitter_def new_entry_def split: option.splits)

lemma apply_transition_facts:
  "agent_log (apply_transition R q nt) a = agent_log R a @
     (if a = tq_agent q then [\<lparr> ev_agent = tq_agent q, ev_from = entry_state R a,
        ev_to = tq_to q, ev_actor = tq_actor q, ev_note = nt, ev_at = tq_now q \<rparr>] else [])"
  "entry_state (apply_transition R q nt) a = (if a = tq_agent q then tq_to q else entry_state R a)"
  "entry_submitter (apply_transition R q nt) a =
     (if a = tq_agent q \<and> tq_to q = ''review'' then tq_actor q else entry_submitter R a)"
  by (auto simp: agent_log_def apply_transition_def Let_def ensure_entry_facts entry_state_def
      entry_submitter_def get_entry_def ensure_entry_def new_entry_def split: option.splits)

lemma registry_transition_Inr:
  assumes "registry_transition R q = Inr R'"
  shows "\<exists>nt. R' = apply_transition R q nt"
    and "registry_move (entry_state R (tq_agent q)) (tq_to q) = Inr (tq_to q)"
    and "tq_to q = ''approved'' \<Longrightarrow>
      \<exists>x y. tq_actor q = Some x \<and> entry_submitter R (tq_agent q) = Some y \<and> x \<noteq> y"
    and "tq_to q = ''published'' \<Longrightarrow> tq_status q = ''active''"
  using assms unfolding registry_transition_def Let_def ensure_entry_facts
  by (auto simp: rg.move_iff split: if_splits)

lemma registry_inv_transition:
  assumes inv: "registry_inv R" and tr: "registry_transition R q = Inr R'"
  shows "registry_inv R'"
proof -
  obtain nt where R': "R' = apply_transition R q nt" using registry_transition_Inr(1) [OF tr] by blast
  show ?thesis
    unfolding registry_inv_def
  proof (intro allI)
    fix a
    let ?P = "\<lambda>R. run registry_move ''draft'' (map ev_to (agent_log R a)) = Inr (entry_state R a)
      \<and> entry_submitter R a = submitter (agent_log R a) \<and> approvals_ok (agent_log R a)"
    have "?P R" using inv unfolding registry_inv_def by blast
    then show "?P R'"
      using registry_transition_Inr(2,3) [OF tr]
      by (auto simp: R' apply_transition_facts run_append submitter_snoc approvals_ok_snoc second_person_def)
  qed
qed

lemma registry_inv_card: "registry_inv R \<Longrightarrow> registry_inv (set_card_fields R a f now)"
proof -
  have "agent_log (set_card_fields R a f now) b = agent_log R b
    \<and> entry_state (set_card_fields R a f now) b = entry_state R b
    \<and> entry_submitter (set_card_fields R a f now) b = entry_submitter R b" for b
    by (auto simp: set_card_fields_def Let_def agent_log_def entry_state_def entry_submitter_def
        get_entry_def ensure_entry_def new_entry_def split: option.splits)
  then show "registry_inv R \<Longrightarrow> registry_inv (set_card_fields R a f now)"
    unfolding registry_inv_def by metis
qed

lemma registry_inv_step: "registry_step R R' \<Longrightarrow> registry_inv R \<Longrightarrow> registry_inv R'"
proof (induction rule: registry_step.induct)
  case (promoted gates R a status actor now R')
  then show ?case
    by (auto simp: follow_promotion_def split: if_splits intro: registry_inv_transition)
next
  case (retired gates R a status actor now R')
  then show ?case
    by (auto simp: follow_retirement_def split: if_splits intro: registry_inv_transition)
qed (auto intro: registry_inv_card registry_inv_transition)

lemma registry_reach_inv: "registry_reach R \<Longrightarrow> registry_inv R"
proof (induction rule: registry_reach.induct)
  case start
  show ?case
    by (simp add: registry_inv_def agent_log_def entry_state_def entry_submitter_def get_entry_def
        submitter_def approvals_ok_def)
qed (rule registry_inv_step)

text \<open>Without a fresh approval an agent that went back to draft or review stays there.\<close>

lemma unapproved_stays:
  assumes "run registry_move s ts = Inr u" "s \<in> {''draft'', ''review''}" "''approved'' \<notin> set ts"
  shows "u \<in> {''draft'', ''review''}"
  using assms
proof (induction ts arbitrary: s)
  case (Cons t ts)
  then have "t \<in> set (registry_allowed s)" "run registry_move t ts = Inr u" by (auto simp: rg.move_iff)
  moreover from this Cons.prems have "t \<in> {''draft'', ''review''}"
    by (auto simp: registry_allowed_def REGISTRY_TRANSITIONS_def split: if_splits)
  ultimately show ?case using Cons by auto
qed auto

lemma approved_successors:
  "set (registry_allowed ''approved'') = {''draft'', ''review'', ''published''}"
  by (auto simp: registry_allowed_def REGISTRY_TRANSITIONS_def)

lemma published_successors: "set (registry_allowed ''published'') = {''deprecated''}"
  by (simp add: registry_allowed_def REGISTRY_TRANSITIONS_def)

lemma withdrawn_closed:
  "s \<in> {''deprecated'', ''retired''} \<Longrightarrow> set (registry_allowed s) \<subseteq> {''deprecated'', ''retired''}"
  by (elim insertE) (simp_all add: registry_allowed_def REGISTRY_TRANSITIONS_def)

lemma approval_in_force:
  assumes "run registry_move ''approved'' ts = Inr u" "''approved'' \<notin> set ts" "u \<in> {''approved'', ''published''}"
  shows "set ts \<inter> {''draft'', ''review''} = {}"
proof (cases ts)
  case (Cons t us)
  have t: "t \<in> {''draft'', ''review'', ''published''}" "run registry_move t us = Inr u"
    using assms(1) Cons approved_successors by (auto simp: rg.move_iff)
  have "t \<notin> {''draft'', ''review''}"
    using unapproved_stays [OF t(2)] assms(2,3) Cons by auto
  with t have p: "t = ''published''" by auto
  have "us = []"
  proof (rule ccontr)
    assume "us \<noteq> []"
    then obtain v vs where us: "us = v # vs" by (cases us) auto
    with t(2) p have v: "v \<in> set (registry_allowed ''published'')" "run registry_move v vs = Inr u"
      by (auto simp: rg.move_iff)
    have "v \<in> {''deprecated'', ''retired''}" using v(1) published_successors by simp
    from rg.run_closed [OF withdrawn_closed this v(2)] have "u \<in> {''deprecated'', ''retired''}" .
    then show False using assms(3) by auto
  qed
  with p Cons show ?thesis by auto
qed simp

lemma follow_transition:
  assumes "entry_state R a = s"
  shows "s = ''approved'' \<Longrightarrow> registry_transition R (follow_request a ''active'' ''published'' actor ''Promoted to active'' now)
      = Inr (apply_transition R (follow_request a ''active'' ''published'' actor ''Promoted to active'' now)
               (Some ''Promoted to active''))"
    and "s = ''published'' \<Longrightarrow> registry_transition R (follow_request a status ''deprecated'' actor ''Agent retired'' now)
      = Inr (apply_transition R (follow_request a status ''deprecated'' actor ''Agent retired'' now)
               (Some ''Agent retired''))"
    and "s = ''deprecated'' \<Longrightarrow> registry_transition R (follow_request a status ''retired'' actor ''Agent retired'' now)
      = Inr (apply_transition R (follow_request a status ''retired'' actor ''Agent retired'' now)
               (Some ''Agent retired''))"
proof -
  have nts: "registry_text (VStr ''Promoted to active'') MAX_NOTE = Inr (Some ''Promoted to active'')"
    "registry_text (VStr ''Agent retired'') MAX_NOTE = Inr (Some ''Agent retired'')"
    by code_simp+
  have moves: "registry_move ''approved'' ''published'' = Inr ''published''"
    "registry_move ''published'' ''deprecated'' = Inr ''deprecated''"
    "registry_move ''deprecated'' ''retired'' = Inr ''retired''"
    by code_simp+
  have states: "''published'' \<in> set STATES" "''deprecated'' \<in> set STATES" "''retired'' \<in> set STATES"
    by code_simp+
  note facts = registry_transition_def Let_def ensure_entry_facts nts moves states
  show "s = ''approved'' \<Longrightarrow> registry_transition R (follow_request a ''active'' ''published'' actor ''Promoted to active'' now)
      = Inr (apply_transition R (follow_request a ''active'' ''published'' actor ''Promoted to active'' now)
               (Some ''Promoted to active''))"
    using assms by (simp add: follow_request_def facts)
  show "s = ''published'' \<Longrightarrow> registry_transition R (follow_request a status ''deprecated'' actor ''Agent retired'' now)
      = Inr (apply_transition R (follow_request a status ''deprecated'' actor ''Agent retired'' now)
               (Some ''Agent retired''))"
    using assms by (simp add: follow_request_def facts)
  show "s = ''deprecated'' \<Longrightarrow> registry_transition R (follow_request a status ''retired'' actor ''Agent retired'' now)
      = Inr (apply_transition R (follow_request a status ''retired'' actor ''Agent retired'' now)
               (Some ''Agent retired''))"
    using assms by (simp add: follow_request_def facts)
qed

section \<open>Properties\<close>

text \<open>while the gate is on, an agent is promoted only under an approval that a second person gave:
  the registry's log holds an approval by an identified user who is not the user that had last
  submitted the agent, and nothing since has sent the agent back to draft or review.\<close>
theorem promotion_needs_second_person:
  assumes "registry_reach R" "check_promotion True R a = Inr st"
  shows "\<exists>pre e post x y. agent_log R a = pre @ e # post \<and> ev_to e = ''approved''
    \<and> ev_actor e = Some x \<and> submitter pre = Some y \<and> x \<noteq> y
    \<and> (\<forall>e' \<in> set post. ev_to e' \<notin> {''draft'', ''review''})"
proof -
  let ?L = "agent_log R a"
  have st: "entry_state R a \<in> {''approved'', ''published''}"
    using assms(2) by (auto simp: check_promotion_def PROMOTABLE_STATES_def Let_def split: if_splits)
  have inv: "run registry_move ''draft'' (map ev_to ?L) = Inr (entry_state R a)" "approvals_ok ?L"
    using registry_reach_inv [OF assms(1)] unfolding registry_inv_def by auto
  have "''approved'' \<in> set (map ev_to ?L)"
    using unapproved_stays [OF inv(1)] st by (cases "''approved'' \<in> set (map ev_to ?L)") auto
  then obtain us vs where "map ev_to ?L = us @ ''approved'' # vs" "''approved'' \<notin> set vs"
    using split_list_last by fast
  then obtain pre e post where L: "?L = pre @ e # post" "ev_to e = ''approved''" "vs = map ev_to post"
      "us = map ev_to pre" by (auto simp: map_eq_append_conv map_eq_Cons_conv)
  have "run registry_move ''approved'' vs = Inr (entry_state R a)"
    using inv(1) L by (auto simp: run_append rg.move_iff)
  then have "set vs \<inter> {''draft'', ''review''} = {}"
    using approval_in_force st \<open>''approved'' \<notin> set vs\<close> by blast
  then have post: "\<forall>e' \<in> set post. ev_to e' \<notin> {''draft'', ''review''}" using L(3) by force
  have "second_person pre e" using inv(2) L unfolding approvals_ok_def by blast
  then obtain x y where "ev_actor e = Some x" "submitter pre = Some y" "x \<noteq> y"
    unfolding second_person_def by blast
  with L(1,2) post show ?thesis by metis
qed

text \<open>The registry follows the runtime and never gets stuck doing so, whoever acts: with the gate on,
  promoting an approved agent that is active publishes its entry, and retiring an agent whose
  entry is published or deprecated retires the entry, by way of deprecated when it was published.\<close>
theorem registry_follows_runtime:
  "(entry_state R a = ''approved'' \<longrightarrow>
      (\<exists>R'. follow_promotion True R a ''active'' actor now = Inr R' \<and> entry_state R' a = ''published''))
   \<and> (entry_state R a = ''published'' \<longrightarrow>
      (\<exists>R'. follow_retirement True R a status actor now = Inr R' \<and> entry_state R' a = ''retired''
         \<and> map ev_to (agent_log R' a) = map ev_to (agent_log R a) @ [''deprecated'', ''retired'']))
   \<and> (entry_state R a = ''deprecated'' \<longrightarrow>
      (\<exists>R'. follow_retirement True R a status actor now = Inr R' \<and> entry_state R' a = ''retired''
         \<and> map ev_to (agent_log R' a) = map ev_to (agent_log R a) @ [''retired'']))"
proof (intro conjI impI)
  assume s: "entry_state R a = ''approved''"
  then have "follow_promotion True R a ''active'' actor now
      = Inr (apply_transition R (follow_request a ''active'' ''published'' actor ''Promoted to active'' now)
               (Some ''Promoted to active''))"
    by (simp add: follow_promotion_def follow_transition [OF s])
  then show "\<exists>R'. follow_promotion True R a ''active'' actor now = Inr R' \<and> entry_state R' a = ''published''"
    by (simp add: apply_transition_facts follow_request_def)
next
  assume s: "entry_state R a = ''published''"
  let ?q = "follow_request a status ''deprecated'' actor ''Agent retired'' now"
  let ?R = "apply_transition R ?q (Some ''Agent retired'')"
  have s': "entry_state ?R a = ''deprecated''" by (simp add: apply_transition_facts follow_request_def)
  show "\<exists>R'. follow_retirement True R a status actor now = Inr R' \<and> entry_state R' a = ''retired''
      \<and> map ev_to (agent_log R' a) = map ev_to (agent_log R a) @ [''deprecated'', ''retired'']"
    using s by (simp add: follow_retirement_def follow_transition [OF s] follow_transition [OF s'])
      (simp add: apply_transition_facts follow_request_def)
next
  assume s: "entry_state R a = ''deprecated''"
  show "\<exists>R'. follow_retirement True R a status actor now = Inr R' \<and> entry_state R' a = ''retired''
      \<and> map ev_to (agent_log R' a) = map ev_to (agent_log R a) @ [''retired'']"
    using s by (simp add: follow_retirement_def follow_transition [OF s])
      (simp add: apply_transition_facts follow_request_def)
qed

section \<open>Witnesses\<close>

definition sample_requests :: "transition_request list" where
  "sample_requests =
     [\<lparr> tq_agent = ''a1'', tq_status = ''shadow'', tq_to = ''review'', tq_actor = Some ''ann'',
        tq_note = VNone, tq_require_actor = True, tq_now = 1 \<rparr>,
      \<lparr> tq_agent = ''a1'', tq_status = ''shadow'', tq_to = ''approved'', tq_actor = Some ''bob'',
        tq_note = VStr ''ok'', tq_require_actor = True, tq_now = 2 \<rparr>]"

definition sample_registry :: registry where
  "sample_registry =
     (case run registry_transition \<lparr> entries = [], event_log = [] \<rparr> sample_requests of
        Inr R \<Rightarrow> R | Inl e \<Rightarrow> \<lparr> entries = [], event_log = [] \<rparr>)"

lemma run_registry_reach: "registry_reach R \<Longrightarrow> run registry_transition R qs = Inr R' \<Longrightarrow> registry_reach R'"
  by (induction qs arbitrary: R) (auto dest: registry_reach.step [OF _ registry_step.move])

lemma sample_registry_facts:
  "check_promotion True sample_registry ''a1'' = Inr (Some ''approved'')"
  "run registry_transition \<lparr> entries = [], event_log = [] \<rparr> sample_requests = Inr sample_registry"
  "entry_state sample_registry ''a1'' = ''approved''"
  by code_simp+

theorem promotion_needs_second_person_witness:
  "\<exists>pre e post x y. agent_log sample_registry ''a1'' = pre @ e # post \<and> ev_to e = ''approved''
    \<and> ev_actor e = Some x \<and> submitter pre = Some y \<and> x \<noteq> y
    \<and> (\<forall>e' \<in> set post. ev_to e' \<notin> {''draft'', ''review''})"
  by (rule promotion_needs_second_person
      [OF run_registry_reach [OF registry_reach.start sample_registry_facts(2)] sample_registry_facts(1)])

theorem registry_follows_runtime_witness:
  "\<exists>R'. follow_promotion True sample_registry ''a1'' ''active'' None 3 = Inr R' \<and> entry_state R' ''a1'' = ''published''"
  using registry_follows_runtime [of sample_registry "''a1''" None 3] sample_registry_facts(3) by blast

end
