(* ===== verification/Case_Types.thy ===== *)
theory Case_Types
  imports Lifecycle
begin

text \<open>
  The governed case: its states (\<open>core/cases/states.py\<close>), the rows the case functions keep
  (\<open>core/models/governed_case.py\<close>, \<open>core/models/case_push.py\<close>) and the database they are kept
  in. Times are microseconds since the epoch. What the case code calls outside itself is
  gathered in one record of parameters, \<open>case_env\<close>: JSON schema validation, UUIDv5, ISO
  formatting, SHA-256 of a JSON document, the encryption of excerpts and the decision verifier.
\<close>

section \<open>States\<close>

datatype case_state = SUBMITTED | IN_PROGRESS | AWAITING_DECISION | DECIDED | WITHDRAWN | CASE_FAILED

fun case_value :: "case_state \<Rightarrow> string" where
  "case_value SUBMITTED = ''submitted''"
| "case_value IN_PROGRESS = ''in_progress''"
| "case_value AWAITING_DECISION = ''awaiting_decision''"
| "case_value DECIDED = ''decided''"
| "case_value WITHDRAWN = ''withdrawn''"
| "case_value CASE_FAILED = ''failed''"

definition case_states :: "case_state list" where
  "case_states = [SUBMITTED, IN_PROGRESS, AWAITING_DECISION, DECIDED, WITHDRAWN, CASE_FAILED]"

definition CaseState :: "string \<Rightarrow> case_state option" where
  "CaseState s = find (\<lambda>st. case_value st = s) case_states"

fun CASE_TRANSITIONS :: "case_state \<Rightarrow> case_state list" where
  "CASE_TRANSITIONS SUBMITTED = [IN_PROGRESS, WITHDRAWN]"
| "CASE_TRANSITIONS IN_PROGRESS = [AWAITING_DECISION, CASE_FAILED]"
| "CASE_TRANSITIONS AWAITING_DECISION = [DECIDED, WITHDRAWN, IN_PROGRESS]"
| "CASE_TRANSITIONS CASE_FAILED = [IN_PROGRESS, WITHDRAWN]"
| "CASE_TRANSITIONS DECIDED = []"
| "CASE_TRANSITIONS WITHDRAWN = []"

definition TERMINAL :: "case_state list" where
  "TERMINAL = filter (\<lambda>s. CASE_TRANSITIONS s = []) case_states"

text \<open>A refusal carries a stable reason and the HTTP status to answer with; a lookup can raise by itself.\<close>

datatype case_error = CaseError string nat | CaseRaised py_error

definition check_transition :: "string \<Rightarrow> case_state \<Rightarrow> (case_error, case_state) res" where
  "check_transition current target =
     (case CaseState current of
        None \<Rightarrow> Inl (CaseError ''case_state_unknown'' 409)
      | Some state \<Rightarrow>
          if target \<notin> set (CASE_TRANSITIONS state) then Inl (CaseError ''transition_not_allowed'' 409)
          else Inr state)"

definition case_move :: "case_state \<Rightarrow> case_state \<Rightarrow> (case_error, case_state) res" where
  "case_move s t = rbind (check_transition (case_value s) t) (\<lambda>_. Inr t)"

lemma CaseState_value [simp]: "CaseState (case_value s) = Some s"
  by (induct s) code_simp+

lemma CaseState_Some: "CaseState v = Some s \<Longrightarrow> v = case_value s"
  by (auto simp: CaseState_def find_Some_iff)

lemma case_value_inject [simp]: "case_value s = case_value t \<longleftrightarrow> s = t"
  by (metis CaseState_value option.inject)

declare case_value.simps [simp del]

interpretation cs: lifecycle CASE_TRANSITIONS case_move
  by unfold_locales (auto simp: case_move_def check_transition_def)

section \<open>Rows\<close>

record governed_case =
  gc_id :: string
  gc_tenant :: string
  gc_ref :: string
  gc_purpose :: string
  gc_state :: string
  gc_provider :: string
  gc_policy_id :: string
  gc_application :: "pv dict"
  gc_subject :: pv
  gc_memo :: pv
  gc_policy_result :: pv
  gc_ownership_graph :: pv
  gc_screening_results :: "pv list"
  gc_screening_dispositions :: "pv list"
  gc_parties :: "pv list"
  gc_agent_records :: "(pv dict) list"
  gc_excerpts :: "pv list"
  gc_decision_requests :: "pv list"
  gc_decision :: pv
  gc_failure_reason :: "string option"
  gc_version :: int
  gc_created_by :: string
  gc_created_at :: int
  gc_updated_at :: int
  gc_completed_at :: "int option"

record case_transition =
  ct_tenant :: string
  ct_case :: string
  ct_version :: int
  ct_from :: "string option"
  ct_to :: string
  ct_actor :: string
  ct_reason :: string
  ct_at :: int

record outbox_row =
  ob_id :: string
  ob_tenant :: string
  ob_case :: string
  ob_event_id :: string
  ob_event_type :: string
  ob_payload :: pv
  ob_payload_sha :: string
  ob_status :: string
  ob_attempts :: nat
  ob_next_attempt_at :: int
  ob_last_error :: "string option"
  ob_last_status :: "int option"
  ob_replay_count :: nat
  ob_updated_at :: int
  ob_delivered_at :: "int option"
  ob_dead_at :: "int option"

record case_db =
  db_cases :: "governed_case list"
  db_transitions :: "case_transition list"
  db_outbox :: "outbox_row list"
  db_endpoint_on :: "string \<Rightarrow> bool"

text \<open>What the verifier of decision grants answers: it may raise, or return something that is no check.\<close>

datatype verdict = VerifierRaised | NotACheck | DecisionCheck bool string "(string \<times> string) list"

record case_env =
  validate :: "string \<Rightarrow> pv \<Rightarrow> bool"
  uuid5 :: "string \<Rightarrow> string"
  isoformat :: "int \<Rightarrow> string"
  json_sha256 :: "pv \<Rightarrow> string"
  store_excerpts :: "pv list \<Rightarrow> pv list \<Rightarrow> int \<Rightarrow> pv list"
  verify :: "governed_case \<Rightarrow> string \<Rightarrow> string list \<Rightarrow> string option \<Rightarrow> verdict"

definition business_case_document :: "case_env \<Rightarrow> governed_case \<Rightarrow> pv dict" where
  "business_case_document env c =
     [(''schema_version'', VStr ''1.0.0''),
      (''case_id'', VStr (gc_ref c)),
      (''purpose'', VStr (gc_purpose c)),
      (''state'', VStr (gc_state c)),
      (''created_at'', VStr (isoformat env (gc_created_at c))),
      (''updated_at'', VStr (isoformat env (gc_updated_at c))),
      (''application'', VDict (gc_application c)),
      (''subject'', gc_subject c),
      (''decision'', if gc_state c = case_value DECIDED then gc_decision c else VNone)]"

end
