(* ===== verification/Case_Push.thy ===== *)
theory Case_Push
  imports Case_Types
begin

text \<open>
  The hand-off of a case to its receiver (\<open>core/cases/push.py\<close>): the outbox written with the
  change, signing and verification of a delivery, the dispatcher and the replay of dead letters.
  HMAC-SHA256 and the HTTP transport are parameters; so is the backoff delay of a failed attempt,
  which the code computes in floating point.
\<close>

section \<open>Signing\<close>

definition EVENT_ID_HEADER :: string where "EVENT_ID_HEADER = ''AgenticOrg-Event-Id''"
definition EVENT_TYPE_HEADER :: string where "EVENT_TYPE_HEADER = ''AgenticOrg-Event-Type''"
definition TIMESTAMP_HEADER :: string where "TIMESTAMP_HEADER = ''AgenticOrg-Timestamp''"
definition SIGNATURE_HEADER :: string where "SIGNATURE_HEADER = ''AgenticOrg-Signature''"
definition SIGNATURE_SCHEME :: string where "SIGNATURE_SCHEME = ''v1''"
definition DEFAULT_TOLERANCE_SECONDS :: int where "DEFAULT_TOLERANCE_SECONDS = 300"

record signing_key =
  key_id :: string
  secret :: string

type_synonym hmac = "string \<Rightarrow> string \<Rightarrow> string"

definition digest :: "hmac \<Rightarrow> string \<Rightarrow> string \<Rightarrow> int \<Rightarrow> string \<Rightarrow> string" where
  "digest hmac sec event_id timestamp body = hmac sec (event_id @ ''.'' @ str_int timestamp @ ''.'' @ body)"

definition signature_part :: "hmac \<Rightarrow> string \<Rightarrow> int \<Rightarrow> string \<Rightarrow> signing_key \<Rightarrow> string" where
  "signature_part hmac event_id timestamp body k =
     SIGNATURE_SCHEME @ ''='' @ key_id k @ '':'' @ digest hmac (secret k) event_id timestamp body"

fun join :: "string \<Rightarrow> string list \<Rightarrow> string" where
  "join sep [] = []"
| "join sep [s] = s"
| "join sep (s # t # ss) = s @ sep @ join sep (t # ss)"

definition sign ::
  "hmac \<Rightarrow> string \<Rightarrow> string \<Rightarrow> string \<Rightarrow> int \<Rightarrow> signing_key list \<Rightarrow> (py_error, string dict) res" where
  "sign hmac body event_id event_type timestamp keys =
     (if keys = [] then Inl (ValueError ''at least one signing key is required'')
      else Inr [(EVENT_ID_HEADER, event_id), (EVENT_TYPE_HEADER, event_type),
                (TIMESTAMP_HEADER, str_int timestamp),
                (SIGNATURE_HEADER, join '', '' (map (signature_part hmac event_id timestamp body) keys)),
                (''Content-Type'', ''application/json'')])"

definition header :: "string dict \<Rightarrow> string \<Rightarrow> string" where
  "header lowered name = (case dget lowered (lower name) of None \<Rightarrow> [] | Some v \<Rightarrow> v)"

text \<open>\<open>s.partition(sep)\<close> without its middle part: all of \<open>s\<close> and nothing when there is no separator.\<close>

definition partition_at :: "string \<Rightarrow> string \<Rightarrow> string \<times> string" where
  "partition_at sep s = (case split1 sep s of None \<Rightarrow> (s, []) | Some p \<Rightarrow> p)"

definition part_matches :: "hmac \<Rightarrow> string dict \<Rightarrow> string \<Rightarrow> int \<Rightarrow> string \<Rightarrow> string \<Rightarrow> bool" where
  "part_matches hmac keys event_id timestamp body part =
     (let (scheme, rest) = partition_at ''='' (strip part);
          (kid, offered) = partition_at '':'' rest
      in case dget keys kid of
           None \<Rightarrow> False
         | Some sec \<Rightarrow> scheme = SIGNATURE_SCHEME \<and> sec \<noteq> [] \<and> offered \<noteq> []
             \<and> offered = digest hmac sec event_id timestamp body)"

definition lowered_headers :: "string dict \<Rightarrow> string dict" where
  "lowered_headers headers = dict_of (map (\<lambda>(k, v). (lower k, v)) headers)"

definition verify_signature ::
  "hmac \<Rightarrow> string dict \<Rightarrow> string \<Rightarrow> string dict \<Rightarrow> int \<Rightarrow> int \<Rightarrow> string" where
  "verify_signature hmac headers body keys now tolerance =
     (let lowered = lowered_headers headers;
          event_id = header lowered EVENT_ID_HEADER;
          raw_timestamp = header lowered TIMESTAMP_HEADER;
          raw_signature = header lowered SIGNATURE_HEADER
      in if event_id = [] \<or> raw_signature = [] then ''signature_missing''
         else if raw_timestamp = [] \<or> \<not> list_all is_digit raw_timestamp \<or> length raw_timestamp > 12
         then ''timestamp_invalid''
         else let timestamp = int (digits_val raw_timestamp 0) in
           if \<bar>now - timestamp\<bar> > tolerance then ''timestamp_outside_tolerance''
           else if list_ex (part_matches hmac keys event_id timestamp body) (split_on '','' raw_signature)
           then [] else ''signature_mismatch'')"

section \<open>The payload\<close>

definition event_id_for :: "case_env \<Rightarrow> governed_case \<Rightarrow> string \<Rightarrow> string" where
  "event_id_for env c event_type =
     uuid5 env (gc_id c @ '':'' @ str_int (gc_version c) @ '':'' @ event_type)"

definition event_type_for :: "governed_case \<Rightarrow> case_state \<Rightarrow> string option" where
  "event_type_for c target =
     (if target = AWAITING_DECISION then
        (let investigations =
               length (filter (\<lambda>r. vget r ''agent'' = VStr ''business_underwriter'') (gc_agent_records c))
         in Some (if investigations \<le> 1 then ''case.completed'' else ''case.updated''))
      else if target = DECIDED then Some ''case.decided''
      else if target = WITHDRAWN \<or> target = CASE_FAILED then Some ''case.updated''
      else None)"

definition build_case_push :: "case_env \<Rightarrow> governed_case \<Rightarrow> string \<Rightarrow> string \<Rightarrow> int \<Rightarrow> pv option" where
  "build_case_push env c event_type event_id occurred_at =
     (let document = VDict
            [(''schema_version'', VStr ''1.0.0''), (''event_id'', VStr event_id),
             (''event_type'', VStr event_type), (''occurred_at'', VStr (isoformat env occurred_at)),
             (''case'', VDict (business_case_document env c)), (''memo'', gc_memo c),
             (''screening_results'', VList (gc_screening_results c)),
             (''screening_dispositions'', VList (gc_screening_dispositions c)),
             (''ownership_graph'', gc_ownership_graph c)]
      in if validate env ''case_push'' document then Some document else None)"

definition snapshot_event_type :: "governed_case \<Rightarrow> string" where
  "snapshot_event_type c =
     (if gc_state c = case_value DECIDED then ''case.decided''
      else if gc_state c = case_value AWAITING_DECISION then
        (case event_type_for c AWAITING_DECISION of Some t \<Rightarrow> t | None \<Rightarrow> ''case.updated'')
      else ''case.updated'')"

section \<open>The outbox\<close>

definition new_row :: "case_env \<Rightarrow> governed_case \<Rightarrow> string \<Rightarrow> string \<Rightarrow> int \<Rightarrow> outbox_row" where
  "new_row env c event_type row_id now =
     (let event_id = event_id_for env c event_type;
          built = build_case_push env c event_type event_id now;
          payload = (case built of
             Some doc \<Rightarrow> doc
           | None \<Rightarrow> VDict [(''event_id'', VStr event_id), (''event_type'', VStr event_type),
                             (''case_id'', VStr (gc_ref c))])
      in \<lparr> ob_id = row_id, ob_tenant = gc_tenant c, ob_case = gc_id c, ob_event_id = event_id,
           ob_event_type = event_type, ob_payload = payload,
           ob_payload_sha = ''sha256:'' @ json_sha256 env payload,
           ob_status = (if built = None then ''dead_lettered'' else ''pending''),
           ob_attempts = 0, ob_next_attempt_at = now,
           ob_last_error = (if built = None then Some ''payload_invalid'' else None),
           ob_last_status = None, ob_replay_count = 0, ob_updated_at = now, ob_delivered_at = None,
           ob_dead_at = (if built = None then Some now else None) \<rparr>)"

definition enqueue :: "case_env \<Rightarrow> case_db \<Rightarrow> governed_case \<Rightarrow> string \<Rightarrow> string \<Rightarrow> int \<Rightarrow> case_db" where
  "enqueue env db c event_type row_id now =
     (if \<not> db_endpoint_on db (gc_tenant c) then db
      else if list_ex (\<lambda>r. ob_tenant r = gc_tenant c \<and> ob_event_id r = event_id_for env c event_type) (db_outbox db)
      then db
      else db\<lparr> db_outbox := db_outbox db @ [new_row env c event_type row_id now] \<rparr>)"

definition enqueue_for_transition ::
  "case_env \<Rightarrow> case_db \<Rightarrow> governed_case \<Rightarrow> case_state \<Rightarrow> string \<Rightarrow> int \<Rightarrow> case_db" where
  "enqueue_for_transition env db c target row_id t =
     (case event_type_for c target of
        None \<Rightarrow> db
      | Some event_type \<Rightarrow> enqueue env db c event_type row_id t)"

section \<open>Delivery\<close>

record push_settings =
  max_attempts :: nat
  lease_micros :: int
  batch_size :: nat

definition RETRYABLE_STATUS :: "int list" where
  "RETRYABLE_STATUS = [408, 425, 429]"

text \<open>What came of a post: a response with its status, a timeout, or another transport error.\<close>

datatype post_result = Response int | Timeout | TransportError string

definition post_error :: "post_result \<Rightarrow> string" where
  "post_error r =
     (case r of
        Response n \<Rightarrow> if 200 \<le> n \<and> n < 300 then [] else ''http_'' @ str_int n
      | Timeout \<Rightarrow> ''timeout''
      | TransportError name \<Rightarrow> take 64 (''transport_'' @ name))"

definition post_status :: "post_result \<Rightarrow> int option" where
  "post_status r = (case r of Response n \<Rightarrow> Some n | _ \<Rightarrow> None)"

definition due :: "int \<Rightarrow> outbox_row \<Rightarrow> bool" where
  "due now r \<longleftrightarrow> ob_status r = ''pending'' \<and> ob_next_attempt_at r \<le> now"

definition lease :: "push_settings \<Rightarrow> int \<Rightarrow> outbox_row \<Rightarrow> outbox_row" where
  "lease s now r = r\<lparr> ob_attempts := ob_attempts r + 1, ob_next_attempt_at := now + lease_micros s,
     ob_updated_at := now \<rparr>"

definition retryable :: "post_result \<Rightarrow> bool" where
  "retryable p =
     (case post_status p of None \<Rightarrow> True | Some n \<Rightarrow> n \<in> set RETRYABLE_STATUS \<or> n \<ge> 500)"

text \<open>Recording the result of a leased attempt; \<open>attempts\<close> is the count the lease was taken with.\<close>

definition settle ::
  "push_settings \<Rightarrow> (nat \<Rightarrow> string \<Rightarrow> int) \<Rightarrow> int \<Rightarrow> nat \<Rightarrow> post_result \<Rightarrow> outbox_row \<Rightarrow> outbox_row" where
  "settle s delay finished attempts p r =
     (let r1 = r\<lparr> ob_last_status := post_status p, ob_updated_at := finished \<rparr>; err = post_error p in
      if err = [] then r1\<lparr> ob_status := ''delivered'', ob_delivered_at := Some finished, ob_last_error := None \<rparr>
      else if retryable p \<and> attempts < max_attempts s
      then r1\<lparr> ob_last_error := Some err, ob_next_attempt_at := finished + delay attempts (ob_event_id r) \<rparr>
      else r1\<lparr> ob_status := ''dead_lettered'', ob_dead_at := Some finished,
               ob_last_error := Some (take 64
                 ((if retryable p then ''max_attempts_exceeded'' else ''endpoint_rejected'') @ '':'' @ err)) \<rparr>)"

text \<open>
  A sweep of a tenant works in two sessions. The first takes the due rows in the order of their
  time, at most a batch, and leases them; the second writes the result of each post to the row as
  it is by then. Between the two other sessions may run: a lease that is never settled expires.
\<close>

definition lease_due :: "push_settings \<Rightarrow> case_db \<Rightarrow> string \<Rightarrow> int \<Rightarrow> case_db \<times> outbox_row list" where
  "lease_due s db tenant now =
     (if \<not> db_endpoint_on db tenant then (db, [])
      else
        let rows = take (batch_size s)
                     (sort_key ob_next_attempt_at (filter (\<lambda>r. ob_tenant r = tenant \<and> due now r) (db_outbox db)));
            ids = map ob_id rows
        in (db\<lparr> db_outbox := map (\<lambda>r. if ob_tenant r = tenant \<and> ob_id r \<in> set ids then lease s now r else r)
                               (db_outbox db) \<rparr>,
            map (lease s now) rows))"

definition settle_results ::
  "push_settings \<Rightarrow> (nat \<Rightarrow> string \<Rightarrow> int) \<Rightarrow> int \<Rightarrow> string \<Rightarrow> (outbox_row \<times> post_result) list \<Rightarrow> case_db \<Rightarrow> case_db" where
  "settle_results s delay finished tenant results db =
     foldl (\<lambda>db (l, p). db\<lparr> db_outbox :=
         map (\<lambda>r. if ob_tenant r = tenant \<and> ob_id r = ob_id l then settle s delay finished (ob_attempts l) p r else r)
             (db_outbox db) \<rparr>) db results"

definition dispatch_tenant ::
  "push_settings \<Rightarrow> (nat \<Rightarrow> string \<Rightarrow> int) \<Rightarrow> (outbox_row \<Rightarrow> post_result) \<Rightarrow> case_db \<Rightarrow> string \<Rightarrow> int \<Rightarrow> int \<Rightarrow> case_db" where
  "dispatch_tenant s delay post db tenant now finished =
     (let (db1, leased) = lease_due s db tenant now
      in settle_results s delay finished tenant (map (\<lambda>l. (l, post l)) leased) db1)"

definition replay_dead_letter ::
  "case_env \<Rightarrow> case_db \<Rightarrow> string \<Rightarrow> string \<Rightarrow> int \<Rightarrow> (case_error, case_db) res" where
  "replay_dead_letter env db tenant outbox_id now =
     (case find (\<lambda>r. ob_tenant r = tenant \<and> ob_id r = outbox_id) (db_outbox db) of
        None \<Rightarrow> Inl (CaseError ''dead_letter_not_found'' 404)
      | Some row \<Rightarrow>
          if ob_status row \<noteq> ''dead_lettered'' then Inl (CaseError ''dead_letter_not_replayable'' 409)
          else
            rbind (if ob_last_error row = Some ''payload_invalid'' then
                     (case find (\<lambda>c. gc_tenant c = tenant \<and> gc_id c = ob_case row) (db_cases db) of
                        None \<Rightarrow> Inl (CaseRaised (ValueError ''no row''))
                      | Some c \<Rightarrow>
                          (case build_case_push env c (ob_event_type row) (ob_event_id row) now of
                             None \<Rightarrow> Inl (CaseError ''payload_invalid'' 422)
                           | Some doc \<Rightarrow> Inr (row\<lparr> ob_payload := doc,
                                                ob_payload_sha := ''sha256:'' @ json_sha256 env doc \<rparr>)))
                   else Inr row) (\<lambda>row1.
              let row2 = row1\<lparr> ob_status := ''pending'', ob_attempts := 0, ob_next_attempt_at := now,
                               ob_last_error := None, ob_last_status := None, ob_dead_at := None,
                               ob_replay_count := ob_replay_count row1 + 1, ob_updated_at := now \<rparr>
              in Inr (db\<lparr> db_outbox := map (\<lambda>r. if ob_tenant r = tenant \<and> ob_id r = outbox_id then row2 else r)
                                         (db_outbox db) \<rparr>)))"

section \<open>Parsing what was signed\<close>

definition is_hex :: "char \<Rightarrow> bool" where
  "is_hex c \<longleftrightarrow> is_digit c \<or> 97 \<le> code c \<and> code c \<le> 102"

text \<open>What is relied on of HMAC-SHA256: its hex digest is 64 hexadecimal digits.\<close>

definition hex_digest :: "hmac \<Rightarrow> bool" where
  "hex_digest hmac \<longleftrightarrow> (\<forall>s m. length (hmac s m) = 64 \<and> list_all is_hex (hmac s m))"

definition plain_key :: "signing_key \<Rightarrow> bool" where
  "plain_key k \<longleftrightarrow> list_all ident_char (key_id k)"

lemma split_join:
  assumes "list_all (\<lambda>p. CHR '','' \<notin> set p) (p # ps)"
  shows "split_on '','' (join '', '' (p # ps)) = p # map (\<lambda>q. CHR '' '' # q) ps"
  using assms
proof (induction ps arbitrary: p)
  case Nil
  then show ?case by (simp add: split_on_none)
next
  case (Cons q ps)
  have aux: "split_on '','' (CHR '' '' # s) = (CHR '' '' # hd (split_on '','' s)) # tl (split_on '','' s)" for s
    by (subst (1 2 3) split_on.simps) (auto split: option.splits)
  show ?case using Cons by (simp add: split_on_char aux)
qed

definition clean_text :: "string \<Rightarrow> bool" where
  "clean_text s \<longleftrightarrow> list_all (\<lambda>c. c \<notin> set '',:= '' \<and> \<not> is_space c) s"

lemma ident_char_clean: "ident_char c \<Longrightarrow> c \<notin> set '',:= '' \<and> \<not> is_space c"
  by (auto simp: ident_char_def is_lower_ascii_def is_digit_def is_space_def code_def Let_def)

lemma is_hex_clean: "is_hex c \<Longrightarrow> c \<notin> set '',:= '' \<and> \<not> is_space c"
  by (auto simp: is_hex_def is_digit_def is_space_def code_def Let_def)

lemma plain_key_clean: "plain_key k \<Longrightarrow> clean_text (key_id k)"
  unfolding plain_key_def clean_text_def list_all_iff using ident_char_clean by blast

lemma digest_clean:
  assumes "hex_digest hmac"
  shows "clean_text (digest hmac s e t b)" "digest hmac s e t b \<noteq> []"
proof -
  have len: "length (digest hmac s e t b) = 64" and hex: "list_all is_hex (digest hmac s e t b)"
    using assms unfolding hex_digest_def digest_def by blast+
  show "clean_text (digest hmac s e t b)"
    using hex is_hex_clean unfolding clean_text_def list_all_iff by blast
  show "digest hmac s e t b \<noteq> []"
    using len by (metis list.size(3) zero_neq_numeral)
qed

lemma clean_mem: "clean_text s \<Longrightarrow> c \<in> set '',:= '' \<Longrightarrow> c \<notin> set s"
  unfolding clean_text_def list_all_iff by blast

lemma clean_last: "clean_text s \<Longrightarrow> s \<noteq> [] \<Longrightarrow> \<not> is_space (last s)"
  unfolding clean_text_def list_all_iff by simp

lemma scheme_facts: "\<not> is_space CHR ''v''" "is_space CHR '' ''"
  by code_simp+

lemma signature_part_comma:
  assumes "hex_digest hmac" "plain_key k"
  shows "CHR '','' \<notin> set (signature_part hmac e t body k)"
  using clean_mem [OF plain_key_clean [OF assms(2)]] clean_mem [OF digest_clean(1) [OF assms(1)]]
  by (simp add: signature_part_def SIGNATURE_SCHEME_def)

lemma signature_part_strip:
  assumes "hex_digest hmac"
  shows "strip (signature_part hmac e t body k) = signature_part hmac e t body k"
  using clean_last [OF digest_clean [OF assms]] digest_clean(2) [OF assms] scheme_facts
  by (intro strip_id) (simp add: signature_part_def SIGNATURE_SCHEME_def)

lemma signature_part_matches:
  assumes hex: "hex_digest hmac" and plain: "plain_key k"
    and "dget K (key_id k) = Some (secret k)" "secret k \<noteq> []"
  shows "part_matches hmac K e t body (signature_part hmac e t body k)"
proof -
  let ?d = "digest hmac (secret k) e t body"
  have "partition_at ''='' (signature_part hmac e t body k) = (SIGNATURE_SCHEME, key_id k @ '':'' @ ?d)"
    using split1_char [of "CHR ''=''" SIGNATURE_SCHEME "key_id k @ '':'' @ ?d"]
    by (simp add: partition_at_def signature_part_def SIGNATURE_SCHEME_def)
  moreover have "partition_at '':'' (key_id k @ '':'' @ ?d) = (key_id k, ?d)"
    using split1_char [of "CHR '':''" "key_id k" ?d] clean_mem [OF plain_key_clean [OF plain], of "CHR '':''"]
    by (simp add: partition_at_def)
  ultimately show ?thesis
    using assms digest_clean(2) [OF hex]
    by (simp add: part_matches_def signature_part_strip)
qed

lemma part_matches_space: "part_matches hmac K e t body (CHR '' '' # p) = part_matches hmac K e t body p"
  by (simp add: part_matches_def strip_space scheme_facts)

lemma header_names:
  "lower EVENT_ID_HEADER = ''agenticorg-event-id''" "lower EVENT_TYPE_HEADER = ''agenticorg-event-type''"
  "lower TIMESTAMP_HEADER = ''agenticorg-timestamp''" "lower SIGNATURE_HEADER = ''agenticorg-signature''"
  "lower ''Content-Type'' = ''content-type''"
  by code_simp+

lemma signed_headers:
  assumes "sign hmac body e ty t keys = Inr hs"
  defines "low \<equiv> lowered_headers hs"
  shows "header low EVENT_ID_HEADER = e" "header low TIMESTAMP_HEADER = str_int t"
    "header low SIGNATURE_HEADER = join '', '' (map (signature_part hmac e t body) keys)" "keys \<noteq> []"
proof -
  have hs: "keys \<noteq> []" "hs = [(EVENT_ID_HEADER, e), (EVENT_TYPE_HEADER, ty), (TIMESTAMP_HEADER, str_int t),
      (SIGNATURE_HEADER, join '', '' (map (signature_part hmac e t body) keys)),
      (''Content-Type'', ''application/json'')]"
    using assms(1) by (auto simp: sign_def split: if_splits)
  have "distinct (map fst (map (\<lambda>(k, v). (lower k, v)) hs))"
    by (simp add: hs(2) header_names)
  then have low: "low = map (\<lambda>(k, v). (lower k, v)) hs"
    unfolding low_def lowered_headers_def by (rule dict_of_distinct)
  show "header low EVENT_ID_HEADER = e" "header low TIMESTAMP_HEADER = str_int t"
    "header low SIGNATURE_HEADER = join '', '' (map (signature_part hmac e t body) keys)" "keys \<noteq> []"
    using hs(1) unfolding low hs(2) header_def by (simp_all add: header_names)
qed

lemma part_matchesD:
  "part_matches hmac K e t body part \<Longrightarrow>
     \<exists>kid sec. dget K kid = Some sec \<and> sec \<noteq> []
       \<and> snd (partition_at '':'' (snd (partition_at ''='' (strip part)))) = digest hmac sec e t body"
  by (auto simp: part_matches_def Let_def split: prod.splits option.splits)

section \<open>Properties of signatures\<close>

text \<open>what is signed verifies: a receiver that knows one of the signing keys, under its id, accepts
  the headers \<open>sign\<close> makes, whatever else the signature holds, while its clock is within the
  tolerance of the timestamp.\<close>
theorem push_signature_roundtrip:
  assumes "hex_digest hmac" "sign hmac body event_id event_type ts keys = Inr headers"
    and "list_all plain_key keys" "k \<in> set keys" "dget known (key_id k) = Some (secret k)" "secret k \<noteq> []"
    and "event_id \<noteq> []" "0 \<le> ts" "ts < 10 ^ 12" "\<bar>now - ts\<bar> \<le> tolerance"
  shows "verify_signature hmac headers body known now tolerance = []"
proof -
  let ?part = "signature_part hmac event_id ts body"
  note h = signed_headers [OF assms(2)]
  obtain k0 ks where keys: "keys = k0 # ks" using h(4) by (cases keys) auto
  have sp: "split_on '','' (join '', '' (map ?part keys)) = ?part k0 # map (\<lambda>k. CHR '' '' # ?part k) ks"
  proof -
    have "list_all (\<lambda>p. CHR '','' \<notin> set p) (?part k0 # map ?part ks)"
      using assms(1,3) keys by (simp add: list_all_iff signature_part_comma)
    from split_join [OF this] show ?thesis by (simp add: keys comp_def)
  qed
  have "part_matches hmac known event_id ts body (?part k)"
    using assms(1,3-6) by (intro signature_part_matches) (auto simp: list_all_iff)
  then have ex: "list_ex (part_matches hmac known event_id ts body) (split_on '','' (join '', '' (map ?part keys)))"
    using assms(4) keys unfolding sp by (auto simp: list_ex_iff part_matches_space)
  have ts: "str_int ts = str_nat (nat ts)" using assms(8) by (simp add: str_int_def)
  have "nat ts < 10 ^ 12" using assms(8,9) by simp
  then have len: "length (str_nat (nat ts)) \<le> 12" by (rule str_nat_length) simp
  have "join '', '' (map ?part keys) \<noteq> []"
    by (cases ks) (simp_all add: keys signature_part_def SIGNATURE_SCHEME_def)
  then show ?thesis
    using assms(7,8,10) ex len str_nat_digits [of "nat ts"]
    by (simp add: verify_signature_def Let_def h ts str_nat_val)
qed

text \<open>C40: a delivery is accepted only when its timestamp is within the tolerance and one of the offered
  signatures is the HMAC, under a known non-empty secret, of exactly this event id, timestamp and
  body.\<close>
theorem push_signature_sound:
  assumes "verify_signature hmac headers body known now tolerance = []"
  shows "\<exists>kid sec part. dget known kid = Some sec \<and> sec \<noteq> []
    \<and> \<bar>now - int (digits_val (header (lowered_headers headers) TIMESTAMP_HEADER) 0)\<bar> \<le> tolerance
    \<and> part \<in> set (split_on '','' (header (lowered_headers headers) SIGNATURE_HEADER))
    \<and> snd (partition_at '':'' (snd (partition_at ''='' (strip part))))
      = digest hmac sec (header (lowered_headers headers) EVENT_ID_HEADER)
          (int (digits_val (header (lowered_headers headers) TIMESTAMP_HEADER) 0)) body"
proof -
  let ?h = "header (lowered_headers headers)"
  let ?ts = "int (digits_val (?h TIMESTAMP_HEADER) 0)"
  have within: "\<bar>now - ?ts\<bar> \<le> tolerance"
    and "list_ex (part_matches hmac known (?h EVENT_ID_HEADER) ?ts body) (split_on '','' (?h SIGNATURE_HEADER))"
    using assms unfolding verify_signature_def Let_def by (simp_all split: if_splits)
  then obtain part where part: "part \<in> set (split_on '','' (?h SIGNATURE_HEADER))"
      and matches: "part_matches hmac known (?h EVENT_ID_HEADER) ?ts body part"
    by (auto simp: list_ex_iff)
  show ?thesis using within part part_matchesD [OF matches] by blast
qed

section \<open>Properties of delivery\<close>

text \<open>A complete attempt on a row: the lease, the post and the record of its result.\<close>

definition attempt ::
  "push_settings \<Rightarrow> (nat \<Rightarrow> string \<Rightarrow> int) \<Rightarrow> int \<Rightarrow> int \<Rightarrow> post_result \<Rightarrow> outbox_row \<Rightarrow> outbox_row" where
  "attempt s delay now finished p r = settle s delay finished (ob_attempts (lease s now r)) p (lease s now r)"

lemma attempt_cases:
  assumes "ob_status r = ''pending''"
  shows "post_error p = [] \<and> ob_status (attempt s delay now fin p r) = ''delivered''
       \<or> post_error p \<noteq> [] \<and> ob_status (attempt s delay now fin p r) = ''dead_lettered''
         \<and> (\<not> retryable p \<or> max_attempts s \<le> Suc (ob_attempts r))
       \<or> post_error p \<noteq> [] \<and> retryable p \<and> ob_status (attempt s delay now fin p r) = ''pending''
         \<and> ob_attempts (attempt s delay now fin p r) = Suc (ob_attempts r)
         \<and> Suc (ob_attempts r) < max_attempts s"
  using assms by (auto simp: attempt_def settle_def lease_def Let_def)

lemma attempt_keeps:
  "ob_id (attempt s delay now fin p r) = ob_id r" "ob_tenant (attempt s delay now fin p r) = ob_tenant r"
  "ob_event_id (attempt s delay now fin p r) = ob_event_id r" "ob_payload (attempt s delay now fin p r) = ob_payload r"
  by (auto simp: attempt_def settle_def lease_def Let_def)

text \<open>Attempts while the row is pending, as successive sweeps make them.\<close>

fun attempts_on ::
  "push_settings \<Rightarrow> (nat \<Rightarrow> string \<Rightarrow> int) \<Rightarrow> (int \<times> int \<times> post_result) list \<Rightarrow> outbox_row \<Rightarrow> outbox_row" where
  "attempts_on s delay [] r = r"
| "attempts_on s delay ((now, fin, p) # as) r =
     (if ob_status r = ''pending'' then attempts_on s delay as (attempt s delay now fin p r) else r)"

lemma attempts_on_done: "ob_status r \<noteq> ''pending'' \<Longrightarrow> attempts_on s delay as r = r"
  by (cases as) auto

definition outbox_keys :: "outbox_row list \<Rightarrow> (string \<times> string) list" where
  "outbox_keys rows = map (\<lambda>r. (ob_tenant r, ob_event_id r)) rows"

lemma outbox_keys_map:
  "(\<And>r. r \<in> set rows \<Longrightarrow> ob_tenant (f r) = ob_tenant r \<and> ob_event_id (f r) = ob_event_id r) \<Longrightarrow>
     outbox_keys (map f rows) = outbox_keys rows"
  by (simp add: outbox_keys_def)

lemma enqueue_distinct:
  "distinct (outbox_keys (db_outbox db)) \<Longrightarrow> distinct (outbox_keys (db_outbox (enqueue env db c ty rid now)))"
  by (auto simp: enqueue_def outbox_keys_def new_row_def Let_def list_ex_iff)

lemma enqueue_for_distinct:
  "distinct (outbox_keys (db_outbox db)) \<Longrightarrow>
     distinct (outbox_keys (db_outbox (enqueue_for_transition env db c target rid now)))"
  by (simp add: enqueue_for_transition_def enqueue_distinct split: option.splits)

lemma settle_results_keys:
  "outbox_keys (db_outbox (settle_results s delay fin tenant results db)) = outbox_keys (db_outbox db)"
  unfolding settle_results_def
proof (induction results arbitrary: db)
  case (Cons lp results)
  have "outbox_keys (map (\<lambda>r. if ob_tenant r = tenant \<and> ob_id r = ob_id l then settle s delay fin n p r else r) rows)
      = outbox_keys rows" for l n p rows
    by (rule outbox_keys_map) (auto simp: settle_def Let_def)
  with Cons show ?case by (cases lp) simp
qed simp

lemma dispatch_keys:
  "outbox_keys (db_outbox (dispatch_tenant s delay post db tenant now fin)) = outbox_keys (db_outbox db)"
proof -
  have "outbox_keys (map (\<lambda>r. if ob_tenant r = tenant \<and> ob_id r \<in> I then lease s now r else r) rows) = outbox_keys rows"
    for I rows
    by (rule outbox_keys_map) (auto simp: lease_def)
  then show ?thesis
    by (simp add: dispatch_tenant_def lease_due_def settle_results_keys Let_def split: prod.splits)
qed

text \<open>delivery settles: whatever the receiver answers, a pending row is delivered or dead-lettered
  after at most as many attempts as the settings leave it; it is dead-lettered only by a status
  that is not retried or after the last attempt.\<close>
theorem delivery_settles:
  assumes "ob_status r = ''pending''" "ob_attempts r < max_attempts s"
    and "max_attempts s - ob_attempts r \<le> length as"
  shows "ob_status (attempts_on s delay as r) \<in> {''delivered'', ''dead_lettered''}
    \<and> ob_attempts (attempts_on s delay as r) \<le> max_attempts s
    \<and> ob_event_id (attempts_on s delay as r) = ob_event_id r"
  using assms
proof (induction as arbitrary: r)
  case (Cons a as)
  obtain now fin p where a: "a = (now, fin, p)" by (cases a)
  let ?r = "attempt s delay now fin p r"
  have n: "ob_attempts ?r = Suc (ob_attempts r)"
    by (simp add: attempt_def settle_def lease_def Let_def)
  show ?case
  proof (cases "ob_status ?r = ''pending''")
    case True
    then have "Suc (ob_attempts r) < max_attempts s" using attempt_cases [OF Cons.prems(1), of p s delay now fin] by auto
    then show ?thesis using Cons True a n by (simp add: attempt_keeps)
  next
    case False
    then have "ob_status ?r \<in> {''delivered'', ''dead_lettered''}"
      using attempt_cases [OF Cons.prems(1), of p s delay now fin] by auto
    then show ?thesis using Cons.prems(1,2) a False n by (simp add: attempts_on_done attempt_keeps)
  qed
qed simp

section \<open>Witnesses\<close>

text \<open>A keyed checksum with 64 digits stands for HMAC in the witnesses.\<close>

definition sample_hmac :: hmac where
  "sample_hmac s m = replicate 63 (CHR ''a'') @ [if even (length (s @ m)) then CHR ''0'' else CHR ''b'']"

lemma sample_hmac_hex: "hex_digest sample_hmac"
proof -
  have "is_hex CHR ''a''" "is_hex CHR ''0''" "is_hex CHR ''b''" by code_simp+
  then show ?thesis by (simp add: hex_digest_def sample_hmac_def list_all_iff)
qed

definition sample_keys :: "signing_key list" where
  "sample_keys = [\<lparr> key_id = ''k_new'', secret = ''s2'' \<rparr>, \<lparr> key_id = ''k_old'', secret = ''s1'' \<rparr>]"

definition sample_headers :: "string dict" where
  "sample_headers = (case sign sample_hmac ''{}'' ''ev-1'' ''case.decided'' 17 sample_keys of
     Inr hs \<Rightarrow> hs | Inl e \<Rightarrow> [])"

theorem push_signature_roundtrip_witness:
  "verify_signature sample_hmac sample_headers ''{}'' [(''k_old'', ''s1'')] 100 300 = []"
  by (rule push_signature_roundtrip [OF sample_hmac_hex, of _ "''ev-1''" "''case.decided''" 17 sample_keys _
        "\<lparr> key_id = ''k_old'', secret = ''s1'' \<rparr>"])
    (simp_all add: sample_headers_def sample_keys_def sign_def plain_key_def ident_char_def
       is_lower_ascii_def is_digit_def code_def)

theorem push_signature_sound_witness:
  "\<exists>kid sec part. dget [(''k_old'', ''s1'')] kid = Some sec \<and> sec \<noteq> []
    \<and> \<bar>100 - int (digits_val (header (lowered_headers sample_headers) TIMESTAMP_HEADER) 0)\<bar> \<le> 300
    \<and> part \<in> set (split_on '','' (header (lowered_headers sample_headers) SIGNATURE_HEADER))
    \<and> snd (partition_at '':'' (snd (partition_at ''='' (strip part))))
      = digest sample_hmac sec (header (lowered_headers sample_headers) EVENT_ID_HEADER)
          (int (digits_val (header (lowered_headers sample_headers) TIMESTAMP_HEADER) 0)) ''{}''"
proof (rule push_signature_sound)
  show "verify_signature sample_hmac sample_headers ''{}'' [(''k_old'', ''s1'')] 100 300 = []"
    by code_simp
qed

definition sample_row :: outbox_row where
  "sample_row = \<lparr> ob_id = ''o1'', ob_tenant = ''t1'', ob_case = ''c1'', ob_event_id = ''ev-1'',
     ob_event_type = ''case.updated'', ob_payload = VDict [], ob_payload_sha = [], ob_status = ''pending'',
     ob_attempts = 0, ob_next_attempt_at = 0, ob_last_error = None, ob_last_status = None,
     ob_replay_count = 0, ob_updated_at = 0, ob_delivered_at = None, ob_dead_at = None \<rparr>"

theorem delivery_settles_witness:
  "ob_status (attempts_on \<lparr> max_attempts = 2, lease_micros = 120, batch_size = 50 \<rparr> (\<lambda>n e. 5)
      [(0, 1, Timeout), (9, 10, Response 503)] sample_row) \<in> {''delivered'', ''dead_lettered''}"
  using delivery_settles [of sample_row "\<lparr> max_attempts = 2, lease_micros = 120, batch_size = 50 \<rparr>"
      "[(0, 1, Timeout), (9, 10, Response 503)]" "\<lambda>n e. 5"]
  by (simp add: sample_row_def)

end
