(* ===== verification/Cases.thy ===== *)
theory Cases
  imports Case_Push
begin

text \<open>
  Governed cases: persistence (\<open>core/cases/store.py\<close>), the human decision
  (\<open>core/cases/decisions.py\<close>), the runtime operations around an agent run
  (\<open>core/cases/runtime.py\<close>) and withdrawal (\<open>api/v1/governed_cases.py\<close>). An operation takes the
  database and returns it changed, or the error, in which case the transaction is rolled back and
  nothing changes. An investigation is two transactions with the agent run between them, so other
  operations can come in between. Identifiers and times the code draws are arguments.
\<close>

section \<open>The store\<close>

definition CASE_REF_RE :: "string \<Rightarrow> bool" where
  "CASE_REF_RE s \<longleftrightarrow> length s = 29 \<and> take 5 s = ''case_'' \<and> list_all is_hex (drop 5 s)"

definition purpose_segment :: "string \<Rightarrow> bool" where
  "purpose_segment s \<longleftrightarrow> s \<noteq> [] \<and> is_lower_ascii (hd s) \<and> list_all ident_char (tl s)"

definition purpose_extension :: "string \<Rightarrow> bool" where
  "purpose_extension s \<longleftrightarrow> take 2 s = ''x-'' \<and>
     (case drop 2 s of [] \<Rightarrow> False
      | c # cs \<Rightarrow> (is_lower_ascii c \<or> is_digit c)
          \<and> list_all (\<lambda>c. is_lower_ascii c \<or> is_digit c \<or> c = CHR ''-'') cs)"

definition PURPOSE_RE :: "string \<Rightarrow> bool" where
  "PURPOSE_RE s =
     (case split_on ''.'' s of
        [] \<Rightarrow> False
      | p # ps \<Rightarrow> (purpose_segment p \<or> purpose_extension p) \<and> ps \<noteq> [] \<and> list_all purpose_segment ps)"

definition MAX_LIST :: int where "MAX_LIST = 200"

definition save_case :: "case_db \<Rightarrow> governed_case \<Rightarrow> case_db" where
  "save_case db c = db\<lparr> db_cases := map (\<lambda>d. if gc_id d = gc_id c then c else d) (db_cases db) \<rparr>"

definition new_case ::
  "string \<Rightarrow> string \<Rightarrow> string \<Rightarrow> pv dict \<Rightarrow> string \<Rightarrow> string \<Rightarrow> string \<Rightarrow> string \<Rightarrow> int \<Rightarrow> governed_case" where
  "new_case cid ref tenant application purpose provider policy created_by t =
     \<lparr> gc_id = cid, gc_tenant = tenant, gc_ref = ref, gc_purpose = purpose,
       gc_state = case_value SUBMITTED, gc_provider = provider, gc_policy_id = policy,
       gc_application = application, gc_subject = VNone, gc_memo = VNone, gc_policy_result = VNone,
       gc_ownership_graph = VNone, gc_screening_results = [], gc_screening_dispositions = [],
       gc_parties = [], gc_agent_records = [], gc_excerpts = [], gc_decision_requests = [],
       gc_decision = VNone, gc_failure_reason = None, gc_version = 1, gc_created_by = take 256 created_by,
       gc_created_at = t, gc_updated_at = t, gc_completed_at = None \<rparr>"

text \<open>The keys of the table are unique: a second case with the same id or reference is refused at the flush.\<close>

definition create_case ::
  "case_env \<Rightarrow> case_db \<Rightarrow> string \<Rightarrow> pv dict \<Rightarrow> string \<Rightarrow> string \<Rightarrow> string \<Rightarrow> string \<Rightarrow> int \<Rightarrow> string \<Rightarrow> string
    \<Rightarrow> (case_error, case_db \<times> governed_case) res" where
  "create_case env db tenant application purpose provider policy created_by t cid ref =
     (if \<not> re_match PURPOSE_RE purpose then Inl (CaseError ''purpose_invalid'' 422)
      else
        let c = new_case cid ref tenant application purpose provider policy created_by t in
        if \<not> validate env ''business_case'' (VDict (business_case_document env c))
        then Inl (CaseError ''application_invalid'' 422)
        else if list_ex (\<lambda>d. gc_id d = cid \<or> gc_tenant d = tenant \<and> gc_ref d = ref) (db_cases db)
        then Inl (CaseRaised (ValueError ''IntegrityError''))
        else Inr (db\<lparr> db_cases := db_cases db @ [c],
                      db_transitions := db_transitions db @
                        [\<lparr> ct_tenant = tenant, ct_case = cid, ct_version = 1, ct_from = None,
                           ct_to = case_value SUBMITTED, ct_actor = take 256 created_by,
                           ct_reason = ''case_submitted'', ct_at = t \<rparr>] \<rparr>, c))"

definition get_case :: "case_db \<Rightarrow> string \<Rightarrow> string \<Rightarrow> (case_error, governed_case) res" where
  "get_case db tenant ref =
     (if \<not> re_match CASE_REF_RE ref then Inl (CaseError ''case_not_found'' 404)
      else case find (\<lambda>c. gc_tenant c = tenant \<and> gc_ref c = ref) (db_cases db) of
             None \<Rightarrow> Inl (CaseError ''case_not_found'' 404)
           | Some c \<Rightarrow> Inr c)"

definition list_cases :: "case_db \<Rightarrow> string \<Rightarrow> string option \<Rightarrow> int \<Rightarrow> (case_error, governed_case list) res" where
  "list_cases db tenant state limit =
     rbind (case state of
              None \<Rightarrow> Inr (filter (\<lambda>c. gc_tenant c = tenant) (db_cases db))
            | Some s \<Rightarrow>
                (case CaseState s of
                   None \<Rightarrow> Inl (CaseError ''case_state_unknown'' 422)
                 | Some st \<Rightarrow> Inr (filter (\<lambda>c. gc_tenant c = tenant \<and> gc_state c = case_value st) (db_cases db))))
       (\<lambda>rows. Inr (take (nat (max 1 (min limit MAX_LIST))) (sort_key (\<lambda>c. (- gc_updated_at c, gc_ref c)) rows)))"

definition counts_by_state :: "case_db \<Rightarrow> string \<Rightarrow> int dict" where
  "counts_by_state db tenant =
     foldl (\<lambda>d c. if gc_tenant c = tenant
                  then dset d (gc_state c) ((case dget d (gc_state c) of None \<Rightarrow> 0 | Some n \<Rightarrow> n) + 1) else d)
       (map (\<lambda>s. (case_value s, 0)) case_states) (db_cases db)"

definition case_transition_to ::
  "case_env \<Rightarrow> case_db \<Rightarrow> governed_case \<Rightarrow> case_state \<Rightarrow> string \<Rightarrow> string \<Rightarrow> int option \<Rightarrow> int \<Rightarrow> string
    \<Rightarrow> (case_error, case_db \<times> governed_case) res" where
  "case_transition_to env db c target actor reason expected t row_id =
     rbind (check_transition (gc_state c) target) (\<lambda>current.
       if (case expected of None \<Rightarrow> False | Some v \<Rightarrow> gc_version c \<noteq> v)
       then Inl (CaseError ''case_version_conflict'' 409)
       else
         let c' = c\<lparr> gc_state := case_value target, gc_version := gc_version c + 1, gc_updated_at := t,
                     gc_completed_at := (if target = AWAITING_DECISION then Some t else gc_completed_at c) \<rparr>;
             db1 = (save_case db c')\<lparr> db_transitions := db_transitions db @
                 [\<lparr> ct_tenant = gc_tenant c, ct_case = gc_id c, ct_version = gc_version c',
                    ct_from = Some (case_value current), ct_to = case_value target,
                    ct_actor = take 256 actor, ct_reason = take 128 reason, ct_at = t \<rparr>] \<rparr>
         in Inr (enqueue_for_transition env db1 c' target row_id t, c'))"

definition transitions_for :: "case_db \<Rightarrow> governed_case \<Rightarrow> case_transition list" where
  "transitions_for db c =
     sort_key ct_version (filter (\<lambda>r. ct_tenant r = gc_tenant c \<and> ct_case r = gc_id c) (db_transitions db))"

definition record_update :: "case_env \<Rightarrow> case_db \<Rightarrow> governed_case \<Rightarrow> int \<Rightarrow> string \<Rightarrow> case_db \<times> governed_case" where
  "record_update env db c t row_id =
     (let c' = c\<lparr> gc_version := gc_version c + 1, gc_updated_at := t \<rparr>
      in (enqueue env (save_case db c') c' ''case.updated'' row_id t, c'))"

section \<open>The human decision\<close>

definition DECISION_OUTCOMES :: "string list" where
  "DECISION_OUTCOMES = [''approve'', ''decline'']"

text \<open>The default verifier: no grant can be verified, so every decision is refused.\<close>

definition RequireDecisionGrant :: "governed_case \<Rightarrow> string \<Rightarrow> string list \<Rightarrow> string option \<Rightarrow> verdict" where
  "RequireDecisionGrant c outcome grants request_id = DecisionCheck False ''decision_required'' []"

definition decision_document :: "case_env \<Rightarrow> string \<Rightarrow> (string \<times> string) list \<Rightarrow> int \<Rightarrow> pv" where
  "decision_document env outcome approvers t = VDict
     [(''outcome'', VStr outcome),
      (''approvers'', VList (map (\<lambda>(a, g). VDict [(''approver'', VStr a), (''decision_grant_id'', VStr g)]) approvers)),
      (''decided_at'', VStr (isoformat env t))]"

definition record_decision ::
  "case_env \<Rightarrow> case_db \<Rightarrow> governed_case \<Rightarrow> string \<Rightarrow> string list \<Rightarrow> string \<Rightarrow> string option \<Rightarrow> int \<Rightarrow> string
    \<Rightarrow> (case_error, case_db \<times> governed_case) res" where
  "record_decision env db c outcome grants actor request_id t row_id =
     (if outcome \<notin> set DECISION_OUTCOMES then Inl (CaseError ''decision_outcome_invalid'' 422)
      else if gc_state c \<noteq> case_value AWAITING_DECISION then Inl (CaseError ''transition_not_allowed'' 409)
      else case verify env c outcome grants (if request_id = Some [] then None else request_id) of
        VerifierRaised \<Rightarrow> Inl (CaseError ''decision_invalid'' 403)
      | NotACheck \<Rightarrow> Inl (CaseError ''decision_required'' 403)
      | DecisionCheck is_allowed reason approvers \<Rightarrow>
          if \<not> is_allowed \<or> approvers = []
          then Inl (CaseError (if reason \<noteq> [] then reason else ''decision_required'') 403)
          else
            let decision = decision_document env outcome approvers t;
                doc = dset (dset (business_case_document env c) ''state'' (VStr ''decided'')) ''decision'' decision
            in if \<not> validate env ''business_case'' (VDict doc)
               then Inl (CaseError ''decision_document_invalid'' 422)
               else case_transition_to env db (c\<lparr> gc_decision := decision \<rparr>) DECIDED actor
                      (''decision_'' @ outcome) None t row_id)"

section \<open>The runtime operations\<close>

record run_outcome =
  oc_record :: "pv dict"
  oc_memo :: "(pv dict) option"
  oc_ownership_graph :: pv
  oc_screening_results :: "pv list"
  oc_parties :: "pv list"
  oc_excerpts :: "pv list"

text \<open>\<open>v[k]\<close>, \<open>len(v)\<close> and the items of \<open>v\<close>, which raise when \<open>v\<close> has none.\<close>

definition vindex :: "pv \<Rightarrow> string \<Rightarrow> (case_error, pv) res" where
  "vindex v k =
     (case v of
        VDict d \<Rightarrow> (case dget d k of None \<Rightarrow> Inl (CaseRaised (KeyError k)) | Some w \<Rightarrow> Inr w)
      | _ \<Rightarrow> Inl (CaseRaised (TypeError ''not subscriptable'')))"

definition vitems :: "pv \<Rightarrow> (case_error, pv list) res" where
  "vitems v =
     (case v of
        VList xs \<Rightarrow> Inr xs
      | VTuple xs \<Rightarrow> Inr xs
      | VDict d \<Rightarrow> Inr (map (VStr \<circ> fst) d)
      | VStr s \<Rightarrow> Inr (map (\<lambda>c. VStr [c]) s)
      | _ \<Rightarrow> Inl (CaseRaised (TypeError ''not iterable'')))"

definition investigation_summary :: "governed_case \<Rightarrow> pv dict \<Rightarrow> run_outcome \<Rightarrow> (case_error, pv dict) res" where
  "investigation_summary c memo oc =
     rbind (vindex (VDict memo) ''recommendation'') (\<lambda>rec. rbind (vindex rec ''proposed'') (\<lambda>proposed.
     rbind (vindex (VDict memo) ''policy_result'') (\<lambda>pr. rbind (vindex pr ''tier'') (\<lambda>tier.
     rbind (map_res (\<lambda>r. rbind (vindex r ''hits'') vitems) (oc_screening_results oc)) (\<lambda>hits.
     rbind (vindex (VDict memo) ''missing_items'') (\<lambda>mi. rbind (vitems mi) (\<lambda>items.
     rbind (map_res (\<lambda>item. vindex item ''item'') items) (\<lambda>missing.
       Inr [(''case_ref'', VStr (gc_ref c)), (''state'', VStr (gc_state c)), (''recommendation'', proposed),
            (''tier'', tier), (''screening_hits'', VInt (int (length (concat hits)))),
            (''missing_items'', VList missing)]))))))))"

text \<open>The first transaction of an investigation: the case moves to in-progress; its version is remembered.\<close>

definition investigate_start ::
  "case_env \<Rightarrow> case_db \<Rightarrow> string \<Rightarrow> string \<Rightarrow> string \<Rightarrow> string \<Rightarrow> int \<Rightarrow> string
    \<Rightarrow> (case_error, case_db \<times> string \<times> int) res" where
  "investigate_start env db tenant ref actor reason t row_id =
     rbind (get_case db tenant ref) (\<lambda>c.
     rbind (case_transition_to env db c IN_PROGRESS actor reason None t row_id) (\<lambda>(db', c').
       Inr (db', gc_state c, gc_version c')))"

definition store_failure ::
  "case_env \<Rightarrow> case_db \<Rightarrow> governed_case \<Rightarrow> string \<Rightarrow> string \<Rightarrow> bool \<Rightarrow> int \<Rightarrow> string
    \<Rightarrow> (case_error, case_db \<times> pv dict) res" where
  "store_failure env db c actor failure keep t row_id =
     (let reason = take 128 (if failure \<noteq> [] then failure else ''investigation_failed'') in
      if keep \<and> truthy (gc_memo c) then
        (let kept = take 128 (''re_evaluation_failed:'' @ reason) in
         rbind (case_transition_to env db c AWAITING_DECISION actor kept None t row_id) (\<lambda>(db', c').
           Inr (db', [(''case_ref'', VStr (gc_ref c')), (''state'', VStr (gc_state c')), (''re_evaluation'', VStr kept)])))
      else
        rbind (case_transition_to env db (c\<lparr> gc_failure_reason := Some reason \<rparr>) CASE_FAILED actor reason None t row_id)
          (\<lambda>(db', c'). Inr (db', [(''case_ref'', VStr (gc_ref c')), (''state'', VStr (gc_state c')),
                                   (''failure_reason'', VStr reason)])))"

text \<open>The second: the result of the run is stored, unless the case changed in the meantime.\<close>

definition store_investigation ::
  "case_env \<Rightarrow> case_db \<Rightarrow> string \<Rightarrow> string \<Rightarrow> string \<Rightarrow> int \<Rightarrow> run_outcome option \<Rightarrow> string \<Rightarrow> bool \<Rightarrow> int \<Rightarrow> string
    \<Rightarrow> (case_error, case_db \<times> pv dict) res" where
  "store_investigation env db tenant ref actor started_version outcome failure keep t row_id =
     rbind (get_case db tenant ref) (\<lambda>c0.
       if gc_version c0 \<noteq> started_version then Inl (CaseError ''case_version_conflict'' 409)
       else
         let c = (case outcome of
                    None \<Rightarrow> c0
                  | Some oc \<Rightarrow> c0\<lparr> gc_agent_records := gc_agent_records c0 @ [oc_record oc] \<rparr>)
         in case (if failure \<noteq> [] then None else outcome) of
              Some oc \<Rightarrow>
                (case oc_memo oc of
                   None \<Rightarrow> store_failure env db c actor failure keep t row_id
                 | Some memo \<Rightarrow>
                     rbind (vindex (VDict memo) ''subject'') (\<lambda>subject.
                     rbind (vindex (VDict memo) ''policy_result'') (\<lambda>pr.
                       let c1 = c\<lparr> gc_failure_reason := None, gc_subject := subject, gc_memo := VDict memo,
                                   gc_policy_result := pr, gc_ownership_graph := oc_ownership_graph oc,
                                   gc_screening_results := oc_screening_results oc, gc_parties := oc_parties oc,
                                   gc_excerpts := store_excerpts env (gc_excerpts c) (oc_excerpts oc) t,
                                   gc_screening_dispositions := [] \<rparr>
                       in rbind (case_transition_to env db c1 AWAITING_DECISION actor ''memo_ready'' None t row_id)
                            (\<lambda>(db', c'). rbind (investigation_summary c' memo oc) (\<lambda>res. Inr (db', res))))))
            | None \<Rightarrow> store_failure env db c actor failure keep t row_id)"

text \<open>Dispositions of screening hits: the version is read with the case, and checked again before they are kept.\<close>

definition dispositions_start :: "case_db \<Rightarrow> string \<Rightarrow> string \<Rightarrow> (case_error, int) res" where
  "dispositions_start db tenant ref =
     rbind (get_case db tenant ref) (\<lambda>c.
       if gc_state c \<noteq> case_value AWAITING_DECISION then Inl (CaseError ''transition_not_allowed'' 409)
       else Inr (gc_version c))"

definition store_dispositions ::
  "case_env \<Rightarrow> case_db \<Rightarrow> string \<Rightarrow> string \<Rightarrow> int \<Rightarrow> pv list \<Rightarrow> (pv dict) list \<Rightarrow> pv list \<Rightarrow> int \<Rightarrow> string
    \<Rightarrow> (case_error, case_db) res" where
  "store_dispositions env db tenant ref version proposed records excerpts t row_id =
     rbind (get_case db tenant ref) (\<lambda>c.
       if gc_version c \<noteq> version then Inl (CaseError ''case_version_conflict'' 409)
       else Inr (fst (record_update env db
              (c\<lparr> gc_screening_dispositions := gc_screening_dispositions c @ proposed,
                  gc_agent_records := gc_agent_records c @ records,
                  gc_excerpts := store_excerpts env (gc_excerpts c) excerpts t \<rparr>) t row_id)))"

definition decide_case ::
  "case_env \<Rightarrow> case_db \<Rightarrow> string \<Rightarrow> string \<Rightarrow> string \<Rightarrow> string list \<Rightarrow> string \<Rightarrow> string option \<Rightarrow> int \<Rightarrow> string
    \<Rightarrow> (case_error, case_db) res" where
  "decide_case env db tenant ref outcome grants actor request_id t row_id =
     rbind (get_case db tenant ref) (\<lambda>c.
       rbind (record_decision env db c outcome grants actor request_id t row_id) (\<lambda>(db', c'). Inr db'))"

definition withdraw_case ::
  "case_env \<Rightarrow> case_db \<Rightarrow> string \<Rightarrow> string \<Rightarrow> string \<Rightarrow> int \<Rightarrow> string \<Rightarrow> (case_error, case_db) res" where
  "withdraw_case env db tenant ref actor t row_id =
     rbind (get_case db tenant ref) (\<lambda>c.
       rbind (case_transition_to env db c WITHDRAWN actor ''withdrawn'' None t row_id) (\<lambda>(db', c'). Inr db'))"

section \<open>Steps\<close>

inductive case_step :: "case_env \<Rightarrow> case_db \<Rightarrow> case_db \<Rightarrow> bool" for env where
  create: "create_case env db tenant application purpose provider policy by t cid ref = Inr (db', c) \<Longrightarrow>
     case_step env db db'"
| start: "investigate_start env db tenant ref actor reason t row_id = Inr (db', st, v) \<Longrightarrow> case_step env db db'"
| finish: "store_investigation env db tenant ref actor v outcome failure keep t row_id = Inr (db', res) \<Longrightarrow>
     case_step env db db'"
| dispose: "store_dispositions env db tenant ref v proposed records excerpts t row_id = Inr db' \<Longrightarrow>
     case_step env db db'"
| decide: "decide_case env db tenant ref outcome grants actor request_id t row_id = Inr db' \<Longrightarrow>
     case_step env db db'"
| withdraw: "withdraw_case env db tenant ref actor t row_id = Inr db' \<Longrightarrow> case_step env db db'"
| deliver: "dispatch_tenant s delay post db tenant now fin = db' \<Longrightarrow> case_step env db db'"

inductive case_reach :: "case_env \<Rightarrow> case_db \<Rightarrow> bool" for env where
  empty: "case_reach env \<lparr> db_cases = [], db_transitions = [], db_outbox = [], db_endpoint_on = on \<rparr>"
| step: "case_reach env db \<Longrightarrow> case_step env db db' \<Longrightarrow> case_reach env db'"

section \<open>What an operation changes\<close>

definition trail :: "case_db \<Rightarrow> string \<Rightarrow> case_transition list" where
  "trail db cid = filter (\<lambda>r. ct_case r = cid) (db_transitions db)"

text \<open>The decision on \<open>c\<close> was granted: the verifier allowed this outcome for this very case while it awaited a decision.\<close>

definition granted :: "case_env \<Rightarrow> governed_case \<Rightarrow> bool" where
  "granted env c \<longleftrightarrow> (\<exists>c0 outcome grants request_id reason approvers t.
     verify env c0 outcome grants request_id = DecisionCheck True reason approvers \<and> approvers \<noteq> []
     \<and> outcome \<in> {''approve'', ''decline''} \<and> gc_id c0 = gc_id c \<and> gc_tenant c0 = gc_tenant c
     \<and> gc_state c0 = case_value AWAITING_DECISION
     \<and> gc_decision c = decision_document env outcome approvers t)"

lemma granted_update [simp]:
  "granted env (c\<lparr> gc_state := s \<rparr>) = granted env c" "granted env (c\<lparr> gc_version := v \<rparr>) = granted env c"
  "granted env (c\<lparr> gc_updated_at := t \<rparr>) = granted env c" "granted env (c\<lparr> gc_completed_at := u \<rparr>) = granted env c"
  by (simp_all add: granted_def)

lemma granted_cong:
  "gc_id c' = gc_id c \<Longrightarrow> gc_tenant c' = gc_tenant c \<Longrightarrow> gc_decision c' = gc_decision c \<Longrightarrow>
     granted env c' = granted env c"
  by (simp add: granted_def)

definition same_case :: "governed_case \<Rightarrow> governed_case \<Rightarrow> bool" where
  "same_case c d \<longleftrightarrow> gc_id c = gc_id d \<and> gc_tenant c = gc_tenant d \<and> gc_ref c = gc_ref d"

definition moved :: "case_env \<Rightarrow> case_db \<Rightarrow> case_db \<Rightarrow> governed_case \<Rightarrow> governed_case \<Rightarrow> bool" where
  "moved env db db' c c' \<longleftrightarrow> (\<exists>s t row.
     gc_state c = case_value s \<and> gc_state c' = case_value t \<and> t \<in> set (CASE_TRANSITIONS s)
     \<and> db_transitions db' = db_transitions db @ [row] \<and> ct_case row = gc_id c \<and> ct_tenant row = gc_tenant c
     \<and> ct_version row = gc_version c' \<and> ct_from row = Some (case_value s) \<and> ct_to row = case_value t
     \<and> (t = DECIDED \<longrightarrow> granted env c'))"

definition case_change :: "case_env \<Rightarrow> case_db \<Rightarrow> case_db \<Rightarrow> governed_case \<Rightarrow> governed_case \<Rightarrow> bool" where
  "case_change env db db' c c' \<longleftrightarrow>
     c \<in> set (db_cases db) \<and> same_case c' c \<and> gc_version c' = gc_version c + 1
     \<and> db_cases db' = map (\<lambda>d. if gc_id d = gc_id c then c' else d) (db_cases db)
     \<and> (distinct (outbox_keys (db_outbox db)) \<longrightarrow> distinct (outbox_keys (db_outbox db')))
     \<and> (moved env db db' c c'
        \<or> gc_state c' = gc_state c \<and> gc_decision c' = gc_decision c \<and> db_transitions db' = db_transitions db)"

lemma get_case_Inr:
  "get_case db tenant ref = Inr c \<Longrightarrow> c \<in> set (db_cases db) \<and> gc_tenant c = tenant \<and> gc_ref c = ref"
  by (auto simp: get_case_def find_Some_iff split: if_splits option.splits)

lemma enqueue_keeps [simp]:
  "db_cases (enqueue env db c ty rid t) = db_cases db"
  "db_transitions (enqueue env db c ty rid t) = db_transitions db"
  "db_cases (enqueue_for_transition env db c target rid t) = db_cases db"
  "db_transitions (enqueue_for_transition env db c target rid t) = db_transitions db"
  by (auto simp: enqueue_def enqueue_for_transition_def split: option.splits)

lemma save_case_keeps [simp]:
  "db_transitions (save_case db c) = db_transitions db" "db_outbox (save_case db c) = db_outbox db"
  "db_cases (save_case db c) = map (\<lambda>d. if gc_id d = gc_id c then c else d) (db_cases db)"
  by (simp_all add: save_case_def)

lemma check_transition_Inr:
  "check_transition v t = Inr s \<longleftrightarrow> v = case_value s \<and> t \<in> set (CASE_TRANSITIONS s)"
  by (auto simp: check_transition_def dest: CaseState_Some split: option.splits if_splits)

lemma transition_change:
  assumes "case_transition_to env db c target actor reason ex t rid = Inr (db', c')"
    and "c0 \<in> set (db_cases db)" "same_case c c0" "gc_state c = gc_state c0" "gc_version c = gc_version c0"
    and "target = DECIDED \<Longrightarrow> granted env c"
  shows "case_change env db db' c0 c'"
proof -
  obtain s where s: "gc_state c = case_value s" "target \<in> set (CASE_TRANSITIONS s)"
    and c': "c' = c\<lparr> gc_state := case_value target, gc_version := gc_version c + 1, gc_updated_at := t,
       gc_completed_at := (if target = AWAITING_DECISION then Some t else gc_completed_at c) \<rparr>"
    and db': "db' = enqueue_for_transition env ((save_case db c')\<lparr> db_transitions := db_transitions db @
         [\<lparr> ct_tenant = gc_tenant c, ct_case = gc_id c, ct_version = gc_version c',
            ct_from = Some (case_value s), ct_to = case_value target,
            ct_actor = take 256 actor, ct_reason = take 128 reason, ct_at = t \<rparr>] \<rparr>) c' target rid t"
    using assms(1) unfolding case_transition_to_def Let_def
    by (auto simp: check_transition_Inr split: if_splits)
  have "moved env db db' c0 c'"
    unfolding moved_def
    by (rule exI [of _ s], rule exI [of _ target])
      (use s assms(3-6) in \<open>auto simp: db' c' same_case_def\<close>)
  moreover have "distinct (outbox_keys (db_outbox db)) \<longrightarrow> distinct (outbox_keys (db_outbox db'))"
    unfolding db' by (auto intro!: enqueue_for_distinct)
  moreover have "db_cases db' = map (\<lambda>d. if gc_id d = gc_id c0 then c' else d) (db_cases db)"
    using assms(3) by (simp add: db' same_case_def c')
  moreover have "same_case c' c0" "gc_version c' = gc_version c0 + 1"
    using assms(3,5) by (simp_all add: same_case_def c')
  ultimately show ?thesis using assms(2) unfolding case_change_def by blast
qed

lemma start_change:
  "investigate_start env db tenant ref actor reason t rid = Inr (db', st, v) \<Longrightarrow>
     \<exists>c c'. case_change env db db' c c'"
  unfolding investigate_start_def
  by (auto dest!: get_case_Inr transition_change simp: same_case_def)

lemma withdraw_change:
  "withdraw_case env db tenant ref actor t rid = Inr db' \<Longrightarrow> \<exists>c c'. case_change env db db' c c'"
  unfolding withdraw_case_def
  by (auto dest!: get_case_Inr transition_change simp: same_case_def)

lemma update_change:
  assumes "record_update env db c t rid = (db', c')"
    and "c0 \<in> set (db_cases db)" "same_case c c0" "gc_state c = gc_state c0" "gc_version c = gc_version c0"
      "gc_decision c = gc_decision c0"
  shows "case_change env db db' c0 c'"
  using assms by (auto simp: record_update_def Let_def case_change_def same_case_def enqueue_distinct)

lemma dispose_change:
  assumes "store_dispositions env db tenant ref v proposed records excerpts t rid = Inr db'"
  shows "\<exists>c c'. case_change env db db' c c'"
proof -
  obtain c where c: "get_case db tenant ref = Inr c"
    and db': "db' = fst (record_update env db
         (c\<lparr> gc_screening_dispositions := gc_screening_dispositions c @ proposed,
             gc_agent_records := gc_agent_records c @ records,
             gc_excerpts := store_excerpts env (gc_excerpts c) excerpts t \<rparr>) t rid)"
    using assms by (auto simp: store_dispositions_def split: if_splits)
  have "case_change env db db' c (snd (record_update env db
         (c\<lparr> gc_screening_dispositions := gc_screening_dispositions c @ proposed,
             gc_agent_records := gc_agent_records c @ records,
             gc_excerpts := store_excerpts env (gc_excerpts c) excerpts t \<rparr>) t rid))"
    unfolding db' using get_case_Inr [OF c]
    by (intro update_change [OF surjective_pairing]) (auto simp: same_case_def)
  then show ?thesis by blast
qed

lemma decide_change:
  assumes "decide_case env db tenant ref outcome grants actor request_id t rid = Inr db'"
  shows "\<exists>c c'. case_change env db db' c c'"
proof -
  obtain c c' where c: "get_case db tenant ref = Inr c"
    and d: "record_decision env db c outcome grants actor request_id t rid = Inr (db', c')"
    using assms by (auto simp: decide_case_def)
  obtain rq reason approvers where
      v: "verify env c outcome grants rq = DecisionCheck True reason approvers" "approvers \<noteq> []"
    and o: "outcome \<in> {''approve'', ''decline''}" and st: "gc_state c = case_value AWAITING_DECISION"
    and tr: "case_transition_to env db (c\<lparr> gc_decision := decision_document env outcome approvers t \<rparr>)
         DECIDED actor (''decision_'' @ outcome) None t rid = Inr (db', c')"
    using d unfolding record_decision_def Let_def
    by (auto simp: DECISION_OUTCOMES_def split: if_splits verdict.splits)
  have "granted env (c\<lparr> gc_decision := decision_document env outcome approvers t \<rparr>)"
    unfolding granted_def using v o st
    by (intro exI [of _ c] exI [of _ outcome] exI [of _ grants] exI [of _ rq] exI [of _ reason]
        exI [of _ approvers] exI [of _ t]) simp
  then have "case_change env db db' c c'"
    using get_case_Inr [OF c] by (intro transition_change [OF tr]) (auto simp: same_case_def)
  then show ?thesis by blast
qed

lemma store_failure_change:
  assumes "store_failure env db c actor failure keep t rid = Inr (db', res)"
    and "c0 \<in> set (db_cases db)" "same_case c c0" "gc_state c = gc_state c0" "gc_version c = gc_version c0"
  shows "\<exists>c'. case_change env db db' c0 c'"
  using assms(1) unfolding store_failure_def Let_def
  by (auto split: if_splits dest!: transition_change [OF _ assms(2)] simp: assms(3-5) same_case_def
      simp: assms(3) [unfolded same_case_def])

lemma finish_change:
  assumes "store_investigation env db tenant ref actor v outcome failure keep t rid = Inr (db', res)"
  shows "\<exists>c c'. case_change env db db' c c' \<and> get_case db tenant ref = Inr c \<and> gc_version c = v"
proof -
  obtain c0 where c0: "get_case db tenant ref = Inr c0" "gc_version c0 = v"
    using assms unfolding store_investigation_def by (auto split: if_splits)
  note mem = get_case_Inr [OF c0(1)]
  let ?c = "case outcome of None \<Rightarrow> c0
    | Some oc \<Rightarrow> c0\<lparr> gc_agent_records := gc_agent_records c0 @ [oc_record oc] \<rparr>"
  have same: "same_case ?c c0" "gc_state ?c = gc_state c0" "gc_version ?c = gc_version c0"
    by (auto simp: same_case_def split: option.splits)
  have "\<exists>c'. case_change env db db' c0 c'"
  proof (cases "failure \<noteq> [] \<or> outcome = None \<or> (\<exists>oc. outcome = Some oc \<and> oc_memo oc = None)")
    case True
    then have "store_failure env db ?c actor failure keep t rid = Inr (db', res)"
      using assms c0 unfolding store_investigation_def Let_def
      by (auto split: if_splits option.splits)
    from store_failure_change [OF this conjunct1 [OF mem] same] show ?thesis .
  next
    case False
    then obtain oc memo where oc: "failure = []" "outcome = Some oc" "oc_memo oc = Some memo"
      by (cases outcome) auto
    obtain subject pr c' where
        tr: "case_transition_to env db (?c\<lparr> gc_failure_reason := None, gc_subject := subject, gc_memo := VDict memo,
           gc_policy_result := pr, gc_ownership_graph := oc_ownership_graph oc,
           gc_screening_results := oc_screening_results oc, gc_parties := oc_parties oc,
           gc_excerpts := store_excerpts env (gc_excerpts ?c) (oc_excerpts oc) t,
           gc_screening_dispositions := [] \<rparr>) AWAITING_DECISION actor ''memo_ready'' None t rid = Inr (db', c')"
      using assms c0 oc unfolding store_investigation_def Let_def by auto
    have "case_change env db db' c0 c'"
      using mem same by (intro transition_change [OF tr]) (simp_all add: same_case_def)
    then show ?thesis by blast
  qed
  with c0 show ?thesis by blast
qed

section \<open>The invariant\<close>

definition history_ok :: "case_db \<Rightarrow> governed_case \<Rightarrow> bool" where
  "history_ok db c \<longleftrightarrow>
     (\<exists>ts s. gc_state c = case_value s \<and> run case_move SUBMITTED ts = Inr s
        \<and> map ct_to (trail db (gc_id c)) = map case_value (SUBMITTED # ts)
        \<and> map ct_from (trail db (gc_id c)) = None # map (Some \<circ> case_value) (butlast (SUBMITTED # ts)))
     \<and> sorted_wrt (<) (map ct_version (trail db (gc_id c)))
     \<and> (\<forall>r \<in> set (trail db (gc_id c)). ct_version r \<le> gc_version c)"

definition case_inv :: "case_env \<Rightarrow> case_db \<Rightarrow> bool" where
  "case_inv env db \<longleftrightarrow>
     distinct (map gc_id (db_cases db))
     \<and> distinct (map (\<lambda>c. (gc_tenant c, gc_ref c)) (db_cases db))
     \<and> (\<forall>c \<in> set (db_cases db). history_ok db c \<and> (gc_state c = case_value DECIDED \<longrightarrow> granted env c))
     \<and> (\<forall>r \<in> set (db_transitions db). ct_case r \<in> gc_id ` set (db_cases db))
     \<and> distinct (outbox_keys (db_outbox db))"

lemma history_moved:
  assumes "history_ok db c" "moved env db db' c c'" "gc_id c' = gc_id c" "gc_version c' = gc_version c + 1"
  shows "history_ok db' c'"
proof -
  obtain s t row where m: "gc_state c = case_value s" "gc_state c' = case_value t" "t \<in> set (CASE_TRANSITIONS s)"
      "db_transitions db' = db_transitions db @ [row]" "ct_case row = gc_id c" "ct_version row = gc_version c'"
      "ct_from row = Some (case_value s)" "ct_to row = case_value t"
    using assms(2) unfolding moved_def by blast
  obtain ts s' where h: "gc_state c = case_value s'" "run case_move SUBMITTED ts = Inr s'"
      "map ct_to (trail db (gc_id c)) = map case_value (SUBMITTED # ts)"
      "map ct_from (trail db (gc_id c)) = None # map (Some \<circ> case_value) (butlast (SUBMITTED # ts))"
    and v: "sorted_wrt (<) (map ct_version (trail db (gc_id c)))"
      "\<forall>r \<in> set (trail db (gc_id c)). ct_version r \<le> gc_version c"
    using assms(1) unfolding history_ok_def by (elim conjE exE) (rule that)
  have s': "s' = s" using h(1) m(1) by simp
  have tr: "trail db' (gc_id c') = trail db (gc_id c) @ [row]"
    using m assms(3) by (simp add: trail_def)
  have last: "s = last (SUBMITTED # ts)" using cs.run_last [OF h(2)] s' by simp
  have run': "run case_move SUBMITTED (ts @ [t]) = Inr t"
    using h(2) s' m(3) by (simp add: run_append cs.move_iff)
  have bl: "butlast (SUBMITTED # ts @ [t]) = butlast (SUBMITTED # ts) @ [s]"
    using last by (metis append_butlast_last_id append_Cons butlast_snoc list.distinct(1))
  have "\<exists>ts s. gc_state c' = case_value s \<and> run case_move SUBMITTED ts = Inr s
        \<and> map ct_to (trail db' (gc_id c')) = map case_value (SUBMITTED # ts)
        \<and> map ct_from (trail db' (gc_id c')) = None # map (Some \<circ> case_value) (butlast (SUBMITTED # ts))"
    by (rule exI [of _ "ts @ [t]"], rule exI [of _ t])
      (use m(2,7,8) run' h(3,4) bl in \<open>simp add: tr\<close>)
  moreover have "sorted_wrt (<) (map ct_version (trail db' (gc_id c')))"
    using v m(6) assms(4) by (fastforce simp: tr sorted_wrt_append)
  moreover have "\<forall>r \<in> set (trail db' (gc_id c')). ct_version r \<le> gc_version c'"
    using v(2) m(6) assms(4) by (fastforce simp: tr)
  ultimately show ?thesis unfolding history_ok_def by blast
qed

lemma trail_append_other:
  "db_transitions db' = db_transitions db @ rows \<Longrightarrow> \<forall>r \<in> set rows. ct_case r \<noteq> cid \<Longrightarrow> trail db' cid = trail db cid"
  by (auto simp: trail_def filter_empty_conv)

lemma history_cong:
  "trail db' (gc_id c) = trail db (gc_id c) \<Longrightarrow> history_ok db' c = history_ok db c"
  by (simp add: history_ok_def)

lemma map_replace:
  assumes "\<And>d. d \<in> set xs \<Longrightarrow> g d = g c \<Longrightarrow> f c' = f d"
  shows "map f (map (\<lambda>d. if g d = g c then c' else d) xs) = map f xs"
  using assms by (induction xs) auto

lemma same_id_same: "distinct (map gc_id cs) \<Longrightarrow> c \<in> set cs \<Longrightarrow> d \<in> set cs \<Longrightarrow> gc_id d = gc_id c \<Longrightarrow> d = c"
  by (metis distinct_map inj_onD)

lemma case_inv_change:
  assumes inv: "case_inv env db" and ch: "case_change env db db' c c'"
  shows "case_inv env db'"
proof -
  let ?r = "\<lambda>d. if gc_id d = gc_id c then c' else d"
  have c: "c \<in> set (db_cases db)" and same: "same_case c' c" and v: "gc_version c' = gc_version c + 1"
    and cases': "db_cases db' = map ?r (db_cases db)" and ob: "distinct (outbox_keys (db_outbox db'))"
    and how: "moved env db db' c c' \<or> gc_state c' = gc_state c \<and> gc_decision c' = gc_decision c
       \<and> db_transitions db' = db_transitions db"
    using ch inv unfolding case_change_def case_inv_def by blast+
  have ids: "distinct (map gc_id (db_cases db))" using inv unfolding case_inv_def by blast
  have one: "d = c" if "d \<in> set (db_cases db)" "gc_id d = gc_id c" for d
    using same_id_same [OF ids c] that by blast
  have id': "gc_id c' = gc_id c" using same unfolding same_case_def by blast
  have keys: "map gc_id (db_cases db') = map gc_id (db_cases db)"
    "map (\<lambda>c. (gc_tenant c, gc_ref c)) (db_cases db') = map (\<lambda>c. (gc_tenant c, gc_ref c)) (db_cases db)"
    unfolding cases' using same one by (intro map_replace; force simp: same_case_def)+
  obtain rows where rows: "db_transitions db' = db_transitions db @ rows" "\<forall>r \<in> set rows. ct_case r = gc_id c"
    using how unfolding moved_def by (metis append_Nil2 empty_iff empty_set set_ConsD)
  have hc: "history_ok db c" using inv c unfolding case_inv_def by blast
  have new: "history_ok db' c'"
    using how
  proof
    assume "moved env db db' c c'"
    then show ?thesis using history_moved [OF hc _ id' v] by blast
  next
    assume "gc_state c' = gc_state c \<and> gc_decision c' = gc_decision c \<and> db_transitions db' = db_transitions db"
    then show ?thesis using hc v by (fastforce simp: history_ok_def id' trail_def)
  qed
  have dec: "gc_state c' = case_value DECIDED \<longrightarrow> granted env c'"
    using how
  proof
    assume "moved env db db' c c'"
    then show ?thesis unfolding moved_def by auto
  next
    assume "gc_state c' = gc_state c \<and> gc_decision c' = gc_decision c \<and> db_transitions db' = db_transitions db"
    then have "granted env c' = granted env c" "gc_state c' = gc_state c"
      using granted_cong same unfolding same_case_def by blast+
    then show ?thesis using inv c unfolding case_inv_def by simp
  qed
  have all: "history_ok db' d \<and> (gc_state d = case_value DECIDED \<longrightarrow> granted env d)" if "d \<in> set (db_cases db')" for d
  proof (cases "d = c'")
    case False
    with that cases' have d: "d \<in> set (db_cases db)" "gc_id d \<noteq> gc_id c" by auto
    then have "history_ok db' d = history_ok db d"
      using trail_append_other [OF rows(1)] rows(2) by (intro history_cong) fastforce
    with d inv show ?thesis unfolding case_inv_def by blast
  qed (use new dec in simp)
  have "set (map gc_id (db_cases db')) = set (map gc_id (db_cases db))" using keys(1) by simp
  then have refs: "ct_case r \<in> gc_id ` set (db_cases db')" if "r \<in> set (db_transitions db')" for r
    using that rows inv c unfolding case_inv_def by auto
  show ?thesis
    using inv ob all refs unfolding case_inv_def keys by blast
qed

lemma case_inv_create:
  assumes inv: "case_inv env db"
    and cr: "create_case env db tenant app purpose provider pol cb t cid ref = Inr (db', c)"
  shows "case_inv env db'"
proof -
  let ?c = "new_case cid ref tenant app purpose provider pol cb t"
  let ?row = "\<lparr> ct_tenant = tenant, ct_case = cid, ct_version = 1, ct_from = None, ct_to = case_value SUBMITTED,
    ct_actor = take 256 cb, ct_reason = ''case_submitted'', ct_at = t \<rparr>"
  have fresh: "\<forall>d \<in> set (db_cases db). gc_id d \<noteq> cid \<and> \<not> (gc_tenant d = tenant \<and> gc_ref d = ref)"
    and db': "db' = db\<lparr> db_cases := db_cases db @ [?c], db_transitions := db_transitions db @ [?row] \<rparr>"
    using cr by (auto simp: create_case_def Let_def list_ex_iff split: if_splits)
  have id: "gc_id ?c = cid" "gc_tenant ?c = tenant" "gc_ref ?c = ref" "gc_state ?c = case_value SUBMITTED" "gc_version ?c = 1"
    by (simp_all add: new_case_def)
  have "trail db cid = []"
    using inv fresh unfolding case_inv_def trail_def by (fastforce simp: filter_empty_conv)
  then have "trail db' cid = [?row]" by (simp add: db' trail_def)
  then have new: "history_ok db' ?c"
    unfolding history_ok_def id by (auto intro!: exI [of _ "[]"] exI [of _ SUBMITTED])
  have old: "history_ok db' d \<and> (gc_state d = case_value DECIDED \<longrightarrow> granted env d)" if "d \<in> set (db_cases db)" for d
  proof -
    have "history_ok db' d = history_ok db d"
      using trail_append_other [of db' db "[?row]" "gc_id d"] that fresh
      by (intro history_cong) (auto simp: db')
    with that inv show ?thesis unfolding case_inv_def by blast
  qed
  have dec: "gc_state ?c = case_value DECIDED \<longrightarrow> granted env ?c"
    unfolding id(4) by simp
  have cs': "db_cases db' = db_cases db @ [?c]" and tr': "db_transitions db' = db_transitions db @ [?row]"
    and ob': "db_outbox db' = db_outbox db"
    by (simp_all add: db')
  have all: "\<forall>d \<in> set (db_cases db'). history_ok db' d \<and> (gc_state d = case_value DECIDED \<longrightarrow> granted env d)"
    using new old dec unfolding cs' by auto
  have "distinct (map gc_id (db_cases db'))" "distinct (map (\<lambda>c. (gc_tenant c, gc_ref c)) (db_cases db'))"
    using inv fresh unfolding case_inv_def cs' by (auto simp: id)
  moreover have "\<forall>r \<in> set (db_transitions db'). ct_case r \<in> gc_id ` set (db_cases db')"
    using inv unfolding case_inv_def cs' tr' by (auto simp: id)
  ultimately show ?thesis
    using inv all unfolding case_inv_def ob' by blast
qed

lemma dispatch_keeps:
  "db_cases (dispatch_tenant s delay post db tenant now fin) = db_cases db"
  "db_transitions (dispatch_tenant s delay post db tenant now fin) = db_transitions db"
proof -
  have "db_cases (settle_results s delay fin tenant results db) = db_cases db
      \<and> db_transitions (settle_results s delay fin tenant results db) = db_transitions db" for results db
    unfolding settle_results_def by (induction results arbitrary: db) auto
  then show "db_cases (dispatch_tenant s delay post db tenant now fin) = db_cases db"
    "db_transitions (dispatch_tenant s delay post db tenant now fin) = db_transitions db"
    by (auto simp: dispatch_tenant_def lease_due_def Let_def)
qed

lemma case_inv_deliver:
  "case_inv env db \<Longrightarrow> case_inv env (dispatch_tenant s delay post db tenant now fin)"
  by (simp add: case_inv_def dispatch_keeps dispatch_keys history_ok_def trail_def)

text \<open>Every step is a change of one case, the creation of one, or a delivery.\<close>

lemma case_step_cases:
  assumes "case_step env db db'"
  obtains (change) c c' where "case_change env db db' c c'"
    | (created) tenant app purpose provider pol cb t cid ref c where
        "create_case env db tenant app purpose provider pol cb t cid ref = Inr (db', c)"
    | (delivered) s delay post tenant now fin where "db' = dispatch_tenant s delay post db tenant now fin"
  using assms
proof cases
  case create
  then show thesis by (rule created)
next
  case start
  from start_change [OF this] show thesis using change by blast
next
  case finish
  from finish_change [OF this] show thesis using change by blast
next
  case dispose
  from dispose_change [OF this] show thesis using change by blast
next
  case decide
  from decide_change [OF this] show thesis using change by blast
next
  case withdraw
  from withdraw_change [OF this] show thesis using change by blast
next
  case deliver
  then show thesis using delivered by blast
qed

lemma case_reach_inv: "case_reach env db \<Longrightarrow> case_inv env db"
proof (induction rule: case_reach.induct)
  case (empty on)
  show ?case by (simp add: case_inv_def outbox_keys_def)
next
  case (step db db')
  then show ?case
    using case_step_cases case_inv_change case_inv_create case_inv_deliver by metis
qed

section \<open>Versions\<close>

lemma get_case_iff:
  assumes "case_inv env db"
  shows "get_case db tenant ref = Inr c \<longleftrightarrow>
     re_match CASE_REF_RE ref \<and> c \<in> set (db_cases db) \<and> gc_tenant c = tenant \<and> gc_ref c = ref"
proof
  assume "get_case db tenant ref = Inr c"
  then show "re_match CASE_REF_RE ref \<and> c \<in> set (db_cases db) \<and> gc_tenant c = tenant \<and> gc_ref c = ref"
    by (auto simp: get_case_def find_Some_iff split: if_splits option.splits)
next
  assume a: "re_match CASE_REF_RE ref \<and> c \<in> set (db_cases db) \<and> gc_tenant c = tenant \<and> gc_ref c = ref"
  then obtain d where d: "find (\<lambda>c. gc_tenant c = tenant \<and> gc_ref c = ref) (db_cases db) = Some d"
    by (metis (mono_tags, lifting) find_None_iff not_None_eq)
  then have "d \<in> set (db_cases db)" "gc_tenant d = tenant" "gc_ref d = ref" by (auto simp: find_Some_iff)
  moreover have "inj_on (\<lambda>c. (gc_tenant c, gc_ref c)) (set (db_cases db))"
    using assms unfolding case_inv_def by (simp add: distinct_map)
  ultimately have "d = c" using a by (simp add: inj_on_def)
  with a d show "get_case db tenant ref = Inr c" by (simp add: get_case_def)
qed

lemma version_change:
  assumes "case_change env db db' c0 c0'" "case_inv env db" "c \<in> set (db_cases db)"
  shows "\<exists>c' \<in> set (db_cases db'). same_case c' c \<and> (c' = c \<or> gc_version c < gc_version c')"
proof (cases "gc_id c = gc_id c0")
  case True
  then have "c = c0" using assms same_id_same unfolding case_change_def case_inv_def by metis
  then have "c0' \<in> set (db_cases db')" "same_case c0' c" "gc_version c < gc_version c0'"
    using assms(1,3) unfolding case_change_def by auto
  then show ?thesis by blast
next
  case False
  then show ?thesis using assms(1,3) unfolding case_change_def same_case_def by force
qed

lemma version_step:
  assumes "case_step env db db'" "case_inv env db" "c \<in> set (db_cases db)"
  shows "\<exists>c' \<in> set (db_cases db'). same_case c' c \<and> (c' = c \<or> gc_version c < gc_version c')"
  using assms(1)
proof (cases rule: case_step_cases)
  case (change c0 c0')
  then show ?thesis using version_change assms(2,3) by blast
next
  case created
  then have "set (db_cases db) \<subseteq> set (db_cases db')"
    by (auto simp: create_case_def Let_def split: if_splits)
  then show ?thesis using assms(3) by (auto simp: same_case_def)
next
  case delivered
  then show ?thesis using assms(3) by (auto simp: dispatch_keeps same_case_def)
qed

lemma case_inv_step: "case_step env db db' \<Longrightarrow> case_inv env db \<Longrightarrow> case_inv env db'"
  using case_step_cases case_inv_change case_inv_create case_inv_deliver by metis

lemma version_steps:
  assumes "(case_step env)\<^sup>*\<^sup>* db db'" "case_inv env db" "c \<in> set (db_cases db)"
  shows "case_inv env db' \<and>
    (\<exists>c' \<in> set (db_cases db'). same_case c' c \<and> (c' = c \<or> gc_version c < gc_version c'))"
  using assms(1)
proof (induction rule: rtranclp_induct)
  case base
  show ?case using assms(2,3) by (auto simp: same_case_def)
next
  case (step y z)
  then obtain c' where c': "c' \<in> set (db_cases y)" "same_case c' c" "c' = c \<or> gc_version c < gc_version c'"
    and inv: "case_inv env y" by blast
  obtain c'' where "c'' \<in> set (db_cases z)" "same_case c'' c'" "c'' = c' \<or> gc_version c' < gc_version c''"
    using version_step [OF step.hyps(2) inv c'(1)] by blast
  then show ?case using c' case_inv_step [OF step.hyps(2) inv] unfolding same_case_def by force
qed

lemma transition_keeps_endpoint:
  "db_endpoint_on (enqueue_for_transition env db c target rid t) = db_endpoint_on db"
  "db_endpoint_on (save_case db c) = db_endpoint_on db"
  by (auto simp: enqueue_for_transition_def enqueue_def save_case_def split: option.splits)

lemma enqueue_mem:
  assumes "db_endpoint_on db (gc_tenant c)"
  shows "(gc_tenant c, event_id_for env c ty) \<in> set (outbox_keys (db_outbox (enqueue env db c ty rid t)))"
  using assms by (force simp: enqueue_def outbox_keys_def list_ex_iff new_row_def Let_def)

lemma keys_once:
  "distinct (outbox_keys rows) \<Longrightarrow> (tn, ev) \<in> set (outbox_keys rows) \<Longrightarrow>
     length (filter (\<lambda>r. ob_tenant r = tn \<and> ob_event_id r = ev) rows) = 1"
proof (induction rows)
  case (Cons r rows)
  show ?case
  proof (cases "(ob_tenant r, ob_event_id r) = (tn, ev)")
    case True
    then have "filter (\<lambda>r. ob_tenant r = tn \<and> ob_event_id r = ev) rows = []"
      using Cons.prems(1) by (auto simp: outbox_keys_def filter_empty_conv image_iff)
    with True show ?thesis by simp
  qed (use Cons in \<open>auto simp: outbox_keys_def\<close>)
qed (simp add: outbox_keys_def)

section \<open>Properties\<close>

text \<open>C5: a case is decided only by a granted decision: in every reachable database, a decided case carries
  the outcome and the approvers of a check in which the configured verifier allowed that outcome
  for that very case, with at least one approver, while the case was awaiting a decision.\<close>
theorem decided_only_by_granted_decision:
  assumes "case_reach env db" "c \<in> set (db_cases db)" "gc_state c = case_value DECIDED"
  shows "\<exists>c0 outcome grants request_id reason approvers t.
     verify env c0 outcome grants request_id = DecisionCheck True reason approvers \<and> approvers \<noteq> []
     \<and> outcome \<in> {''approve'', ''decline''} \<and> gc_id c0 = gc_id c \<and> gc_tenant c0 = gc_tenant c
     \<and> gc_state c0 = case_value AWAITING_DECISION
     \<and> gc_decision c = decision_document env outcome approvers t"
  using case_reach_inv [OF assms(1)] assms(2,3) unfolding case_inv_def granted_def by blast

text \<open>With the default verifier the platform fails closed: whatever the agents and the users do, no case
  is ever decided.\<close>
theorem default_verifier_never_decides:
  assumes "case_reach env db" "verify env = RequireDecisionGrant" "c \<in> set (db_cases db)"
  shows "gc_state c \<noteq> case_value DECIDED"
proof
  assume "gc_state c = case_value DECIDED"
  then have "granted env c" using case_reach_inv [OF assms(1)] assms(3) unfolding case_inv_def by blast
  then show False unfolding granted_def assms(2) RequireDecisionGrant_def by auto
qed

text \<open>C21: the recorded transitions of a case are its history: they start with the submission, each starts in
  the state the one before it reached, they follow the transition table and end in the state the
  case is in, and their versions increase strictly up to the version of the case.\<close>
theorem case_history_is_a_path:
  assumes "case_reach env db" "c \<in> set (db_cases db)"
  shows "\<exists>ts s. gc_state c = case_value s \<and> run case_move SUBMITTED ts = Inr s
        \<and> map ct_to (trail db (gc_id c)) = map case_value (SUBMITTED # ts)
        \<and> map ct_from (trail db (gc_id c)) = None # map (Some \<circ> case_value) (butlast (SUBMITTED # ts))
        \<and> sorted_wrt (<) (map ct_version (trail db (gc_id c)))
        \<and> (\<forall>r \<in> set (trail db (gc_id c)). ct_version r \<le> gc_version c)"
proof -
  have "history_ok db c" using case_reach_inv [OF assms(1)] assms(2) unfolding case_inv_def by blast
  then show ?thesis unfolding history_ok_def by (elim conjE exE) (intro exI conjI)
qed

text \<open>C11: no update is lost: when anything changed a case between the start of its investigation and the end,
  the result of the investigation is refused with a version conflict.\<close>
theorem stale_investigation_discarded:
  assumes "case_reach env db"
    and "investigate_start env db tenant ref actor reason t rid = Inr (db1, st, v)"
    and "(case_step env)\<^sup>*\<^sup>* db1 db2" "get_case db1 tenant ref \<noteq> get_case db2 tenant ref"
  shows "store_investigation env db2 tenant ref actor' v outcome failure keep t' rid'
       = Inl (CaseError ''case_version_conflict'' 409)"
proof -
  note inv = case_reach_inv [OF assms(1)]
  have inv1: "case_inv env db1" using case_inv_step [OF case_step.start [OF assms(2)] inv] .
  obtain c c' where c: "get_case db tenant ref = Inr c"
    and tr: "case_transition_to env db c IN_PROGRESS actor reason None t rid = Inr (db1, c')" and v: "v = gc_version c'"
    using assms(2) unfolding investigate_start_def by (auto split: prod.splits)
  have ch: "case_change env db db1 c c'"
    using get_case_Inr [OF c] by (intro transition_change [OF tr]) (auto simp: same_case_def)
  have ref: "re_match CASE_REF_RE ref" using c get_case_iff [OF inv] by blast
  have c1: "c' \<in> set (db_cases db1)" "gc_tenant c' = tenant" "gc_ref c' = ref"
    using ch get_case_Inr [OF c] unfolding case_change_def same_case_def by auto
  have g1: "get_case db1 tenant ref = Inr c'" using c1 ref get_case_iff [OF inv1] by blast
  obtain c2 where c2: "c2 \<in> set (db_cases db2)" "same_case c2 c'" "c2 = c' \<or> gc_version c' < gc_version c2"
    and inv2: "case_inv env db2"
    using version_steps [OF assms(3) inv1 c1(1)] by blast
  have g2: "get_case db2 tenant ref = Inr c2"
    using c2 c1 ref get_case_iff [OF inv2] unfolding same_case_def by metis
  have "gc_version c2 \<noteq> v" using c2(3) assms(4) g1 g2 v by auto
  then show ?thesis by (simp add: store_investigation_def g2)
qed

text \<open>The hand-off is part of the change: after a transition a receiver should hear about, made while
  the tenant's endpoint is on, the outbox holds exactly one row for that version of the case and
  that event.\<close>
theorem handoff_written_with_the_change:
  assumes "case_reach env db" "get_case db tenant ref = Inr c"
    and "case_transition_to env db c target actor reason ex t rid = Inr (db', c')"
    and "db_endpoint_on db tenant" "event_type_for c' target = Some ty"
  shows "length (filter (\<lambda>r. ob_tenant r = tenant \<and> ob_event_id r = event_id_for env c' ty) (db_outbox db')) = 1"
proof -
  obtain db0 where db0: "db' = enqueue_for_transition env db0 c' target rid t" "db_endpoint_on db0 = db_endpoint_on db"
      and tenant: "gc_tenant c' = tenant"
    using assms(3) get_case_Inr [OF assms(2)] unfolding case_transition_to_def Let_def
    by (auto simp: transition_keeps_endpoint split: if_splits)
  have mem: "(tenant, event_id_for env c' ty) \<in> set (outbox_keys (db_outbox db'))"
    using enqueue_mem [of db0 c' env ty rid t] assms(4,5) db0 tenant by (simp add: enqueue_for_transition_def)
  have "distinct (outbox_keys (db_outbox db))" using case_reach_inv [OF assms(1)] unfolding case_inv_def by blast
  then have "distinct (outbox_keys (db_outbox db'))"
    using assms(3) unfolding case_transition_to_def Let_def
    by (auto split: if_splits intro!: enqueue_for_distinct)
  then show ?thesis using keys_once mem by blast
qed

section \<open>Witnesses\<close>

definition sample_env :: "(governed_case \<Rightarrow> string \<Rightarrow> string list \<Rightarrow> string option \<Rightarrow> verdict) \<Rightarrow> case_env" where
  "sample_env v = \<lparr> validate = (\<lambda>schema doc. True), uuid5 = (\<lambda>s. s), isoformat = str_int,
     json_sha256 = (\<lambda>doc. ''00''), store_excerpts = (\<lambda>old new t. old @ new), verify = v \<rparr>"

definition sample_verifier :: "governed_case \<Rightarrow> string \<Rightarrow> string list \<Rightarrow> string option \<Rightarrow> verdict" where
  "sample_verifier c outcome grants request_id =
     DecisionCheck (grants = [''grant-1'']) ''grant_unknown'' [(''ann'', ''grant-1'')]"

definition sample_ref :: string where
  "sample_ref = ''case_0123456789abcdef01234567''"

definition sample_memo :: "pv dict" where
  "sample_memo = [(''subject'', VDict [(''provider'', VStr ''p'')]),
     (''recommendation'', VDict [(''proposed'', VStr ''approve'')]),
     (''policy_result'', VDict [(''tier'', VStr ''low'')]), (''missing_items'', VList [])]"

definition sample_run :: run_outcome where
  "sample_run = \<lparr> oc_record = [(''agent'', VStr ''business_underwriter'')], oc_memo = Some sample_memo,
     oc_ownership_graph = VNone, oc_screening_results = [], oc_parties = [], oc_excerpts = [] \<rparr>"

definition db0 :: case_db where
  "db0 = \<lparr> db_cases = [], db_transitions = [], db_outbox = [], db_endpoint_on = (\<lambda>t. t = ''t1'') \<rparr>"

definition op1 :: "case_env \<Rightarrow> (case_error, case_db \<times> governed_case) res" where
  "op1 env = create_case env db0 ''t1'' [] ''kyb.onboarding'' ''prov'' ''pol'' ''ann'' 10 ''c1'' sample_ref"

definition db1 :: "case_env \<Rightarrow> case_db" where "db1 env = fst (projr (op1 env))"

definition op2 :: "case_env \<Rightarrow> (case_error, case_db \<times> string \<times> int) res" where
  "op2 env = investigate_start env (db1 env) ''t1'' sample_ref ''agent'' ''investigation_started'' 20 ''o1''"

definition db2 :: "case_env \<Rightarrow> case_db" where "db2 env = fst (projr (op2 env))"

definition op3 :: "case_env \<Rightarrow> (case_error, case_db \<times> pv dict) res" where
  "op3 env = store_investigation env (db2 env) ''t1'' sample_ref ''agent'' 2 (Some sample_run) [] False 30 ''o2''"

definition db3 :: "case_env \<Rightarrow> case_db" where "db3 env = fst (projr (op3 env))"

definition op4 :: "case_env \<Rightarrow> (case_error, case_db) res" where
  "op4 env = decide_case env (db3 env) ''t1'' sample_ref ''approve'' [''grant-1''] ''ann'' None 40 ''o3''"

definition db4 :: "case_env \<Rightarrow> case_db" where "db4 env = projr (op4 env)"

lemma projr_pair: "\<not> isl m \<Longrightarrow> m = Inr (fst (projr m), snd (projr m))"
  by (cases m) auto

lemma sample_ops:
  "\<not> isl (op1 (sample_env sample_verifier))" "\<not> isl (op2 (sample_env sample_verifier))"
  "\<not> isl (op3 (sample_env sample_verifier))" "\<not> isl (op4 (sample_env sample_verifier))"
  "\<not> isl (op1 (sample_env RequireDecisionGrant))" "\<not> isl (op2 (sample_env RequireDecisionGrant))"
  "\<not> isl (op3 (sample_env RequireDecisionGrant))"
  by code_simp+

lemma op2_eq: "\<not> isl (op2 env) \<Longrightarrow> op2 env = Inr (db2 env, fst (snd (projr (op2 env))), snd (snd (projr (op2 env))))"
  by (cases "op2 env") (auto simp: db2_def)

lemma reach_ops:
  shows "case_reach env db0"
    and "\<not> isl (op1 env) \<Longrightarrow> case_reach env (db1 env)"
    and "\<not> isl (op1 env) \<Longrightarrow> \<not> isl (op2 env) \<Longrightarrow> case_reach env (db2 env)"
    and "\<not> isl (op1 env) \<Longrightarrow> \<not> isl (op2 env) \<Longrightarrow> \<not> isl (op3 env) \<Longrightarrow> case_reach env (db3 env)"
proof -
  show r0: "case_reach env db0" unfolding db0_def by (rule case_reach.empty)
  show r1: "case_reach env (db1 env)" if "\<not> isl (op1 env)"
    using case_reach.step [OF r0 case_step.create] projr_pair [OF that] unfolding op1_def db1_def by metis
  show r2: "case_reach env (db2 env)" if a: "\<not> isl (op1 env)" and b: "\<not> isl (op2 env)"
    using case_reach.step [OF r1 [OF a] case_step.start] op2_eq [OF b] unfolding op2_def by blast
  show "case_reach env (db3 env)" if "\<not> isl (op1 env)" "\<not> isl (op2 env)" "\<not> isl (op3 env)"
    using case_reach.step [OF r2 [OF that(1,2)] case_step.finish] projr_pair [OF that(3)]
    unfolding op3_def db3_def by metis
qed

lemma reach_decided: "case_reach (sample_env sample_verifier) (db4 (sample_env sample_verifier))"
proof -
  let ?e = "sample_env sample_verifier"
  have "op4 ?e = Inr (db4 ?e)" using sample_ops(4) unfolding db4_def by (cases "op4 ?e") auto
  then show ?thesis
    unfolding op4_def using case_reach.step [OF reach_ops(4) [OF sample_ops(1-3)] case_step.decide] by blast
qed

lemma sample_decided:
  "list_ex (\<lambda>c. gc_state c = case_value DECIDED) (db_cases (db4 (sample_env sample_verifier)))"
  "db_cases (db3 (sample_env RequireDecisionGrant)) \<noteq> []"
  by code_simp+

theorem decided_only_by_granted_decision_witness:
  "\<exists>c0 outcome grants request_id reason approvers.
     verify (sample_env sample_verifier) c0 outcome grants request_id = DecisionCheck True reason approvers
     \<and> approvers \<noteq> [] \<and> outcome \<in> {''approve'', ''decline''}
     \<and> gc_state c0 = case_value AWAITING_DECISION"
proof -
  obtain c where c: "c \<in> set (db_cases (db4 (sample_env sample_verifier)))" "gc_state c = case_value DECIDED"
    using sample_decided(1) by (auto simp: list_ex_iff)
  show ?thesis using decided_only_by_granted_decision [OF reach_decided c] by blast
qed

theorem default_verifier_never_decides_witness:
  "\<exists>c \<in> set (db_cases (db3 (sample_env RequireDecisionGrant))). gc_state c \<noteq> case_value DECIDED"
proof -
  have v: "verify (sample_env RequireDecisionGrant) = RequireDecisionGrant" by (simp add: sample_env_def)
  obtain c where c: "c \<in> set (db_cases (db3 (sample_env RequireDecisionGrant)))"
    using sample_decided(2) by (meson list.set_sel(1))
  show ?thesis
    using default_verifier_never_decides [OF reach_ops(4) [OF sample_ops(5-7)] v c] c by blast
qed

theorem case_history_is_a_path_witness:
  "\<exists>c \<in> set (db_cases (db4 (sample_env sample_verifier))). \<exists>ts. run case_move SUBMITTED ts = Inr DECIDED
     \<and> map ct_to (trail (db4 (sample_env sample_verifier)) (gc_id c)) = map case_value (SUBMITTED # ts)"
proof -
  obtain c where c: "c \<in> set (db_cases (db4 (sample_env sample_verifier)))" "gc_state c = case_value DECIDED"
    using sample_decided(1) by (auto simp: list_ex_iff)
  obtain ts s where s: "gc_state c = case_value s" "run case_move SUBMITTED ts = Inr s"
      "map ct_to (trail (db4 (sample_env sample_verifier)) (gc_id c)) = map case_value (SUBMITTED # ts)"
    using case_history_is_a_path [OF reach_decided c(1)] by (elim exE conjE) (rule that)
  then have "s = DECIDED" using c(2) by simp
  with s c(1) show ?thesis by blast
qed

lemma sample_between:
  "get_case (db2 (sample_env sample_verifier)) ''t1'' sample_ref
     \<noteq> get_case (db3 (sample_env sample_verifier)) ''t1'' sample_ref"
  "snd (snd (projr (op2 (sample_env sample_verifier)))) = 2"
  by code_simp+

theorem stale_investigation_discarded_witness:
  "store_investigation (sample_env sample_verifier) (db3 (sample_env sample_verifier)) ''t1'' sample_ref ''agent''
     2 (Some sample_run) [] False 50 ''o9'' = Inl (CaseError ''case_version_conflict'' 409)"
proof -
  let ?e = "sample_env sample_verifier"
  have start: "investigate_start ?e (db1 ?e) ''t1'' sample_ref ''agent'' ''investigation_started'' 20 ''o1''
      = Inr (db2 ?e, fst (snd (projr (op2 ?e))), 2)"
    using op2_eq [OF sample_ops(2)] unfolding sample_between(2) unfolding op2_def .
  have "op3 ?e = Inr (db3 ?e, snd (projr (op3 ?e)))"
    using projr_pair [OF sample_ops(3)] unfolding db3_def .
  then have "case_step ?e (db2 ?e) (db3 ?e)" unfolding op3_def by (rule case_step.finish)
  then show ?thesis
    by (intro stale_investigation_discarded [OF reach_ops(2) [OF sample_ops(1)] start _ sample_between(1)])
      (rule r_into_rtranclp)
qed

definition sample_case :: governed_case where
  "sample_case = projr (get_case (db3 (sample_env sample_verifier)) ''t1'' sample_ref)"

lemma sample_case_get: "get_case (db3 (sample_env sample_verifier)) ''t1'' sample_ref = Inr sample_case"
proof -
  have "\<not> isl (get_case (db3 (sample_env sample_verifier)) ''t1'' sample_ref)" by code_simp
  then show ?thesis unfolding sample_case_def
    by (cases "get_case (db3 (sample_env sample_verifier)) ''t1'' sample_ref") auto
qed

definition op5 :: "(case_error, case_db \<times> governed_case) res" where
  "op5 = case_transition_to (sample_env sample_verifier) (db3 (sample_env sample_verifier)) sample_case
     WITHDRAWN ''ann'' ''withdrawn'' None 60 ''o5''"

lemma sample_withdraw: "\<not> isl op5" "db_endpoint_on (db3 (sample_env sample_verifier)) ''t1''"
  by code_simp+

theorem handoff_written_with_the_change_witness:
  "length (filter (\<lambda>r. ob_tenant r = ''t1'' \<and> ob_event_id r
       = event_id_for (sample_env sample_verifier) (snd (projr op5)) ''case.updated'') (db_outbox (fst (projr op5)))) = 1"
  by (rule handoff_written_with_the_change [OF reach_ops(4) [OF sample_ops(1-3)] sample_case_get
        trans [OF op5_def [symmetric] projr_pair [OF sample_withdraw(1)]] sample_withdraw(2)])
    (simp add: event_type_for_def)

end
