(* ===== verification/Conditions.thy ===== *)
theory Conditions
  imports Prelude
begin

text \<open>
  The condition evaluator (\<open>workflows/condition_evaluator.py\<close>): expressions such as
  \<open>total > 500000 OR status == mismatch\<close>, evaluated to a truth value by \<open>evaluate_condition\<close> and to
  a truth value or unknown by \<open>evaluate_condition_strict\<close>.

  \<open>float(x)\<close> is modelled to the bit: a decimal literal or an integer is rounded to the nearest
  double, ties to even. Three functions of Python's library whose result the evaluator only passes
  on are parameters, gathered in \<open>py_lib\<close>: \<open>repr\<close> of floats and containers (as \<open>str(x)\<close> needs it),
  \<open>ast.literal_eval\<close> and \<open>datetime.fromisoformat\<close>.
\<close>

section \<open>Doubles\<close>

function int_log2 :: "int \<Rightarrow> int" where
  "int_log2 n = (if n \<le> 1 then 0 else 1 + int_log2 (n div 2))"
  by pat_completeness auto
termination
  by (relation "measure nat") auto

declare int_log2.simps [simp del]

text \<open>The exponent of the binade of \<open>p / q\<close>.\<close>

definition floor_log2 :: "int \<Rightarrow> int \<Rightarrow> int" where
  "floor_log2 p q =
     (let k = int_log2 p - int_log2 q in
      if (if k \<ge> 0 then q * 2 ^ nat k \<le> p else q \<le> p * 2 ^ nat (- k)) then k else k - 1)"

definition pow2 :: "int \<Rightarrow> rat" where
  "pow2 k = (if k \<ge> 0 then 2 ^ nat k else 1 / 2 ^ nat (- k))"

text \<open>The nearest double of a rational: 53 bits of precision, exponents from -1022 to 1023.\<close>

definition to_double :: "rat \<Rightarrow> pyfloat" where
  "to_double r =
     (if r = 0 then Fin 0
      else
        let (p, q) = quotient_of \<bar>r\<bar>;
            e = max (-1022) (floor_log2 p q);
            m = of_int (round_half_even (\<bar>r\<bar> / pow2 (e - 52))) * pow2 (e - 52)
        in if m \<ge> pow2 1024 then (if r > 0 then PosInf else NegInf)
           else Fin (if r > 0 then m else - m))"

section \<open>float(x)\<close>

text \<open>Digits with single underscores between them; at least one digit.\<close>

fun digit_part :: "string \<Rightarrow> bool" where
  "digit_part [] = False"
| "digit_part [c] = is_digit c"
| "digit_part (c # d # s) = (is_digit c \<and> (if d = CHR ''_'' then digit_part s else digit_part (d # s)))"

fun digits_int :: "string \<Rightarrow> int \<Rightarrow> int" where
  "digits_int [] acc = acc"
| "digits_int (c # s) acc = digits_int s (acc * 10 + (int (code c) - 48))"

definition digits_of :: "string \<Rightarrow> int" where
  "digits_of s = digits_int (filter is_digit s) 0"

definition ndigits :: "string \<Rightarrow> nat" where
  "ndigits s = length (filter is_digit s)"

definition pow10 :: "int \<Rightarrow> rat" where
  "pow10 k = (if k \<ge> 0 then 10 ^ nat k else 1 / 10 ^ nat (- k))"

definition split_at :: "(char \<Rightarrow> bool) \<Rightarrow> string \<Rightarrow> string \<times> string option" where
  "split_at P s = (case dropWhile (\<lambda>c. \<not> P c) s of
     [] \<Rightarrow> (s, None) | c # rest \<Rightarrow> (takeWhile (\<lambda>c. \<not> P c) s, Some rest))"

definition sign_split :: "string \<Rightarrow> bool \<times> string" where
  "sign_split s = (case s of
     c # rest \<Rightarrow> if c = CHR ''-'' then (True, rest) else if c = CHR ''+'' then (False, rest) else (False, s)
   | [] \<Rightarrow> (False, []))"

definition exponent_of :: "string option \<Rightarrow> int option" where
  "exponent_of ex = (case ex of
     None \<Rightarrow> Some 0
   | Some s \<Rightarrow> (let (neg, ds) = sign_split s in
       if digit_part ds then Some (if neg then - digits_of ds else digits_of ds) else None))"

definition mantissa_of :: "string \<Rightarrow> (int \<times> int) option" where
  "mantissa_of s = (case split_at (\<lambda>c. c = CHR ''.'') s of
     (a, None) \<Rightarrow> if digit_part a then Some (digits_of a, 0) else None
   | (a, Some b) \<Rightarrow>
       if (a = [] \<or> digit_part a) \<and> (b = [] \<or> digit_part b) \<and> (a \<noteq> [] \<or> b \<noteq> [])
       then Some (digits_of (a @ b), - int (ndigits b)) else None)"

definition parse_float :: "string \<Rightarrow> (py_error, pyfloat) res" where
  "parse_float raw =
     (let (neg, body) = sign_split (strip raw); word = lower body in
      if word = ''inf'' \<or> word = ''infinity'' then Inr (if neg then NegInf else PosInf)
      else if word = ''nan'' then Inr NaN
      else
        let (ms, ex) = split_at (\<lambda>c. c = CHR ''e'' \<or> c = CHR ''E'') body in
        case (mantissa_of ms, exponent_of ex) of
          (Some (m, k), Some e) \<Rightarrow>
            Inr (to_double ((if neg then -1 else 1) * of_int m * pow10 (k + e)))
        | _ \<Rightarrow> Inl (ValueError ''could not convert string to float''))"

definition py_float :: "pv \<Rightarrow> (py_error, pyfloat) res" where
  "py_float v =
     (case v of
        VBool b \<Rightarrow> Inr (Fin (if b then 1 else 0))
      | VInt n \<Rightarrow> (case to_double (of_int n) of Fin r \<Rightarrow> Inr (Fin r) | _ \<Rightarrow> Inl OverflowError)
      | VFloat f \<Rightarrow> Inr f
      | VStr s \<Rightarrow> parse_float s
      | _ \<Rightarrow> Inl (TypeError ''float() argument''))"

section \<open>What else the evaluator calls\<close>

record py_lib =
  lib_repr :: "pv \<Rightarrow> string"
  lib_literal_eval :: "string \<Rightarrow> (py_error, pv) res"
  lib_fromisoformat :: "string \<Rightarrow> (bool \<times> int) option"

definition py_str :: "py_lib \<Rightarrow> pv \<Rightarrow> string" where
  "py_str L v =
     (case v of
        VNone \<Rightarrow> ''None''
      | VBool b \<Rightarrow> (if b then ''True'' else ''False'')
      | VInt n \<Rightarrow> str_int n
      | VStr s \<Rightarrow> s
      | _ \<Rightarrow> lib_repr L v)"

section \<open>Operators\<close>

datatype cmp = Gt | Lt | Ge | Le | Eq | Ne

fun fl_op :: "cmp \<Rightarrow> pyfloat \<Rightarrow> pyfloat \<Rightarrow> bool" where
  "fl_op Gt a b = fl_lt b a"
| "fl_op Lt a b = fl_lt a b"
| "fl_op Ge a b = (fl_lt b a \<or> fl_eq b a)"
| "fl_op Le a b = (fl_lt a b \<or> fl_eq a b)"
| "fl_op Eq a b = fl_eq a b"
| "fl_op Ne a b = (\<not> fl_eq a b)"

fun ord_op :: "cmp \<Rightarrow> 'a :: linorder \<Rightarrow> 'a \<Rightarrow> bool" where
  "ord_op Gt a b = (a > b)"
| "ord_op Lt a b = (a < b)"
| "ord_op Ge a b = (a \<ge> b)"
| "ord_op Le a b = (a \<le> b)"
| "ord_op Eq a b = (a = b)"
| "ord_op Ne a b = (a \<noteq> b)"

text \<open>The operators in the order they are looked for: the two-character ones first.\<close>

definition OPS :: "(string \<times> cmp) list" where
  "OPS = [(''>='', Ge), (''<='', Le), (''=='', Eq), (''!='', Ne), (''>'', Gt), (''<'', Lt)]"

definition TRUE_WORDS :: "string list" where "TRUE_WORDS = [''true'', ''1'', ''yes'']"
definition FALSE_WORDS :: "string list" where "FALSE_WORDS = [''false'', ''0'', ''no'']"

section \<open>Tokens\<close>

definition upper_keyword :: "string \<Rightarrow> string" where
  "upper_keyword k = (if k = ''or'' then '' OR '' else '' AND '')"

definition lower_keyword :: "string \<Rightarrow> string" where
  "lower_keyword k = '' '' @ k @ '' ''"

definition split_keyword :: "string \<Rightarrow> string \<Rightarrow> string list option" where
  "split_keyword expression keyword =
     (if contains (upper_keyword keyword) expression then Some (split_on (upper_keyword keyword) expression)
      else if contains (lower_keyword keyword) expression then Some (split_on (lower_keyword keyword) expression)
      else None)"

definition is_quote :: "char \<Rightarrow> bool" where
  "is_quote c \<longleftrightarrow> c = CHR 0x27 \<or> c = CHR 0x22"

definition is_quoted :: "string \<Rightarrow> bool" where
  "is_quoted t \<longleftrightarrow> length t \<ge> 2 \<and> hd t = last t \<and> is_quote (hd t)"

definition unquote :: "string \<Rightarrow> string" where
  "unquote t = butlast (tl t)"

fun open_quote :: "char option \<Rightarrow> string \<Rightarrow> char option" where
  "open_quote q [] = q"
| "open_quote (Some q) (c # s) = open_quote (if c = q then None else Some q) s"
| "open_quote None (c # s) = open_quote (if is_quote c then Some c else None) s"

definition unbalanced_quotes :: "string \<Rightarrow> bool" where
  "unbalanced_quotes part \<longleftrightarrow> open_quote None part \<noteq> None"

definition bare_char :: "char \<Rightarrow> bool" where
  "bare_char c \<longleftrightarrow> \<not> is_space c \<and> \<not> is_quote c \<and> c \<notin> set ''=<>!()[],''"

definition well_formed_operand :: "string \<Rightarrow> bool" where
  "well_formed_operand raw =
     (let token = strip raw in
      if is_quoted token then hd token \<notin> set (unquote token)
      else token \<noteq> [] \<and> list_all bare_char token)"

text \<open>A dotted path of the context, or \<open>None\<close> for the sentinel \<open>MISSING\<close>.\<close>

fun lookup_path :: "pv \<Rightarrow> string list \<Rightarrow> pv option" where
  "lookup_path v [] = Some v"
| "lookup_path (VDict d) (p # ps) = (case dget d p of None \<Rightarrow> None | Some w \<Rightarrow> lookup_path w ps)"
| "lookup_path _ (p # ps) = None"

definition resolve :: "string \<Rightarrow> pv dict \<Rightarrow> bool \<Rightarrow> pv option" where
  "resolve raw context literal_fallback =
     (let token = strip raw in
      if is_quoted token then Some (VStr (unquote token))
      else case lookup_path (VDict context) (split_on ''.'' token) of
             Some v \<Rightarrow> Some v
           | None \<Rightarrow> if literal_fallback then Some (VStr token) else None)"

definition parse_list :: "py_lib \<Rightarrow> string \<Rightarrow> pv dict \<Rightarrow> (py_error, pv list option) res" where
  "parse_list L token context =
     (if prefix ''['' token \<or> prefix ''('' token then
        (case lib_literal_eval L token of
           Inl (ValueError e) \<Rightarrow> Inr None
         | Inl e \<Rightarrow> Inl e
         | Inr (VList xs) \<Rightarrow> Inr (Some xs)
         | Inr (VTuple xs) \<Rightarrow> Inr (Some xs)
         | Inr _ \<Rightarrow> Inr None)
      else
        (case resolve token context False of
           Some (VList xs) \<Rightarrow> Inr (Some xs)
         | Some (VTuple xs) \<Rightarrow> Inr (Some xs)
         | _ \<Rightarrow> Inr None))"

text \<open>The pair of floats, or \<open>None\<close> when a conversion raised what the code catches.\<close>

definition float_pair :: "pv \<Rightarrow> pv \<Rightarrow> (py_error, (pyfloat \<times> pyfloat) option) res" where
  "float_pair a b =
     (case rbind (py_float a) (\<lambda>x. rbind (py_float b) (\<lambda>y. Inr (x, y))) of
        Inr p \<Rightarrow> Inr (Some p)
      | Inl (ValueError e) \<Rightarrow> Inr None
      | Inl (TypeError e) \<Rightarrow> Inr None
      | Inl e \<Rightarrow> Inl e)"

definition values_equal :: "py_lib \<Rightarrow> pv \<Rightarrow> pv \<Rightarrow> (py_error, bool) res" where
  "values_equal L a b =
     rbind (float_pair a b) (\<lambda>p. case p of
       Some (x, y) \<Rightarrow> Inr (fl_eq x y)
     | None \<Rightarrow> Inr (py_str L a = py_str L b))"

text \<open>\<open>any\<close> and \<open>all\<close> over a generator stop at the first item that decides them.\<close>

fun any_res :: "('a \<Rightarrow> ('e, bool) res) \<Rightarrow> 'a list \<Rightarrow> ('e, bool) res" where
  "any_res f [] = Inr False"
| "any_res f (x # xs) = rbind (f x) (\<lambda>b. if b then Inr True else any_res f xs)"

fun all_res :: "('a \<Rightarrow> ('e, bool) res) \<Rightarrow> 'a list \<Rightarrow> ('e, bool) res" where
  "all_res f [] = Inr True"
| "all_res f (x # xs) = rbind (f x) (\<lambda>b. if b then all_res f xs else Inr False)"

lemma any_res_cong [fundef_cong]:
  "xs = ys \<Longrightarrow> (\<And>x. x \<in> set ys \<Longrightarrow> f x = g x) \<Longrightarrow> any_res f xs = any_res g ys"
proof (induction ys arbitrary: xs)
  case (Cons y ys)
  then have "any_res f ys = any_res g ys" by simp
  with Cons.prems show ?case by (simp cong: if_cong)
qed simp

lemma all_res_cong [fundef_cong]:
  "xs = ys \<Longrightarrow> (\<And>x. x \<in> set ys \<Longrightarrow> f x = g x) \<Longrightarrow> all_res f xs = all_res g ys"
proof (induction ys arbitrary: xs)
  case (Cons y ys)
  then have "all_res f ys = all_res g ys" by simp
  with Cons.prems show ?case by (simp cong: if_cong)
qed simp

section \<open>Comparisons and membership\<close>

definition find_op :: "string \<Rightarrow> (cmp \<times> string \<times> string) option" where
  "find_op expression =
     (case find (\<lambda>(op, c). contains op expression) OPS of
        None \<Rightarrow> None
      | Some (op, c) \<Rightarrow> map_option (\<lambda>(l, r). (c, l, r)) (split1 op expression))"

definition find_membership :: "string \<Rightarrow> (bool \<times> string \<times> string) option" where
  "find_membership expression =
     (case split1 '' not in '' expression of
        Some (l, r) \<Rightarrow> Some (True, l, r)
      | None \<Rightarrow> map_option (\<lambda>(l, r). (False, l, r)) (split1 '' in '' expression))"

definition membership :: "py_lib \<Rightarrow> bool \<Rightarrow> pv \<Rightarrow> pv list \<Rightarrow> (py_error, bool) res" where
  "membership L negate v members = rbind (any_res (values_equal L v) members) (\<lambda>found. Inr (found \<noteq> negate))"

definition word_of :: "pv \<Rightarrow> string option" where
  "word_of v = (case v of VStr s \<Rightarrow> Some (lower (strip s)) | _ \<Rightarrow> None)"

text \<open>An expression with no connective: a membership test, a comparison, or a single value.\<close>

definition atom :: "py_lib \<Rightarrow> string \<Rightarrow> pv dict \<Rightarrow> (py_error, bool) res" where
  "atom L expression context =
     (case find_membership expression of
        Some (negate, left, right) \<Rightarrow>
          (case resolve left context False of
             None \<Rightarrow> Inr False
           | Some v \<Rightarrow>
               rbind (parse_list L (strip right) context) (\<lambda>ms. case ms of
                 None \<Rightarrow> Inr False
               | Some members \<Rightarrow> membership L negate v members))
      | None \<Rightarrow>
          (case find_op expression of
             Some (c, left, right) \<Rightarrow>
               (case (resolve left context False, resolve right context True) of
                  (Some v, Some w) \<Rightarrow>
                    rbind (float_pair v w) (\<lambda>p. case p of
                      Some (x, y) \<Rightarrow> Inr (fl_op c x y)
                    | None \<Rightarrow> Inr (ord_op c (py_str L v) (py_str L w)))
                | _ \<Rightarrow> Inr False)
           | None \<Rightarrow>
               (case resolve expression context True of
                  None \<Rightarrow> Inr False
                | Some v \<Rightarrow> Inr (case word_of v of Some w \<Rightarrow> w \<in> set TRUE_WORDS | None \<Rightarrow> truthy v))))"

definition isdigit_char :: "char \<Rightarrow> bool" where
  "isdigit_char c \<longleftrightarrow> is_digit c \<or> code c = 178 \<or> code c = 179 \<or> code c = 185"

definition as_datetime :: "py_lib \<Rightarrow> pv \<Rightarrow> (bool \<times> int) option" where
  "as_datetime L v =
     (case v of
        VStr s \<Rightarrow> (case strip s of
                     [] \<Rightarrow> None
                   | c # cs \<Rightarrow> if isdigit_char c then lib_fromisoformat L (strip s) else None)
      | _ \<Rightarrow> None)"

definition compare_values :: "py_lib \<Rightarrow> cmp \<Rightarrow> pv \<Rightarrow> pv \<Rightarrow> (py_error, bool option) res" where
  "compare_values L c left right =
     rbind (float_pair left right) (\<lambda>p. case p of
       Some (x, y) \<Rightarrow> Inr (Some (fl_op c x y))
     | None \<Rightarrow>
         if c = Eq \<or> c = Ne then Inr (Some (ord_op c (py_str L left) (py_str L right)))
         else (case (as_datetime L left, as_datetime L right) of
                 (Some (aware, a), Some (aware', b)) \<Rightarrow> Inr (if aware = aware' then Some (ord_op c a b) else None)
               | _ \<Rightarrow> Inr None))"

definition compare_strict :: "py_lib \<Rightarrow> cmp \<Rightarrow> pv \<Rightarrow> string \<Rightarrow> pv dict \<Rightarrow> (py_error, bool option) res" where
  "compare_strict L c left right_token context =
     (let right = (case resolve right_token context True of Some v \<Rightarrow> v | None \<Rightarrow> VNone) in
      case (left, right) of
        (VBool b, VStr s) \<Rightarrow>
          if lower s \<in> set (TRUE_WORDS @ FALSE_WORDS) then
            (let w = (lower s \<in> set TRUE_WORDS) in
             Inr (if c = Eq then Some (b = w) else if c = Ne then Some (b \<noteq> w) else None))
          else compare_values L c left right
      | _ \<Rightarrow> compare_values L c left right)"

definition word_truth :: "string \<Rightarrow> bool option" where
  "word_truth w = (if w \<in> set TRUE_WORDS then Some True else if w \<in> set FALSE_WORDS then Some False else None)"

definition atom_strict :: "py_lib \<Rightarrow> string \<Rightarrow> pv dict \<Rightarrow> (py_error, bool option) res" where
  "atom_strict L expression context =
     (case find_membership expression of
        Some (negate, left, right) \<Rightarrow>
          if \<not> well_formed_operand left then Inr None
          else
            rbind (parse_list L (strip right) context) (\<lambda>ms.
              case (resolve left context False, ms) of
                (Some v, Some members) \<Rightarrow> rbind (membership L negate v members) (\<lambda>b. Inr (Some b))
              | _ \<Rightarrow> Inr None)
      | None \<Rightarrow>
          (case find_op expression of
             Some (c, left, right) \<Rightarrow>
               if \<not> well_formed_operand left \<or> \<not> well_formed_operand right then Inr None
               else (case resolve left context False of
                       None \<Rightarrow> Inr None
                     | Some v \<Rightarrow> compare_strict L c v right context)
           | None \<Rightarrow>
               (case resolve expression context False of
                  None \<Rightarrow> Inr (word_truth (lower expression))
                | Some v \<Rightarrow> Inr (case word_of v of Some w \<Rightarrow> word_truth w | None \<Rightarrow> Some (truthy v)))))"

section \<open>The two evaluators\<close>

lemma split_on_shorter:
  assumes "sep \<noteq> []" "contains sep s" "p \<in> set (split_on sep s)"
  shows "length p < length s"
proof -
  have le: "length p \<le> length s" if "p \<in> set (split_on sep s)" for p s
    using that
  proof (induction sep s rule: split_on.induct)
    case (1 sep s)
    show ?case
    proof (cases "split1 sep s")
      case None
      then show ?thesis using "1.prems" by (subst (asm) split_on.simps) (auto split: if_splits)
    next
      case (Some ab)
      obtain a b where ab: "ab = (a, b)" by force
      have len: "length a \<le> length s" "length b \<le> length s"
        using split1_length [OF Some [unfolded ab]] by simp_all
      show ?thesis
        using "1.prems" "1.IH" [OF _ Some ab [symmetric]] len Some ab
        by (subst (asm) split_on.simps) (force split: if_splits)
    qed
  qed
  obtain a b where ab: "split1 sep s = Some (a, b)"
    using assms(2) unfolding contains_def by force
  have len: "length a + length sep + length b = length s" using split1_length [OF ab] .
  have "p = a \<or> p \<in> set (split_on sep b)"
    using assms(1,3) ab by (subst (asm) split_on.simps) auto
  then show ?thesis
  proof
    assume "p = a"
    then show ?thesis using len assms(1) by (cases sep) auto
  next
    assume "p \<in> set (split_on sep b)"
    then show ?thesis using le [of p b] len assms(1) by (cases sep) auto
  qed
qed

lemma strip_length: "length (strip s) \<le> length s"
proof -
  have "length (strip s) \<le> length (dropWhile is_space s)"
    unfolding strip_def by (metis length_dropWhile_le length_rev)
  then show ?thesis by (metis dual_order.trans length_dropWhile_le)
qed

lemma split_keyword_shorter:
  assumes "split_keyword s k = Some parts" "p \<in> set parts"
  shows "length p < length s"
proof -
  have ne: "upper_keyword k \<noteq> []" "lower_keyword k \<noteq> []"
    by (auto simp: upper_keyword_def lower_keyword_def)
  show ?thesis
    using assms split_on_shorter ne unfolding split_keyword_def by (auto split: if_splits)
qed

lemma keyword_part_shorter:
  "split_keyword (strip raw) k = Some parts \<Longrightarrow> p \<in> set parts \<Longrightarrow> length p < length raw"
  using split_keyword_shorter strip_length less_le_trans by metis

lemma negated_shorter:
  assumes "prefix ''NOT '' (strip raw) \<or> prefix ''not '' (strip raw)"
  shows "length (strip raw) - 4 < length raw"
proof -
  have "length (strip raw) \<ge> 4" using assms by (auto dest: prefix_length_le)
  then show ?thesis using strip_length [of raw] by simp
qed

function evaluate_condition :: "py_lib \<Rightarrow> pv dict \<Rightarrow> string \<Rightarrow> (py_error, bool) res" where
  "evaluate_condition L context raw =
     (let expression = strip raw in
      case split_keyword expression ''or'' of
        Some parts \<Rightarrow> any_res (evaluate_condition L context) parts
      | None \<Rightarrow>
          (case split_keyword expression ''and'' of
             Some parts \<Rightarrow> all_res (evaluate_condition L context) parts
           | None \<Rightarrow>
               if prefix ''NOT '' expression \<or> prefix ''not '' expression
               then rbind (evaluate_condition L context (drop 4 expression)) (\<lambda>b. Inr (\<not> b))
               else atom L expression context))"
  by pat_completeness auto
termination
  by (relation "measure (\<lambda>(L, context, raw). length raw)")
    (auto dest: keyword_part_shorter intro: negated_shorter)

function evaluate_condition_strict :: "py_lib \<Rightarrow> pv dict \<Rightarrow> string \<Rightarrow> (py_error, bool option) res" where
  "evaluate_condition_strict L context raw =
     (let expression = strip raw in
      if expression = [] then Inr None
      else case split_keyword expression ''or'' of
        Some parts \<Rightarrow>
          if list_ex unbalanced_quotes parts then Inr None
          else rbind (map_res (evaluate_condition_strict L context) parts) (\<lambda>rs. Inr (kleene_or rs))
      | None \<Rightarrow>
          (case split_keyword expression ''and'' of
             Some parts \<Rightarrow>
               if list_ex unbalanced_quotes parts then Inr None
               else rbind (map_res (evaluate_condition_strict L context) parts) (\<lambda>rs. Inr (kleene_and rs))
           | None \<Rightarrow>
               if prefix ''NOT '' expression \<or> prefix ''not '' expression
               then rbind (evaluate_condition_strict L context (drop 4 expression)) (\<lambda>r. Inr (kleene_not r))
               else atom_strict L expression context))"
  by pat_completeness auto
termination
  by (relation "measure (\<lambda>(L, context, raw). length raw)")
    (auto dest: keyword_part_shorter intro: negated_shorter)

declare evaluate_condition.simps [simp del] evaluate_condition_strict.simps [simp del]

section \<open>Parsing a comparison\<close>

definition field_name :: "string \<Rightarrow> bool" where
  "field_name f \<longleftrightarrow> f \<noteq> [] \<and> list_all (\<lambda>c. ident_char c \<or> c = CHR ''.'') f
     \<and> f \<notin> {''or'', ''and'', ''in'', ''not''}"

definition value_word :: "string \<Rightarrow> bool" where
  "value_word v \<longleftrightarrow> v \<noteq> [] \<and> list_all ident_char v"

definition comparison :: "string \<Rightarrow> string \<Rightarrow> string \<Rightarrow> string" where
  "comparison f op v = f @ '' '' @ op @ '' '' @ v"

lemma split1_skip:
  assumes "sep \<noteq> []" "hd sep \<notin> set a"
  shows "split1 sep (a @ b) = map_option (\<lambda>(u, w). (a @ u, w)) (split1 sep b)"
  using assms(2)
proof (induction a)
  case Nil
  then show ?case by (simp add: option.map_ident)
next
  case (Cons c a)
  have "\<not> prefix sep (c # a @ b)" using assms(1) Cons.prems by (cases sep) auto
  then show ?case using Cons by (cases "split1 sep b") auto
qed

text \<open>A keyword between blanks is not found where the blanks enclose something else.\<close>

lemma split1_blank_next:
  assumes "c \<noteq> d"
  shows "split1 (CHR '' '' # c # k) (CHR '' '' # d # s)
    = map_option (\<lambda>(u, w). (CHR '' '' # u, w)) (split1 (CHR '' '' # c # k) (d # s))"
  using assms by simp

lemma split1_blank_word:
  assumes "CHR '' '' \<notin> set w" "CHR '' '' \<notin> set k" "w \<noteq> k"
  shows "split1 ('' '' @ k @ '' '' @ r) ('' '' @ w @ '' '' @ s)
    = map_option (\<lambda>(u, x). ('' '' @ w @ u, x)) (split1 ('' '' @ k @ '' '' @ r) ('' '' @ s))"
proof -
  have "\<not> prefix ('' '' @ k @ '' '' @ r) ('' '' @ w @ '' '' @ s)"
  proof
    assume "prefix ('' '' @ k @ '' '' @ r) ('' '' @ w @ '' '' @ s)"
    then obtain z where "k @ CHR '' '' # r @ z = w @ CHR '' '' # s" by (auto simp: prefix_def)
    then show False using assms by (auto simp: append_eq_append_conv2 append_eq_Cons_conv Cons_eq_append_conv)
  qed
  then have "split1 ('' '' @ k @ '' '' @ r) ('' '' @ w @ '' '' @ s)
      = map_option (\<lambda>(u, x). (CHR '' '' # u, x)) (split1 ('' '' @ k @ '' '' @ r) (w @ '' '' @ s))"
    by simp
  also have "\<dots> = map_option (\<lambda>(u, x). ('' '' @ w @ u, x)) (split1 ('' '' @ k @ '' '' @ r) ('' '' @ s))"
    using split1_skip [of "'' '' @ k @ '' '' @ r" w "'' '' @ s"] assms(1)
    by (cases "split1 ('' '' @ k @ '' '' @ r) ('' '' @ s)") auto
  finally show ?thesis .
qed

lemma split1_blank_last:
  assumes "CHR '' '' \<notin> set w"
  shows "split1 ('' '' @ k @ '' '' @ r) ('' '' @ w) = None"
proof -
  have "\<not> prefix ('' '' @ k @ '' '' @ r) ('' '' @ w)"
    using assms by (auto simp: prefix_def)
  moreover have "split1 ('' '' @ k @ '' '' @ r) w = None" using assms by (intro split1_None) auto
  ultimately show ?thesis by simp
qed

lemma word_no_blank:
  "field_name f \<Longrightarrow> CHR '' '' \<notin> set f" "value_word v \<Longrightarrow> CHR '' '' \<notin> set v" "op \<in> fst ` set OPS \<Longrightarrow> CHR '' '' \<notin> set op"
proof -
  have "\<not> (ident_char CHR '' '' \<or> CHR '' '' = CHR ''.'')" by code_simp
  then show "field_name f \<Longrightarrow> CHR '' '' \<notin> set f" "value_word v \<Longrightarrow> CHR '' '' \<notin> set v"
    unfolding field_name_def value_word_def list_all_iff by blast+
  show "op \<in> fst ` set OPS \<Longrightarrow> CHR '' '' \<notin> set op" by (auto simp: OPS_def)
qed

lemma op_not_word: "op \<in> fst ` set OPS \<Longrightarrow> op \<notin> {''OR'', ''or'', ''AND'', ''and'', ''in'', ''not'', ''NOT''}"
  by (auto simp: OPS_def)

lemma no_keyword:
  assumes "field_name f" "value_word v" "op \<in> fst ` set OPS" "k \<in> {''OR'', ''or'', ''AND'', ''and'', ''in'', ''not''}"
  shows "split1 ('' '' @ k @ '' '' @ r) (comparison f op v) = None"
    and "split1 ('' '' @ k @ '' '' @ r) (''NOT '' @ comparison f op v) = None"
proof -
  note nb = word_no_blank(1) [OF assms(1)] word_no_blank(2) [OF assms(2)] word_no_blank(3) [OF assms(3)]
  have k: "CHR '' '' \<notin> set k" "op \<noteq> k" using assms(4) op_not_word [OF assms(3)] by auto
  have "f \<noteq> k"
  proof
    assume eq: "f = k"
    have "k \<notin> {''or'', ''and'', ''in'', ''not''}" using assms(1) eq unfolding field_name_def by blast
    then have up: "k = ''OR'' \<or> k = ''AND''" using assms(4) by blast
    have "\<not> (ident_char CHR ''O'' \<or> CHR ''O'' = CHR ''.'')" "\<not> (ident_char CHR ''A'' \<or> CHR ''A'' = CHR ''.'')"
      by code_simp+
    then have "CHR ''O'' \<notin> set f" "CHR ''A'' \<notin> set f"
      using assms(1) unfolding field_name_def list_all_iff by blast+
    then show False using up unfolding eq by (elim disjE) simp_all
  qed
  have tail: "split1 ('' '' @ k @ '' '' @ r) ('' '' @ op @ '' '' @ v) = None"
    using split1_blank_word [OF nb(3) k, of r v] split1_blank_last [OF nb(2), of k r] by simp
  show "split1 ('' '' @ k @ '' '' @ r) (comparison f op v) = None"
    using split1_skip [of "'' '' @ k @ '' '' @ r" f "'' '' @ op @ '' '' @ v"] nb(1) tail
    by (simp add: comparison_def)
  have "split1 ('' '' @ k @ '' '' @ r) ('' '' @ f @ '' '' @ op @ '' '' @ v) = None"
    using split1_blank_word [OF nb(1) k(1) \<open>f \<noteq> k\<close>, of r "op @ '' '' @ v"] tail by simp
  then show "split1 ('' '' @ k @ '' '' @ r) (''NOT '' @ comparison f op v) = None"
    using split1_skip [of "'' '' @ k @ '' '' @ r" "''NOT''" "'' '' @ f @ '' '' @ op @ '' '' @ v"]
    by (simp add: comparison_def)
qed

lemma comparison_strip:
  assumes "field_name f" "value_word v"
  shows "strip (comparison f op v) = comparison f op v" "strip (''NOT '' @ comparison f op v) = ''NOT '' @ comparison f op v"
    "strip (f @ '' '') = f"
proof -
  have sp: "\<not> is_space c" if "ident_char c \<or> c = CHR ''.''" for c
    using that by (auto simp: ident_char_def is_lower_ascii_def is_digit_def is_space_def code_def Let_def)
  have f: "\<forall>c \<in> set f. \<not> is_space c" and v: "\<forall>c \<in> set v. \<not> is_space c" and ne: "f \<noteq> []" "v \<noteq> []"
    using assms sp unfolding field_name_def value_word_def list_all_iff by blast+
  have N: "\<not> is_space CHR ''N''" "is_space CHR '' ''" by code_simp+
  show "strip (comparison f op v) = comparison f op v" "strip (''NOT '' @ comparison f op v) = ''NOT '' @ comparison f op v"
    using f v ne N by (intro strip_id; simp add: comparison_def)+
  show "strip (f @ '' '') = f"
  proof -
    have "dropWhile is_space (f @ '' '') = f @ '' ''" using f ne by (intro dropWhile_id) auto
    moreover have "dropWhile is_space (rev f) = rev f" using f ne by (intro dropWhile_id) (auto simp: hd_rev)
    ultimately show ?thesis using N by (simp add: strip_def)
  qed
qed

lemma comparison_no_keyword:
  assumes "field_name f" "value_word v" "op \<in> fst ` set OPS" "k \<in> {''or'', ''and''}"
  shows "split_keyword (comparison f op v) k = None" "split_keyword (''NOT '' @ comparison f op v) k = None"
proof -
  have none: "split1 ('' '' @ w @ '' '') (comparison f op v) = None
      \<and> split1 ('' '' @ w @ '' '') (''NOT '' @ comparison f op v) = None"
    if "w \<in> {''OR'', ''or'', ''AND'', ''and'', ''in'', ''not''}" for w
    using no_keyword [OF assms(1-3) that, where r = "[]"] by simp
  from none [of "''OR''"] none [of "''or''"] none [of "''AND''"] none [of "''and''"] assms(4)
  show "split_keyword (comparison f op v) k = None" "split_keyword (''NOT '' @ comparison f op v) k = None"
    unfolding split_keyword_def contains_def by (auto simp only: upper_keyword_def lower_keyword_def) simp_all
qed

lemma comparison_no_membership:
  assumes "field_name f" "value_word v" "op \<in> fst ` set OPS"
  shows "find_membership (comparison f op v) = None"
  using no_keyword(1) [OF assms, where k = "''in''" and r = "[]"] no_keyword(1) [OF assms, where k = "''not''" and r = "''in ''"]
  by (simp add: find_membership_def)

lemma not_prefix:
  assumes "field_name f"
  shows "\<not> prefix ''NOT '' (comparison f op v)" "\<not> prefix ''not '' (comparison f op v)"
proof -
  have nb: "CHR '' '' \<notin> set f" using word_no_blank(1) [OF assms] .
  have "\<not> (ident_char CHR ''N'' \<or> CHR ''N'' = CHR ''.'')" by code_simp
  then have "CHR ''N'' \<notin> set f" using assms unfolding field_name_def list_all_iff by blast
  then have "f \<noteq> ''NOT''" by auto
  moreover have "f \<noteq> ''not''" using assms unfolding field_name_def by blast
  moreover have "f = k" if "prefix (k @ '' '') (f @ CHR '' '' # s)" "CHR '' '' \<notin> set k" for k s
    using that nb by (auto simp: prefix_def append_eq_append_conv2 append_eq_Cons_conv Cons_eq_append_conv)
  from this [of "''NOT''"] this [of "''not''"]
  show "\<not> prefix ''NOT '' (comparison f op v)" "\<not> prefix ''not '' (comparison f op v)"
    using calculation by (auto simp: comparison_def)
qed

lemma comparison_op:
  assumes "field_name f" "value_word v" "op \<in> fst ` set OPS"
  shows "\<exists>c right. find_op (comparison f op v) = Some (c, f @ '' '', right)"
proof -
  have cs: "\<forall>x \<in> set ''<>=!''. \<not> (ident_char x \<or> x = CHR ''.'')" by code_simp
  have f: "CHR ''<'' \<notin> set f" "CHR ''>'' \<notin> set f" "CHR ''='' \<notin> set f" "CHR ''!'' \<notin> set f"
    and v: "CHR ''<'' \<notin> set v" "CHR ''>'' \<notin> set v" "CHR ''='' \<notin> set v" "CHR ''!'' \<notin> set v"
    using assms(1,2) cs unfolding field_name_def value_word_def list_all_iff by auto
  have sk: "split1 (x # y) (f @ s) = map_option (\<lambda>(u, w). (f @ u, w)) (split1 (x # y) s)" if "x \<in> set ''<>=!''" for x y s
    using split1_skip [of "x # y" f s] f that by auto
  have nv: "split1 (x # y) v = None" if "x \<in> set ''<>=!''" for x y
    using split1_None [of "x # y" v] v that by auto
  have "op = ''>='' \<or> op = ''<='' \<or> op = ''=='' \<or> op = ''!='' \<or> op = ''>'' \<or> op = ''<''"
    using assms(3) by (auto simp: OPS_def)
  then show ?thesis
    unfolding find_op_def OPS_def comparison_def contains_def
    by (elim disjE) (simp_all add: sk nv)
qed

section \<open>Properties\<close>

text \<open>What an absent field does: a comparison that reads a field the context does not carry is unknown
  to the strict evaluator, and stays unknown under negation; the plain evaluator answers no, and
  its negation therefore yes.\<close>
theorem absent_field_is_unknown:
  assumes "field_name f" "value_word v" "op \<in> {''>='', ''<='', ''=='', ''!='', ''>'', ''<''}"
    and "lookup_path (VDict ctx) (split_on ''.'' f) = None"
  shows "evaluate_condition_strict L ctx (comparison f op v) = Inr None
    \<and> evaluate_condition_strict L ctx (''NOT '' @ comparison f op v) = Inr None
    \<and> evaluate_condition L ctx (comparison f op v) = Inr False
    \<and> evaluate_condition L ctx (''NOT '' @ comparison f op v) = Inr True"
proof -
  have op: "op \<in> fst ` set OPS" using assms(3) by (auto simp: OPS_def)
  note st = comparison_strip [OF assms(1,2)]
  have "\<not> is_quoted f"
  proof
    assume "is_quoted f"
    then have "is_quote (hd f)" "f \<noteq> []" by (auto simp: is_quoted_def)
    moreover have "\<not> (ident_char c \<or> c = CHR ''.'')" if "is_quote c" for c
      using that by (auto simp: is_quote_def ident_char_def is_lower_ascii_def is_digit_def code_def)
    ultimately show False using assms(1) unfolding field_name_def list_all_iff by (meson list.set_sel(1))
  qed
  then have res: "resolve (f @ '' '') ctx False = None"
    using assms(4) by (simp add: resolve_def st)
  obtain c right where fo: "find_op (comparison f op v) = Some (c, f @ '' '', right)"
    using comparison_op [OF assms(1,2) op] by blast
  have atoms: "atom L (comparison f op v) ctx = Inr False" "atom_strict L (comparison f op v) ctx = Inr None"
    using comparison_no_membership [OF assms(1,2) op] fo res
    by (simp_all add: atom_def atom_strict_def)
  have ne: "comparison f op v \<noteq> []" by (simp add: comparison_def)
  note kw = comparison_no_keyword [OF assms(1,2) op]
  have base: "evaluate_condition_strict L ctx (comparison f op v) = Inr None"
    "evaluate_condition L ctx (comparison f op v) = Inr False"
    using atoms ne kw not_prefix [OF assms(1), of op v]
    by (simp_all add: evaluate_condition_strict.simps [of L ctx "comparison f op v"]
        evaluate_condition.simps [of L ctx "comparison f op v"] st)
  have "evaluate_condition_strict L ctx (''NOT '' @ comparison f op v) = Inr None"
    using base kw
    by (subst evaluate_condition_strict.simps) (simp only: st(2), simp add: kleene_not_def)
  moreover have "evaluate_condition L ctx (''NOT '' @ comparison f op v) = Inr True"
    using base kw by (subst evaluate_condition.simps) (simp only: st(2), simp)
  ultimately show ?thesis using base by blast
qed

definition sample_lib :: py_lib where
  "sample_lib = \<lparr> lib_repr = (\<lambda>v. ''<object>''), lib_literal_eval = (\<lambda>s. Inl (ValueError ''malformed'')),
     lib_fromisoformat = (\<lambda>s. None) \<rparr>"

theorem absent_field_is_unknown_witness:
  "evaluate_condition_strict sample_lib [(''amount'', VInt 7)] (''NOT '' @ comparison ''risk.level'' ''>='' ''high'') = Inr None
   \<and> evaluate_condition sample_lib [(''amount'', VInt 7)] (''NOT '' @ comparison ''risk.level'' ''>='' ''high'') = Inr True"
proof -
  have "field_name ''risk.level''" "value_word ''high''" by code_simp+
  moreover have "lookup_path (VDict [(''amount'', VInt 7)]) (split_on ''.'' ''risk.level'') = None" by code_simp
  ultimately show ?thesis
    using absent_field_is_unknown [of "''risk.level''" "''high''" "''>=''" "[(''amount'', VInt 7)]" sample_lib] by blast
qed

end
