(* ===== verification/Rbac.thy ===== *)
theory Rbac
  imports Prelude
begin

text \<open>Roles, their domains and their scopes (\<open>core/rbac.py\<close>), and the role hierarchy of approvals
  (\<open>api/v1/approvals.py\<close>).\<close>

definition ADMIN_SCOPE :: string where "ADMIN_SCOPE = ''agenticorg:admin''"

definition has_admin_scope :: "pv list \<Rightarrow> bool" where
  "has_admin_scope scopes = list_ex (\<lambda>s. s = VStr ADMIN_SCOPE) scopes"

definition ROLE_DOMAIN_MAP :: "(string list option) dict" where
  "ROLE_DOMAIN_MAP =
     [(''cfo'', Some [''finance'']), (''chro'', Some [''hr'']), (''cmo'', Some [''marketing'']),
      (''coo'', Some [''ops'']), (''merchant'', Some [''commerce'']), (''admin'', None), (''auditor'', None),
      (''domain_lead'', Some []), (''analyst'', Some []), (''developer'', Some [])]"

definition USER_DOMAIN_DERIVED_ROLES :: "string list" where
  "USER_DOMAIN_DERIVED_ROLES = [''domain_lead'', ''analyst'', ''developer'']"

definition DOMAIN_ROLE_SCOPES :: "string list" where
  "DOMAIN_ROLE_SCOPES =
     [''agents:read'', ''agents:write'', ''workflows:read'', ''workflows:write'', ''approvals:read'',
      ''approvals:write'', ''audit:read'', ''connectors.read'', ''connectors.contracts.read'',
      ''connectors.registry.read'', ''connectors.tools.read'', ''report_schedules.read'',
      ''report_schedules.write'', ''report_schedules.run'', ''connectors.personal.write'']"

definition KPI_PAGE_SCOPES :: "string list" where "KPI_PAGE_SCOPES = [''kpis:read'']"
definition INSIGHTS_SCOPES :: "string list" where "INSIGHTS_SCOPES = [''insights:read'', ''insights:write'']"
definition INSIGHTS_READ_SCOPES :: "string list" where "INSIGHTS_READ_SCOPES = [''insights:read'']"

definition ROLE_SCOPES :: "(string list) dict" where
  "ROLE_SCOPES =
     [(''cfo'', DOMAIN_ROLE_SCOPES @ KPI_PAGE_SCOPES @ INSIGHTS_SCOPES),
      (''chro'', DOMAIN_ROLE_SCOPES @ KPI_PAGE_SCOPES @ INSIGHTS_SCOPES),
      (''cmo'', DOMAIN_ROLE_SCOPES @ KPI_PAGE_SCOPES @ INSIGHTS_SCOPES @ [''connectors.cmo_vendor_sandbox.write'']),
      (''coo'', DOMAIN_ROLE_SCOPES @ KPI_PAGE_SCOPES @ INSIGHTS_SCOPES),
      (''merchant'', ''commerce.merchant_config.write'' # INSIGHTS_SCOPES),
      (''admin'', [''agenticorg:admin'']),
      (''auditor'', ''audit:read'' # INSIGHTS_READ_SCOPES),
      (''domain_lead'', DOMAIN_ROLE_SCOPES @ INSIGHTS_SCOPES),
      (''analyst'', [''agents:read'', ''workflows:read'', ''approvals:read'', ''connectors.read'',
         ''report_schedules.read''] @ INSIGHTS_SCOPES),
      (''developer'', [''agents:read'', ''agents:write'', ''approvals:read'', ''approvals:write'',
         ''workflows:read'', ''connectors.read'', ''connectors.contracts.read'', ''connectors.registry.read'',
         ''connectors.tools.read'', ''connectors.personal.write''] @ INSIGHTS_SCOPES)]"

definition APPROVAL_POLICY_ROLES :: "string list" where
  "APPROVAL_POLICY_ROLES =
     map fst (filter (\<lambda>(role, scopes). ''approvals:write'' \<in> set scopes \<or> ADMIN_SCOPE \<in> set scopes) ROLE_SCOPES)"

definition is_approval_policy_role :: "string \<Rightarrow> bool" where
  "is_approval_policy_role role \<longleftrightarrow> role \<in> set APPROVAL_POLICY_ROLES"

definition get_allowed_domains :: "string \<Rightarrow> string option \<Rightarrow> string list option" where
  "get_allowed_domains role user_domain =
     (if role \<in> set USER_DOMAIN_DERIVED_ROLES then
        (let domain = strip (case user_domain of None \<Rightarrow> [] | Some d \<Rightarrow> d)
         in Some (if domain \<noteq> [] then [domain] else []))
      else case dget ROLE_DOMAIN_MAP role of None \<Rightarrow> Some [] | Some ds \<Rightarrow> ds)"

definition get_scopes_for_role :: "string \<Rightarrow> string list" where
  "get_scopes_for_role role = (case dget ROLE_SCOPES role of None \<Rightarrow> [] | Some s \<Rightarrow> s)"

section \<open>The role hierarchy of approvals\<close>

definition ROLE_HIERARCHY :: "int dict" where
  "ROLE_HIERARCHY =
     [(''staff'', 10), (''manager'', 20), (''auditor'', 25), (''cfo'', 30), (''chro'', 30), (''cmo'', 30),
      (''coo'', 30), (''cbo'', 30), (''ceo'', 50), (''admin'', 100), (''merchant'', 30),
      (''domain_lead'', 30), (''analyst'', 10), (''developer'', 10)]"

definition role_level :: "string \<Rightarrow> int" where
  "role_level role = (case dget ROLE_HIERARCHY (lower role) of None \<Rightarrow> 0 | Some n \<Rightarrow> n)"

definition can_decide :: "string \<Rightarrow> string list option \<Rightarrow> string \<Rightarrow> string option \<Rightarrow> bool" where
  "can_decide user_role user_domains assignee_role agent_domain =
     (user_role \<noteq> [] \<and> assignee_role \<noteq> [] \<and> role_level user_role \<noteq> 0
      \<and> role_level user_role \<ge> role_level assignee_role
      \<and> (case (user_domains, agent_domain) of
           (Some ds, Some d) \<Rightarrow> d = [] \<or> d \<in> set ds
         | _ \<Rightarrow> True))"

section \<open>Properties\<close>

text \<open>Domain access fails closed: only administrators and auditors are unrestricted; a role that is
  not known has no domain, and a role without a fixed domain has at most its user's own.\<close>
theorem domains_fail_closed:
  "(get_allowed_domains role d = None \<longleftrightarrow> role \<in> {''admin'', ''auditor''})
   \<and> (role \<notin> set (dkeys ROLE_DOMAIN_MAP) \<longrightarrow> get_allowed_domains role d = Some [])
   \<and> (role \<in> set USER_DOMAIN_DERIVED_ROLES \<longrightarrow>
        get_allowed_domains role d \<in> {Some [], Some [strip (case d of None \<Rightarrow> [] | Some s \<Rightarrow> s)]})"
proof (intro conjI impI)
  have derived: "set USER_DOMAIN_DERIVED_ROLES \<subseteq> set (dkeys ROLE_DOMAIN_MAP)"
    by (simp add: USER_DOMAIN_DERIVED_ROLES_def ROLE_DOMAIN_MAP_def dkeys_def)
  show "get_allowed_domains role d = None \<longleftrightarrow> role \<in> {''admin'', ''auditor''}"
    unfolding get_allowed_domains_def USER_DOMAIN_DERIVED_ROLES_def ROLE_DOMAIN_MAP_def
    by (auto simp: Let_def)
  show "get_allowed_domains role d = Some []" if "role \<notin> set (dkeys ROLE_DOMAIN_MAP)"
  proof -
    have "dget ROLE_DOMAIN_MAP role = None" using that dhas_keys [of ROLE_DOMAIN_MAP role] by (simp add: dhas_def)
    then show ?thesis using that derived by (auto simp: get_allowed_domains_def)
  qed
  show "get_allowed_domains role d \<in> {Some [], Some [strip (case d of None \<Rightarrow> [] | Some s \<Rightarrow> s)]}"
    if "role \<in> set USER_DOMAIN_DERIVED_ROLES"
    using that by (simp add: get_allowed_domains_def Let_def)
qed

theorem domains_fail_closed_witness:
  "get_allowed_domains ''root'' (Some ''finance'') = Some []"
proof -
  have "''root'' \<notin> set (dkeys ROLE_DOMAIN_MAP)" by code_simp
  then show ?thesis using domains_fail_closed [of "''root''" "Some ''finance''"] by blast
qed

end
