(* ===== verification/Approvals.thy ===== *)
theory Approvals
  imports Conditions Rbac
begin

text \<open>
  Multi-step approvals: the policy engine (\<open>core/approvals/policy_engine.py\<close>) and the endpoint that
  decides an item (\<open>decide\<close> of \<open>api/v1/approvals.py\<close>). A request returns the item as it is stored
  afterwards and the HTTP error it was answered with, if any; an error rolls the transaction back,
  so the item is then the one before, except for the refusal of an unevaluable condition, which is
  committed before it is raised. The feedback capture and the audit entry write other tables.
\<close>

section \<open>Policies and steps\<close>

record approval_step =
  st_sequence :: int
  st_role :: string
  st_quorum :: int
  st_total :: int
  st_condition :: "string option"

record approval_policy =
  ap_id :: string
  ap_name :: string
  ap_workflow :: "string option"
  ap_agent :: "string option"
  ap_steps :: "approval_step list"

definition evaluate_step_condition :: "py_lib \<Rightarrow> string \<Rightarrow> pv dict \<Rightarrow> bool option" where
  "evaluate_step_condition L condition ctx =
     (case evaluate_condition_strict L ctx condition of Inl e \<Rightarrow> None | Inr r \<Rightarrow> r)"

definition condition_matches :: "py_lib \<Rightarrow> string option \<Rightarrow> pv dict \<Rightarrow> bool" where
  "condition_matches L condition ctx =
     (case condition of
        None \<Rightarrow> True
      | Some c \<Rightarrow> c = [] \<or> (case evaluate_step_condition L c ctx of None \<Rightarrow> True | Some b \<Rightarrow> b))"

text \<open>The flag rows as the store gives them, each already evaluated; \<open>None\<close> when the store cannot be read.\<close>

definition unevaluable_condition_mode :: "(bool \<times> bool) option \<Rightarrow> string" where
  "unevaluable_condition_mode rows =
     (case rows of
        None \<Rightarrow> ''deny''
      | Some (global_on, tenant_on) \<Rightarrow> if global_on \<or> tenant_on then ''deny'' else ''off'')"

text \<open>A query for at most one row raises when there are more.\<close>

definition one_or_none :: "'a list \<Rightarrow> (py_error, 'a option) res" where
  "one_or_none rows =
     (case rows of [] \<Rightarrow> Inr None | [x] \<Rightarrow> Inr (Some x) | _ \<Rightarrow> Inl (ValueError ''MultipleResultsFound''))"

definition or_else :: "(py_error, 'a option) res \<Rightarrow> (py_error, 'a option) res \<Rightarrow> (py_error, 'a option) res" where
  "or_else a b = rbind a (\<lambda>r. case r of None \<Rightarrow> b | Some x \<Rightarrow> Inr (Some x))"

definition resolve_policy ::
  "approval_policy list \<Rightarrow> string option \<Rightarrow> string option \<Rightarrow> string option \<Rightarrow> (py_error, approval_policy option) res" where
  "resolve_policy policies workflow_id agent_id policy_name =
     or_else (case policy_name of
                None \<Rightarrow> Inr None
              | Some n \<Rightarrow> if n = [] then Inr None else one_or_none (filter (\<lambda>p. ap_name p = n) policies))
    (or_else (case workflow_id of
                None \<Rightarrow> Inr None
              | Some w \<Rightarrow> one_or_none (filter (\<lambda>p. ap_workflow p = Some w) policies))
    (or_else (case agent_id of
                None \<Rightarrow> Inr None
              | Some a \<Rightarrow> one_or_none (filter (\<lambda>p. ap_agent p = Some a) policies))
     (one_or_none (filter (\<lambda>p. ap_workflow p = None \<and> ap_agent p = None \<and> ap_name p = ''default'') policies))))"

definition ordered_steps :: "approval_policy \<Rightarrow> approval_step list" where
  "ordered_steps p = sort_key st_sequence (ap_steps p)"

definition first_applicable_step :: "py_lib \<Rightarrow> approval_policy \<Rightarrow> pv dict \<Rightarrow> approval_step option" where
  "first_applicable_step L p ctx = find (\<lambda>s. condition_matches L (st_condition s) ctx) (ordered_steps p)"

definition next_step_after :: "py_lib \<Rightarrow> approval_policy \<Rightarrow> int \<Rightarrow> pv dict \<Rightarrow> approval_step option" where
  "next_step_after L p current_sequence ctx =
     find (\<lambda>s. condition_matches L (st_condition s) ctx)
       (filter (\<lambda>s. st_sequence s > current_sequence) (ordered_steps p))"

definition unevaluable_steps :: "py_lib \<Rightarrow> approval_policy \<Rightarrow> pv dict \<Rightarrow> approval_step list" where
  "unevaluable_steps L p ctx =
     filter (\<lambda>s. case st_condition s of
                   None \<Rightarrow> False
                 | Some c \<Rightarrow> c \<noteq> [] \<and> evaluate_step_condition L c ctx = None) (ordered_steps p)"

datatype policy_action = Advance | Collect | Reject

fun action_value :: "policy_action \<Rightarrow> string" where
  "action_value Advance = ''advance''"
| "action_value Collect = ''collect''"
| "action_value Reject = ''reject''"

record policy_decision =
  pd_action :: policy_action
  pd_approvals :: int
  pd_reason :: string

definition apply_decision :: "approval_step \<Rightarrow> int \<Rightarrow> string \<Rightarrow> (py_error, policy_decision) res" where
  "apply_decision s prior_approvals decision =
     (if decision = ''reject'' then
        Inr \<lparr> pd_action = Reject, pd_approvals = prior_approvals, pd_reason = ''decision=reject'' \<rparr>
      else if decision \<noteq> ''approve'' then Inl (ValueError ''Unknown decision'')
      else let n = prior_approvals + 1 in
        if n \<ge> st_quorum s then
          Inr \<lparr> pd_action = Advance, pd_approvals = n,
                pd_reason = ''quorum '' @ str_int (st_quorum s) @ ''/'' @ str_int (st_total s) @ '' reached'' \<rparr>
        else
          Inr \<lparr> pd_action = Collect, pd_approvals = n,
                pd_reason = str_int n @ ''/'' @ str_int (st_quorum s) @ '' approvals collected'' \<rparr>)"

section \<open>Items and requests\<close>

record vote =
  vt_user_id :: string
  vt_identities :: "string list"
  vt_decision :: string
  vt_sequence :: int
  vt_at :: int

text \<open>
  The \<open>policy_state\<close> of an item's context. An item that was refused before it entered a policy has
  only the refusal markers: its policy id is then empty, its counters 0 and its votes none, which
  is how the code reads absent keys.
\<close>

record policy_state =
  ps_policy_id :: string
  ps_sequence :: int
  ps_collected :: int
  ps_votes :: "vote list"
  ps_last_action :: string
  ps_last_reason :: string
  ps_unevaluable :: "(int list) option"

definition no_state :: policy_state where
  "no_state = \<lparr> ps_policy_id = [], ps_sequence = 0, ps_collected = 0, ps_votes = [], ps_last_action = [],
     ps_last_reason = [], ps_unevaluable = None \<rparr>"

definition vote_value :: "vote \<Rightarrow> pv" where
  "vote_value v = VDict
     [(''user_id'', VStr (vt_user_id v)), (''identities'', VList (map VStr (vt_identities v))),
      (''decision'', VStr (vt_decision v)), (''sequence'', VInt (vt_sequence v)), (''at'', VInt (vt_at v))]"

definition state_value :: "policy_state \<Rightarrow> pv" where
  "state_value p = VDict (concat
     [if ps_policy_id p = [] then []
      else [(''policy_id'', VStr (ps_policy_id p)), (''current_sequence'', VInt (ps_sequence p)),
            (''approvals_collected'', VInt (ps_collected p)), (''approvals'', VList (map vote_value (ps_votes p)))],
      if ps_last_action p = [] then []
      else [(''last_action'', VStr (ps_last_action p)), (''last_reason'', VStr (ps_last_reason p))],
      case ps_unevaluable p of None \<Rightarrow> [] | Some ns \<Rightarrow> [(''unevaluable_steps'', VList (map VInt ns))]])"

record hitl_item =
  hi_status :: string
  hi_expires_at :: "int option"
  hi_assignee_role :: string
  hi_requested_by :: "string option"
  hi_workflow_run :: "string option"
  hi_agent :: "string option"
  hi_context :: "pv dict"
  hi_state :: "policy_state option"
  hi_decision :: "string option"
  hi_decision_by :: "string option"
  hi_decision_at :: "int option"
  hi_notes :: "string option"

text \<open>The context a condition is evaluated over: the item's own fields and its policy state.\<close>

definition context_of :: "hitl_item \<Rightarrow> policy_state option \<Rightarrow> pv dict" where
  "context_of i p = (case p of None \<Rightarrow> hi_context i | Some s \<Rightarrow> dset (hi_context i) ''policy_state'' (state_value s))"

record delegation =
  dl_delegator :: string
  dl_role :: string
  dl_revoked :: bool
  dl_starts :: int
  dl_ends :: "int option"

record decide_request =
  rq_user_claim :: "string option"
  rq_sub :: "string option"
  rq_email :: "string option"
  rq_uuid :: "string option"
  rq_role :: string
  rq_domains :: "(string list) option"
  rq_agent_domain :: "string option"
  rq_ownership :: "bool option"
  rq_can_view :: bool
  rq_delegations :: "(delegation list) option"
  rq_decision :: string
  rq_notes :: string
  rq_now :: int

definition first_text :: "string option list \<Rightarrow> string" where
  "first_text xs = (case filter (\<lambda>x. x \<noteq> None \<and> x \<noteq> Some []) xs of Some s # _ \<Rightarrow> s | _ \<Rightarrow> [])"

definition user_id_of :: "decide_request \<Rightarrow> string" where
  "user_id_of q = first_text [rq_user_claim q, rq_sub q]"

definition normalise :: "string \<Rightarrow> string" where
  "normalise s = lower (strip s)"

text \<open>Every identifier of a person that is not blank, normalised.\<close>

definition voter_identities :: "string option list \<Rightarrow> string list" where
  "voter_identities values =
     remdups (concat (map (\<lambda>v. case v of Some s \<Rightarrow> (if strip s = [] then [] else [normalise s]) | None \<Rightarrow> []) values))"

definition voter_of :: "decide_request \<Rightarrow> string list" where
  "voter_of q = voter_identities [rq_user_claim q, rq_sub q, rq_email q]"

definition vote_persons :: "vote \<Rightarrow> string list" where
  "vote_persons v = voter_identities (Some (vt_user_id v) # map Some (vt_identities v))"

section \<open>The endpoint\<close>

type_synonym http_error = "nat \<times> string"

definition active_delegations :: "decide_request \<Rightarrow> delegation list" where
  "active_delegations q =
     (case rq_delegations q of
        None \<Rightarrow> []
      | Some ds \<Rightarrow> if rq_uuid q = None then [] else
          filter (\<lambda>d. \<not> dl_revoked d \<and> dl_starts d \<le> rq_now q
                     \<and> (case dl_ends d of None \<Rightarrow> True | Some t \<Rightarrow> t > rq_now q)) ds)"

text \<open>Who may act at all: the role the caller acts under by delegation, if it is one, or a refusal.\<close>

definition authorize :: "decide_request \<Rightarrow> hitl_item \<Rightarrow> (http_error, string option) res" where
  "authorize q i =
     (if user_id_of q = [] then Inl (401, ''unidentified'')
      else if rq_ownership q = Some False \<and> \<not> rq_can_view q then Inl (404, ''not found'')
      else if hi_status i \<noteq> ''pending'' then Inl (409, ''already resolved'')
      else if (case hi_expires_at i of None \<Rightarrow> False | Some t \<Rightarrow> rq_now q > t) then Inl (410, ''expired'')
      else if hi_assignee_role i = [] then Inl (422, ''no assignee_role'')
      else case rq_ownership q of
        Some True \<Rightarrow> Inr None
      | Some False \<Rightarrow> Inl (403, ''ownership'')
      | None \<Rightarrow>
          if can_decide (rq_role q) (rq_domains q) (hi_assignee_role i) (rq_agent_domain q) then Inr None
          else case find (\<lambda>d. can_decide (dl_role d) (rq_domains q) (hi_assignee_role i) (rq_agent_domain q))
                      (active_delegations q) of
                 None \<Rightarrow> Inl (403, ''role'')
               | Some d \<Rightarrow> Inr (Some (dl_role d)))"

definition refusal_cleared :: "policy_state option \<Rightarrow> policy_state option" where
  "refusal_cleared p =
     (case p of
        None \<Rightarrow> None
      | Some s \<Rightarrow>
          if ps_last_action s = ''refused'' then
            (if ps_policy_id s = [] then None
             else Some (s\<lparr> ps_last_action := [], ps_last_reason := [], ps_unevaluable := None \<rparr>))
          else Some s)"

text \<open>The step the vote is for; an item in a policy stays at the step it reached.\<close>

definition current_step ::
  "py_lib \<Rightarrow> approval_policy \<Rightarrow> hitl_item \<Rightarrow> policy_state option \<Rightarrow> (http_error, approval_step option) res" where
  "current_step L p i ps =
     (let seq = ps_sequence (case ps of None \<Rightarrow> no_state | Some s \<Rightarrow> s) in
      if seq = 0 then Inr (first_applicable_step L p (context_of i ps))
      else case one_or_none (filter (\<lambda>s. st_sequence s = seq) (ap_steps p)) of
             Inl e \<Rightarrow> Inl (500, ''MultipleResultsFound'')
           | Inr None \<Rightarrow> Inl (409, ''step missing'')
           | Inr (Some s) \<Rightarrow> Inr (Some s))"

definition check_voter ::
  "decide_request \<Rightarrow> string option \<Rightarrow> hitl_item \<Rightarrow> approval_step \<Rightarrow> vote list \<Rightarrow> (http_error, unit) res" where
  "check_voter q delegated_role i s votes =
     (if \<not> is_approval_policy_role (st_role s) then Inl (409, ''invalid approver role'')
      else if \<not> can_decide (rq_role q) (rq_domains q) (st_role s) (rq_agent_domain q)
           \<and> (case delegated_role of
                None \<Rightarrow> True
              | Some r \<Rightarrow> \<not> can_decide r (rq_domains q) (st_role s) (rq_agent_domain q))
      then Inl (403, ''step role'')
      else if hi_requested_by i \<noteq> None \<and> (rq_uuid q = None \<or> hi_requested_by i = rq_uuid q)
      then Inl (403, ''requester'')
      else if list_ex (\<lambda>v. list_ex (\<lambda>x. x \<in> set (vote_persons v)) (voter_of q)) votes
      then Inl (409, ''already voted'')
      else Inr ())"

definition new_vote :: "decide_request \<Rightarrow> approval_step \<Rightarrow> vote" where
  "new_vote q s = \<lparr> vt_user_id = user_id_of q, vt_identities = sort (voter_of q), vt_decision = rq_decision q,
     vt_sequence = st_sequence s, vt_at = rq_now q \<rparr>"

definition voted_state ::
  "approval_policy \<Rightarrow> decide_request \<Rightarrow> policy_state \<Rightarrow> approval_step \<Rightarrow> policy_decision \<Rightarrow> policy_state" where
  "voted_state p q ps s d = \<lparr> ps_policy_id = ap_id p, ps_sequence = st_sequence s, ps_collected = pd_approvals d,
     ps_votes = ps_votes ps @ [new_vote q s], ps_last_action = action_value (pd_action d),
     ps_last_reason = pd_reason d, ps_unevaluable = None \<rparr>"

text \<open>Counting the vote: what the item does next, its policy state and the role it now waits for.\<close>

definition count_vote ::
  "py_lib \<Rightarrow> approval_policy \<Rightarrow> decide_request \<Rightarrow> hitl_item \<Rightarrow> policy_state option \<Rightarrow> approval_step
    \<Rightarrow> (http_error, policy_action \<times> policy_state \<times> string) res" where
  "count_vote L p q i ps s =
     (let ps0 = (case ps of None \<Rightarrow> no_state | Some x \<Rightarrow> x) in
      case apply_decision s (ps_collected ps0) (if rq_decision q = [] then ''approve'' else rq_decision q) of
        Inl e \<Rightarrow> Inl (500, ''ValueError'')
      | Inr d \<Rightarrow>
          let ps1 = voted_state p q ps0 s d in
          if pd_action d = Advance then
            (case next_step_after L p (st_sequence s) (context_of i ps) of
               None \<Rightarrow> Inr (Advance, ps1, hi_assignee_role i)
             | Some n \<Rightarrow>
                 if \<not> is_approval_policy_role (st_role n) then Inl (409, ''invalid approver role'')
                 else Inr (Collect, ps1\<lparr> ps_sequence := st_sequence n, ps_collected := 0 \<rparr>, st_role n))
          else Inr (pd_action d, ps1, hi_assignee_role i))"

text \<open>The writes that close or keep open the item.\<close>

definition apply_outcome :: "decide_request \<Rightarrow> policy_action \<Rightarrow> hitl_item \<Rightarrow> hitl_item" where
  "apply_outcome q a i =
     (let i1 = i\<lparr> hi_decision_by := (if rq_uuid q \<noteq> None then rq_uuid q else hi_decision_by i),
                  hi_notes := (if rq_notes q = [] then None else Some (rq_notes q)) \<rparr>
      in case a of
           Collect \<Rightarrow> i1
         | Reject \<Rightarrow> i1\<lparr> hi_decision := Some (rq_decision q), hi_decision_at := Some (rq_now q), hi_status := ''rejected'' \<rparr>
         | Advance \<Rightarrow> i1\<lparr> hi_decision := Some (rq_decision q), hi_decision_at := Some (rq_now q), hi_status := ''decided'' \<rparr>)"

definition refused_item :: "hitl_item \<Rightarrow> int list \<Rightarrow> hitl_item" where
  "refused_item i ns = i\<lparr> hi_state := Some ((case hi_state i of None \<Rightarrow> no_state | Some s \<Rightarrow> s)
     \<lparr> ps_last_action := ''refused'', ps_last_reason := ''approval_condition_unevaluable'', ps_unevaluable := Some ns \<rparr>) \<rparr>"

definition decide_with_policy ::
  "py_lib \<Rightarrow> approval_policy \<Rightarrow> decide_request \<Rightarrow> string option \<Rightarrow> hitl_item \<Rightarrow> (http_error, hitl_item) res" where
  "decide_with_policy L p q delegated_role i =
     (let ps = refusal_cleared (hi_state i) in
      rbind (current_step L p i ps) (\<lambda>step.
        case step of
          None \<Rightarrow> Inr (apply_outcome q Advance (i\<lparr> hi_state := (case ps of None \<Rightarrow> Some no_state | Some s \<Rightarrow> Some s) \<rparr>))
        | Some s \<Rightarrow>
            rbind (check_voter q delegated_role i s (ps_votes (case ps of None \<Rightarrow> no_state | Some x \<Rightarrow> x))) (\<lambda>_.
            rbind (count_vote L p q i ps s) (\<lambda>(a, ps', role).
              Inr (apply_outcome q a (i\<lparr> hi_state := Some ps', hi_assignee_role := role \<rparr>))))))"

text \<open>The run of the item: its own, or the one its context names when that is a UUID (\<open>parse_uuid\<close>, a parameter).\<close>

definition workflow_run_of :: "py_lib \<Rightarrow> (string \<Rightarrow> string option) \<Rightarrow> hitl_item \<Rightarrow> string option" where
  "workflow_run_of L parse_uuid i =
     (case hi_workflow_run i of
        Some r \<Rightarrow> Some r
      | None \<Rightarrow> (case dget (hi_context i) ''workflow_run_id'' of
                   None \<Rightarrow> None
                 | Some v \<Rightarrow> if truthy v then parse_uuid (py_str L v) else None))"

definition decide ::
  "py_lib \<Rightarrow> (string \<Rightarrow> string option) \<Rightarrow> approval_policy list \<Rightarrow> (bool \<times> bool) option \<Rightarrow> decide_request \<Rightarrow> hitl_item \<Rightarrow> hitl_item \<times> http_error option" where
  "decide L parse_uuid policies flags q i0 =
     (case authorize q i0 of
        Inl e \<Rightarrow> (i0, Some e)
      | Inr delegated_role \<Rightarrow>
          let i = i0\<lparr> hi_workflow_run := workflow_run_of L parse_uuid i0 \<rparr> in
          (case resolve_policy policies (hi_workflow_run i) (hi_agent i) None of
             Inl e \<Rightarrow> (i0, Some (500, ''MultipleResultsFound''))
           | Inr policy \<Rightarrow>
               let in_flight = ps_policy_id (case hi_state i of None \<Rightarrow> no_state | Some s \<Rightarrow> s) in
               if in_flight \<noteq> [] \<and> map_option ap_id policy \<noteq> Some in_flight
               then (i0, Some (409, ''policy changed''))
               else case policy of
                 None \<Rightarrow> (apply_outcome q Advance (i\<lparr> hi_state := refusal_cleared (hi_state i) \<rparr>), None)
               | Some p \<Rightarrow>
                   let ns = map st_sequence (unevaluable_steps L p (context_of i (hi_state i))) in
                   if rq_decision q \<noteq> ''reject'' \<and> unevaluable_condition_mode flags = ''deny'' \<and> ns \<noteq> []
                   then (refused_item i ns, Some (409, ''approval_condition_unevaluable''))
                   else case decide_with_policy L p q delegated_role i of
                          Inl e \<Rightarrow> (i0, Some e)
                        | Inr i' \<Rightarrow> (i', None)))"

section \<open>Choosing steps\<close>

lemma ordered_steps_set [simp]: "set (ordered_steps p) = set (ap_steps p)"
  by (simp add: ordered_steps_def)

lemma find_sorted_first:
  assumes "sorted (map f xs)" "find P xs = Some x"
  shows "x \<in> set xs \<and> P x \<and> (\<forall>y \<in> set xs. f y < f x \<longrightarrow> \<not> P y)"
proof -
  obtain n where n: "n < length xs" "x = xs ! n" "P x" "\<forall>j < n. \<not> P (xs ! j)"
    using assms(2) by (auto simp: find_Some_iff)
  have "\<not> P y" if y: "y \<in> set xs" "f y < f x" for y
  proof -
    obtain j where j: "j < length xs" "y = xs ! j" using y(1) by (auto simp: in_set_conv_nth)
    have "j < n"
    proof (rule ccontr)
      assume "\<not> j < n"
      then have "f (xs ! n) \<le> f (xs ! j)"
        using assms(1) j(1) by (metis length_map not_less nth_map sorted_nth_mono n(1))
      then show False using y(2) j n by simp
    qed
    with n(4) j show ?thesis by blast
  qed
  with n show ?thesis by (metis nth_mem)
qed

lemma ordered_steps_sorted: "sorted (map st_sequence (ordered_steps p))"
  by (simp add: ordered_steps_def)

lemma first_step_facts:
  "first_applicable_step L p ctx = Some s \<Longrightarrow> s \<in> set (ap_steps p) \<and> condition_matches L (st_condition s) ctx
     \<and> (\<forall>t \<in> set (ap_steps p). st_sequence t < st_sequence s \<longrightarrow> \<not> condition_matches L (st_condition t) ctx)"
  unfolding first_applicable_step_def
  by (drule find_sorted_first [OF ordered_steps_sorted]) simp

lemma first_step_none:
  "first_applicable_step L p ctx = None \<longleftrightarrow> (\<forall>t \<in> set (ap_steps p). \<not> condition_matches L (st_condition t) ctx)"
  by (auto simp: first_applicable_step_def find_None_iff)

lemma next_step_facts:
  assumes "next_step_after L p n ctx = Some s"
  shows "s \<in> set (ap_steps p) \<and> condition_matches L (st_condition s) ctx \<and> n < st_sequence s
     \<and> (\<forall>t \<in> set (ap_steps p). n < st_sequence t \<longrightarrow> st_sequence t < st_sequence s \<longrightarrow>
          \<not> condition_matches L (st_condition t) ctx)"
proof -
  have "sorted (map st_sequence (filter (\<lambda>s. n < st_sequence s) (ordered_steps p)))"
    by (rule sorted_filter [OF ordered_steps_sorted])
  from find_sorted_first [OF this assms [unfolded next_step_after_def]] show ?thesis by auto
qed

lemma next_step_none:
  "next_step_after L p n ctx = None \<longleftrightarrow>
     (\<forall>t \<in> set (ap_steps p). n < st_sequence t \<longrightarrow> \<not> condition_matches L (st_condition t) ctx)"
  by (auto simp: next_step_after_def find_None_iff)

section \<open>Identities of voters\<close>

lemma code_char_of: "code (char_of (n :: nat)) = n mod 256"
  by (simp add: code_def)

lemma lower_char_facts:
  "lower_char (lower_char c) = lower_char c" "is_space (lower_char c) = is_space c"
  by (auto simp: lower_char_def is_upper_ascii_def is_space_def Let_def code_char_of)

lemma strip_lower: "strip (lower s) = lower (strip s)"
proof -
  have "dropWhile is_space (map lower_char t) = map lower_char (dropWhile is_space t)" for t
    by (induction t) (auto simp: lower_char_facts)
  then show ?thesis by (simp add: strip_def lower_def rev_map)
qed

lemma strip_strip [simp]: "strip (strip s) = strip s"
proof (rule strip_id)
  have dw: "dropWhile P u = [] \<or> \<not> P (hd (dropWhile P u))" for P :: "char \<Rightarrow> bool" and u
    by (induction u) auto
  let ?a = "dropWhile is_space s"
  let ?b = "dropWhile is_space (rev ?a)"
  have last: "rev ?b = [] \<or> \<not> is_space (last (rev ?b))"
    using dw [of is_space "rev ?a"] by (auto simp: last_rev)
  have "prefix (rev ?b) ?a"
    by (metis rev_rev_ident suffix_dropWhile suffix_to_prefix)
  then have "rev ?b = [] \<or> hd (rev ?b) = hd ?a" by (metis hd_append2 prefix_def)
  moreover have "?a = [] \<Longrightarrow> rev ?b = []" by (metis dropWhile.simps(1) rev.simps(1))
  ultimately show "strip s = [] \<or> \<not> is_space (hd (strip s)) \<and> \<not> is_space (last (strip s))"
    using last dw [of is_space s] unfolding strip_def by metis
qed

lemma normalise_idem [simp]: "normalise (normalise s) = normalise s"
proof -
  have "map lower_char (map lower_char t) = map lower_char t" for t by (simp add: lower_char_facts)
  then have "lower (lower t) = lower t" for t unfolding lower_def by simp
  then show ?thesis by (simp add: normalise_def strip_lower)
qed

lemma normalise_blank: "strip (normalise s) = [] \<longleftrightarrow> strip s = []"
  by (simp add: normalise_def strip_lower) (simp add: lower_def)

lemma voter_identities_set:
  "set (voter_identities vs) = {normalise s | s. Some s \<in> set vs \<and> strip s \<noteq> []}"
  by (force simp: voter_identities_def split: option.splits if_splits)

lemma first_text_mem: "first_text xs \<noteq> [] \<Longrightarrow> Some (first_text xs) \<in> set xs"
  by (induction xs) (auto simp: first_text_def split: option.splits list.splits if_splits)

lemma new_vote_persons:
  assumes "user_id_of q \<noteq> []"
  shows "set (vote_persons (new_vote q s)) = set (voter_of q)"
proof
  have u: "Some (user_id_of q) \<in> {rq_user_claim q, rq_sub q}"
    using first_text_mem [OF assms [unfolded user_id_of_def]] unfolding user_id_of_def by simp
  show "set (vote_persons (new_vote q s)) \<subseteq> set (voter_of q)"
  proof
    fix x
    assume "x \<in> set (vote_persons (new_vote q s))"
    then obtain w where w: "x = normalise w" "strip w \<noteq> []" "w = user_id_of q \<or> w \<in> set (voter_of q)"
      by (auto simp: vote_persons_def voter_identities_set new_vote_def)
    show "x \<in> set (voter_of q)"
      using w u by (auto simp: voter_of_def voter_identities_set)
  qed
  show "set (voter_of q) \<subseteq> set (vote_persons (new_vote q s))"
  proof
    fix x
    assume x: "x \<in> set (voter_of q)"
    then obtain w where w: "x = normalise w" "strip w \<noteq> []" by (auto simp: voter_of_def voter_identities_set)
    then have "normalise x = x" "strip x \<noteq> []" by (simp_all add: normalise_blank)
    with x show "x \<in> set (vote_persons (new_vote q s))"
      by (auto simp: vote_persons_def voter_identities_set new_vote_def intro!: exI [of _ x])
  qed
qed

section \<open>The invariant of an item under a policy\<close>

definition approving :: "vote \<Rightarrow> bool" where
  "approving v \<longleftrightarrow> vt_decision v \<in> {''approve'', []}"

definition votes_at :: "int \<Rightarrow> vote list \<Rightarrow> int" where
  "votes_at n vs = int (length (filter (\<lambda>v. vt_sequence v = n \<and> approving v) vs))"

text \<open>Every vote is by somebody else: no two share an identifier, each has one, and none is the requester's.\<close>

definition separate_votes :: "(string \<Rightarrow> string option) \<Rightarrow> string option \<Rightarrow> vote list \<Rightarrow> bool" where
  "separate_votes parse_uuid requester vs \<longleftrightarrow>
     sorted_wrt (\<lambda>v w. set (vote_persons v) \<inter> set (vote_persons w) = {}) vs
     \<and> (\<forall>v \<in> set vs. vote_persons v \<noteq> []
          \<and> (requester \<noteq> None \<longrightarrow> parse_uuid (vt_user_id v) \<noteq> None \<and> parse_uuid (vt_user_id v) \<noteq> requester))"

definition quorum_upto :: "(approval_step \<Rightarrow> bool) \<Rightarrow> approval_policy \<Rightarrow> (int \<Rightarrow> bool) \<Rightarrow> vote list \<Rightarrow> bool" where
  "quorum_upto A p before vs \<longleftrightarrow>
     (\<forall>t \<in> set (ap_steps p). A t \<longrightarrow> before (st_sequence t) \<longrightarrow> st_quorum t \<le> votes_at (st_sequence t) vs)"

definition policy_wf :: "approval_policy \<Rightarrow> bool" where
  "policy_wf p \<longleftrightarrow> ap_id p \<noteq> [] \<and> distinct (map st_sequence (ap_steps p))
     \<and> (\<forall>s \<in> set (ap_steps p). 1 \<le> st_sequence s \<and> 1 \<le> st_quorum s)"

definition request_wf :: "(string \<Rightarrow> string option) \<Rightarrow> decide_request \<Rightarrow> bool" where
  "request_wf parse_uuid q \<longleftrightarrow> rq_uuid q = parse_uuid (user_id_of q) \<and> strip (user_id_of q) \<noteq> []"

text \<open>Where an open item stands: not yet in the policy, or at an applicable step that lacks votes with every
  earlier applicable step complete.\<close>

definition state_ok :: "(approval_step \<Rightarrow> bool) \<Rightarrow> approval_policy \<Rightarrow> policy_state option \<Rightarrow> bool" where
  "state_ok A p ps =
     (case ps of
        None \<Rightarrow> True
      | Some s \<Rightarrow>
          if ps_policy_id s = [] then ps_sequence s = 0 \<and> ps_collected s = 0 \<and> ps_votes s = []
          else ps_policy_id s = ap_id p
            \<and> (\<exists>cur \<in> set (ap_steps p). st_sequence cur = ps_sequence s \<and> A cur
                 \<and> ps_collected s = votes_at (st_sequence cur) (ps_votes s) \<and> ps_collected s < st_quorum cur
                 \<and> (\<forall>v \<in> set (ps_votes s). vt_sequence v \<le> st_sequence cur)
                 \<and> quorum_upto A p (\<lambda>n. n < st_sequence cur) (ps_votes s)))"

definition votes_of :: "policy_state option \<Rightarrow> vote list" where
  "votes_of ps = (case ps of None \<Rightarrow> [] | Some s \<Rightarrow> ps_votes s)"

definition item_inv ::
  "py_lib \<Rightarrow> (string \<Rightarrow> string option) \<Rightarrow> (approval_step \<Rightarrow> bool) \<Rightarrow> approval_policy \<Rightarrow> hitl_item \<Rightarrow> hitl_item \<Rightarrow> bool" where
  "item_inv L pu A p i0 i \<longleftrightarrow>
     hi_context i = hi_context i0 \<and> workflow_run_of L pu i = workflow_run_of L pu i0 \<and> hi_agent i = hi_agent i0
     \<and> hi_requested_by i = hi_requested_by i0
     \<and> separate_votes pu (hi_requested_by i0) (votes_of (hi_state i))
     \<and> (hi_status i = ''pending'' \<longrightarrow> state_ok A p (hi_state i))
     \<and> (hi_status i = ''decided'' \<longrightarrow> quorum_upto A p (\<lambda>n. True) (votes_of (hi_state i)))"

lemma votes_at_snoc:
  "votes_at n (vs @ [v]) = votes_at n vs + (if vt_sequence v = n \<and> approving v then 1 else 0)"
  by (simp add: votes_at_def)

lemma quorum_upto_snoc: "quorum_upto A p b vs \<Longrightarrow> quorum_upto A p b (vs @ [v])"
  by (fastforce simp: quorum_upto_def votes_at_snoc)

lemma separate_snoc:
  assumes "separate_votes pu r vs" "request_wf pu q" "r = hi_requested_by i"
    and "check_voter q dr i s vs = Inr ()"
  shows "separate_votes pu r (vs @ [new_vote q s])"
proof -
  have uid: "user_id_of q \<noteq> []" and pu: "rq_uuid q = pu (user_id_of q)"
    using assms(2) by (auto simp: request_wf_def strip_def)
  have dup: "\<forall>v \<in> set vs. set (vote_persons v) \<inter> set (voter_of q) = {}"
    and req: "r \<noteq> None \<longrightarrow> rq_uuid q \<noteq> None \<and> rq_uuid q \<noteq> r"
    using assms(3,4) by (auto simp: check_voter_def list_ex_iff split: if_splits)
  have "Some (user_id_of q) \<in> {rq_user_claim q, rq_sub q}"
    using first_text_mem [OF uid [unfolded user_id_of_def]] unfolding user_id_of_def by simp
  then have "normalise (user_id_of q) \<in> set (voter_of q)"
    using assms(2) by (auto simp: voter_of_def voter_identities_set request_wf_def)
  then have "vote_persons (new_vote q s) \<noteq> []" using new_vote_persons [OF uid, of s] by auto
  moreover have "vt_user_id (new_vote q s) = user_id_of q" by (simp add: new_vote_def)
  ultimately show ?thesis
    using assms(1) dup req pu unfolding separate_votes_def
    by (auto simp: sorted_wrt_append new_vote_persons [OF uid])
qed

lemma refusal_cleared_facts:
  assumes "state_ok A p ps"
  shows "state_ok A p (refusal_cleared ps)" "votes_of (refusal_cleared ps) = votes_of ps"
  using assms by (auto simp: refusal_cleared_def state_ok_def votes_of_def split: option.splits if_splits)

lemma apply_outcome_facts [simp]:
  "hi_context (apply_outcome q a i) = hi_context i" "hi_workflow_run (apply_outcome q a i) = hi_workflow_run i"
  "hi_agent (apply_outcome q a i) = hi_agent i" "hi_requested_by (apply_outcome q a i) = hi_requested_by i"
  "hi_state (apply_outcome q a i) = hi_state i"
  "hi_status (apply_outcome q a i) = (case a of Collect \<Rightarrow> hi_status i | Reject \<Rightarrow> ''rejected'' | Advance \<Rightarrow> ''decided'')"
  by (cases a; simp add: apply_outcome_def Let_def)+

text \<open>Where a vote is cast: at an applicable step that lacks votes, all earlier ones complete.\<close>

definition standing :: "(approval_step \<Rightarrow> bool) \<Rightarrow> approval_policy \<Rightarrow> approval_step \<Rightarrow> policy_state \<Rightarrow> bool" where
  "standing A p s ps \<longleftrightarrow> s \<in> set (ap_steps p) \<and> A s
     \<and> ps_collected ps = votes_at (st_sequence s) (ps_votes ps) \<and> ps_collected ps < st_quorum s
     \<and> (\<forall>v \<in> set (ps_votes ps). vt_sequence v \<le> st_sequence s)
     \<and> quorum_upto A p (\<lambda>n. n < st_sequence s) (ps_votes ps)"

definition or_empty :: "policy_state option \<Rightarrow> policy_state" where
  "or_empty ps = (case ps of None \<Rightarrow> no_state | Some s \<Rightarrow> s)"

lemma workflow_run_of_simps [simp]:
  "workflow_run_of L pu (apply_outcome q a i) = workflow_run_of L pu i"
  "workflow_run_of L pu (i\<lparr> hi_state := x \<rparr>) = workflow_run_of L pu i"
  "workflow_run_of L pu (i\<lparr> hi_assignee_role := role \<rparr>) = workflow_run_of L pu i"
  "workflow_run_of L pu i = r \<Longrightarrow> workflow_run_of L pu (i\<lparr> hi_workflow_run := r \<rparr>) = r"
  by (auto simp: workflow_run_of_def split: option.splits)

lemma context_of_run [simp]: "context_of (i\<lparr> hi_workflow_run := r \<rparr>) ps = context_of i ps"
  by (cases ps) (simp_all add: context_of_def)

lemma votes_of_or_empty: "votes_of ps = ps_votes (or_empty ps)"
  by (simp add: votes_of_def or_empty_def no_state_def split: option.splits)

lemma same_sequence:
  assumes "policy_wf p" "s \<in> set (ap_steps p)" "t \<in> set (ap_steps p)" "st_sequence s = st_sequence t"
  shows "s = t"
  using assms unfolding policy_wf_def by (metis distinct_map inj_onD)

lemma filter_sequence:
  assumes "policy_wf p" "s \<in> set (ap_steps p)"
  shows "filter (\<lambda>t. st_sequence t = st_sequence s) (ap_steps p) = [s]"
proof -
  have "distinct xs \<Longrightarrow> inj_on st_sequence (set xs) \<Longrightarrow> s \<in> set xs \<Longrightarrow>
      filter (\<lambda>t. st_sequence t = st_sequence s) xs = [s]" for xs
  proof (induction xs)
    case (Cons x xs)
    show ?case
    proof (cases "x = s")
      case True
      then have "\<forall>y \<in> set xs. st_sequence y \<noteq> st_sequence s" using Cons.prems by (auto simp: inj_on_def)
      then show ?thesis using True by (simp add: filter_empty_conv)
    next
      case False
      then have "st_sequence x \<noteq> st_sequence s" using Cons.prems by (auto simp: inj_on_def)
      then show ?thesis using Cons False by (auto simp: inj_on_def)
    qed
  qed simp
  then show ?thesis using assms unfolding policy_wf_def by (simp add: distinct_map)
qed

lemma current_step_standing:
  assumes wf: "policy_wf p" and ok: "state_ok A p ps"
    and stable: "\<And>t. t \<in> set (ap_steps p) \<Longrightarrow> condition_matches L (st_condition t) (context_of i ps) = A t"
    and cur: "current_step L p i ps = Inr (Some s)"
  shows "standing A p s (or_empty ps)"
proof (cases "ps_sequence (or_empty ps) = 0")
  case True
  then have s: "first_applicable_step L p (context_of i ps) = Some s"
    using cur by (simp add: current_step_def or_empty_def)
  have e: "ps_collected (or_empty ps) = 0 \<and> ps_votes (or_empty ps) = []"
  proof (cases ps)
    case (Some x)
    have "ps_policy_id x = []"
    proof (rule ccontr)
      assume "ps_policy_id x \<noteq> []"
      then obtain c where "c \<in> set (ap_steps p)" "st_sequence c = ps_sequence x"
        using ok Some by (auto simp: state_ok_def)
      then show False using wf True Some unfolding policy_wf_def or_empty_def by fastforce
    qed
    then show ?thesis using ok Some by (simp add: state_ok_def or_empty_def)
  qed (simp add: or_empty_def no_state_def)
  note f = first_step_facts [OF s]
  have "quorum_upto A p (\<lambda>n. n < st_sequence s) []"
    using f stable unfolding quorum_upto_def by blast
  moreover have "1 \<le> st_quorum s" using wf f unfolding policy_wf_def by blast
  ultimately show ?thesis
    using f e stable unfolding standing_def by (auto simp: votes_at_def)
next
  case False
  then obtain x where x: "ps = Some x" "ps_sequence x \<noteq> 0" by (cases ps) (auto simp: or_empty_def no_state_def)
  then have "ps_policy_id x \<noteq> []" using ok by (auto simp: state_ok_def)
  then obtain c where c: "c \<in> set (ap_steps p)" "st_sequence c = ps_sequence x" "A c"
      "ps_collected x = votes_at (st_sequence c) (ps_votes x)" "ps_collected x < st_quorum c"
      "\<forall>v \<in> set (ps_votes x). vt_sequence v \<le> st_sequence c" "quorum_upto A p (\<lambda>n. n < st_sequence c) (ps_votes x)"
    using ok x by (auto simp: state_ok_def)
  have "s = c"
    using cur x filter_sequence [OF wf c(1)] by (simp add: current_step_def c(2) one_or_none_def)
  with c x show ?thesis unfolding standing_def or_empty_def by simp
qed

lemma quorum_step:
  assumes "policy_wf p" "standing A p s ps" "v = new_vote q s" "approving v"
  shows "votes_at (st_sequence s) (ps_votes ps @ [v]) = ps_collected ps + 1"
    and "quorum_upto A p (\<lambda>n. n < st_sequence s) (ps_votes ps @ [v])"
    and "st_quorum s \<le> ps_collected ps + 1 \<Longrightarrow> quorum_upto A p (\<lambda>n. n \<le> st_sequence s) (ps_votes ps @ [v])"
proof -
  show at: "votes_at (st_sequence s) (ps_votes ps @ [v]) = ps_collected ps + 1"
    using assms(2-4) by (simp add: votes_at_snoc standing_def new_vote_def)
  show up: "quorum_upto A p (\<lambda>n. n < st_sequence s) (ps_votes ps @ [v])"
    using assms(2) quorum_upto_snoc unfolding standing_def by blast
  show "quorum_upto A p (\<lambda>n. n \<le> st_sequence s) (ps_votes ps @ [v])" if "st_quorum s \<le> ps_collected ps + 1"
    unfolding quorum_upto_def
  proof (intro ballI impI)
    fix t
    assume t: "t \<in> set (ap_steps p)" "A t" "st_sequence t \<le> st_sequence s"
    show "st_quorum t \<le> votes_at (st_sequence t) (ps_votes ps @ [v])"
    proof (cases "st_sequence t = st_sequence s")
      case True
      then have "t = s" using same_sequence [OF assms(1)] t(1) assms(2) unfolding standing_def by blast
      then show ?thesis using at that by simp
    next
      case False
      then show ?thesis using up t unfolding quorum_upto_def by simp
    qed
  qed
qed

lemma count_vote_ok:
  assumes wf: "policy_wf p" and st: "standing A p s (or_empty ps)"
    and stable: "\<And>t. t \<in> set (ap_steps p) \<Longrightarrow> condition_matches L (st_condition t) (context_of i ps) = A t"
    and cv: "count_vote L p q i ps s = Inr (a, ps', role)"
  shows "ps_votes ps' = votes_of ps @ [new_vote q s]"
    and "a = Collect \<Longrightarrow> state_ok A p (Some ps')"
    and "a = Advance \<Longrightarrow> quorum_upto A p (\<lambda>n. True) (ps_votes ps')"
proof -
  let ?e = "or_empty ps"
  let ?v = "new_vote q s"
  obtain d where d: "apply_decision s (ps_collected ?e) (if rq_decision q = [] then ''approve'' else rq_decision q) = Inr d"
    using cv by (auto simp: count_vote_def or_empty_def [symmetric] Let_def split: sum.splits)
  have ap: "pd_action d \<noteq> Reject \<Longrightarrow> approving ?v"
    and act: "pd_action d = Advance \<Longrightarrow> st_quorum s \<le> ps_collected ?e + 1"
      "pd_action d = Collect \<Longrightarrow> ps_collected ?e + 1 < st_quorum s \<and> pd_approvals d = ps_collected ?e + 1"
    using d by (auto simp: apply_decision_def approving_def new_vote_def Let_def split: if_splits)
  have vs: "ps_votes (voted_state p q ?e s d) = ps_votes ?e @ [?v]" by (simp add: voted_state_def)
  note id = wf [unfolded policy_wf_def, THEN conjunct1]
  note le = st [unfolded standing_def]
  consider (last) "pd_action d = Advance" "next_step_after L p (st_sequence s) (context_of i ps) = None"
        "a = Advance" "ps' = voted_state p q ?e s d"
    | (more) n where "pd_action d = Advance" "next_step_after L p (st_sequence s) (context_of i ps) = Some n"
        "a = Collect" "ps' = (voted_state p q ?e s d)\<lparr> ps_sequence := st_sequence n, ps_collected := 0 \<rparr>"
    | (stay) "pd_action d \<noteq> Advance" "a = pd_action d" "ps' = voted_state p q ?e s d"
    using cv d by (auto simp: count_vote_def or_empty_def [symmetric] Let_def split: if_splits option.splits)
  note cs = this
  show "ps_votes ps' = votes_of ps @ [?v]" by (cases rule: cs) (simp_all add: vs votes_of_or_empty)
  show "quorum_upto A p (\<lambda>n. True) (ps_votes ps')" if "a = Advance"
  proof (cases rule: cs)
    case last
    have "quorum_upto A p (\<lambda>n. n \<le> st_sequence s) (ps_votes ?e @ [?v])"
      using quorum_step(3) [OF wf st refl ap act(1)] last(1) by simp
    moreover have "\<not> A t" if "t \<in> set (ap_steps p)" "st_sequence s < st_sequence t" for t
      using last(2) that stable unfolding next_step_none by blast
    ultimately show ?thesis unfolding last(4) vs quorum_upto_def by (meson not_le)
  qed (use that in auto)
  show "state_ok A p (Some ps')" if "a = Collect"
  proof (cases rule: cs)
    case (more n)
    have q: "quorum_upto A p (\<lambda>n. n \<le> st_sequence s) (ps_votes ?e @ [?v])"
      using quorum_step(3) [OF wf st refl ap act(1)] more(1) by simp
    note nf = next_step_facts [OF more(2)]
    have "quorum_upto A p (\<lambda>k. k < st_sequence n) (ps_votes ?e @ [?v])"
      using q nf stable unfolding quorum_upto_def by (meson not_le)
    moreover have "\<forall>v \<in> set (ps_votes ?e @ [?v]). vt_sequence v \<le> st_sequence s"
      using le by (auto simp: new_vote_def)
    moreover from this nf have "votes_at (st_sequence n) (ps_votes ?e @ [?v]) = 0"
      by (fastforce simp: votes_at_def filter_empty_conv)
    moreover have "1 \<le> st_quorum n" using wf nf unfolding policy_wf_def by blast
    ultimately show ?thesis
      using nf stable id unfolding state_ok_def more(4)
      by (auto simp: vs voted_state_def intro!: bexI [of _ n])
  next
    case stay
    then have c: "pd_action d = Collect" using that by simp
    have "votes_at (st_sequence s) (ps_votes ?e @ [?v]) = ps_collected ?e + 1"
      "quorum_upto A p (\<lambda>n. n < st_sequence s) (ps_votes ?e @ [?v])"
      using quorum_step(1,2) [OF wf st refl ap] c by auto
    then show ?thesis
      using le act(2) [OF c] id unfolding state_ok_def stay(3)
      by (auto simp: voted_state_def new_vote_def intro!: bexI [of _ s])
  qed (use that in auto)
qed

lemma refused_ok:
  assumes "state_ok A p (hi_state i)"
  shows "state_ok A p (hi_state (refused_item i ns))" "votes_of (hi_state (refused_item i ns)) = votes_of (hi_state i)"
  using assms by (auto simp: refused_item_def state_ok_def votes_of_def no_state_def split: option.splits if_splits)

lemma decide_with_policy_inv:
  assumes wf: "policy_wf p" and rq: "request_wf pu q" and inv: "item_inv L pu A p i0 i" and pend: "hi_status i = ''pending''"
    and stable: "\<And>t ps. t \<in> set (ap_steps p) \<Longrightarrow> condition_matches L (st_condition t) (context_of i0 ps) = A t"
    and dec: "decide_with_policy L p q dr i = Inr i'"
  shows "item_inv L pu A p i0 i'"
proof -
  let ?ps = "refusal_cleared (hi_state i)"
  have ctx: "context_of i ps = context_of i0 ps" for ps
    using inv by (simp add: item_inv_def context_of_def split: option.splits)
  note st = stable [folded ctx]
  have ok: "state_ok A p (hi_state i)" and sep: "separate_votes pu (hi_requested_by i0) (votes_of (hi_state i))"
    and rb: "hi_requested_by i = hi_requested_by i0"
    using inv pend unfolding item_inv_def by auto
  note cleared = refusal_cleared_facts [OF ok]
  obtain step where step: "current_step L p i ?ps = Inr step"
    using dec unfolding decide_with_policy_def Let_def by auto
  show ?thesis
  proof (cases step)
    case None
    have "first_applicable_step L p (context_of i ?ps) = None"
      using step None by (auto simp: current_step_def Let_def split: if_splits sum.splits option.splits)
    then have none: "\<forall>t \<in> set (ap_steps p). \<not> A t" using st unfolding first_step_none by blast
    have i': "i' = apply_outcome q Advance (i\<lparr> hi_state := (case ?ps of None \<Rightarrow> Some no_state | Some s \<Rightarrow> Some s) \<rparr>)"
      using dec step None by (simp add: decide_with_policy_def)
    have "votes_of (hi_state i') = votes_of (hi_state i)"
      unfolding i' using cleared(2) by (auto simp: votes_of_def no_state_def split: option.splits)
    then show ?thesis using inv none sep unfolding item_inv_def i' by (auto simp: quorum_upto_def)
  next
    case (Some s)
    then obtain a ps' role where
        cv: "check_voter q dr i s (ps_votes (or_empty ?ps)) = Inr ()" "count_vote L p q i ?ps s = Inr (a, ps', role)"
      and i': "i' = apply_outcome q a (i\<lparr> hi_state := Some ps', hi_assignee_role := role \<rparr>)"
      using dec step by (auto simp: decide_with_policy_def Let_def or_empty_def [symmetric])
    have stand: "standing A p s (or_empty ?ps)"
      using current_step_standing [OF wf cleared(1) st step [unfolded Some]] .
    note cvo = count_vote_ok [OF wf stand st cv(2)]
    have old: "ps_votes (or_empty ?ps) = votes_of (hi_state i)"
      using cleared(2) by (simp add: votes_of_or_empty)
    have sep': "separate_votes pu (hi_requested_by i0) (ps_votes ps')"
      unfolding cvo(1) [simplified] cleared(2)
      by (rule separate_snoc [OF sep rq rb [symmetric] cv(1) [unfolded old]])
    show ?thesis
      using inv sep' cvo(2,3) pend unfolding item_inv_def i' by (cases a) (auto simp: votes_of_def)
  qed
qed

lemma decide_inv:
  assumes wf: "policy_wf p" and rq: "request_wf pu q" and inv: "item_inv L pu A p i0 i"
    and res: "resolve_policy policies (workflow_run_of L pu i0) (hi_agent i0) None = Inr (Some p)"
    and stable: "\<And>t ps. t \<in> set (ap_steps p) \<Longrightarrow> condition_matches L (st_condition t) (context_of i0 ps) = A t"
  shows "item_inv L pu A p i0 (fst (decide L pu policies flags q i))"
proof (cases "authorize q i")
  case (Inl e)
  then show ?thesis using inv by (simp add: decide_def)
next
  case (Inr dr)
  have pend: "hi_status i = ''pending''"
    using Inr by (auto simp: authorize_def split: if_splits)
  have res': "resolve_policy policies (workflow_run_of L pu i) (hi_agent i) None = Inr (Some p)"
    using res inv unfolding item_inv_def by simp
  let ?i = "i\<lparr> hi_workflow_run := workflow_run_of L pu i \<rparr>"
  have filled: "item_inv L pu A p i0 ?i"
    using inv unfolding item_inv_def by simp
  have ok: "state_ok A p (hi_state ?i)" using filled pend unfolding item_inv_def by simp
  have refused: "item_inv L pu A p i0 (refused_item ?i ns)" for ns
    using filled refused_ok [OF ok] pend unfolding item_inv_def
    by (auto simp: refused_item_def)
  show ?thesis
    using inv refused decide_with_policy_inv [OF wf rq filled _ stable] pend
    by (auto simp: decide_def Inr res' Let_def split: sum.splits)
qed

definition decide_all ::
  "py_lib \<Rightarrow> (string \<Rightarrow> string option) \<Rightarrow> approval_policy list \<Rightarrow> hitl_item \<Rightarrow> ((bool \<times> bool) option \<times> decide_request) list \<Rightarrow> hitl_item" where
  "decide_all L pu policies i rs = foldl (\<lambda>i (flags, q). fst (decide L pu policies flags q i)) i rs"

lemma decide_all_inv:
  assumes "policy_wf p" "\<forall>(flags, q) \<in> set rs. request_wf pu q" "item_inv L pu A p i0 i"
    and "resolve_policy policies (workflow_run_of L pu i0) (hi_agent i0) None = Inr (Some p)"
    and "\<And>t ps. t \<in> set (ap_steps p) \<Longrightarrow> condition_matches L (st_condition t) (context_of i0 ps) = A t"
  shows "item_inv L pu A p i0 (decide_all L pu policies i rs)"
  using assms(2,3)
proof (induction rs arbitrary: i)
  case (Cons r rs)
  obtain flags q where r: "r = (flags, q)" by force
  have "item_inv L pu A p i0 (fst (decide L pu policies flags q i))"
    using decide_inv [OF assms(1) _ Cons.prems(2) assms(4,5)] Cons.prems(1) r by simp
  then show ?case using Cons r by (simp add: decide_all_def)
qed (simp add: decide_all_def)

section \<open>A worked item\<close>

text \<open>An amount of 7 under a policy with two steps, the second for amounts over 9: two people approve it.\<close>

definition sample_step :: approval_step where
  "sample_step = \<lparr> st_sequence = 1, st_role = ''developer'', st_quorum = 2, st_total = 3, st_condition = Some ''amount > 5'' \<rparr>"

definition sample_large :: approval_step where
  "sample_large = \<lparr> st_sequence = 2, st_role = ''cfo'', st_quorum = 1, st_total = 1, st_condition = Some ''amount > 9'' \<rparr>"

definition sample_policy :: approval_policy where
  "sample_policy = \<lparr> ap_id = ''p1'', ap_name = ''default'', ap_workflow = None, ap_agent = None, ap_steps = [sample_large, sample_step] \<rparr>"

definition sample_item :: hitl_item where
  "sample_item = \<lparr> hi_status = ''pending'', hi_expires_at = None, hi_assignee_role = ''developer'',
     hi_requested_by = Some ''u0'', hi_workflow_run = None, hi_agent = None,
     hi_context = [(''amount'', VInt 7)], hi_state = None, hi_decision = None, hi_decision_by = None,
     hi_decision_at = None, hi_notes = None \<rparr>"

definition sample_request :: "string \<Rightarrow> string \<Rightarrow> string \<Rightarrow> decide_request" where
  "sample_request user role decision = \<lparr> rq_user_claim = None, rq_sub = Some user, rq_email = None, rq_uuid = Some user,
     rq_role = role, rq_domains = None, rq_agent_domain = None, rq_ownership = None, rq_can_view = True,
     rq_delegations = None, rq_decision = decision, rq_notes = [], rq_now = 0 \<rparr>"

definition sample_requests :: "((bool \<times> bool) option \<times> decide_request) list" where
  "sample_requests = [(None, sample_request ''u1'' ''developer'' ''approve''), (None, sample_request ''u2'' ''admin'' ''approve'')]"

definition sample_voted :: hitl_item where
  "sample_voted = sample_item\<lparr> hi_state := Some \<lparr> ps_policy_id = ''p1'', ps_sequence = 1, ps_collected = 1,
     ps_votes = [\<lparr> vt_user_id = ''u1'', vt_identities = [''u1''], vt_decision = ''approve'', vt_sequence = 1, vt_at = 0 \<rparr>],
     ps_last_action = ''collect'', ps_last_reason = ''1/2 approvals collected'', ps_unevaluable = None \<rparr>,
     hi_decision_by := Some ''u1'' \<rparr>"

lemma sample_above: "evaluate_step_condition sample_lib ''amount > 9'' [(''amount'', VInt 7), (''policy_state'', x)] = Some False"
  by code_simp

lemma sample_below: "evaluate_step_condition sample_lib ''amount > 5'' [(''amount'', VInt 7), (''policy_state'', x)] = Some True"
  by code_simp

lemma sample_above0: "evaluate_step_condition sample_lib ''amount > 9'' [(''amount'', VInt 7)] = Some False"
  by code_simp

lemma sample_below0: "evaluate_step_condition sample_lib ''amount > 5'' [(''amount'', VInt 7)] = Some True"
  by code_simp

lemma sample_evaluation:
  assumes "hi_context i = [(''amount'', VInt 7)]"
  shows "evaluate_step_condition sample_lib ''amount > 9'' (context_of i s) = Some False"
    "evaluate_step_condition sample_lib ''amount > 5'' (context_of i s) = Some True"
  by (cases s; simp add: context_of_def assms sample_above sample_below sample_above0 sample_below0)+

lemma sample_ordered: "ordered_steps sample_policy = [sample_step, sample_large]"
  by (simp add: ordered_steps_def sample_policy_def sample_step_def sample_large_def)

lemma sample_choices:
  assumes "hi_context i = [(''amount'', VInt 7)]"
  shows "unevaluable_steps sample_lib sample_policy (context_of i s) = []"
    "first_applicable_step sample_lib sample_policy (context_of i s) = Some sample_step"
    "next_step_after sample_lib sample_policy 1 (context_of i s) = None"
  by (simp_all add: unevaluable_steps_def first_applicable_step_def next_step_after_def condition_matches_def
      sample_ordered sample_step_def sample_large_def sample_evaluation [OF assms])

lemma sample_resolves: "resolve_policy [sample_policy] None None None = Inr (Some sample_policy)" by code_simp

lemma sample_may1: "authorize (sample_request ''u1'' ''developer'' ''approve'') sample_item = Inr None" by code_simp

lemma sample_may2: "authorize (sample_request ''u2'' ''admin'' ''approve'') sample_voted = Inr None" by code_simp

lemma sample_votes1: "check_voter (sample_request ''u1'' ''developer'' ''approve'') None sample_item sample_step [] = Inr ()" by code_simp

lemma sample_votes2: "check_voter (sample_request ''u2'' ''admin'' ''approve'') None sample_voted sample_step
  (ps_votes (the (hi_state sample_voted))) = Inr ()" by code_simp

lemma sample_vote1: "new_vote (sample_request ''u1'' ''developer'' ''approve'') sample_step = 
  \<lparr> vt_user_id = ''u1'', vt_identities = [''u1''], vt_decision = ''approve'', vt_sequence = 1, vt_at = 0 \<rparr>" by code_simp

lemma sample_str: "str_int 1 = ''1''" "str_int 2 = ''2''" by code_simp+

lemma sample_decide1: "fst (decide sample_lib Some [sample_policy] None (sample_request ''u1'' ''developer'' ''approve'') sample_item) = sample_voted"
proof -
  have c: "hi_context sample_item = [(''amount'', VInt 7)]" "hi_state sample_item = None" "hi_agent sample_item = None" "sample_item\<lparr> hi_workflow_run := None \<rparr> = sample_item"
    "workflow_run_of sample_lib Some sample_item = None" "hi_workflow_run sample_item = None"
    by (simp_all add: sample_item_def workflow_run_of_def)
  have r: "rq_decision (sample_request ''u1'' ''developer'' ''approve'') = ''approve''" by (simp add: sample_request_def)
  have q: "st_quorum sample_step = 2" by (simp add: sample_step_def)
  show ?thesis
  by (simp add: decide_def sample_may1 c sample_resolves sample_choices r no_state_def decide_with_policy_def refusal_cleared_def current_step_def
    sample_votes1 count_vote_def apply_decision_def voted_state_def Let_def sample_vote1 q) (simp add: sample_voted_def apply_outcome_def sample_step_def sample_large_def sample_item_def sample_policy_def sample_request_def sample_str)
qed

lemma sample_decide2: "hi_status (fst (decide sample_lib Some [sample_policy] None (sample_request ''u2'' ''admin'' ''approve'') sample_voted)) = ''decided''"
proof -
  obtain st where st: "hi_state sample_voted = Some st" "ps_last_action st \<noteq> ''refused''" "ps_sequence st = 1" "ps_collected st = 1" "ps_policy_id st = ''p1''"
    "ps_votes st = ps_votes (the (hi_state sample_voted))"
    by (simp add: sample_voted_def)
  have c: "hi_context sample_voted = [(''amount'', VInt 7)]" "hi_agent sample_voted = None"
    "sample_voted\<lparr> hi_workflow_run := None \<rparr> = sample_voted" "workflow_run_of sample_lib Some sample_voted = None"
    "hi_workflow_run sample_voted = None"
    by (simp_all add: sample_voted_def sample_item_def workflow_run_of_def)
  have r: "rq_decision (sample_request ''u2'' ''admin'' ''approve'') = ''approve''" by (simp add: sample_request_def)
  have p: "ap_id sample_policy = ''p1''" "one_or_none (filter (\<lambda>s. st_sequence s = 1) (ap_steps sample_policy)) = Inr (Some sample_step)"
    "st_quorum sample_step = 2" "st_sequence sample_step = 1"
    by (simp_all add: sample_policy_def sample_step_def sample_large_def one_or_none_def)
  show ?thesis
  by (simp add: decide_def sample_may2 c sample_resolves sample_choices r decide_with_policy_def refusal_cleared_def current_step_def
    sample_votes2 [folded st(6)] st(1-5) p count_vote_def apply_decision_def voted_state_def Let_def apply_outcome_def)
qed

lemma sample_item_decided: "hi_status (decide_all sample_lib Some [sample_policy] sample_item sample_requests) = ''decided''"
  by (simp add: decide_all_def sample_requests_def sample_decide1 sample_decide2)
section \<open>Properties\<close>

text \<open>C4: an item under a policy is decided only with every quorum met. However the requests come, whoever
  makes them, when an item that was raised open ends as decided, each step that applies to it has
  at least its quorum of approving votes; no two votes share an identifier of a person, and none
  was cast by the requester.\<close>
theorem decided_item_met_every_quorum:
  assumes "policy_wf p" "resolve_policy policies (workflow_run_of L pu i) (hi_agent i) None = Inr (Some p)"
    and "\<forall>t \<in> set (ap_steps p). \<forall>ps. condition_matches L (st_condition t) (context_of i ps) = A t"
    and "\<forall>(flags, q) \<in> set rs. request_wf pu q"
    and "hi_status i = ''pending''" "hi_state i = None"
    and "i' = decide_all L pu policies i rs" "hi_status i' = ''decided''"
  shows "(\<forall>t \<in> set (ap_steps p). A t \<longrightarrow> st_quorum t \<le> votes_at (st_sequence t) (votes_of (hi_state i')))
    \<and> sorted_wrt (\<lambda>v w. set (vote_persons v) \<inter> set (vote_persons w) = {}) (votes_of (hi_state i'))
    \<and> (\<forall>v \<in> set (votes_of (hi_state i')). vote_persons v \<noteq> []
         \<and> (hi_requested_by i \<noteq> None \<longrightarrow> pu (vt_user_id v) \<noteq> hi_requested_by i))"
proof -
  have start: "item_inv L pu A p i i"
    using assms(5,6) by (auto simp: item_inv_def state_ok_def separate_votes_def votes_of_def)
  have "item_inv L pu A p i i'"
    unfolding assms(7) using assms(1-4) by (intro decide_all_inv [OF _ _ start]) auto
  then show ?thesis
    using assms(8) unfolding item_inv_def quorum_upto_def separate_votes_def by auto
qed

theorem decided_item_met_every_quorum_witness:
  "2 \<le> votes_at 1 (votes_of (hi_state (decide_all sample_lib Some [sample_policy] sample_item sample_requests)))"
proof -
  let ?A = "\<lambda>t. st_sequence t = 1"
  have steps: "set (ap_steps sample_policy) = {sample_large, sample_step}" by (simp add: sample_policy_def)
  have c: "hi_context sample_item = [(''amount'', VInt 7)]" "workflow_run_of sample_lib Some sample_item = None"
    "hi_agent sample_item = None" "hi_status sample_item = ''pending''" "hi_state sample_item = None"
    by (simp_all add: sample_item_def workflow_run_of_def)
  have "\<forall>t \<in> set (ap_steps sample_policy). \<forall>ps.
      condition_matches sample_lib (st_condition t) (context_of sample_item ps) = ?A t"
    unfolding steps by (simp add: condition_matches_def sample_large_def sample_step_def sample_evaluation [OF c(1)])
  moreover have "policy_wf sample_policy" by (simp add: policy_wf_def steps) (simp add: sample_policy_def sample_large_def sample_step_def)
  moreover have "\<forall>(flags, q) \<in> set sample_requests. request_wf Some q"
    by (simp add: sample_requests_def) code_simp
  ultimately have "\<forall>t \<in> set (ap_steps sample_policy). ?A t \<longrightarrow> st_quorum t \<le>
      votes_at (st_sequence t) (votes_of (hi_state (decide_all sample_lib Some [sample_policy] sample_item sample_requests)))"
    using decided_item_met_every_quorum [of sample_policy "[sample_policy]" sample_lib Some sample_item ?A sample_requests,
        OF _ _ _ _ _ _ refl sample_item_decided] c sample_resolves by simp
  then show ?thesis unfolding steps by (simp add: sample_step_def)
qed

text \<open>C38: in the deny mode a decision that would be taken on a policy nobody can evaluate is not taken: while
  a step's condition cannot be evaluated for the item, every request but a rejection leaves it
  with the status, the votes and the step it had. The mode is deny when the flag store cannot be
  read.\<close>
theorem unevaluable_condition_refuses:
  assumes "resolve_policy policies (workflow_run_of L pu i) (hi_agent i) None = Inr (Some p)"
    and "unevaluable_steps L p (context_of i (hi_state i)) \<noteq> []"
    and "flags = None \<or> flags = Some (True, b) \<or> flags = Some (b, True)" "rq_decision q \<noteq> ''reject''"
  shows "hi_status (fst (decide L pu policies flags q i)) = hi_status i
    \<and> votes_of (hi_state (fst (decide L pu policies flags q i))) = votes_of (hi_state i)
    \<and> ps_sequence (or_empty (hi_state (fst (decide L pu policies flags q i)))) = ps_sequence (or_empty (hi_state i))
    \<and> snd (decide L pu policies flags q i) \<noteq> None"
proof -
  have mode: "unevaluable_condition_mode flags = ''deny''"
    using assms(3) by (auto simp: unevaluable_condition_mode_def)
  show ?thesis
    using assms(1,2,4) mode
    by (auto simp: decide_def Let_def refused_item_def votes_of_def or_empty_def no_state_def
        split: sum.splits option.splits)
qed

theorem unevaluable_condition_refuses_witness:
  "hi_status (fst (decide sample_lib Some [sample_policy] None (sample_request ''u1'' ''admin'' ''approve'') (sample_item\<lparr> hi_context := [] \<rparr>)))
     = ''pending''"
proof -
  let ?i = "sample_item\<lparr> hi_context := [] \<rparr>"
  have i: "workflow_run_of sample_lib Some ?i = None" "hi_agent ?i = None" "context_of ?i (hi_state ?i) = []" "hi_status ?i = ''pending''"
    by (simp_all add: sample_item_def context_of_def workflow_run_of_def)
  have "evaluate_step_condition sample_lib ''amount > 5'' [] = None" by code_simp
  then have "sample_step \<in> set (unevaluable_steps sample_lib sample_policy [])"
    by (simp add: unevaluable_steps_def sample_ordered sample_step_def)
  then have "unevaluable_steps sample_lib sample_policy (context_of ?i (hi_state ?i)) \<noteq> []" unfolding i by force
  moreover have "rq_decision (sample_request ''u1'' ''admin'' ''approve'') \<noteq> ''reject''" by (simp add: sample_request_def)
  ultimately show ?thesis
    using unevaluable_condition_refuses [of "[sample_policy]" sample_lib Some ?i sample_policy None] sample_resolves i by simp
qed

text \<open>a step is passed over only on a definite no: every step before the one chosen, at the start or when
  the item advances, has a condition that was evaluated without error and found false.\<close>
theorem skipped_steps_are_definitely_false:
  assumes "first_applicable_step L p ctx = Some s \<and> lo = 0 \<and> (\<forall>t \<in> set (ap_steps p). 0 < st_sequence t)
    \<or> next_step_after L p lo ctx = Some s"
    and "t \<in> set (ap_steps p)" "lo < st_sequence t" "st_sequence t < st_sequence s"
  shows "\<exists>c. st_condition t = Some c \<and> evaluate_condition_strict L ctx c = Inr (Some False)"
proof -
  have "\<not> condition_matches L (st_condition t) ctx"
    using assms first_step_facts next_step_facts by blast
  then show ?thesis
    by (auto simp: condition_matches_def evaluate_step_condition_def split: option.splits sum.splits)
qed

theorem skipped_steps_are_definitely_false_witness:
  "\<exists>c. st_condition sample_step = Some c \<and> evaluate_condition_strict sample_lib [(''amount'', VInt 3)] c = Inr (Some False)"
proof -
  let ?p = "sample_policy\<lparr> ap_steps := [sample_step, sample_large\<lparr> st_condition := None \<rparr>] \<rparr>"
  have "evaluate_step_condition sample_lib ''amount > 5'' [(''amount'', VInt 3)] = Some False" by code_simp
  then have "first_applicable_step sample_lib ?p [(''amount'', VInt 3)] = Some (sample_large\<lparr> st_condition := None \<rparr>)"
    by (simp add: first_applicable_step_def ordered_steps_def condition_matches_def sample_step_def sample_large_def)
  then show ?thesis
    using skipped_steps_are_definitely_false [of sample_lib ?p "[(''amount'', VInt 3)]" "sample_large\<lparr> st_condition := None \<rparr>" 0 sample_step]
    by (simp add: sample_step_def sample_large_def)
qed

end
