(* ===== verification/Workflow_Parser.thy ===== *)
theory Workflow_Parser
  imports Prelude
begin

text \<open>
  Parsing and validating workflow definitions (\<open>workflows/parser.py\<close>). A definition is the value
  the YAML or JSON text denotes; the YAML loader is a parameter. The search for a circular
  dependency recurses in the code, so the model takes the depth the interpreter allows and raises
  \<open>RecursionError\<close> beyond it.
\<close>

section \<open>Access to values of any type\<close>

text \<open>\<open>k in v\<close>, \<open>v[k]\<close>, \<open>v.get(k, default)\<close> and \<open>for x in v\<close>.\<close>

fun has_key :: "string \<Rightarrow> pv \<Rightarrow> (py_error, bool) res" where
  "has_key k (VDict d) = Inr (dhas d k)"
| "has_key k (VList xs) = Inr (VStr k \<in> set xs)"
| "has_key k (VTuple xs) = Inr (VStr k \<in> set xs)"
| "has_key k (VStr s) = Inr (contains k s)"
| "has_key k _ = Inl (TypeError ''argument is not iterable'')"

fun subscript :: "pv \<Rightarrow> string \<Rightarrow> (py_error, pv) res" where
  "subscript (VDict d) k = dindex d k"
| "subscript _ k = Inl (TypeError ''not subscriptable by a string'')"

fun get_default :: "pv \<Rightarrow> string \<Rightarrow> pv \<Rightarrow> (py_error, pv) res" where
  "get_default (VDict d) k v = Inr (case dget d k of None \<Rightarrow> v | Some w \<Rightarrow> w)"
| "get_default _ k v = Inl (AttributeError ''get'')"

fun py_iter :: "pv \<Rightarrow> (py_error, pv list) res" where
  "py_iter (VList xs) = Inr xs"
| "py_iter (VTuple xs) = Inr xs"
| "py_iter (VStr s) = Inr (map (\<lambda>c. VStr [c]) s)"
| "py_iter (VDict d) = Inr (map (\<lambda>(k, v). VStr k) d)"
| "py_iter _ = Inl (TypeError ''not iterable'')"

text \<open>
  A value as a member of a set or key of a dictionary: lists and dictionaries are unhashable, and
  numbers that are equal are the same key, so each key has one representative.
\<close>

fun hash_key :: "pv \<Rightarrow> (py_error, pv) res" where
  "hash_key (VBool b) = Inr (VInt (if b then 1 else 0))"
| "hash_key (VFloat (Fin r)) = Inr (if of_int \<lfloor>r\<rfloor> = r then VInt \<lfloor>r\<rfloor> else VFloat (Fin r))"
| "hash_key (VTuple xs) = rbind (map_res hash_key xs) (\<lambda>ks. Inr (VTuple ks))"
| "hash_key (VList xs) = Inl (TypeError ''unhashable type'')"
| "hash_key (VDict d) = Inl (TypeError ''unhashable type'')"
| "hash_key VBroken = Inl (TypeError ''unhashable type'')"
| "hash_key v = Inr v"

section \<open>The parser\<close>

definition VALID_STEP_TYPES :: "string list" where
  "VALID_STEP_TYPES =
     [''agent'', ''case_agent'', ''condition'', ''human_in_loop'', ''parallel'', ''loop'', ''transform'',
      ''connector_tool'', ''notify'', ''sub_workflow'', ''wait'', ''wait_for_event'', ''collaboration'']"

fun validate_steps :: "pv set \<Rightarrow> pv list \<Rightarrow> (py_error, unit) res" where
  "validate_steps step_ids [] = Inr ()"
| "validate_steps step_ids (step # steps) =
     rbind (has_key ''id'' step) (\<lambda>has_id.
     rbind (ensure has_id (ValueError ''Every step must have an id'')) (\<lambda>_.
     rbind (subscript step ''id'') (\<lambda>i.
     rbind (hash_key i) (\<lambda>k.
     rbind (ensure (k \<notin> step_ids) (ValueError ''Duplicate step id'')) (\<lambda>_.
     rbind (get_default step ''type'' (VStr ''agent'')) (\<lambda>t.
     rbind (hash_key t) (\<lambda>tk.
     rbind (ensure (tk \<in> set (map VStr VALID_STEP_TYPES)) (ValueError ''Invalid step type'')) (\<lambda>_.
       validate_steps (insert k step_ids) steps))))))))"

text \<open>The graph maps each step to the value of its \<open>depends_on\<close>, in the order of the steps.\<close>

type_synonym dep_graph = "(pv \<times> pv) list"

fun set_key :: "dep_graph \<Rightarrow> pv \<Rightarrow> pv \<Rightarrow> dep_graph" where
  "set_key [] k v = [(k, v)]"
| "set_key ((k', v') # g) k v = (if k' = k then (k, v) # g else (k', v') # set_key g k v)"

fun dependency_graph :: "dep_graph \<Rightarrow> pv list \<Rightarrow> (py_error, dep_graph) res" where
  "dependency_graph g [] = Inr g"
| "dependency_graph g (step # steps) =
     rbind (get_default step ''depends_on'' (VList [])) (\<lambda>deps.
     rbind (subscript step ''id'') (\<lambda>i.
     rbind (hash_key i) (\<lambda>k. dependency_graph (set_key g k deps) steps)))"

text \<open>The depth-first search: \<open>visited\<close> and \<open>in_stack\<close> are threaded through the calls.\<close>

type_synonym search = "pv set \<times> pv set"

function (sequential) has_cycle :: "nat \<Rightarrow> dep_graph \<Rightarrow> pv \<Rightarrow> search \<Rightarrow> (py_error, bool \<times> search) res"
  and any_cycle :: "nat \<Rightarrow> dep_graph \<Rightarrow> pv list \<Rightarrow> search \<Rightarrow> (py_error, bool \<times> search) res"
where
  "has_cycle 0 graph node st = Inl RecursionError"
| "has_cycle (Suc depth) graph node (visited, in_stack) =
     rbind (hash_key node) (\<lambda>k.
       if k \<in> in_stack then Inr (True, visited, in_stack)
       else if k \<in> visited then Inr (False, visited, in_stack)
       else
         rbind (py_iter (case map_of graph k of None \<Rightarrow> VList [] | Some deps \<Rightarrow> deps)) (\<lambda>deps.
         rbind (any_cycle depth graph deps (insert k visited, insert k in_stack)) (\<lambda>(found, visited', in_stack').
           Inr (found, visited', if found then in_stack' else in_stack' - {k}))))"
| "any_cycle depth graph [] st = Inr (False, st)"
| "any_cycle depth graph (dep # deps) st =
     rbind (has_cycle depth graph dep st) (\<lambda>(found, st').
       if found then Inr (True, st') else any_cycle depth graph deps st')"
  by pat_completeness auto
termination
  by (relation "measures [\<lambda>x. case x of Inl (n, _) \<Rightarrow> n | Inr (n, _) \<Rightarrow> n,
                          \<lambda>x. case x of Inl _ \<Rightarrow> 0 | Inr (_, _, ds, _) \<Rightarrow> Suc (length ds)]") auto

fun check_nodes :: "nat \<Rightarrow> dep_graph \<Rightarrow> pv list \<Rightarrow> search \<Rightarrow> (py_error, unit) res" where
  "check_nodes depth graph [] st = Inr ()"
| "check_nodes depth graph (node # nodes) st =
     rbind (has_cycle depth graph node st) (\<lambda>(found, st').
       if found then Inl (ValueError ''E3006: Circular dependency detected'')
       else check_nodes depth graph nodes st')"

definition check_circular :: "nat \<Rightarrow> pv list \<Rightarrow> (py_error, unit) res" where
  "check_circular depth steps =
     rbind (dependency_graph [] steps) (\<lambda>graph. check_nodes depth graph (map fst graph) ({}, {}))"

definition validate_definition :: "nat \<Rightarrow> pv \<Rightarrow> (py_error, unit) res" where
  "validate_definition depth defn =
     rbind (has_key ''steps'' defn) (\<lambda>has_steps.
     rbind (ensure has_steps (ValueError ''Workflow must have steps'')) (\<lambda>_.
     rbind (subscript defn ''steps'') (\<lambda>v.
     rbind (py_iter v) (\<lambda>steps.
     rbind (validate_steps {} steps) (\<lambda>_. check_circular depth steps)))))"

definition parse_definition :: "(string \<Rightarrow> (py_error, pv) res) \<Rightarrow> nat \<Rightarrow> pv \<Rightarrow> (py_error, pv) res" where
  "parse_definition safe_load depth definition =
     rbind (case definition of VStr s \<Rightarrow> safe_load s | _ \<Rightarrow> Inr definition) (\<lambda>defn.
     rbind (validate_definition depth defn) (\<lambda>_. Inr defn))"

section \<open>Keys\<close>

lemma map_res_idem: "map_res f xs = Inr ys \<Longrightarrow> (\<And>x y. x \<in> set xs \<Longrightarrow> f x = Inr y \<Longrightarrow> f y = Inr y) \<Longrightarrow> map_res f ys = Inr ys"
proof (induction xs arbitrary: ys)
  case (Cons x xs)
  then obtain y zs where yz: "f x = Inr y" "map_res f xs = Inr zs" "ys = y # zs" by auto
  then have "f y = Inr y" "map_res f zs = Inr zs" using Cons by (meson list.set_intros)+
  then show ?case using yz by simp
qed simp

lemma hash_key_idem: "hash_key v = Inr k \<Longrightarrow> hash_key k = Inr k"
proof (induction v arbitrary: k rule: hash_key.induct)
  case (3 xs)
  then obtain ks where ks: "k = VTuple ks" "map_res hash_key xs = Inr ks" by auto
  then show ?case using map_res_idem [OF ks(2)] 3(1) by simp
qed (auto split: if_splits)

lemma hash_key_VStr [simp]: "hash_key v = Inr (VStr s) \<longleftrightarrow> v = VStr s"
  by (cases v rule: hash_key.cases) auto

lemma set_key_new: "k \<notin> fst ` set g \<Longrightarrow> set_key g k v = g @ [(k, v)]"
  by (induction g) auto

section \<open>The search for a cycle\<close>

definition deps_of :: "dep_graph \<Rightarrow> pv \<Rightarrow> pv list" where
  "deps_of g k = (case map_of g k of None \<Rightarrow> [] | Some v \<Rightarrow> (case py_iter v of Inl e \<Rightarrow> [] | Inr ds \<Rightarrow> ds))"

definition dep_rel :: "dep_graph \<Rightarrow> pv rel" where
  "dep_rel g = {(k, k'). \<exists>d \<in> set (deps_of g k). hash_key d = Inr k'}"

definition deps_readable :: "dep_graph \<Rightarrow> pv \<Rightarrow> bool" where
  "deps_readable g k \<longleftrightarrow> (\<forall>v. map_of g k = Some v \<longrightarrow> (\<exists>ds. py_iter v = Inr ds \<and> (\<forall>d \<in> set ds. \<exists>k'. hash_key d = Inr k')))"

text \<open>The finished nodes are closed under dependencies and none lies on a cycle.\<close>

definition search_inv :: "dep_graph \<Rightarrow> pv set \<Rightarrow> pv set \<Rightarrow> bool" where
  "search_inv g V S \<longleftrightarrow> S \<subseteq> V \<and> (\<forall>k \<in> V - S. dep_rel g `` {k} \<subseteq> V - S \<and> (k, k) \<notin> (dep_rel g)\<^sup>+ \<and> deps_readable g k)"

lemma iter_deps:
  "py_iter (case map_of g k of None \<Rightarrow> VList [] | Some deps \<Rightarrow> deps) = Inr ds \<Longrightarrow> deps_of g k = ds"
  by (auto simp: deps_of_def split: option.splits)

lemma closed_trancl: "(a, b) \<in> R\<^sup>+ \<Longrightarrow> a \<in> B \<Longrightarrow> (\<And>x. x \<in> B \<Longrightarrow> R `` {x} \<subseteq> B) \<Longrightarrow> b \<in> B"
  by (induction rule: trancl_induct) blast+

lemma finish_inv:
  assumes "search_inv g V (insert k S)" "k \<in> V" "k \<notin> S" "dep_rel g `` {k} \<subseteq> V - insert k S" "deps_readable g k"
  shows "search_inv g V S"
proof -
  let ?B = "V - insert k S"
  have closed: "x \<in> ?B \<Longrightarrow> dep_rel g `` {x} \<subseteq> ?B" for x using assms(1) unfolding search_inv_def by blast
  have "(k, k) \<notin> (dep_rel g)\<^sup>+"
  proof
    assume "(k, k) \<in> (dep_rel g)\<^sup>+"
    then obtain b where "(k, b) \<in> dep_rel g" "b = k \<or> (b, k) \<in> (dep_rel g)\<^sup>+" by (metis converse_tranclE)
    with assms(4) closed_trancl [of b k "dep_rel g" ?B] closed show False by blast
  qed
  then show ?thesis using assms unfolding search_inv_def by blast
qed

lemma search_sound:
  "has_cycle n g node (V, S) = Inr (c, V', S') \<Longrightarrow> search_inv g V S \<Longrightarrow>
     (\<And>k s. hash_key node = Inr k \<Longrightarrow> s \<in> S \<Longrightarrow> (s, k) \<in> (dep_rel g)\<^sup>+) \<Longrightarrow>
     (c \<longrightarrow> \<not> acyclic (dep_rel g))
     \<and> (\<not> c \<longrightarrow> S' = S \<and> V \<subseteq> V' \<and> search_inv g V' S \<and> (\<exists>k. hash_key node = Inr k \<and> k \<in> V' - S))"
  "any_cycle n g ds (V, S) = Inr (c, V', S') \<Longrightarrow> search_inv g V S \<Longrightarrow>
     (\<And>d k s. d \<in> set ds \<Longrightarrow> hash_key d = Inr k \<Longrightarrow> s \<in> S \<Longrightarrow> (s, k) \<in> (dep_rel g)\<^sup>+) \<Longrightarrow>
     (c \<longrightarrow> \<not> acyclic (dep_rel g))
     \<and> (\<not> c \<longrightarrow> S' = S \<and> V \<subseteq> V' \<and> search_inv g V' S \<and> (\<forall>d \<in> set ds. \<exists>k. hash_key d = Inr k \<and> k \<in> V' - S))"
proof (induction n g node "(V, S)" and n g ds "(V, S)" arbitrary: V S c V' S' and V S c V' S'
    rule: has_cycle_any_cycle.induct)
  case (2 n g node V S)
  obtain k where k: "hash_key node = Inr k" using 2(2) by auto
  consider (cycle) "k \<in> S" "c" | (seen) "k \<in> V - S" "\<not> c" "V' = V" "S' = S"
    | (fresh) ds S'' where "k \<notin> V" "k \<notin> S" "deps_of g k = ds"
      "py_iter (case map_of g k of None \<Rightarrow> VList [] | Some deps \<Rightarrow> deps) = Inr ds"
      "any_cycle n g ds (insert k V, insert k S) = Inr (c, V', S'')" "S' = (if c then S'' else S'' - {k})"
    using 2(2) k by (auto split: if_splits dest: iter_deps)
  then show ?case
  proof cases
    case cycle
    then show ?thesis using 2(4) [OF k] by (auto simp: acyclic_def)
  next
    case seen
    then show ?thesis using 2(3) k by blast
  next
    case fresh
    have inv: "search_inv g (insert k V) (insert k S)"
      using 2(3) fresh(1) unfolding search_inv_def by fastforce
    have edges: "d \<in> set ds \<Longrightarrow> hash_key d = Inr k' \<Longrightarrow> (k, k') \<in> dep_rel g" for d k'
      using fresh(3) by (auto simp: dep_rel_def)
    have reach: "(s, k') \<in> (dep_rel g)\<^sup>+" if "d \<in> set ds" "hash_key d = Inr k'" "s \<in> insert k S" for d k' s
      using edges [OF that(1,2)] 2(4) [OF k] that(3) by (blast intro: trancl_into_trancl)
    have ih: "(c \<longrightarrow> \<not> acyclic (dep_rel g)) \<and> (\<not> c \<longrightarrow> S'' = insert k S \<and> insert k V \<subseteq> V' \<and> search_inv g V' (insert k S)
        \<and> (\<forall>d \<in> set ds. \<exists>k'. hash_key d = Inr k' \<and> k' \<in> V' - insert k S))"
      by (rule 2(1) [OF k fresh(2,1,4,5) inv]) (rule reach)
    have "search_inv g V' S \<and> k \<in> V' - S" if nc: "\<not> c"
    proof -
      have ih': "insert k V \<subseteq> V'" "search_inv g V' (insert k S)" "\<forall>d \<in> set ds. \<exists>k'. hash_key d = Inr k' \<and> k' \<in> V' - insert k S"
        using ih nc by auto
      have "dep_rel g `` {k} \<subseteq> V' - insert k S" using ih'(3) fresh(3) by (fastforce simp: dep_rel_def)
      moreover have "deps_readable g k"
        using ih'(3) fresh(4) by (fastforce simp: deps_readable_def)
      ultimately show ?thesis using finish_inv [OF ih'(2) _ fresh(2)] ih'(1) fresh(2) by blast
    qed
    then show ?thesis using ih k fresh(1,2,6) by auto
  qed
next
  case (4 n g d ds V S)
  obtain c1 V1 S1 where h: "has_cycle n g d (V, S) = Inr (c1, V1, S1)"
    using 4(3) by auto
  have ih1: "(c1 \<longrightarrow> \<not> acyclic (dep_rel g))
     \<and> (\<not> c1 \<longrightarrow> S1 = S \<and> V \<subseteq> V1 \<and> search_inv g V1 S \<and> (\<exists>k. hash_key d = Inr k \<and> k \<in> V1 - S))"
    using 4(1) [OF h 4(4)] 4(5) by auto
  show ?case
  proof (cases c1)
    case True
    then show ?thesis using ih1 h 4(3) by auto
  next
    case False
    then have any: "any_cycle n g ds (V1, S) = Inr (c, V', S')" using h 4(3) ih1 by auto
    have "(c \<longrightarrow> \<not> acyclic (dep_rel g)) \<and> (\<not> c \<longrightarrow> S' = S \<and> V1 \<subseteq> V' \<and> search_inv g V' S
        \<and> (\<forall>d \<in> set ds. \<exists>k. hash_key d = Inr k \<and> k \<in> V' - S))"
      by (rule 4(2) [OF h _ False any]) (use ih1 False 4(5) in auto)
    then show ?thesis using ih1 False by auto
  qed
qed auto

lemma search_total:
  "hash_key node = Inr k \<Longrightarrow> (\<And>x. deps_readable g x) \<Longrightarrow> card (fst ` set g - V) < n \<Longrightarrow>
     \<exists>c V' S'. has_cycle n g node (V, S) = Inr (c, V', S') \<and> V \<subseteq> V'"
  "(\<And>d. d \<in> set ds \<Longrightarrow> \<exists>k. hash_key d = Inr k) \<Longrightarrow> (\<And>x. deps_readable g x) \<Longrightarrow> ds \<noteq> [] \<longrightarrow> card (fst ` set g - V) < n \<Longrightarrow>
     \<exists>c V' S'. any_cycle n g ds (V, S) = Inr (c, V', S') \<and> V \<subseteq> V'"
proof (induction n g node "(V, S)" and n g ds "(V, S)" arbitrary: V S k and V S
    rule: has_cycle_any_cycle.induct)
  case (2 n g node V S)
  show ?case
  proof (cases "k \<in> S \<or> k \<in> V")
    case True
    then show ?thesis using 2(2) by auto
  next
    case False
    let ?v = "case map_of g k of None \<Rightarrow> VList [] | Some deps \<Rightarrow> deps"
    obtain ds where ds: "py_iter ?v = Inr ds" "\<forall>d \<in> set ds. \<exists>k'. hash_key d = Inr k'" "map_of g k = None \<longrightarrow> ds = []"
      using 2(3) [of k] by (cases "map_of g k") (auto simp: deps_readable_def)
    have "card (fst ` set g - insert k V) < n" if "ds \<noteq> []"
    proof -
      have "k \<in> fst ` set g - V" using that ds(3) False by (metis Diff_iff map_of_eq_None_iff)
      then have "card (fst ` set g - V - {k}) < card (fst ` set g - V)" by (intro card_Diff1_less) auto
      then show ?thesis using 2(4) by (simp add: Diff_insert [of _ k V])
    qed
    then have "\<exists>c V' S'. any_cycle n g ds (insert k V, insert k S) = Inr (c, V', S') \<and> insert k V \<subseteq> V'"
      using 2(1) [OF 2(2)] False ds(1,2) 2(3) by blast
    then show ?thesis using False 2(2) ds(1) by auto
  qed
next
  case (4 n g d ds V S)
  obtain k where k: "hash_key d = Inr k" using 4(3) by force
  obtain c V' S' where h: "has_cycle n g d (V, S) = Inr (c, V', S')" "V \<subseteq> V'"
    using 4(1) [OF k] 4(4,5) by auto
  show ?case
  proof (cases c)
    case True
    then show ?thesis using h by auto
  next
    case False
    have "card (fst ` set g - V') \<le> card (fst ` set g - V)" using h(2) by (intro card_mono) auto
    then have "\<exists>c V'' S''. any_cycle n g ds (V', S') = Inr (c, V'', S'') \<and> V' \<subseteq> V''"
      using 4(2) [OF h(1) _ False] 4(3,4,5) by auto
    then show ?thesis using h False by auto
  qed
qed auto

lemma check_nodes_sound:
  "check_nodes n g nodes (V, {}) = Inr u \<Longrightarrow> search_inv g V {} \<Longrightarrow>
     \<exists>V'. search_inv g V' {} \<and> V \<subseteq> V' \<and> (\<forall>d \<in> set nodes. \<exists>k \<in> V'. hash_key d = Inr k)"
proof (induction nodes arbitrary: V)
  case (Cons d ds)
  then obtain V1 S1 where h: "has_cycle n g d (V, {}) = Inr (False, V1, S1)" "check_nodes n g ds (V1, S1) = Inr u"
    by (auto split: if_splits)
  from search_sound(1) [OF h(1) Cons.prems(2)]
  have s1: "S1 = {}" "V \<subseteq> V1" "search_inv g V1 {}" "\<exists>k \<in> V1. hash_key d = Inr k" by auto
  then obtain V' where "search_inv g V' {}" "V1 \<subseteq> V'" "\<forall>d \<in> set ds. \<exists>k \<in> V'. hash_key d = Inr k"
    using Cons.IH h(2) by blast
  then show ?case using s1 by auto
qed auto

lemma check_nodes_total:
  "(\<And>x. deps_readable g x) \<Longrightarrow> card (fst ` set g) < n \<Longrightarrow> (\<forall>d \<in> set nodes. \<exists>k. hash_key d = Inr k) \<Longrightarrow>
     search_inv g V {} \<Longrightarrow>
     check_nodes n g nodes (V, {}) = Inr ()
     \<or> check_nodes n g nodes (V, {}) = Inl (ValueError ''E3006: Circular dependency detected'') \<and> \<not> acyclic (dep_rel g)"
proof (induction nodes arbitrary: V)
  case (Cons d ds)
  have "card (fst ` set g - V) < n" using Cons.prems(2) card_mono [of "fst ` set g" "fst ` set g - V"] by auto
  then obtain c V' S' where h: "has_cycle n g d (V, {}) = Inr (c, V', S')"
    using search_total(1) [of d _ g V n "{}"] Cons.prems by force
  from search_sound(1) [OF h Cons.prems(4)] Cons.IH [of V'] Cons.prems h show ?case by auto
qed simp

section \<open>What a valid definition is\<close>

definition key_of :: "pv \<Rightarrow> pv option" where
  "key_of step =
     (case step of
        VDict d \<Rightarrow> (case dget d ''id'' of
                      None \<Rightarrow> None
                    | Some i \<Rightarrow> (case hash_key i of Inl e \<Rightarrow> None | Inr k \<Rightarrow> Some k))
      | _ \<Rightarrow> None)"

definition field_or :: "pv \<Rightarrow> string \<Rightarrow> pv \<Rightarrow> pv" where
  "field_or step k v = (case get_default step k v of Inl e \<Rightarrow> v | Inr w \<Rightarrow> w)"

definition dep_keys :: "pv \<Rightarrow> pv list option" where
  "dep_keys step =
     (case rbind (py_iter (field_or step ''depends_on'' (VList []))) (map_res hash_key) of Inl e \<Rightarrow> None | Inr ks \<Rightarrow> Some ks)"

definition well_formed_steps :: "pv list \<Rightarrow> bool" where
  "well_formed_steps steps \<longleftrightarrow>
     (\<forall>s \<in> set steps. key_of s \<noteq> None \<and> field_or s ''type'' (VStr ''agent'') \<in> VStr ` set VALID_STEP_TYPES)
     \<and> distinct (map key_of steps)"

definition depends :: "pv list \<Rightarrow> pv rel" where
  "depends steps = {(k, k'). \<exists>s \<in> set steps. key_of s = Some k \<and> (\<exists>ks. dep_keys s = Some ks \<and> k' \<in> set ks)}"

lemma key_of_Some: "key_of step = Some k \<longleftrightarrow> (\<exists>d i. step = VDict d \<and> dget d ''id'' = Some i \<and> hash_key i = Inr k)"
  by (auto simp: key_of_def split: pv.splits option.splits sum.splits)

lemma validate_steps_iff:
  "validate_steps ids steps = Inr () \<longleftrightarrow> well_formed_steps steps \<and> (\<forall>s \<in> set steps. \<forall>k \<in> ids. key_of s \<noteq> Some k)"
proof (induction steps arbitrary: ids)
  case (Cons s steps)
  show ?case
  proof (cases "key_of s")
    case None
    have "validate_steps ids (s # steps) \<noteq> Inr ()"
    proof
      assume "validate_steps ids (s # steps) = Inr ()"
      then obtain i k where "subscript s ''id'' = Inr i" "hash_key i = Inr k" by auto
      then show False using None by (cases s) (auto simp: key_of_def)
    qed
    then show ?thesis using None by (simp add: well_formed_steps_def)
  next
    case (Some k)
    then obtain d i where s: "s = VDict d" "dget d ''id'' = Some i" "hash_key i = Inr k" unfolding key_of_Some by blast
    let ?t = "field_or s ''type'' (VStr ''agent'')"
    have t: "get_default s ''type'' (VStr ''agent'') = Inr ?t" using s by (simp add: field_or_def)
    have "validate_steps ids (s # steps) = Inr () \<longleftrightarrow>
        k \<notin> ids \<and> ?t \<in> VStr ` set VALID_STEP_TYPES \<and> validate_steps (insert k ids) steps = Inr ()"
      using s t by (auto simp: dhas_def)
    also have "\<dots> \<longleftrightarrow> well_formed_steps (s # steps) \<and> (\<forall>x \<in> set (s # steps). \<forall>k \<in> ids. key_of x \<noteq> Some k)"
      unfolding Cons.IH using Some by (auto simp: well_formed_steps_def image_iff)
    finally show ?thesis .
  qed
qed (simp add: well_formed_steps_def)

lemma dependency_graph_eq:
  "well_formed_steps steps \<Longrightarrow> (\<forall>s \<in> set steps. \<forall>k \<in> fst ` set g. key_of s \<noteq> Some k) \<Longrightarrow>
     dependency_graph g steps = Inr (g @ map (\<lambda>s. (the (key_of s), field_or s ''depends_on'' (VList []))) steps)"
proof (induction steps arbitrary: g)
  case (Cons s steps)
  obtain k where k: "key_of s = Some k" using Cons.prems(1) by (auto simp: well_formed_steps_def)
  then obtain d i where s: "s = VDict d" "dget d ''id'' = Some i" "hash_key i = Inr k" unfolding key_of_Some by blast
  let ?v = "field_or s ''depends_on'' (VList [])"
  have "set_key g k ?v = g @ [(k, ?v)]" using Cons.prems(2) k by (intro set_key_new) auto
  moreover have "dependency_graph (g @ [(k, ?v)]) steps
      = Inr ((g @ [(k, ?v)]) @ map (\<lambda>s. (the (key_of s), field_or s ''depends_on'' (VList []))) steps)"
    using Cons.prems k by (intro Cons.IH) (auto simp: well_formed_steps_def image_iff)
  moreover have "get_default s ''depends_on'' (VList []) = Inr ?v" using s by (simp add: field_or_def)
  ultimately show ?case using k s by simp
qed simp

definition step_graph :: "pv list \<Rightarrow> dep_graph" where
  "step_graph steps = map (\<lambda>s. (the (key_of s), field_or s ''depends_on'' (VList []))) steps"

lemma step_graph_distinct:
  assumes "well_formed_steps steps"
  shows "distinct (map fst (step_graph steps))" "card (fst ` set (step_graph steps)) = length steps"
proof -
  have "map key_of steps = map Some (map fst (step_graph steps))"
    using assms by (auto simp: well_formed_steps_def step_graph_def)
  moreover have "distinct (map key_of steps)" using assms by (simp add: well_formed_steps_def)
  ultimately show d: "distinct (map fst (step_graph steps))" by (metis distinct_map)
  show "card (fst ` set (step_graph steps)) = length steps"
    using distinct_card [OF d] by (simp add: step_graph_def image_image)
qed

lemma step_graph_map_of:
  assumes "well_formed_steps steps"
  shows "map_of (step_graph steps) k = Some v \<longleftrightarrow> (\<exists>s \<in> set steps. key_of s = Some k \<and> v = field_or s ''depends_on'' (VList []))"
proof -
  have "map_of (step_graph steps) k = Some v \<longleftrightarrow> (k, v) \<in> set (step_graph steps)"
    using step_graph_distinct(1) [OF assms] by (simp add: map_of_eq_Some_iff)
  then show ?thesis using assms by (force simp: step_graph_def well_formed_steps_def)
qed

lemma dep_keys_Some:
  "dep_keys s = Some ks \<longleftrightarrow> (\<exists>ds. py_iter (field_or s ''depends_on'' (VList [])) = Inr ds \<and> map_res hash_key ds = Inr ks)"
  by (auto simp: dep_keys_def split: sum.splits)

lemma map_res_hashes: "map_res hash_key ds = Inr ks \<Longrightarrow> k \<in> set ks \<longleftrightarrow> (\<exists>d \<in> set ds. hash_key d = Inr k)"
  by (induction ds arbitrary: ks) auto

lemma hashes_iff: "(\<exists>ks. map_res hash_key ds = Inr ks) \<longleftrightarrow> (\<forall>d \<in> set ds. \<exists>k. hash_key d = Inr k)"
  by (induction ds) auto

lemma dep_keys_readable:
  assumes "well_formed_steps steps"
  shows "(\<forall>k. deps_readable (step_graph steps) k) \<longleftrightarrow> (\<forall>s \<in> set steps. dep_keys s \<noteq> None)"
proof -
  have "dep_keys s \<noteq> None \<longleftrightarrow> (\<exists>ds. py_iter (field_or s ''depends_on'' (VList [])) = Inr ds \<and> (\<forall>d \<in> set ds. \<exists>k. hash_key d = Inr k))" for s
    unfolding not_None_eq dep_keys_Some by (meson hashes_iff)
  then show ?thesis
    using assms unfolding deps_readable_def step_graph_map_of [OF assms] by (force simp: well_formed_steps_def)
qed

lemma dep_rel_depends:
  assumes "well_formed_steps steps" "\<forall>s \<in> set steps. dep_keys s \<noteq> None"
  shows "dep_rel (step_graph steps) = depends steps"
proof -
  have "(\<exists>d \<in> set (deps_of (step_graph steps) k). hash_key d = Inr k') \<longleftrightarrow>
      (\<exists>s \<in> set steps. key_of s = Some k \<and> (\<exists>ks. dep_keys s = Some ks \<and> k' \<in> set ks))" for k k'
  proof (cases "map_of (step_graph steps) k")
    case None
    then have "\<not> (\<exists>s \<in> set steps. key_of s = Some k)" using step_graph_map_of [OF assms(1), of k] by auto
    then show ?thesis using None by (auto simp: deps_of_def)
  next
    case (Some v)
    then obtain s where s: "s \<in> set steps" "key_of s = Some k" "v = field_or s ''depends_on'' (VList [])"
      unfolding step_graph_map_of [OF assms(1)] by blast
    have uniq: "t = s" if "t \<in> set steps" "key_of t = Some k" for t
      using that s(1,2) assms(1) by (metis distinct_map inj_onD well_formed_steps_def)
    obtain ks where ks: "dep_keys s = Some ks" using assms(2) s(1) by blast
    then obtain ds where "py_iter v = Inr ds" "map_res hash_key ds = Inr ks" unfolding dep_keys_Some s(3) by blast
    moreover from this have "deps_of (step_graph steps) k = ds" by (simp add: deps_of_def Some)
    ultimately have "(\<exists>d \<in> set (deps_of (step_graph steps) k). hash_key d = Inr k') \<longleftrightarrow> k' \<in> set ks"
      by (simp add: map_res_hashes)
    then show ?thesis using s(1,2) uniq ks by (metis option.inject)
  qed
  then show ?thesis unfolding dep_rel_def depends_def by blast
qed

lemma keys_hash: "well_formed_steps steps \<Longrightarrow> k \<in> set (map fst (step_graph steps)) \<Longrightarrow> hash_key k = Inr k"
proof -
  assume "well_formed_steps steps" "k \<in> set (map fst (step_graph steps))"
  then obtain s where "key_of s = Some k" by (auto simp: step_graph_def well_formed_steps_def)
  then show ?thesis by (auto simp: key_of_Some intro: hash_key_idem)
qed

lemma validate_definition_spec:
  assumes "dget d ''steps'' = Some v" "py_iter v = Inr steps" "length steps < depth"
  shows "(validate_definition depth (VDict d) = Inr () \<longleftrightarrow>
      well_formed_steps steps \<and> (\<forall>s \<in> set steps. dep_keys s \<noteq> None) \<and> acyclic (depends steps))
    \<and> (well_formed_steps steps \<and> (\<forall>s \<in> set steps. dep_keys s \<noteq> None) \<and> \<not> acyclic (depends steps) \<longrightarrow>
         validate_definition depth (VDict d) = Inl (ValueError ''E3006: Circular dependency detected''))"
proof (cases "well_formed_steps steps")
  case False
  then have "validate_definition depth (VDict d) \<noteq> Inr ()"
    using assms(1,2) validate_steps_iff [of "{}" steps] by (auto simp: validate_definition_def)
  then show ?thesis using False by blast
next
  case True
  let ?g = "step_graph steps"
  have val: "validate_steps {} steps = Inr ()" using True validate_steps_iff by blast
  have chk: "validate_definition depth (VDict d) = check_nodes depth ?g (map fst ?g) ({}, {})"
    using assms(1,2) val dependency_graph_eq [OF True, of "[]"]
    by (simp add: validate_definition_def dhas_def dindex_def check_circular_def step_graph_def)
  have start: "search_inv ?g {} {}" by (simp add: search_inv_def)
  have acc: "(\<forall>s \<in> set steps. dep_keys s \<noteq> None) \<and> acyclic (depends steps)"
    if ok: "check_nodes depth ?g (map fst ?g) ({}, {}) = Inr ()"
  proof -
    obtain V where V: "search_inv ?g V {}" "\<forall>k \<in> set (map fst ?g). k \<in> V"
      using check_nodes_sound [OF ok start] keys_hash [OF True] by force
    then have read: "deps_readable ?g k" for k
      by (cases "k \<in> V") (auto simp: search_inv_def deps_readable_def map_of_eq_Some_iff dest!: map_of_SomeD)
    have "k \<in> V" if "(k, k') \<in> dep_rel ?g" for k k'
      using that V(2) by (cases "map_of ?g k") (auto simp: dep_rel_def deps_of_def dest!: map_of_SomeD)
    then have "acyclic (dep_rel ?g)"
      using V(1) by (auto simp: acyclic_def search_inv_def) (metis tranclD)
    then show ?thesis using read dep_keys_readable [OF True] dep_rel_depends [OF True] by metis
  qed
  have "check_nodes depth ?g (map fst ?g) ({}, {}) = Inr () \<or>
      check_nodes depth ?g (map fst ?g) ({}, {}) = Inl (ValueError ''E3006: Circular dependency detected'')
        \<and> \<not> acyclic (depends steps)" if "\<forall>s \<in> set steps. dep_keys s \<noteq> None"
    using check_nodes_total [of ?g depth "map fst ?g" "{}"] that dep_keys_readable [OF True] keys_hash [OF True]
      step_graph_distinct(2) [OF True] assms(3) start dep_rel_depends [OF True that] by metis
  then show ?thesis using acc chk True by auto
qed

section \<open>Properties\<close>

text \<open>C18: exactly the sound definitions are accepted: each step has a hashable id of its own and a known
  type, its dependencies can be read, and no step depends on itself through others. A definition
  that fails only by a circular dependency is refused with that error. The search needs a
  recursion depth of one more than there are steps.\<close>
theorem definition_accepted_iff:
  assumes "dget d ''steps'' = Some v" "py_iter v = Inr steps" "length steps < depth"
  shows "(validate_definition depth (VDict d) = Inr () \<longleftrightarrow>
      well_formed_steps steps \<and> (\<forall>s \<in> set steps. dep_keys s \<noteq> None) \<and> acyclic (depends steps))
    \<and> (well_formed_steps steps \<and> (\<forall>s \<in> set steps. dep_keys s \<noteq> None) \<and> \<not> acyclic (depends steps) \<longrightarrow>
         validate_definition depth (VDict d) = Inl (ValueError ''E3006: Circular dependency detected''))"
  using validate_definition_spec [OF assms] .

definition sample_definition :: "pv dict" where
  "sample_definition = [(''steps'', VList
     [VDict [(''id'', VStr ''pay''), (''depends_on'', VList [VStr ''check''])],
      VDict [(''id'', VStr ''check''), (''type'', VStr ''condition''), (''depends_on'', VList [VStr ''pay''])]])]"

theorem definition_accepted_iff_witness:
  "\<not> acyclic (depends [VDict [(''id'', VStr ''pay''), (''depends_on'', VList [VStr ''check''])],
      VDict [(''id'', VStr ''check''), (''type'', VStr ''condition''), (''depends_on'', VList [VStr ''pay''])]])"
proof -
  let ?steps = "[VDict [(''id'', VStr ''pay''), (''depends_on'', VList [VStr ''check''])],
      VDict [(''id'', VStr ''check''), (''type'', VStr ''condition''), (''depends_on'', VList [VStr ''pay''])]]"
  have "dget sample_definition ''steps'' = Some (VList ?steps)" "py_iter (VList ?steps) = Inr ?steps"
    by (simp_all add: sample_definition_def)
  from definition_accepted_iff [OF this, of 3]
  have iff: "validate_definition 3 (VDict sample_definition) = Inr () \<longleftrightarrow>
      well_formed_steps ?steps \<and> (\<forall>s \<in> set ?steps. dep_keys s \<noteq> None) \<and> acyclic (depends ?steps)" by simp
  have "isl (validate_definition 3 (VDict sample_definition))" by code_simp
  moreover have "well_formed_steps ?steps" by code_simp
  moreover have "\<forall>s \<in> set ?steps. dep_keys s \<noteq> None" by code_simp
  ultimately show ?thesis using iff by fastforce
qed

end
