(* ===== verification/Workflow_Order.thy ===== *)
theory Workflow_Order
  imports Workflow_Parser
begin

text \<open>
  The steps of a run and the order they are executed in (\<open>workflows/engine.py\<close>): the fallback and
  retry directives of \<open>on_failure\<close> and Kahn's algorithm over \<open>depends_on\<close> and the fallbacks. A run's
  definition is stored as JSON, so here the ids and dependencies of its steps are strings.
\<close>

section \<open>Steps\<close>

text \<open>The fields of a step the engine reads; the handlers read \<open>ws_fields\<close>, all of them.\<close>

record wf_step =
  ws_id :: string
  ws_type :: string
  ws_depends_on :: "string list"
  ws_on_failure :: string
  ws_optional :: bool
  ws_allow_failure :: bool
  ws_true_path :: "string option"
  ws_false_path :: "string option"
  ws_fields :: "pv dict"

fun string_of :: "pv \<Rightarrow> string option" where
  "string_of (VStr s) = Some s"
| "string_of _ = None"

text \<open>The step a JSON object denotes, when its id, type, directive and dependencies are strings.\<close>

definition step_of :: "pv \<Rightarrow> wf_step option" where
  "step_of v =
     (case v of
        VDict d \<Rightarrow>
          (case (string_of (vget d ''id''), string_of (field_or v ''type'' (VStr ''agent'')),
                 string_of (field_or v ''on_failure'' (VStr [])), py_iter (field_or v ''depends_on'' (VList []))) of
             (Some i, Some t, Some f, Inr ds) \<Rightarrow>
               if None \<in> set (map string_of ds) then None
               else Some \<lparr> ws_id = i, ws_type = t, ws_depends_on = map (\<lambda>x. the (string_of x)) ds, ws_on_failure = f,
                 ws_optional = (vget d ''optional'' = VBool True),
                 ws_allow_failure = (vget d ''allow_failure'' = VBool True),
                 ws_true_path = string_of (vget d ''true_path''), ws_false_path = string_of (vget d ''false_path''),
                 ws_fields = d \<rparr>
           | _ \<Rightarrow> None)
      | _ \<Rightarrow> None)"

section \<open>Directives\<close>

text \<open>\<open>fallback\(\s*([A-Za-z0-9_.-]+)\s*\)\<close>: the first occurrence in the text.\<close>

definition target_char :: "char \<Rightarrow> bool" where
  "target_char c \<longleftrightarrow> is_lower_ascii c \<or> is_upper_ascii c \<or> is_digit c \<or> c \<in> set ''_.-''"

definition fallback_at :: "string \<Rightarrow> string option" where
  "fallback_at s =
     (if \<not> prefix ''fallback('' s then None
      else let s1 = dropWhile is_space (drop 9 s);
               target = takeWhile target_char s1;
               s2 = dropWhile is_space (dropWhile target_char s1)
           in if target \<noteq> [] \<and> prefix '')'' s2 then Some target else None)"

fun search_fallback :: "string \<Rightarrow> string option" where
  "search_fallback [] = None"
| "search_fallback (c # s) = (case fallback_at (c # s) of Some t \<Rightarrow> Some t | None \<Rightarrow> search_fallback s)"

definition fallback_target :: "wf_step \<Rightarrow> string option" where
  "fallback_target step = search_fallback (ws_on_failure step)"

definition fallback_sources :: "string \<Rightarrow> wf_step list \<Rightarrow> string list" where
  "fallback_sources step_id steps =
     map ws_id (filter (\<lambda>s. ws_id s \<noteq> step_id \<and> fallback_target s = Some step_id) steps)"

text \<open>\<open>retry\((\d+)\)\<close> at the start of the text: the count and the rest.\<close>

definition retry_at :: "string \<Rightarrow> (nat \<times> string) option" where
  "retry_at s =
     (if \<not> prefix ''retry('' s then None
      else let digits = takeWhile is_digit (drop 6 s); rest = dropWhile is_digit (drop 6 s)
           in if digits \<noteq> [] \<and> prefix '')'' rest then Some (digits_val digits 0, drop 1 rest) else None)"

definition parse_retry_count :: "string \<Rightarrow> nat" where
  "parse_retry_count on_failure =
     (if on_failure = [] then 0 else case retry_at (strip on_failure) of None \<Rightarrow> 0 | Some (n, rest) \<Rightarrow> n)"

lemma retry_at_shorter: "retry_at s = Some (n, rest) \<Longrightarrow> length rest < length s"
proof -
  assume a: "retry_at s = Some (n, rest)"
  then have "prefix ''retry('' s" "rest = drop 1 (dropWhile is_digit (drop 6 s))"
    by (auto simp: retry_at_def Let_def split: if_splits)
  moreover have "length (dropWhile is_digit (drop 6 s)) \<le> length s - 6" by (metis length_dropWhile_le length_drop)
  ultimately show ?thesis by (auto dest: prefix_length_le)
qed

function drop_retries :: "string \<Rightarrow> string" where
  "drop_retries s =
     (case s of
        [] \<Rightarrow> []
      | c # s' \<Rightarrow> (case retry_at s of Some (n, rest) \<Rightarrow> drop_retries rest | None \<Rightarrow> c # drop_retries s'))"
  by pat_completeness auto
termination by (relation "measure length") (auto dest: retry_at_shorter)

declare drop_retries.simps [simp del]

text \<open>The words of a text: its maximal runs of the characters \<open>[a-z_]\<close>.\<close>

fun words_of :: "string \<Rightarrow> string \<Rightarrow> string list" where
  "words_of acc [] = (if acc = [] then [] else [acc])"
| "words_of acc (c # s) =
     (if is_lower_ascii c \<or> c = CHR ''_'' then words_of (acc @ [c]) s
      else (if acc = [] then words_of [] s else acc # words_of [] s))"

definition step_allows_failure :: "wf_step \<Rightarrow> bool" where
  "step_allows_failure step \<longleftrightarrow>
     ws_optional step \<or> ws_allow_failure step
     \<or> list_ex (\<lambda>w. w \<in> {''continue'', ''ignore'', ''optional''})
         (words_of [] (drop_retries (lower (strip (ws_on_failure step)))))
     \<or> fallback_target step \<noteq> None"

section \<open>The execution order\<close>

definition build_step_index :: "wf_step list \<Rightarrow> wf_step dict" where
  "build_step_index steps = dict_of (map (\<lambda>s. (ws_id s, s)) steps)"

text \<open>\<open>graph[u].append(v); in_degree[v] += 1\<close> on the two dictionaries.\<close>

type_synonym order_graph = "string list dict \<times> int dict"

definition add_edge :: "string \<Rightarrow> string \<Rightarrow> order_graph \<Rightarrow> (py_error, order_graph) res" where
  "add_edge u v gd =
     rbind (dindex (fst gd) u) (\<lambda>out.
     rbind (dindex (snd gd) v) (\<lambda>n.
       Inr (dset (fst gd) u (out @ [v]), dset (snd gd) v (n + 1))))"

definition edges_of :: "string set \<Rightarrow> wf_step \<Rightarrow> (string \<times> string) list" where
  "edges_of step_set step =
     map (\<lambda>dep. (dep, ws_id step)) (filter (\<lambda>dep. dep \<in> step_set) (ws_depends_on step))
     @ (case fallback_target step of
          None \<Rightarrow> []
        | Some f \<Rightarrow> if f \<in> step_set \<and> f \<noteq> ws_id step then [(ws_id step, f)] else [])"

fun add_edges :: "(string \<times> string) list \<Rightarrow> order_graph \<Rightarrow> (py_error, order_graph) res" where
  "add_edges [] gd = Inr gd"
| "add_edges ((u, v) # es) gd = rbind (add_edge u v gd) (add_edges es)"

definition build_graph :: "wf_step list \<Rightarrow> (py_error, order_graph) res" where
  "build_graph steps =
     add_edges (concat (map (edges_of (set (map ws_id steps))) steps))
       (dict_of (map (\<lambda>s. (ws_id s, [])) steps), dict_of (map (\<lambda>s. (ws_id s, 0)) steps))"

text \<open>The neighbours of a node that was taken lose one predecessor each; those left with none are queued.\<close>

fun relax :: "string list \<Rightarrow> string list \<Rightarrow> int dict \<Rightarrow> (py_error, string list \<times> int dict) res" where
  "relax [] queue deg = Inr (queue, deg)"
| "relax (v # vs) queue deg =
     rbind (dindex deg v) (\<lambda>n.
       relax vs (if n - 1 = 0 then queue @ [v] else queue) (dset deg v (n - 1)))"

definition waiting :: "int dict \<Rightarrow> nat" where
  "waiting deg = length (filter (\<lambda>(k, n). 0 < n) deg)"

lemma waiting_dset: "dget deg v = Some n \<Longrightarrow> waiting (dset deg v (n - 1)) + (if n - 1 = 0 then 1 else 0) \<le> waiting deg"
  by (induction deg) (auto simp: waiting_def split: if_splits)

lemma relax_measure: "relax vs queue deg = Inr (queue', deg') \<Longrightarrow> length queue' + waiting deg' \<le> length queue + waiting deg"
proof (induction vs arbitrary: queue deg)
  case (Cons v vs)
  then obtain n where "dget deg v = Some n"
    "relax vs (if n - 1 = 0 then queue @ [v] else queue) (dset deg v (n - 1)) = Inr (queue', deg')" by auto
  then show ?case using Cons.IH waiting_dset [of deg v n] by (fastforce split: if_splits)
qed simp

function kahn :: "string list dict \<Rightarrow> string list \<Rightarrow> int dict \<Rightarrow> string list \<Rightarrow> (py_error, string list) res" where
  "kahn graph queue deg order =
     (case queue of
        [] \<Rightarrow> Inr order
      | node # rest \<Rightarrow>
          rbind (dindex graph node) (\<lambda>out.
          rbind (relax out rest deg) (\<lambda>(queue', deg'). kahn graph queue' deg' (order @ [node]))))"
  by pat_completeness auto
termination
  by (relation "measure (\<lambda>(graph, queue, deg, order). length queue + waiting deg)") (auto dest!: relax_measure)

declare kahn.simps [simp del]

definition topological_sort :: "wf_step list \<Rightarrow> (py_error, string list) res" where
  "topological_sort steps =
     rbind (build_graph steps) (\<lambda>(graph, deg).
     rbind (map_res (\<lambda>i. rbind (dindex deg i) (\<lambda>n. Inr (n = 0, i))) (map ws_id steps)) (\<lambda>seeds.
     rbind (kahn graph (map snd (filter fst seeds)) deg []) (\<lambda>order.
       if length order \<noteq> length steps then Inl (ValueError ''Circular dependency detected in workflow steps'')
       else Inr order)))"

section \<open>The graph\<close>

definition out_of :: "(string \<times> string) list \<Rightarrow> string \<Rightarrow> string list" where
  "out_of es u = map snd (filter (\<lambda>e. fst e = u) es)"

definition remaining :: "(string \<times> string) list \<Rightarrow> string set \<Rightarrow> string \<Rightarrow> int" where
  "remaining es P v = int (length (filter (\<lambda>e. snd e = v \<and> fst e \<notin> P) es))"

definition order_edges :: "wf_step list \<Rightarrow> (string \<times> string) list" where
  "order_edges steps = concat (map (edges_of (set (map ws_id steps))) steps)"

lemma add_edges_spec:
  "\<forall>(u, v) \<in> set es. dhas (fst gd) u \<and> dhas (snd gd) v \<Longrightarrow>
     \<exists>gd'. add_edges es gd = Inr gd'
       \<and> (\<forall>u. dget (fst gd') u = map_option (\<lambda>out. out @ out_of es u) (dget (fst gd) u))
       \<and> (\<forall>v. dget (snd gd') v = map_option (\<lambda>n. n + remaining es {} v) (dget (snd gd) v))"
proof (induction es arbitrary: gd)
  case Nil
  then show ?case by (simp add: out_of_def remaining_def option.map_id [unfolded id_def])
next
  case (Cons e es)
  obtain u v where e: "e = (u, v)" by force
  obtain out n where out: "dget (fst gd) u = Some out" "dget (snd gd) v = Some n"
    using Cons.prems e by (auto simp: dhas_def)
  let ?gd = "(dset (fst gd) u (out @ [v]), dset (snd gd) v (n + 1))"
  have step: "add_edge u v gd = Inr ?gd" using out by (simp add: add_edge_def dindex_def)
  obtain gd' where gd': "add_edges es ?gd = Inr gd'"
    "\<forall>w. dget (fst gd') w = map_option (\<lambda>out. out @ out_of es w) (dget (fst ?gd) w)"
    "\<forall>w. dget (snd gd') w = map_option (\<lambda>n. n + remaining es {} w) (dget (snd ?gd) w)"
    using Cons.IH [of ?gd] Cons.prems by fastforce
  have "dget (fst gd') w = map_option (\<lambda>out. out @ out_of (e # es) w) (dget (fst gd) w)" for w
    using gd'(2) out(1) e by (simp add: out_of_def)
  moreover have "dget (snd gd') w = map_option (\<lambda>n. n + remaining (e # es) {} w) (dget (snd gd) w)" for w
    using gd'(3) out(2) e by (simp add: remaining_def)
  ultimately show ?case using gd'(1) step e by auto
qed

lemma relax_spec:
  "\<forall>v \<in> set vs. \<exists>n. dget deg v = Some n \<and> int (count_list vs v) \<le> n \<Longrightarrow>
     \<exists>new deg'. relax vs queue deg = Inr (queue @ new, deg') \<and> distinct new
       \<and> set new = {v \<in> set vs. dget deg v = Some (int (count_list vs v))}
       \<and> (\<forall>v. dget deg' v = map_option (\<lambda>n. n - int (count_list vs v)) (dget deg v))"
proof (induction vs arbitrary: queue deg)
  case Nil
  then show ?case by (simp add: option.map_id [unfolded id_def])
next
  case (Cons v vs)
  obtain n where n: "dget deg v = Some n" "int (count_list vs v) + 1 \<le> n" using Cons.prems by auto
  let ?deg = "dset deg v (n - 1)" and ?queue = "if n - 1 = 0 then queue @ [v] else queue"
  have "\<forall>w \<in> set vs. \<exists>m. dget ?deg w = Some m \<and> int (count_list vs w) \<le> m"
    using Cons.prems n by (auto split: if_splits)
  then obtain new deg' where ih: "relax vs ?queue ?deg = Inr (?queue @ new, deg')" "distinct new"
      "set new = {w \<in> set vs. dget ?deg w = Some (int (count_list vs w))}"
      "\<forall>w. dget deg' w = map_option (\<lambda>m. m - int (count_list vs w)) (dget ?deg w)"
    using Cons.IH by blast
  let ?new = "(if n - 1 = 0 then [v] else []) @ new"
  have absent: "v \<notin> set vs" if "n - 1 = 0"
  proof -
    have "count_list vs v = 0" using n(2) that by simp
    then show ?thesis by (simp add: count_list_0_iff)
  qed
  have "relax (v # vs) queue deg = Inr (queue @ ?new, deg')" using ih(1) n(1) by (simp add: dindex_def)
  moreover have "distinct ?new" using ih(2,3) absent by auto
  moreover have mem: "w \<in> set ?new \<longleftrightarrow> w \<in> set (v # vs) \<and> dget deg w = Some (int (count_list (v # vs) w))" for w
  proof (cases "w = v")
    case True
    have new: "v \<in> set new \<longleftrightarrow> v \<in> set vs \<and> n - 1 = int (count_list vs v)" unfolding ih(3) by simp
    show ?thesis
    proof (cases "n - 1 = 0")
      case one: True
      then show ?thesis using True n(1) absent by (simp add: count_notin)
    next
      case more: False
      then have "v \<in> set vs" if "n - 1 = int (count_list vs v)" using that count_notin [of v vs] by fastforce
      then show ?thesis using True n(1) more new by auto
    qed
  next
    case False
    then show ?thesis unfolding set_append ih(3) by simp
  qed
  then have "set ?new = {w \<in> set (v # vs). dget deg w = Some (int (count_list (v # vs) w))}" by blast
  moreover have "\<forall>w. dget deg' w = map_option (\<lambda>m. m - int (count_list (v # vs) w)) (dget deg w)"
    using ih(4) n(1) by auto
  ultimately show ?case by blast
qed

lemma remaining_insert:
  "u \<notin> P \<Longrightarrow> remaining es P v = remaining es (insert u P) v + int (count_list (out_of es u) v)"
  by (induction es) (auto simp: remaining_def out_of_def)

lemma remaining_0: "remaining es P v = 0 \<longleftrightarrow> (\<forall>u. (u, v) \<in> set es \<longrightarrow> u \<in> P)"
  by (auto simp: remaining_def filter_empty_conv)

section \<open>Kahn's algorithm\<close>

definition preds_first :: "(string \<times> string) list \<Rightarrow> string list \<Rightarrow> bool" where
  "preds_first es order \<longleftrightarrow> (\<forall>ys v zs. order = ys @ v # zs \<longrightarrow> (\<forall>u. (u, v) \<in> set es \<longrightarrow> u \<in> set ys))"

text \<open>Taken and queued nodes are those with no predecessor left, and each was taken after its predecessors.\<close>

definition kahn_inv :: "(string \<times> string) list \<Rightarrow> string set \<Rightarrow> string list \<Rightarrow> int dict \<Rightarrow> string list \<Rightarrow> bool" where
  "kahn_inv es N queue deg order \<longleftrightarrow>
     distinct (order @ queue) \<and> set (order @ queue) \<subseteq> N \<and> preds_first es order
     \<and> (\<forall>v \<in> N. dget deg v = Some (remaining es (set order) v)
          \<and> (v \<in> set (order @ queue) \<longleftrightarrow> remaining es (set order) v = 0))"

lemma preds_first_snoc:
  "preds_first es order \<Longrightarrow> (\<And>u. (u, v) \<in> set es \<Longrightarrow> u \<in> set order) \<Longrightarrow> preds_first es (order @ [v])"
  unfolding preds_first_def by (auto simp: append_eq_append_conv2 Cons_eq_append_conv append_eq_Cons_conv)

lemma out_of_count: "int (count_list (out_of es u) v) \<le> remaining es P v" if "u \<notin> P"
  using remaining_insert [OF that, of es v] by (simp add: remaining_def)

lemma kahn_step:
  assumes inv: "kahn_inv es N (node # rest) deg order" and es: "set es \<subseteq> N \<times> N"
  shows "\<exists>queue' deg'. relax (out_of es node) rest deg = Inr (queue', deg') \<and> kahn_inv es N queue' deg' (order @ [node])"
proof -
  let ?vs = "out_of es node" and ?P = "set order"
  have node: "node \<notin> ?P" "node \<in> N" "remaining es ?P node = 0" using inv by (auto simp: kahn_inv_def)
  have deg: "v \<in> N \<Longrightarrow> dget deg v = Some (remaining es ?P v)" for v using inv by (simp add: kahn_inv_def)
  have vs: "set ?vs \<subseteq> N" using es by (auto simp: out_of_def)
  have "\<forall>v \<in> set ?vs. \<exists>n. dget deg v = Some n \<and> int (count_list ?vs v) \<le> n"
    using deg vs out_of_count [OF node(1)] by blast
  then obtain new deg' where r: "relax ?vs rest deg = Inr (rest @ new, deg')" "distinct new"
      "set new = {v \<in> set ?vs. dget deg v = Some (int (count_list ?vs v))}"
      "\<forall>v. dget deg' v = map_option (\<lambda>n. n - int (count_list ?vs v)) (dget deg v)"
    using relax_spec by blast
  have rem: "remaining es (insert node ?P) v = remaining es ?P v - int (count_list ?vs v)" for v
    using remaining_insert [OF node(1), of es v] by simp
  have new: "v \<in> set new \<longleftrightarrow> v \<in> N \<and> remaining es ?P v \<noteq> 0 \<and> remaining es (insert node ?P) v = 0" for v
  proof -
    have "v \<in> set ?vs \<longleftrightarrow> count_list ?vs v \<noteq> 0" by (simp add: count_list_0_iff)
    then show ?thesis using r(3) deg [of v] vs rem [of v] by auto
  qed
  have old: "v \<in> N \<Longrightarrow> v \<in> set (order @ node # rest) \<longleftrightarrow> remaining es ?P v = 0" for v
    using inv by (simp add: kahn_inv_def)
  have mono: "remaining es ?P v = 0 \<Longrightarrow> remaining es (insert node ?P) v = 0" for v
    unfolding remaining_0 by blast
  have "distinct ((order @ [node]) @ rest @ new)" "set ((order @ [node]) @ rest @ new) \<subseteq> N"
    using inv r(2) new old by (auto simp: kahn_inv_def)
  moreover have "preds_first es (order @ [node])"
    using inv node(3) by (intro preds_first_snoc) (auto simp: kahn_inv_def remaining_0)
  moreover have "dget deg' v = Some (remaining es (set (order @ [node])) v)" if "v \<in> N" for v
    using deg [OF that] r(4) rem by simp
  moreover have "v \<in> set ((order @ [node]) @ rest @ new) \<longleftrightarrow> remaining es (set (order @ [node])) v = 0" if "v \<in> N" for v
    using old [OF that] new [of v] mono [of v] that by auto
  ultimately show ?thesis using r(1) unfolding kahn_inv_def by blast
qed

lemma kahn_correct:
  assumes "kahn_inv es N queue deg order" "set es \<subseteq> N \<times> N" "\<forall>u \<in> N. dget graph u = Some (out_of es u)"
  shows "\<exists>deg' order'. kahn graph queue deg order = Inr order' \<and> kahn_inv es N [] deg' order'"
  using assms
proof (induction graph queue deg order rule: kahn.induct)
  case (1 graph queue deg order)
  show ?case
  proof (cases queue)
    case Nil
    then show ?thesis using 1(2) by (subst kahn.simps) auto
  next
    case (Cons node rest)
    have g: "dindex graph node = Inr (out_of es node)" using 1(2,4) Cons by (auto simp: kahn_inv_def)
    obtain queue' deg' where r: "relax (out_of es node) rest deg = Inr (queue', deg')"
        "kahn_inv es N queue' deg' (order @ [node])"
      using kahn_step [OF 1(2) [unfolded Cons] 1(3)] by blast
    have "\<exists>deg'' order'. kahn graph queue' deg' (order @ [node]) = Inr order' \<and> kahn_inv es N [] deg'' order'"
      using 1(1) [OF Cons g r(1) refl r(2) 1(3,4)] .
    then show ?thesis using Cons g r(1) by (subst kahn.simps) auto
  qed
qed

lemma acyclic_covers:
  assumes "kahn_inv es N [] deg order" "set es \<subseteq> N \<times> N" "acyclic (set es)"
  shows "N \<subseteq> set order"
proof (rule ccontr)
  assume "\<not> N \<subseteq> set order"
  then obtain x where x: "x \<in> N - set order" by blast
  have "wf (set es)" using assms(3) by (intro finite_acyclic_wf) auto
  then obtain v where v: "v \<in> N - set order" "\<And>u. (u, v) \<in> set es \<Longrightarrow> u \<notin> N - set order"
    using x wfE_min by metis
  then have "remaining es (set order) v \<noteq> 0" using assms(1) by (auto simp: kahn_inv_def)
  then show False using v(2) assms(2) by (auto simp: remaining_0)
qed

definition position :: "string list \<Rightarrow> string \<Rightarrow> nat" where
  "position xs x = length (takeWhile (\<lambda>y. y \<noteq> x) xs)"

lemma position_less: "a \<in> set ys \<Longrightarrow> b \<notin> set ys \<Longrightarrow> position (ys @ b # zs) a < position (ys @ b # zs) b"
proof -
  assume a: "a \<in> set ys" "b \<notin> set ys"
  have "position (ys @ b # zs) b = length ys" using a(2) by (induction ys) (auto simp: position_def)
  moreover have "position (ys @ b # zs) a < length ys"
    using a(1) by (induction ys) (auto simp: position_def)
  ultimately show ?thesis by simp
qed

lemma preds_first_position:
  assumes "distinct order" "preds_first es order" "(u, v) \<in> set es" "v \<in> set order"
  shows "u \<in> set order \<and> position order u < position order v"
proof -
  obtain ys zs where o: "order = ys @ v # zs" using assms(4) by (meson split_list)
  then have "u \<in> set ys" "v \<notin> set ys" using assms(1-3) by (auto simp: preds_first_def)
  then show ?thesis using position_less o by auto
qed

lemma preds_first_acyclic:
  assumes "distinct order" "preds_first es order" "snd ` set es \<subseteq> set order"
  shows "acyclic (set es)"
proof -
  have "set es \<subseteq> measure (position order)"
    using preds_first_position [OF assms(1,2)] assms(3) by (auto simp: image_subset_iff)
  then show ?thesis by (meson acyclic_subset wf_acyclic wf_measure)
qed

lemma dict_of_dget: "dget (dict_of (map (\<lambda>s. (f s, c)) xs)) k = (if k \<in> f ` set xs then Some c else None)"
proof -
  have "dget (foldl (\<lambda>d (k, v). dset d k v) d (map (\<lambda>s. (f s, c)) xs)) k = (if k \<in> f ` set xs then Some c else dget d k)" for d
    by (induction xs arbitrary: d) auto
  then show ?thesis by (simp add: dict_of_def)
qed

lemma order_edges_nodes: "set (order_edges steps) \<subseteq> ws_id ` set steps \<times> ws_id ` set steps"
  by (auto simp: order_edges_def edges_of_def split: option.splits if_splits)

lemma build_graph_spec:
  "\<exists>graph deg. build_graph steps = Inr (graph, deg)
     \<and> (\<forall>u \<in> ws_id ` set steps. dget graph u = Some (out_of (order_edges steps) u))
     \<and> (\<forall>v \<in> ws_id ` set steps. dget deg v = Some (remaining (order_edges steps) {} v))"
proof -
  let ?g = "dict_of (map (\<lambda>s. (ws_id s, [])) steps) :: string list dict" and ?d = "dict_of (map (\<lambda>s. (ws_id s, 0)) steps) :: int dict"
  have "\<forall>(u, v) \<in> set (order_edges steps). dhas (fst (?g, ?d)) u \<and> dhas (snd (?g, ?d)) v"
    using order_edges_nodes [of steps] by (auto simp: dhas_def dict_of_dget)
  from add_edges_spec [OF this] obtain gd where
    "add_edges (order_edges steps) (?g, ?d) = Inr gd"
    "\<forall>u. dget (fst gd) u = map_option (\<lambda>out. out @ out_of (order_edges steps) u) (dget ?g u)"
    "\<forall>v. dget (snd gd) v = map_option (\<lambda>n. n + remaining (order_edges steps) {} v) (dget ?d v)"
    by auto
  then show ?thesis
    by (intro exI [of _ "fst gd"] exI [of _ "snd gd"]) (simp add: build_graph_def order_edges_def dict_of_dget)
qed

text \<open>What the sort returns: an order exactly when the edges are acyclic, otherwise the error.\<close>

lemma topological_sort_spec:
  assumes dist: "distinct (map ws_id steps)"
  shows "if acyclic (set (order_edges steps))
    then \<exists>order. topological_sort steps = Inr order \<and> distinct order \<and> set order = ws_id ` set steps
           \<and> preds_first (order_edges steps) order
    else topological_sort steps = Inl (ValueError ''Circular dependency detected in workflow steps'')"
proof -
  let ?N = "ws_id ` set steps" and ?es = "order_edges steps"
  obtain graph deg where g: "build_graph steps = Inr (graph, deg)"
      "\<forall>u \<in> ?N. dget graph u = Some (out_of ?es u)" "\<forall>v \<in> ?N. dget deg v = Some (remaining ?es {} v)"
    using build_graph_spec by blast
  let ?seeds = "filter (\<lambda>i. remaining ?es {} i = 0) (map ws_id steps)"
  have "map_res (\<lambda>i. rbind (dindex deg i) (\<lambda>n. Inr (n = 0, i))) (map ws_id xs)
      = Inr (map (\<lambda>i. (remaining ?es {} i = 0, i)) (map ws_id xs))" if "set xs \<subseteq> set steps" for xs
    using that g(3) by (induction xs) (auto simp: dindex_def)
  then have seeds: "map_res (\<lambda>i. rbind (dindex deg i) (\<lambda>n. Inr (n = 0, i))) (map ws_id steps)
      = Inr (map (\<lambda>i. (remaining ?es {} i = 0, i)) (map ws_id steps))" by simp
  have pick: "map snd (filter fst (map (\<lambda>i. (remaining ?es {} i = 0, i)) xs)) = filter (\<lambda>i. remaining ?es {} i = 0) xs" for xs
    by (induction xs) auto
  have "kahn_inv ?es ?N ?seeds deg []"
    using dist g(3) by (auto simp: kahn_inv_def preds_first_def)
  then obtain deg' order where k: "kahn graph ?seeds deg [] = Inr order" "kahn_inv ?es ?N [] deg' order"
    using kahn_correct order_edges_nodes g(2) by blast
  have sort: "topological_sort steps =
      (if length order \<noteq> length steps then Inl (ValueError ''Circular dependency detected in workflow steps'') else Inr order)"
    unfolding topological_sort_def by (simp only: g(1) seeds rbind_Inr prod.case pick k(1))
  have o: "distinct order" "set order \<subseteq> ?N" "preds_first ?es order" using k(2) by (auto simp: kahn_inv_def)
  have len: "length order = length steps \<longleftrightarrow> set order = ?N"
    using o(1,2) dist by (metis card_subset_eq distinct_card finite_imageI finite_set length_map set_map)
  show ?thesis
  proof (cases "acyclic (set ?es)")
    case True
    then have "set order = ?N" using acyclic_covers [OF k(2) order_edges_nodes] o(2) by blast
    then show ?thesis using True sort len o by auto
  next
    case False
    then have "set order \<noteq> ?N"
      using preds_first_acyclic [OF o(1,3)] order_edges_nodes [of steps] by fastforce
    then show ?thesis using False sort len by auto
  qed
qed

section \<open>Typed steps of a parsed definition\<close>

lemma step_of_facts:
  assumes "step_of v = Some s"
  shows "key_of v = Some (VStr (ws_id s))" "dep_keys v = Some (map VStr (ws_depends_on s))"
proof -
  obtain d ds where d: "v = VDict d" "string_of (vget d ''id'') = Some (ws_id s)"
      "py_iter (field_or v ''depends_on'' (VList [])) = Inr ds" "None \<notin> set (map string_of ds)"
      "ws_depends_on s = map (\<lambda>x. the (string_of x)) ds"
    using assms by (auto simp: step_of_def split: pv.splits option.splits sum.splits if_splits)
  have "vget d ''id'' = VStr (ws_id s)" using d(2) by (cases "vget d ''id''") auto
  then show "key_of v = Some (VStr (ws_id s))"
    unfolding d(1) by (simp add: key_of_def vget_def split: option.splits)
  have "map_res hash_key xs = Inr (map VStr (map (\<lambda>x. the (string_of x)) xs))" if "None \<notin> set (map string_of xs)" for xs
    using that
  proof (induction xs)
    case (Cons x xs)
    then show ?case by (cases x) auto
  qed simp
  from this [OF d(4)] have "map_res hash_key ds = Inr (map VStr (ws_depends_on s))" unfolding d(5) .
  then show "dep_keys v = Some (map VStr (ws_depends_on s))"
    unfolding dep_keys_Some using d(3) by (intro exI [of _ ds] conjI)
qed

lemma typed_both:
  assumes "map step_of vs = map Some steps"
  shows "v \<in> set vs \<Longrightarrow> \<exists>s \<in> set steps. step_of v = Some s" "s \<in> set steps \<Longrightarrow> \<exists>v \<in> set vs. step_of v = Some s"
proof -
  have eq: "step_of ` set vs = Some ` set steps" using arg_cong [OF assms, of set] by simp
  show "\<exists>s \<in> set steps. step_of v = Some s" if "v \<in> set vs"
    using imageI [OF that, of step_of] unfolding eq by auto
  show "\<exists>v \<in> set vs. step_of v = Some s" if "s \<in> set steps"
    using imageI [OF that, of Some] unfolding eq [symmetric] by (elim imageE) auto
qed

lemma depends_typed:
  assumes "map step_of vs = map Some steps"
  shows "(VStr i, VStr k) \<in> depends vs \<longleftrightarrow> (\<exists>s \<in> set steps. ws_id s = i \<and> k \<in> set (ws_depends_on s))"
proof
  assume "(VStr i, VStr k) \<in> depends vs"
  then obtain v ks where v: "v \<in> set vs" "key_of v = Some (VStr i)" "dep_keys v = Some ks" "VStr k \<in> set ks"
    by (auto simp: depends_def)
  obtain s where "s \<in> set steps" "step_of v = Some s" using typed_both(1) [OF assms v(1)] by blast
  with v(2-4) step_of_facts [of v s] show "\<exists>s \<in> set steps. ws_id s = i \<and> k \<in> set (ws_depends_on s)" by auto
next
  assume "\<exists>s \<in> set steps. ws_id s = i \<and> k \<in> set (ws_depends_on s)"
  then obtain s where s: "s \<in> set steps" "ws_id s = i" "k \<in> set (ws_depends_on s)" by blast
  obtain v where "v \<in> set vs" "step_of v = Some s" using typed_both(2) [OF assms s(1)] by blast
  with s(2,3) step_of_facts [of v s] show "(VStr i, VStr k) \<in> depends vs" by (auto simp: depends_def)
qed

lemma acyclic_tagged:
  assumes "acyclic {(f v, f u) | u v. (u, v) \<in> R}"
  shows "acyclic R"
proof -
  have "(u, v) \<in> R\<^sup>+ \<Longrightarrow> (f v, f u) \<in> {(f v, f u) | u v. (u, v) \<in> R}\<^sup>+" for u v
    by (induction rule: trancl_induct) (blast intro: trancl_into_trancl2)+
  then show ?thesis using assms unfolding acyclic_def by blast
qed

lemma edges_of_iff:
  "(u, v) \<in> set (edges_of N s) \<longleftrightarrow>
     u \<in> N \<and> u \<in> set (ws_depends_on s) \<and> v = ws_id s \<or> u = ws_id s \<and> fallback_target s = Some v \<and> v \<in> N \<and> v \<noteq> u"
  by (cases "fallback_target s") (auto simp: edges_of_def)

lemma order_edges_iff:
  "(u, v) \<in> set (order_edges steps) \<longleftrightarrow>
     (\<exists>s \<in> set steps. ws_id s = v \<and> u \<in> set (ws_depends_on s) \<and> u \<in> ws_id ` set steps
        \<or> ws_id s = u \<and> fallback_target s = Some v \<and> v \<in> ws_id ` set steps \<and> v \<noteq> u)"
  unfolding order_edges_def set_concat by (auto simp: edges_of_iff)

section \<open>Properties\<close>

text \<open>C24: the execution order is sound: every step occurs in it exactly once, after each of its dependencies that
  is a step, and a fallback after the step it falls back from.\<close>
theorem execution_order_sound:
  assumes "distinct (map ws_id steps)" "topological_sort steps = Inr order"
  shows "mset order = mset (map ws_id steps)
    \<and> (\<forall>s \<in> set steps. \<forall>dep \<in> set (ws_depends_on s) \<inter> ws_id ` set steps. position order dep < position order (ws_id s))
    \<and> (\<forall>s \<in> set steps. \<forall>t \<in> set steps. fallback_target s = Some (ws_id t) \<and> ws_id s \<noteq> ws_id t \<longrightarrow>
         position order (ws_id s) < position order (ws_id t))"
proof -
  have o: "distinct order" "set order = ws_id ` set steps" "preds_first (order_edges steps) order"
    using topological_sort_spec [OF assms(1)] assms(2) by (auto split: if_splits)
  have "mset order = mset (map ws_id steps)"
    using o(1,2) assms(1) by (metis mset_set_set set_map)
  moreover have edge: "position order u < position order v" if "(u, v) \<in> set (order_edges steps)" for u v
    using preds_first_position [OF o(1,3) that] that o(2) order_edges_nodes by fastforce
  have "position order dep < position order (ws_id s)"
    if "s \<in> set steps" "dep \<in> set (ws_depends_on s) \<inter> ws_id ` set steps" for s dep
    using that by (intro edge) (auto simp: order_edges_iff)
  moreover have "position order (ws_id s) < position order (ws_id t)"
    if "s \<in> set steps" "t \<in> set steps" "fallback_target s = Some (ws_id t) \<and> ws_id s \<noteq> ws_id t" for s t
    using that by (intro edge) (auto simp: order_edges_iff)
  ultimately show ?thesis by blast
qed

text \<open>C27: an accepted definition can be executed: when every fallback that is a step also depends on the step it
  falls back from, the sort of an accepted definition returns an order.\<close>
theorem accepted_definition_has_order:
  assumes "validate_definition depth (VDict d) = Inr ()" "dget d ''steps'' = Some (VList vs)" "length vs < depth"
    and "map step_of vs = map Some steps"
    and "\<forall>s \<in> set steps. \<forall>t \<in> set steps. fallback_target s = Some (ws_id t) \<longrightarrow> ws_id s \<in> set (ws_depends_on t)"
  shows "\<exists>order. topological_sort steps = Inr order"
proof -
  have ok: "well_formed_steps vs" "acyclic (depends vs)"
    using validate_definition_spec [OF assms(2) _ assms(3)] assms(1) by auto
  have "key_of v = map_option (\<lambda>s. VStr (ws_id s)) (step_of v)" if "v \<in> set vs" for v
    using typed_both(1) [OF assms(4) that] step_of_facts(1) by auto
  then have "map key_of vs = map (map_option (\<lambda>s. VStr (ws_id s))) (map step_of vs)" by simp
  also have "\<dots> = map (\<lambda>i. Some (VStr i)) (map ws_id steps)" unfolding assms(4) by simp
  finally have dist: "distinct (map ws_id steps)"
    using ok(1) unfolding well_formed_steps_def by (metis distinct_map)
  have "(VStr v, VStr u) \<in> depends vs" if "(u, v) \<in> set (order_edges steps)" for u v
    unfolding depends_typed [OF assms(4)] using that assms(5) unfolding order_edges_iff by blast
  then have "{(VStr v, VStr u) | u v. (u, v) \<in> set (order_edges steps)} \<subseteq> depends vs" by blast
  then have "acyclic {(VStr v, VStr u) | u v. (u, v) \<in> set (order_edges steps)}" using ok(2) acyclic_subset by blast
  then have "acyclic (set (order_edges steps))" by (rule acyclic_tagged)
  then show ?thesis using topological_sort_spec [OF dist] by auto
qed

definition sample_steps_json :: "pv list" where
  "sample_steps_json =
     [VDict [(''id'', VStr ''backup''), (''depends_on'', VList [VStr ''pay''])],
      VDict [(''id'', VStr ''pay''), (''depends_on'', VList [VStr ''check'']), (''on_failure'', VStr ''retry(2) then fallback( backup )'')],
      VDict [(''id'', VStr ''check'')]]"

definition sample_wf_steps :: "wf_step list" where
  "sample_wf_steps = map (\<lambda>v. the (step_of v)) sample_steps_json"

lemma sample_typed: "map step_of sample_steps_json = map Some sample_wf_steps"
  by code_simp

lemma sample_order: "topological_sort sample_wf_steps = Inr [''check'', ''pay'', ''backup'']"
  by code_simp

theorem execution_order_sound_witness:
  "position [''check'', ''pay'', ''backup''] ''pay'' < position [''check'', ''pay'', ''backup''] ''backup''"
proof -
  have "distinct (map ws_id sample_wf_steps)" by code_simp
  from execution_order_sound [OF this sample_order] have
    "\<forall>s \<in> set sample_wf_steps. \<forall>dep \<in> set (ws_depends_on s) \<inter> ws_id ` set sample_wf_steps.
       position [''check'', ''pay'', ''backup''] dep < position [''check'', ''pay'', ''backup''] (ws_id s)" by blast
  moreover have "sample_wf_steps ! 0 \<in> set sample_wf_steps" "ws_id (sample_wf_steps ! 0) = ''backup''"
    "''pay'' \<in> set (ws_depends_on (sample_wf_steps ! 0)) \<inter> ws_id ` set sample_wf_steps" by code_simp+
  ultimately show ?thesis by metis
qed

theorem accepted_definition_has_order_witness: "\<exists>order. topological_sort sample_wf_steps = Inr order"
proof -
  have "\<not> isl (validate_definition 9 (VDict [(''steps'', VList sample_steps_json)]))" by code_simp
  then have "validate_definition 9 (VDict [(''steps'', VList sample_steps_json)]) = Inr ()"
    by (cases "validate_definition 9 (VDict [(''steps'', VList sample_steps_json)])") auto
  moreover have "length sample_steps_json < 9" by code_simp
  moreover have "\<forall>s \<in> set sample_wf_steps. \<forall>t \<in> set sample_wf_steps.
      fallback_target s = Some (ws_id t) \<longrightarrow> ws_id s \<in> set (ws_depends_on t)" by code_simp
  ultimately show ?thesis
    using accepted_definition_has_order [of 9 "[(''steps'', VList sample_steps_json)]"] sample_typed by simp
qed

text \<open>
  The parser does not look at fallbacks, so a step that depends on its own fallback is accepted and
  then has no order: the error is raised when the run is executed.
\<close>

definition fallback_loop :: "pv list" where
  "fallback_loop =
     [VDict [(''id'', VStr ''a''), (''depends_on'', VList [VStr ''b'']), (''on_failure'', VStr ''fallback(b)'')],
      VDict [(''id'', VStr ''b'')]]"

lemma accepted_without_order:
  "\<not> isl (validate_definition 9 (VDict [(''steps'', VList fallback_loop)]))
   \<and> isl (topological_sort (map (\<lambda>v. the (step_of v)) fallback_loop))"
  by code_simp

end
