(* ===== verification/State_Store.thy ===== *)
theory State_Store
  imports Workflow_Order
begin

text \<open>
  The durable state of workflow runs (\<open>workflows/state_store.py\<close>): the two repositories, the store in
  front of them with its Redis cache, and the contract the engine relies on. States are JSON
  documents, on which \<open>_json_safe\<close> is the identity; the hash of a state and the parsing of a UUID
  are parameters.
\<close>

section \<open>States and rows\<close>

text \<open>The keys of a state; \<open>rs_version\<close> is \<open>_state_version\<close>, which is never persisted.\<close>

record run_state =
  rs_id :: string
  rs_steps :: "wf_step list"
  rs_timeout_hours :: "rat option"
  rs_replan_on_failure :: bool
  rs_status :: string
  rs_trigger :: "pv dict"
  rs_steps_total :: nat
  rs_steps_completed :: nat
  rs_results :: "(pv dict) dict"
  rs_started_at :: rat
  rs_completed_at :: "rat option"
  rs_cancelled_at :: "rat option"
  rs_waiting_step :: "string option"
  rs_error :: pv
  rs_replan_count :: nat
  rs_replan_history :: "pv list"
  rs_tenant :: "string option"
  rs_workflow_run :: "string option"
  rs_workflow :: "string option"
  rs_version :: "int option"

record store_row =
  sr_run_id :: string
  sr_tenant :: "string option"
  sr_workflow_run :: "string option"
  sr_status :: string
  sr_waiting_step :: "string option"
  sr_state :: run_state
  sr_hash :: string
  sr_version :: int

record state_transition =
  tr_run_id :: string
  tr_step_id :: "string option"
  tr_previous_hash :: "string option"
  tr_new_hash :: string
  tr_actor :: string
  tr_key :: "string option"
  tr_metadata :: "pv dict"

text \<open>Both repositories hold at most one row for a run id, as the dictionary and the unique constraint have it.\<close>

record repository =
  rp_rows :: "store_row list"
  rp_transitions :: "state_transition list"

datatype store_error =
    StaleState string int int
  | TenantScope
  | NoRunId
  | IntegrityError

record save_args =
  sa_state :: run_state
  sa_hash :: string
  sa_tenant :: "string option"
  sa_workflow_run :: "string option"
  sa_actor :: string
  sa_step_id :: "string option"
  sa_key :: "string option"
  sa_metadata :: "pv dict"
  sa_expected :: "int option"

definition without_version :: "run_state \<Rightarrow> run_state" where
  "without_version st = st\<lparr> rs_version := None \<rparr>"

definition find_row :: "repository \<Rightarrow> string \<Rightarrow> store_row option" where
  "find_row r i = find (\<lambda>x. sr_run_id x = i) (rp_rows r)"

fun put_row :: "store_row \<Rightarrow> store_row list \<Rightarrow> store_row list" where
  "put_row x [] = [x]"
| "put_row x (y # ys) = (if sr_run_id y = sr_run_id x then x # ys else y # put_row x ys)"

definition seen_key :: "repository \<Rightarrow> string \<Rightarrow> string option \<Rightarrow> bool" where
  "seen_key r i key =
     (case key of
        None \<Rightarrow> False
      | Some k \<Rightarrow> k \<noteq> [] \<and> list_ex (\<lambda>t. tr_run_id t = i \<and> tr_key t = Some k) (rp_transitions r))"

definition transition_of :: "save_args \<Rightarrow> string option \<Rightarrow> state_transition" where
  "transition_of a previous_hash = \<lparr> tr_run_id = rs_id (sa_state a), tr_step_id = sa_step_id a, tr_previous_hash = previous_hash,
     tr_new_hash = sa_hash a, tr_actor = sa_actor a, tr_key = sa_key a, tr_metadata = sa_metadata a \<rparr>"

definition row_of :: "save_args \<Rightarrow> string option \<Rightarrow> string option \<Rightarrow> int \<Rightarrow> store_row" where
  "row_of a tenant workflow_run version = \<lparr> sr_run_id = rs_id (sa_state a), sr_tenant = tenant, sr_workflow_run = workflow_run,
     sr_status = rs_status (sa_state a), sr_waiting_step = rs_waiting_step (sa_state a),
     sr_state = sa_state a, sr_hash = sa_hash a, sr_version = version \<rparr>"

section \<open>The repositories\<close>

text \<open>The new version, or none when the write was a repetition, and the repository after it.\<close>

definition memory_save :: "repository \<Rightarrow> save_args \<Rightarrow> (store_error, int option \<times> repository) res" where
  "memory_save r a =
     (let run_id = rs_id (sa_state a) in
      if seen_key r run_id (sa_key a) then Inr (None, r)
      else
        let previous = find_row r run_id;
            stale = (case (previous, sa_expected a) of (Some p, Some e) \<Rightarrow> sr_version p \<noteq> e | _ \<Rightarrow> False)
        in if stale then Inl (StaleState run_id (the (sa_expected a)) (sr_version (the previous)))
           else
             let version = (case previous of None \<Rightarrow> 1 | Some p \<Rightarrow> sr_version p + 1);
                 row = row_of a (sa_tenant a) (sa_workflow_run a) version
             in Inr (Some version,
                  \<lparr> rp_rows = put_row row (rp_rows r),
                    rp_transitions = rp_transitions r @ [transition_of a (map_option sr_hash previous)] \<rparr>))"

definition memory_load :: "repository \<Rightarrow> string \<Rightarrow> run_state option" where
  "memory_load r i = map_option (\<lambda>row. (sr_state row)\<lparr> rs_version := Some (sr_version row) \<rparr>) (find_row r i)"

definition or_else_option :: "'a option \<Rightarrow> 'a option \<Rightarrow> 'a option" where
  "or_else_option a b = (case a of None \<Rightarrow> b | Some x \<Rightarrow> Some x)"

definition sql_save :: "string option \<Rightarrow> repository \<Rightarrow> save_args \<Rightarrow> (store_error, int option \<times> repository) res" where
  "sql_save scope r a =
     (let run_id = rs_id (sa_state a); tenant_id = sa_tenant a in
      if scope \<noteq> None \<and> tenant_id \<noteq> scope then Inl TenantScope
      else
        let row = (case find_row r run_id of None \<Rightarrow> None | Some x \<Rightarrow> if sr_tenant x = tenant_id then Some x else None)
        in if row \<noteq> None \<and> seen_key r run_id (sa_key a) then Inr (None, r)
           else
             let stale = (case (row, sa_expected a) of (Some p, Some e) \<Rightarrow> sr_version p \<noteq> e | _ \<Rightarrow> False)
             in if stale then Inl (StaleState run_id (the (sa_expected a)) (sr_version (the row)))
                else if row = None \<and> find_row r run_id \<noteq> None then Inl IntegrityError
                else
                  let row' = (case row of
                      None \<Rightarrow> row_of a tenant_id (sa_workflow_run a) 1
                    | Some p \<Rightarrow> row_of a (or_else_option tenant_id (sr_tenant p))
                                 (or_else_option (sa_workflow_run a) (sr_workflow_run p)) (sr_version p + 1))
                  in Inr (Some (sr_version row'),
                       \<lparr> rp_rows = put_row row' (rp_rows r),
                         rp_transitions = rp_transitions r @ [transition_of a (map_option sr_hash row)] \<rparr>))"

text \<open>A scoped repository looks in its own tenant, an unscoped one in the rows of none and then of each tenant.\<close>

definition lookup_tenants :: "string list \<Rightarrow> string option \<Rightarrow> string option list" where
  "lookup_tenants registry scope = (case scope of Some t \<Rightarrow> [Some t] | None \<Rightarrow> None # map Some registry)"

fun sql_load_in :: "repository \<Rightarrow> string \<Rightarrow> string option list \<Rightarrow> run_state option" where
  "sql_load_in r i [] = None"
| "sql_load_in r i (tenant # tenants) =
     (case find (\<lambda>x. sr_run_id x = i \<and> sr_tenant x = tenant) (rp_rows r) of
        Some row \<Rightarrow> Some ((sr_state row)\<lparr> rs_version := Some (sr_version row) \<rparr>)
      | None \<Rightarrow> sql_load_in r i tenants)"

definition sql_load :: "string list \<Rightarrow> string option \<Rightarrow> repository \<Rightarrow> string \<Rightarrow> run_state option" where
  "sql_load registry scope r i = sql_load_in r i (lookup_tenants registry scope)"

section \<open>The store\<close>

definition coerce_uuid :: "(string \<Rightarrow> string option) \<Rightarrow> pv \<Rightarrow> string option" where
  "coerce_uuid parse_uuid v =
     (case v of VStr s \<Rightarrow> (if s = [] then None else parse_uuid s) | VInt n \<Rightarrow> parse_uuid (str_int n) | _ \<Rightarrow> None)"

definition text_value :: "string option \<Rightarrow> pv" where
  "text_value s = (case s of None \<Rightarrow> VNone | Some t \<Rightarrow> VStr t)"

definition or_value :: "pv \<Rightarrow> pv \<Rightarrow> pv" where
  "or_value a b = (if truthy a then a else b)"

definition extract_tenant_id :: "(string \<Rightarrow> string option) \<Rightarrow> run_state \<Rightarrow> string option" where
  "extract_tenant_id parse_uuid st =
     coerce_uuid parse_uuid (or_value (or_value (text_value (rs_tenant st)) (vget (rs_trigger st) ''tenant_id''))
       (vget (rs_trigger st) ''agenticorg:tenant_id''))"

definition extract_workflow_run_id :: "(string \<Rightarrow> string option) \<Rightarrow> run_state \<Rightarrow> string option" where
  "extract_workflow_run_id parse_uuid st = coerce_uuid parse_uuid (text_value (rs_workflow_run st))"

text \<open>The parameters of the store, which repository it has and what Redis holds, if it can be reached.\<close>

record store_config =
  sc_hash :: "run_state \<Rightarrow> string"
  sc_parse_uuid :: "string \<Rightarrow> string option"
  sc_sql :: bool
  sc_scope :: "string option"
  sc_registry :: "string list"

record state_store =
  ss_repository :: repository
  ss_redis :: "(run_state dict) option"

definition repository_save :: "store_config \<Rightarrow> repository \<Rightarrow> save_args \<Rightarrow> (store_error, int option \<times> repository) res" where
  "repository_save c r a = (if sc_sql c then sql_save (sc_scope c) r a else memory_save r a)"

definition repository_load :: "store_config \<Rightarrow> repository \<Rightarrow> string \<Rightarrow> run_state option" where
  "repository_load c r i = (if sc_sql c then sql_load (sc_registry c) (sc_scope c) r i else memory_load r i)"

definition args_of :: "store_config \<Rightarrow> run_state \<Rightarrow> string \<Rightarrow> string option \<Rightarrow> string option \<Rightarrow> pv dict \<Rightarrow> save_args" where
  "args_of c st actor step_id key metadata =
     \<lparr> sa_state = without_version st, sa_hash = sc_hash c (without_version st),
       sa_tenant = extract_tenant_id (sc_parse_uuid c) st, sa_workflow_run = extract_workflow_run_id (sc_parse_uuid c) st,
       sa_actor = actor, sa_step_id = step_id, sa_key = key, sa_metadata = metadata, sa_expected = rs_version st \<rparr>"

definition write_redis_cache :: "state_store \<Rightarrow> run_state \<Rightarrow> state_store" where
  "write_redis_cache s st = s\<lparr> ss_redis := map_option (\<lambda>m. dset m (rs_id st) st) (ss_redis s) \<rparr>"

definition store_save ::
  "store_config \<Rightarrow> string \<Rightarrow> string option \<Rightarrow> string option \<Rightarrow> pv dict \<Rightarrow> state_store \<Rightarrow> run_state
    \<Rightarrow> (store_error, state_store \<times> run_state) res" where
  "store_save c actor step_id key metadata s st =
     (if rs_id st = [] then Inl NoRunId
      else
        rbind (repository_save c (ss_repository s) (args_of c st actor step_id key metadata)) (\<lambda>(new_version, r).
          Inr (write_redis_cache (s\<lparr> ss_repository := r \<rparr>) (without_version st),
               case new_version of None \<Rightarrow> st | Some v \<Rightarrow> st\<lparr> rs_version := Some v \<rparr>)))"

text \<open>A run the repository does not know may still be in the cache; it is written back within the trusted scope.\<close>

definition store_load :: "store_config \<Rightarrow> state_store \<Rightarrow> string \<Rightarrow> (store_error, run_state option \<times> state_store) res" where
  "store_load c s i =
     (case repository_load c (ss_repository s) i of
        Some st \<Rightarrow> Inr (Some st, s)
      | None \<Rightarrow>
          (case ss_redis s of
             None \<Rightarrow> Inr (None, s)
           | Some m \<Rightarrow>
               (case dget m i of
                  None \<Rightarrow> Inr (None, s)
                | Some legacy \<Rightarrow>
                    if rs_id legacy \<noteq> i then Inr (None, s)
                    else if sc_sql c \<and> (sc_scope c = None \<or> extract_tenant_id (sc_parse_uuid c) legacy \<noteq> sc_scope c)
                    then Inr (None, s)
                    else rbind (store_save c ''redis_legacy_backfill'' None None [(''source'', VStr ''redis_fallback'')] s legacy)
                           (\<lambda>(s', st). Inr (Some st, s')))))"

section \<open>The contract of a versioned store\<close>

type_synonym save_label = "string \<times> string option \<times> pv dict"

text \<open>What any number of successful saves, by whoever, makes of a store.\<close>

inductive writes_by :: "('r \<Rightarrow> save_label \<Rightarrow> run_state \<Rightarrow> (store_error, 'r \<times> run_state) res) \<Rightarrow> 'r \<Rightarrow> 'r \<Rightarrow> bool" for save where
  none: "writes_by save r r"
| one_more: "writes_by save r r' \<Longrightarrow> save r' l st = Inr (r'', st') \<Longrightarrow> writes_by save r r''"

locale versioned_store =
  fixes load :: "'r \<Rightarrow> string \<Rightarrow> run_state option"
    and save :: "'r \<Rightarrow> save_label \<Rightarrow> run_state \<Rightarrow> (store_error, 'r \<times> run_state) res"
    and valid :: "'r \<Rightarrow> bool"
    and owned :: "run_state \<Rightarrow> bool"
  assumes load_id: "valid r \<Longrightarrow> load r i = Some st \<Longrightarrow> rs_id st = i \<and> rs_version st \<noteq> None"
    and save_valid: "valid r \<Longrightarrow> save r l st = Inr (r', st') \<Longrightarrow> valid r'"
    and save_load: "valid r \<Longrightarrow> save r l st = Inr (r', st') \<Longrightarrow> load r' i = (if i = rs_id st then Some st' else load r i)"
    and save_same: "valid r \<Longrightarrow> save r l st = Inr (r', st') \<Longrightarrow> \<exists>v. st' = st\<lparr> rs_version := Some v \<rparr>"
    and save_current: "valid r \<Longrightarrow> save r l st = Inr (r', st') \<Longrightarrow> load r (rs_id st) = Some cur \<Longrightarrow>
      rs_version st \<noteq> None \<Longrightarrow> rs_version st = rs_version cur"
    and save_grows: "valid r \<Longrightarrow> save r l st = Inr (r', st') \<Longrightarrow> load r (rs_id st) = Some cur \<Longrightarrow>
      the (rs_version cur) < the (rs_version st')"
    and save_accepts: "valid r \<Longrightarrow> load r (rs_id st) = Some cur \<Longrightarrow> rs_version st = rs_version cur \<Longrightarrow> owned st \<Longrightarrow>
      \<exists>r' st'. save r l st = Inr (r', st')"
    and save_stale: "valid r \<Longrightarrow> load r (rs_id st) = Some cur \<Longrightarrow> rs_version st \<noteq> None \<Longrightarrow> rs_version st \<noteq> rs_version cur \<Longrightarrow>
      owned st \<Longrightarrow> save r l st = Inl (StaleState (rs_id st) (the (rs_version st)) (the (rs_version cur)))"
begin

lemma writes_valid: "writes_by save r r' \<Longrightarrow> valid r \<Longrightarrow> valid r'"
  by (induction rule: writes_by.induct) (auto intro: save_valid)

text \<open>A row never goes back: its version only grows, and while it stays the same so does the state.\<close>

lemma writes_frozen:
  assumes "writes_by save r r'" "valid r" "load r i = Some a"
  shows "\<exists>b. load r' i = Some b \<and> the (rs_version a) \<le> the (rs_version b) \<and> (rs_version b = rs_version a \<longrightarrow> b = a)"
  using assms
proof (induction rule: writes_by.induct)
  case (one_more r r' l st r'' st')
  then obtain b where b: "load r' i = Some b" "the (rs_version a) \<le> the (rs_version b)" "rs_version b = rs_version a \<longrightarrow> b = a"
    by blast
  have v: "valid r'" using writes_valid one_more by blast
  show ?case
  proof (cases "i = rs_id st")
    case True
    have "the (rs_version b) < the (rs_version st')" using save_grows [OF v one_more(2)] b(1) True by blast
    then show ?thesis using save_load [OF v one_more(2)] True b(2) by auto
  next
    case False
    then show ?thesis using save_load [OF v one_more(2)] b by auto
  qed
qed auto

lemma no_lost_update:
  assumes "valid r" "load r i = Some s" "rs_id a = i" "rs_version a = rs_version s" "save r l a = Inr (r1, a')"
    and "writes_by save r1 r2" "rs_id b = i" "rs_version b = rs_version s" "owned b"
  shows "\<exists>c. load r2 i = Some c \<and> the (rs_version s) < the (rs_version c)
    \<and> save r2 l' b = Inl (StaleState i (the (rs_version s)) (the (rs_version c)))"
proof -
  have v1: "valid r1" using save_valid assms by blast
  have "load r1 i = Some a'" using save_load [OF assms(1,5)] assms(3) by simp
  then obtain c where c: "load r2 i = Some c" "the (rs_version a') \<le> the (rs_version c)"
    using writes_frozen [OF assms(6) v1] by blast
  have "the (rs_version s) < the (rs_version a')" using save_grows [OF assms(1,5)] assms(2,3) by blast
  then have lt: "the (rs_version s) < the (rs_version c)" using c(2) by simp
  have "rs_version b \<noteq> None" "rs_version b \<noteq> rs_version c" using load_id [OF assms(1,2)] assms(8) lt by auto
  then show ?thesis
    using save_stale [OF writes_valid [OF assms(6) v1]] c(1) lt assms(7-9) by metis
qed

end

section \<open>The repositories keep the contract\<close>

definition repository_ok :: "repository \<Rightarrow> bool" where
  "repository_ok r \<longleftrightarrow> distinct (map sr_run_id (rp_rows r))
     \<and> list_all (\<lambda>x. rs_id (sr_state x) = sr_run_id x \<and> rs_version (sr_state x) = None) (rp_rows r)"

definition store_ok :: "store_config \<Rightarrow> state_store \<Rightarrow> bool" where
  "store_ok c s \<longleftrightarrow> repository_ok (ss_repository s) \<and> (sc_sql c \<longrightarrow> sc_scope c \<noteq> None)"

definition in_scope :: "store_config \<Rightarrow> run_state \<Rightarrow> bool" where
  "in_scope c st \<longleftrightarrow> rs_id st \<noteq> [] \<and> (sc_sql c \<longrightarrow> extract_tenant_id (sc_parse_uuid c) st = sc_scope c)"

definition durable_load :: "store_config \<Rightarrow> state_store \<Rightarrow> string \<Rightarrow> run_state option" where
  "durable_load c s i = repository_load c (ss_repository s) i"

definition durable_save :: "store_config \<Rightarrow> state_store \<Rightarrow> save_label \<Rightarrow> run_state \<Rightarrow> (store_error, state_store \<times> run_state) res" where
  "durable_save c s l st = (case l of (actor, step_id, metadata) \<Rightarrow> store_save c actor step_id None metadata s st)"

lemma find_put: "find (\<lambda>x. sr_run_id x = i) (put_row row rows)
    = (if i = sr_run_id row then Some row else find (\<lambda>x. sr_run_id x = i) rows)"
  by (induction rows) auto

lemma put_row_keys: "set (map sr_run_id (put_row row rows)) = insert (sr_run_id row) (set (map sr_run_id rows))"
  by (induction rows) auto

lemma put_row_distinct: "distinct (map sr_run_id rows) \<Longrightarrow> distinct (map sr_run_id (put_row row rows))"
proof (induction rows)
  case (Cons x rows)
  then show ?case using put_row_keys [of row rows] by auto
qed simp

lemma put_row_all: "P row \<Longrightarrow> list_all P rows \<Longrightarrow> list_all P (put_row row rows)"
  by (induction rows) auto

lemma find_in_tenant:
  assumes "distinct (map sr_run_id rows)"
  shows "find (\<lambda>x. sr_run_id x = i \<and> sr_tenant x = t) rows
    = (case find (\<lambda>x. sr_run_id x = i) rows of None \<Rightarrow> None | Some x \<Rightarrow> if sr_tenant x = t then Some x else None)"
  using assms
proof (induction rows)
  case (Cons x rows)
  have "find (\<lambda>x. sr_run_id x = i) rows = None" if "sr_run_id x = i"
    using that Cons.prems unfolding find_None_iff by (metis distinct.simps(2) image_eqI list.map(2) list.set_map)
  then show ?case using Cons by auto
qed simp

text \<open>The row a repository answers a load from, and what a save without a key does to it.\<close>

definition visible_row :: "store_config \<Rightarrow> repository \<Rightarrow> string \<Rightarrow> store_row option" where
  "visible_row c r i =
     (case find_row r i of
        None \<Rightarrow> None
      | Some x \<Rightarrow> if sc_sql c \<and> sr_tenant x \<noteq> sc_scope c then None else Some x)"

lemma load_visible:
  assumes "store_ok c s"
  shows "durable_load c s i
    = map_option (\<lambda>x. (sr_state x)\<lparr> rs_version := Some (sr_version x) \<rparr>) (visible_row c (ss_repository s) i)"
proof (cases "sc_sql c")
  case True
  then obtain t where "sc_scope c = Some t" "distinct (map sr_run_id (rp_rows (ss_repository s)))"
    using assms by (auto simp: store_ok_def repository_ok_def)
  then show ?thesis using True
    by (simp add: durable_load_def repository_load_def sql_load_def lookup_tenants_def visible_row_def find_row_def
        find_in_tenant split: option.splits)
next
  case False
  then show ?thesis
    by (auto simp: durable_load_def repository_load_def memory_load_def visible_row_def split: option.splits)
qed

lemma row_of_simps [simp]:
  "sr_run_id (row_of a t w v) = rs_id (sa_state a)" "sr_state (row_of a t w v) = sa_state a"
  "sr_version (row_of a t w v) = v" "sr_tenant (row_of a t w v) = t"
  by (simp_all add: row_of_def)

lemma memory_save_Inr:
  assumes "memory_save r a = Inr (v, r')" "sa_key a = None"
  shows "\<exists>n. v = Some n \<and> rp_rows r' = put_row (row_of a (sa_tenant a) (sa_workflow_run a) n) (rp_rows r)
    \<and> (case find_row r (rs_id (sa_state a)) of
         None \<Rightarrow> n = 1
       | Some x \<Rightarrow> n = sr_version x + 1 \<and> (sa_expected a \<noteq> None \<longrightarrow> sa_expected a = Some (sr_version x)))"
  using assms
  by (cases "find_row r (rs_id (sa_state a))"; cases "sa_expected a")
    (auto simp: memory_save_def Let_def seen_key_def split: if_splits)

lemma sql_save_Inr:
  assumes "sql_save (Some t) r a = Inr (v, r')" "sa_key a = None"
  shows "\<exists>w n. v = Some n \<and> rp_rows r' = put_row (row_of a (Some t) w n) (rp_rows r)
    \<and> (case find_row r (rs_id (sa_state a)) of
         None \<Rightarrow> n = 1
       | Some x \<Rightarrow> sr_tenant x = Some t \<and> n = sr_version x + 1
                   \<and> (sa_expected a \<noteq> None \<longrightarrow> sa_expected a = Some (sr_version x)))"
proof (cases "find_row r (rs_id (sa_state a))")
  case None
  then show ?thesis using assms by (auto simp: sql_save_def Let_def seen_key_def split: if_splits)
next
  case (Some x)
  then show ?thesis using assms
    by (cases "sr_tenant x = Some t"; cases "sa_expected a")
      (auto simp: sql_save_def Let_def seen_key_def or_else_option_def split: if_splits)
qed

lemma durable_save_Inr:
  assumes "durable_save c s (actor, step, meta) st = Inr (s', st')"
  shows "\<exists>v. repository_save c (ss_repository s) (args_of c st actor step None meta) = Inr (v, ss_repository s')
    \<and> st' = (case v of None \<Rightarrow> st | Some n \<Rightarrow> st\<lparr> rs_version := Some n \<rparr>)"
  using assms by (auto simp: durable_save_def store_save_def write_redis_cache_def split: if_splits)

lemma args_of_simps [simp]:
  "sa_state (args_of c st actor step key meta) = without_version st"
  "sa_key (args_of c st actor step key meta) = key"
  "sa_expected (args_of c st actor step key meta) = rs_version st"
  "sa_tenant (args_of c st actor step key meta) = extract_tenant_id (sc_parse_uuid c) st"
  by (simp_all add: args_of_def)

lemma without_version_simps [simp]: "rs_id (without_version st) = rs_id st" "rs_version (without_version st) = None"
  "(without_version st)\<lparr> rs_version := Some v \<rparr> = st\<lparr> rs_version := Some v \<rparr>"
  by (simp_all add: without_version_def)

lemma save_visible:
  assumes ok: "store_ok c s" and save: "durable_save c s l st = Inr (s', st')"
  shows "\<exists>row. st' = st\<lparr> rs_version := Some (sr_version row) \<rparr> \<and> rp_rows (ss_repository s') = put_row row (rp_rows (ss_repository s))
    \<and> sr_run_id row = rs_id st \<and> sr_state row = without_version st \<and> (sc_sql c \<longrightarrow> sr_tenant row = sc_scope c)
    \<and> (case visible_row c (ss_repository s) (rs_id st) of
         None \<Rightarrow> sr_version row = 1
       | Some x \<Rightarrow> sr_version row = sr_version x + 1 \<and> (rs_version st \<noteq> None \<longrightarrow> rs_version st = Some (sr_version x)))"
proof -
  obtain actor step meta where l: "l = (actor, step, meta)" by (cases l)
  let ?a = "args_of c st actor step None meta"
  have key: "sa_key ?a = None" by simp
  obtain v where v: "repository_save c (ss_repository s) ?a = Inr (v, ss_repository s')"
      "st' = (case v of None \<Rightarrow> st | Some n \<Rightarrow> st\<lparr> rs_version := Some n \<rparr>)"
    using durable_save_Inr [OF save [unfolded l]] by blast
  show ?thesis
  proof (cases "sc_sql c")
    case True
    then obtain t where t: "sc_scope c = Some t" using ok by (auto simp: store_ok_def)
    then have "sql_save (Some t) (ss_repository s) ?a = Inr (v, ss_repository s')" using v(1) True by (simp add: repository_save_def)
    from sql_save_Inr [OF this key, unfolded args_of_simps without_version_simps]
    obtain w n where w: "v = Some n" "rp_rows (ss_repository s') = put_row (row_of ?a (Some t) w n) (rp_rows (ss_repository s))"
        "case find_row (ss_repository s) (rs_id st) of None \<Rightarrow> n = 1
         | Some x \<Rightarrow> sr_tenant x = Some t \<and> n = sr_version x + 1 \<and> (rs_version st \<noteq> None \<longrightarrow> rs_version st = Some (sr_version x))"
      by blast
    show ?thesis
      by (rule exI [of _ "row_of ?a (Some t) w n"]) (use v(2) True t w in \<open>auto simp: visible_row_def split: option.splits\<close>)
  next
    case False
    then have "memory_save (ss_repository s) ?a = Inr (v, ss_repository s')" using v(1) by (simp add: repository_save_def)
    from memory_save_Inr [OF this key, unfolded args_of_simps without_version_simps]
    obtain t w n where w: "v = Some n" "rp_rows (ss_repository s') = put_row (row_of ?a t w n) (rp_rows (ss_repository s))"
        "case find_row (ss_repository s) (rs_id st) of None \<Rightarrow> n = 1
         | Some x \<Rightarrow> n = sr_version x + 1 \<and> (rs_version st \<noteq> None \<longrightarrow> rs_version st = Some (sr_version x))"
      by blast
    show ?thesis
      by (rule exI [of _ "row_of ?a t w n"]) (use v(2) False w in \<open>auto simp: visible_row_def split: option.splits\<close>)
  qed
qed

lemma save_decides:
  assumes ok: "store_ok c s" and row: "visible_row c (ss_repository s) (rs_id st) = Some x" and own: "in_scope c st"
    and expected: "rs_version st = Some e"
  shows "if e = sr_version x then \<exists>r. durable_save c s l st = Inr r
    else durable_save c s l st = Inl (StaleState (rs_id st) e (sr_version x))"
proof -
  obtain actor step meta where l: "l = (actor, step, meta)" by (cases l)
  have f: "find_row (ss_repository s) (rs_id st) = Some x" "sc_sql c \<Longrightarrow> sr_tenant x = sc_scope c"
    using row by (auto simp: visible_row_def split: option.splits if_splits)
  show ?thesis
    using f own expected
    by (cases "sc_sql c")
      (auto simp: l durable_save_def store_save_def repository_save_def sql_save_def memory_save_def seen_key_def Let_def in_scope_def)
qed

lemma store_ok_save:
  assumes "store_ok c s" "durable_save c s l st = Inr (s', st')"
  shows "store_ok c s'"
proof -
  obtain row where "rp_rows (ss_repository s') = put_row row (rp_rows (ss_repository s))"
      "sr_run_id row = rs_id st" "sr_state row = without_version st"
    using save_visible [OF assms] by blast
  then show ?thesis using assms(1)
    by (auto simp: store_ok_def repository_ok_def intro!: put_row_distinct put_row_all)
qed

lemma visible_put:
  assumes "rp_rows r' = put_row row (rp_rows r)" "sc_sql c \<longrightarrow> sr_tenant row = sc_scope c"
  shows "visible_row c r' i = (if i = sr_run_id row then Some row else visible_row c r i)"
  using assms by (auto simp: visible_row_def find_row_def find_put split: option.splits)

interpretation ds: versioned_store "durable_load c" "durable_save c" "store_ok c" "in_scope c" for c
proof
  fix r i st l r' st' cur
  assume ok: "store_ok c r"
  show "rs_id st = i \<and> rs_version st \<noteq> None" if load: "durable_load c r i = Some st"
  proof -
    obtain x where x: "visible_row c (ss_repository r) i = Some x" "st = (sr_state x)\<lparr> rs_version := Some (sr_version x) \<rparr>"
      using load unfolding load_visible [OF ok] by auto
    then have "find_row (ss_repository r) i = Some x" by (auto simp: visible_row_def split: option.splits if_splits)
    then have "x \<in> set (rp_rows (ss_repository r))" "sr_run_id x = i" by (auto simp: find_row_def find_Some_iff)
    then show ?thesis using ok x(2) by (auto simp: store_ok_def repository_ok_def list_all_iff)
  qed
  have visible: "\<exists>x. visible_row c (ss_repository r) (rs_id st) = Some x \<and> rs_version cur = Some (sr_version x)"
    if "durable_load c r (rs_id st) = Some cur"
    using that unfolding load_visible [OF ok] by auto
  show "\<exists>r' st'. durable_save c r l st = Inr (r', st')"
    if cur: "durable_load c r (rs_id st) = Some cur" "rs_version st = rs_version cur" "in_scope c st"
  proof -
    obtain x where "visible_row c (ss_repository r) (rs_id st) = Some x" "rs_version cur = Some (sr_version x)"
      using visible [OF cur(1)] by blast
    with save_decides [OF ok this(1) cur(3), of "sr_version x" l] cur(2) show ?thesis by auto
  qed
  show "durable_save c r l st = Inl (StaleState (rs_id st) (the (rs_version st)) (the (rs_version cur)))"
    if cur: "durable_load c r (rs_id st) = Some cur" "rs_version st \<noteq> None" "rs_version st \<noteq> rs_version cur" "in_scope c st"
  proof -
    obtain x e where "visible_row c (ss_repository r) (rs_id st) = Some x" "rs_version cur = Some (sr_version x)" "rs_version st = Some e"
      using visible [OF cur(1)] cur(2) by blast
    with save_decides [OF ok this(1) cur(4), of e l] cur(3) show ?thesis by simp
  qed
  assume save: "durable_save c r l st = Inr (r', st')"
  show "store_ok c r'" by (rule store_ok_save [OF ok save])
  obtain row where row: "st' = st\<lparr> rs_version := Some (sr_version row) \<rparr>"
      "rp_rows (ss_repository r') = put_row row (rp_rows (ss_repository r))"
      "sr_run_id row = rs_id st" "sr_state row = without_version st" "sc_sql c \<longrightarrow> sr_tenant row = sc_scope c"
      "case visible_row c (ss_repository r) (rs_id st) of
         None \<Rightarrow> sr_version row = 1
       | Some x \<Rightarrow> sr_version row = sr_version x + 1 \<and> (rs_version st \<noteq> None \<longrightarrow> rs_version st = Some (sr_version x))"
    using save_visible [OF ok save] by blast
  show "\<exists>v. st' = st\<lparr> rs_version := Some v \<rparr>" using row(1) by blast
  show "durable_load c r' i = (if i = rs_id st then Some st' else durable_load c r i)"
    unfolding load_visible [OF ok] load_visible [OF store_ok_save [OF ok save]] visible_put [OF row(2,5)]
    using row(1,3,4) by simp
  assume cur: "durable_load c r (rs_id st) = Some cur"
  then obtain x where x: "visible_row c (ss_repository r) (rs_id st) = Some x" "rs_version cur = Some (sr_version x)"
    unfolding load_visible [OF ok] by auto
  show "rs_version st = rs_version cur" if "rs_version st \<noteq> None" using row(6) x that by simp
  show "the (rs_version cur) < the (rs_version st')" using row(1,6) x by simp
qed

section \<open>Properties\<close>

text \<open>C13: no update is lost: of two writers that loaded the same version of a run, once the first has saved, the
  second is refused as stale however many writes came between, and the refusal names the version
  it would have overwritten. This holds in memory and in the tenant-scoped SQL repository.\<close>
theorem stale_write_refused:
  assumes "store_ok c s" "durable_load c s i = Some st" "rs_id a = i" "rs_version a = rs_version st"
    and "durable_save c s l a = Inr (s1, a')" "writes_by (durable_save c) s1 s2"
    and "rs_id b = i" "rs_version b = rs_version st" "in_scope c b"
  shows "\<exists>cur. durable_load c s2 i = Some cur \<and> the (rs_version st) < the (rs_version cur)
    \<and> durable_save c s2 l' b = Inl (StaleState i (the (rs_version st)) (the (rs_version cur)))"
  by (rule ds.no_lost_update [OF assms])

text \<open>the cache has no authority: a run the repository knows is answered from it alone, and under a tenant scope
  no load returns a state of another tenant.\<close>
theorem cache_never_overrides:
  assumes "store_ok c s" "store_load c s i = Inr (Some st, s')"
  shows "(\<forall>cur. durable_load c s i = Some cur \<longrightarrow> st = cur \<and> s' = s)
    \<and> (durable_load c s i = None \<and> sc_sql c \<longrightarrow> extract_tenant_id (sc_parse_uuid c) st = sc_scope c \<and> sc_scope c \<noteq> None)
    \<and> durable_load c s' i = Some st"
proof (cases "durable_load c s i")
  case (Some cur)
  then show ?thesis using assms(2) by (auto simp: store_load_def durable_load_def)
next
  case None
  then obtain m legacy where m: "ss_redis s = Some m" "dget m i = Some legacy" "rs_id legacy = i"
      "sc_sql c \<longrightarrow> sc_scope c \<noteq> None \<and> extract_tenant_id (sc_parse_uuid c) legacy = sc_scope c"
      "durable_save c s (''redis_legacy_backfill'', None, [(''source'', VStr ''redis_fallback'')]) legacy = Inr (s', st)"
    using assms(2) by (auto simp: store_load_def durable_load_def durable_save_def split: option.splits if_splits)
  obtain v where "st = legacy\<lparr> rs_version := Some v \<rparr>" using ds.save_same [OF assms(1) m(5)] by blast
  moreover have "durable_load c s' i = Some st" using ds.save_load [OF assms(1) m(5), of i] m(3) by simp
  ultimately show ?thesis using None m(4) by (simp add: extract_tenant_id_def)
qed

section \<open>A worked run\<close>

definition sample_config :: store_config where
  "sample_config = \<lparr> sc_hash = (\<lambda>st. rs_status st), sc_parse_uuid = Some, sc_sql = True, sc_scope = Some ''t1'', sc_registry = [] \<rparr>"

definition sample_run :: run_state where
  "sample_run = \<lparr> rs_id = ''wfr_1'', rs_steps = [], rs_timeout_hours = None, rs_replan_on_failure = False, rs_status = ''running'',
     rs_trigger = [], rs_steps_total = 0, rs_steps_completed = 0, rs_results = [], rs_started_at = 0, rs_completed_at = None,
     rs_cancelled_at = None, rs_waiting_step = None, rs_error = VNone, rs_replan_count = 0, rs_replan_history = [],
     rs_tenant = Some ''t1'', rs_workflow_run = None, rs_workflow = None, rs_version = None \<rparr>"

definition empty_store :: state_store where
  "empty_store = \<lparr> ss_repository = \<lparr> rp_rows = [], rp_transitions = [] \<rparr>, ss_redis = Some [(''wfr_1'', sample_run)] \<rparr>"

definition sample_store :: state_store where
  "sample_store = fst (projr (durable_save sample_config empty_store ([], None, []) sample_run))"

lemma empty_store_ok: "store_ok sample_config empty_store"
  by (simp add: store_ok_def repository_ok_def empty_store_def sample_config_def)

lemma sample_saved: "durable_save sample_config empty_store ([], None, []) sample_run = Inr (sample_store, sample_run\<lparr> rs_version := Some 1 \<rparr>)"
  by (simp add: sample_store_def) (simp add: durable_save_def store_save_def repository_save_def sql_save_def args_of_def
    sample_config_def sample_run_def empty_store_def extract_tenant_id_def coerce_uuid_def or_value_def text_value_def
    find_row_def seen_key_def Let_def)

theorem stale_write_refused_witness:
  "\<exists>cur. durable_load sample_config
       (fst (projr (durable_save sample_config sample_store ([], None, []) (sample_run\<lparr> rs_version := Some 1, rs_status := ''cancelled'' \<rparr>)))) ''wfr_1''
       = Some cur \<and> (1 :: int) < the (rs_version cur)"
proof -
  let ?a = "sample_run\<lparr> rs_version := Some 1, rs_status := ''cancelled'' \<rparr>"
  have ok: "store_ok sample_config sample_store" by (rule ds.save_valid [OF empty_store_ok sample_saved])
  have load: "durable_load sample_config sample_store ''wfr_1'' = Some (sample_run\<lparr> rs_version := Some 1 \<rparr>)"
    using ds.save_load [OF empty_store_ok sample_saved, of "''wfr_1''"] by (simp add: sample_run_def)
  have own: "in_scope sample_config ?a"
    by (simp add: in_scope_def sample_config_def sample_run_def extract_tenant_id_def coerce_uuid_def or_value_def text_value_def)
  then obtain s1 a' where save: "durable_save sample_config sample_store ([], None, []) ?a = Inr (s1, a')"
    using ds.save_accepts [OF ok, of ?a "sample_run\<lparr> rs_version := Some 1 \<rparr>" "([], None, [])"] load by (auto simp: sample_run_def)
  have "rs_id ?a = ''wfr_1''" "rs_version ?a = rs_version (sample_run\<lparr> rs_version := Some 1 \<rparr>)" by (simp_all add: sample_run_def)
  from stale_write_refused [OF ok load this save writes_by.none this own, of "([], None, [])"] save show ?thesis by auto
qed

theorem cache_never_overrides_witness:
  "\<exists>st s'. store_load sample_config empty_store ''wfr_1'' = Inr (Some st, s') \<and> durable_load sample_config s' ''wfr_1'' = Some st"
proof -
  have "store_load sample_config empty_store ''wfr_1'' = Inr (Some (sample_run\<lparr> rs_version := Some 1 \<rparr>),
      fst (projr (durable_save sample_config empty_store (''redis_legacy_backfill'', None, [(''source'', VStr ''redis_fallback'')]) sample_run)))"
    by (simp add: store_load_def repository_load_def sql_load_def lookup_tenants_def durable_save_def store_save_def repository_save_def
      sql_save_def args_of_def sample_config_def sample_run_def empty_store_def extract_tenant_id_def coerce_uuid_def or_value_def
      text_value_def find_row_def seen_key_def Let_def)
  then show ?thesis using cache_never_overrides [OF empty_store_ok] by blast
qed

end
