(* ===== verification/Workflow_Steps.thy ===== *)
theory Workflow_Steps
  imports State_Store Conditions
begin

text \<open>
  What the engine does around a step (\<open>workflows/engine.py\<close>, \<open>workflows/step_results.py\<close> and the
  retry rule's part of \<open>workflows/step_types.py\<close>): which results it accepts and how it records them,
  when the dependencies of a step allow it to run, which branch of a condition is skipped, and
  whether a step may be retried. \<open>str\<close> of a value that is not text is taken from the library.
\<close>

section \<open>Results\<close>

definition ALLOWED_STEP_STATUSES :: "string list" where
  "ALLOWED_STEP_STATUSES =
     [''completed'', ''failed'', ''skipped'', ''stubbed'', ''waiting_hitl'', ''waiting_delay'', ''waiting_event'',
      ''timed_out'', ''cancelled'', ''compensated'']"

definition SUCCESSFUL_STEP_STATUSES :: "string list" where "SUCCESSFUL_STEP_STATUSES = [''completed'']"
definition FAILED_STEP_STATUSES :: "string list" where "FAILED_STEP_STATUSES = [''failed'', ''cancelled'']"

definition is_success_status :: "string option \<Rightarrow> bool" where
  "is_success_status s \<longleftrightarrow> s \<in> Some ` set SUCCESSFUL_STEP_STATUSES"

definition is_failure_status :: "string option \<Rightarrow> bool" where
  "is_failure_status s \<longleftrightarrow> s \<in> Some ` set FAILED_STEP_STATUSES"

text \<open>The error document of a typed step failure.\<close>

record step_error =
  se_code :: string
  se_message :: string
  se_details :: "pv dict"

definition to_error :: "step_error \<Rightarrow> pv" where
  "to_error e = VDict ([(''code'', VStr (se_code e)), (''message'', VStr (se_message e))]
     @ (if se_details e = [] then [] else [(''details'', VDict (se_details e))]))"

definition UnknownStepStatusError :: "string \<Rightarrow> pv \<Rightarrow> step_error" where
  "UnknownStepStatusError step_id status = \<lparr> se_code = ''unknown_step_status'',
     se_message = ''Workflow step returned an unsupported status.'',
     se_details = [(''step_id'', VStr step_id), (''status'', status)] \<rparr>"

definition failure_result :: "string \<Rightarrow> string \<Rightarrow> step_error \<Rightarrow> pv \<Rightarrow> pv dict" where
  "failure_result step_id step_type failure output =
     [(''step_id'', VStr step_id), (''type'', VStr step_type), (''status'', VStr ''failed''), (''output'', output),
      (''error'', to_error failure)]"

definition exception_child_result :: "string \<Rightarrow> string \<Rightarrow> string \<Rightarrow> pv dict" where
  "exception_child_result child_id exception_type cause =
     [(''step_id'', VStr child_id), (''status'', VStr ''failed''), (''output'', VNone),
      (''error'', VDict [(''code'', VStr ''parallel_child_exception''), (''message'', VStr ''Parallel child raised an exception.''),
        (''details'', VDict [(''exception_type'', VStr exception_type), (''cause'', VStr cause)])])]"

text \<open>A status that is not hashable makes the membership test raise.\<close>

definition known_status :: "pv \<Rightarrow> (py_error, bool) res" where
  "known_status status = rbind (hash_key status) (\<lambda>k. Inr (k \<in> VStr ` set ALLOWED_STEP_STATUSES))"

definition status_text :: "py_lib \<Rightarrow> pv \<Rightarrow> pv" where
  "status_text L status = (if status = VNone then VNone else VStr (py_str L status))"

definition normalize_step_result :: "py_lib \<Rightarrow> wf_step \<Rightarrow> pv \<Rightarrow> (py_error, pv dict) res" where
  "normalize_step_result L step result =
     (case result of
        VDict d \<Rightarrow>
          rbind (known_status (vget d ''status'')) (\<lambda>known.
            Inr (if known then d
                 else failure_result (ws_id step) (ws_type step)
                        (UnknownStepStatusError (ws_id step) (status_text L (vget d ''status''))) result))
      | _ \<Rightarrow> Inr (failure_result (ws_id step) (ws_type step) (UnknownStepStatusError (ws_id step) VNone) result))"

definition set_default :: "pv dict \<Rightarrow> string \<Rightarrow> pv \<Rightarrow> pv dict" where
  "set_default d k v = (if dhas d k then d else dset d k v)"

definition normalize_child_result :: "py_lib \<Rightarrow> (string \<times> string, pv) res \<Rightarrow> string \<Rightarrow> (py_error, pv dict) res" where
  "normalize_child_result L value child_id =
     (case value of
        Inl (exception_type, cause) \<Rightarrow> Inr (exception_child_result child_id exception_type cause)
      | Inr (VDict d0) \<Rightarrow>
          let d = set_default d0 ''step_id'' (VStr child_id);
              step_id = (if truthy (vget d ''step_id'') then py_str L (vget d ''step_id'') else child_id);
              step_type = (if truthy (vget d ''type'') then py_str L (vget d ''type'') else ''parallel_child'')
          in rbind (known_status (vget d ''status'')) (\<lambda>known.
               Inr (if known then set_default d ''output'' (VDict [])
                    else failure_result step_id step_type
                           (UnknownStepStatusError step_id (status_text L (vget d ''status''))) (VDict d)))
      | Inr v \<Rightarrow> Inr [(''step_id'', VStr child_id), (''status'', VStr ''completed''), (''output'', v)])"

definition copy_if :: "pv dict \<Rightarrow> string \<Rightarrow> pv dict \<Rightarrow> pv dict" where
  "copy_if result k d = (if truthy (vget result k) then dset d k (vget result k) else d)"

definition state_result_from_step_result :: "pv dict \<Rightarrow> pv dict" where
  "state_result_from_step_result result =
     (let d0 = [(''output'', case dget result ''output'' of None \<Rightarrow> VDict result | Some v \<Rightarrow> v),
                (''status'', vget result ''status''), (''confidence'', vget result ''confidence'')];
          d1 = copy_if result ''error'' d0
      in if truthy (vget result ''stubbed'') then
           copy_if result ''action'' (copy_if result ''agent'' (copy_if result ''connector''
             (dset (dset (dset d1 ''stubbed'' (VBool True)) ''reason'' (vget result ''reason'')) ''code'' (vget result ''code''))))
         else d1)"

section \<open>Dependencies, branches and context\<close>

definition skipped_result :: "string \<Rightarrow> pv dict" where
  "skipped_result reason =
     [(''output'', VNone), (''status'', VStr ''skipped''), (''confidence'', VNone), (''reason'', VStr reason)]"

text \<open>The steps a fallback falls back from: by definition, and by the mark a dependency's result carries.\<close>

definition sources_of :: "wf_step \<Rightarrow> run_state \<Rightarrow> string list" where
  "sources_of step st =
     foldl (\<lambda>sources dep.
        if dep \<notin> set sources \<and> (case dget (rs_results st) dep of None \<Rightarrow> False
             | Some r \<Rightarrow> vget r ''fallback_target'' = VStr (ws_id step))
        then sources @ [dep] else sources)
       (fallback_sources (ws_id step) (rs_steps st)) (ws_depends_on step)"

definition status_of :: "run_state \<Rightarrow> string \<Rightarrow> pv option" where
  "status_of st i = map_option (\<lambda>r. vget r ''status'') (dget (rs_results st) i)"

definition quoted :: "string \<Rightarrow> string" where
  "quoted s = CHR 0x27 # s @ [CHR 0x27]"

definition status_word :: "pv \<Rightarrow> string" where
  "status_word v = (case v of VStr s \<Rightarrow> s | _ \<Rightarrow> ''None'')"

fun check_deps :: "run_state \<Rightarrow> string list \<Rightarrow> string list \<Rightarrow> string option" where
  "check_deps st sources [] = None"
| "check_deps st sources (dep # deps) =
     (if dep \<in> set sources then check_deps st sources deps
      else case dget (rs_results st) dep of
        None \<Rightarrow> Some (''Dependency '' @ quoted dep @ '' has not been executed'')
      | Some r \<Rightarrow>
          if vget r ''status'' = VStr ''skipped'' \<and> vget r ''reason'' = VStr ''branch_not_taken'' then Some ''branch_not_taken''
          else if vget r ''status'' \<noteq> VStr ''completed'' then Some (''Dependency '' @ quoted dep @ '' did not complete successfully (status='' @ status_word (vget r ''status'') @ '')'')
          else check_deps st sources deps)"

definition check_dependencies :: "wf_step \<Rightarrow> run_state \<Rightarrow> string option" where
  "check_dependencies step st =
     (let sources = sources_of step st in
      case find (\<lambda>i. \<not> dhas (rs_results st) i) sources of
        Some i \<Rightarrow> Some (''Fallback source '' @ quoted i @ '' has not been executed'')
      | None \<Rightarrow>
          if sources \<noteq> [] \<and> \<not> list_ex (\<lambda>i. status_of st i = Some (VStr ''failed'')) sources then Some ''fallback_not_needed''
          else check_deps st sources (ws_depends_on step))"

definition build_context :: "run_state \<Rightarrow> pv dict" where
  "build_context st = foldl (\<lambda>d (k, r). dset d k (VDict r)) (rs_trigger st) (rs_results st)"

definition resolve_condition_branch :: "wf_step \<Rightarrow> pv dict \<Rightarrow> string option" where
  "resolve_condition_branch step result =
     (if truthy (vget result ''result'') then ws_true_path step else ws_false_path step)"

definition skip_path :: "string option \<Rightarrow> string option \<Rightarrow> run_state \<Rightarrow> run_state" where
  "skip_path path branch_target st =
     (case path of
        None \<Rightarrow> st
      | Some other \<Rightarrow>
          if other = [] \<or> path = branch_target \<or> dhas (rs_results st) other then st
          else st\<lparr> rs_results := dset (rs_results st) other (skipped_result ''branch_not_taken'') \<rparr>)"

definition skip_branch_not_taken :: "wf_step \<Rightarrow> string option \<Rightarrow> run_state \<Rightarrow> run_state" where
  "skip_branch_not_taken step branch_target st =
     (let st' = skip_path (ws_false_path step) branch_target (skip_path (ws_true_path step) branch_target st)
      in st'\<lparr> rs_steps_completed := length (rs_results st') \<rparr>)"

definition step_type_for :: "run_state \<Rightarrow> string \<Rightarrow> string" where
  "step_type_for st step_id =
     (case find (\<lambda>s. ws_id s = step_id) (rs_steps st) of
        None \<Rightarrow> ''agent''
      | Some s \<Rightarrow> lower (strip (if ws_type s = [] then ''agent'' else ws_type s)))"

definition is_rejection :: "py_lib \<Rightarrow> pv dict \<Rightarrow> bool" where
  "is_rejection L decision \<longleftrightarrow>
     lower (strip (if truthy (vget decision ''decision'') then py_str L (vget decision ''decision'') else []))
       \<in> {''reject'', ''rejected'', ''deny'', ''denied''}"

section \<open>The retry rule\<close>

definition READ_ONLY_ACTION_PREFIXES :: "string list" where
  "READ_ONLY_ACTION_PREFIXES =
     [''analy'', ''audit'', ''check'', ''classif'', ''compare'', ''describe'', ''detect'', ''estimate'', ''evaluate'',
      ''extract'', ''fetch'', ''find'', ''forecast'', ''get'', ''identify'', ''list'', ''lookup'', ''monitor'', ''plan'',
      ''query'', ''rank'', ''read'', ''recommend'', ''reconcile'', ''research'', ''retrieve'', ''review'', ''score'',
      ''search'', ''summar'', ''validate'', ''verify'']"

definition WRITE_ACTION_HINTS :: "string list" where
  "WRITE_ACTION_HINTS =
     [''activate'', ''approve'', ''cancel'', ''charge'', ''create'', ''delete'', ''deploy'', ''disburse'', ''execute'',
      ''file'', ''initiate'', ''launch'', ''mutate'', ''notify'', ''pay'', ''post'', ''publish'', ''queue'', ''refund'',
      ''release'', ''remove'', ''schedule'', ''send'', ''set_'', ''setup'', ''spend'', ''submit'', ''sync'', ''transfer'',
      ''update'', ''upload'', ''upsert'', ''write'']"

definition normalize_key :: "py_lib \<Rightarrow> pv \<Rightarrow> string" where
  "normalize_key L value =
     map (\<lambda>c. if c = CHR ''-'' \<or> c = CHR '' '' then CHR ''_'' else c)
       (lower (strip (if truthy value then py_str L value else [])))"

definition is_read_only_name :: "py_lib \<Rightarrow> pv \<Rightarrow> bool" where
  "is_read_only_name L name =
     (let normalized = normalize_key L name in
      normalized \<noteq> [] \<and> \<not> list_ex (\<lambda>hint. contains hint normalized) WRITE_ACTION_HINTS
      \<and> list_ex (\<lambda>p. prefix p normalized) READ_ONLY_ACTION_PREFIXES)"

definition CONNECTOR_TOOL_ALIASES :: "(string \<times> string) dict" where
  "CONNECTOR_TOOL_ALIASES =
     [(''fetch_hubspot_contacts'', ''hubspot'', ''list_contacts''), (''get_hubspot_contacts'', ''hubspot'', ''list_contacts''),
      (''list_hubspot_contacts'', ''hubspot'', ''list_contacts''), (''retrieve_hubspot_contacts'', ''hubspot'', ''list_contacts''),
      (''hubspot_contact_retrieval'', ''hubspot'', ''list_contacts''), (''fetch_hubspot_deals'', ''hubspot'', ''list_deals''),
      (''get_hubspot_deals'', ''hubspot'', ''list_deals''), (''list_hubspot_deals'', ''hubspot'', ''list_deals''),
      (''retrieve_hubspot_deals'', ''hubspot'', ''list_deals''), (''hubspot_deal_retrieval'', ''hubspot'', ''list_deals'')]"

fun first_some :: "'a option list \<Rightarrow> 'a option" where
  "first_some [] = None"
| "first_some (x # xs) = (case x of None \<Rightarrow> first_some xs | Some v \<Rightarrow> Some v)"

definition split_tool_ref :: "py_lib \<Rightarrow> pv \<Rightarrow> (string \<times> string) option" where
  "split_tool_ref L value =
     (case value of
        VStr s \<Rightarrow>
          if prefix ''tool:'' s then None
          else (case split1 '':'' s of None \<Rightarrow> None | Some (a, b) \<Rightarrow> Some (normalize_key L (VStr a), strip b))
      | _ \<Rightarrow> None)"

text \<open>The fields of the step, and its id.\<close>

definition tool_ref_of :: "py_lib \<Rightarrow> pv dict \<Rightarrow> pv \<Rightarrow> bool \<Rightarrow> (string \<times> string) option" where
  "tool_ref_of L f step_id allow_action_tool =
     (let connector = or_value (vget f ''connector'') (vget f ''connector_key'');
          tool = or_value (vget f ''tool'') (vget f ''tool_name'');
          action = vget f ''action'';
          agent = or_value (vget f ''agent'') (vget f ''agent_type'')
      in case first_some (map (\<lambda>v. dget CONNECTOR_TOOL_ALIASES (normalize_key L v)) [tool, action, agent, step_id]) of
           Some r \<Rightarrow> Some r
         | None \<Rightarrow>
             (case first_some (map (split_tool_ref L) [tool, action]) of
                Some r \<Rightarrow> Some r
              | None \<Rightarrow>
                  if truthy connector \<and> truthy tool then Some (normalize_key L connector, strip (py_str L tool))
                  else if allow_action_tool \<and> truthy connector \<and> truthy action
                  then Some (normalize_key L connector, strip (py_str L action))
                  else None))"

definition connector_tool_ref_from_step :: "py_lib \<Rightarrow> wf_step \<Rightarrow> bool \<Rightarrow> (string \<times> string) option" where
  "connector_tool_ref_from_step L step allow_action_tool = tool_ref_of L (ws_fields step) (VStr (ws_id step)) allow_action_tool"

definition upper_char :: "char \<Rightarrow> char" where
  "upper_char c = (if is_lower_ascii c then char_of (code c - 32) else c)"

text \<open>An \<open>http\<close> step is retried only when its method reads GET, in any case of its letters.\<close>

definition step_is_retryable :: "py_lib \<Rightarrow> wf_step \<Rightarrow> bool" where
  "step_is_retryable L step =
     (let step_type = lower (strip (ws_type step)); f = ws_fields step;
          ref = connector_tool_ref_from_step L step (step_type = ''connector_tool'');
          keyed = truthy (vget f ''idempotency_key'')
      in if step_type \<in> {''notify'', ''sub_workflow'', ''human_in_loop'', ''wait'', ''wait_for_event''} then False
         else if step_type = ''http'' then
           map upper_char (strip (case dget f ''method'' of None \<Rightarrow> ''GET'' | Some v \<Rightarrow> py_str L v)) = ''GET''
         else if step_type = ''connector_tool''
                \<or> step_type = ''agent'' \<and> (case ref of None \<Rightarrow> False | Some (c, t) \<Rightarrow> c \<noteq> [] \<and> t \<noteq> []) then
           keyed \<or> is_read_only_name L (case ref of None \<Rightarrow> VNone | Some (c, t) \<Rightarrow> VStr t)
         else if step_type = ''agent'' then
           keyed \<or> is_read_only_name L (case dget f ''action'' of None \<Rightarrow> VStr ''process'' | Some v \<Rightarrow> v)
         else False)"

end
