(* ===== verification/Workflow_Engine.thy ===== *)
theory Workflow_Engine
  imports Workflow_Steps
begin

text \<open>
  The workflow engine (\<open>workflows/engine.py\<close>). An operation of the engine is a program of the type
  below: a tree of the interactions it has with the store, the clock, the operator override, the
  step handlers and the re-planner, each with what the engine does for every answer. The step
  relation runs a program against a store, and the interleaving of several programs and other
  writers is a sequence of such steps.
\<close>

section \<open>Programs\<close>

datatype raised = StoreRaised store_error | PyRaised py_error

text \<open>A handler answers with the exception's text or a value; the re-planner with new steps or a failure.\<close>

datatype prog =
    Return "pv dict"
  | Raise raised
  | Load string "run_state option \<Rightarrow> prog"
  | Save save_label run_state "(store_error, run_state) res \<Rightarrow> prog"
  | Execute wf_step run_state "pv dict" "(string, pv) res \<Rightarrow> prog"
  | Now "rat \<Rightarrow> prog"
  | Override run_state "(string \<times> pv) option \<Rightarrow> prog"
  | Replan run_state string string "wf_step list option \<Rightarrow> prog"
  | Restart string

definition save_then :: "save_label \<Rightarrow> run_state \<Rightarrow> (run_state \<Rightarrow> prog) \<Rightarrow> prog" where
  "save_then l st k = Save l st (\<lambda>r. case r of Inl e \<Rightarrow> Raise (StoreRaised e) | Inr st' \<Rightarrow> k st')"

definition results_value :: "run_state \<Rightarrow> pv" where
  "results_value st = VDict (map (\<lambda>(k, r). (k, VDict r)) (rs_results st))"

definition report :: "run_state \<Rightarrow> prog" where
  "report st = Return [(''status'', VStr (rs_status st)), (''step_results'', results_value st)]"

definition error_return :: "string \<Rightarrow> prog" where
  "error_return message = Return [(''error'', VStr message)]"

definition event :: "string \<Rightarrow> string \<Rightarrow> pv dict \<Rightarrow> save_label" where
  "event name step_id extra = (''workflow_engine'', Some step_id, (''event'', VStr name) # extra)"

definition record_result :: "string \<Rightarrow> pv dict \<Rightarrow> run_state \<Rightarrow> run_state" where
  "record_result step_id r st =
     (let results = dset (rs_results st) step_id r in st\<lparr> rs_results := results, rs_steps_completed := length results \<rparr>)"

definition failed_result :: "string \<Rightarrow> pv dict" where
  "failed_result message =
     [(''output'', VNone), (''status'', VStr ''failed''), (''confidence'', VNone), (''error'', VStr message)]"

section \<open>One step with retries\<close>

definition failed_value :: "pv \<Rightarrow> (pv dict) option" where
  "failed_value v = (case v of VDict d \<Rightarrow> if vget d ''status'' = VStr ''failed'' then Some d else None | _ \<Rightarrow> None)"

text \<open>\<open>retry_with_backoff\<close>: the attempts that are left after this one; the delays are not modelled.\<close>

fun attempts :: "nat \<Rightarrow> nat \<Rightarrow> wf_step \<Rightarrow> run_state \<Rightarrow> pv dict \<Rightarrow> ((string, pv) res \<Rightarrow> prog) \<Rightarrow> prog" where
  "attempts max_retries 0 step st ctx k =
     Execute step st ctx (\<lambda>r. case r of
        Inl e \<Rightarrow> k (Inl e)
      | Inr v \<Rightarrow> (case failed_value v of
                   None \<Rightarrow> k (Inr v)
                 | Some d \<Rightarrow> k (Inr (VDict (dset d ''retry_attempts'' (VInt (int max_retries)))))))"
| "attempts max_retries (Suc n) step st ctx k =
     Execute step st ctx (\<lambda>r. case r of
        Inl e \<Rightarrow> attempts max_retries n step st ctx k
      | Inr v \<Rightarrow> (case failed_value v of None \<Rightarrow> k (Inr v) | Some d \<Rightarrow> attempts max_retries n step st ctx k))"

definition execute_with_retry :: "py_lib \<Rightarrow> wf_step \<Rightarrow> run_state \<Rightarrow> pv dict \<Rightarrow> ((string, pv) res \<Rightarrow> prog) \<Rightarrow> prog" where
  "execute_with_retry L step st ctx k =
     (let max_retries = parse_retry_count (ws_on_failure step) in
      if max_retries > 0 \<and> step_is_retryable L step then attempts max_retries max_retries step st ctx k
      else Execute step st ctx k)"

section \<open>Parts of the loop\<close>

definition operator_halt :: "run_state \<Rightarrow> prog \<Rightarrow> prog" where
  "operator_halt st k =
     Override st (\<lambda>answer. case answer of
        None \<Rightarrow> k
      | Some (reason, doc) \<Rightarrow> Return [(''status'', VStr (rs_status st)), (''halted'', VBool True), (''override'', doc),
          (''error'', VStr reason), (''step_results'', results_value st)])"

definition timed_out :: "run_state \<Rightarrow> rat \<Rightarrow> rat \<Rightarrow> bool" where
  "timed_out st timeout_hours now \<longleftrightarrow> now - rs_started_at st > timeout_hours * 3600"

definition check_timeout :: "run_state \<Rightarrow> string \<Rightarrow> (run_state \<Rightarrow> prog) \<Rightarrow> prog \<Rightarrow> prog" where
  "check_timeout st step_id finish k =
     (case rs_timeout_hours st of
        None \<Rightarrow> k
      | Some h \<Rightarrow> Now (\<lambda>t.
          if timed_out st h t
          then save_then (event ''workflow_timed_out'' step_id []) (st\<lparr> rs_status := ''timed_out'' \<rparr>) finish
          else k))"

definition live_status :: "string \<Rightarrow> run_state \<Rightarrow> prog \<Rightarrow> prog" where
  "live_status run_id st k =
     Load run_id (\<lambda>latest. case latest of
        None \<Rightarrow> k
      | Some cur \<Rightarrow>
          if rs_status cur = ''running'' then k
          else Return [(''status'', VStr (rs_status cur)), (''step_results'', results_value st)])"

text \<open>Recording what a step returned: the result, the fallback it names and, for a condition, the branch.\<close>

definition recorded :: "wf_step \<Rightarrow> pv dict \<Rightarrow> run_state \<Rightarrow> run_state" where
  "recorded step result st =
     record_result (ws_id step)
       (case fallback_target step of
          None \<Rightarrow> state_result_from_step_result result
        | Some f \<Rightarrow> dset (state_result_from_step_result result) ''fallback_target'' (VStr f)) st"

definition mark_branch :: "wf_step \<Rightarrow> string \<Rightarrow> run_state \<Rightarrow> run_state" where
  "mark_branch step target st =
     st\<lparr> rs_results := dset (rs_results st) (ws_id step)
       (dset (case dget (rs_results st) (ws_id step) of None \<Rightarrow> [] | Some r \<Rightarrow> r) ''branch_target'' (VStr target)) \<rparr>"

definition branched :: "bool \<Rightarrow> wf_step \<Rightarrow> pv dict \<Rightarrow> run_state \<Rightarrow> run_state" where
  "branched must_exist step result st =
     (if ws_type step \<noteq> ''condition'' then st
      else
        let target = resolve_condition_branch step result;
            st1 = (case target of
                     None \<Rightarrow> st
                   | Some t \<Rightarrow> if t \<noteq> [] \<and> (must_exist \<longrightarrow> t \<in> ws_id ` set (rs_steps st)) then mark_branch step t st else st)
        in skip_branch_not_taken step target st1)"

text \<open>The status the run pauses with after a step, if it pauses, and the event that records it.\<close>

definition pause_of :: "wf_step \<Rightarrow> pv dict \<Rightarrow> (string \<times> pv dict) option" where
  "pause_of step result =
     (if ws_type step = ''human_in_loop'' \<or> vget result ''status'' = VStr ''waiting_hitl'' then Some (''waiting_hitl'', [])
      else if vget result ''status'' = VStr ''waiting_delay'' then Some (''waiting_delay'', [(''resume_at'', vget result ''resume_at'')])
      else if vget result ''status'' = VStr ''waiting_event'' then Some (''waiting_event'', [(''event_type'', vget result ''event_type'')])
      else None)"

text \<open>What follows a step that returned: the run fails, pauses or is checkpointed.\<close>

definition after_result ::
  "bool \<Rightarrow> wf_step \<Rightarrow> pv dict \<Rightarrow> run_state \<Rightarrow> (run_state \<Rightarrow> prog) \<Rightarrow> (run_state \<Rightarrow> prog) \<Rightarrow> (run_state \<Rightarrow> prog) \<Rightarrow> prog" where
  "after_result must_exist step result st fail pause k =
     (let st1 = recorded step result st in
      if vget result ''status'' = VStr ''failed'' \<and> \<not> step_allows_failure step
      then save_then (event ''step_failed'' (ws_id step) [(''error'', vget result ''error'')]) (st1\<lparr> rs_status := ''failed'' \<rparr>) fail
      else
        let st2 = branched must_exist step result st1 in
        case pause_of step result of
          Some (status, extra) \<Rightarrow>
            save_then (event status (ws_id step) extra) (st2\<lparr> rs_status := status, rs_waiting_step := Some (ws_id step) \<rparr>) pause
        | None \<Rightarrow> save_then (event ''step_checkpointed'' (ws_id step) []) st2 k)"

section \<open>Re-planning\<close>

definition MAX_REPLAN_ATTEMPTS :: nat where "MAX_REPLAN_ATTEMPTS = 3"

definition build_replan_event :: "nat \<Rightarrow> rat \<Rightarrow> string \<Rightarrow> string \<Rightarrow> wf_step list \<Rightarrow> pv" where
  "build_replan_event n now failed_step_id message new_steps =
     VDict [(''replan_number'', VInt (int n)), (''timestamp'', VFloat (Fin now)), (''failed_step_id'', VStr failed_step_id),
       (''error'', VStr message), (''replacement_steps'', VList (map (\<lambda>s. VStr (ws_id s)) new_steps)),
       (''replacement_count'', VInt (int (length new_steps)))]"

definition replanned_state :: "run_state \<Rightarrow> rat \<Rightarrow> string \<Rightarrow> string \<Rightarrow> wf_step list \<Rightarrow> run_state" where
  "replanned_state st now failed_step_id message new_steps =
     (let n = rs_replan_count st + 1;
          st1 = record_result failed_step_id
            [(''output'', VNone), (''status'', VStr ''replanned''), (''confidence'', VNone), (''error'', VStr message),
             (''replanned'', VBool True)] st;
          steps = filter (\<lambda>s. dhas (rs_results st1) (ws_id s)) (rs_steps st)
            @ map (\<lambda>s. s\<lparr> ws_fields := dset (ws_fields s) ''replanned'' (VBool True) \<rparr>) new_steps
      in st1\<lparr> rs_replan_history := rs_replan_history st @ [build_replan_event n now failed_step_id message new_steps],
              rs_replan_count := n, rs_steps := steps, rs_steps_total := length steps \<rparr>)"

definition attempt_replan :: "run_state \<Rightarrow> string \<Rightarrow> string \<Rightarrow> string \<Rightarrow> prog \<Rightarrow> prog" where
  "attempt_replan st run_id failed_step_id message otherwise =
     Replan st failed_step_id message (\<lambda>answer. case answer of
        None \<Rightarrow> otherwise
      | Some new_steps \<Rightarrow> Now (\<lambda>t.
          save_then (''workflow_engine.replan'', Some failed_step_id, [(''event'', VStr ''workflow_replanned''), (''error'', VStr message)])
            (replanned_state st t failed_step_id message new_steps) (\<lambda>st'. Restart run_id)))"

section \<open>Executing a run\<close>

definition find_step :: "wf_step list \<Rightarrow> string \<Rightarrow> wf_step option" where
  "find_step steps i = dget (build_step_index steps) i"

definition complete_run :: "run_state \<Rightarrow> prog" where
  "complete_run st = Now (\<lambda>t.
     save_then (''workflow_engine'', None, [(''event'', VStr ''workflow_completed'')])
       (st\<lparr> rs_status := ''completed'', rs_completed_at := Some t \<rparr>) report)"

text \<open>A step that raised: re-planning when the run asks for it and has attempts left, otherwise the run fails.\<close>

definition step_raised :: "string \<Rightarrow> run_state \<Rightarrow> string \<Rightarrow> string \<Rightarrow> prog" where
  "step_raised run_id st step_id message =
     (let failing = save_then (event ''step_failed'' step_id [(''error'', VStr message)])
            ((record_result step_id (failed_result message) st)\<lparr> rs_status := ''failed'' \<rparr>) report
      in if rs_replan_on_failure st \<and> rs_replan_count st < MAX_REPLAN_ATTEMPTS
         then attempt_replan st run_id step_id message failing else failing)"

text \<open>One step of the loop past its checks: skipped, or executed and recorded.\<close>

definition run_step :: "py_lib \<Rightarrow> string \<Rightarrow> string \<Rightarrow> run_state \<Rightarrow> (run_state \<Rightarrow> prog) \<Rightarrow> (run_state \<Rightarrow> prog) \<Rightarrow> prog" where
  "run_step L run_id step_id st after_skip k =
     (case find_step (rs_steps st) step_id of
        None \<Rightarrow> Raise (PyRaised (KeyError step_id))
      | Some step \<Rightarrow>
          (case check_dependencies step st of
             Some reason \<Rightarrow>
               save_then (event ''step_skipped'' step_id [(''reason'', VStr reason)])
                 (record_result step_id (skipped_result reason) st) after_skip
           | None \<Rightarrow>
               execute_with_retry L step st (build_context st) (\<lambda>r. case r of
                  Inl message \<Rightarrow> step_raised run_id st step_id message
                | Inr v \<Rightarrow>
                    (case normalize_step_result L step v of
                       Inl e \<Rightarrow> Raise (PyRaised e)
                     | Inr result \<Rightarrow> after_result True step result st report report k))))"

fun run_steps :: "py_lib \<Rightarrow> string \<Rightarrow> string list \<Rightarrow> bool \<Rightarrow> run_state \<Rightarrow> prog" where
  "run_steps L run_id [] ran_step st = complete_run st"
| "run_steps L run_id (step_id # order) ran_step st =
     (if dhas (rs_results st) step_id then run_steps L run_id order ran_step st
      else
        (if ran_step then live_status run_id st else (\<lambda>k. k))
        (operator_halt st
        (check_timeout st step_id report
        (run_step L run_id step_id st (run_steps L run_id order ran_step) (run_steps L run_id order True)))))"

definition execute_unguarded :: "py_lib \<Rightarrow> string \<Rightarrow> prog" where
  "execute_unguarded L run_id =
     Load run_id (\<lambda>loaded. case loaded of
        None \<Rightarrow> error_return ''Run not found''
      | Some st \<Rightarrow>
          if rs_status st \<noteq> ''running'' then report st
          else case topological_sort (rs_steps st) of
                 Inl e \<Rightarrow> Raise (PyRaised e)
               | Inr order \<Rightarrow> run_steps L run_id order False st)"

definition stale_state_result :: "string \<Rightarrow> prog" where
  "stale_state_result run_id =
     Load run_id (\<lambda>latest. case latest of
        None \<Rightarrow> Return [(''status'', VStr ''unknown''), (''step_results'', VDict [])]
      | Some st \<Rightarrow> report st)"

fun is_stale :: "raised \<Rightarrow> bool" where
  "is_stale (StoreRaised (StaleState i e a)) = True"
| "is_stale _ = False"

text \<open>\<open>try: ... except StaleStateError: ...\<close> around a program.\<close>

primrec catch_stale :: "prog \<Rightarrow> prog \<Rightarrow> prog" where
  "catch_stale h (Return x) = Return x"
| "catch_stale h (Raise e) = (if is_stale e then h else Raise e)"
| "catch_stale h (Load i k) = Load i (\<lambda>x. catch_stale h (k x))"
| "catch_stale h (Save l st k) = Save l st (\<lambda>x. catch_stale h (k x))"
| "catch_stale h (Execute s st c k) = Execute s st c (\<lambda>x. catch_stale h (k x))"
| "catch_stale h (Now k) = Now (\<lambda>x. catch_stale h (k x))"
| "catch_stale h (Override st k) = Override st (\<lambda>x. catch_stale h (k x))"
| "catch_stale h (Replan st i m k) = Replan st i m (\<lambda>x. catch_stale h (k x))"
| "catch_stale h (Restart i) = Restart i"

definition execute :: "py_lib \<Rightarrow> string \<Rightarrow> prog" where
  "execute L run_id = catch_stale (stale_state_result run_id) (execute_unguarded L run_id)"

section \<open>The other operations\<close>

definition step_failure :: "string \<Rightarrow> pv \<Rightarrow> run_state \<Rightarrow> prog" where
  "step_failure step_id error st = Return [(''status'', VStr ''failed''), (''step_id'', VStr step_id), (''error'', error)]"

definition step_pause :: "string \<Rightarrow> run_state \<Rightarrow> prog" where
  "step_pause step_id st = Return [(''status'', VStr (rs_status st)), (''step_id'', VStr step_id)]"

text \<open>\<open>execute_next\<close>: the next step that is not skipped, and then stop.\<close>

definition next_step :: "py_lib \<Rightarrow> string \<Rightarrow> run_state \<Rightarrow> (run_state \<Rightarrow> prog) \<Rightarrow> prog" where
  "next_step L step_id st after_skip =
     (case find_step (rs_steps st) step_id of
        None \<Rightarrow> Raise (PyRaised (KeyError step_id))
      | Some step \<Rightarrow>
          (case check_dependencies step st of
             Some reason \<Rightarrow>
               save_then (event ''step_skipped'' step_id [(''reason'', VStr reason)])
                 (record_result step_id (skipped_result reason) st) after_skip
           | None \<Rightarrow>
               operator_halt st
               (execute_with_retry L step st (build_context st) (\<lambda>r. case r of
                  Inl message \<Rightarrow>
                    save_then (event ''step_failed'' step_id [(''error'', VStr message)])
                      ((record_result step_id (failed_result message) st)\<lparr> rs_status := ''failed'' \<rparr>)
                      (step_failure step_id (VStr message))
                | Inr v \<Rightarrow>
                    (case normalize_step_result L step v of
                       Inl e \<Rightarrow> Raise (PyRaised e)
                     | Inr result \<Rightarrow>
                         after_result False step result st (step_failure step_id (vget result ''error''))
                           (step_pause step_id) (\<lambda>st'. Return result))))))"

fun next_steps :: "py_lib \<Rightarrow> string list \<Rightarrow> run_state \<Rightarrow> prog" where
  "next_steps L [] st = complete_run st"
| "next_steps L (step_id # order) st =
     (if dhas (rs_results st) step_id then next_steps L order st
      else
        check_timeout st step_id (\<lambda>st'. Return [(''status'', VStr ''timed_out'')])
        (next_step L step_id st (next_steps L order)))"

definition execute_next :: "py_lib \<Rightarrow> string \<Rightarrow> prog" where
  "execute_next L run_id = catch_stale (stale_state_result run_id)
     (Load run_id (\<lambda>loaded. case loaded of
        None \<Rightarrow> error_return ''Run not found''
      | Some st \<Rightarrow>
          if rs_status st \<noteq> ''running'' then report st
          else case topological_sort (rs_steps st) of
                 Inl e \<Rightarrow> Raise (PyRaised e)
               | Inr order \<Rightarrow> next_steps L order st))"

definition hitl_rejected :: "string \<Rightarrow> pv dict \<Rightarrow> rat \<Rightarrow> run_state \<Rightarrow> run_state" where
  "hitl_rejected step_id decision now st =
     (record_result step_id
        [(''output'', VDict decision), (''status'', VStr ''rejected''), (''confidence'', vget decision ''confidence''),
         (''error'', VDict [(''code'', VStr ''hitl_rejected''), (''message'', VStr ''Rejected by human reviewer'')])] st)
     \<lparr> rs_status := ''failed'', rs_completed_at := Some now, rs_waiting_step := None,
       rs_error := VDict [(''code'', VStr ''hitl_rejected''),
         (''message'', VStr (''Step '' @ quoted step_id @ '' was rejected by a human reviewer''))] \<rparr>"

text \<open>A decision is the output of a dedicated step; any other step keeps what it produced before the pause.\<close>

definition hitl_output :: "run_state \<Rightarrow> string \<Rightarrow> pv dict \<Rightarrow> pv dict" where
  "hitl_output st step_id decision =
     (let prior = (case dget (rs_results st) step_id of None \<Rightarrow> [] | Some r \<Rightarrow> r);
          prior_output = vget prior ''output''
      in if step_type_for st step_id = ''human_in_loop'' \<or> prior_output \<in> {VNone, VDict [], VStr []}
         then [(''output'', VDict decision), (''status'', VStr ''completed''), (''confidence'', vget decision ''confidence'')]
         else
           let merged = dset (case prior_output of VDict d \<Rightarrow> d | v \<Rightarrow> [(''result'', v)]) ''hitl_decision'' (VDict decision)
           in [(''output'', VDict merged), (''status'', VStr ''completed''),
               (''confidence'', if vget prior ''confidence'' \<noteq> VNone then vget prior ''confidence'' else vget decision ''confidence'')])"

definition resumed :: "string \<Rightarrow> pv dict \<Rightarrow> run_state \<Rightarrow> run_state" where
  "resumed step_id r st = (record_result step_id r st)\<lparr> rs_status := ''running'', rs_waiting_step := None \<rparr>"

definition resume_from_hitl :: "py_lib \<Rightarrow> string \<Rightarrow> pv dict \<Rightarrow> prog" where
  "resume_from_hitl L run_id decision =
     Load run_id (\<lambda>loaded. case loaded of
        None \<Rightarrow> error_return ''Run not found''
      | Some st \<Rightarrow>
          if rs_status st \<noteq> ''waiting_hitl''
          then error_return (''Run is not waiting for HITL, current status: '' @ rs_status st)
          else case rs_waiting_step st of
            None \<Rightarrow> error_return ''No waiting step recorded''
          | Some i \<Rightarrow>
              if i = [] then error_return ''No waiting step recorded''
              else if is_rejection L decision then
                Now (\<lambda>t. save_then (''workflow_engine.hitl_resume'', Some i, [(''event'', VStr ''hitl_rejected'')])
                       (hitl_rejected i decision t st) report)
              else
                save_then (''workflow_engine.hitl_resume'', Some i, [(''event'', VStr ''hitl_resumed'')])
                  (resumed i (hitl_output st i decision) st) (\<lambda>st'. Restart run_id))"

definition resume_from_wait :: "string \<Rightarrow> pv dict \<Rightarrow> prog" where
  "resume_from_wait run_id step_result =
     Load run_id (\<lambda>loaded. case loaded of
        None \<Rightarrow> error_return ''Run not found''
      | Some st \<Rightarrow>
          if rs_status st \<notin> {''waiting_delay'', ''waiting_event''}
          then error_return (''Run is not waiting, current status: '' @ rs_status st)
          else case rs_waiting_step st of
            None \<Rightarrow> error_return ''No waiting step recorded''
          | Some i \<Rightarrow>
              if i = [] then error_return ''No waiting step recorded''
              else
                save_then (''workflow_engine.wait_resume'', Some i, [(''event'', VStr ''wait_resumed'')])
                  (resumed i [(''output'', VDict step_result), (''status'', VStr ''completed'')] st) (\<lambda>st'. Restart run_id))"

definition resume_from_event :: "string \<Rightarrow> pv dict \<Rightarrow> prog" where
  "resume_from_event run_id event_data =
     resume_from_wait run_id [(''event'', VDict event_data), (''status'', VStr ''event_received'')]"

definition timeout_event_wait :: "string \<Rightarrow> string \<Rightarrow> prog" where
  "timeout_event_wait run_id step_id =
     Load run_id (\<lambda>loaded. case loaded of
        None \<Rightarrow> error_return ''Run not found''
      | Some st \<Rightarrow>
          if rs_status st \<noteq> ''waiting_event'' \<or> rs_waiting_step st \<noteq> Some step_id
          then error_return ''Step is no longer waiting''
          else
            save_then (''workflow_engine.event_timeout'', Some step_id, [(''event'', VStr ''event_wait_timed_out'')])
              (resumed step_id [(''status'', VStr ''timed_out''), (''output'', VDict [])] st) (\<lambda>st'. Restart run_id))"

definition cancel :: "string \<Rightarrow> prog" where
  "cancel run_id =
     Load run_id (\<lambda>loaded. case loaded of
        None \<Rightarrow> Return []
      | Some st \<Rightarrow>
          Now (\<lambda>t. save_then (''workflow_engine.cancel'', None, [(''event'', VStr ''workflow_cancelled'')])
             (st\<lparr> rs_status := ''cancelled'', rs_cancelled_at := Some t \<rparr>) (\<lambda>st'. Return [])))"

text \<open>The state a run starts with; the id is fresh and the definition was parsed.\<close>

definition initial_state ::
  "string \<Rightarrow> wf_step list \<Rightarrow> rat option \<Rightarrow> bool \<Rightarrow> pv dict \<Rightarrow> string option \<Rightarrow> string option \<Rightarrow> string option \<Rightarrow> rat \<Rightarrow> run_state" where
  "initial_state run_id steps timeout replan trigger tenant workflow_run workflow now =
     \<lparr> rs_id = run_id, rs_steps = steps, rs_timeout_hours = timeout, rs_replan_on_failure = replan, rs_status = ''running'',
       rs_trigger = trigger, rs_steps_total = length steps, rs_steps_completed = 0, rs_results = [], rs_started_at = now,
       rs_completed_at = None, rs_cancelled_at = None, rs_waiting_step = None, rs_error = VNone, rs_replan_count = 0,
       rs_replan_history = [], rs_tenant = tenant, rs_workflow_run = workflow_run, rs_workflow = workflow, rs_version = None \<rparr>"

definition start_run ::
  "string \<Rightarrow> wf_step list \<Rightarrow> rat option \<Rightarrow> bool \<Rightarrow> pv dict \<Rightarrow> string option \<Rightarrow> string option \<Rightarrow> string option \<Rightarrow> prog" where
  "start_run run_id steps timeout replan trigger tenant workflow_run workflow =
     Now (\<lambda>t. save_then (''workflow_engine'', None, [(''event'', VStr ''run_started'')])
       (initial_state run_id steps timeout replan trigger tenant workflow_run workflow t)
       (\<lambda>st. Return [(''run_id'', VStr run_id)]))"

section \<open>Running programs\<close>

text \<open>One interaction of a program with the store it runs against; whatever is not the store may answer anything.\<close>

inductive prog_step ::
  "py_lib \<Rightarrow> ('r \<Rightarrow> string \<Rightarrow> run_state option) \<Rightarrow> ('r \<Rightarrow> save_label \<Rightarrow> run_state \<Rightarrow> (store_error, 'r \<times> run_state) res)
    \<Rightarrow> 'r \<times> prog \<Rightarrow> 'r \<times> prog \<Rightarrow> bool" for L ld sv where
  load: "prog_step L ld sv (r, Load i k) (r, k (ld r i))"
| save: "sv r l st = Inr (r', st') \<Longrightarrow> prog_step L ld sv (r, Save l st k) (r', k (Inr st'))"
| refuse: "sv r l st = Inl e \<Longrightarrow> prog_step L ld sv (r, Save l st k) (r, k (Inl e))"
| execute: "prog_step L ld sv (r, Execute s st c k) (r, k x)"
| now: "prog_step L ld sv (r, Now k) (r, k t)"
| override: "prog_step L ld sv (r, Override st k) (r, k b)"
| replan: "prog_step L ld sv (r, Replan st i m k) (r, k a)"
| restart: "prog_step L ld sv (r, Restart i) (r, execute L i)"

inductive_cases prog_step_cases: "prog_step L ld sv (r, p) (r', p')"

text \<open>Several programs share a store; with \<open>outsiders\<close> any other writer may save between two of their steps.\<close>

inductive interleave ::
  "bool \<Rightarrow> py_lib \<Rightarrow> ('r \<Rightarrow> string \<Rightarrow> run_state option) \<Rightarrow> ('r \<Rightarrow> save_label \<Rightarrow> run_state \<Rightarrow> (store_error, 'r \<times> run_state) res)
    \<Rightarrow> 'r \<times> prog list \<Rightarrow> 'r \<times> prog list \<Rightarrow> bool" for outsiders L ld sv where
  stop: "interleave outsiders L ld sv c c"
| program: "interleave outsiders L ld sv c (r, ps) \<Longrightarrow> n < length ps \<Longrightarrow> prog_step L ld sv (r, ps ! n) (r', p) \<Longrightarrow>
    interleave outsiders L ld sv c (r', ps[n := p])"
| outsider: "interleave outsiders L ld sv c (r, ps) \<Longrightarrow> outsiders \<Longrightarrow> sv r l st = Inr (r', st') \<Longrightarrow>
    interleave outsiders L ld sv c (r', ps)"

end
