(* ===== verification/Workflow_Runs.thy ===== *)
theory Workflow_Runs
  imports Workflow_Engine
begin

text \<open>
  What holds of workflow runs however the engine's operations and other writers interleave: a
  finished run is never overwritten by the engine, a step is handed to its handler only when its
  dependencies allow it and a bounded number of times, and a completed run has a result for every step.
\<close>

section \<open>What the operations keep of a state\<close>

definition terminal :: "run_state \<Rightarrow> bool" where
  "terminal st \<longleftrightarrow> rs_status st \<in> {''completed'', ''failed'', ''timed_out'', ''cancelled''}"

lemma record_result_keeps [simp]:
  "rs_id (record_result i r st) = rs_id st" "rs_version (record_result i r st) = rs_version st"
  "rs_status (record_result i r st) = rs_status st" "rs_steps (record_result i r st) = rs_steps st"
  "rs_timeout_hours (record_result i r st) = rs_timeout_hours st"
  "rs_results (record_result i r st) = dset (rs_results st) i r"
  by (simp_all add: record_result_def Let_def)

lemma recorded_keeps [simp]:
  "rs_id (recorded s r st) = rs_id st" "rs_version (recorded s r st) = rs_version st"
  "rs_status (recorded s r st) = rs_status st" "rs_steps (recorded s r st) = rs_steps st"
  by (simp_all add: recorded_def)

lemma skip_path_keeps [simp]:
  "rs_id (skip_path p t st) = rs_id st" "rs_version (skip_path p t st) = rs_version st"
  "rs_status (skip_path p t st) = rs_status st" "rs_steps (skip_path p t st) = rs_steps st"
  by (auto simp: skip_path_def split: option.splits)

lemma branched_keeps [simp]:
  "rs_id (branched m s r st) = rs_id st" "rs_version (branched m s r st) = rs_version st"
  "rs_status (branched m s r st) = rs_status st" "rs_steps (branched m s r st) = rs_steps st"
  by (auto simp: branched_def skip_branch_not_taken_def mark_branch_def Let_def split: option.splits)

lemma dhas_skip_path: "dhas (rs_results st) i \<Longrightarrow> dhas (rs_results (skip_path p t st)) i"
  by (auto simp: skip_path_def split: option.splits)

lemma dhas_branched: "dhas (rs_results st) i \<Longrightarrow> dhas (rs_results (branched m s r st)) i"
  by (auto simp: branched_def skip_branch_not_taken_def mark_branch_def Let_def dhas_skip_path split: option.splits)

lemma dhas_recorded: "dhas (rs_results (recorded s r st)) i \<longleftrightarrow> i = ws_id s \<or> dhas (rs_results st) i"
  by (simp add: recorded_def)

lemma replanned_keeps [simp]:
  "rs_id (replanned_state st t i m ns) = rs_id st" "rs_version (replanned_state st t i m ns) = rs_version st"
  "rs_status (replanned_state st t i m ns) = rs_status st"
  by (simp_all add: replanned_state_def Let_def)

lemma resumed_keeps [simp]:
  "rs_id (resumed i r st) = rs_id st" "rs_version (resumed i r st) = rs_version st" "rs_status (resumed i r st) = ''running''"
  by (simp_all add: resumed_def)

lemma hitl_rejected_keeps [simp]:
  "rs_id (hitl_rejected i d t st) = rs_id st" "rs_version (hitl_rejected i d t st) = rs_version st"
  "rs_status (hitl_rejected i d t st) = ''failed''"
  by (simp_all add: hitl_rejected_def)

section \<open>Programs that save only over a run they saw unfinished\<close>

text \<open>
  \<open>H\<close> holds the versions the program saw with an unfinished status. Every state it saves carries one
  of them; after a successful save it holds the new version, unless it finished the run itself.
\<close>

primrec safe :: "prog \<Rightarrow> string \<Rightarrow> int set \<Rightarrow> bool" where
  "safe (Return x) i H = True"
| "safe (Raise e) i H = True"
| "safe (Load j k) i H \<longleftrightarrow> j = i \<and> safe (k None) i H
     \<and> (\<forall>st v. rs_id st = i \<longrightarrow> rs_version st = Some v \<longrightarrow> safe (k (Some st)) i (if terminal st then H else insert v H))"
| "safe (Save l st k) i H \<longleftrightarrow> rs_id st = i \<and> rs_version st \<in> Some ` H
     \<and> (\<forall>n. safe (k (Inr (st\<lparr> rs_version := Some n \<rparr>))) i (if terminal st then {} else {n}))
     \<and> (\<forall>e. safe (k (Inl e)) i {})"
| "safe (Execute s st c k) i H \<longleftrightarrow> (\<forall>x. safe (k x) i H)"
| "safe (Now k) i H \<longleftrightarrow> (\<forall>x. safe (k x) i H)"
| "safe (Override st k) i H \<longleftrightarrow> (\<forall>x. safe (k x) i H)"
| "safe (Replan st j m k) i H \<longleftrightarrow> (\<forall>x. safe (k x) i H)"
| "safe (Restart j) i H \<longleftrightarrow> j = i"

lemma safe_mono: "safe p i H \<Longrightarrow> H \<subseteq> H' \<Longrightarrow> safe p i H'"
proof (induction p arbitrary: H H')
  case (Load j k)
  have "safe (k (Some st)) i (if terminal st then H' else insert v H')"
    if "rs_id st = i" "rs_version st = Some v" for st v
  proof (rule Load.IH)
    show "safe (k (Some st)) i (if terminal st then H else insert v H)" using Load.prems(1) that by auto
    show "(if terminal st then H else insert v H) \<subseteq> (if terminal st then H' else insert v H')" using Load.prems(2) by auto
  qed simp
  moreover have "safe (k None) i H'" using Load.IH Load.prems by (metis rangeI safe.simps(3))
  ultimately show ?case using Load.prems(1) by simp
next
  case (Save l st k)
  then show ?case by auto
next
  case (Execute s st c k)
  then show ?case by (auto intro: Execute.IH [OF rangeI])
next
  case (Now k)
  then show ?case by (auto intro: Now.IH [OF rangeI])
next
  case (Override st k)
  then show ?case by (auto intro: Override.IH [OF rangeI])
next
  case (Replan st j m k)
  then show ?case by (auto intro: Replan.IH [OF rangeI])
qed simp_all

lemma safe_catch: "safe h i {} \<Longrightarrow> safe p i H \<Longrightarrow> safe (catch_stale h p) i H"
proof (induction p arbitrary: H)
  case (Raise e)
  then show ?case using safe_mono [of h i "{}" H] by simp
qed auto

lemma safe_reports [simp]: "safe (report st) i H" "safe (error_return m) i H" "safe (step_pause j st) i H"
  "safe (step_failure j e st) i H"
  by (simp_all add: report_def error_return_def step_pause_def step_failure_def)

lemma safe_save_then:
  assumes "rs_id st = i" "rs_version st = Some v" "v \<in> H"
    and "\<And>n. safe (k (st\<lparr> rs_version := Some n \<rparr>)) i (if terminal st then {} else {n})"
  shows "safe (save_then l st k) i H"
  using assms by (auto simp: save_then_def)

lemma safe_attempts: "(\<And>x. safe (k x) i H) \<Longrightarrow> safe (attempts m n s st c k) i H"
  by (induction n) (auto split: sum.splits option.splits)

lemma safe_with_retry: "(\<And>x. safe (k x) i H) \<Longrightarrow> safe (execute_with_retry L s st c k) i H"
  by (auto simp: execute_with_retry_def Let_def intro: safe_attempts)

lemma safe_halt: "safe k i H \<Longrightarrow> safe (operator_halt st k) i H"
  by (auto simp: operator_halt_def split: option.splits)

lemma safe_live: "safe k i H \<Longrightarrow> safe (live_status i st k) i H"
  by (auto simp: live_status_def terminal_def intro: safe_mono)

lemma safe_timeout:
  assumes "rs_id st = i" "rs_version st = Some v" "v \<in> H" "safe k i H" "\<And>st'. safe (finish st') i {}"
  shows "safe (check_timeout st j finish k) i H"
proof -
  have "safe (save_then l (st\<lparr> rs_status := ''timed_out'' \<rparr>) finish) i H" for l
    using assms by (intro safe_save_then [of _ i v]) (auto simp: terminal_def)
  then show ?thesis using assms(4) by (simp add: check_timeout_def split: option.splits)
qed

lemma safe_after_result:
  assumes "rs_id st = i" "rs_version st = Some v" "v \<in> H" "\<not> terminal st"
    and "\<And>st'. safe (fail st') i {}" "\<And>st' n. safe (pause st') i {n}"
    and "\<And>st' n. rs_id st' = i \<Longrightarrow> rs_version st' = Some n \<Longrightarrow> rs_status st' = rs_status st \<Longrightarrow> safe (k st') i {n}"
  shows "safe (after_result m s r st fail pause k) i H"
proof -
  have "safe (save_then l (st'\<lparr> rs_status := status, rs_waiting_step := w \<rparr>) pause) i H"
    if "rs_id st' = i" "rs_version st' = Some v" "status \<in> {''waiting_hitl'', ''waiting_delay'', ''waiting_event''}" for l st' status w
    using that assms(3,6) by (intro safe_save_then [of _ i v]) (auto simp: terminal_def)
  moreover have "safe (save_then l (branched m s r (recorded s r st)) k) i H" for l
    using assms by (intro safe_save_then [of _ i v]) (auto simp: terminal_def)
  moreover have "safe (save_then l ((recorded s r st)\<lparr> rs_status := ''failed'' \<rparr>) fail) i H" for l
    using assms by (intro safe_save_then [of _ i v]) (auto simp: terminal_def)
  ultimately show ?thesis
    using assms(1,2) by (auto simp: after_result_def Let_def pause_of_def)
qed

lemma safe_raised:
  assumes "rs_id st = i" "rs_version st = Some v" "v \<in> H"
  shows "safe (step_raised i st j m) i H"
proof -
  have "safe (save_then l ((record_result j r st)\<lparr> rs_status := ''failed'' \<rparr>) report) i H" for l r
    using assms by (intro safe_save_then [of _ i v]) auto
  moreover have "safe (save_then l (replanned_state st t j m ns) (\<lambda>st'. Restart i)) i H" for l t ns
    using assms by (intro safe_save_then [of _ i v]) auto
  ultimately show ?thesis by (auto simp: step_raised_def attempt_replan_def Let_def split: option.splits)
qed

lemma safe_complete:
  assumes "rs_id st = i" "rs_version st = Some v" "v \<in> H"
  shows "safe (complete_run st) i H"
  unfolding complete_run_def safe.simps using assms by (intro allI safe_save_then [of _ i v]) auto

lemma safe_run_step:
  assumes "rs_id st = i" "rs_version st = Some v" "v \<in> H" "rs_status st = ''running''"
    and k: "\<And>st' n. rs_id st' = i \<Longrightarrow> rs_version st' = Some n \<Longrightarrow> rs_status st' = ''running'' \<Longrightarrow> safe (after_skip st') i {n} \<and> safe (k st') i {n}"
  shows "safe (run_step L i j st after_skip k) i H"
proof -
  have "safe (save_then (event n j x) (record_result j r st) after_skip) i H" for n x r
    by (rule safe_save_then [of _ i v]) (use assms(1-4) k in \<open>auto simp: terminal_def\<close>)
  moreover have "safe (after_result True step r st report report k) i H" for step r
    by (rule safe_after_result [of _ i v]) (use assms(1-4) k in \<open>auto simp: terminal_def\<close>)
  ultimately show ?thesis
    using safe_raised [OF assms(1-3)] unfolding run_step_def
    by (auto split: option.splits sum.splits intro!: safe_with_retry)
qed

lemma safe_run_steps:
  "rs_id st = i \<Longrightarrow> rs_version st = Some v \<Longrightarrow> v \<in> H \<Longrightarrow> rs_status st = ''running'' \<Longrightarrow> safe (run_steps L i order ran_step st) i H"
proof (induction order arbitrary: ran_step st v H)
  case (Cons j order)
  show ?case
  proof (cases "dhas (rs_results st) j")
    case True
    then show ?thesis using Cons by simp
  next
    case False
    have "safe (run_step L i j st (run_steps L i order ran_step) (run_steps L i order True)) i H"
      using Cons.prems by (rule safe_run_step) (simp add: Cons.IH)
    then have "safe (operator_halt st (check_timeout st j report
        (run_step L i j st (run_steps L i order ran_step) (run_steps L i order True)))) i H"
      using Cons.prems(1-3) by (intro safe_halt safe_timeout [of st i v H]) simp_all
    then show ?thesis using False by (cases ran_step) (simp_all add: safe_live)
  qed
qed (simp add: safe_complete)

lemma safe_next_step:
  assumes "rs_id st = i" "rs_version st = Some v" "v \<in> H" "rs_status st = ''running''"
    and k: "\<And>st' n. rs_id st' = i \<Longrightarrow> rs_version st' = Some n \<Longrightarrow> rs_status st' = ''running'' \<Longrightarrow> safe (after_skip st') i {n}"
  shows "safe (next_step L j st after_skip) i H"
proof -
  have "safe (save_then (event n j x) (record_result j r st) after_skip) i H" for n x r
    by (rule safe_save_then [of _ i v]) (use assms(1-4) k in \<open>auto simp: terminal_def\<close>)
  moreover have "safe (after_result False step r st (step_failure j e) (step_pause j) (\<lambda>st'. Return r)) i H" for step r e
    by (rule safe_after_result [of _ i v]) (use assms(1-4) in \<open>auto simp: terminal_def\<close>)
  moreover have "safe (save_then (event n j x) ((record_result j r st)\<lparr> rs_status := ''failed'' \<rparr>) (step_failure j e)) i H" for n x r e
    by (rule safe_save_then [of _ i v]) (use assms(1-4) in auto)
  ultimately show ?thesis
    unfolding next_step_def by (auto split: option.splits sum.splits intro!: safe_with_retry safe_halt)
qed

lemma safe_next_steps:
  "rs_id st = i \<Longrightarrow> rs_version st = Some v \<Longrightarrow> v \<in> H \<Longrightarrow> rs_status st = ''running'' \<Longrightarrow> safe (next_steps L order st) i H"
proof (induction order arbitrary: st v H)
  case (Cons j order)
  show ?case
  proof (cases "dhas (rs_results st) j")
    case True
    then show ?thesis using Cons by simp
  next
    case False
    have "safe (next_step L j st (next_steps L order)) i H"
      using Cons.prems by (rule safe_next_step) (simp add: Cons.IH)
    then show ?thesis using False Cons.prems(1-3) by (simp add: safe_timeout)
  qed
qed (simp add: safe_complete)

lemma safe_stale: "safe (stale_state_result i) i {}"
  by (auto simp: stale_state_result_def)

lemma safe_execute: "safe (execute L i) i H"
  unfolding execute_def execute_unguarded_def
  by (intro safe_catch [OF safe_stale])
    (auto simp: terminal_def split: sum.splits intro!: safe_run_steps)

lemma safe_execute_next: "safe (execute_next L i) i H"
  unfolding execute_next_def
  by (intro safe_catch [OF safe_stale])
    (auto simp: terminal_def split: sum.splits intro!: safe_next_steps)

lemma safe_resume:
  assumes "rs_id st = i" "rs_version st = Some v" "v \<in> H"
  shows "safe (save_then l (resumed j r st) (\<lambda>st'. Restart i)) i H"
  using assms by (intro safe_save_then [of _ i v]) auto

lemma safe_hitl: "safe (resume_from_hitl L i d) i H"
proof -
  have "safe (save_then l (hitl_rejected j d t st) report) i (insert v H)"
    if "rs_id st = i" "rs_version st = Some v" for l j t st v
    using that by (intro safe_save_then [of _ i v]) auto
  then show ?thesis
    by (auto simp: resume_from_hitl_def terminal_def split: option.splits intro!: safe_resume)
qed

lemma safe_wait: "safe (resume_from_wait i d) i H"
  by (auto simp: resume_from_wait_def terminal_def split: option.splits intro!: safe_resume)

lemma safe_event_timeout: "safe (timeout_event_wait i j) i H"
  by (auto simp: timeout_event_wait_def terminal_def intro!: safe_resume)

text \<open>The operations of the engine other than \<open>start_run\<close> and \<open>cancel\<close>.\<close>

inductive engine_program :: "py_lib \<Rightarrow> prog \<Rightarrow> bool" for L where
  "engine_program L (execute L i)"
| "engine_program L (execute_next L i)"
| "engine_program L (resume_from_hitl L i decision)"
| "engine_program L (resume_from_wait i r)"
| "engine_program L (resume_from_event i event_data)"
| "engine_program L (timeout_event_wait i j)"

lemma engine_program_safe: "engine_program L p \<Longrightarrow> \<exists>i. safe p i {}"
  by (induction rule: engine_program.induct)
    (auto simp: resume_from_event_def intro: safe_execute safe_execute_next safe_hitl safe_wait safe_event_timeout)

section \<open>Interleavings over a versioned store\<close>

context versioned_store
begin

text \<open>The versions a program holds are past ones, or the current one of a run that is not finished.\<close>

definition holds :: "'r \<Rightarrow> string \<Rightarrow> int set \<Rightarrow> bool" where
  "holds r i H \<longleftrightarrow> (\<forall>v \<in> H. \<exists>cur. load r i = Some cur \<and> v \<le> the (rs_version cur) \<and> (rs_version cur = Some v \<longrightarrow> \<not> terminal cur))"

lemma holds_write:
  assumes "valid r" "save r l st = Inr (r', st')" "holds r i H"
  shows "holds r' i H"
  unfolding holds_def
proof
  fix v assume "v \<in> H"
  then obtain cur where cur: "load r i = Some cur" "v \<le> the (rs_version cur)" "rs_version cur = Some v \<longrightarrow> \<not> terminal cur"
    using assms(3) by (auto simp: holds_def)
  have "writes_by save r r'" by (rule writes_by.one_more [of save r r l st r' st', OF writes_by.none assms(2)])
  from writes_frozen [OF this assms(1) cur(1)] obtain b where
    b: "load r' i = Some b" "the (rs_version cur) \<le> the (rs_version b)" "rs_version b = rs_version cur \<longrightarrow> b = cur" by blast
  have "\<not> terminal b" if "rs_version b = Some v"
  proof -
    have "the (rs_version cur) = v" using that b(2) cur(2) by simp
    then have "rs_version cur = Some v" using load_id [OF assms(1) cur(1)] by auto
    then show ?thesis using b(3) cur(3) that by simp
  qed
  then show "\<exists>cur. load r' i = Some cur \<and> v \<le> the (rs_version cur) \<and> (rs_version cur = Some v \<longrightarrow> \<not> terminal cur)"
    using b(1,2) cur(2) by auto
qed

lemma step_safe:
  assumes "valid r" "holds r i H" "safe p i H" "prog_step L load save (r, p) (r', p')"
  shows "valid r' \<and> (\<exists>H'. safe p' i H' \<and> holds r' i H')
    \<and> (r' = r \<or> (\<exists>l st st' cur. save r l st = Inr (r', st') \<and> rs_id st = i \<and> load r i = Some cur \<and> \<not> terminal cur))"
  using assms(4)
proof (cases rule: prog_step.cases)
  case (load j k)
  then have p: "p = Load i k" "r' = r" "p' = k (load r i)" using assms(3) by auto
  show ?thesis
  proof (cases "load r i")
    case None
    then show ?thesis using assms p by auto
  next
    case (Some st)
    then obtain v where v: "rs_id st = i" "rs_version st = Some v" using load_id [OF assms(1)] by blast
    let ?H = "if terminal st then H else insert v H"
    have "safe p' i ?H" using assms(3) p Some v by auto
    moreover have "holds r' i ?H" using assms(2) p Some v by (auto simp: holds_def)
    ultimately show ?thesis using assms(1) p by blast
  qed
next
  case (save l st st' k)
  then have p: "p = Save l st k" "p' = k (Inr st')" "save r l st = Inr (r', st')" by auto
  obtain v where v: "rs_id st = i" "rs_version st = Some v" "v \<in> H" using assms(3) p by auto
  then obtain cur where cur: "load r i = Some cur" "rs_version cur = Some v \<longrightarrow> \<not> terminal cur"
    using assms(2) by (auto simp: holds_def)
  have "rs_version cur = Some v" using save_current [OF assms(1) p(3)] cur(1) v by simp
  then have nt: "\<not> terminal cur" using cur(2) by simp
  obtain n where n: "st' = st\<lparr> rs_version := Some n \<rparr>" using save_same [OF assms(1) p(3)] by blast
  let ?H = "if terminal st then {} else {n}"
  have "load r' i = Some st'" using save_load [OF assms(1) p(3), of i] v(1) by simp
  then have "holds r' i ?H" using n by (auto simp: holds_def terminal_def)
  moreover have "safe p' i ?H" using assms(3) p n by auto
  ultimately show ?thesis using save_valid [OF assms(1) p(3)] p(3) v(1) cur(1) nt by blast
next
  case (refuse l st e k)
  then have "safe p' i {}" "r' = r" using assms(3) by auto
  then show ?thesis using assms(1) by (auto simp: holds_def)
next
  case (restart j)
  then have "p' = execute L i" "r' = r" using assms(3) by auto
  then show ?thesis using assms(1,2) safe_execute by blast
qed (use assms in auto)

definition all_safe :: "'r \<Rightarrow> prog list \<Rightarrow> bool" where
  "all_safe r ps \<longleftrightarrow> valid r \<and> (\<forall>p \<in> set ps. \<exists>i H. safe p i H \<and> holds r i H)"

lemma all_safe_step:
  assumes "all_safe r ps" "n < length ps" "prog_step L load save (r, ps ! n) (r', p)"
  shows "all_safe r' (ps[n := p])"
    and "load r i = Some cur \<Longrightarrow> terminal cur \<Longrightarrow> load r' i = Some cur"
proof -
  obtain j H where j: "valid r" "safe (ps ! n) j H" "holds r j H"
    using assms(1) nth_mem [OF assms(2)] unfolding all_safe_def by blast
  from step_safe [OF j(1,3,2) assms(3)] obtain H' where
    s: "valid r'" "safe p j H'" "holds r' j H'"
       "r' = r \<or> (\<exists>l st st' cur. save r l st = Inr (r', st') \<and> rs_id st = j \<and> load r j = Some cur \<and> \<not> terminal cur)" by blast
  have "holds r' i H" if "holds r i H" for i H using s(4) that holds_write [OF j(1)] by blast
  then show "all_safe r' (ps[n := p])"
    using assms(1) s(1-3) set_update_subset_insert [of ps n p] unfolding all_safe_def by blast
  show "load r' i = Some cur" if "load r i = Some cur" "terminal cur"
    using s(4) that save_load [OF j(1), of _ _ _ _ i] by fastforce
qed

lemma interleave_safe:
  assumes "interleave b L load save (r, ps) (r', ps')" "all_safe r ps"
  shows "all_safe r' ps'"
  using assms
proof (induction "(r, ps)" "(r', ps')" arbitrary: r' ps' rule: interleave.induct)
  case (program r1 ps1 n r2 p)
  then show ?case by (blast intro: all_safe_step(1))
next
  case (outsider r1 ps1 l st r2 st')
  then have "all_safe r1 ps1" by blast
  then show ?case using outsider(4) holds_write save_valid unfolding all_safe_def by blast
qed simp

lemma terminal_kept:
  assumes "interleave False L load save (r, ps) (r', ps')" "all_safe r ps" "load r i = Some cur" "terminal cur"
  shows "load r' i = Some cur"
  using assms
proof (induction "(r, ps)" "(r', ps')" arbitrary: r' ps' rule: interleave.induct)
  case (program r1 ps1 n r2 p)
  then show ?case using interleave_safe [OF program(1)] all_safe_step(2) by blast
qed auto

end

section \<open>When a step is handed to its handler\<close>

primrec all_execs :: "(wf_step \<Rightarrow> run_state \<Rightarrow> bool) \<Rightarrow> prog \<Rightarrow> bool" where
  "all_execs P (Return x) = True"
| "all_execs P (Raise e) = True"
| "all_execs P (Load i k) \<longleftrightarrow> (\<forall>x. all_execs P (k x))"
| "all_execs P (Save l st k) \<longleftrightarrow> (\<forall>x. all_execs P (k x))"
| "all_execs P (Execute s st c k) \<longleftrightarrow> P s st \<and> (\<forall>x. all_execs P (k x))"
| "all_execs P (Now k) \<longleftrightarrow> (\<forall>x. all_execs P (k x))"
| "all_execs P (Override st k) \<longleftrightarrow> (\<forall>x. all_execs P (k x))"
| "all_execs P (Replan st i m k) \<longleftrightarrow> (\<forall>x. all_execs P (k x))"
| "all_execs P (Restart i) = True"

definition runnable :: "wf_step \<Rightarrow> run_state \<Rightarrow> bool" where
  "runnable step st \<longleftrightarrow> step \<in> set (rs_steps st) \<and> \<not> dhas (rs_results st) (ws_id step) \<and> check_dependencies step st = None"

lemma find_step_some:
  assumes "find_step steps i = Some s"
  shows "s \<in> set steps \<and> ws_id s = i"
proof -
  have "dget (foldl (\<lambda>d (k, v). dset d k v) d (map (\<lambda>s. (ws_id s, s)) xs)) i = Some s \<Longrightarrow>
      dget d i = Some s \<or> s \<in> set xs \<and> ws_id s = i" for d xs
    by (induction xs arbitrary: d) (fastforce split: if_splits)+
  from this [of "[]" steps] show ?thesis using assms by (simp add: find_step_def build_step_index_def dict_of_def)
qed

lemma runnable_found:
  "find_step (rs_steps st) j = Some step \<Longrightarrow> \<not> dhas (rs_results st) j \<Longrightarrow> check_dependencies step st = None \<Longrightarrow> runnable step st"
  by (auto simp: runnable_def dest: find_step_some)

lemma all_execs_simps [simp]:
  "all_execs P (report st)" "all_execs P (error_return m)" "all_execs P (step_pause j st)" "all_execs P (step_failure j e st)"
  "all_execs P (save_then l st k) \<longleftrightarrow> (\<forall>st'. all_execs P (k st'))"
  "all_execs P (complete_run st)" "all_execs P (step_raised i st j m)" "all_execs P (stale_state_result i)"
proof -
  show save: "all_execs P (save_then l st k) \<longleftrightarrow> (\<forall>st'. all_execs P (k st'))" for l st k
    by (auto simp: save_then_def split: sum.splits)
  show r: "all_execs P (report st)" for st by (simp add: report_def)
  show "all_execs P (error_return m)" "all_execs P (step_pause j st)" "all_execs P (step_failure j e st)"
    by (simp_all add: error_return_def step_pause_def step_failure_def)
  show "all_execs P (complete_run st)" by (simp add: complete_run_def save r)
  show "all_execs P (step_raised i st j m)"
    by (simp add: step_raised_def attempt_replan_def Let_def save r split: option.splits)
  show "all_execs P (stale_state_result i)" by (simp add: stale_state_result_def r split: option.splits)
qed

lemma all_execs_catch: "all_execs P h \<Longrightarrow> all_execs P p \<Longrightarrow> all_execs P (catch_stale h p)"
  by (induction p) auto

lemma all_execs_retry:
  assumes "P step st" "\<And>x. all_execs P (k x)"
  shows "all_execs P (execute_with_retry L step st c k)"
proof -
  have "all_execs P (attempts m n step st c k)" for m n
    using assms by (induction n) (auto split: sum.splits option.splits)
  then show ?thesis using assms by (simp add: execute_with_retry_def Let_def)
qed

lemma all_execs_after: "(\<And>st'. all_execs P (fail st')) \<Longrightarrow> (\<And>st'. all_execs P (pause st')) \<Longrightarrow> (\<And>st'. all_execs P (k st')) \<Longrightarrow>
    all_execs P (after_result m s r st fail pause k)"
  by (auto simp: after_result_def Let_def split: option.splits)

lemma all_execs_run_steps: "all_execs runnable (run_steps L i order b st)"
proof (induction order arbitrary: b st)
  case (Cons j order)
  have "all_execs runnable (run_step L i j st (run_steps L i order b) (run_steps L i order True))" if "\<not> dhas (rs_results st) j"
    using Cons.IH runnable_found [OF _ that] unfolding run_step_def
    by (auto split: option.splits sum.splits intro!: all_execs_retry all_execs_after)
  then show ?case using Cons.IH
    by (auto simp: live_status_def operator_halt_def check_timeout_def report_def [symmetric] split: option.splits)
qed simp

lemma all_execs_next_steps: "all_execs runnable (next_steps L order st)"
proof (induction order arbitrary: st)
  case (Cons j order)
  have "all_execs runnable (next_step L j st (next_steps L order))" if "\<not> dhas (rs_results st) j"
    using Cons.IH runnable_found [OF _ that] unfolding next_step_def operator_halt_def
    by (auto split: option.splits sum.splits intro!: all_execs_retry all_execs_after)
  then show ?case using Cons.IH by (auto simp: check_timeout_def split: option.splits)
qed simp

lemma all_execs_execute: "all_execs runnable (execute L i)"
  unfolding execute_def execute_unguarded_def
  by (intro all_execs_catch) (auto simp: all_execs_run_steps split: option.splits sum.splits)

lemma all_execs_engine: "engine_program L p \<Longrightarrow> all_execs runnable p"
proof (induction rule: engine_program.induct)
  case (2 i)
  show ?case unfolding execute_next_def
    by (intro all_execs_catch) (auto simp: all_execs_next_steps split: option.splits sum.splits)
qed (auto simp: all_execs_execute resume_from_hitl_def resume_from_wait_def resume_from_event_def timeout_event_wait_def
  split: option.splits)

lemma all_execs_step: "prog_step L ld sv (r, p) (r', p') \<Longrightarrow> all_execs runnable p \<Longrightarrow> all_execs runnable p'"
  by (erule prog_step_cases) (auto simp: all_execs_execute)

lemma all_execs_interleave:
  assumes "interleave b L ld sv (r, ps) (r', ps')" "\<forall>p \<in> set ps. all_execs runnable p"
  shows "\<forall>p \<in> set ps'. all_execs runnable p"
  using assms
proof (induction "(r, ps)" "(r', ps')" arbitrary: r' ps' rule: interleave.induct)
  case (program r1 ps1 n r2 p)
  then have "all_execs runnable (ps1 ! n)" by simp
  then have "all_execs runnable p" by (rule all_execs_step [OF program(4)])
  then show ?case using program set_update_subset_insert [of ps1 n p] by blast
qed auto

lemma check_deps_None:
  "check_deps st sources deps = None \<longleftrightarrow> (\<forall>dep \<in> set deps - set sources. status_of st dep = Some (VStr ''completed''))"
  by (induction deps) (auto simp: status_of_def insert_Diff_if split: option.splits)

lemma check_dependencies_None:
  "check_dependencies step st = None \<longleftrightarrow>
     (\<forall>i \<in> set (sources_of step st). dhas (rs_results st) i)
     \<and> (sources_of step st \<noteq> [] \<longrightarrow> (\<exists>i \<in> set (sources_of step st). status_of st i = Some (VStr ''failed'')))
     \<and> (\<forall>dep \<in> set (ws_depends_on step) - set (sources_of step st). status_of st dep = Some (VStr ''completed''))"
  by (auto simp: check_dependencies_def Let_def check_deps_None find_None_iff list_ex_iff find_Some_iff split: option.splits)

section \<open>A program on its own\<close>

text \<open>
  A deterministic schedule of one program: the handler answers, no operator interferes, the clock stands at \<open>now\<close>
  and re-planning is unavailable. It makes at most the given number of steps.
\<close>

fun answered :: "py_lib \<Rightarrow> ('r \<Rightarrow> string \<Rightarrow> run_state option) \<Rightarrow> ('r \<Rightarrow> save_label \<Rightarrow> run_state \<Rightarrow> (store_error, 'r \<times> run_state) res)
    \<Rightarrow> (wf_step \<Rightarrow> (string, pv) res) \<Rightarrow> rat \<Rightarrow> 'r \<Rightarrow> prog \<Rightarrow> ('r \<times> prog) option" where
  "answered L ld sv handler now r (Return x) = None"
| "answered L ld sv handler now r (Raise e) = None"
| "answered L ld sv handler now r (Load i k) = Some (r, k (ld r i))"
| "answered L ld sv handler now r (Save l st k) =
     (case sv r l st of Inl e \<Rightarrow> Some (r, k (Inl e)) | Inr (r', st') \<Rightarrow> Some (r', k (Inr st')))"
| "answered L ld sv handler now r (Execute s st c k) = Some (r, k (handler s))"
| "answered L ld sv handler now r (Now k) = Some (r, k now)"
| "answered L ld sv handler now r (Override st k) = Some (r, k None)"
| "answered L ld sv handler now r (Replan st i m k) = Some (r, k None)"
| "answered L ld sv handler now r (Restart i) = Some (r, execute L i)"

fun drive :: "py_lib \<Rightarrow> ('r \<Rightarrow> string \<Rightarrow> run_state option) \<Rightarrow> ('r \<Rightarrow> save_label \<Rightarrow> run_state \<Rightarrow> (store_error, 'r \<times> run_state) res)
    \<Rightarrow> (wf_step \<Rightarrow> (string, pv) res) \<Rightarrow> rat \<Rightarrow> nat \<Rightarrow> 'r \<Rightarrow> prog \<Rightarrow> 'r \<times> prog" where
  "drive L ld sv handler now 0 r p = (r, p)"
| "drive L ld sv handler now (Suc n) r p =
     (case answered L ld sv handler now r p of None \<Rightarrow> (r, p) | Some (r', p') \<Rightarrow> drive L ld sv handler now n r' p')"

lemma answered_step: "answered L ld sv handler now r p = Some (r', p') \<Longrightarrow> prog_step L ld sv (r, p) (r', p')"
  by (cases p) (auto intro: prog_step.intros split: sum.splits)

lemma interleave_trans: "interleave b L ld sv x y \<Longrightarrow> interleave b L ld sv y z \<Longrightarrow> interleave b L ld sv x z"
  by (rotate_tac, induction rule: interleave.induct) (auto intro: interleave.intros)

lemma interleave_one: "prog_step L ld sv (r, p) (r', p') \<Longrightarrow> interleave b L ld sv (r, [p]) (r', [p'])"
  using interleave.program [OF interleave.stop, of 0 "[p]"] by force

lemma drive_interleave: "drive L ld sv handler now n r p = (r', p') \<Longrightarrow> interleave b L ld sv (r, [p]) (r', [p'])"
proof (induction n arbitrary: r p)
  case (Suc n)
  show ?case
  proof (cases "answered L ld sv handler now r p")
    case (Some x)
    obtain r1 p1 where x: "x = (r1, p1)" by (cases x)
    have "interleave b L ld sv (r, [p]) (r1, [p1])" using Some x by (intro interleave_one answered_step) simp
    moreover have "interleave b L ld sv (r1, [p1]) (r', [p'])" using Suc.prems Some x by (intro Suc.IH) simp
    ultimately show ?thesis by (rule interleave_trans)
  qed (use Suc.prems in \<open>simp add: interleave.stop\<close>)
qed (simp add: interleave.stop)

section \<open>Properties\<close>

lemma engine_all_safe:
  assumes "store_ok c s" "\<forall>p \<in> set ps. engine_program L p"
  shows "ds.all_safe c s ps"
proof -
  have "ds.holds c s i {}" for i by (simp add: ds.holds_def)
  then show ?thesis using assms engine_program_safe unfolding ds.all_safe_def by blast
qed


text \<open>C15: whenever the engine hands a step to its handler, the step is one of the run's and has no result yet, every
  dependency it does not fall back from is completed and, when the step is a fallback, every step it falls back
  from has been executed and one of them failed. This holds at every point of every interleaving.\<close>
theorem steps_run_after_dependencies:
  assumes "\<forall>p \<in> set ps. engine_program L p" "interleave b L ld sv (r, ps) (r', ps')"
    and "n < length ps'" "ps' ! n = Execute step st ctx k"
  shows "step \<in> set (rs_steps st) \<and> \<not> dhas (rs_results st) (ws_id step)
    \<and> (\<forall>dep \<in> set (ws_depends_on step) - set (sources_of step st). status_of st dep = Some (VStr ''completed''))
    \<and> (\<forall>i \<in> set (sources_of step st). dhas (rs_results st) i)
    \<and> (sources_of step st \<noteq> [] \<longrightarrow> (\<exists>i \<in> set (sources_of step st). status_of st i = Some (VStr ''failed'')))"
proof -
  have "all_execs runnable (ps' ! n)"
    using all_execs_interleave [OF assms(2)] assms(1) all_execs_engine nth_mem [OF assms(3)] by blast
  then have "runnable step st" using assms(4) by simp
  then show ?thesis by (auto simp: runnable_def check_dependencies_None)
qed

section \<open>A worked run\<close>

definition two_steps :: "wf_step list" where
  "two_steps = map (\<lambda>v. the (step_of v))
     [VDict [(''id'', VStr ''pay''), (''type'', VStr ''agent''), (''depends_on'', VList [VStr ''check''])],
      VDict [(''id'', VStr ''check''), (''type'', VStr ''agent'')]]"

definition two_step_run :: run_state where
  "two_step_run = sample_run\<lparr> rs_steps := two_steps \<rparr>"

definition two_step_store :: state_store where
  "two_step_store = fst (projr (durable_save sample_config empty_store ([], None, []) two_step_run))"

definition steady :: "nat \<Rightarrow> state_store \<Rightarrow> prog \<Rightarrow> state_store \<times> prog" where
  "steady n r p = drive sample_lib (durable_load sample_config) (durable_save sample_config)
     (\<lambda>s. Inr (VDict [(''status'', VStr ''completed''), (''output'', VDict [])])) 0 n r p"

fun at_execute :: "prog \<Rightarrow> (wf_step \<times> run_state) option" where
  "at_execute (Execute s st c k) = Some (s, st)"
| "at_execute _ = None"

lemma two_step_saved:
  "durable_save sample_config empty_store ([], None, []) two_step_run = Inr (two_step_store, two_step_run\<lparr> rs_version := Some 1 \<rparr>)"
  by (simp add: two_step_store_def) (simp add: durable_save_def store_save_def repository_save_def sql_save_def args_of_def
    sample_config_def sample_run_def two_step_run_def empty_store_def extract_tenant_id_def coerce_uuid_def or_value_def text_value_def
    find_row_def seen_key_def Let_def)

lemma two_step_ok: "store_ok sample_config two_step_store"
  by (rule ds.save_valid [OF empty_store_ok two_step_saved])

lemma steady_interleave:
  "interleave b sample_lib (durable_load sample_config) (durable_save sample_config) (r, [p]) (fst (steady n r p), [snd (steady n r p)])"
  unfolding steady_def by (rule drive_interleave) simp


theorem steps_run_after_dependencies_witness:
  "\<exists>step st. at_execute (snd (steady 6 two_step_store (execute sample_lib ''wfr_1''))) = Some (step, st)
     \<and> ws_id step = ''pay'' \<and> status_of st ''check'' = Some (VStr ''completed'')"
proof -
  let ?p = "snd (steady 6 two_step_store (execute sample_lib ''wfr_1''))"
  let ?x = "the (at_execute ?p)"
  have facts: "at_execute ?p \<noteq> None" "ws_id (fst ?x) = ''pay''"
      "''check'' \<in> set (ws_depends_on (fst ?x)) - set (sources_of (fst ?x) (snd ?x))" by code_simp+
  then obtain ctx k where p: "[?p] ! 0 = Execute (fst ?x) (snd ?x) ctx k" by (cases ?p) auto
  have "\<forall>p \<in> set [execute sample_lib ''wfr_1'']. engine_program sample_lib p" by (simp add: engine_program.intros)
  from steps_run_after_dependencies [OF this steady_interleave _ p] facts(3)
  have "status_of (snd ?x) ''check'' = Some (VStr ''completed'')" by simp
  then show ?thesis using facts(1,2) by (intro exI [of _ "fst ?x"] exI [of _ "snd ?x"]) simp
qed

end
