(* ===== verification/Workflow_Results.thy ===== *)
theory Workflow_Results
  imports Workflow_Runs
begin

text \<open>
  Two quantitative facts about workflow runs: a run that the engine marks completed has a result for
  every step, as an invariant of the store under any interleaving of the engine's operations, and one
  execution of a run calls a step's handler a bounded number of times.
\<close>

section \<open>What programs save\<close>

text \<open>
  Every state the program saves satisfies \<open>P\<close>, given that the states it loads do and that a save answers with the
  state and its new version.
\<close>

primrec all_saves :: "(run_state \<Rightarrow> bool) \<Rightarrow> prog \<Rightarrow> bool" where
  "all_saves P (Return x) = True"
| "all_saves P (Raise e) = True"
| "all_saves P (Load i k) \<longleftrightarrow> all_saves P (k None) \<and> (\<forall>st. P st \<longrightarrow> all_saves P (k (Some st)))"
| "all_saves P (Save l st k) \<longleftrightarrow>
     P st \<and> (\<forall>v. all_saves P (k (Inr (st\<lparr> rs_version := v \<rparr>)))) \<and> (\<forall>e. all_saves P (k (Inl e)))"
| "all_saves P (Execute s st c k) \<longleftrightarrow> (\<forall>x. all_saves P (k x))"
| "all_saves P (Now k) \<longleftrightarrow> (\<forall>x. all_saves P (k x))"
| "all_saves P (Override st k) \<longleftrightarrow> (\<forall>x. all_saves P (k x))"
| "all_saves P (Replan st i m k) \<longleftrightarrow> (\<forall>x. all_saves P (k x))"
| "all_saves P (Restart i) = True"

lemma all_saves_simps [simp]:
  "all_saves P (report st)" "all_saves P (error_return m)" "all_saves P (step_pause j st)" "all_saves P (step_failure j e st)"
  "all_saves P (save_then l st k) \<longleftrightarrow> P st \<and> (\<forall>v. all_saves P (k (st\<lparr> rs_version := v \<rparr>)))"
  "all_saves P (stale_state_result i)"
proof -
  show "all_saves P (save_then l st k) \<longleftrightarrow> P st \<and> (\<forall>v. all_saves P (k (st\<lparr> rs_version := v \<rparr>)))"
    by (auto simp: save_then_def)
  show r: "all_saves P (report st)" for st by (simp add: report_def)
  show "all_saves P (error_return m)" "all_saves P (step_pause j st)" "all_saves P (step_failure j e st)"
    by (simp_all add: error_return_def step_pause_def step_failure_def)
  show "all_saves P (stale_state_result i)" by (simp add: stale_state_result_def r split: option.splits)
qed

lemma all_saves_catch: "all_saves P h \<Longrightarrow> all_saves P p \<Longrightarrow> all_saves P (catch_stale h p)"
  by (induction p) auto

lemma all_saves_retry: "(\<And>x. all_saves P (k x)) \<Longrightarrow> all_saves P (execute_with_retry L s st c k)"
proof -
  assume k: "\<And>x. all_saves P (k x)"
  then have "all_saves P (attempts m n s st c k)" for m n by (induction n) (auto split: sum.splits option.splits)
  then show ?thesis using k by (simp add: execute_with_retry_def Let_def)
qed

lemma all_saves_halt: "all_saves P k \<Longrightarrow> all_saves P (operator_halt st k)"
  by (auto simp: operator_halt_def split: option.splits)

lemma all_saves_live: "all_saves P k \<Longrightarrow> all_saves P (live_status i st k)"
  by (auto simp: live_status_def split: option.splits)

context versioned_store
begin

definition all_stored :: "(run_state \<Rightarrow> bool) \<Rightarrow> 'r \<Rightarrow> bool" where
  "all_stored P r \<longleftrightarrow> valid r \<and> (\<forall>i st. load r i = Some st \<longrightarrow> P st)"

lemma step_stored:
  assumes "all_stored P r" "all_saves P p" "prog_step L load save (r, p) (r', p')"
    and P: "\<And>st v. P st \<Longrightarrow> P (st\<lparr> rs_version := v \<rparr>)" and restarts: "\<And>j. all_saves P (execute L j)"
  shows "all_stored P r' \<and> all_saves P p'"
  using assms(3)
proof (cases rule: prog_step.cases)
  case (save l st st' k)
  then have p: "p = Save l st k" "p' = k (Inr st')" "save r l st = Inr (r', st')" by auto
  have ok: "valid r" using assms(1) by (simp add: all_stored_def)
  obtain n where n: "st' = st\<lparr> rs_version := Some n \<rparr>" using save_same [OF ok p(3)] by blast
  have "P cur" if "load r' i = Some cur" for i cur
    using that save_load [OF ok p(3), of i] assms(1,2) n p(1) P by (auto simp: all_stored_def split: if_splits)
  then show ?thesis using save_valid [OF ok p(3)] assms(2) p n by (simp add: all_stored_def)
next
  case (load j k)
  then show ?thesis using assms(1,2) by (cases "load r j") (auto simp: all_stored_def)
qed (use assms in auto)

lemma interleave_stored:
  assumes "interleave False L load save (r, ps) (r', ps')" "all_stored P r" "\<forall>p \<in> set ps. all_saves P p"
    and P: "\<And>st v. P st \<Longrightarrow> P (st\<lparr> rs_version := v \<rparr>)" and restarts: "\<And>j. all_saves P (execute L j)"
  shows "all_stored P r' \<and> (\<forall>p \<in> set ps'. all_saves P p)"
  using assms(1-3)
proof (induction "(r, ps)" "(r', ps')" arbitrary: r' ps' rule: interleave.induct)
  case (program r1 ps1 n r2 p)
  then have "all_stored P r1" "all_saves P (ps1 ! n)" by simp_all
  from step_stored [OF this program(4) P restarts] have "all_stored P r2" "all_saves P p" by simp_all
  then show ?case using program set_update_subset_insert [of ps1 n p] by blast
qed auto

end

section \<open>Completed runs\<close>

definition all_recorded :: "run_state \<Rightarrow> bool" where
  "all_recorded st \<longleftrightarrow> (\<forall>s \<in> set (rs_steps st). dhas (rs_results st) (ws_id s))"

definition completed_whole :: "run_state \<Rightarrow> bool" where
  "completed_whole st \<longleftrightarrow> (rs_status st = ''completed'' \<and> distinct (map ws_id (rs_steps st)) \<longrightarrow> all_recorded st)"

text \<open>What is left to do: every step without a result is still in the order.\<close>

definition left_in :: "string list \<Rightarrow> run_state \<Rightarrow> bool" where
  "left_in order st \<longleftrightarrow> rs_status st = ''running'' \<and>
     (distinct (map ws_id (rs_steps st)) \<longrightarrow> (\<forall>s \<in> set (rs_steps st). ws_id s \<in> set order \<or> dhas (rs_results st) (ws_id s)))"

lemma left_in_version [simp]: "left_in order (st\<lparr> rs_version := v \<rparr>) \<longleftrightarrow> left_in order st"
  by (simp add: left_in_def)

lemma left_in_grows:
  assumes "left_in (j # order) st" "rs_status st' = rs_status st" "rs_steps st' = rs_steps st"
    and "\<And>i. i = j \<or> dhas (rs_results st) i \<Longrightarrow> dhas (rs_results st') i"
  shows "left_in order st'"
  using assms by (auto simp: left_in_def)

lemma left_in_drop: "left_in (j # order) st \<Longrightarrow> dhas (rs_results st) j \<Longrightarrow> left_in order st"
  by (rule left_in_grows) auto

lemma left_in_recorded:
  assumes "left_in (j # order) st" "find_step (rs_steps st) j = Some step"
  shows "left_in order (branched m step r (recorded step r st))"
proof (rule left_in_grows [OF assms(1)])
  fix i assume "i = j \<or> dhas (rs_results st) i"
  then show "dhas (rs_results (branched m step r (recorded step r st))) i"
    using find_step_some [OF assms(2)] by (intro dhas_branched) (auto simp: dhas_recorded)
qed simp_all

lemma order_left_in:
  assumes "rs_status st = ''running''" "topological_sort (rs_steps st) = Inr order"
  shows "left_in order st"
  using assms topological_sort_spec [of "rs_steps st"] by (auto simp: left_in_def split: if_splits)

text \<open>The operations that write a run: those above, and starting and cancelling one.\<close>

inductive run_operation :: "py_lib \<Rightarrow> prog \<Rightarrow> bool" for L where
  engine: "engine_program L p \<Longrightarrow> run_operation L p"
| cancels: "run_operation L (cancel i)"
| starts: "run_operation L (start_run i steps hours replan trigger tenant workflow_run workflow)"

text \<open>A step that is recorded, skipped or re-planned leaves the waiting step and keeps every result.\<close>

lemma waiting_step_kept [simp]:
  "rs_waiting_step (record_result i r st) = rs_waiting_step st" "rs_waiting_step (recorded s r st) = rs_waiting_step st"
  "rs_waiting_step (skip_path p t st) = rs_waiting_step st" "rs_waiting_step (branched m s r st) = rs_waiting_step st"
  "rs_waiting_step (replanned_state st now i e ns) = rs_waiting_step st" "rs_waiting_step (resumed i r st) = None"
  "rs_waiting_step (hitl_rejected i d now st) = None"
proof -
  show s: "rs_waiting_step (skip_path p t st) = rs_waiting_step st" for p t st
    by (simp add: skip_path_def split: option.splits)
  show "rs_waiting_step (branched m s r st) = rs_waiting_step st"
    by (simp add: branched_def skip_branch_not_taken_def mark_branch_def Let_def s split: option.splits)
qed (simp_all add: record_result_def recorded_def replanned_state_def resumed_def hitl_rejected_def Let_def)

lemma results_kept:
  "dhas (rs_results st) i \<Longrightarrow> dhas (rs_results (record_result j r st)) i"
  "dhas (rs_results st) i \<Longrightarrow> dhas (rs_results (recorded s r st)) i"
  "dhas (rs_results st) i \<Longrightarrow> dhas (rs_results (branched m s r (recorded s r st))) i"
  "dhas (rs_results st) i \<Longrightarrow> dhas (rs_results (replanned_state st t j e ns)) i"
  by (simp_all add: dhas_recorded dhas_branched replanned_state_def Let_def)

section \<open>Invariants of the stored runs\<close>

text \<open>
  What a predicate on run states has to satisfy to hold of every run the engine stores: it does not depend
  on the version, it survives as long as the waiting step and the results stay, it holds of a run that waits
  for nothing and of one that waits for a step with a result, and of a run completed with all its results.
\<close>

locale run_invariant =
  fixes P :: "run_state \<Rightarrow> bool"
  assumes version [simp]: "P (st\<lparr> rs_version := v \<rparr>) \<longleftrightarrow> P st"
    and kept: "P st \<Longrightarrow> rs_waiting_step st' = rs_waiting_step st \<Longrightarrow> (\<And>i. dhas (rs_results st) i \<Longrightarrow> dhas (rs_results st') i) \<Longrightarrow>
      rs_status st' \<in> {''running'', ''failed'', ''timed_out'', ''cancelled''} \<Longrightarrow> P st'"
    and cleared: "rs_waiting_step st = None \<Longrightarrow> rs_status st \<in> {''running'', ''failed''} \<Longrightarrow> P st"
    and paused: "rs_status st \<in> {''waiting_hitl'', ''waiting_delay'', ''waiting_event''} \<Longrightarrow> rs_waiting_step st = Some i \<Longrightarrow>
      dhas (rs_results st) i \<Longrightarrow> P st"
    and finished: "P st \<Longrightarrow> (distinct (map ws_id (rs_steps st)) \<longrightarrow> all_recorded st) \<Longrightarrow>
      P (st\<lparr> rs_status := ''completed'', rs_completed_at := t \<rparr>)"
begin

definition ready :: "string list \<Rightarrow> run_state \<Rightarrow> bool" where
  "ready order st \<longleftrightarrow> left_in order st \<and> P st"

lemma ready_running: "ready order st \<Longrightarrow> rs_status st = ''running'' \<and> P st"
  by (simp add: ready_def left_in_def)

lemma ready_version [simp]: "ready order (st\<lparr> rs_version := v \<rparr>) \<longleftrightarrow> ready order st"
  by (simp add: ready_def)

lemma ready_drop: "ready (j # order) st \<Longrightarrow> dhas (rs_results st) j \<Longrightarrow> ready order st"
  using left_in_drop by (auto simp: ready_def)

lemma ready_skipped: "ready (j # order) st \<Longrightarrow> ready order (record_result j r st)"
proof -
  assume st: "ready (j # order) st"
  then have "left_in order (record_result j r st)" unfolding ready_def by - (rule left_in_grows [of j order st], auto)
  moreover have "P (record_result j r st)" using ready_running [OF st] by - (rule kept [of st], simp_all add: results_kept)
  ultimately show ?thesis by (simp add: ready_def)
qed

lemma ready_recorded:
  assumes "ready (j # order) st" "find_step (rs_steps st) j = Some step"
  shows "ready order (branched m step r (recorded step r st))"
proof -
  have "P (branched m step r (recorded step r st))"
    using ready_running [OF assms(1)] by - (rule kept [of st], simp_all add: results_kept)
  then show ?thesis using assms left_in_recorded [of j order st step] by (simp add: ready_def)
qed

lemma saves_complete: "ready [] st \<Longrightarrow> all_saves P (complete_run st)"
  using finished [of st] by (auto simp: complete_run_def all_recorded_def left_in_def ready_def)

lemma saves_timeout:
  "P st \<Longrightarrow> (\<And>st'. all_saves P (finish st')) \<Longrightarrow> all_saves P k \<Longrightarrow> all_saves P (check_timeout st j finish k)"
  using kept [of st "st\<lparr> rs_status := ''timed_out'' \<rparr>"] by (auto simp: check_timeout_def split: option.splits)

lemma saves_failed: "P st \<Longrightarrow> P ((record_result j r st)\<lparr> rs_status := ''failed'' \<rparr>)" "P st \<Longrightarrow> P ((recorded s r st)\<lparr> rs_status := ''failed'' \<rparr>)"
  by (rule kept [of st]; simp add: results_kept)+

lemma saves_raised:
  assumes "rs_status st = ''running''" "P st"
  shows "all_saves P (step_raised i st j m)"
proof -
  have "P (replanned_state st t j m ns)" for t ns using assms by - (rule kept [of st], simp_all add: results_kept)
  then show ?thesis using saves_failed(1) [OF assms(2)]
    by (simp add: step_raised_def attempt_replan_def Let_def split: option.splits)
qed

lemma saves_after_result:
  assumes "ready (j # order) st" "find_step (rs_steps st) j = Some step"
    and "\<And>st'. all_saves P (fail st')" "\<And>st'. all_saves P (pause st')"
    and k: "\<And>st'. ready order st' \<Longrightarrow> all_saves P (k st')"
  shows "all_saves P (after_result m step r st fail pause k)"
proof -
  let ?st = "branched m step r (recorded step r st)"
  have "P ((recorded step r st)\<lparr> rs_status := ''failed'' \<rparr>)" using assms(1) saves_failed(2) by (simp add: ready_def)
  moreover have "ready order ?st" by (rule ready_recorded [OF assms(1,2)])
  moreover have "P (?st\<lparr> rs_status := status, rs_waiting_step := Some (ws_id step) \<rparr>)"
    if "status \<in> {''waiting_hitl'', ''waiting_delay'', ''waiting_event''}" for status
    using that by (intro paused [of _ "ws_id step"]) (simp_all add: dhas_branched dhas_recorded)
  ultimately show ?thesis
    using assms(3,4) k by (auto simp: after_result_def Let_def pause_of_def ready_def)
qed

lemma saves_run_step:
  assumes st: "ready (j # order) st"
    and k: "\<And>st'. ready order st' \<Longrightarrow> all_saves P (after_skip st') \<and> all_saves P (k st')"
  shows "all_saves P (run_step L i j st after_skip k)"
proof -
  have "all_saves P (save_then (event n j x) (record_result j r st) after_skip)" for n x r
    using k ready_skipped [OF st] by (simp add: ready_def)
  moreover have "all_saves P (after_result True step r st report report k)"
    if "find_step (rs_steps st) j = Some step" for step r
    using saves_after_result [OF st that] k by simp
  ultimately show ?thesis
    using saves_raised ready_running [OF st] unfolding run_step_def
    by (auto split: option.splits sum.splits intro!: all_saves_retry)
qed

lemma saves_run_steps: "ready order st \<Longrightarrow> all_saves P (run_steps L i order b st)"
proof (induction order arbitrary: b st)
  case (Cons j order)
  have "all_saves P (run_step L i j st (run_steps L i order b) (run_steps L i order True))"
    by (rule saves_run_step [OF Cons.prems]) (simp add: Cons.IH)
  then have "all_saves P (operator_halt st (check_timeout st j report
      (run_step L i j st (run_steps L i order b) (run_steps L i order True))))"
    using ready_running [OF Cons.prems] by (intro all_saves_halt saves_timeout) simp_all
  then show ?case using Cons.IH ready_drop [OF Cons.prems] by (cases b) (simp_all add: all_saves_live)
qed (simp add: saves_complete)

lemma saves_next_step:
  assumes st: "ready (j # order) st" and k: "\<And>st'. ready order st' \<Longrightarrow> all_saves P (after_skip st')"
  shows "all_saves P (next_step L j st after_skip)"
proof -
  have "all_saves P (save_then (event n j x) (record_result j r st) after_skip)" for n x r
    using k ready_skipped [OF st] by (simp add: ready_def)
  moreover have "all_saves P (after_result False step r st (step_failure j e) (step_pause j) (\<lambda>st'. Return r))"
    if "find_step (rs_steps st) j = Some step" for step r e
    using saves_after_result [OF st that] by simp
  ultimately show ?thesis
    using saves_failed(1) ready_running [OF st] unfolding next_step_def
    by (auto split: option.splits sum.splits intro!: all_saves_retry all_saves_halt)
qed

lemma saves_next_steps: "ready order st \<Longrightarrow> all_saves P (next_steps L order st)"
proof (induction order arbitrary: st)
  case (Cons j order)
  have "all_saves P (next_step L j st (next_steps L order))"
    by (rule saves_next_step [OF Cons.prems]) (simp add: Cons.IH)
  then show ?case using Cons.IH ready_drop [OF Cons.prems] ready_running [OF Cons.prems] by (simp add: saves_timeout)
qed (simp add: saves_complete)

lemma order_ready: "rs_status st = ''running'' \<Longrightarrow> P st \<Longrightarrow> topological_sort (rs_steps st) = Inr order \<Longrightarrow> ready order st"
  by (simp add: ready_def order_left_in)

lemma saves_execute: "all_saves P (execute L i)"
  unfolding execute_def execute_unguarded_def
  by (intro all_saves_catch) (auto split: sum.splits intro!: saves_run_steps order_ready)

lemma saves_resumed: "P (resumed j r st)" "P (hitl_rejected j d t st)"
  by (rule cleared; simp)+

lemma saves_engine: "engine_program L p \<Longrightarrow> all_saves P p"
proof (induction rule: engine_program.induct)
  case (2 i)
  show ?case unfolding execute_next_def
    by (intro all_saves_catch) (auto split: sum.splits intro!: saves_next_steps order_ready)
qed (auto simp: saves_execute saves_resumed resume_from_hitl_def resume_from_wait_def resume_from_event_def timeout_event_wait_def
  split: option.splits)

lemma saves_operation: "run_operation L p \<Longrightarrow> all_saves P p"
proof (induction rule: run_operation.induct)
  case (cancels i)
  have "P (st\<lparr> rs_status := ''cancelled'', rs_cancelled_at := t \<rparr>)" if "P st" for st t by (rule kept [OF that]) simp_all
  then show ?case by (simp add: cancel_def)
next
  case (starts i steps hours replan trigger tenant workflow_run workflow)
  show ?case by (simp add: start_run_def initial_state_def cleared)
qed (rule saves_engine)

end

text \<open>Two such invariants: completed runs have all their results, and a run only waits for a step that has a result.\<close>

interpretation cw: run_invariant completed_whole
  by unfold_locales (auto simp: completed_whole_def all_recorded_def)

definition waits_recorded :: "run_state \<Rightarrow> bool" where
  "waits_recorded st \<longleftrightarrow> (\<forall>i. rs_waiting_step st = Some i \<longrightarrow> dhas (rs_results st) i)"

interpretation wr: run_invariant waits_recorded
  by unfold_locales (auto simp: waits_recorded_def)

section \<open>Handler calls\<close>

definition call_limit :: "py_lib \<Rightarrow> wf_step \<Rightarrow> nat" where
  "call_limit L step = Suc (if step_is_retryable L step then parse_retry_count (ws_on_failure step) else 0)"

text \<open>The program calls the handler of a step at most as often as \<open>B\<close> allows before it restarts.\<close>

primrec calls_within :: "prog \<Rightarrow> (wf_step \<Rightarrow> nat) \<Rightarrow> bool" where
  "calls_within (Return x) B = True"
| "calls_within (Raise e) B = True"
| "calls_within (Load i k) B \<longleftrightarrow> (\<forall>x. calls_within (k x) B)"
| "calls_within (Save l st k) B \<longleftrightarrow> (\<forall>v. calls_within (k (Inr (st\<lparr> rs_version := v \<rparr>))) B) \<and> (\<forall>e. calls_within (k (Inl e)) B)"
| "calls_within (Execute s st c k) B \<longleftrightarrow> B s > 0 \<and> (\<forall>x. calls_within (k x) (B(s := B s - 1)))"
| "calls_within (Now k) B \<longleftrightarrow> (\<forall>x. calls_within (k x) B)"
| "calls_within (Override st k) B \<longleftrightarrow> (\<forall>x. calls_within (k x) B)"
| "calls_within (Replan st i m k) B \<longleftrightarrow> (\<forall>x. calls_within (k x) B)"
| "calls_within (Restart i) B = True"

lemma calls_mono: "calls_within p B \<Longrightarrow> B \<le> B' \<Longrightarrow> calls_within p B'"
proof (induction p arbitrary: B B')
  case (Execute s st c k)
  have "B s \<le> B' s" using Execute.prems(2) by (simp add: le_fun_def)
  moreover have "calls_within (k x) (B'(s := B' s - 1))" for x
  proof (rule Execute.IH [OF rangeI])
    show "calls_within (k x) (B(s := B s - 1))" using Execute.prems(1) by simp
    show "B(s := B s - 1) \<le> B'(s := B' s - 1)" using Execute.prems(2) by (auto simp: le_fun_def intro: diff_le_mono)
  qed
  ultimately show ?case using Execute.prems(1) by auto
next
  case (Load i k)
  then show ?case by (auto intro: Load.IH [OF rangeI])
next
  case (Save l st k)
  then show ?case by (auto intro: Save.IH [OF rangeI])
next
  case (Now k)
  then show ?case by (auto intro: Now.IH [OF rangeI])
next
  case (Override st k)
  then show ?case by (auto intro: Override.IH [OF rangeI])
next
  case (Replan st j m k)
  then show ?case by (auto intro: Replan.IH [OF rangeI])
qed simp_all

lemma calls_simps [simp]:
  "calls_within (report st) B" "calls_within (error_return m) B" "calls_within (step_pause j st) B" "calls_within (step_failure j e st) B"
  "calls_within (save_then l st k) B \<longleftrightarrow> (\<forall>v. calls_within (k (st\<lparr> rs_version := v \<rparr>)) B)"
  "calls_within (stale_state_result i) B" "calls_within (complete_run st) B" "calls_within (step_raised i st j m) B"
proof -
  show s: "calls_within (save_then l st k) B \<longleftrightarrow> (\<forall>v. calls_within (k (st\<lparr> rs_version := v \<rparr>)) B)" for l st k
    by (auto simp: save_then_def)
  show r: "calls_within (report st) B" for st by (simp add: report_def)
  show "calls_within (error_return m) B" "calls_within (step_pause j st) B" "calls_within (step_failure j e st) B"
    by (simp_all add: error_return_def step_pause_def step_failure_def)
  show "calls_within (stale_state_result i) B" by (simp add: stale_state_result_def r split: option.splits)
  show "calls_within (complete_run st) B" by (simp add: complete_run_def s r)
  show "calls_within (step_raised i st j m) B"
    by (simp add: step_raised_def attempt_replan_def Let_def s r split: option.splits)
qed

lemma calls_catch: "(\<And>B. calls_within h B) \<Longrightarrow> calls_within p B \<Longrightarrow> calls_within (catch_stale h p) B"
  by (induction p arbitrary: B) auto

lemma calls_attempts:
  assumes "n < B s" "\<And>x. calls_within (k x) (B(s := 0))"
  shows "calls_within (attempts m n s st c k) B"
  using assms
proof (induction n arbitrary: B)
  case 0
  have "calls_within (k x) (B(s := B s - 1))" for x using 0(2) by (rule calls_mono) (simp add: le_fun_def)
  then show ?case using 0(1) by (auto split: sum.splits option.splits)
next
  case (Suc n)
  have "calls_within (attempts m n s st c k) (B(s := B s - 1))"
  proof (rule Suc.IH)
    show "calls_within (k x) ((B(s := B s - 1))(s := 0))" for x unfolding fun_upd_upd by (rule Suc.prems(2))
  qed (use Suc.prems(1) in simp)
  moreover have "calls_within (k x) (B(s := B s - 1))" for x using Suc.prems(2) by (rule calls_mono) (simp add: le_fun_def)
  ultimately show ?case using Suc.prems(1) by (auto split: sum.splits option.splits)
qed

lemma calls_retry:
  assumes "call_limit L s \<le> B s" "\<And>x. calls_within (k x) (B(s := 0))"
  shows "calls_within (execute_with_retry L s st c k) B"
proof -
  have "calls_within (k x) (B(s := B s - 1))" for x using assms(2) by (rule calls_mono) (simp add: le_fun_def)
  then show ?thesis using assms
    by (auto simp: execute_with_retry_def Let_def call_limit_def intro!: calls_attempts split: if_splits)
qed

text \<open>The budget left: a step of the run without a result has all its calls.\<close>

definition budget :: "py_lib \<Rightarrow> run_state \<Rightarrow> wf_step \<Rightarrow> nat" where
  "budget L st s = (if dhas (rs_results st) (ws_id s) then 0 else call_limit L s)"

lemma budget_version [simp]: "budget L (st\<lparr> rs_version := v \<rparr>) = budget L st"
  by (simp add: budget_def fun_eq_iff)

lemma budget_recorded:
  "budget L (branched m s r (recorded s r st)) \<le> (budget L st)(s := 0)"
  using dhas_branched by (auto simp: budget_def le_fun_def dhas_recorded)

lemma budget_record: "budget L (record_result j r st) \<le> budget L st"
  by (auto simp: budget_def le_fun_def)

lemma calls_after:
  assumes "\<And>st'. calls_within (fail st') B" "\<And>st'. calls_within (pause st') B"
    and "\<And>v. calls_within (k ((branched m s r (recorded s r st))\<lparr> rs_version := v \<rparr>)) B"
  shows "calls_within (after_result m s r st fail pause k) B"
  using assms by (auto simp: after_result_def Let_def split: option.splits)

lemma calls_run_step:
  assumes new: "\<not> dhas (rs_results st) j"
    and k: "\<And>st'. calls_within (after_skip st') (budget L st')" "\<And>st'. calls_within (k st') (budget L st')"
  shows "calls_within (run_step L i j st after_skip k) (budget L st)"
proof -
  have "calls_within (after_skip ((record_result j r st)\<lparr> rs_version := v \<rparr>)) (budget L st)" for r v
    by (rule calls_mono [OF k(1)]) (simp add: budget_record)
  moreover have "calls_within (after_result True step r st report report k) ((budget L st)(step := 0))" for step r
    by (rule calls_after) (auto intro!: calls_mono [OF k(2)] simp: budget_recorded)
  moreover have "call_limit L step \<le> budget L st step" if "find_step (rs_steps st) j = Some step" for step
    using find_step_some [OF that] new by (simp add: budget_def)
  ultimately show ?thesis
    unfolding run_step_def by (auto split: option.splits sum.splits intro!: calls_retry)
qed

lemma calls_run_steps: "calls_within (run_steps L i order b st) (budget L st)"
proof (induction order arbitrary: b st)
  case (Cons j order)
  have "calls_within (run_step L i j st (run_steps L i order b) (run_steps L i order True)) (budget L st)"
    if "\<not> dhas (rs_results st) j"
    by (rule calls_run_step [OF that Cons.IH Cons.IH])
  then show ?case using Cons.IH
    by (auto simp: live_status_def operator_halt_def check_timeout_def split: option.splits)
qed simp

lemma calls_execute: "calls_within (execute L i) (call_limit L)"
proof -
  have "calls_within (run_steps L i order b st) (call_limit L)" for order b st
    using calls_run_steps by (rule calls_mono) (simp add: le_fun_def budget_def)
  then show ?thesis
    unfolding execute_def execute_unguarded_def by (intro calls_catch) (auto split: option.splits sum.splits)
qed

text \<open>The handler calls of one program on a store that anyone may change between two of its steps.\<close>

inductive makes_calls ::
  "py_lib \<Rightarrow> store_config \<Rightarrow> prog \<Rightarrow> wf_step list \<Rightarrow> prog \<Rightarrow> bool" for L c p where
  begins: "makes_calls L c p [] p"
| calls: "makes_calls L c p steps (Execute s st ctx k) \<Longrightarrow> makes_calls L c p (s # steps) (k x)"
| other: "makes_calls L c p steps q \<Longrightarrow> (\<And>s st ctx k. q \<noteq> Execute s st ctx k) \<Longrightarrow> (\<And>j. q \<noteq> Restart j) \<Longrightarrow> store_ok c r \<Longrightarrow>
    prog_step L (durable_load c) (durable_save c) (r, q) (r', q') \<Longrightarrow> makes_calls L c p steps q'"

lemma calls_other_step:
  assumes "calls_within q B" "\<And>s st ctx k. q \<noteq> Execute s st ctx k" "\<And>j. q \<noteq> Restart j" "store_ok c r"
    and "prog_step L (durable_load c) (durable_save c) (r, q) (r', q')"
  shows "calls_within q' B"
  using assms(5)
proof (cases rule: prog_step.cases)
  case (save l st st' k)
  then obtain n where "st' = st\<lparr> rs_version := Some n \<rparr>" using ds.save_same [OF assms(4)] by blast
  then show ?thesis using assms(1) save by auto
qed (use assms in auto)

lemma makes_calls_within:
  assumes "makes_calls L c p steps q" "calls_within p B"
  shows "\<exists>B'. calls_within q B' \<and> (\<forall>s. count_list steps s + B' s \<le> B s)"
  using assms
proof (induction rule: makes_calls.induct)
  case (calls steps s st ctx k x)
  then obtain B' where B': "calls_within (Execute s st ctx k) B'" "\<forall>s. count_list steps s + B' s \<le> B s" by blast
  have "count_list (s # steps) t + (B'(s := B' s - 1)) t \<le> B t" for t
    using B' by (cases "t = s") auto
  moreover have "calls_within (k x) (B'(s := B' s - 1))" using B'(1) unfolding calls_within.simps by blast
  ultimately show ?case by blast
next
  case (other steps q r r' q')
  then show ?case using calls_other_step by blast
qed auto

section \<open>Properties\<close>

text \<open>C23: a run is only marked completed with a result for every step: if this holds of every completed run in the
  store, it holds after any interleaving of starting, executing, resuming, timing out and cancelling runs.\<close>
theorem completed_runs_are_whole:
  assumes "store_ok c s" "\<forall>i st. durable_load c s i = Some st \<longrightarrow> completed_whole st"
    and "\<forall>p \<in> set ps. run_operation L p"
    and "interleave False L (durable_load c) (durable_save c) (s, ps) (s', ps')"
    and "durable_load c s' i = Some st" "rs_status st = ''completed''" "distinct (map ws_id (rs_steps st))"
  shows "\<forall>step \<in> set (rs_steps st). dhas (rs_results st) (ws_id step)"
proof -
  have "ds.all_stored c completed_whole s" using assms(1,2) by (simp add: ds.all_stored_def)
  moreover have "\<forall>p \<in> set ps. all_saves completed_whole p" using assms(3) cw.saves_operation by blast
  ultimately have "ds.all_stored c completed_whole s'"
    using ds.interleave_stored [OF assms(4), of completed_whole] cw.saves_execute by simp
  then show ?thesis using assms(5-7) by (auto simp: ds.all_stored_def completed_whole_def all_recorded_def)
qed

text \<open>C29: one execution of a run calls the handler of a step at most once, or once more for each retry its failure
  directive asks for when the step may be retried; whatever the store, the handlers and other writers do.\<close>
theorem handler_calls_bounded:
  assumes "makes_calls L c (execute L run_id) steps p"
  shows "count_list steps s \<le> (if step_is_retryable L s then 1 + parse_retry_count (ws_on_failure s) else 1)"
proof -
  obtain B' where "\<forall>s. count_list steps s + B' s \<le> call_limit L s"
    using makes_calls_within [OF assms calls_execute] by blast
  then have "count_list steps s \<le> call_limit L s" by (metis add_leD1)
  then show ?thesis by (simp add: call_limit_def split: if_splits)
qed

section \<open>A worked run\<close>

fun at_boundary :: "prog \<Rightarrow> bool" where
  "at_boundary (Execute s st c k) = True"
| "at_boundary (Restart i) = True"
| "at_boundary _ = False"

lemma drive_calls:
  assumes "makes_calls L c p steps q" "store_ok c r"
    and "\<And>m. m < n \<Longrightarrow> \<not> at_boundary (snd (drive L (durable_load c) (durable_save c) h now m r q))"
  shows "makes_calls L c p steps (snd (drive L (durable_load c) (durable_save c) h now n r q))"
  using assms
proof (induction n arbitrary: r q)
  case (Suc n)
  show ?case
  proof (cases "answered L (durable_load c) (durable_save c) h now r q")
    case (Some x)
    obtain r1 q1 where x: "answered L (durable_load c) (durable_save c) h now r q = Some (r1, q1)" using Some by (cases x) simp
    then have st: "prog_step L (durable_load c) (durable_save c) (r, q) (r1, q1)" by (rule answered_step)
    have "\<not> at_boundary q" using Suc.prems(3) [of 0] by simp
    then have "makes_calls L c p steps q1" by (intro makes_calls.other [OF Suc.prems(1) _ _ Suc.prems(2) st]) auto
    moreover have "store_ok c r1" using st by (cases rule: prog_step.cases) (use Suc.prems(2) ds.save_valid in auto)
    moreover have "\<not> at_boundary (snd (drive L (durable_load c) (durable_save c) h now m r1 q1))" if "m < n" for m
      using Suc.prems(3) [of "Suc m"] that x by simp
    ultimately show ?thesis using Suc.IH x by simp
  qed (use Suc.prems(1) in simp)
qed simp

theorem completed_runs_are_whole_witness:
  "\<exists>st. durable_load sample_config (fst (steady 30 two_step_store (execute sample_lib ''wfr_1''))) ''wfr_1'' = Some st
     \<and> rs_status st = ''completed'' \<and> rs_steps st = two_steps \<and> (\<forall>step \<in> set two_steps. dhas (rs_results st) (ws_id step))"
proof -
  let ?p = "execute sample_lib ''wfr_1''"
  let ?load = "durable_load sample_config (fst (steady 30 two_step_store ?p)) ''wfr_1''"
  have facts: "?load \<noteq> None" "rs_status (the ?load) = ''completed''" "rs_steps (the ?load) = two_steps" "distinct (map ws_id two_steps)"
    by code_simp+
  have "durable_load sample_config two_step_store i = None \<or>
      durable_load sample_config two_step_store i = Some (two_step_run\<lparr> rs_version := Some 1 \<rparr>)" for i
    using ds.save_load [OF empty_store_ok two_step_saved, of i]
    by (simp add: durable_load_def repository_load_def sql_load_def sample_config_def empty_store_def lookup_tenants_def)
  moreover have "completed_whole (two_step_run\<lparr> rs_version := Some 1 \<rparr>)" by code_simp
  ultimately have start: "\<forall>i st. durable_load sample_config two_step_store i = Some st \<longrightarrow> completed_whole st" by (metis option.distinct(1) option.inject)
  have ops: "\<forall>p \<in> set [?p]. run_operation sample_lib p" by (simp add: run_operation.intros engine_program.intros)
  have "\<forall>step \<in> set (rs_steps (the ?load)). dhas (rs_results (the ?load)) (ws_id step)"
    by (rule completed_runs_are_whole [OF two_step_ok start ops steady_interleave]) (use facts in auto)
  then show ?thesis using facts by (intro exI [of _ "the ?load"]) auto
qed

theorem handler_calls_bounded_witness:
  "\<exists>q. makes_calls sample_lib sample_config (execute sample_lib ''wfr_1'') [two_steps ! 1] q
     \<and> count_list [two_steps ! 1] (two_steps ! 1) \<le> (if step_is_retryable sample_lib (two_steps ! 1)
         then 1 + parse_retry_count (ws_on_failure (two_steps ! 1)) else 1)"
proof -
  let ?p = "execute sample_lib ''wfr_1''"
  let ?q = "snd (steady 2 two_step_store ?p)"
  have "\<not> at_boundary (snd (steady 0 two_step_store ?p))" "\<not> at_boundary (snd (steady 1 two_step_store ?p))" by code_simp+
  then have "\<not> at_boundary (snd (steady m two_step_store ?p))" if "m < 2" for m using that by (auto simp: less_2_cases_iff)
  then have calls: "makes_calls sample_lib sample_config ?p [] ?q"
    unfolding steady_def by (intro drive_calls makes_calls.begins two_step_ok)
  have "map_option fst (at_execute ?q) = Some (two_steps ! 1)" by code_simp
  then obtain st ctx k where "?q = Execute (two_steps ! 1) st ctx k" by (cases ?q) auto
  then have "makes_calls sample_lib sample_config ?p [two_steps ! 1] (k undefined)"
    using makes_calls.calls [of sample_lib sample_config ?p "[]"] calls by metis
  with handler_calls_bounded [OF this] show ?thesis by blast
qed

end
