(* ===== verification/Event_Waits.thy ===== *)
theory Event_Waits
  imports State_Store Conditions "HOL-Library.AList"
begin

text \<open>
  Workflow steps that wait for an event (\<open>workflows/event_waits.py\<close>): the record of a wait, the two
  repositories behind one protocol and the store that claims the waits an event matches. The Redis index the
  store also writes is a cache nothing here reads, and is left out. Documents are JSON, on which
  \<open>_json_safe\<close> is the identity; times are seconds.
\<close>

section \<open>Records\<close>

definition ACTIVE_STATUS :: string where "ACTIVE_STATUS = ''waiting''"
definition TERMINAL_STATUSES :: "string list" where "TERMINAL_STATUSES = [''matched'', ''timed_out'', ''cancelled'', ''expired'']"

record event_wait =
  ew_run :: string
  ew_step :: string
  ew_event_type :: string
  ew_criteria :: "pv dict"
  ew_tenant :: "string option"
  ew_workflow_run :: "string option"
  ew_connector :: "string option"
  ew_provider :: "string option"
  ew_status :: string
  ew_timeout_at :: "rat option"
  ew_id :: string
  ew_created_at :: rat
  ew_updated_at :: "rat option"
  ew_matched_at :: "rat option"
  ew_matched_event_id :: "string option"
  ew_matched_event :: "pv dict option"

type_synonym wait_key = "string \<times> string"

definition wait_key :: "event_wait \<Rightarrow> wait_key" where
  "wait_key w = (ew_run w, ew_step w)"

definition is_waiting :: "event_wait \<Rightarrow> bool" where
  "is_waiting w \<longleftrightarrow> ew_status w = ACTIVE_STATUS"

definition event_matches_criteria :: "py_lib \<Rightarrow> pv dict \<Rightarrow> pv dict \<Rightarrow> bool" where
  "event_matches_criteria L event_fields criteria =
     list_all (\<lambda>(key, expected). vget event_fields key \<noteq> VNone
        \<and> lower (strip (py_str L (vget event_fields key))) = lower (strip (py_str L expected))) criteria"

text \<open>The rows a query for waiting listeners gives: of the types if any are named, of the tenant, and not expired.\<close>

definition listed_wait :: "rat \<Rightarrow> string list \<Rightarrow> string option \<Rightarrow> event_wait \<Rightarrow> bool" where
  "listed_wait now event_types tenant w \<longleftrightarrow>
     is_waiting w \<and> (event_types = [] \<or> ew_event_type w \<in> set event_types) \<and> ew_tenant w = tenant
     \<and> (case ew_timeout_at w of None \<Rightarrow> True | Some t \<Rightarrow> now < t)"

definition matched_wait :: "rat \<Rightarrow> string option \<Rightarrow> pv dict \<Rightarrow> event_wait \<Rightarrow> event_wait" where
  "matched_wait now event_id event_data w =
     w\<lparr> ew_status := ''matched'', ew_matched_at := Some now, ew_updated_at := Some now, ew_matched_event_id := event_id,
        ew_matched_event := Some event_data \<rparr>"

definition timed_out_wait :: "rat \<Rightarrow> event_wait \<Rightarrow> event_wait" where
  "timed_out_wait now w = (if is_waiting w then w\<lparr> ew_status := ''timed_out'', ew_updated_at := Some now \<rparr> else w)"

definition new_wait :: "rat \<Rightarrow> string \<Rightarrow> event_wait \<Rightarrow> event_wait" where
  "new_wait now fresh w = w\<lparr> ew_id := fresh, ew_status := ACTIVE_STATUS, ew_created_at := now, ew_updated_at := Some now \<rparr>"

section \<open>The repository in memory\<close>

type_synonym memory_waits = "(wait_key \<times> event_wait) list"

definition memory_register :: "rat \<Rightarrow> string \<Rightarrow> event_wait \<Rightarrow> memory_waits \<Rightarrow> event_wait \<times> memory_waits" where
  "memory_register now fresh w m =
     (let stored = (case map_of m (wait_key w) of
            Some e \<Rightarrow> if is_waiting e then
                e\<lparr> ew_tenant := ew_tenant w, ew_workflow_run := ew_workflow_run w, ew_event_type := ew_event_type w,
                   ew_connector := ew_connector w, ew_provider := ew_provider w, ew_criteria := ew_criteria w,
                   ew_timeout_at := ew_timeout_at w, ew_updated_at := Some now \<rparr>
              else new_wait now (if ew_id w = [] then fresh else ew_id w) w
          | None \<Rightarrow> new_wait now (if ew_id w = [] then fresh else ew_id w) w)
      in (stored, AList.update (wait_key w) stored m))"

definition memory_list_waiting :: "rat \<Rightarrow> string list \<Rightarrow> string option \<Rightarrow> memory_waits \<Rightarrow> event_wait list" where
  "memory_list_waiting now event_types tenant m = filter (listed_wait now event_types tenant) (map snd m)"

definition memory_claim_matched ::
    "rat \<Rightarrow> wait_key \<Rightarrow> string option \<Rightarrow> pv dict \<Rightarrow> memory_waits \<Rightarrow> event_wait option \<times> memory_waits" where
  "memory_claim_matched now key event_id event_data m =
     (case map_of m key of
        None \<Rightarrow> (None, m)
      | Some e \<Rightarrow>
          if \<not> is_waiting e then (None, m)
          else let e' = matched_wait now event_id event_data e in (Some e', AList.update key e' m))"

definition memory_mark_timed_out :: "rat \<Rightarrow> wait_key \<Rightarrow> memory_waits \<Rightarrow> event_wait option \<times> memory_waits" where
  "memory_mark_timed_out now key m =
     (case map_of m key of
        None \<Rightarrow> (None, m)
      | Some e \<Rightarrow> let e' = timed_out_wait now e in (Some e', AList.update key e' m))"

section \<open>The repository in PostgreSQL\<close>

text \<open>
  The rows in the order they were added. A repository may be bound to a tenant; one that is not looks the
  rows up tenant by tenant. The partial unique index on the waiting rows of a run and step spans all tenants.
\<close>

datatype wait_error = WaitTenantScope | WaitIntegrity

type_synonym sql_waits = "event_wait list"

definition update_wait :: "event_wait \<Rightarrow> sql_waits \<Rightarrow> sql_waits" where
  "update_wait w rows = map (\<lambda>r. if ew_id r = ew_id w then w else r) rows"

definition row_at :: "wait_key \<Rightarrow> string option \<Rightarrow> event_wait \<Rightarrow> bool" where
  "row_at key tenant r \<longleftrightarrow> wait_key r = key \<and> ew_tenant r = tenant"

definition sql_register ::
    "string option \<Rightarrow> rat \<Rightarrow> string \<Rightarrow> event_wait \<Rightarrow> sql_waits \<Rightarrow> (wait_error, event_wait \<times> sql_waits) res" where
  "sql_register scope now fresh w rows =
     (if scope \<noteq> None \<and> ew_tenant w \<noteq> scope then Inl WaitTenantScope
      else case find (\<lambda>r. row_at (wait_key w) (ew_tenant w) r \<and> is_waiting r) rows of
        None \<Rightarrow>
          if list_ex (\<lambda>r. wait_key r = wait_key w \<and> is_waiting r) rows then Inl WaitIntegrity
          else let r = new_wait now fresh (w\<lparr> ew_matched_at := None, ew_matched_event_id := None, ew_matched_event := None \<rparr>)
               in Inr (r, rows @ [r])
      | Some r \<Rightarrow>
          let r' = r\<lparr> ew_workflow_run := (case ew_workflow_run w of None \<Rightarrow> ew_workflow_run r | Some i \<Rightarrow> Some i),
                ew_event_type := ew_event_type w, ew_connector := ew_connector w, ew_provider := ew_provider w,
                ew_criteria := ew_criteria w, ew_timeout_at := ew_timeout_at w, ew_updated_at := Some now \<rparr>
          in Inr (r', update_wait r' rows))"

definition sql_list_waiting :: "string option \<Rightarrow> rat \<Rightarrow> string list \<Rightarrow> string option \<Rightarrow> sql_waits \<Rightarrow> event_wait list" where
  "sql_list_waiting scope now event_types tenant rows =
     (if scope \<noteq> None \<and> tenant \<noteq> scope then [] else filter (listed_wait now event_types tenant) rows)"

fun claim_in :: "rat \<Rightarrow> wait_key \<Rightarrow> string option \<Rightarrow> pv dict \<Rightarrow> string option list \<Rightarrow> sql_waits \<Rightarrow> event_wait option \<times> sql_waits" where
  "claim_in now key event_id event_data [] rows = (None, rows)"
| "claim_in now key event_id event_data (tenant # tenants) rows =
     (case find (\<lambda>r. row_at key tenant r \<and> is_waiting r) rows of
        None \<Rightarrow> claim_in now key event_id event_data tenants rows
      | Some r \<Rightarrow> let r' = matched_wait now event_id event_data r in (Some r', update_wait r' rows))"

definition sql_claim_matched ::
    "string list \<Rightarrow> string option \<Rightarrow> rat \<Rightarrow> wait_key \<Rightarrow> string option \<Rightarrow> pv dict \<Rightarrow> sql_waits \<Rightarrow> event_wait option \<times> sql_waits" where
  "sql_claim_matched registry scope now key event_id event_data rows =
     claim_in now key event_id event_data (lookup_tenants registry scope) rows"

text \<open>The row updated last, rows never updated coming last; of rows updated at the same time the one added last.\<close>

definition newer :: "event_wait \<Rightarrow> event_wait \<Rightarrow> event_wait" where
  "newer a b = (case (ew_updated_at a, ew_updated_at b) of
      (Some s, Some t) \<Rightarrow> if s \<le> t then b else a
    | (Some s, None) \<Rightarrow> a
    | (None, _) \<Rightarrow> b)"

definition latest :: "event_wait list \<Rightarrow> event_wait option" where
  "latest rows = (case rows of [] \<Rightarrow> None | r # rs \<Rightarrow> Some (foldl newer r rs))"

fun time_out_in :: "rat \<Rightarrow> wait_key \<Rightarrow> string option list \<Rightarrow> sql_waits \<Rightarrow> event_wait option \<times> sql_waits" where
  "time_out_in now key [] rows = (None, rows)"
| "time_out_in now key (tenant # tenants) rows =
     (case latest (filter (row_at key tenant) rows) of
        None \<Rightarrow> time_out_in now key tenants rows
      | Some r \<Rightarrow> let r' = timed_out_wait now r in (Some r', update_wait r' rows))"

definition sql_mark_timed_out ::
    "string list \<Rightarrow> string option \<Rightarrow> rat \<Rightarrow> wait_key \<Rightarrow> sql_waits \<Rightarrow> event_wait option \<times> sql_waits" where
  "sql_mark_timed_out registry scope now key rows = time_out_in now key (lookup_tenants registry scope) rows"

section \<open>The store\<close>

record wait_request =
  wq_run :: string
  wq_step :: string
  wq_event_type :: string
  wq_criteria :: "pv dict"
  wq_timeout_at :: "rat option"
  wq_tenant :: pv
  wq_workflow_run :: pv
  wq_connector :: "string option"
  wq_provider :: "string option"

definition wait_of_request :: "(string \<Rightarrow> string option) \<Rightarrow> wait_request \<Rightarrow> event_wait" where
  "wait_of_request parse_uuid q =
     \<lparr> ew_run = wq_run q, ew_step = wq_step q, ew_event_type = wq_event_type q, ew_criteria = wq_criteria q,
       ew_tenant = coerce_uuid parse_uuid (wq_tenant q), ew_workflow_run = coerce_uuid parse_uuid (wq_workflow_run q),
       ew_connector = wq_connector q, ew_provider = wq_provider q, ew_status = ACTIVE_STATUS, ew_timeout_at = wq_timeout_at q,
       ew_id = [], ew_created_at = 0, ew_updated_at = None, ew_matched_at = None, ew_matched_event_id = None,
       ew_matched_event = None \<rparr>"

text \<open>Each wait of the list that the event matches is claimed; one that was claimed meanwhile is passed over.\<close>

fun claim_matching ::
    "(wait_key \<Rightarrow> 'r \<Rightarrow> event_wait option \<times> 'r) \<Rightarrow> py_lib \<Rightarrow> pv dict \<Rightarrow> event_wait list \<Rightarrow> 'r \<Rightarrow> event_wait list \<times> 'r" where
  "claim_matching claim L event_fields [] r = ([], r)"
| "claim_matching claim L event_fields (w # ws) r =
     (if \<not> event_matches_criteria L event_fields (ew_criteria w) then claim_matching claim L event_fields ws r
      else case claim (wait_key w) r of
        (None, r') \<Rightarrow> claim_matching claim L event_fields ws r'
      | (Some m, r') \<Rightarrow> (case claim_matching claim L event_fields ws r' of (ms, r'') \<Rightarrow> (m # ms, r'')))"

definition claim_matching_waits ::
    "(string \<Rightarrow> string option) \<Rightarrow> py_lib \<Rightarrow> string list \<Rightarrow> string option \<Rightarrow> rat \<Rightarrow> rat \<Rightarrow> string list \<Rightarrow> pv dict \<Rightarrow> pv
     \<Rightarrow> string option \<Rightarrow> sql_waits \<Rightarrow> event_wait list \<times> sql_waits" where
  "claim_matching_waits parse_uuid L registry scope now later event_types event_fields tenant event_id rows =
     claim_matching (\<lambda>key. sql_claim_matched registry scope later key event_id event_fields) L event_fields
       (sql_list_waiting scope now event_types (coerce_uuid parse_uuid tenant) rows) rows"

section \<open>The protocol of a repository\<close>

lemmas wait_defs = wait_key_def is_waiting_def matched_wait_def timed_out_wait_def new_wait_def ACTIVE_STATUS_def

lemma wait_updates [simp]:
  "wait_key (matched_wait now e d w) = wait_key w" "\<not> is_waiting (matched_wait now e d w)"
  "wait_key (timed_out_wait now w) = wait_key w" "\<not> is_waiting (timed_out_wait now w)"
  "wait_key (new_wait now fresh w) = wait_key w" "is_waiting (new_wait now fresh w)"
  "ew_id (matched_wait now e d w) = ew_id w" "ew_id (timed_out_wait now w) = ew_id w" "ew_id (new_wait now fresh w) = fresh"
  "ew_tenant (matched_wait now e d w) = ew_tenant w" "ew_tenant (timed_out_wait now w) = ew_tenant w"
  "ew_tenant (new_wait now fresh w) = ew_tenant w"
  by (simp_all add: wait_defs)

text \<open>
  What both repositories promise: \<open>waits r\<close> is the waiting record under a key. A registration puts one
  there, a claim takes it and answers with it, a timeout at most takes it, and the list shows what is there.
\<close>

locale wait_repository =
  fixes register :: "rat \<Rightarrow> string \<Rightarrow> event_wait \<Rightarrow> 'r \<Rightarrow> (wait_error, event_wait \<times> 'r) res"
    and list_waiting :: "rat \<Rightarrow> string list \<Rightarrow> string option \<Rightarrow> 'r \<Rightarrow> event_wait list"
    and claim :: "rat \<Rightarrow> wait_key \<Rightarrow> string option \<Rightarrow> pv dict \<Rightarrow> 'r \<Rightarrow> event_wait option \<times> 'r"
    and time_out :: "rat \<Rightarrow> wait_key \<Rightarrow> 'r \<Rightarrow> event_wait option \<times> 'r"
    and waits :: "'r \<Rightarrow> wait_key \<Rightarrow> event_wait option"
    and invar :: "'r \<Rightarrow> bool"
    and ids :: "'r \<Rightarrow> string set"
    and visible :: "string option \<Rightarrow> bool"
  assumes register: "invar r \<Longrightarrow> fresh \<notin> ids r \<Longrightarrow> visible (ew_tenant w) \<Longrightarrow> register now fresh w r = Inr (w', r') \<Longrightarrow>
      invar r' \<and> waits r' = (waits r)(wait_key w \<mapsto> w')"
    and claim: "invar r \<Longrightarrow> claim now key e d r = (res, r') \<Longrightarrow>
      invar r' \<and> res = map_option (matched_wait now e d) (waits r key) \<and> waits r' = (waits r)(key := None)"
    and time_out: "invar r \<Longrightarrow> time_out now key r = (res, r') \<Longrightarrow>
      invar r' \<and> (waits r' = waits r \<or> waits r' = (waits r)(key := None))"
    and listed: "invar r \<Longrightarrow> visible tenant \<Longrightarrow>
      set (list_waiting now types tenant r) = {w. waits r (wait_key w) = Some w \<and> listed_wait now types tenant w}"
    and listed_once: "invar r \<Longrightarrow> distinct (map wait_key (list_waiting now types tenant r))"
begin

text \<open>An event takes exactly the listed waits it matches, each once, and leaves the others.\<close>

lemma claim_matching_takes:
  assumes "invar r" "distinct (map wait_key ws)" "\<forall>w \<in> set ws. waits r (wait_key w) = Some w"
    and "claim_matching (\<lambda>key. claim now key e d) L ev ws r = (ms, r')"
  shows "ms = map (matched_wait now e d) (filter (\<lambda>w. event_matches_criteria L ev (ew_criteria w)) ws)
    \<and> invar r' \<and> waits r' = (\<lambda>k. if k \<in> wait_key ` set (filter (\<lambda>w. event_matches_criteria L ev (ew_criteria w)) ws)
        then None else waits r k)"
  using assms
proof (induction ws arbitrary: r ms r')
  case (Cons w ws)
  show ?case
  proof (cases "event_matches_criteria L ev (ew_criteria w)")
    case True
    obtain res r1 where c: "claim now (wait_key w) e d r = (res, r1)" by fastforce
    have w: "waits r (wait_key w) = Some w" using Cons.prems(3) by simp
    have r1: "invar r1" "res = Some (matched_wait now e d w)" "waits r1 = (waits r)(wait_key w := None)"
      using claim [OF Cons.prems(1) c] w by simp_all
    obtain ms1 where ms1: "claim_matching (\<lambda>key. claim now key e d) L ev ws r1 = (ms1, r')" "ms = matched_wait now e d w # ms1"
      using Cons.prems(4) True c r1(2) by (auto split: prod.splits)
    have "\<forall>v \<in> set ws. waits r1 (wait_key v) = Some v"
      using Cons.prems(2,3) r1(3) by (auto simp: image_iff)
    then have "ms1 = map (matched_wait now e d) (filter (\<lambda>w. event_matches_criteria L ev (ew_criteria w)) ws)"
      and "invar r'" and r': "waits r' = (\<lambda>k. if k \<in> wait_key ` set (filter (\<lambda>w. event_matches_criteria L ev (ew_criteria w)) ws)
        then None else waits r1 k)"
      using Cons.IH [OF r1(1) _ _ ms1(1)] Cons.prems(2) by simp_all
    moreover have "waits r' k = (if k \<in> wait_key ` set (filter (\<lambda>w. event_matches_criteria L ev (ew_criteria w)) (w # ws))
        then None else waits r k)" for k
      using True by (simp add: r' r1(3))
    ultimately show ?thesis using True ms1(2) by auto
  next
    case False
    then show ?thesis using Cons.IH [of r ms r'] Cons.prems by simp
  qed
qed simp

end

subsection \<open>In memory\<close>

definition memory_waiting :: "memory_waits \<Rightarrow> wait_key \<Rightarrow> event_wait option" where
  "memory_waiting m key = (case map_of m key of Some e \<Rightarrow> if is_waiting e then Some e else None | None \<Rightarrow> None)"

definition memory_invar :: "memory_waits \<Rightarrow> bool" where
  "memory_invar m \<longleftrightarrow> distinct (map fst m) \<and> (\<forall>(k, e) \<in> set m. wait_key e = k)"

lemma memory_update:
  assumes "memory_invar m" "wait_key e = k"
  shows "memory_invar (AList.update k e m)
    \<and> memory_waiting (AList.update k e m) = (memory_waiting m)(k := if is_waiting e then Some e else None)"
proof -
  have "distinct (map fst (AList.update k e m))" using assms(1) by (simp add: memory_invar_def distinct_update)
  moreover have "wait_key e' = k'" if "(k', e') \<in> set (AList.update k e m)" for k' e'
  proof (cases "k' = k")
    case True
    then show ?thesis
      using map_of_is_SomeI [OF \<open>distinct (map fst (AList.update k e m))\<close> that] assms(2) by (simp add: update_conv')
  next
    case False
    then have "map_of m k' = Some e'"
      using map_of_is_SomeI [OF \<open>distinct (map fst (AList.update k e m))\<close> that] by (simp add: update_conv')
    then show ?thesis using assms(1) map_of_SomeD [of m k' e'] by (auto simp: memory_invar_def)
  qed
  moreover have "memory_waiting (AList.update k e m) x = ((memory_waiting m)(k := if is_waiting e then Some e else None)) x" for x
    by (cases "x = k") (simp_all add: memory_waiting_def update_conv')
  ultimately show ?thesis by (auto simp: memory_invar_def)
qed

interpretation mw: wait_repository "\<lambda>now fresh w m. Inr (memory_register now fresh w m)" memory_list_waiting memory_claim_matched
  memory_mark_timed_out memory_waiting memory_invar "\<lambda>m. ew_id ` snd ` set m" "\<lambda>t. True"
proof (unfold_locales, goal_cases)
  case (1 r fresh w now w' r')
  have r': "r' = AList.update (wait_key w) w' r" using 1(4) unfolding memory_register_def Let_def by auto
  have "wait_key w' = wait_key w \<and> is_waiting w'"
  proof (cases "\<exists>e. map_of r (wait_key w) = Some e \<and> is_waiting e")
    case True
    then obtain e where e: "map_of r (wait_key w) = Some e" "is_waiting e" by blast
    have "wait_key e = wait_key w" using 1(1) map_of_SomeD [OF e(1)] by (auto simp: memory_invar_def)
    moreover have "wait_key w' = wait_key e \<and> ew_status w' = ew_status e"
      using 1(4) e by (simp add: memory_register_def Let_def wait_key_def) force
    ultimately show ?thesis using e(2) by (simp add: is_waiting_def)
  next
    case False
    then have "w' = new_wait now (if ew_id w = [] then fresh else ew_id w) w"
      using 1(4) by (simp add: memory_register_def Let_def split: option.splits if_splits)
    then show ?thesis by simp
  qed
  then show ?case using memory_update [OF 1(1), of w' "wait_key w"] r' by simp
next
  case (2 r now key e d res r')
  show ?case
  proof (cases "memory_waiting r key")
    case None
    then have "res = None \<and> r' = r" using 2(2) by (auto simp: memory_claim_matched_def memory_waiting_def split: option.splits if_splits)
    with None 2(1) show ?thesis by (simp add: fun_upd_idem)
  next
    case (Some x)
    then have x: "map_of r key = Some x" "is_waiting x" by (auto simp: memory_waiting_def split: option.splits if_splits)
    have "wait_key x = key" using 2(1) map_of_SomeD [OF x(1)] by (auto simp: memory_invar_def)
    then show ?thesis
      using 2(2) x Some memory_update [OF 2(1), of "matched_wait now e d x" key]
      by (simp add: memory_claim_matched_def Let_def)
  qed
next
  case (3 r now key res r')
  show ?case
  proof (cases "map_of r key")
    case None
    then show ?thesis using 3 by (simp add: memory_mark_timed_out_def)
  next
    case (Some x)
    have "wait_key x = key" using 3(1) map_of_SomeD [OF Some] by (auto simp: memory_invar_def)
    then show ?thesis
      using 3(2) Some memory_update [OF 3(1), of "timed_out_wait now x" key]
      by (simp add: memory_mark_timed_out_def Let_def)
  qed
next
  case (4 r tenant now types)
  have "w \<in> snd ` set r \<and> is_waiting w \<longleftrightarrow> memory_waiting r (wait_key w) = Some w" for w
  proof
    assume "w \<in> snd ` set r \<and> is_waiting w"
    then obtain k where "(k, w) \<in> set r" "is_waiting w" by auto
    then show "memory_waiting r (wait_key w) = Some w"
      using 4(1) map_of_is_SomeI [of r k w] by (auto simp: memory_invar_def memory_waiting_def)
  next
    assume "memory_waiting r (wait_key w) = Some w"
    then have "map_of r (wait_key w) = Some w" "is_waiting w" by (auto simp: memory_waiting_def split: option.splits if_splits)
    then show "w \<in> snd ` set r \<and> is_waiting w" using map_of_SomeD by force
  qed
  then show ?case by (auto simp: memory_list_waiting_def listed_wait_def)
next
  case (5 r now types tenant)
  have e: "map wait_key (map snd r) = map fst r" using 5 by (auto simp: memory_invar_def)
  have "distinct (map wait_key (map snd r))" unfolding e using 5 by (simp add: memory_invar_def)
  then show ?case unfolding memory_list_waiting_def by (rule distinct_map_filter)
qed

subsection \<open>In PostgreSQL\<close>

definition sql_waiting :: "string option set \<Rightarrow> sql_waits \<Rightarrow> wait_key \<Rightarrow> event_wait option" where
  "sql_waiting T rows key = find (\<lambda>r. wait_key r = key \<and> is_waiting r \<and> ew_tenant r \<in> T) rows"

definition sql_invar :: "sql_waits \<Rightarrow> bool" where
  "sql_invar rows \<longleftrightarrow> distinct (map ew_id rows) \<and> distinct (map wait_key (filter is_waiting rows))"

lemma distinct_map_same: "distinct (map f xs) \<Longrightarrow> x \<in> set xs \<Longrightarrow> y \<in> set xs \<Longrightarrow> f x = f y \<Longrightarrow> x = y"
  by (auto simp: distinct_map inj_on_def)

lemma one_waiting:
  "sql_invar rows \<Longrightarrow> r \<in> set rows \<Longrightarrow> is_waiting r \<Longrightarrow> r' \<in> set rows \<Longrightarrow> is_waiting r' \<Longrightarrow> wait_key r = wait_key r' \<Longrightarrow> r = r'"
  by (rule distinct_map_same [of wait_key "filter is_waiting rows"]) (simp_all add: sql_invar_def)

lemma find_some_iff:
  "(\<And>x y. x \<in> set xs \<Longrightarrow> P x \<Longrightarrow> y \<in> set xs \<Longrightarrow> P y \<Longrightarrow> x = y) \<Longrightarrow> find P xs = Some x \<longleftrightarrow> x \<in> set xs \<and> P x"
  by (induction xs) (auto split: if_splits)

lemma sql_waiting_iff:
  assumes "sql_invar rows"
  shows "sql_waiting T rows k = Some w \<longleftrightarrow> w \<in> set rows \<and> wait_key w = k \<and> is_waiting w \<and> ew_tenant w \<in> T"
  unfolding sql_waiting_def by (rule find_some_iff) (metis assms one_waiting)

lemma update_wait_split:
  assumes "distinct (map ew_id (pre @ r # post))" "ew_id w = ew_id r"
  shows "update_wait w (pre @ r # post) = pre @ w # post"
proof -
  have "ew_id r \<notin> ew_id ` (set pre \<union> set post)" using assms(1) by (simp add: image_Un)
  then have "ew_id x \<noteq> ew_id w" if "x \<in> set pre \<union> set post" for x using assms(2) that by (metis image_eqI)
  then show ?thesis using assms(2) by (simp add: update_wait_def map_idI)
qed

lemma update_wait_same: "distinct (map ew_id rows) \<Longrightarrow> r \<in> set rows \<Longrightarrow> update_wait r rows = rows"
  by (auto simp: update_wait_def intro!: map_idI dest: distinct_map_same)

text \<open>A waiting row is replaced by one of the same run, step and tenant.\<close>

lemma sql_replace:
  assumes i: "sql_invar rows" and r: "r \<in> set rows" "is_waiting r" "ew_tenant r \<in> T"
    and w: "ew_id w = ew_id r" "wait_key w = wait_key r" "ew_tenant w = ew_tenant r"
  shows "sql_invar (update_wait w rows)
    \<and> sql_waiting T (update_wait w rows) = (sql_waiting T rows)(wait_key r := if is_waiting w then Some w else None)"
proof -
  obtain pre post where rows: "rows = pre @ r # post" using r(1) by (meson split_list)
  have u: "update_wait w rows = pre @ w # post"
    using update_wait_split [OF _ w(1)] i by (simp add: rows sql_invar_def)
  have i': "sql_invar (update_wait w rows)"
    using i r(2) w by (cases "is_waiting w") (simp_all add: u [unfolded rows] rows sql_invar_def image_Un)
  have "wait_key r \<notin> wait_key ` {x \<in> set pre \<union> set post. is_waiting x}"
    using i r(2) by (simp add: rows sql_invar_def) blast
  then have other: "wait_key x \<noteq> wait_key r" if "x \<in> set pre \<union> set post" "is_waiting x" for x
    using that by (metis (mono_tags, lifting) image_eqI mem_Collect_eq)
  have in_rows: "v \<in> set rows \<longleftrightarrow> v = r \<or> v \<in> set pre \<union> set post"
    and in_rows': "v \<in> set (update_wait w rows) \<longleftrightarrow> v = w \<or> v \<in> set pre \<union> set post" for v
    by (simp_all add: u, simp_all add: rows)
  have "sql_waiting T (update_wait w rows) k = Some v \<longleftrightarrow>
      ((sql_waiting T rows)(wait_key r := if is_waiting w then Some w else None)) k = Some v" for k v
    using other [of v] w r(2,3) unfolding fun_upd_apply
    by (cases "k = wait_key r")
      (simp_all add: sql_waiting_iff [OF i] sql_waiting_iff [OF i'] in_rows in_rows', metis+)
  then have "sql_waiting T (update_wait w rows) k =
      ((sql_waiting T rows)(wait_key r := if is_waiting w then Some w else None)) k" for k
    by (metis option.exhaust)
  with i' show ?thesis by blast
qed

lemma sql_claims:
  assumes i: "sql_invar rows" and t: "T = set tenants"
  shows "claim_in now key e d tenants rows =
    (case sql_waiting T rows key of None \<Rightarrow> (None, rows) | Some r \<Rightarrow> (Some (matched_wait now e d r), update_wait (matched_wait now e d r) rows))"
  unfolding t
proof (induction tenants)
  case Nil
  have "sql_waiting {} rows key = None" by (simp add: sql_waiting_def find_None_iff)
  then show ?case by simp
next
  case (Cons a tenants)
  show ?case
  proof (cases "find (\<lambda>r. row_at key a r \<and> is_waiting r) rows")
    case None
    then have "sql_waiting (set (a # tenants)) rows key = sql_waiting (set tenants) rows key"
      unfolding sql_waiting_def find_None_iff by (intro find_cong) (auto simp: row_at_def)
    then show ?thesis using Cons.IH None by simp
  next
    case (Some r)
    then have "r \<in> set rows" "row_at key a r" "is_waiting r" by (auto simp: find_Some_iff)
    then have "sql_waiting (set (a # tenants)) rows key = Some r" by (simp add: sql_waiting_iff [OF i] row_at_def)
    then show ?thesis using Some by (simp add: Let_def)
  qed
qed

lemma latest_mem: "latest rows = Some r \<Longrightarrow> r \<in> set rows"
proof -
  have "foldl newer x xs = x \<or> foldl newer x xs \<in> set xs" for x xs
  proof (induction xs arbitrary: x)
    case (Cons a xs)
    have "newer x a = x \<or> newer x a = a" by (simp add: newer_def split: option.splits)
    then show ?case using Cons.IH [of "newer x a"] by auto
  qed simp
  then show "latest rows = Some r \<Longrightarrow> r \<in> set rows" by (auto simp: latest_def split: list.splits)
qed

lemma sql_times_out:
  assumes "time_out_in now key tenants rows = (res, rows')"
  obtains (none) "rows' = rows" | (row) r where "r \<in> set rows" "wait_key r = key" "ew_tenant r \<in> set tenants"
    "rows' = update_wait (timed_out_wait now r) rows"
  using assms
proof (induction tenants arbitrary: thesis)
  case (Cons a tenants)
  show ?case
  proof (cases "latest (filter (row_at key a) rows)")
    case None
    then have "time_out_in now key tenants rows = (res, rows')" using Cons.prems(3) by simp
    then show ?thesis using Cons.prems(1,2) by (rule Cons.IH [rotated 2]) simp_all
  next
    case (Some r)
    then have "r \<in> set rows" "wait_key r = key" "ew_tenant r = a" using latest_mem [OF Some] by (auto simp: row_at_def)
    then show ?thesis using Cons.prems(2) [of r] Cons.prems(3) Some by (simp add: Let_def)
  qed
qed simp

lemma sql_adds:
  assumes i: "sql_invar rows" and fresh: "ew_id w \<notin> ew_id ` set rows" and w: "is_waiting w" "ew_tenant w \<in> T"
    and none: "\<not> list_ex (\<lambda>r. wait_key r = wait_key w \<and> is_waiting r) rows"
  shows "sql_invar (rows @ [w]) \<and> sql_waiting T (rows @ [w]) = (sql_waiting T rows)(wait_key w \<mapsto> w)"
proof -
  have n: "\<not> (wait_key r = wait_key w \<and> is_waiting r)" if "r \<in> set rows" for r
    using none that by (metis (mono_tags, lifting) list_ex_iff)
  then have "wait_key w \<notin> wait_key ` set (filter is_waiting rows)"
    unfolding set_filter by (metis (no_types, lifting) image_iff mem_Collect_eq)
  then have i': "sql_invar (rows @ [w])" using i fresh w(1) by (simp add: sql_invar_def)
  have "sql_waiting T (rows @ [w]) k = Some v \<longleftrightarrow> ((sql_waiting T rows)(wait_key w \<mapsto> w)) k = Some v" for k v
    using n [of v] w unfolding fun_upd_apply
    by (cases "k = wait_key w") (simp_all add: sql_waiting_iff [OF i] sql_waiting_iff [OF i'], metis+)
  then have "sql_waiting T (rows @ [w]) k = ((sql_waiting T rows)(wait_key w \<mapsto> w)) k" for k
    by (metis option.exhaust)
  with i' show ?thesis by blast
qed

lemma sql_registers:
  assumes i: "sql_invar rows" and fresh: "fresh \<notin> ew_id ` set rows" and w: "ew_tenant w \<in> T"
    and reg: "sql_register scope now fresh w rows = Inr (w', rows')"
  shows "sql_invar rows' \<and> sql_waiting T rows' = (sql_waiting T rows)(wait_key w \<mapsto> w')"
proof (cases "find (\<lambda>r. row_at (wait_key w) (ew_tenant w) r \<and> is_waiting r) rows")
  case None
  then have "\<not> list_ex (\<lambda>r. wait_key r = wait_key w \<and> is_waiting r) rows" "rows' = rows @ [w']"
    and w': "w' = new_wait now fresh (w\<lparr> ew_matched_at := None, ew_matched_event_id := None, ew_matched_event := None \<rparr>)"
    using reg by (simp_all add: sql_register_def Let_def split: if_splits) metis
  moreover have "wait_key w' = wait_key w" "ew_tenant w' = ew_tenant w" "ew_id w' = fresh" "is_waiting w'"
    by (simp_all add: w', simp_all add: wait_key_def)
  ultimately show ?thesis using sql_adds [OF i, of w' T] fresh w by simp
next
  case (Some r)
  then have r: "r \<in> set rows" "wait_key r = wait_key w" "ew_tenant r = ew_tenant w" "is_waiting r"
    by (metis (no_types, lifting) find_Some_iff nth_mem row_at_def)+
  have rows': "rows' = update_wait w' rows" and "ew_id w' = ew_id r" "wait_key w' = wait_key r" "ew_tenant w' = ew_tenant r"
      "ew_status w' = ew_status r"
    using reg Some by (simp_all add: sql_register_def Let_def wait_key_def split: if_splits) fastforce+
  then show ?thesis using sql_replace [OF i r(1,4), of T w'] w r by (simp add: is_waiting_def)
qed

lemma sql_claimed:
  assumes i: "sql_invar rows" and c: "sql_claim_matched registry scope now key e d rows = (res, rows')"
    and T: "set (lookup_tenants registry scope) \<subseteq> T"
  shows "sql_invar rows' \<and> (case res of None \<Rightarrow> rows' = rows
    | Some w \<Rightarrow> (\<exists>r. sql_waiting T rows key = Some r \<and> w = matched_wait now e d r) \<and> sql_waiting T rows' = (sql_waiting T rows)(key := None))"
proof (cases "sql_waiting (set (lookup_tenants registry scope)) rows key")
  case None
  then show ?thesis using c i by (simp add: sql_claim_matched_def sql_claims [OF i refl])
next
  case (Some r)
  then have r: "r \<in> set rows" "wait_key r = key" "is_waiting r" "ew_tenant r \<in> T"
    using T by (auto simp: sql_waiting_iff [OF i])
  have "res = Some (matched_wait now e d r)" "rows' = update_wait (matched_wait now e d r) rows"
    using c Some by (simp_all add: sql_claim_matched_def sql_claims [OF i refl])
  moreover have "sql_waiting T rows key = Some r" using r by (simp add: sql_waiting_iff [OF i])
  ultimately show ?thesis using sql_replace [OF i r(1,3,4), of "matched_wait now e d r"] r(2) by simp
qed

lemma sql_timed_out:
  assumes i: "sql_invar rows" and c: "sql_mark_timed_out registry scope now key rows = (res, rows')"
    and T: "set (lookup_tenants registry scope) \<subseteq> T"
  shows "sql_invar rows' \<and> (rows' = rows \<or> sql_waiting T rows key \<noteq> None \<and> sql_waiting T rows' = (sql_waiting T rows)(key := None))"
  using c [unfolded sql_mark_timed_out_def]
proof (cases rule: sql_times_out)
  case (row r)
  show ?thesis
  proof (cases "is_waiting r")
    case True
    then have "sql_waiting T rows key = Some r" using row(1-3) T by (auto simp: sql_waiting_iff [OF i])
    then show ?thesis
      using sql_replace [OF i row(1) True, of T "timed_out_wait now r"] row T by auto
  next
    case False
    then have "rows' = rows" using row i update_wait_same [of rows r] by (simp add: timed_out_wait_def sql_invar_def)
    then show ?thesis using i by simp
  qed
qed (use i in simp)

interpretation sq: wait_repository "sql_register scope" "sql_list_waiting scope" "sql_claim_matched registry scope"
  "sql_mark_timed_out registry scope" "sql_waiting (set (lookup_tenants registry scope))" sql_invar "\<lambda>rows. ew_id ` set rows"
  "\<lambda>t. t \<in> set (lookup_tenants registry scope)"
  for registry scope
proof (unfold_locales, goal_cases)
  case (1 r fresh w now w' r')
  then show ?case by (rule sql_registers)
next
  case (2 r now key e d res r')
  show ?case
  proof (cases res)
    case None
    then have "sql_waiting (set (lookup_tenants registry scope)) r key = None"
      using 2(2) by (simp add: sql_claim_matched_def sql_claims [OF 2(1) refl] split: option.splits)
    then show ?thesis using sql_claimed [OF 2 order_refl] 2(1) None by (simp add: fun_upd_idem)
  qed (use sql_claimed [OF 2 order_refl] in auto)
next
  case (3 r now key res r')
  then show ?case using sql_timed_out [OF 3 order_refl] by metis
next
  case (4 r tenant now types)
  then have "sql_list_waiting scope now types tenant r = filter (listed_wait now types tenant) r"
    by (auto simp: sql_list_waiting_def lookup_tenants_def split: option.splits)
  moreover have "w \<in> set r \<longleftrightarrow> sql_waiting (set (lookup_tenants registry scope)) r (wait_key w) = Some w"
    if "listed_wait now types tenant w" for w
    using that 4(2) by (simp add: sql_waiting_iff [OF 4(1)] listed_wait_def)
  ultimately show ?case by auto
next
  case (5 r now types tenant)
  have "filter (listed_wait now types tenant) r = filter (listed_wait now types tenant) (filter is_waiting r)"
    by (induction r) (auto simp: listed_wait_def)
  then show ?case
    using 5 distinct_map_filter [of wait_key "filter is_waiting r" "listed_wait now types tenant"]
    by (simp add: sql_list_waiting_def sql_invar_def del: filter_filter)
qed

section \<open>Runs of the repository\<close>

text \<open>
  Any number of workers register, claim and time out waits on the same rows, each bound to a tenant or to
  none and each with its own view of the tenant registry. The history records what happened to which wait.
\<close>

datatype wait_event = Registered wait_key | Delivered wait_key | TimedOut wait_key

inductive wait_history :: "wait_event list \<Rightarrow> sql_waits \<Rightarrow> bool" where
  empty: "wait_history [] []"
| registered: "wait_history h rows \<Longrightarrow> fresh \<notin> ew_id ` set rows \<Longrightarrow> sql_register scope now fresh w rows = Inr (w', rows') \<Longrightarrow>
    wait_history (h @ [Registered (wait_key w)]) rows'"
| delivered: "wait_history h rows \<Longrightarrow> sql_claim_matched registry scope now key e d rows = (Some w, rows') \<Longrightarrow>
    wait_history (h @ [Delivered key]) rows'"
| not_claimed: "wait_history h rows \<Longrightarrow> sql_claim_matched registry scope now key e d rows = (None, rows') \<Longrightarrow> wait_history h rows'"
| timed_out: "wait_history h rows \<Longrightarrow> sql_mark_timed_out registry scope now key rows = (res, rows') \<Longrightarrow> rows' \<noteq> rows \<Longrightarrow>
    wait_history (h @ [TimedOut key]) rows'"
| not_timed_out: "wait_history h rows \<Longrightarrow> sql_mark_timed_out registry scope now key rows = (res, rows) \<Longrightarrow> wait_history h rows"

fun closes :: "wait_key \<Rightarrow> wait_event \<Rightarrow> bool" where
  "closes k (Registered k') = False"
| "closes k (Delivered k') = (k = k')"
| "closes k (TimedOut k') = (k = k')"

text \<open>The history ends with a registration of the wait that nothing has closed yet.\<close>

definition opened :: "wait_key \<Rightarrow> wait_event list \<Rightarrow> bool" where
  "opened k h \<longleftrightarrow> (\<exists>a b. h = a @ Registered k # b \<and> (\<forall>x \<in> set b. \<not> closes k x))"

lemma opened_empty: "\<not> opened k []"
  by (simp add: opened_def)

lemma opened_snoc: "opened k (h @ [x]) \<longleftrightarrow> x = Registered k \<or> opened k h \<and> \<not> closes k x"
proof
  assume "opened k (h @ [x])"
  then obtain a b where ab: "h @ [x] = a @ Registered k # b" "\<forall>y \<in> set b. \<not> closes k y" by (auto simp: opened_def)
  show "x = Registered k \<or> opened k h \<and> \<not> closes k x"
  proof (cases b rule: rev_cases)
    case Nil
    then show ?thesis using ab(1) by simp
  next
    case (snoc ys y)
    then have "h = a @ Registered k # ys" "x = y" using ab(1) by simp_all
    then show ?thesis using ab(2) snoc by (auto simp: opened_def)
  qed
next
  assume x: "x = Registered k \<or> opened k h \<and> \<not> closes k x"
  show "opened k (h @ [x])"
  proof (cases "x = Registered k")
    case True
    then show ?thesis unfolding opened_def by (intro exI [of _ h] exI [of _ "[]"]) simp
  next
    case False
    then obtain a b where "h = a @ Registered k # b" "\<forall>y \<in> set b. \<not> closes k y" "\<not> closes k x" using x by (auto simp: opened_def)
    then show ?thesis unfolding opened_def by (intro exI [of _ a] exI [of _ "b @ [x]"]) auto
  qed
qed

definition closings_opened :: "wait_event list \<Rightarrow> bool" where
  "closings_opened h \<longleftrightarrow> (\<forall>a x b k. h = a @ x # b \<longrightarrow> closes k x \<longrightarrow> opened k a)"

lemma closings_openedD: "closings_opened h \<Longrightarrow> h = a @ x # b \<Longrightarrow> closes k x \<Longrightarrow> opened k a"
  unfolding closings_opened_def by blast

lemma closings_snoc:
  assumes "closings_opened h" "\<And>k. closes k x \<Longrightarrow> opened k h"
  shows "closings_opened (h @ [x])"
  unfolding closings_opened_def
proof (intro allI impI)
  fix a y b k assume e: "h @ [x] = a @ y # b" and c: "closes k y"
  show "opened k a"
  proof (cases b rule: rev_cases)
    case Nil
    then show ?thesis using e c assms(2) by simp
  next
    case (snoc zs z)
    then have "h = a @ y # zs" using e by simp
    then show ?thesis using assms(1) c by (metis closings_openedD)
  qed
qed

lemma wait_history_inv:
  assumes "wait_history h rows"
  shows "sql_invar rows \<and> (\<forall>k. opened k h \<longleftrightarrow> sql_waiting UNIV rows k \<noteq> None) \<and> closings_opened h"
  using assms
proof (induction rule: wait_history.induct)
  case empty
  show ?case by (simp add: sql_invar_def sql_waiting_def opened_empty closings_opened_def)
next
  case (registered h rows fresh scope now w w' rows')
  then have r: "sql_invar rows'" "sql_waiting UNIV rows' = (sql_waiting UNIV rows)(wait_key w \<mapsto> w')"
    using sql_registers [of rows fresh w UNIV] by simp_all
  moreover have "closings_opened (h @ [Registered (wait_key w)])" using registered.IH by (intro closings_snoc) simp_all
  ultimately show ?case using registered.IH by (simp add: opened_snoc fun_upd_apply eq_commute)
next
  case (delivered h rows registry scope now key e d w rows')
  then have r: "sql_invar rows'" "sql_waiting UNIV rows key \<noteq> None" "sql_waiting UNIV rows' = (sql_waiting UNIV rows)(key := None)"
    using sql_claimed [of rows registry scope now key e d "Some w" rows' UNIV] by auto
  moreover have "closings_opened (h @ [Delivered key])" using delivered.IH r(2) by (intro closings_snoc) (simp_all del: split_paired_All)
  ultimately show ?case using delivered.IH by (simp add: opened_snoc fun_upd_apply)
next
  case (not_claimed h rows registry scope now key e d rows')
  then show ?case using sql_claimed [of rows registry scope now key e d None rows' UNIV] by simp
next
  case (timed_out h rows registry scope now key res rows')
  then have r: "sql_invar rows'" "sql_waiting UNIV rows key \<noteq> None" "sql_waiting UNIV rows' = (sql_waiting UNIV rows)(key := None)"
    using sql_timed_out [of rows registry scope now key res rows' UNIV] by simp_all
  moreover have "closings_opened (h @ [TimedOut key])" using timed_out.IH r(2) by (intro closings_snoc) (simp_all del: split_paired_All)
  ultimately show ?case using timed_out.IH by (simp add: opened_snoc fun_upd_apply)
qed

text \<open>The waits an event is for.\<close>

definition meant_waits :: "rat \<Rightarrow> string list \<Rightarrow> string option \<Rightarrow> py_lib \<Rightarrow> pv dict \<Rightarrow> sql_waits \<Rightarrow> event_wait list" where
  "meant_waits now types tenant L event_fields rows =
     filter (\<lambda>w. ew_status w = ''waiting'' \<and> ew_tenant w = tenant \<and> (types = [] \<or> ew_event_type w \<in> set types)
       \<and> (case ew_timeout_at w of None \<Rightarrow> True | Some t \<Rightarrow> now < t) \<and> event_matches_criteria L event_fields (ew_criteria w)) rows"

section \<open>Properties\<close>

text \<open>C31: an incoming event is delivered to exactly the waits it is for: those of its tenant that listen to one of its
  types, have not expired and whose criteria it meets are claimed, each once and with the event recorded on it,
  and every other wait of the repository stays as it was.\<close>
theorem event_reaches_its_waits:
  assumes "sql_invar rows" "coerce_uuid parse_uuid tenant \<in> set (lookup_tenants registry scope)"
    and "claim_matching_waits parse_uuid L registry scope now later types event_fields tenant event_id rows = (claimed, rows')"
  shows "claimed = map (matched_wait later event_id event_fields) (meant_waits now types (coerce_uuid parse_uuid tenant) L event_fields rows)
    \<and> sql_waiting (set (lookup_tenants registry scope)) rows' =
      (\<lambda>key. if key \<in> wait_key ` set (meant_waits now types (coerce_uuid parse_uuid tenant) L event_fields rows) then None
         else sql_waiting (set (lookup_tenants registry scope)) rows key)"
proof -
  let ?ws = "sql_list_waiting scope now types (coerce_uuid parse_uuid tenant) rows"
  have ws: "?ws = filter (listed_wait now types (coerce_uuid parse_uuid tenant)) rows"
    using assms(2) by (auto simp: sql_list_waiting_def lookup_tenants_def split: option.splits)
  have m: "filter (\<lambda>w. event_matches_criteria L event_fields (ew_criteria w)) ?ws
      = meant_waits now types (coerce_uuid parse_uuid tenant) L event_fields rows"
    unfolding ws meant_waits_def filter_filter
    by (rule filter_cong) (simp_all add: listed_wait_def is_waiting_def ACTIVE_STATUS_def conj_ac split: option.splits)
  have "\<forall>w \<in> set ?ws. sql_waiting (set (lookup_tenants registry scope)) rows (wait_key w) = Some w"
    using sq.listed [OF assms(1,2)] by simp
  from sq.claim_matching_takes [OF assms(1) sq.listed_once [OF assms(1)] this assms(3) [unfolded claim_matching_waits_def]]
  show ?thesis by (simp add: m)
qed

text \<open>C28: a wait is closed at most once for each time it is registered: in every history of registrations, claims and
  timeouts, in any order and by workers with any scope, an event is delivered to a wait or the wait timed out
  only if the wait had been registered and nothing had closed it since. In particular no two events are
  delivered to one wait, and none after its timeout.\<close>
theorem wait_closed_at_most_once:
  assumes "wait_history history rows" "history = before @ x # after" "closes key x"
  shows "\<exists>a b. before = a @ Registered key # b \<and> (\<forall>y \<in> set b. \<not> closes key y)"
  using wait_history_inv [OF assms(1)] closings_openedD [OF _ assms(2,3)] unfolding opened_def by blast

section \<open>A worked event\<close>

definition sample_wait :: event_wait where
  "sample_wait = wait_of_request (\<lambda>s. Some s) \<lparr> wq_run = ''wfr_1'', wq_step = ''await'', wq_event_type = ''email.opened'',
     wq_criteria = [(''campaign'', VStr ''Spring '')], wq_timeout_at = Some 100, wq_tenant = VStr ''t1'', wq_workflow_run = VNone,
     wq_connector = None, wq_provider = None \<rparr>"

definition sample_waits :: sql_waits where
  "sample_waits = snd (projr (sql_register (Some ''t1'') 0 ''w1'' sample_wait []))"

theorem event_reaches_its_waits_witness:
  "map ew_status (fst (claim_matching_waits (\<lambda>s. Some s) sample_lib [''t1''] (Some ''t1'') 10 11 [''email.opened'']
      [(''campaign'', VStr ''spring'')] (VStr ''t1'') (Some ''e1'') sample_waits)) = [''matched'']"
proof -
  obtain claimed rows' where c: "claim_matching_waits (\<lambda>s. Some s) sample_lib [''t1''] (Some ''t1'') 10 11 [''email.opened'']
      [(''campaign'', VStr ''spring'')] (VStr ''t1'') (Some ''e1'') sample_waits = (claimed, rows')" by fastforce
  have "sql_invar sample_waits" "coerce_uuid (\<lambda>s. Some s) (VStr ''t1'') \<in> set (lookup_tenants [''t1''] (Some ''t1''))"
    by code_simp+
  from event_reaches_its_waits [OF this c]
  have "claimed = map (matched_wait 11 (Some ''e1'') [(''campaign'', VStr ''spring'')])
      (meant_waits 10 [''email.opened''] (coerce_uuid (\<lambda>s. Some s) (VStr ''t1'')) sample_lib [(''campaign'', VStr ''spring'')] sample_waits)"
    by blast
  moreover have "map ew_status (map (matched_wait 11 (Some ''e1'') [(''campaign'', VStr ''spring'')])
      (meant_waits 10 [''email.opened''] (coerce_uuid (\<lambda>s. Some s) (VStr ''t1'')) sample_lib [(''campaign'', VStr ''spring'')] sample_waits))
      = [''matched'']"
    by code_simp
  ultimately show ?thesis using c by simp
qed

theorem wait_closed_at_most_once_witness:
  "\<exists>rows. wait_history [Registered (''wfr_1'', ''await''), Delivered (''wfr_1'', ''await'')] rows
     \<and> (\<exists>a b. [Registered (''wfr_1'', ''await'')] = a @ Registered (''wfr_1'', ''await'') # b \<and> (\<forall>y \<in> set b. \<not> closes (''wfr_1'', ''await'') y))"
proof -
  have "\<exists>w. sql_register (Some ''t1'') 0 ''w1'' sample_wait [] = Inr (w, sample_waits)"
    by (simp add: sample_waits_def sample_wait_def wait_of_request_def sql_register_def Let_def coerce_uuid_def)
  then have "wait_history ([] @ [Registered (wait_key sample_wait)]) sample_waits"
    using wait_history.registered [OF wait_history.empty, of "''w1''"] by auto
  then have h: "wait_history [Registered (''wfr_1'', ''await'')] sample_waits"
    by (simp add: sample_wait_def wait_of_request_def wait_key_def)
  let ?c = "sql_claim_matched [''t1''] None 11 (''wfr_1'', ''await'') (Some ''e1'') [] sample_waits"
  have "map_option ew_status (fst ?c) = Some ''matched''" by code_simp
  then obtain w rows' where "?c = (Some w, rows')" by (cases ?c) auto
  then have h2: "wait_history ([Registered (''wfr_1'', ''await'')] @ [Delivered (''wfr_1'', ''await'')]) rows'"
    using wait_history.delivered [OF h] by blast
  from wait_closed_at_most_once [OF h2, of "[Registered (''wfr_1'', ''await'')]" "Delivered (''wfr_1'', ''await'')" "[]" "(''wfr_1'', ''await'')"] h2
  show ?thesis by auto
qed

end
