(* ===== verification/Workflow_Tasks.thy ===== *)
theory Workflow_Tasks
  imports Workflow_Results Event_Waits
begin

text \<open>
  The background tasks of workflow runs (\<open>core/tasks/workflow_tasks.py\<close>): resuming a wait, timing out an
  event or an approval, and retrying a halted run. A task loads the run, decides, and saves at most once,
  with an idempotency key; other writers may save between its load and its save. What follows the save on
  the approval queue and the \<open>workflow_runs\<close> row is not modelled.
\<close>

section \<open>Decisions\<close>

text \<open>A task answers, raises, drives the engine, or saves a state under a key and then drives the engine or not.\<close>

datatype task_decision =
    Answer "pv dict"
  | Fails
  | Drive
  | Write string save_label run_state bool

definition not_found :: "pv dict" where
  "not_found = [(''status'', VStr ''error''), (''reason'', VStr ''workflow_state_not_found'')]"

definition checkpoint_pending :: "pv dict" where
  "checkpoint_pending = [(''status'', VStr ''retry''), (''reason'', VStr ''waiting checkpoint not yet persisted'')]"

definition noop_status :: "run_state \<Rightarrow> pv dict" where
  "noop_status st = [(''status'', VStr ''noop''), (''reason'', VStr (''current status is '' @ rs_status st))]"

text \<open>\<open>not state.get("waiting_step_id")\<close>.\<close>

definition no_waiting_step :: "run_state \<Rightarrow> bool" where
  "no_waiting_step st \<longleftrightarrow> rs_waiting_step st = None \<or> rs_waiting_step st = Some []"

definition resume_wait_result :: "pv dict" where
  "resume_wait_result =
     [(''output'', VDict [(''resumed'', VBool True), (''completed_by'', VStr ''resume_workflow_wait'')]),
      (''status'', VStr ''completed''), (''completed_by'', VStr ''resume_workflow_wait'')]"

definition resume_workflow_wait :: "string \<Rightarrow> string \<Rightarrow> run_state option \<Rightarrow> task_decision" where
  "resume_workflow_wait run_id step_id loaded =
     (case loaded of
        None \<Rightarrow> Answer not_found
      | Some st \<Rightarrow>
          if rs_status st = ''running'' \<and> no_waiting_step st \<and> \<not> dhas (rs_results st) step_id then Answer checkpoint_pending
          else if rs_status st \<notin> {''waiting_delay'', ''waiting_event''} then Answer (noop_status st)
          else if \<not> no_waiting_step st \<and> rs_waiting_step st \<noteq> Some step_id
          then Answer [(''status'', VStr ''error''), (''reason'', VStr ''waiting_step_id does not match'')]
          else Write (''resume_workflow_wait:'' @ run_id @ '':'' @ step_id)
                 (''celery.resume_workflow_wait'', Some step_id, [(''task'', VStr ''resume_workflow_wait'')])
                 (resumed step_id resume_wait_result st) True)"

definition event_timeout_result :: "pv dict" where
  "event_timeout_result =
     [(''status'', VStr ''timed_out''), (''output'', VDict []), (''completed_by'', VStr ''timeout_workflow_event'')]"

text \<open>The part of the event timeout that works on the run.\<close>

definition event_timeout_decision :: "string \<Rightarrow> string \<Rightarrow> run_state option \<Rightarrow> task_decision" where
  "event_timeout_decision run_id step_id loaded =
     (case loaded of
        None \<Rightarrow> Answer not_found
      | Some st \<Rightarrow>
          if dhas (rs_results st) step_id then Answer [(''status'', VStr ''already_completed'')]
          else if rs_status st = ''running'' \<and> no_waiting_step st then Answer checkpoint_pending
          else if rs_waiting_step st \<noteq> Some step_id then Answer [(''status'', VStr ''noop'')]
          else Write (''timeout_workflow_event:'' @ run_id @ '':'' @ step_id)
                 (''celery.timeout_workflow_event'', Some step_id, [(''task'', VStr ''timeout_workflow_event'')])
                 (resumed step_id event_timeout_result st) True)"

text \<open>The whole task: the listener is closed first, by a repository bound to no tenant.\<close>

definition timeout_workflow_event ::
    "string list \<Rightarrow> rat \<Rightarrow> string \<Rightarrow> string \<Rightarrow> sql_waits \<Rightarrow> run_state option \<Rightarrow> sql_waits \<times> task_decision" where
  "timeout_workflow_event registry now run_id step_id rows loaded =
     (case sql_mark_timed_out registry None now (run_id, step_id) rows of
        (Some w, rows') \<Rightarrow>
          (rows', if ew_status w \<in> {''matched'', ''cancelled'', ''expired''}
                  then Answer [(''status'', VStr ''noop''), (''reason'', VStr (''listener is '' @ ew_status w))]
                  else event_timeout_decision run_id step_id loaded)
      | (None, rows') \<Rightarrow> (rows', event_timeout_decision run_id step_id loaded))"

definition resume_halted_workflow :: "run_state option \<Rightarrow> task_decision" where
  "resume_halted_workflow loaded =
     (case loaded of
        None \<Rightarrow> Answer not_found
      | Some st \<Rightarrow>
          if rs_status st \<noteq> ''running''
          then Answer [(''status'', VStr ''noop''), (''reason'', VStr (''run_status_'' @ rs_status st))]
          else Drive)"

section \<open>The deadline of an approval\<close>

definition waiting_result :: "string \<Rightarrow> run_state \<Rightarrow> pv dict" where
  "waiting_result step_id st = (case dget (rs_results st) step_id of None \<Rightarrow> [] | Some r \<Rightarrow> r)"

definition waiting_output :: "string \<Rightarrow> run_state \<Rightarrow> pv dict" where
  "waiting_output step_id st = (case vget (waiting_result step_id st) ''output'' of VDict d \<Rightarrow> d | _ \<Rightarrow> [])"

definition timeout_policy :: "string \<Rightarrow> run_state \<Rightarrow> pv dict option" where
  "timeout_policy step_id st =
     (case vget (waiting_output step_id st) ''approval_timeout_policy'' of VDict p \<Rightarrow> Some p | _ \<Rightarrow> None)"

definition escalation_role :: "py_lib \<Rightarrow> pv dict \<Rightarrow> string" where
  "escalation_role L p = (if truthy (vget p ''escalation_role'') then py_str L (vget p ''escalation_role'') else [])"

definition escalated :: "py_lib \<Rightarrow> rat \<Rightarrow> string \<Rightarrow> pv dict \<Rightarrow> run_state \<Rightarrow> run_state" where
  "escalated L now step_id p st =
     (let output = waiting_output step_id st;
          output' = dset (dset (dset (dset output ''hitl_escalated'' (VBool True)) ''hitl_escalated_at'' (VFloat (Fin now)))
            ''assignee_role'' (VStr (escalation_role L p))) ''escalated_from_role'' (vget output ''assignee_role'')
      in st\<lparr> rs_results := dset (rs_results st) step_id (dset (waiting_result step_id st) ''output'' (VDict output')) \<rparr>)"

definition hitl_timeout_error :: "string \<Rightarrow> pv" where
  "hitl_timeout_error step_id =
     VDict [(''code'', VStr ''hitl_timeout''), (''message'', VStr (''Step '' @ quoted step_id @ '' timed out waiting for a human decision''))]"

definition hitl_timed_out :: "rat \<Rightarrow> string \<Rightarrow> run_state \<Rightarrow> run_state" where
  "hitl_timed_out now step_id st =
     (record_result step_id
        (dset (dset (dset (waiting_result step_id st) ''status'' (VStr ''timed_out'')) ''error'' (hitl_timeout_error step_id))
          ''completed_by'' (VStr ''timeout_workflow_hitl'')) st)
     \<lparr> rs_status := ''failed'', rs_error := hitl_timeout_error step_id, rs_completed_at := Some now, rs_waiting_step := None \<rparr>"

text \<open>\<open>uuid.UUID\<close> raises on a malformed id; \<open>hours\<close> is \<open>float\<close>, which raises on what is not a number.\<close>

definition ids_parse :: "(string \<Rightarrow> string option) \<Rightarrow> run_state \<Rightarrow> bool" where
  "ids_parse parse_uuid st \<longleftrightarrow>
     (case (rs_tenant st, rs_workflow_run st) of
        (Some t, Some w) \<Rightarrow> t = [] \<or> w = [] \<or> parse_uuid t \<noteq> None \<and> parse_uuid w \<noteq> None
      | _ \<Rightarrow> True)"

definition timeout_workflow_hitl ::
    "py_lib \<Rightarrow> (string \<Rightarrow> string option) \<Rightarrow> (pv \<Rightarrow> rat option) \<Rightarrow> rat \<Rightarrow> string \<Rightarrow> string \<Rightarrow> run_state option \<Rightarrow> task_decision" where
  "timeout_workflow_hitl L parse_uuid hours now run_id step_id loaded =
     (case loaded of
        None \<Rightarrow> Answer not_found
      | Some st \<Rightarrow>
          if rs_status st \<noteq> ''waiting_hitl'' \<or> rs_waiting_step st \<noteq> Some step_id then Answer (noop_status st)
          else if \<not> ids_parse parse_uuid st then Fails
          else
            let output = waiting_output step_id st;
                fail_run = Write (''timeout_workflow_hitl:'' @ run_id @ '':'' @ step_id)
                  (''celery.timeout_workflow_hitl'', Some step_id,
                   [(''task'', VStr ''timeout_workflow_hitl''), (''event'', VStr ''hitl_timed_out'')])
                  (hitl_timed_out now step_id st) False
            in case timeout_policy step_id st of
                 None \<Rightarrow> fail_run
               | Some p \<Rightarrow>
                   if vget p ''timeout_outcome'' = VStr ''auto_escalate'' \<and> escalation_role L p \<noteq> []
                      \<and> \<not> truthy (vget output ''hitl_escalated'')
                   then if hours (or_value (or_value (vget p ''default_sla_hours'') (vget output ''timeout_hours'')) (VInt 4)) = None
                        then Fails
                        else Write (''timeout_workflow_hitl:escalate:'' @ run_id @ '':'' @ step_id)
                               (''celery.timeout_workflow_hitl'', Some step_id,
                                [(''task'', VStr ''timeout_workflow_hitl''), (''event'', VStr ''hitl_escalated'')])
                               (escalated L now step_id p st) False
                   else fail_run)"

section \<open>What Celery does with an answer\<close>

datatype celery_outcome = Finished "pv dict" | RetryLater

definition checkpoint_outcome :: "pv dict \<Rightarrow> celery_outcome" where
  "checkpoint_outcome result = (if vget result ''status'' = VStr ''retry'' then RetryLater else Finished result)"

text \<open>A halted run is retried for as long as the engine answers that it is halted.\<close>

definition halted_outcome :: "pv dict \<Rightarrow> celery_outcome" where
  "halted_outcome engine_result =
     (if truthy (vget engine_result ''halted'') then RetryLater
      else Finished [(''status'', VStr ''resumed''), (''run_status'', vget engine_result ''status'')])"

text \<open>The sweep over the running runs of a tenant: those whose pending halt retry nobody keeps alive.\<close>

definition stale_halt_retry :: "(pv \<Rightarrow> rat option) \<Rightarrow> rat \<Rightarrow> int \<Rightarrow> pv \<Rightarrow> bool" where
  "stale_halt_retry parse_heartbeat now retry_seconds marker =
     (case marker of
        VDict m \<Rightarrow> truthy (vget m ''engine_run_id'')
          \<and> (case parse_heartbeat (vget m ''heartbeat'') of
               None \<Rightarrow> True
             | Some t \<Rightarrow> \<not> now - t < of_int (3 * max 1 retry_seconds))
      | _ \<Rightarrow> False)"

definition recover_halted_workflows :: "(pv \<Rightarrow> rat option) \<Rightarrow> rat \<Rightarrow> int \<Rightarrow> (string \<times> pv) list \<Rightarrow> string list" where
  "recover_halted_workflows parse_heartbeat now retry_seconds candidates =
     map fst (filter (\<lambda>(i, marker). stale_halt_retry parse_heartbeat now retry_seconds marker) candidates)"

section \<open>Saving under a key\<close>

definition task_save :: "store_config \<Rightarrow> state_store \<Rightarrow> string \<Rightarrow> save_label \<Rightarrow> run_state \<Rightarrow> (store_error, state_store \<times> run_state) res" where
  "task_save c s key l st = (case l of (actor, step_id, metadata) \<Rightarrow> store_save c actor step_id (Some key) metadata s st)"

section \<open>The rows of the store\<close>

lemma put_row_mem: "x \<in> set (put_row row rows) \<Longrightarrow> x = row \<or> x \<in> set rows"
  by (induction rows) (auto split: if_splits)

text \<open>A save leaves the rows, or puts in one with the next version, over the version it expected.\<close>

definition row_saved :: "repository \<Rightarrow> run_state \<Rightarrow> store_row \<Rightarrow> bool" where
  "row_saved r st row \<longleftrightarrow> sr_run_id row = rs_id st \<and> sr_state row = without_version st
     \<and> (\<forall>x. find_row r (rs_id st) = Some x \<longrightarrow> sr_version row = sr_version x + 1 \<and> (rs_version st = None \<or> rs_version st = Some (sr_version x)))"

lemma repository_saves_row:
  assumes "repository_save c r a = Inr (v, r')"
  shows "v = None \<and> r' = r \<or> (\<exists>t w n. v = Some n \<and> rp_rows r' = put_row (row_of a t w n) (rp_rows r)
    \<and> (\<forall>x. find_row r (rs_id (sa_state a)) = Some x \<longrightarrow> n = sr_version x + 1 \<and> (sa_expected a = None \<or> sa_expected a = Some (sr_version x))))"
proof (cases "seen_key r (rs_id (sa_state a)) (sa_key a) \<and> v = None")
  case True
  then show ?thesis using assms
    by (simp add: repository_save_def sql_save_def memory_save_def Let_def split: if_splits option.splits)
next
  case False
  then show ?thesis
  proof (cases "find_row r (rs_id (sa_state a))")
    case None
    then show ?thesis using assms False
      by (cases "sa_expected a") (auto simp: repository_save_def sql_save_def memory_save_def Let_def split: if_splits, blast+)
  next
    case (Some x)
    then show ?thesis using assms False
      by (cases "sr_tenant x = sa_tenant a"; cases "sa_expected a")
        (auto simp: repository_save_def sql_save_def memory_save_def Let_def split: if_splits, blast+)
  qed
qed

lemma repository_saves:
  assumes "repository_save c r (args_of c st actor step key meta) = Inr (v, r')"
  shows "v = None \<and> r' = r \<or> (\<exists>row. v = Some (sr_version row) \<and> rp_rows r' = put_row row (rp_rows r) \<and> row_saved r st row)"
proof -
  have "row_saved r st (row_of (args_of c st actor step key meta) t w n)"
    if "\<forall>x. find_row r (rs_id st) = Some x \<longrightarrow> n = sr_version x + 1 \<and> (rs_version st = None \<or> rs_version st = Some (sr_version x))" for t w n
    using that by (simp add: row_saved_def)
  then show ?thesis using repository_saves_row [OF assms, unfolded args_of_simps without_version_simps] by (metis row_of_simps(3))
qed

lemma store_saves:
  assumes "store_save c actor step key meta s st = Inr (s', st')"
  shows "(rp_rows (ss_repository s') = rp_rows (ss_repository s) \<and> st' = st) \<or>
    (\<exists>row. rp_rows (ss_repository s') = put_row row (rp_rows (ss_repository s)) \<and> row_saved (ss_repository s) st row
      \<and> st' = st\<lparr> rs_version := Some (sr_version row) \<rparr>)"
proof (cases "repository_save c (ss_repository s) (args_of c st actor step key meta)")
  case (Inl e)
  then show ?thesis using assms by (simp add: store_save_def rbind_def split: if_splits)
next
  case (Inr x)
  obtain v r' where x: "x = (v, r')" by fastforce
  have "s' = write_redis_cache (s\<lparr> ss_repository := r' \<rparr>) (without_version st)"
      "st' = (case v of None \<Rightarrow> st | Some n \<Rightarrow> st\<lparr> rs_version := Some n \<rparr>)"
    using assms Inr x by (auto simp: store_save_def rbind_def split: if_splits)
  then show ?thesis using repository_saves [of c "ss_repository s" st actor step key meta v r'] Inr x
    by (auto simp: write_redis_cache_def)
qed

lemma store_saves_cases:
  assumes "store_save c actor step key meta s st = Inr (s', st')"
  obtains (same) "rp_rows (ss_repository s') = rp_rows (ss_repository s)" "st' = st"
  | (put) row where "rp_rows (ss_repository s') = put_row row (rp_rows (ss_repository s))" "row_saved (ss_repository s) st row"
      "st' = st\<lparr> rs_version := Some (sr_version row) \<rparr>"
  using store_saves [OF assms] by blast

lemma durable_save_store: "durable_save c s l st = store_save c (fst l) (fst (snd l)) None (snd (snd l)) s st"
  by (simp add: durable_save_def split: prod.splits)

lemma task_save_store: "task_save c s key l st = store_save c (fst l) (fst (snd l)) (Some key) (snd (snd l)) s st"
  by (simp add: task_save_def split: prod.splits)

lemma loaded_row:
  assumes "durable_load c s i = Some st"
  shows "\<exists>x \<in> set (rp_rows (ss_repository s)). st = (sr_state x)\<lparr> rs_version := Some (sr_version x) \<rparr>"
proof -
  have f: "x \<in> set xs" if "find Q xs = Some x" for Q xs and x :: store_row using that by (metis find_Some_iff nth_mem)
  have "\<exists>x \<in> set (rp_rows r). st = (sr_state x)\<lparr> rs_version := Some (sr_version x) \<rparr>"
    if "sql_load_in r i tenants = Some st" for r tenants
    using that
  proof (induction tenants)
    case (Cons t tenants)
    then show ?case using f by (fastforce split: option.splits)
  qed simp
  then show ?thesis using assms f
    by (fastforce simp: durable_load_def repository_load_def sql_load_def memory_load_def find_row_def split: if_splits)
qed

text \<open>Any number of saves, by any stores and under any keys: a row stays, or has a higher version.\<close>

inductive saves_to :: "state_store \<Rightarrow> state_store \<Rightarrow> bool" where
  none: "saves_to s s"
| one_more: "saves_to s s' \<Longrightarrow> store_save c actor step key meta s' st = Inr (s'', st') \<Longrightarrow> saves_to s s''"

lemma find_put_row: "find_row r' i = (if i = sr_run_id row then Some row else find_row r i)"
  if "rp_rows r' = put_row row (rp_rows r)"
  using that find_put [of i row "rp_rows r"] by (simp add: find_row_def)

lemma saves_frozen:
  assumes "saves_to s s'" "find_row (ss_repository s) i = Some x"
  shows "\<exists>y. find_row (ss_repository s') i = Some y \<and> (y = x \<or> sr_version x < sr_version y)"
  using assms
proof (induction rule: saves_to.induct)
  case (one_more s s' c actor step key meta st s'' st')
  then obtain y where y: "find_row (ss_repository s') i = Some y" "y = x \<or> sr_version x < sr_version y" by blast
  from one_more(2) show ?case
  proof (cases rule: store_saves_cases)
    case same
    then show ?thesis using y by (simp add: find_row_def)
  next
    case (put row)
    show ?thesis
    proof (cases "i = rs_id st")
      case True
      then have "sr_version row = sr_version y + 1" "sr_run_id row = i" using put(2) y(1) by (auto simp: row_saved_def)
      then show ?thesis using find_put_row [OF put(1), of i] y(2) by auto
    next
      case False
      then show ?thesis using find_put_row [OF put(1), of i] y put(2) by (simp add: row_saved_def)
    qed
  qed
qed blast

section \<open>The service\<close>

text \<open>
  The operations of the engine and the tasks over one store, each through a store of its own configuration:
  operations and tasks arrive at any time, an operation makes its steps, a task decides on what it loads and
  saves later.
\<close>

type_synonym task_write = "string \<times> save_label \<times> run_state"

inductive task_decides :: "py_lib \<Rightarrow> run_state \<Rightarrow> task_write \<Rightarrow> bool" for L where
  resumes: "resume_workflow_wait run_id step_id (Some st) = Write key l st' dr \<Longrightarrow> task_decides L st (key, l, st')"
| event: "snd (timeout_workflow_event registry now run_id step_id rows (Some st)) = Write key l st' dr \<Longrightarrow> task_decides L st (key, l, st')"
| hitl: "timeout_workflow_hitl L parse_uuid hours now run_id step_id (Some st) = Write key l st' dr \<Longrightarrow> task_decides L st (key, l, st')"

inductive service :: "py_lib \<Rightarrow> state_store \<Rightarrow> state_store \<times> prog list \<times> task_write list \<Rightarrow> bool" for L s0 where
  begins: "service L s0 (s0, [], [])"
| arrives: "service L s0 (s, ps, ts) \<Longrightarrow> run_operation L p \<Longrightarrow> service L s0 (s, p # ps, ts)"
| program: "service L s0 (s, ps, ts) \<Longrightarrow> n < length ps \<Longrightarrow>
    prog_step L (durable_load c) (durable_save c) (s, ps ! n) (s', p) \<Longrightarrow> service L s0 (s', ps[n := p], ts)"
| decides: "service L s0 (s, ps, ts) \<Longrightarrow> durable_load c s run_id = Some st \<Longrightarrow> task_decides L st t \<Longrightarrow> service L s0 (s, ps, t # ts)"
| saves: "service L s0 (s, ps, ts) \<Longrightarrow> (key, l, st) \<in> set ts \<Longrightarrow> task_save c s key l st = Inr (s', st') \<Longrightarrow> service L s0 (s', ps, ts)"

definition rows_hold :: "(run_state \<Rightarrow> bool) \<Rightarrow> state_store \<Rightarrow> bool" where
  "rows_hold P s \<longleftrightarrow> (\<forall>x \<in> set (rp_rows (ss_repository s)). P (sr_state x))"

context run_invariant
begin

lemma rows_hold_save:
  assumes "store_save c actor step key meta s st = Inr (s', st')" "rows_hold P s" "P st"
  shows "rows_hold P s'"
  using assms(1)
proof (cases rule: store_saves_cases)
  case (put row)
  then show ?thesis using assms(2,3) put_row_mem unfolding rows_hold_def row_saved_def
    by (metis version without_version_def)
qed (use assms(2) in \<open>simp add: rows_hold_def\<close>)

lemma rows_hold_load: "durable_load c s i = Some st \<Longrightarrow> rows_hold P s \<Longrightarrow> P st"
  using loaded_row unfolding rows_hold_def by (metis version)

lemma rows_hold_step:
  assumes "prog_step L (durable_load c) (durable_save c) (s, p) (s', p')" "rows_hold P s" "all_saves P p"
  shows "rows_hold P s' \<and> all_saves P p'"
  using assms(1)
proof (cases rule: prog_step.cases)
  case (load i k)
  then show ?thesis using assms(2,3) rows_hold_load by (cases "durable_load c s i") auto
next
  case (save l st st' k)
  then have s: "store_save c (fst l) (fst (snd l)) None (snd (snd l)) s st = Inr (s', st')" by (simp add: durable_save_store)
  have "P st" using save assms(3) by simp
  moreover have "\<exists>v. st' = st\<lparr> rs_version := v \<rparr>"
    using s by (cases rule: store_saves_cases) (auto intro: exI [of _ "rs_version st"])
  ultimately show ?thesis using rows_hold_save [OF s assms(2)] save assms(3) by auto
next
  case (restart i)
  then show ?thesis using assms(2) saves_execute by simp
qed (use assms in auto)

lemma task_holds: "task_decides L st t \<Longrightarrow> P (snd (snd t))"
proof (induction rule: task_decides.induct)
  case (resumes run_id step_id st key l st' dr)
  then have "st' = resumed step_id resume_wait_result st" by (simp add: resume_workflow_wait_def split: if_splits)
  then show ?case using saves_resumed by simp
next
  case (event registry now run_id step_id rows st key l st' dr)
  then have "st' = resumed step_id event_timeout_result st"
    by (auto simp: timeout_workflow_event_def event_timeout_decision_def split: prod.splits option.splits if_splits)
  then show ?case using saves_resumed by simp
next
  case (hitl parse_uuid hours now run_id step_id st key l st' dr)
  then have "rs_status st = ''waiting_hitl''" "rs_waiting_step st = Some step_id"
      "st' = hitl_timed_out now step_id st \<or> (\<exists>p. st' = escalated L now step_id p st)"
    by (auto simp: timeout_workflow_hitl_def Let_def split: if_splits option.splits)
  then have "P st'" using paused [of "escalated L now step_id p st" step_id for p] cleared [of "hitl_timed_out now step_id st"]
    by (auto simp: escalated_def hitl_timed_out_def Let_def)
  then show ?case by simp
qed

lemma service_holds:
  assumes "service L s0 x" "rows_hold P s0"
  shows "rows_hold P (fst x) \<and> (\<forall>p \<in> set (fst (snd x)). all_saves P p) \<and> (\<forall>t \<in> set (snd (snd x)). P (snd (snd t)))"
  using assms
proof (induction rule: service.induct)
  case (arrives s ps ts p)
  then show ?case using saves_operation by auto
next
  case (program s ps ts n c s' p)
  then have "rows_hold P s' \<and> all_saves P p" by (intro rows_hold_step [OF program(3)]) auto
  then show ?case using program set_update_subset_insert [of ps n p] by auto
next
  case (decides s ps ts c run_id st t)
  then show ?case using task_holds by auto
next
  case (saves s ps ts key l st c s' st')
  then have "P st" by force
  then have "rows_hold P s'" using saves rows_hold_save [of c _ _ _ _ s st s' st'] by (simp add: task_save_store)
  then show ?case using saves by simp
qed simp

end

section \<open>Properties\<close>

lemma resume_writes_waiting:
  assumes "resume_workflow_wait run_id step_id (Some st) = Write key l st' dr"
  shows "rs_status st \<in> {''waiting_delay'', ''waiting_event''} \<and> st' = resumed step_id resume_wait_result st"
  using assms by (auto simp: resume_workflow_wait_def split: if_splits)

lemma hitl_writes_waiting:
  assumes "timeout_workflow_hitl L parse_uuid hours now run_id step_id (Some st) = Write key l st' dr"
  shows "rs_status st = ''waiting_hitl'' \<and> rs_id st' = rs_id st \<and> rs_version st' = rs_version st"
  using assms by (auto simp: timeout_workflow_hitl_def hitl_timed_out_def escalated_def Let_def split: if_splits option.splits)

lemma stale_write_ignored:
  assumes x0: "find_row (ss_repository s0) i = Some x0" "rs_id st = i" "rs_version st = Some (sr_version x0)" "\<not> terminal (sr_state x0)"
    and s1: "saves_to s0 s1" "find_row (ss_repository s1) i = Some x1" "terminal (sr_state x1)"
    and w: "store_save c actor step key meta s1 st = Inr (s2, st')"
  shows "rp_rows (ss_repository s2) = rp_rows (ss_repository s1)"
  using w
proof (cases rule: store_saves_cases)
  case (put row)
  then have "sr_version x1 = sr_version x0" using x0(2,3) s1(2) by (simp add: row_saved_def)
  moreover have "x1 = x0 \<or> sr_version x0 < sr_version x1" using saves_frozen [OF s1(1) x0(1)] s1(2) by auto
  ultimately show ?thesis using x0(4) s1(3) by auto
qed

definition store_after :: "state_store \<Rightarrow> (store_error, state_store \<times> run_state) res \<Rightarrow> state_store" where
  "store_after s r = (case r of Inl e \<Rightarrow> s | Inr (s', st) \<Rightarrow> s')"

text \<open>C22: a background task never changes a finished run: when a resume or the deadline of an approval decided on a run
  that was waiting, and the run has meanwhile been completed, failed, timed out or cancelled by anyone, what the
  task saves leaves the stored run as it is.\<close>
theorem tasks_keep_finished_runs:
  assumes "find_row (ss_repository s0) run_id = Some x0" "rs_id (sr_state x0) = run_id"
    and "resume_workflow_wait run_id step_id (Some ((sr_state x0)\<lparr> rs_version := Some (sr_version x0) \<rparr>)) = Write key l st dr
      \<or> timeout_workflow_hitl L parse_uuid hours now run_id step_id (Some ((sr_state x0)\<lparr> rs_version := Some (sr_version x0) \<rparr>)) = Write key l st dr"
    and "saves_to s0 s1" "find_row (ss_repository s1) run_id = Some x1" "terminal (sr_state x1)"
  shows "find_row (ss_repository (store_after s1 (task_save c s1 key l st))) run_id = Some x1"
proof -
  have "\<not> terminal (sr_state x0) \<and> rs_id st = run_id \<and> rs_version st = Some (sr_version x0)"
    using assms(3)
  proof
    assume "resume_workflow_wait run_id step_id (Some ((sr_state x0)\<lparr> rs_version := Some (sr_version x0) \<rparr>)) = Write key l st dr"
    from resume_writes_waiting [OF this] show ?thesis using assms(2) by (auto simp: terminal_def)
  next
    assume "timeout_workflow_hitl L parse_uuid hours now run_id step_id (Some ((sr_state x0)\<lparr> rs_version := Some (sr_version x0) \<rparr>)) = Write key l st dr"
    from hitl_writes_waiting [OF this] show ?thesis using assms(2) by (auto simp: terminal_def)
  qed
  then have "rp_rows (ss_repository s2) = rp_rows (ss_repository s1)" if "task_save c s1 key l st = Inr (s2, st')" for s2 st'
    using stale_write_ignored [OF assms(1) _ _ _ assms(4-6)] that [unfolded task_save_store] by blast
  then show ?thesis using assms(5) by (auto simp: find_row_def store_after_def split: sum.splits)
qed

lemma time_out_single:
  assumes "filter (\<lambda>r. wait_key r = key) rows = [w]" "ew_tenant w \<in> set tenants"
  shows "time_out_in now key tenants rows = (Some (timed_out_wait now w), update_wait (timed_out_wait now w) rows)"
  using assms(2)
proof (induction tenants)
  case (Cons t tenants)
  have "filter (row_at key t) rows = filter (\<lambda>r. ew_tenant r = t) (filter (\<lambda>r. wait_key r = key) rows)"
    by (simp add: row_at_def [abs_def] conj_commute)
  then have "filter (row_at key t) rows = (if ew_tenant w = t then [w] else [])" unfolding assms(1) by simp
  then show ?case using Cons by (auto simp: latest_def Let_def)
qed simp

lemma listener_closed:
  assumes i: "sql_invar rows" and f: "filter (\<lambda>r. wait_key r = key) rows = [w]" and w: "is_waiting w" "ew_tenant w \<in> set (lookup_tenants registry scope)"
    and t: "sql_mark_timed_out registry scope now key rows = (res, rows')"
  shows "res = Some (timed_out_wait now w) \<and> sql_claim_matched registry' scope' t key e d rows' = (None, rows')"
proof -
  have r: "res = Some (timed_out_wait now w)" "rows' = update_wait (timed_out_wait now w) rows"
    using t time_out_single [OF f w(2)] by (simp_all add: sql_mark_timed_out_def)
  have "w \<in> set (filter (\<lambda>r. wait_key r = key) rows)" unfolding f by simp
  then have m: "w \<in> set rows" "wait_key w = key" unfolding set_filter by blast+
  from sql_replace [OF i m(1) w(1), of UNIV "timed_out_wait now w"] have
    i': "sql_invar rows'" "sql_waiting UNIV rows' key = None" by (simp_all add: r(2) m(2))
  then have "sql_waiting T rows' key = None" for T unfolding sql_waiting_def find_None_iff by blast
  then show ?thesis using r(1) by (simp add: sql_claim_matched_def sql_claims [OF i'(1) refl])
qed


text \<open>a resume that saved and then failed is not repeated: the task re-raises so that it is tried again, but on the
  state it saved the repetition answers that there is nothing to do and does not drive the engine, so a run whose
  engine call failed after the save stays running with nobody executing it.\<close>
theorem repeated_resume_does_nothing:
  assumes "resume_workflow_wait run_id step_id (Some st) = Write key l st' drive_engine"
    and "task_save c s key l st' = Inr (s', saved)"
  shows "drive_engine
    \<and> resume_workflow_wait run_id step_id (Some saved) = Answer [(''status'', VStr ''noop''), (''reason'', VStr ''current status is running'')]"
proof -
  have st': "st' = resumed step_id resume_wait_result st" "drive_engine"
    using assms(1) by (simp_all add: resume_workflow_wait_def split: if_splits)
  have "\<exists>v. saved = st'\<lparr> rs_version := v \<rparr>"
    using assms(2) [unfolded task_save_store] by (cases rule: store_saves_cases) (auto intro: exI [of _ "rs_version st'"])
  then show ?thesis using st' by (auto simp: resume_workflow_wait_def noop_status_def resumed_def)
qed

section \<open>A worked wait\<close>

definition event_steps :: "wf_step list" where
  "event_steps = [the (step_of (VDict [(''id'', VStr ''await''), (''type'', VStr ''wait_for_event'')]))]"

text \<open>The handler registers the listener and answers that the step waits.\<close>

definition pausing :: "nat \<Rightarrow> state_store \<Rightarrow> prog \<Rightarrow> state_store \<times> prog" where
  "pausing n s p = drive sample_lib (durable_load sample_config) (durable_save sample_config)
     (\<lambda>step. Inr (VDict [(''status'', VStr ''waiting_event''), (''event_type'', VStr ''email.opened''), (''output'', VDict [])])) 0 n s p"

definition started_store :: state_store where
  "started_store = fst (pausing 3 empty_store (start_run ''wfr_1'' event_steps None False [] (Some ''t1'') None None))"

definition paused_store :: state_store where
  "paused_store = fst (pausing 10 started_store (execute sample_lib ''wfr_1''))"

definition cancelled_store :: state_store where
  "cancelled_store = fst (pausing 5 paused_store (cancel ''wfr_1''))"

lemma drive_service:
  "service L s0 (s, p # ps, ts) \<Longrightarrow> drive L (durable_load c) (durable_save c) h now n s p = (s', p') \<Longrightarrow> service L s0 (s', p' # ps, ts)"
proof (induction n arbitrary: s p)
  case (Suc n)
  show ?case
  proof (cases "answered L (durable_load c) (durable_save c) h now s p")
    case (Some x)
    obtain s1 p1 where x: "x = (s1, p1)" by fastforce
    have "service L s0 (s1, p1 # ps, ts)"
      using service.program [OF Suc.prems(1), of 0 c s1 p1] answered_step [OF Some [unfolded x]] by simp
    then show ?thesis using Suc.IH Suc.prems(2) Some x by simp
  qed (use Suc.prems in simp)
qed simp

lemma pausing_service: "service sample_lib s0 (s, ps, ts) \<Longrightarrow> run_operation sample_lib p \<Longrightarrow>
    \<exists>ps'. service sample_lib s0 (fst (pausing n s p), ps', ts)"
  using drive_service [OF service.arrives [of sample_lib s0 s ps ts p]] unfolding pausing_def by (metis prod.collapse)

lemma paused_service: "\<exists>ps. service sample_lib empty_store (paused_store, ps, [])"
proof -
  obtain ps where "service sample_lib empty_store (started_store, ps, [])"
    using pausing_service [OF service.begins run_operation.starts] unfolding started_store_def by blast
  from pausing_service [OF this run_operation.engine [OF engine_program.intros(1)]]
  show ?thesis unfolding paused_store_def by blast
qed

definition waiting_run :: run_state where
  "waiting_run = the (durable_load sample_config paused_store ''wfr_1'')"

lemma waiting_run_loaded: "durable_load sample_config paused_store ''wfr_1'' = Some waiting_run"
proof -
  have "durable_load sample_config paused_store ''wfr_1'' \<noteq> None" by code_simp
  then show ?thesis by (simp add: waiting_run_def)
qed


lemma drive_saves: "saves_to s0 s \<Longrightarrow> saves_to s0 (fst (drive L (durable_load c) (durable_save c) h now n s p))"
proof (induction n arbitrary: s p)
  case (Suc n)
  show ?case
  proof (cases "answered L (durable_load c) (durable_save c) h now s p")
    case (Some x)
    obtain s1 p1 where x: "x = (s1, p1)" by fastforce
    have "saves_to s0 s1"
      using Suc.prems Some x saves_to.one_more [OF Suc.prems]
      by (cases p) (auto simp: durable_save_store split: sum.splits)
    then show ?thesis using Suc.IH Some x by simp
  qed (use Suc.prems in simp)
qed simp

theorem tasks_keep_finished_runs_witness:
  "\<exists>key l st x. resume_workflow_wait ''wfr_1'' ''await'' (Some waiting_run) = Write key l st True
    \<and> rs_status (sr_state x) = ''cancelled''
    \<and> find_row (ss_repository (store_after cancelled_store (task_save sample_config cancelled_store key l st))) ''wfr_1'' = Some x"
proof -
  let ?d = "resume_workflow_wait ''wfr_1'' ''await'' (Some waiting_run)"
  have "(case ?d of Write key l st dr \<Rightarrow> dr | _ \<Rightarrow> False)" by code_simp
  then obtain key l st where d: "?d = Write key l st True" by (cases ?d) auto
  obtain x0 where x0: "find_row (ss_repository paused_store) ''wfr_1'' = Some x0" "rs_id (sr_state x0) = ''wfr_1''"
      "waiting_run = (sr_state x0)\<lparr> rs_version := Some (sr_version x0) \<rparr>"
  proof -
    have "map_option (\<lambda>x. rs_id (sr_state x)) (find_row (ss_repository paused_store) ''wfr_1'') = Some ''wfr_1''" by code_simp
    moreover have "durable_load sample_config paused_store ''wfr_1'' =
        map_option (\<lambda>x. (sr_state x)\<lparr> rs_version := Some (sr_version x) \<rparr>) (find_row (ss_repository paused_store) ''wfr_1'')" by code_simp
    ultimately show ?thesis using that waiting_run_loaded by auto
  qed
  have "map_option (\<lambda>x. rs_status (sr_state x)) (find_row (ss_repository cancelled_store) ''wfr_1'') = Some ''cancelled''" by code_simp
  then obtain x1 where x1: "find_row (ss_repository cancelled_store) ''wfr_1'' = Some x1" "rs_status (sr_state x1) = ''cancelled''" by auto
  have "saves_to paused_store cancelled_store" unfolding cancelled_store_def pausing_def by (rule drive_saves) (rule saves_to.none)
  from tasks_keep_finished_runs [OF x0(1,2) disjI1 this x1(1)] d x0(3) x1(2)
  show ?thesis using d x1(2) by (auto simp: terminal_def)
qed

theorem repeated_resume_does_nothing_witness:
  "\<exists>key l st s saved. resume_workflow_wait ''wfr_1'' ''await'' (Some waiting_run) = Write key l st True
    \<and> task_save sample_config paused_store key l st = Inr (s, saved)
    \<and> resume_workflow_wait ''wfr_1'' ''await'' (Some saved) = Answer [(''status'', VStr ''noop''), (''reason'', VStr ''current status is running'')]"
proof -
  let ?d = "resume_workflow_wait ''wfr_1'' ''await'' (Some waiting_run)"
  have "(case ?d of Write key l st dr \<Rightarrow> (case task_save sample_config paused_store key l st of Inl e \<Rightarrow> False | Inr x \<Rightarrow> True) | _ \<Rightarrow> False)"
    by code_simp
  then obtain key l st dr x where d: "?d = Write key l st dr" "task_save sample_config paused_store key l st = Inr x"
    by (cases ?d) (auto split: sum.splits)
  obtain s saved where "x = (s, saved)" by fastforce
  with repeated_resume_does_nothing [OF d(1), of sample_config paused_store s saved] d show ?thesis by auto
qed

end
