(* ===== verification/Audit_Chain.thy ===== *)
theory Audit_Chain
  imports Prelude
begin

text \<open>
  The tamper-evident audit log (\<open>core/governance/audit_chain.py\<close> with its link arithmetic and the
  row signatures): rows are appended, a sealing task links each tenant's rows into a hash chain, and a
  verification recomputes the chain page by page and holds it against the stored and the supplied head.
\<close>

section \<open>Rows\<close>

record audit_row =
  au_id :: string
  au_tenant :: string
  au_company :: "string option"
  au_event_type :: string
  au_actor_type :: string
  au_actor :: string
  au_agent :: "string option"
  au_workflow_run :: "string option"
  au_resource_type :: "string option"
  au_resource :: "string option"
  au_action :: string
  au_outcome :: string
  au_details :: pv
  au_trace :: "string option"
  au_created_at :: int
  au_signature :: "string option"
  au_seq :: "int option"
  au_prev :: "string option"
  au_hash :: "string option"
  au_sealed_at :: "int option"

text \<open>SHA-256, the HMAC under the platform key, \<open>json.dumps\<close> and \<open>isoformat\<close> are parameters.\<close>

record audit_env =
  ae_sha256 :: "string \<Rightarrow> string"
  ae_hmac :: "string \<Rightarrow> string"
  ae_dumps :: "pv \<Rightarrow> string"
  ae_isoformat :: "int \<Rightarrow> string"

definition CHAIN_VERSION :: string where "CHAIN_VERSION = ''1''"

definition GENESIS :: string where "GENESIS = replicate 64 (CHR ''0'')"

definition canonical_text :: "string option \<Rightarrow> pv" where
  "canonical_text v = (case v of None \<Rightarrow> VNone | Some s \<Rightarrow> VStr s)"

definition canonical_details :: "pv \<Rightarrow> pv" where
  "canonical_details v = (case v of VNone \<Rightarrow> VNone | VDict d \<Rightarrow> VDict d | _ \<Rightarrow> VDict [])"

definition signed_columns :: "audit_env \<Rightarrow> audit_row \<Rightarrow> pv dict" where
  "signed_columns E row =
     [(''tenant_id'', VStr (au_tenant row)), (''event_type'', VStr (au_event_type row)), (''actor_type'', VStr (au_actor_type row)),
      (''actor_id'', VStr (au_actor row)), (''agent_id'', canonical_text (au_agent row)),
      (''workflow_run_id'', canonical_text (au_workflow_run row)), (''resource_type'', canonical_text (au_resource_type row)),
      (''resource_id'', canonical_text (au_resource row)), (''action'', VStr (au_action row)), (''outcome'', VStr (au_outcome row)),
      (''details'', canonical_details (au_details row)), (''trace_id'', canonical_text (au_trace row)),
      (''created_at'', VStr (ae_isoformat E (au_created_at row)))]"

definition canonical_audit_payload :: "audit_env \<Rightarrow> audit_row \<Rightarrow> string" where
  "canonical_audit_payload E row = ae_dumps E (VDict (signed_columns E row))"

definition text_or_empty :: "string option \<Rightarrow> string" where
  "text_or_empty v = (case v of None \<Rightarrow> [] | Some s \<Rightarrow> s)"

definition link_material :: "audit_env \<Rightarrow> string \<Rightarrow> audit_row \<Rightarrow> string" where
  "link_material E prev_hash row =
     CHAIN_VERSION @ ''|'' @ prev_hash @ ''|'' @ canonical_audit_payload E row @ ''|'' @ text_or_empty (au_signature row)"

definition link_hash :: "audit_env \<Rightarrow> string \<Rightarrow> audit_row \<Rightarrow> string" where
  "link_hash E prev_hash row = ae_sha256 E (link_material E prev_hash row)"

definition sign_audit_record :: "audit_env \<Rightarrow> audit_row \<Rightarrow> string" where
  "sign_audit_record E row = ae_hmac E (canonical_audit_payload E row)"

definition verify_audit_row :: "audit_env \<Rightarrow> audit_row \<Rightarrow> bool" where
  "verify_audit_row E row \<longleftrightarrow>
     text_or_empty (au_signature row) \<noteq> [] \<and> sign_audit_record E row = text_or_empty (au_signature row)"

section \<open>The database\<close>

record chain_head =
  ch_seq :: int
  ch_hash :: string
  ch_sealed_at :: "int option"

definition empty_head :: chain_head where
  "empty_head = \<lparr> ch_seq = 0, ch_hash = GENESIS, ch_sealed_at = None \<rparr>"

record audit_db =
  ad_rows :: "audit_row list"
  ad_anchors :: "chain_head dict"

definition sealed_in :: "audit_db \<Rightarrow> string \<Rightarrow> int \<Rightarrow> audit_row list" where
  "sealed_in db tenant from_seq =
     sort_key (\<lambda>r. the (au_seq r)) (filter (\<lambda>r. au_tenant r = tenant \<and> au_seq r \<noteq> None \<and> from_seq \<le> the (au_seq r)) (ad_rows db))"

definition sealed_rows :: "audit_db \<Rightarrow> string \<Rightarrow> int \<Rightarrow> nat \<Rightarrow> audit_row list" where
  "sealed_rows db tenant from_seq limit = take limit (sealed_in db tenant from_seq)"

definition unsealed_in :: "audit_db \<Rightarrow> string \<Rightarrow> audit_row list" where
  "unsealed_in db tenant = filter (\<lambda>r. au_tenant r = tenant \<and> au_seq r = None) (ad_rows db)"

definition unsealed_rows :: "audit_db \<Rightarrow> string \<Rightarrow> nat \<Rightarrow> audit_row list" where
  "unsealed_rows db tenant limit = take limit (sort_key au_created_at (sort_key au_id (unsealed_in db tenant)))"

definition unsealed_count :: "audit_db \<Rightarrow> string \<Rightarrow> nat" where
  "unsealed_count db tenant = length (unsealed_in db tenant)"

definition head_row :: "audit_db \<Rightarrow> string \<Rightarrow> audit_row option" where
  "head_row db tenant =
     (case sort_key (\<lambda>r. - the (au_seq r)) (filter (\<lambda>r. au_tenant r = tenant \<and> au_seq r \<noteq> None) (ad_rows db)) of
        [] \<Rightarrow> None | r # _ \<Rightarrow> Some r)"

definition head_of :: "audit_row option \<Rightarrow> chain_head" where
  "head_of row =
     (case row of
        None \<Rightarrow> empty_head
      | Some r \<Rightarrow> \<lparr> ch_seq = the (au_seq r), ch_hash = (if text_or_empty (au_hash r) = [] then GENESIS else text_or_empty (au_hash r)),
          ch_sealed_at = au_sealed_at r \<rparr>)"

section \<open>Sealing\<close>

record seal_outcome =
  so_sealed :: nat
  so_head :: chain_head
  so_more :: bool

fun link_rows :: "audit_env \<Rightarrow> int \<Rightarrow> int \<Rightarrow> string \<Rightarrow> audit_row list \<Rightarrow> audit_row list \<times> int \<times> string" where
  "link_rows E now seq prev [] = ([], seq, prev)"
| "link_rows E now seq prev (row # rows) =
     (let h = link_hash E prev row; (linked, seq', prev') = link_rows E now (seq + 1) h rows
      in (row\<lparr> au_seq := Some (seq + 1), au_prev := Some prev, au_hash := Some h, au_sealed_at := Some now \<rparr> # linked, seq', prev'))"

definition update_rows :: "audit_row list \<Rightarrow> audit_row list \<Rightarrow> audit_row list" where
  "update_rows changed rows =
     map (\<lambda>r. case find (\<lambda>x. au_id x = au_id r) changed of None \<Rightarrow> r | Some x \<Rightarrow> x) rows"

definition seal :: "audit_env \<Rightarrow> audit_db \<Rightarrow> string \<Rightarrow> nat \<Rightarrow> int \<Rightarrow> audit_db \<times> seal_outcome" where
  "seal E db tenant batch now =
     (let size = max 1 batch;
          head = head_of (head_row db tenant);
          rows = unsealed_rows db tenant size;
          (linked, seq, prev) = link_rows E now (ch_seq head) (ch_hash head) rows;
          head' = \<lparr> ch_seq = seq, ch_hash = prev, ch_sealed_at = Some now \<rparr>
      in if rows = [] then (db, \<lparr> so_sealed = 0, so_head = head, so_more = False \<rparr>)
         else (\<lparr> ad_rows = update_rows linked (ad_rows db), ad_anchors = dset (ad_anchors db) tenant head' \<rparr>,
               \<lparr> so_sealed = length rows, so_head = head', so_more = (length rows \<ge> size) \<rparr>))"

text \<open>The sealing task: at most \<open>max_rounds\<close> batches for a tenant, while a further batch waits.\<close>

definition MAX_ROUNDS :: nat where "MAX_ROUNDS = 20"

fun seal_rounds :: "audit_env \<Rightarrow> nat \<Rightarrow> string \<Rightarrow> nat \<Rightarrow> int \<Rightarrow> audit_db \<Rightarrow> audit_db" where
  "seal_rounds E 0 tenant batch now db = db"
| "seal_rounds E (Suc n) tenant batch now db =
     (let (db', outcome) = seal E db tenant batch now
      in if so_more outcome then seal_rounds E n tenant batch now db' else db')"

section \<open>Verification\<close>

record chain_break =
  cb_seq :: int
  cb_row :: "string option"
  cb_reason :: string

record verification =
  vf_head :: chain_head
  vf_unsealed :: nat
  vf_from :: int
  vf_to :: int
  vf_verified :: nat
  vf_unsigned :: nat
  vf_anchor :: "chain_head option"
  vf_expected :: "chain_head option"
  vf_break :: "chain_break option"

definition verification_status :: "verification \<Rightarrow> string" where
  "verification_status v =
     (if vf_break v \<noteq> None then ''broken'' else if ch_seq (vf_head v) = 0 then ''empty'' else ''verified'')"

definition row_ref :: "audit_row \<Rightarrow> string option" where
  "row_ref row = (if au_id row = [] then None else Some (au_id row))"

definition anchor_break :: "audit_db \<Rightarrow> string \<Rightarrow> chain_head \<Rightarrow> chain_head \<Rightarrow> chain_break option" where
  "anchor_break db tenant head anchor =
     (if ch_seq anchor \<le> 0 then None
      else if ch_seq anchor > ch_seq head
      then Some \<lparr> cb_seq = ch_seq head + 1, cb_row = None, cb_reason = ''truncated'' \<rparr>
      else case sealed_rows db tenant (ch_seq anchor) 1 of
        [] \<Rightarrow> Some \<lparr> cb_seq = ch_seq anchor, cb_row = None, cb_reason = ''sequence_gap'' \<rparr>
      | row # _ \<Rightarrow>
          if au_seq row \<noteq> Some (ch_seq anchor)
          then Some \<lparr> cb_seq = ch_seq anchor, cb_row = None, cb_reason = ''sequence_gap'' \<rparr>
          else if text_or_empty (au_hash row) \<noteq> ch_hash anchor
          then Some \<lparr> cb_seq = ch_seq anchor, cb_row = row_ref row, cb_reason = ''anchor_mismatch'' \<rparr>
          else None)"

definition check_row :: "audit_env \<Rightarrow> audit_row \<Rightarrow> int \<Rightarrow> string \<Rightarrow> string option" where
  "check_row E row expected prev =
     (if the (au_seq row) \<noteq> expected then Some ''sequence_gap''
      else if text_or_empty (au_prev row) \<noteq> prev then Some ''previous_link''
      else if text_or_empty (au_hash row) \<noteq> link_hash E prev row then Some ''link_hash''
      else if text_or_empty (au_signature row) \<noteq> [] \<and> \<not> verify_audit_row E row then Some ''signature''
      else None)"

definition str_hash :: "string option \<Rightarrow> string" where
  "str_hash v = (case v of None \<Rightarrow> ''None'' | Some s \<Rightarrow> s)"

definition count_row :: "audit_row \<Rightarrow> verification \<Rightarrow> verification" where
  "count_row row v = v\<lparr> vf_unsigned := vf_unsigned v + (if text_or_empty (au_signature row) = [] then 1 else 0),
     vf_verified := vf_verified v + 1, vf_to := the (au_seq row) \<rparr>"

text \<open>One page: the first break ends the verification, otherwise the next sequence number and link.\<close>

fun walk_page :: "audit_env \<Rightarrow> audit_row list \<Rightarrow> int \<Rightarrow> string \<Rightarrow> verification \<Rightarrow> (verification, int \<times> string \<times> verification) res" where
  "walk_page E [] expected prev v = Inr (expected, prev, v)"
| "walk_page E (row # rows) expected prev v =
     (case check_row E row expected prev of
        Some reason \<Rightarrow> Inl (v\<lparr> vf_break := Some \<lparr> cb_seq = the (au_seq row), cb_row = row_ref row, cb_reason = reason \<rparr> \<rparr>)
      | None \<Rightarrow> walk_page E rows (the (au_seq row) + 1) (str_hash (au_hash row)) (count_row row v))"

definition PAGE :: nat where "PAGE = 1000"

definition page_size :: "nat option \<Rightarrow> nat" where
  "page_size remaining = (case remaining of None \<Rightarrow> PAGE | Some n \<Rightarrow> min PAGE n)"

lemma walk_page_next:
  "walk_page E rows e p v = Inr (e', p', v') \<Longrightarrow> e' = e + int (length rows)"
proof (induction rows arbitrary: e p v)
  case (Cons row rows)
  then have "check_row E row e p = None" by (auto split: option.splits)
  then have "the (au_seq row) = e" by (auto simp: check_row_def split: if_splits)
  then show ?case using Cons \<open>check_row E row e p = None\<close> by fastforce
qed simp

lemma sealed_in_mono: "e < e' \<Longrightarrow> row \<in> set (sealed_in db t e) \<Longrightarrow> the (au_seq row) < e' \<Longrightarrow>
    length (sealed_in db t e') < length (sealed_in db t e)"
proof -
  assume a: "e < e'" "row \<in> set (sealed_in db t e)" "the (au_seq row) < e'"
  let ?P = "\<lambda>e r. au_tenant r = t \<and> au_seq r \<noteq> None \<and> e \<le> the (au_seq r)"
  have r: "row \<in> set (ad_rows db)" "?P e row" "\<not> ?P e' row" using a by (auto simp: sealed_in_def)
  have "length (filter (?P e') xs) \<le> length (filter (?P e) xs)" for xs using a(1) by (induction xs) auto
  moreover have "row \<in> set xs \<Longrightarrow> length (filter (?P e') xs) < length (filter (?P e) xs)" for xs
    using r(2,3) a(1) calculation by (induction xs) (auto simp: less_Suc_eq_le)
  ultimately show ?thesis using r(1) by (simp add: sealed_in_def)
qed

function walk :: "audit_env \<Rightarrow> audit_db \<Rightarrow> string \<Rightarrow> nat option \<Rightarrow> int \<Rightarrow> string \<Rightarrow> verification \<Rightarrow> verification" where
  "walk E db tenant remaining expected prev v =
     (if remaining = Some 0 then v
      else
        let rows = sealed_rows db tenant expected (page_size remaining) in
        if rows = [] then v
        else case walk_page E rows expected prev v of
            Inl v' \<Rightarrow> v'
          | Inr (expected', prev', v') \<Rightarrow>
              if length rows < page_size remaining then v'
              else walk E db tenant (map_option (\<lambda>n. n - length rows) remaining) expected' prev' v')"
  by pat_completeness auto
termination
proof (relation "measure (\<lambda>(E, db, t, rem, e, p, v). length (sealed_in db t e))")
  fix E db t rem e p v rows x e' y p' v'
  assume rows: "rows = sealed_rows db t e (page_size rem)" "rows \<noteq> []"
    and "walk_page E rows e p v = Inr x" "(e', y) = x" "(p', v') = y"
  then have w: "walk_page E rows e p v = Inr (e', p', v')" by simp
  obtain row rest where r: "rows = row # rest" using rows(2) by (cases rows) auto
  have "the (au_seq row) = e" using w r by (auto simp: check_row_def split: option.splits if_splits)
  moreover have "row \<in> set (sealed_in db t e)" using rows(1) r unfolding sealed_rows_def by (metis in_set_takeD list.set_intros(1))
  moreover have "e < e'" using walk_page_next [OF w] r by simp
  ultimately have "length (sealed_in db t e') < length (sealed_in db t e)" using sealed_in_mono by auto
  then show "((E, db, t, map_option (\<lambda>n. n - length rows) rem, e', p', v'), E, db, t, rem, e, p, v)
      \<in> measure (\<lambda>(E, db, t, rem, e, p, v). length (sealed_in db t e))" by simp
qed simp

declare walk.simps [simp del]

text \<open>The anchors come first: the head the last sealing stored and the one the caller supplies.\<close>

definition verify :: "audit_env \<Rightarrow> audit_db \<Rightarrow> string \<Rightarrow> int \<Rightarrow> nat option \<Rightarrow> chain_head option \<Rightarrow> verification" where
  "verify E db tenant from_seq limit expected =
     (let start = max 1 from_seq;
          head = head_of (head_row db tenant);
          v = \<lparr> vf_head = head, vf_unsealed = unsealed_count db tenant, vf_from = start, vf_to = 0, vf_verified = 0,
                vf_unsigned = 0, vf_anchor = dget (ad_anchors db) tenant, vf_expected = expected, vf_break = None \<rparr>;
          anchored = find (\<lambda>b. b \<noteq> None) (map (\<lambda>a. Option.bind a (anchor_break db tenant head)) [dget (ad_anchors db) tenant, expected])
      in case anchored of
           Some b \<Rightarrow> v\<lparr> vf_break := b \<rparr>
         | None \<Rightarrow>
             if ch_seq head = 0 then v
             else if start = 1 then walk E db tenant limit start GENESIS v
             else case sealed_rows db tenant (start - 1) 1 of
                 before # _ \<Rightarrow>
                   if au_seq before = Some (start - 1)
                   then walk E db tenant limit start (text_or_empty (au_hash before)) v
                   else v\<lparr> vf_break := Some \<lparr> cb_seq = start - 1, cb_row = None, cb_reason = ''sequence_gap'' \<rparr> \<rparr>
               | [] \<Rightarrow> v\<lparr> vf_break := Some \<lparr> cb_seq = start - 1, cb_row = None, cb_reason = ''sequence_gap'' \<rparr> \<rparr>)"

section \<open>Writing rows\<close>

definition build_signed_audit_entry :: "audit_env \<Rightarrow> audit_row \<Rightarrow> audit_row" where
  "build_signed_audit_entry E row = row\<lparr> au_signature := Some (sign_audit_record E row) \<rparr>"

definition unlinked :: "audit_row \<Rightarrow> bool" where
  "unlinked row \<longleftrightarrow> au_seq row = None \<and> au_prev row = None \<and> au_hash row = None \<and> au_sealed_at row = None"

text \<open>The trigger of the table: the one update it lets through fills the chain columns of an unsealed row.\<close>

definition seal_trigger_allows :: "audit_row \<Rightarrow> audit_row \<Rightarrow> bool" where
  "seal_trigger_allows old new \<longleftrightarrow> unlinked old
     \<and> au_seq new \<noteq> None \<and> au_prev new \<noteq> None \<and> au_hash new \<noteq> None \<and> au_sealed_at new \<noteq> None
     \<and> new\<lparr> au_seq := None, au_prev := None, au_hash := None, au_sealed_at := None \<rparr>
       = old\<lparr> au_seq := None, au_prev := None, au_hash := None, au_sealed_at := None \<rparr>"

text \<open>The databases that logging and sealing lead to; a row written before signing existed has no signature.\<close>

inductive audit_reachable :: "audit_env \<Rightarrow> audit_db \<Rightarrow> bool" for E where
  starts: "audit_reachable E \<lparr> ad_rows = [], ad_anchors = [] \<rparr>"
| logs: "audit_reachable E db \<Longrightarrow> au_id row \<notin> au_id ` set (ad_rows db) \<Longrightarrow> unlinked row \<Longrightarrow>
    row' \<in> {row\<lparr> au_signature := None \<rparr>, build_signed_audit_entry E row} \<Longrightarrow>
    audit_reachable E (db\<lparr> ad_rows := ad_rows db @ [row'] \<rparr>)"
| seals: "audit_reachable E db \<Longrightarrow> audit_reachable E (fst (seal E db tenant batch now))"

section \<open>Chains\<close>

fun chained :: "audit_env \<Rightarrow> string \<Rightarrow> int \<Rightarrow> audit_row list \<Rightarrow> bool" where
  "chained E p e [] = True"
| "chained E p e (r # rs) \<longleftrightarrow> check_row E r e p = None \<and> chained E (str_hash (au_hash r)) (e + 1) rs"

definition end_hash :: "string \<Rightarrow> audit_row list \<Rightarrow> string" where
  "end_hash p rs = (if rs = [] then p else str_hash (au_hash (last rs)))"

lemma chained_append: "chained E p e (xs @ ys) \<longleftrightarrow> chained E p e xs \<and> chained E (end_hash p xs) (e + int (length xs)) ys"
  by (induction xs arbitrary: p e) (auto simp: end_hash_def algebra_simps)

lemma chained_seqs: "chained E p e rs \<Longrightarrow> map (\<lambda>r. the (au_seq r)) rs = map (\<lambda>i. e + int i) [0 ..< length rs]"
proof (induction rs arbitrary: p e rule: rev_induct)
  case (snoc r rs)
  then show ?case by (auto simp: chained_append check_row_def split: if_splits)
qed simp

lemma chained_seq_nth: "chained E p e rs \<Longrightarrow> i < length rs \<Longrightarrow> the (au_seq (rs ! i)) = e + int i"
  using arg_cong [OF chained_seqs, of E p e rs "\<lambda>xs. xs ! i"] by simp

lemma chained_sorted:
  assumes "chained E p e rs"
  shows "sorted_wrt (<) (map (\<lambda>r. the (au_seq r)) rs)"
  unfolding chained_seqs [OF assms] by (auto simp: sorted_wrt_iff_nth_less)

lemma walk_page_iff: "(\<exists>x. walk_page E rows e p v = Inr x) \<longleftrightarrow> chained E p e rows"
proof (induction rows arbitrary: e p v)
  case (Cons r rs)
  have "the (au_seq r) = e" if "check_row E r e p = None" using that by (auto simp: check_row_def split: if_splits)
  then show ?case using Cons by (auto split: option.splits)
qed simp

lemma walk_page_result:
  assumes "walk_page E rows e p v = Inr (e', p', v')"
  shows "p' = end_hash p rows \<and> vf_break v' = vf_break v \<and> vf_verified v' = vf_verified v + length rows"
  using assms
proof (induction rows arbitrary: e p v)
  case (Cons r rs)
  then have "walk_page E rs (the (au_seq r) + 1) (str_hash (au_hash r)) (count_row r v) = Inr (e', p', v')"
    by (simp split: option.splits)
  from Cons.IH [OF this] show ?case by (auto simp: end_hash_def count_row_def)
qed (simp add: end_hash_def)

lemma walk_page_breaks: "walk_page E rows e p v = Inl v' \<Longrightarrow> vf_break v' \<noteq> None"
  by (induction rows arbitrary: e p v) (auto split: option.splits)

section \<open>Pages\<close>

text \<open>The unique index over tenant and sequence number.\<close>

definition unique_links :: "audit_db \<Rightarrow> string \<Rightarrow> bool" where
  "unique_links db t \<longleftrightarrow> distinct (map (\<lambda>r. the (au_seq r)) (filter (\<lambda>r. au_tenant r = t \<and> au_seq r \<noteq> None) (ad_rows db)))"

lemma sealed_in_later:
  assumes "e \<le> e'"
  shows "sealed_in db t e' = filter (\<lambda>r. e' \<le> the (au_seq r)) (sealed_in db t e)"
proof -
  have eq: "(\<lambda>r. (au_tenant r = t \<and> au_seq r \<noteq> None \<and> e \<le> the (au_seq r)) \<and> e' \<le> the (au_seq r))
      = (\<lambda>r. au_tenant r = t \<and> au_seq r \<noteq> None \<and> e' \<le> the (au_seq r))" using assms by (intro ext) linarith
  show ?thesis unfolding sealed_in_def filter_sort filter_filter eq ..
qed

lemma sealed_in_seqs: "r \<in> set (sealed_in db t e) \<Longrightarrow> e \<le> the (au_seq r) \<and> au_seq r \<noteq> None \<and> au_tenant r = t"
  by (auto simp: sealed_in_def)

lemma sealed_in_strict:
  assumes "unique_links db t"
  shows "sorted_wrt (<) (map (\<lambda>r. the (au_seq r)) (sealed_in db t e))"
proof -
  let ?f = "\<lambda>r. the (au_seq r)" and ?P = "\<lambda>r. au_tenant r = t \<and> au_seq r \<noteq> None"
  have eq: "filter (\<lambda>r. au_tenant r = t \<and> au_seq r \<noteq> None \<and> e \<le> ?f r) (ad_rows db) = filter (\<lambda>r. e \<le> ?f r) (filter ?P (ad_rows db))"
    unfolding filter_filter conj_assoc ..
  have "distinct (map ?f (filter (\<lambda>r. au_tenant r = t \<and> au_seq r \<noteq> None \<and> e \<le> ?f r) (ad_rows db)))"
    unfolding eq using assms unfolding unique_links_def by (rule distinct_map_filter)
  then have "distinct (map ?f (sealed_in db t e))" by (simp add: sealed_in_def distinct_map)
  then show ?thesis by (simp add: sealed_in_def strict_sorted_iff)
qed

text \<open>The rows after a page that was checked are those from the next sequence number on.\<close>

lemma sealed_in_drop:
  assumes u: "unique_links db t" and c: "chained E p e (take n (sealed_in db t e))" and n: "n \<le> length (sealed_in db t e)"
  shows "sealed_in db t (e + int n) = drop n (sealed_in db t e)"
proof -
  let ?xs = "sealed_in db t e" and ?f = "\<lambda>r. the (au_seq r)"
  have s: "sorted_wrt (<) (map ?f ?xs)" by (rule sealed_in_strict [OF u])
  have "?f (?xs ! i) = e + int i" if "i < n" for i using chained_seq_nth [OF c, of i] that n by simp
  moreover have "e + int n \<le> ?f (?xs ! i)" if i: "n \<le> i" "i < length ?xs" for i
  proof (cases n)
    case 0
    then show ?thesis using sealed_in_seqs [OF nth_mem [OF i(2)]] by simp
  next
    case (Suc m)
    have "?f (?xs ! m) < ?f (?xs ! i)" using s i Suc by (auto simp: sorted_wrt_iff_nth_less)
    moreover have "?f (?xs ! m) = e + int m" using chained_seq_nth [OF c, of m] Suc n by simp
    ultimately show ?thesis using Suc by simp
  qed
  ultimately have "filter (\<lambda>r. e + int n \<le> ?f r) (take n ?xs) = []" "filter (\<lambda>r. e + int n \<le> ?f r) (drop n ?xs) = drop n ?xs"
    using n by (auto simp: filter_empty_conv filter_id_conv in_set_conv_nth add.commute)
  then have "filter (\<lambda>r. e + int n \<le> ?f r) (take n ?xs @ drop n ?xs) = drop n ?xs" unfolding filter_append by simp
  then show ?thesis using sealed_in_later [of e "e + int n" db t] by simp
qed

text \<open>Page by page is the same as one pass over the whole chain.\<close>

lemma walk_checks_all:
  assumes "unique_links db t" "vf_break (walk E db t None e p v) = None"
  shows "chained E p e (sealed_in db t e)"
  using assms(2)
proof (induction "length (sealed_in db t e)" arbitrary: e p v rule: less_induct)
  case less
  let ?rows = "sealed_rows db t e PAGE" and ?all = "sealed_in db t e"
  have w: "walk E db t None e p v = (if ?rows = [] then v else case walk_page E ?rows e p v of Inl v' \<Rightarrow> v'
      | Inr (e', p', v') \<Rightarrow> if length ?rows < PAGE then v' else walk E db t None e' p' v')"
    by (subst walk.simps, unfold page_size_def Let_def option.map option.case) (rule if_not_P, simp)
  show ?case
  proof (cases "?rows = []")
    case True
    then show ?thesis by (simp add: sealed_rows_def PAGE_def)
  next
    case False
    then obtain e' p' v' where x: "walk_page E ?rows e p v = Inr (e', p', v')"
      using less.prems w walk_page_breaks by (cases "walk_page E ?rows e p v") auto
    then have c: "chained E p e ?rows" using walk_page_iff by blast
    have e': "e' = e + int (length ?rows)" "p' = end_hash p ?rows" using walk_page_next [OF x] walk_page_result [OF x] by auto
    show ?thesis
    proof (cases "length ?rows < PAGE")
      case True
      then show ?thesis using c by (simp add: sealed_rows_def)
    next
      case F: False
      then have len: "length ?rows = PAGE" "PAGE \<le> length ?all" by (simp_all add: sealed_rows_def)
      then have rest: "sealed_in db t e' = drop PAGE ?all"
        using sealed_in_drop [OF assms(1)] c e'(1) by (simp add: sealed_rows_def)
      have "chained E p' e' (sealed_in db t e')"
        using less.hyps [of e' p' v'] less.prems w False x F rest len by (simp add: PAGE_def)
      then have "chained E p e (take PAGE ?all @ drop PAGE ?all)"
        unfolding chained_append using c e' rest len by (simp add: sealed_rows_def)
      then show ?thesis by simp
    qed
  qed
qed

lemma walk_accepts:
  assumes "unique_links db t" "chained E p e (sealed_in db t e)" "vf_break v = None"
  shows "vf_break (walk E db t limit e p v) = None
    \<and> (limit = None \<longrightarrow> vf_verified (walk E db t limit e p v) = vf_verified v + length (sealed_in db t e))"
  using assms(2,3)
proof (induction "length (sealed_in db t e)" arbitrary: e p v limit rule: less_induct)
  case less
  let ?n = "page_size limit" and ?all = "sealed_in db t e"
  let ?rows = "sealed_rows db t e ?n"
  show ?case
  proof (cases "limit = Some 0 \<or> ?rows = []")
    case True
    then have "walk E db t limit e p v = v" by (subst walk.simps) auto
    moreover have "?all = []" if "limit = None" using True that by (auto simp: sealed_rows_def page_size_def PAGE_def)
    ultimately show ?thesis using less.prems(2) by auto
  next
    case False
    have "chained E p e (?rows @ drop ?n ?all)" using less.prems(1) by (simp add: sealed_rows_def)
    then have c: "chained E p e ?rows" "chained E (end_hash p ?rows) (e + int (length ?rows)) (drop ?n ?all)"
      unfolding chained_append by auto
    obtain e' p' v' where x: "walk_page E ?rows e p v = Inr (e', p', v')" using c(1) walk_page_iff by (metis prod.exhaust)
    note r = walk_page_next [OF x] walk_page_result [OF x]
    let ?limit = "map_option (\<lambda>n. n - length ?rows) limit"
    have w: "walk E db t limit e p v = (if length ?rows < ?n then v' else walk E db t ?limit e' p' v')"
      by (subst walk.simps) (use False x in \<open>simp add: Let_def\<close>)
    show ?thesis
    proof (cases "length ?rows < ?n")
      case True
      then show ?thesis using w r less.prems(2) by (auto simp: sealed_rows_def)
    next
      case F: False
      then have len: "length ?rows = ?n" "?n \<le> length ?all" by (simp_all add: sealed_rows_def)
      have rest: "sealed_in db t e' = drop ?n ?all"
        using sealed_in_drop [OF assms(1), of E p e ?n] c(1) len r(1) by (simp add: sealed_rows_def)
      have "length (sealed_in db t e') < length ?all" using rest False len by (cases ?rows) auto
      then have "vf_break (walk E db t ?limit e' p' v') = None
          \<and> (?limit = None \<longrightarrow> vf_verified (walk E db t ?limit e' p' v') = vf_verified v' + length (sealed_in db t e'))"
        using less.hyps [of e' p' v' ?limit] c(2) r rest less.prems(2) by simp
      then show ?thesis using w F r rest len by auto
    qed
  qed
qed

section \<open>What logging and sealing keep\<close>

definition signed_or_not :: "audit_env \<Rightarrow> audit_row \<Rightarrow> bool" where
  "signed_or_not E r \<longleftrightarrow> text_or_empty (au_signature r) = [] \<or> verify_audit_row E r"

text \<open>\<open>chain\<close> is the tenant's chain: its sealed rows in order, linked, with the anchor at its end.\<close>

definition chain_of :: "audit_env \<Rightarrow> audit_db \<Rightarrow> string \<Rightarrow> audit_row list \<Rightarrow> bool" where
  "chain_of E db t chain \<longleftrightarrow> set chain = {r \<in> set (ad_rows db). au_tenant r = t \<and> au_seq r \<noteq> None}
     \<and> chained E GENESIS 1 chain \<and> (\<forall>r \<in> set chain. \<exists>h. au_hash r = Some h \<and> h \<noteq> [])
     \<and> dget (ad_anchors db) t = (if chain = [] then None else Some (head_of (Some (last chain))))"

definition audit_inv :: "audit_env \<Rightarrow> audit_db \<Rightarrow> bool" where
  "audit_inv E db \<longleftrightarrow> distinct (map au_id (ad_rows db))
     \<and> (\<forall>r \<in> set (ad_rows db). signed_or_not E r \<and> (au_seq r = None \<longrightarrow> unlinked r))
     \<and> (\<forall>t. \<exists>chain. chain_of E db t chain)"

lemma sort_key_unique:
  assumes "distinct xs" "set xs = set ys" "sorted_wrt (<) (map f ys)"
  shows "sort_key f xs = ys"
proof -
  have d: "distinct (map f ys)" using assms(3) by (simp add: strict_sorted_iff)
  have "distinct (map f (sort_key f xs))" using d assms(1,2) by (simp add: distinct_map)
  then have "map f (sort_key f xs) = map f ys"
    using assms(2,3) d by (intro sorted_distinct_set_unique) (auto simp: strict_sorted_iff)
  then show ?thesis using d assms(2) by (intro map_inj_on [of f]) (auto simp: distinct_map)
qed

lemma chain_rows:
  assumes "audit_inv E db" "chain_of E db t chain"
  shows "sealed_in db t 1 = chain" "unique_links db t" "head_row db t = (if chain = [] then None else Some (last chain))"
proof -
  let ?f = "\<lambda>r. the (au_seq r)"
  have d: "distinct (ad_rows db)" using assms(1) by (auto simp: audit_inv_def distinct_map)
  have c: "chained E GENESIS 1 chain" "set chain = {r \<in> set (ad_rows db). au_tenant r = t \<and> au_seq r \<noteq> None}"
    using assms(2) by (auto simp: chain_of_def)
  have s: "sorted_wrt (<) (map ?f chain)" by (rule chained_sorted [OF c(1)])
  have "1 \<le> ?f r" if "r \<in> set chain" for r
    using that chained_seq_nth [OF c(1)] by (auto simp: in_set_conv_nth)
  then have "set (filter (\<lambda>r. au_tenant r = t \<and> au_seq r \<noteq> None \<and> 1 \<le> ?f r) (ad_rows db)) = set chain" using c(2) by auto
  then show "sealed_in db t 1 = chain" unfolding sealed_in_def using d s by (intro sort_key_unique) simp_all
  have all: "set (filter (\<lambda>r. au_tenant r = t \<and> au_seq r \<noteq> None) (ad_rows db)) = set chain" using c(2) by auto
  show "unique_links db t"
    unfolding unique_links_def distinct_map all using d s by (simp add: strict_sorted_iff distinct_map)
  have "sorted_wrt (<) (map (\<lambda>r. - ?f r) (rev chain))"
    using s by (simp add: rev_map [symmetric] sorted_wrt_rev sorted_wrt_map)
  then have "sort_key (\<lambda>r. - ?f r) (filter (\<lambda>r. au_tenant r = t \<and> au_seq r \<noteq> None) (ad_rows db)) = rev chain"
    using d all by (intro sort_key_unique) simp_all
  then show "head_row db t = (if chain = [] then None else Some (last chain))"
    by (cases chain rule: rev_cases) (simp_all add: head_row_def)
qed

lemma chain_head_eq:
  assumes "audit_inv E db" "chain_of E db t chain"
  shows "ch_seq (head_of (head_row db t)) = int (length chain)" "ch_hash (head_of (head_row db t)) = end_hash GENESIS chain"
proof -
  have c: "chained E GENESIS 1 chain" "\<forall>r \<in> set chain. \<exists>h. au_hash r = Some h \<and> h \<noteq> []" using assms(2) by (auto simp: chain_of_def)
  show "ch_seq (head_of (head_row db t)) = int (length chain)"
  proof (cases chain rule: rev_cases)
    case (snoc xs x)
    then have "the (au_seq x) = 1 + int (length xs)" using chained_seq_nth [OF c(1), of "length xs"] by simp
    then show ?thesis unfolding chain_rows(3) [OF assms] using snoc by (simp add: head_of_def)
  qed (simp add: chain_rows(3) [OF assms] head_of_def empty_head_def)
  show "ch_hash (head_of (head_row db t)) = end_hash GENESIS chain"
  proof (cases chain rule: rev_cases)
    case (snoc xs x)
    then obtain h where "au_hash x = Some h" "h \<noteq> []" using c(2) by auto
    then show ?thesis unfolding chain_rows(3) [OF assms] using snoc
      by (simp add: head_of_def end_hash_def text_or_empty_def str_hash_def)
  qed (simp add: chain_rows(3) [OF assms] head_of_def empty_head_def end_hash_def)
qed

lemma link_rows_spec:
  assumes "\<And>s. ae_sha256 E s \<noteq> []" "\<forall>r \<in> set rows. signed_or_not E r" "link_rows E now s p rows = (linked, s', p')"
  shows "chained E p (s + 1) linked \<and> s' = s + int (length rows) \<and> p' = end_hash p linked \<and> map au_id linked = map au_id rows
    \<and> (\<forall>r \<in> set linked. au_seq r \<noteq> None \<and> au_sealed_at r = Some now \<and> (\<exists>h. au_hash r = Some h \<and> h \<noteq> []) \<and> signed_or_not E r
        \<and> (\<exists>old \<in> set rows. au_id old = au_id r \<and> au_tenant old = au_tenant r \<and> (unlinked old \<longrightarrow> seal_trigger_allows old r)))"
  using assms(2,3)
proof (induction rows arbitrary: s p linked)
  case (Cons row rows)
  let ?h = "link_hash E p row"
  obtain l where l: "link_rows E now (s + 1) ?h rows = (l, s', p')"
      "linked = row\<lparr> au_seq := Some (s + 1), au_prev := Some p, au_hash := Some ?h, au_sealed_at := Some now \<rparr> # l"
    using Cons.prems(2) by (auto simp: Let_def split: prod.splits)
  let ?row = "row\<lparr> au_seq := Some (s + 1), au_prev := Some p, au_hash := Some ?h, au_sealed_at := Some now \<rparr>"
  have same: "link_hash E p ?row = ?h" "verify_audit_row E ?row = verify_audit_row E row" "signed_or_not E ?row = signed_or_not E row"
    by (simp_all add: link_hash_def link_material_def canonical_audit_payload_def signed_columns_def verify_audit_row_def
      sign_audit_record_def signed_or_not_def)
  have "check_row E ?row (s + 1) p = None"
    using same Cons.prems(1) by (auto simp: check_row_def text_or_empty_def signed_or_not_def)
  moreover have "?h \<noteq> []" using assms(1) by (simp add: link_hash_def)
  moreover have "seal_trigger_allows row ?row" if "unlinked row" using that by (simp add: seal_trigger_allows_def)
  moreover have "signed_or_not E ?row" using same Cons.prems(1) by simp
  ultimately show ?case using Cons.IH [of "s + 1" ?h l] Cons.prems(1) l
    by (auto simp: str_hash_def end_hash_def)
qed (simp add: end_hash_def)

lemma find_by_id:
  assumes "distinct (map au_id xs)" "x \<in> set xs"
  shows "find (\<lambda>y. au_id y = au_id x) xs = Some x"
  using assms by (induction xs) (auto simp: image_iff)

lemma update_rows_ids [simp]: "map au_id (update_rows changed rows) = map au_id rows"
proof -
  have "au_id (case find (\<lambda>x. au_id x = au_id r) changed of None \<Rightarrow> r | Some x \<Rightarrow> x) = au_id r" for r
    by (auto simp: find_Some_iff split: option.splits)
  then show ?thesis by (simp add: update_rows_def)
qed

lemma update_rows_set:
  assumes "distinct (map au_id changed)" "au_id ` set changed \<subseteq> au_id ` set rows"
  shows "set (update_rows changed rows) = set changed \<union> {r \<in> set rows. au_id r \<notin> au_id ` set changed}"
proof (intro set_eqI iffI)
  fix r assume "r \<in> set (update_rows changed rows)"
  then show "r \<in> set changed \<union> {r \<in> set rows. au_id r \<notin> au_id ` set changed}"
    by (auto simp: update_rows_def find_None_iff find_Some_iff split: option.splits)
next
  fix r assume r: "r \<in> set changed \<union> {r \<in> set rows. au_id r \<notin> au_id ` set changed}"
  show "r \<in> set (update_rows changed rows)"
  proof (cases "r \<in> set changed")
    case True
    then obtain old where "old \<in> set rows" "au_id old = au_id r" using assms(2) by (metis image_eqI imageE subset_iff)
    then show ?thesis using find_by_id [OF assms(1) True] unfolding update_rows_def by (force intro: image_eqI [of _ _ old])
  next
    case False
    then have "find (\<lambda>x. au_id x = au_id r) changed = None" "r \<in> set rows" using r by (auto simp: find_None_iff image_iff)
    then show ?thesis unfolding update_rows_def by (force intro: image_eqI [of _ _ r])
  qed
qed

lemma unsealed_rows_subset: "r \<in> set (unsealed_rows db t n) \<Longrightarrow> r \<in> set (ad_rows db) \<and> au_tenant r = t \<and> au_seq r = None"
  by (auto simp: unsealed_rows_def unsealed_in_def dest!: in_set_takeD)

lemma seal_rows:
  assumes sha: "\<And>s. ae_sha256 E s \<noteq> []" and inv: "audit_inv E db"
    and rows: "unsealed_rows db t (max 1 batch) = rows" "rows \<noteq> []"
    and link: "link_rows E now (ch_seq (head_of (head_row db t))) (ch_hash (head_of (head_row db t))) rows = (linked, seq, prev)"
  shows "ad_rows (fst (seal E db t batch now)) = update_rows linked (ad_rows db)"
    "ad_anchors (fst (seal E db t batch now)) = dset (ad_anchors db) t \<lparr> ch_seq = seq, ch_hash = prev, ch_sealed_at = Some now \<rparr>"
    "set (update_rows linked (ad_rows db)) = set linked \<union> {r \<in> set (ad_rows db). au_id r \<notin> au_id ` set linked}"
    "\<forall>r \<in> set linked. au_tenant r = t \<and> (\<exists>old \<in> set (ad_rows db). au_id old = au_id r \<and> au_seq old = None \<and> au_tenant old = t)"
proof -
  show "ad_rows (fst (seal E db t batch now)) = update_rows linked (ad_rows db)"
    "ad_anchors (fst (seal E db t batch now)) = dset (ad_anchors db) t \<lparr> ch_seq = seq, ch_hash = prev, ch_sealed_at = Some now \<rparr>"
    using rows link by (simp_all add: seal_def Let_def)
  have "\<forall>r \<in> set rows. signed_or_not E r" using rows(1) unsealed_rows_subset inv by (auto simp: audit_inv_def)
  note spec = link_rows_spec [OF sha this link]
  have "distinct (map au_id (unsealed_in db t))" using inv by (simp add: audit_inv_def unsealed_in_def distinct_map_filter)
  then have "distinct (map au_id rows)" unfolding rows(1) [symmetric] unsealed_rows_def by (simp add: distinct_map take_map [symmetric])
  then have "distinct (map au_id linked)" using spec by simp
  moreover have "au_id ` set linked \<subseteq> au_id ` set (ad_rows db)"
    using arg_cong [of _ _ set, OF conjunct1 [OF conjunct2 [OF conjunct2 [OF conjunct2 [OF spec]]]]] unsealed_rows_subset rows(1) by auto
  ultimately show "set (update_rows linked (ad_rows db)) = set linked \<union> {r \<in> set (ad_rows db). au_id r \<notin> au_id ` set linked}"
    by (rule update_rows_set)
  show "\<forall>r \<in> set linked. au_tenant r = t \<and> (\<exists>old \<in> set (ad_rows db). au_id old = au_id r \<and> au_seq old = None \<and> au_tenant old = t)"
    using spec unsealed_rows_subset rows(1) by metis
qed

lemma kept_rows:
  assumes "distinct (map au_id rows)" "r \<in> set rows" "au_seq r \<noteq> None \<or> au_tenant r \<noteq> t"
    and "\<forall>r \<in> set linked. au_tenant r = t \<and> (\<exists>old \<in> set rows. au_id old = au_id r \<and> au_seq old = None \<and> au_tenant old = t)"
  shows "au_id r \<notin> au_id ` set linked"
proof
  assume "au_id r \<in> au_id ` set linked"
  then obtain x where "x \<in> set linked" "au_id x = au_id r" by (metis imageE)
  with assms(4) obtain old where "old \<in> set rows" "au_id old = au_id r" "au_seq old = None" "au_tenant old = t" by metis
  moreover from this have "old = r" using assms(1,2) by (meson distinct_map inj_onD)
  ultimately show False using assms(3) by auto
qed

lemma seal_keeps_other:
  assumes "chain_of E db u chain" "u \<noteq> t" "distinct (map au_id (ad_rows db))"
    and "\<forall>r \<in> set linked. au_tenant r = t \<and> (\<exists>old \<in> set (ad_rows db). au_id old = au_id r \<and> au_seq old = None \<and> au_tenant old = t)"
    and "set rows' = set linked \<union> {r \<in> set (ad_rows db). au_id r \<notin> au_id ` set linked}"
  shows "chain_of E \<lparr> ad_rows = rows', ad_anchors = dset (ad_anchors db) t h \<rparr> u chain"
proof -
  have "au_id r \<notin> au_id ` set linked" if "r \<in> set (ad_rows db)" "au_tenant r = u" for r
    using kept_rows [OF assms(3) that(1) _ assms(4)] that(2) assms(2) by blast
  then have "{r \<in> set rows'. au_tenant r = u \<and> au_seq r \<noteq> None} = {r \<in> set (ad_rows db). au_tenant r = u \<and> au_seq r \<noteq> None}"
    unfolding assms(5) using assms(2,4) by blast
  then show ?thesis using assms(1,2) by (simp add: chain_of_def)
qed

lemma seal_extends:
  assumes sha: "\<And>s. ae_sha256 E s \<noteq> []" and inv: "audit_inv E db" and chain: "chain_of E db t chain"
    and rows: "unsealed_rows db t (max 1 batch) = rows" "rows \<noteq> []"
    and link: "link_rows E now (ch_seq (head_of (head_row db t))) (ch_hash (head_of (head_row db t))) rows = (linked, seq, prev)"
  shows "chain_of E (fst (seal E db t batch now)) t (chain @ linked)"
proof -
  note s = seal_rows [OF sha inv rows link]
  have "\<forall>r \<in> set rows. signed_or_not E r" using rows(1) unsealed_rows_subset inv by (auto simp: audit_inv_def)
  note spec = link_rows_spec [OF sha this link]
  have l: "chained E (end_hash GENESIS chain) (1 + int (length chain)) linked"
    "linked \<noteq> []" using spec chain_head_eq [OF inv chain] rows(2) by (auto simp: add.commute)
  have c: "chained E GENESIS 1 chain" "set chain = {r \<in> set (ad_rows db). au_tenant r = t \<and> au_seq r \<noteq> None}"
      "\<forall>r \<in> set chain. \<exists>h. au_hash r = Some h \<and> h \<noteq> []" using chain by (auto simp: chain_of_def)
  have d: "distinct (map au_id (ad_rows db))" using inv by (simp add: audit_inv_def)
  have "au_id r \<notin> au_id ` set linked" if "r \<in> set chain" for r
    using kept_rows [OF d _ _ s(4)] that c(2) by blast
  moreover have "au_seq r \<noteq> None" if "r \<in> set linked" for r using spec that by blast
  ultimately have rest: "set (chain @ linked) = {r \<in> set (update_rows linked (ad_rows db)). au_tenant r = t \<and> au_seq r \<noteq> None}"
    unfolding s(3) set_append using s(4) c(2) by blast
  have lin: "chained E GENESIS 1 (chain @ linked)" unfolding chained_append using c(1) l(1) by simp
  obtain h where h: "au_hash (last linked) = Some h" "h \<noteq> []" "au_sealed_at (last linked) = Some now"
    using spec last_in_set [OF l(2)] by blast
  have lens: "length linked = length rows" using spec by (metis length_map)
  have "the (au_seq (last linked)) = seq"
    using chained_seq_nth [OF l(1), of "length linked - 1"] l(2) spec chain_head_eq(1) [OF inv chain] lens rows(2)
    by (simp add: last_conv_nth of_nat_diff Suc_leI)
  moreover have "prev = h" using spec h(1) l(2) by (simp add: end_hash_def str_hash_def)
  ultimately have "head_of (Some (last linked)) = \<lparr> ch_seq = seq, ch_hash = prev, ch_sealed_at = Some now \<rparr>"
    using h by (simp add: head_of_def text_or_empty_def)
  moreover have "\<forall>r \<in> set (chain @ linked). \<exists>h. au_hash r = Some h \<and> h \<noteq> []" using c(3) spec by auto
  ultimately show ?thesis unfolding chain_of_def s(1,2) using rest lin l(2) by simp
qed

lemma seal_keeps_inv:
  assumes sha: "\<And>s. ae_sha256 E s \<noteq> []" and inv: "audit_inv E db"
  shows "audit_inv E (fst (seal E db t batch now))"
proof (cases "unsealed_rows db t (max 1 batch) = []")
  case True
  then have "fst (seal E db t batch now) = db" by (simp add: seal_def Let_def split: prod.splits)
  then show ?thesis using inv by simp
next
  case False
  obtain linked seq prev where link: "link_rows E now (ch_seq (head_of (head_row db t))) (ch_hash (head_of (head_row db t)))
      (unsealed_rows db t (max 1 batch)) = (linked, seq, prev)" by (metis prod.exhaust)
  note s = seal_rows [OF sha inv refl False link]
  have "\<forall>r \<in> set (unsealed_rows db t (max 1 batch)). signed_or_not E r" using unsealed_rows_subset inv by (auto simp: audit_inv_def)
  note spec = link_rows_spec [OF sha this link]
  let ?db = "fst (seal E db t batch now)"
  have d: "distinct (map au_id (ad_rows db))" using inv by (simp add: audit_inv_def)
  have db: "?db = \<lparr> ad_rows = update_rows linked (ad_rows db), ad_anchors = dset (ad_anchors db) t \<lparr> ch_seq = seq, ch_hash = prev, ch_sealed_at = Some now \<rparr> \<rparr>"
    using s(1,2) by (intro audit_db.equality) simp_all
  have "\<exists>chain. chain_of E ?db u chain" for u
  proof -
    obtain chain where chain: "chain_of E db u chain" using inv by (auto simp: audit_inv_def)
    show ?thesis
    proof (cases "u = t")
      case True
      then show ?thesis using seal_extends [OF sha inv _ refl False link] chain by blast
    next
      case False
      then show ?thesis unfolding db using seal_keeps_other [OF chain _ d s(4,3)] by blast
    qed
  qed
  moreover have "signed_or_not E r \<and> (au_seq r = None \<longrightarrow> unlinked r)" if "r \<in> set (ad_rows ?db)" for r
    using that spec inv unfolding s(1,3) audit_inv_def by blast
  ultimately show ?thesis using d unfolding audit_inv_def s(1) update_rows_ids by blast
qed

lemma log_keeps_inv:
  assumes inv: "audit_inv E db" and new: "au_id row' \<notin> au_id ` set (ad_rows db)" "unlinked row'" "signed_or_not E row'"
  shows "audit_inv E (db\<lparr> ad_rows := ad_rows db @ [row'] \<rparr>)"
proof -
  have "chain_of E (db\<lparr> ad_rows := ad_rows db @ [row'] \<rparr>) t chain" if "chain_of E db t chain" for t chain
    using that new(2) by (auto simp: chain_of_def unlinked_def)
  then show ?thesis using inv new unfolding audit_inv_def by fastforce
qed

lemma reachable_inv:
  assumes "\<And>s. ae_sha256 E s \<noteq> []" "audit_reachable E db"
  shows "audit_inv E db"
  using assms(2)
proof (induction rule: audit_reachable.induct)
  case starts
  then show ?case by (auto simp: audit_inv_def chain_of_def)
next
  case (logs db row row')
  have "sign_audit_record E (row\<lparr> au_signature := x \<rparr>) = sign_audit_record E row" for x
    by (simp add: sign_audit_record_def canonical_audit_payload_def signed_columns_def)
  then have "au_id row' = au_id row" "unlinked row'" "signed_or_not E row'"
    using logs by (auto simp: build_signed_audit_entry_def unlinked_def signed_or_not_def verify_audit_row_def text_or_empty_def)
  then show ?case using logs by (intro log_keeps_inv) auto
next
  case (seals db tenant batch now)
  then show ?case using seal_keeps_inv [OF assms(1)] by blast
qed

section \<open>Anchors and tampering\<close>

lemma sealed_from:
  assumes "audit_inv E db" "chain_of E db t chain" "n \<le> length chain"
  shows "sealed_in db t (1 + int n) = drop n chain"
proof -
  note r = chain_rows [OF assms(1,2)]
  have "chained E GENESIS 1 (take n chain @ drop n chain)" using assms(2) by (simp add: chain_of_def)
  then have "chained E GENESIS 1 (take n (sealed_in db t 1))" unfolding chained_append r(1) by blast
  from sealed_in_drop [OF r(2) this] show ?thesis using assms(3) r(1) by simp
qed

lemma own_anchor_holds:
  assumes "audit_inv E db" "chain_of E db t chain"
  shows "anchor_break db t (head_of (head_row db t)) (head_of (head_row db t)) = None"
proof (cases chain rule: rev_cases)
  case Nil
  then show ?thesis using chain_head_eq(1) [OF assms] by (simp add: anchor_break_def)
next
  case (snoc xs x)
  have "sealed_in db t (ch_seq (head_of (head_row db t))) = [x]"
    using sealed_from [OF assms, of "length xs"] chain_head_eq(1) [OF assms] snoc by simp
  moreover have "x \<in> set chain" using snoc by simp
  then obtain h where "au_hash x = Some h" "au_seq x \<noteq> None" using assms(2) unfolding chain_of_def by blast
  moreover have "the (au_seq x) = 1 + int (length xs)"
    using chained_seq_nth [of E GENESIS 1 chain "length xs"] assms(2) snoc by (simp add: chain_of_def)
  ultimately show ?thesis
    using chain_head_eq [OF assms] snoc by (auto simp: anchor_break_def sealed_rows_def end_hash_def str_hash_def text_or_empty_def)
qed

text \<open>The links a database needs distinct hashes for.\<close>

definition link_materials :: "audit_env \<Rightarrow> audit_db \<Rightarrow> string \<Rightarrow> string set" where
  "link_materials E db t = (\<lambda>r. link_material E (text_or_empty (au_prev r)) r) ` set (sealed_in db t 1)"

definition content :: "audit_env \<Rightarrow> audit_row \<Rightarrow> string \<times> string" where
  "content E r = (canonical_audit_payload E r, text_or_empty (au_signature r))"

lemma prefix_free_split:
  assumes "a @ c # x = b @ c # y" "prefix a b \<Longrightarrow> a = b" "prefix b a \<Longrightarrow> a = b"
  shows "a = b \<and> x = y"
proof -
  have "prefix a b \<or> prefix b a" using assms(1) by (metis append_eq_append_conv2 prefixI)
  then have "a = b" using assms(2,3) by blast
  then show ?thesis using assms(1) by simp
qed

lemma link_material_inj:
  assumes "link_material E p r = link_material E q s" "length p = length q"
    and json: "\<And>d e. prefix (ae_dumps E (VDict d)) (ae_dumps E (VDict e)) \<Longrightarrow> ae_dumps E (VDict d) = ae_dumps E (VDict e)"
  shows "p = q \<and> content E r = content E s"
proof -
  have "p = q \<and> canonical_audit_payload E r @ CHR ''|'' # text_or_empty (au_signature r)
      = canonical_audit_payload E s @ CHR ''|'' # text_or_empty (au_signature s)"
    using assms(1,2) by (simp add: link_material_def)
  then show ?thesis
    using prefix_free_split [of "canonical_audit_payload E r" "CHR ''|''" _ "canonical_audit_payload E s"] json
    by (metis canonical_audit_payload_def content_def)
qed

lemma checked_hash:
  assumes "check_row E r e p = None" "\<And>s. length (ae_sha256 E s) = 64"
  shows "au_hash r = Some (link_hash E p r)" "text_or_empty (au_prev r) = p"
  using assms(2) [of "link_material E p r"] assms(1)
  by (auto simp: check_row_def link_hash_def text_or_empty_def split: if_splits option.splits)

lemma end_hash_length:
  assumes "chained E GENESIS e rs" "\<And>s. length (ae_sha256 E s) = 64"
  shows "length (end_hash GENESIS rs) = 64"
proof (cases rs rule: rev_cases)
  case (snoc xs x)
  then have "au_hash x = Some (link_hash E (end_hash GENESIS xs) x)"
    using assms checked_hash(1) by (auto simp: chained_append)
  then show ?thesis using snoc assms(2) by (simp add: end_hash_def str_hash_def link_hash_def)
qed (simp add: end_hash_def GENESIS_def)

text \<open>Two chains of the same length with the same last link hold the same rows.\<close>

lemma chains_agree:
  assumes "chained E GENESIS 1 xs" "chained E GENESIS 1 ys" "length xs = length ys" "end_hash GENESIS xs = end_hash GENESIS ys"
    and sha: "\<And>s. length (ae_sha256 E s) = 64"
    and json: "\<And>d e. prefix (ae_dumps E (VDict d)) (ae_dumps E (VDict e)) \<Longrightarrow> ae_dumps E (VDict d) = ae_dumps E (VDict e)"
    and inj: "inj_on (ae_sha256 E) ((\<lambda>r. link_material E (text_or_empty (au_prev r)) r) ` (set xs \<union> set ys))"
  shows "map (content E) xs = map (content E) ys"
  using assms(1-4) inj
proof (induction xs arbitrary: ys rule: rev_induct)
  case (snoc x xs)
  obtain zs y where ys: "ys = zs @ [y]" using snoc.prems(3) by (cases ys rule: rev_cases) auto
  let ?p = "end_hash GENESIS xs" and ?q = "end_hash GENESIS zs"
  have c: "chained E GENESIS 1 xs" "chained E GENESIS 1 zs" "check_row E x (1 + int (length xs)) ?p = None"
      "check_row E y (1 + int (length zs)) ?q = None"
    using snoc.prems(1,2) ys by (auto simp: chained_append)
  note hx = checked_hash [OF c(3) sha] and hy = checked_hash [OF c(4) sha]
  have "ae_sha256 E (link_material E ?p x) = ae_sha256 E (link_material E ?q y)"
    using snoc.prems(4) ys hx hy by (simp add: end_hash_def str_hash_def link_hash_def)
  moreover have "link_material E ?p x \<in> (\<lambda>r. link_material E (text_or_empty (au_prev r)) r) ` (set (xs @ [x]) \<union> set ys)"
    using hx(2) by (intro image_eqI [of _ _ x]) simp_all
  moreover have "link_material E ?q y \<in> (\<lambda>r. link_material E (text_or_empty (au_prev r)) r) ` (set (xs @ [x]) \<union> set ys)"
    using hy(2) ys by (intro image_eqI [of _ _ y]) simp_all
  ultimately have "link_material E ?p x = link_material E ?q y" by (rule inj_onD [OF snoc.prems(5)])
  then have "?p = ?q \<and> content E x = content E y"
    using end_hash_length [OF c(1) sha] end_hash_length [OF c(2) sha] json by (intro link_material_inj) simp_all
  moreover have "inj_on (ae_sha256 E) ((\<lambda>r. link_material E (text_or_empty (au_prev r)) r) ` (set xs \<union> set zs))"
    using snoc.prems(5) by (rule inj_on_subset) (auto simp: ys)
  ultimately show ?case using snoc.IH [OF c(1,2)] snoc.prems(3) ys by simp
qed simp

lemma chained_upto:
  assumes "chained E p 1 xs"
  shows "filter (\<lambda>r. the (au_seq r) \<le> int n) xs = take n xs"
proof -
  have "filter (\<lambda>r. the (au_seq r) \<le> int n) (take n xs) = take n xs" "filter (\<lambda>r. the (au_seq r) \<le> int n) (drop n xs) = []"
    using chained_seq_nth [OF assms] by (auto simp: filter_id_conv filter_empty_conv in_set_conv_nth)
  then have "filter (\<lambda>r. the (au_seq r) \<le> int n) (take n xs @ drop n xs) = take n xs" unfolding filter_append by simp
  then show ?thesis by simp
qed

lemma verified_links:
  assumes "unique_links db t" "0 < ch_seq h" "vf_break (verify E db t 1 None (Some h)) = None"
  shows "chained E GENESIS 1 (sealed_in db t 1)
    \<and> (\<exists>row \<in> set (sealed_in db t 1). au_seq row = Some (ch_seq h) \<and> text_or_empty (au_hash row) = ch_hash h)"
proof -
  let ?head = "head_of (head_row db t)"
  have found: "find (\<lambda>b. b \<noteq> None) (map (\<lambda>a. Option.bind a (anchor_break db t ?head)) [dget (ad_anchors db) t, Some h]) = None"
  proof (rule ccontr)
    assume "\<not> ?thesis"
    then obtain b where "find (\<lambda>b. b \<noteq> None) (map (\<lambda>a. Option.bind a (anchor_break db t ?head)) [dget (ad_anchors db) t, Some h]) = Some b" "b \<noteq> None"
      by (auto split: if_splits)
    then show False using assms(3) by (simp add: verify_def Let_def)
  qed
  then have anchor: "anchor_break db t ?head h = None" by (auto split: if_splits)
  then have "ch_seq ?head \<noteq> 0" using assms(2) by (auto simp: anchor_break_def split: if_splits)
  then have "chained E GENESIS 1 (sealed_in db t 1)"
    using assms(3) found by (intro walk_checks_all [OF assms(1)]) (simp add: verify_def Let_def)
  moreover obtain row rest where row: "sealed_rows db t (ch_seq h) 1 = row # rest" "au_seq row = Some (ch_seq h)" "text_or_empty (au_hash row) = ch_hash h"
    using anchor assms(2) by (auto simp: anchor_break_def split: if_splits list.splits)
  have "row \<in> set (sealed_in db t (ch_seq h))" using row(1) unfolding sealed_rows_def by (metis in_set_takeD list.set_intros(1))
  then have "row \<in> set (sealed_in db t 1)" using sealed_in_later [of 1 "ch_seq h" db t] assms(2) by simp
  ultimately show ?thesis using row by blast
qed

section \<open>Properties\<close>

text \<open>C33: whatever was logged and sealed verifies: from any sequence number the chain has, with any limit and against
  its own head, no break is reported, and without a limit every link from there on is counted as verified.\<close>
theorem sealed_chain_verifies:
  assumes "\<And>s. ae_sha256 E s \<noteq> []" "audit_reachable E db"
    and "from_seq \<le> ch_seq (head_of (head_row db t)) + 1" "expected \<in> {None, Some (head_of (head_row db t))}"
  shows "vf_break (verify E db t from_seq limit expected) = None
    \<and> (limit = None \<longrightarrow> int (vf_verified (verify E db t from_seq limit expected)) = ch_seq (head_of (head_row db t)) - max 1 from_seq + 1)"
proof -
  have inv: "audit_inv E db" by (rule reachable_inv [OF assms(1,2)])
  then obtain chain where chain: "chain_of E db t chain" by (auto simp: audit_inv_def)
  let ?head = "head_of (head_row db t)"
  note h = chain_head_eq [OF inv chain] own_anchor_holds [OF inv chain]
  have "dget (ad_anchors db) t \<in> {None, Some ?head}"
    using chain chain_rows(3) [OF inv chain] by (simp add: chain_of_def)
  then have anchored: "find (\<lambda>b. b \<noteq> None) (map (\<lambda>a. Option.bind a (anchor_break db t ?head)) [dget (ad_anchors db) t, expected]) = None"
    using assms(4) h(3) by auto
  define n where "n = nat (max 1 from_seq - 1)"
  have n: "max 1 from_seq = 1 + int n" "n \<le> length chain" using assms(3) h(1) by (simp_all add: n_def)
  have split: "chained E (end_hash GENESIS (take n chain)) (1 + int n) (drop n chain)"
    using chain n(2) chained_append [of E GENESIS 1 "take n chain" "drop n chain"] by (auto simp: chain_of_def)
  have walk: "vf_break (walk E db t limit (1 + int n) (end_hash GENESIS (take n chain)) v) = None
      \<and> (limit = None \<longrightarrow> vf_verified (walk E db t limit (1 + int n) (end_hash GENESIS (take n chain)) v) = length chain - n)"
    if "vf_break v = None" "vf_verified v = 0" for v
    using walk_accepts [OF chain_rows(2) [OF inv chain], of E "end_hash GENESIS (take n chain)" "1 + int n" v limit]
      split sealed_from [OF inv chain n(2)] that by simp
  show ?thesis
  proof (cases n)
    case 0
    then show ?thesis using walk anchored h(1) n by (auto simp: verify_def Let_def end_hash_def)
  next
    case (Suc m)
    then have m: "sealed_in db t (1 + int m) = chain ! m # drop n chain"
      using sealed_from [OF inv chain, of m] n(2) by (simp add: Cons_nth_drop_Suc)
    have "chain ! m \<in> set chain" using n(2) Suc by simp
    then obtain hash where hash: "au_hash (chain ! m) = Some hash" "au_seq (chain ! m) \<noteq> None"
      using chain unfolding chain_of_def by blast
    have "the (au_seq (chain ! m)) = 1 + int m" using chain n(2) Suc chained_seq_nth [of E GENESIS 1 chain m] by (simp add: chain_of_def)
    then have seq: "au_seq (chain ! m) = Some (1 + int m)" using hash(2) by auto
    have "end_hash GENESIS (take n chain) = hash"
      using Suc n(2) hash(1) by (simp add: end_hash_def take_Suc_conv_app_nth str_hash_def)
    then show ?thesis using walk anchored h(1) n m seq hash(1) Suc
      by (auto simp: verify_def Let_def sealed_rows_def text_or_empty_def)
  qed
qed

text \<open>C12: tampering is detected: when a verification against a head taken from the sealing log reports no break, the rows
  up to that head are, in order, exactly those that were sealed, with the same signed columns and signatures,
  whatever else was done to the database. This needs that no two of the links involved collide under SHA-256.\<close>
theorem verified_chain_is_the_sealed_one:
  assumes "\<And>s. length (ae_sha256 E s) = 64"
    and "\<And>d e. prefix (ae_dumps E (VDict d)) (ae_dumps E (VDict e)) \<Longrightarrow> ae_dumps E (VDict d) = ae_dumps E (VDict e)"
    and "audit_reachable E sealed" "unique_links db t"
    and "inj_on (ae_sha256 E) (link_materials E db t \<union> link_materials E sealed t)"
    and "vf_break (verify E db t 1 None (Some (head_of (head_row sealed t)))) = None"
  shows "map (\<lambda>r. (canonical_audit_payload E r, text_or_empty (au_signature r)))
        (filter (\<lambda>r. the (au_seq r) \<le> ch_seq (head_of (head_row sealed t))) (sealed_in db t 1))
    = map (\<lambda>r. (canonical_audit_payload E r, text_or_empty (au_signature r))) (sealed_in sealed t 1)"
proof -
  have inv: "audit_inv E sealed" using assms(1) by (intro reachable_inv [OF _ assms(3)]) (metis list.size(3) zero_neq_numeral)
  then obtain chain where chain: "chain_of E sealed t chain" by (auto simp: audit_inv_def)
  note h = chain_head_eq [OF inv chain] chain_rows(1) [OF inv chain]
  have c: "chained E GENESIS 1 chain" using chain by (simp add: chain_of_def)
  let ?n = "length chain" and ?xs = "sealed_in db t 1"
  have "map (content E) (filter (\<lambda>r. the (au_seq r) \<le> int ?n) ?xs) = map (content E) chain"
  proof (cases "chain = []")
    case True
    have "1 \<le> the (au_seq r)" if "r \<in> set ?xs" for r using sealed_in_seqs [OF that] by simp
    then show ?thesis using True by (force simp: filter_empty_conv)
  next
    case False
    then have "0 < ch_seq (head_of (head_row sealed t))" using h(1) by simp
    from verified_links [OF assms(4) this assms(6)] obtain row where
      v: "chained E GENESIS 1 ?xs" "row \<in> set ?xs" "au_seq row = Some (int ?n)" "text_or_empty (au_hash row) = end_hash GENESIS chain"
      using h by auto
    obtain i where i: "i < length ?xs" "?xs ! i = row" using v(2) by (metis in_set_conv_nth)
    then have n: "?n = Suc i" using chained_seq_nth [OF v(1) i(1)] v(3) by simp
    have pre: "chained E GENESIS 1 (take ?n ?xs)"
      using v(1) chained_append [of E GENESIS 1 "take ?n ?xs" "drop ?n ?xs"] by simp
    have "take ?n ?xs = take i ?xs @ [row]" using i n by (simp add: take_Suc_conv_app_nth)
    then have "check_row E row (1 + int (length (take i ?xs))) (end_hash GENESIS (take i ?xs)) = None"
      using pre by (simp add: chained_append)
    then have "end_hash GENESIS (take ?n ?xs) = end_hash GENESIS chain"
      using checked_hash(1) [OF _ assms(1)] v(4) \<open>take ?n ?xs = take i ?xs @ [row]\<close> by (simp add: end_hash_def str_hash_def text_or_empty_def)
    moreover have "inj_on (ae_sha256 E) ((\<lambda>r. link_material E (text_or_empty (au_prev r)) r) ` (set (take ?n ?xs) \<union> set chain))"
      using assms(5) by (rule inj_on_subset) (use h(3) in \<open>auto simp: link_materials_def dest: in_set_takeD\<close>)
    ultimately have "map (content E) (take ?n ?xs) = map (content E) chain"
      using i(1) n by (intro chains_agree [OF pre c _ _ assms(1,2)]) simp_all
    then show ?thesis unfolding chained_upto [OF v(1)] .
  qed
  moreover have "content E = (\<lambda>r. (canonical_audit_payload E r, text_or_empty (au_signature r)))" by (simp add: content_def fun_eq_iff)
  ultimately show ?thesis unfolding h(1,3) by simp
qed

section \<open>A worked chain\<close>

fun action_length :: "pv \<Rightarrow> nat" where
  "action_length (VDict d) = (case vget d ''action'' of VStr s \<Rightarrow> length s | _ \<Rightarrow> 0)"
| "action_length _ = 0"

definition sample_audit_env :: audit_env where
  "sample_audit_env = \<lparr> ae_sha256 = (\<lambda>s. take 64 (rev s @ replicate 64 (CHR ''0''))), ae_hmac = (\<lambda>s. ''mac'' @ s),
     ae_dumps = (\<lambda>v. replicate (action_length v) (CHR ''x'') @ ''}''),
     ae_isoformat = (\<lambda>n. []) \<rparr>"

definition sample_audit_row :: "string \<Rightarrow> string \<Rightarrow> audit_row" where
  "sample_audit_row i action = \<lparr> au_id = i, au_tenant = ''t1'', au_company = None, au_event_type = ''case.decided'', au_actor_type = ''user'',
     au_actor = ''u1'', au_agent = None, au_workflow_run = None, au_resource_type = None, au_resource = None, au_action = action,
     au_outcome = ''ok'', au_details = VDict [], au_trace = None, au_created_at = 0, au_signature = None, au_seq = None, au_prev = None,
     au_hash = None, au_sealed_at = None \<rparr>"

definition logged :: "audit_db \<Rightarrow> string \<Rightarrow> string \<Rightarrow> audit_db" where
  "logged db i action = db\<lparr> ad_rows := ad_rows db @ [build_signed_audit_entry sample_audit_env (sample_audit_row i action)] \<rparr>"

definition sealed_twice :: audit_db where
  "sealed_twice = fst (seal sample_audit_env (logged (logged \<lparr> ad_rows = [], ad_anchors = [] \<rparr> ''r1'' ''a'') ''r2'' ''bb'') ''t1'' 5 7)"

definition sealed_thrice :: audit_db where
  "sealed_thrice = fst (seal sample_audit_env (logged sealed_twice ''r3'' ''ccc'') ''t1'' 5 9)"

lemma logged_reachable:
  "audit_reachable sample_audit_env db \<Longrightarrow> i \<notin> au_id ` set (ad_rows db) \<Longrightarrow> audit_reachable sample_audit_env (logged db i action)"
  unfolding logged_def by (rule audit_reachable.logs [of _ _ "sample_audit_row i action"]) (auto simp: sample_audit_row_def unlinked_def)

lemma sealed_twice_reachable: "audit_reachable sample_audit_env sealed_twice"
proof -
  have "''r2'' \<notin> au_id ` set (ad_rows (logged \<lparr> ad_rows = [], ad_anchors = [] \<rparr> ''r1'' ''a''))" by code_simp
  then show ?thesis unfolding sealed_twice_def
    by (intro audit_reachable.seals logged_reachable audit_reachable.starts) simp_all
qed

lemma sample_sha_length: "length (ae_sha256 sample_audit_env s) = 64"
  by (simp add: sample_audit_env_def)

lemma sample_sha_nonempty: "ae_sha256 sample_audit_env s \<noteq> []"
  using sample_sha_length [of s] by auto

theorem sealed_chain_verifies_witness:
  "vf_break (verify sample_audit_env sealed_twice ''t1'' 2 None None) = None
   \<and> int (vf_verified (verify sample_audit_env sealed_twice ''t1'' 2 None None)) = 1"
proof -
  have head: "ch_seq (head_of (head_row sealed_twice ''t1'')) = 2" by code_simp
  then have "(2 :: int) \<le> ch_seq (head_of (head_row sealed_twice ''t1'')) + 1" by simp
  from sealed_chain_verifies [OF sample_sha_nonempty sealed_twice_reachable this, of None None] head show ?thesis by simp
qed

theorem verified_chain_is_the_sealed_one_witness:
  "map (\<lambda>r. (canonical_audit_payload sample_audit_env r, text_or_empty (au_signature r)))
       (filter (\<lambda>r. the (au_seq r) \<le> ch_seq (head_of (head_row sealed_twice ''t1''))) (sealed_in sealed_thrice ''t1'' 1))
   = map (\<lambda>r. (canonical_audit_payload sample_audit_env r, text_or_empty (au_signature r))) (sealed_in sealed_twice ''t1'' 1)
   \<and> length (sealed_in sealed_thrice ''t1'' 1) = 3 \<and> length (sealed_in sealed_twice ''t1'' 1) = 2"
proof -
  let ?E = sample_audit_env and ?ms = "map (\<lambda>r. link_material sample_audit_env (text_or_empty (au_prev r)) r) (sealed_in sealed_thrice ''t1'' 1)"
  have json: "ae_dumps ?E (VDict d) = ae_dumps ?E (VDict e)" if "prefix (ae_dumps ?E (VDict d)) (ae_dumps ?E (VDict e))" for d e
  proof -
    have "m = n" if "prefix (replicate m (CHR ''x'') @ ''}'') (replicate n (CHR ''x'') @ ''}'')" for m n
      using that
    proof (induction m arbitrary: n)
      case 0
      then show ?case by (cases n) simp_all
    next
      case (Suc m)
      obtain k where k: "n = Suc k" using Suc.prems by (cases n) simp_all
      then have "m = k" using Suc.prems by (intro Suc.IH) simp
      then show ?case using k by simp
    qed
    from this [of "action_length (VDict d)" "action_length (VDict e)"] that show ?thesis
      by (simp add: sample_audit_env_def del: action_length.simps)
  qed
  have "link_materials ?E sealed_thrice ''t1'' \<union> link_materials ?E sealed_twice ''t1'' = set ?ms" "distinct (map (ae_sha256 ?E) ?ms)"
    by code_simp+
  then have inj: "inj_on (ae_sha256 ?E) (link_materials ?E sealed_thrice ''t1'' \<union> link_materials ?E sealed_twice ''t1'')"
    unfolding distinct_map by simp
  have "unique_links sealed_thrice ''t1''" by code_simp
  moreover have "vf_break (verify ?E sealed_thrice ''t1'' 1 None (Some (head_of (head_row sealed_twice ''t1'')))) = None" by code_simp
  moreover have "length (sealed_in sealed_thrice ''t1'' 1) = 3" "length (sealed_in sealed_twice ''t1'' 1) = 2" by code_simp+
  ultimately show ?thesis
    using verified_chain_is_the_sealed_one [OF sample_sha_length json sealed_twice_reachable _ inj] by blast
qed

end
