(* ===== verification/Feature_Flags.thy ===== *)
theory Feature_Flags
  imports Prelude
begin

text \<open>
  Runtime environments (\<open>core/config.py\<close>) and feature flags (\<open>core/feature_flags.py\<close>): the rows of a
  flag, the percentage rollout, the in-process cache and the strict reader of the authority flags.
  Times are seconds on the monotonic clock. SHA-256 is the parameter \<open>sha256\<close>, text to bytes.
\<close>

section \<open>Runtime environments\<close>

definition RELAXED_ENVS :: "string list" where
  "RELAXED_ENVS = [''local'', ''dev'', ''development'', ''test'', ''ci'']"

definition normalize_env :: "string option \<Rightarrow> string" where
  "normalize_env env = lower (strip (case env of None \<Rightarrow> [] | Some s \<Rightarrow> s))"

definition is_relaxed_env :: "string option \<Rightarrow> bool" where
  "is_relaxed_env env \<longleftrightarrow> normalize_env env \<in> set RELAXED_ENVS"

definition is_strict_runtime_env :: "string option \<Rightarrow> bool" where
  "is_strict_runtime_env env \<longleftrightarrow> \<not> is_relaxed_env env"

section \<open>Rows and rollout\<close>

record flag_row =
  fr_enabled :: bool
  fr_rollout :: int

text \<open>\<open>feature_flags\<close>: rows by tenant (\<open>None\<close> the global ones) and key; a store that cannot be read is \<open>None\<close>.\<close>

type_synonym flag_table = "((string option \<times> string) \<times> flag_row) list"
type_synonym flag_store = "flag_table option"

datatype flag_error = FeatureFlagLookupError string

type_synonym sha256_digest = "string \<Rightarrow> nat list"

definition from_bytes_big :: "nat list \<Rightarrow> nat" where
  "from_bytes_big bs = foldl (\<lambda>n b. 256 * n + b) 0 bs"

definition bucket :: "sha256_digest \<Rightarrow> string \<Rightarrow> string \<Rightarrow> nat" where
  "bucket sha256 flag_key subject_id =
     from_bytes_big (take 4 (sha256 (flag_key @ '':'' @ subject_id))) mod 100"

definition text_or :: "string \<Rightarrow> string \<Rightarrow> string" where
  "text_or s t = (if s = [] then t else s)"

definition row_enabled :: "sha256_digest \<Rightarrow> string \<Rightarrow> flag_row option \<Rightarrow> string \<Rightarrow> bool" where
  "row_enabled sha256 flag_key row subject_id =
     (case row of None \<Rightarrow> False | Some r \<Rightarrow>
        if \<not> fr_enabled r then False
        else if fr_rollout r \<ge> 100 then True
        else if fr_rollout r \<le> 0 then False
        else int (bucket sha256 flag_key (text_or subject_id ''__anon__'')) < fr_rollout r)"

definition evaluate_row ::
    "sha256_digest \<Rightarrow> flag_row option \<Rightarrow> string \<Rightarrow> string option \<Rightarrow> string option \<Rightarrow> bool \<Rightarrow> bool" where
  "evaluate_row sha256 row flag_key tenant_id user_id dflt =
     (case row of None \<Rightarrow> dflt | Some r \<Rightarrow>
        if \<not> fr_enabled r then False
        else if fr_rollout r \<ge> 100 then True
        else if fr_rollout r \<le> 0 then False
        else (let subject = (case user_id of Some u \<Rightarrow> u | None \<Rightarrow> (case tenant_id of Some t \<Rightarrow> t | None \<Rightarrow> []))
              in int (bucket sha256 flag_key (text_or subject ''__anon__'')) < fr_rollout r))"

section \<open>Reading the store\<close>

text \<open>\<open>scalar_one_or_none\<close> raises when more than one row matches.\<close>

definition select_flag :: "flag_store \<Rightarrow> string option \<Rightarrow> string \<Rightarrow> (flag_error, flag_row option) res" where
  "select_flag store tenant_id flag_key =
     (case store of None \<Rightarrow> Inl (FeatureFlagLookupError flag_key) | Some table \<Rightarrow>
        (case filter (\<lambda>r. fst r = (tenant_id, flag_key)) table of
           [] \<Rightarrow> Inr None
         | [r] \<Rightarrow> Inr (Some (snd r))
         | _ \<Rightarrow> Inl (FeatureFlagLookupError flag_key)))"

definition query_flag :: "flag_store \<Rightarrow> string option \<Rightarrow> string \<Rightarrow> (flag_error, flag_row option) res" where
  "query_flag store tenant_id flag_key =
     rbind (if tenant_id = None then Inr None else select_flag store tenant_id flag_key)
       (\<lambda>row. if row = None then select_flag store None flag_key else Inr row)"

section \<open>The cache\<close>

text \<open>What is cached under a key: a row or its absence, a failed lookup, or the two rows of a strict read.\<close>

datatype cached = CRow "flag_row option" | CFailed | CRows "flag_row option" "flag_row option"

type_synonym flag_cache = "((string \<times> string) \<times> cached \<times> rat) list"

definition CACHE_TTL_SECONDS :: rat where "CACHE_TTL_SECONDS = 30"
definition CACHE_MAX_SIZE :: nat where "CACHE_MAX_SIZE = 2048"

fun cache_put :: "flag_cache \<Rightarrow> string \<times> string \<Rightarrow> cached \<times> rat \<Rightarrow> flag_cache" where
  "cache_put [] k v = [(k, v)]"
| "cache_put ((k', v') # c) k v = (if k' = k then (k, v) # c else (k', v') # cache_put c k v)"

definition cache_get :: "flag_cache \<Rightarrow> string \<times> string \<Rightarrow> (cached \<times> rat) option" where
  "cache_get c k = map_of c k"

definition cache_pop :: "flag_cache \<Rightarrow> string \<times> string \<Rightarrow> flag_cache" where
  "cache_pop c k = filter (\<lambda>e. fst e \<noteq> k) c"

text \<open>The first entry, in insertion order, with the earliest expiry.\<close>

fun oldest :: "(string \<times> string) \<times> cached \<times> rat \<Rightarrow> flag_cache \<Rightarrow> (string \<times> string) \<times> cached \<times> rat" where
  "oldest e [] = e"
| "oldest e (f # c) = oldest (if snd (snd f) < snd (snd e) then f else e) c"

lemma oldest_mem: "oldest e c \<in> set (e # c)"
  by (induction e c rule: oldest.induct) (auto split: if_splits)

function make_room :: "flag_cache \<Rightarrow> flag_cache" where
  "make_room c = (if CACHE_MAX_SIZE \<le> length c \<and> c \<noteq> [] then make_room (cache_pop c (fst (oldest (hd c) (tl c)))) else c)"
  by pat_completeness auto
termination
proof (relation "measure length")
  fix c :: flag_cache
  assume "CACHE_MAX_SIZE \<le> length c \<and> c \<noteq> []"
  then have "oldest (hd c) (tl c) \<in> set c" using oldest_mem [of "hd c" "tl c"] by simp
  then show "(cache_pop c (fst (oldest (hd c) (tl c))), c) \<in> measure length"
    by (auto simp: cache_pop_def intro: length_filter_less)
qed simp

declare make_room.simps [simp del]

definition store_cache :: "rat \<Rightarrow> flag_cache \<Rightarrow> string \<times> string \<Rightarrow> cached \<Rightarrow> rat \<Rightarrow> flag_cache" where
  "store_cache now c cache_key row expires_at =
     (let c' = (if cache_get c cache_key = None \<and> CACHE_MAX_SIZE \<le> length c
                then make_room (filter (\<lambda>e. \<not> snd (snd e) \<le> now) c) else c)
      in cache_put c' cache_key (row, expires_at))"

section \<open>Readers\<close>

text \<open>A lookup at time \<open>now\<close> whose result is put in the cache at time \<open>later\<close>.\<close>

definition flag_subject :: "string option \<Rightarrow> string" where
  "flag_subject tenant_id = (case tenant_id of None \<Rightarrow> ''_global'' | Some t \<Rightarrow> t)"

definition load_flag ::
    "rat \<Rightarrow> rat \<Rightarrow> flag_store \<Rightarrow> flag_cache \<Rightarrow> string option \<Rightarrow> string \<Rightarrow> flag_row option \<times> flag_cache" where
  "load_flag now later store c tenant_id flag_key =
     (let key = (flag_subject tenant_id, flag_key);
          fetched = (case query_flag store tenant_id flag_key of
             Inl e \<Rightarrow> (None, store_cache later c key CFailed (now + CACHE_TTL_SECONDS))
           | Inr row \<Rightarrow> (row, store_cache later c key (CRow row) (now + CACHE_TTL_SECONDS)))
      in case cache_get c key of
           Some (v, expires) \<Rightarrow> if expires > now then ((case v of CRow row \<Rightarrow> row | _ \<Rightarrow> None), c) else fetched
         | None \<Rightarrow> fetched)"

definition is_enabled ::
    "sha256_digest \<Rightarrow> rat \<Rightarrow> rat \<Rightarrow> flag_store \<Rightarrow> flag_cache \<Rightarrow> string \<Rightarrow> string option \<Rightarrow> string option \<Rightarrow> bool \<Rightarrow> bool \<times> flag_cache" where
  "is_enabled sha256 now later store c flag_key tenant_id user_id dflt =
     (let (row, c') = load_flag now later store c tenant_id flag_key
      in (evaluate_row sha256 row flag_key tenant_id user_id dflt, c'))"

definition is_enabled_strict ::
    "sha256_digest \<Rightarrow> rat \<Rightarrow> rat \<Rightarrow> flag_store \<Rightarrow> flag_cache \<Rightarrow> string \<Rightarrow> string option \<Rightarrow> string option
     \<Rightarrow> (flag_error, bool) res \<times> flag_cache" where
  "is_enabled_strict sha256 now later store c flag_key tenant_id user_id =
     (let key = (flag_subject tenant_id, flag_key);
          answer = (\<lambda>row. Inr (evaluate_row sha256 row flag_key tenant_id user_id False));
          fetched = (case query_flag store tenant_id flag_key of
             Inl e \<Rightarrow> (Inl e, c)
           | Inr row \<Rightarrow> (answer row, store_cache later c key (CRow row) (now + CACHE_TTL_SECONDS)))
      in case cache_get c key of
           Some (CRow row, expires) \<Rightarrow> if expires > now then (answer row, c) else fetched
         | _ \<Rightarrow> fetched)"

text \<open>The two rows of an authority flag: neither hides the other, and a failed read raises.\<close>

record flag_rows =
  global_row :: "flag_row option"
  tenant_row :: "flag_row option"

definition rows_key :: "string \<Rightarrow> string \<Rightarrow> string \<times> string" where
  "rows_key tenant_id flag_key = (''rows:'' @ tenant_id, flag_key)"

definition read_rows :: "flag_store \<Rightarrow> string \<Rightarrow> string \<Rightarrow> (flag_error, flag_rows) res" where
  "read_rows store flag_key tenant_id =
     rbind (select_flag store (Some tenant_id) flag_key)
       (\<lambda>t. rbind (select_flag store None flag_key) (\<lambda>g. Inr \<lparr> global_row = g, tenant_row = t \<rparr>))"

definition fetch_rows ::
    "rat \<Rightarrow> rat \<Rightarrow> flag_store \<Rightarrow> flag_cache \<Rightarrow> string \<Rightarrow> string \<Rightarrow> (flag_error, flag_rows) res \<times> flag_cache" where
  "fetch_rows now later store c flag_key tenant_id =
     (case read_rows store flag_key tenant_id of
        Inl e \<Rightarrow> (Inl e, c)
      | Inr r \<Rightarrow> (Inr r, store_cache later c (rows_key tenant_id flag_key) (CRows (global_row r) (tenant_row r))
                    (now + CACHE_TTL_SECONDS)))"

definition load_flag_rows_strict ::
    "rat \<Rightarrow> rat \<Rightarrow> flag_store \<Rightarrow> flag_cache \<Rightarrow> string \<Rightarrow> string \<Rightarrow> (flag_error, flag_rows) res \<times> flag_cache" where
  "load_flag_rows_strict now later store c flag_key tenant_id =
     (case cache_get c (rows_key tenant_id flag_key) of
        Some (CRows g t, expires) \<Rightarrow>
          if expires > now then (Inr \<lparr> global_row = g, tenant_row = t \<rparr>, c)
          else fetch_rows now later store c flag_key tenant_id
      | _ \<Rightarrow> fetch_rows now later store c flag_key tenant_id)"

definition authority_flag :: "sha256_digest \<Rightarrow> string \<Rightarrow> flag_rows \<Rightarrow> string \<Rightarrow> bool" where
  "authority_flag sha256 flag_key rows subject \<longleftrightarrow>
     row_enabled sha256 flag_key (global_row rows) subject \<or> row_enabled sha256 flag_key (tenant_row rows) subject"

section \<open>Reserved keys\<close>

definition RESERVED_FLAG_KEYS :: "string list" where
  "RESERVED_FLAG_KEYS =
     [''grants.enforce_closed'', ''pseudonymisation.pre_model'', ''approvals.resume_agent_runs'',
      ''approvals.unevaluable_condition'', ''decisions.required'', ''caps.enforce'', ''operator_override.enabled'',
      ''residency.enforce'', ''model_gateway.enabled'', ''guardrails.enforce'']"

definition is_reserved_flag_key :: "string \<Rightarrow> bool" where
  "is_reserved_flag_key flag_key =
     (let key = lower (strip flag_key)
      in list_ex (\<lambda>reserved. key = reserved \<or> prefix (reserved @ ''.'') key) RESERVED_FLAG_KEYS)"

section \<open>The cache stays bounded and fresh\<close>

lemma cache_put_keys: "fst ` set (cache_put c k v) = insert k (fst ` set c)"
  by (induction c k v rule: cache_put.induct) auto

lemma cache_put_distinct: "distinct (map fst c) \<Longrightarrow> distinct (map fst (cache_put c k v))"
  by (induction c k v rule: cache_put.induct) (auto simp: cache_put_keys)

lemma cache_put_get: "cache_get (cache_put c k v) k' = (if k' = k then Some v else cache_get c k')"
  by (induction c k v rule: cache_put.induct) (auto simp: cache_get_def)

lemma cache_put_length: "length (cache_put c k v) = (if cache_get c k = None then length c + 1 else length c)"
  by (induction c k v rule: cache_put.induct) (auto simp: cache_get_def)

lemma make_room_bounded: "length (make_room c) < CACHE_MAX_SIZE"
proof (induction c rule: make_room.induct)
  case (1 c)
  show ?case
  proof (cases "CACHE_MAX_SIZE \<le> length c \<and> c \<noteq> []")
    case True
    then show ?thesis using 1 by (subst make_room.simps) simp
  next
    case False
    then show ?thesis by (subst make_room.simps) (auto simp: CACHE_MAX_SIZE_def)
  qed
qed

lemma make_room_distinct: "distinct (map fst c) \<Longrightarrow> distinct (map fst (make_room c))"
proof (induction c rule: make_room.induct)
  case (1 c)
  then show ?case
    by (subst make_room.simps) (auto simp: cache_pop_def distinct_map_filter)
qed

lemma store_cache_bounded: "length c \<le> CACHE_MAX_SIZE \<Longrightarrow> length (store_cache now c k v e) \<le> CACHE_MAX_SIZE"
  using make_room_bounded [of "filter (\<lambda>e. \<not> snd (snd e) \<le> now) c"]
  by (auto simp: store_cache_def Let_def cache_put_length)

lemma store_cache_distinct: "distinct (map fst c) \<Longrightarrow> distinct (map fst (store_cache now c k v e))"
  by (auto simp: store_cache_def Let_def intro!: cache_put_distinct make_room_distinct distinct_map_filter)

lemma store_cache_get: "cache_get (store_cache now c k v e) k = Some (v, e)"
  by (simp add: store_cache_def Let_def cache_put_get)

text \<open>Making room only ever drops entries, and a strict read leaves what it read in the cache.\<close>

lemma map_of_filter_keys:
  "distinct (map fst c) \<Longrightarrow> map_of (filter P c) k = None \<or> map_of (filter P c) k = map_of c k"
  by (induction c) (auto simp: map_of_eq_None_iff image_iff)

lemma make_room_get:
  assumes "distinct (map fst c)"
  shows "map_of (make_room c) k = None \<or> map_of (make_room c) k = map_of c k"
  using assms
proof (induction c rule: make_room.induct)
  case (1 c)
  let ?c = "cache_pop c (fst (oldest (hd c) (tl c)))"
  have d: "distinct (map fst ?c)" using 1(2) by (simp add: cache_pop_def distinct_map_filter)
  have "map_of ?c k = None \<or> map_of ?c k = map_of c k" unfolding cache_pop_def by (rule map_of_filter_keys [OF 1(2)])
  then show ?case using 1(1) [OF _ d] by (subst (1 2) make_room.simps) auto
qed

lemma store_cache_other:
  assumes "distinct (map fst c)" "k' \<noteq> k"
  shows "cache_get (store_cache now c k v e) k' = None \<or> cache_get (store_cache now c k v e) k' = cache_get c k'"
proof -
  let ?f = "filter (\<lambda>e. \<not> snd (snd e) \<le> now) c"
  have "map_of (make_room ?f) k' = None \<or> map_of (make_room ?f) k' = map_of ?f k'"
    using assms(1) by (intro make_room_get) (simp add: distinct_map_filter)
  moreover have "map_of ?f k' = None \<or> map_of ?f k' = map_of c k'" by (rule map_of_filter_keys [OF assms(1)])
  ultimately have "cache_get (make_room ?f) k' = None \<or> cache_get (make_room ?f) k' = cache_get c k'"
    unfolding cache_get_def by argo
  then show ?thesis using assms(2) by (simp add: store_cache_def Let_def cache_put_get)
qed

lemma strict_read_cases:
  assumes "load_flag_rows_strict now later store c flag_key tid = (x, c')"
  obtains g t e where "cache_get c (rows_key tid flag_key) = Some (CRows g t, e)" "e > now" "c' = c"
      "x = Inr \<lparr> global_row = g, tenant_row = t \<rparr>"
  | "\<And>v e. cache_get c (rows_key tid flag_key) = Some (v, e) \<Longrightarrow> e \<le> now \<or> (\<forall>g t. v \<noteq> CRows g t)"
      "fetch_rows now later store c flag_key tid = (x, c')"
  using assms by (auto simp: load_flag_rows_strict_def split: option.splits cached.splits if_splits)

lemma fetch_rows_cases:
  assumes "fetch_rows now later store c flag_key tid = (x, c')"
  obtains e where "x = Inl e" "c' = c"
  | r where "x = Inr r" "c' = store_cache later c (rows_key tid flag_key) (CRows (global_row r) (tenant_row r)) (now + CACHE_TTL_SECONDS)"
proof (cases "read_rows store flag_key tid")
  case (Inl e)
  then show ?thesis using assms that(1) [of e] by (simp add: fetch_rows_def)
next
  case (Inr r)
  then show ?thesis using assms that(2) [of r] by (simp add: fetch_rows_def)
qed

lemma fetch_rows_outage: "fetch_rows now later None c flag_key tid = (Inl (FeatureFlagLookupError flag_key), c)"
  by (simp add: fetch_rows_def read_rows_def select_flag_def)

lemma strict_read_cached:
  assumes "load_flag_rows_strict now later store c flag_key tid = (Inr r, c')"
  shows "\<exists>e. cache_get c' (rows_key tid flag_key) = Some (CRows (global_row r) (tenant_row r), e)"
  using assms by (rule strict_read_cases) (auto elim!: fetch_rows_cases simp: store_cache_get)

lemma strict_read_failed:
  assumes "load_flag_rows_strict now later store c flag_key tid = (Inl err, c')"
  shows "c' = c"
    and "now \<le> t \<Longrightarrow> load_flag_rows_strict t l None c flag_key tid = (Inl (FeatureFlagLookupError flag_key), c)"
proof -
  show "c' = c" using assms by (rule strict_read_cases) (auto elim!: fetch_rows_cases)
  have "e \<le> now \<or> (\<forall>g t. v \<noteq> CRows g t)" if "cache_get c (rows_key tid flag_key) = Some (v, e)" for v e
    using assms by (rule strict_read_cases) (use that in auto)
  then show "load_flag_rows_strict t l None c flag_key tid = (Inl (FeatureFlagLookupError flag_key), c)" if "now \<le> t"
    using that by (fastforce simp: load_flag_rows_strict_def fetch_rows_outage split: option.splits cached.splits)
qed

lemma strict_read_outage:
  "snd (load_flag_rows_strict now later None c flag_key tid) = c"
  "cache_get c (rows_key tid flag_key) = Some (CRows g t, e) \<Longrightarrow> fst (load_flag_rows_strict now later None c flag_key tid)
     \<in> {Inl (FeatureFlagLookupError flag_key), Inr \<lparr> global_row = g, tenant_row = t \<rparr>}"
  "cache_get c (rows_key tid flag_key) = None \<Longrightarrow> fst (load_flag_rows_strict now later None c flag_key tid)
     = Inl (FeatureFlagLookupError flag_key)"
  by (auto simp: load_flag_rows_strict_def fetch_rows_outage split: option.splits cached.splits)

lemma strict_read_other:
  assumes "load_flag_rows_strict now later store c flag_key tid = (x, c')" "distinct (map fst c)" "k \<noteq> rows_key tid flag_key"
  shows "cache_get c' k = None \<or> cache_get c' k = cache_get c k"
  using assms(1)
proof (rule strict_read_cases)
  assume "fetch_rows now later store c flag_key tid = (x, c')"
  then show ?thesis by (rule fetch_rows_cases) (use store_cache_other [OF assms(2,3)] in \<open>simp_all\<close>)
qed simp

lemma strict_read_distinct:
  assumes "load_flag_rows_strict now later store c flag_key tid = (x, c')" "distinct (map fst c)"
  shows "distinct (map fst c')"
  using assms(1) by (rule strict_read_cases) (auto elim!: fetch_rows_cases simp: assms(2) store_cache_distinct)

text \<open>A tenant row can add to an operator's global row and never take it away.\<close>

lemma authority_flag_global:
  "row_enabled sha256 flag_key g subject \<Longrightarrow> authority_flag sha256 flag_key \<lparr> global_row = g, tenant_row = t \<rparr> subject"
  by (simp add: authority_flag_def)

end
