(* ===== verification/Action_Policy.thy ===== *)
theory Action_Policy
  imports Feature_Flags
begin

text \<open>
  The action taxonomy and the pre-dispatch containment (\<open>core/governance/action_policy.py\<close>). An
  action is named by text. The parsing of a UUID is the parameter \<open>parse_uuid\<close>, which returns the
  canonical text; the order in which Python yields the two elements of the set of candidate names is
  the parameter \<open>before\<close>: it depends on the hash seed of the process.
\<close>

section \<open>Data\<close>

datatype action_domain = D_PLATFORM | D_FINANCE | D_CA | D_MARKETING | D_HR | D_OPERATIONS | D_CBO | D_COMMERCE

datatype action_risk = R_READ | R_DRAFT | R_INTERNAL_WRITE | R_CUSTOMER_WRITE | R_MONEY | R_FILING | R_EMPLOYMENT
  | R_ACCESS | R_DESTRUCTIVE | R_SIGNATURE | R_DISCLOSURE | R_REGULATOR

datatype action_mode = M_READ_ONLY | M_DRAFT | M_SHADOW | M_LIVE | M_BLOCKED

fun domain_value :: "action_domain \<Rightarrow> string" where
  "domain_value D_PLATFORM = ''platform''"
| "domain_value D_FINANCE = ''finance''"
| "domain_value D_CA = ''ca''"
| "domain_value D_MARKETING = ''marketing''"
| "domain_value D_HR = ''hr''"
| "domain_value D_OPERATIONS = ''operations''"
| "domain_value D_CBO = ''cbo''"
| "domain_value D_COMMERCE = ''commerce''"

fun risk_value :: "action_risk \<Rightarrow> string" where
  "risk_value R_READ = ''read''"
| "risk_value R_DRAFT = ''draft''"
| "risk_value R_INTERNAL_WRITE = ''internal-write''"
| "risk_value R_CUSTOMER_WRITE = ''customer-write''"
| "risk_value R_MONEY = ''money''"
| "risk_value R_FILING = ''filing''"
| "risk_value R_EMPLOYMENT = ''employment''"
| "risk_value R_ACCESS = ''access''"
| "risk_value R_DESTRUCTIVE = ''destructive''"
| "risk_value R_SIGNATURE = ''signature''"
| "risk_value R_DISCLOSURE = ''disclosure''"
| "risk_value R_REGULATOR = ''regulator''"

fun mode_value :: "action_mode \<Rightarrow> string" where
  "mode_value M_READ_ONLY = ''read-only''"
| "mode_value M_DRAFT = ''draft''"
| "mode_value M_SHADOW = ''shadow''"
| "mode_value M_LIVE = ''live''"
| "mode_value M_BLOCKED = ''blocked''"

definition ALL_DOMAINS :: "action_domain list" where
  "ALL_DOMAINS = [D_PLATFORM, D_FINANCE, D_CA, D_MARKETING, D_HR, D_OPERATIONS, D_CBO, D_COMMERCE]"

definition CUSTOMER_DOMAINS :: "action_domain list" where
  "CUSTOMER_DOMAINS = filter (\<lambda>d. d \<noteq> D_PLATFORM) ALL_DOMAINS"

definition ALL_RISKS :: "action_risk list" where
  "ALL_RISKS = [R_READ, R_DRAFT, R_INTERNAL_WRITE, R_CUSTOMER_WRITE, R_MONEY, R_FILING, R_EMPLOYMENT, R_ACCESS,
     R_DESTRUCTIVE, R_SIGNATURE, R_DISCLOSURE, R_REGULATOR]"

definition UNSAFE_ACTION_RISKS :: "action_risk list" where
  "UNSAFE_ACTION_RISKS = filter (\<lambda>r. r \<noteq> R_READ \<and> r \<noteq> R_DRAFT) ALL_RISKS"

text \<open>\<open>ActionDomain(text)\<close> and \<open>ActionRisk(text)\<close>, which raise on any other text.\<close>

definition ActionDomain :: "string \<Rightarrow> action_domain option" where
  "ActionDomain s = find (\<lambda>d. domain_value d = s) ALL_DOMAINS"

definition ActionRisk :: "string \<Rightarrow> action_risk option" where
  "ActionRisk s = find (\<lambda>r. risk_value r = s) ALL_RISKS"

definition ALIASES :: "string dict" where
  "ALIASES =
     [(''security'', ''platform''), (''accounting'', ''finance''), (''tax'', ''finance''),
      (''cfo'', ''finance''), (''ca_firm'', ''ca''), (''chartered_accountant'', ''ca''),
      (''cmo'', ''marketing''), (''human_resources'', ''hr''), (''chro'', ''hr''), (''ops'', ''operations''),
      (''coo'', ''operations''), (''it'', ''operations''), (''support'', ''operations''),
      (''facilities'', ''operations''), (''backoffice'', ''cbo''), (''back_office'', ''cbo''),
      (''legal'', ''cbo''), (''risk'', ''cbo''), (''corporate'', ''cbo''), (''comms'', ''cbo''),
      (''sales'', ''commerce'')]"

section \<open>Names\<close>

text \<open>\<open>re.sub("[^a-z0-9]+", "_", s)\<close>: a run of other characters becomes one underscore; \<open>gap\<close> is set
  while such a run is being read.\<close>

definition kept :: "char \<Rightarrow> bool" where
  "kept c \<longleftrightarrow> is_lower_ascii c \<or> is_digit c"

fun collapse :: "bool \<Rightarrow> string \<Rightarrow> string" where
  "collapse gap [] = (if gap then ''_'' else [])"
| "collapse gap (c # s) =
     (if kept c then (if gap then ''_'' else []) @ c # collapse False s else collapse True s)"

definition strip_underscores :: "string \<Rightarrow> string" where
  "strip_underscores s = rev (dropWhile (\<lambda>c. c = CHR ''_'') (rev (dropWhile (\<lambda>c. c = CHR ''_'') s)))"

definition norm_name :: "string \<Rightarrow> string" where
  "norm_name s = strip_underscores (collapse False (lower (strip s)))"

datatype domain_arg = DomainNone | DomainEnum action_domain | DomainText string

definition domain_of :: "domain_arg \<Rightarrow> action_domain option" where
  "domain_of value =
     (case value of
        DomainEnum d \<Rightarrow> Some d
      | DomainNone \<Rightarrow> ActionDomain []
      | DomainText s \<Rightarrow>
          (let n = norm_name s in ActionDomain (case dget ALIASES n of Some a \<Rightarrow> a | None \<Rightarrow> n)))"

definition RULE_GROUPS :: "(action_risk \<times> action_domain list \<times> string list) list" where
  "RULE_GROUPS =
     [(R_READ, ALL_DOMAINS,
        [''remote_mcp_read'']),
      (R_CUSTOMER_WRITE, ALL_DOMAINS,
        [''remote_mcp_write'']),
      (R_READ, ALL_DOMAINS,
        [''read_record'', ''get_record'', ''list_records'', ''search_records'', ''fetch_report'',
         ''check_status'', ''get_trial_balance'', ''get_ledger_balance'', ''get_profit_loss'',
         ''get_balance_sheet'', ''list_invoices'', ''list_overdue_invoices'', ''fetch_bank_statement'',
         ''check_account_balance'', ''get_transaction_list'', ''fetch_gstr2a'', ''check_tds_credit_in_26as'',
         ''apply_macro'', ''buyer_discovery_preview'', ''catalog_get_item'', ''catalog_search'',
         ''check_filing_status'', ''check_order_status'', ''get_access_log'', ''get_analytics'',
         ''get_applications'', ''get_attendance'', ''get_backlinks'', ''get_balance'', ''get_bill_by_id'',
         ''get_campaign_analytics'', ''get_campaign_insights'', ''get_campaign_performance'',
         ''get_campaign_performance_metrics'', ''get_campaign_report'', ''get_campaign_stats'',
         ''get_cash_position'', ''get_compliance_notice'', ''get_csat_score'', ''get_deal'',
         ''get_domain_rating'', ''get_employee'', ''get_invoice_by_id'', ''get_mentions'', ''get_org_chart'',
         ''get_organic_keywords'', ''get_page_tree'', ''get_payslip'', ''get_post_analytics'',
         ''get_project_metrics'', ''get_search_term_report'', ''get_search_terms'', ''get_share_of_voice'',
         ''get_sla_breach_status'', ''get_stats'', ''inventory_check'', ''list_active_sessions'',
         ''list_bills'', ''list_channel_videos'', ''list_contacts'', ''list_deals'', ''list_owners'',
         ''list_vendor_bills'', ''list_vendors'', ''merchant_get_profile'', ''payment_get_status'', ''query'',
         ''read_inbox'', ''search_bills'', ''search_campaigns'', ''search_candidates'', ''search_contacts'',
         ''search_content_fulltext'', ''search_emails'', ''search_invoices'', ''search_issues'']),
      (R_DRAFT, ALL_DOMAINS,
        [''prepare_draft'', ''draft_customer_message'', ''draft_disclosure'', ''calculate_tds'',
         ''generate_tds_summary'', ''prepare_26q'', ''prepare_24q'', ''prepare_professional_tax_return'',
         ''get_professional_tax_challan_draft'', ''build_filing_payload'', ''propose_payment'']),
      (R_INTERNAL_WRITE, ALL_DOMAINS,
        [''create_internal_record'', ''update_internal_record'', ''create_journal_entry'', ''create_tds_entry'',
         ''update_bill'', ''post_voucher'', ''reconcile_bank'', ''write_off_invoice'', ''acknowledge_incident'',
         ''add_comment'', ''add_list_member'', ''assign_contact_owner'', ''associate_contact_to_company'',
         ''create_ap_invoice'', ''create_bill'', ''create_contact'', ''create_incident'', ''create_invoice'',
         ''create_issue'', ''create_item'', ''create_ticket'', ''create_vendor'', ''escalate_to_group'',
         ''generate_postmortem_doc'', ''manage_on_call_schedule'', ''post_journal_entry'', ''record_expense'',
         ''trigger_alert_with_context'', ''update_contact'']),
      (R_CUSTOMER_WRITE, CUSTOMER_DOMAINS,
        [''send_customer_message'', ''send_email'', ''send_message'', ''reply_ticket'', ''publish_content'',
         ''launch_campaign'', ''create_calendar_event'', ''create_tweet'', ''create_update'', ''post_alert'',
         ''schedule_social_post'', ''send_campaign'', ''slack_send_message'', ''cart_create'']),
      (R_MONEY, [D_FINANCE, D_CA, D_COMMERCE],
        [''queue_payment'', ''initiate_payment'', ''pay_tax_challan'', ''create_payment_intent'',
         ''capture_payment'', ''issue_refund'', ''transfer_funds'', ''create_payment_link'',
         ''checkout_create'', ''create_order'', ''payment_create_intent'']),
      (R_MONEY, [D_MARKETING],
        [''mutate_campaign_budget'']),
      (R_FILING, [D_FINANCE, D_CA],
        [''push_gstr1_data'', ''file_gstr3b'', ''file_gstr9'', ''file_26q_return'', ''file_24q_return'',
         ''file_itr'', ''submit_professional_tax_return'']),
      (R_EMPLOYMENT, [D_HR],
        [''shortlist_candidate'', ''reject_candidate'', ''hire_candidate'', ''create_employee'',
         ''terminate_employee'', ''update_compensation'', ''process_payroll'', ''post_job'', ''post_leave'',
         ''run_payroll'', ''schedule_interview'', ''send_inmail'', ''send_offer'', ''update_performance'']),
      (R_ACCESS, ALL_DOMAINS,
        [''provision_access'', ''revoke_access'', ''disable_user'', ''enable_user'', ''reset_credentials'',
         ''assign_group'', ''consent_exchange'', ''consent_request'', ''deactivate_user'',
         ''manage_space_permissions'', ''provision_user'', ''remove_group'']),
      (R_DESTRUCTIVE, ALL_DOMAINS,
        [''delete_resource'', ''purge_resource'', ''restart_service'', ''rollback_deployment'',
         ''terminate_instance'', ''delete_contact'']),
      (R_SIGNATURE, [D_CA, D_HR, D_CBO],
        [''create_envelope'', ''send_for_signature'', ''apply_signature'', ''execute_contract'']),
      (R_DISCLOSURE, [D_MARKETING, D_CBO],
        [''publish_disclosure'', ''publish_crisis_response'', ''publish_board_material'',
         ''publish_press_release'']),
      (R_REGULATOR, [D_FINANCE, D_CA, D_HR, D_CBO],
        [''respond_to_notice'', ''submit_regulatory_response'', ''update_entity_registration'',
         ''generate_eway_bill'', ''generate_einvoice_irn''])]"

definition QUALIFIED_RULES :: "(action_risk \<times> action_domain list) dict" where
  "QUALIFIED_RULES =
     [(''ucp_buyer_catalog_search'', R_READ, ALL_DOMAINS),
      (''ucp_buyer_catalog_lookup'', R_READ, ALL_DOMAINS),
      (''ucp_buyer_checkout_get'', R_READ, ALL_DOMAINS),
      (''ucp_buyer_checkout_create'', R_CUSTOMER_WRITE, CUSTOMER_DOMAINS),
      (''ucp_buyer_checkout_update'', R_CUSTOMER_WRITE, CUSTOMER_DOMAINS),
      (''ucp_buyer_sandbox_checkout_create'', R_DRAFT, CUSTOMER_DOMAINS),
      (''ucp_buyer_sandbox_checkout_update'', R_DRAFT, CUSTOMER_DOMAINS)]"

section \<open>Classification\<close>

text \<open>\<open>raw.rsplit(":", 1)[-1]\<close>.\<close>

definition after_colon :: "string \<Rightarrow> string" where
  "after_colon s = rev (takeWhile (\<lambda>c. c \<noteq> CHR '':'') (rev s))"

type_synonym set_order = "string \<Rightarrow> string \<Rightarrow> bool"
type_synonym action_rule = "string \<times> action_risk \<times> action_domain list"

definition candidates :: "set_order \<Rightarrow> string \<Rightarrow> string list" where
  "candidates before raw =
     (let whole = norm_name raw; suffix = norm_name (after_colon raw)
      in if CHR '':'' \<notin> set raw \<or> suffix = whole then [whole]
         else if before whole suffix then [whole, suffix] else [suffix, whole])"

fun match_group :: "string list \<Rightarrow> (action_risk \<times> action_domain list \<times> string list) list \<Rightarrow> action_rule option" where
  "match_group cs [] = None"
| "match_group cs ((risk, domains, actions) # gs) =
     (case find (\<lambda>c. c \<in> set actions) cs of
        Some m \<Rightarrow> if m \<noteq> [] then Some (m, risk, domains) else match_group cs gs
      | None \<Rightarrow> match_group cs gs)"

definition rule_of :: "set_order \<Rightarrow> string \<Rightarrow> action_rule option" where
  "rule_of before action =
     (let raw = strip action
      in case dget QUALIFIED_RULES (norm_name raw) of
           Some (risk, domains) \<Rightarrow> Some (norm_name raw, risk, domains)
         | None \<Rightarrow> match_group (candidates before raw) RULE_GROUPS)"

definition classify_action :: "set_order \<Rightarrow> string \<Rightarrow> domain_arg \<Rightarrow> action_risk option" where
  "classify_action before action domain =
     (case rule_of before action of
        None \<Rightarrow> None
      | Some (m, risk, domains) \<Rightarrow>
          if domain \<noteq> DomainNone \<and> \<not> list_ex (\<lambda>d. domain_of domain = Some d) domains then None else Some risk)"

definition capability_flag_key :: "action_domain \<Rightarrow> action_risk \<Rightarrow> string" where
  "capability_flag_key domain risk =
     ''safety.live_capability.'' @ domain_value domain @ ''.''
       @ map (\<lambda>c. if c = CHR ''-'' then CHR ''_'' else c) (risk_value risk)"

section \<open>Identities and authorizations\<close>

datatype uuid_arg = UuidNone | UuidValue string | UuidText string

type_synonym uuid_parser = "string \<Rightarrow> string option"

definition uuid_of :: "uuid_parser \<Rightarrow> uuid_arg \<Rightarrow> string option" where
  "uuid_of parse_uuid value =
     (case value of UuidValue u \<Rightarrow> Some u | UuidText s \<Rightarrow> parse_uuid s | UuidNone \<Rightarrow> parse_uuid ''None'')"

definition required_uuid :: "uuid_parser \<Rightarrow> uuid_arg \<Rightarrow> string \<Rightarrow> (string, string) res" where
  "required_uuid parse_uuid value name =
     (let missing = (case value of UuidNone \<Rightarrow> True | UuidText s \<Rightarrow> strip s = [] | UuidValue u \<Rightarrow> False)
      in if missing then Inl (''context_'' @ name @ ''_missing'')
         else case uuid_of parse_uuid value of
                Some u \<Rightarrow> Inr u
              | None \<Rightarrow> Inl (''context_'' @ name @ ''_invalid''))"

record action_context =
  ctx_tenant_id :: uuid_arg
  ctx_company_id :: uuid_arg
  ctx_domain :: domain_arg
  ctx_runtime_env :: "string option"

record capability_authorization =
  ca_authorization_id :: string
  ca_tenant_id :: uuid_arg
  ca_company_id :: uuid_arg
  ca_domain :: domain_arg
  ca_action :: string
  ca_risk :: string

definition authorization_matches ::
    "set_order \<Rightarrow> uuid_parser \<Rightarrow> capability_authorization \<Rightarrow> string \<Rightarrow> string \<Rightarrow> action_domain \<Rightarrow> string \<Rightarrow> action_risk \<Rightarrow> bool" where
  "authorization_matches before parse_uuid a tenant_id company_id domain action risk =
     (case ActionRisk (map (\<lambda>c. if c = CHR ''_'' then CHR ''-'' else c) (ca_risk a)) of
        None \<Rightarrow> False
      | Some auth_risk \<Rightarrow>
          let auth_action = (case rule_of before (ca_action a) of
                Some (m, r, ds) \<Rightarrow> m | None \<Rightarrow> norm_name (ca_action a))
          in strip (ca_authorization_id a) \<noteq> []
             \<and> uuid_of parse_uuid (ca_tenant_id a) = Some tenant_id
             \<and> uuid_of parse_uuid (ca_company_id a) = Some company_id
             \<and> domain_of (ca_domain a) = Some domain
             \<and> auth_action = action
             \<and> auth_risk = risk)"

section \<open>The decision\<close>

record action_decision =
  ad_mode :: action_mode
  dispatch_allowed :: bool
  safe_mode_allowed :: bool
  ad_reason :: string
  requested_action :: string
  canonical_action :: "string option"
  ad_risk :: "action_risk option"
  ad_domain :: "action_domain option"
  strict_runtime :: bool
  required_feature_flag :: "string option"

definition FORCE_SHADOW_FLAG :: string where
  "FORCE_SHADOW_FLAG = ''safety.unsafe_actions.force_shadow''"

text \<open>A resolver answers a flag for a tenant and a company, with a default, or raises.\<close>

type_synonym flag_resolver = "string \<Rightarrow> string \<Rightarrow> string \<Rightarrow> bool \<Rightarrow> (flag_error, bool) res"

definition database_feature_flag_resolver :: "sha256_digest \<Rightarrow> rat \<Rightarrow> rat \<Rightarrow> flag_store \<Rightarrow> flag_cache \<Rightarrow> flag_resolver" where
  "database_feature_flag_resolver sha256 now later store c flag_key tenant_id company_id dflt =
     Inr (fst (is_enabled sha256 now later store c flag_key (Some tenant_id) (Some company_id) dflt))"

definition flag_value :: "flag_resolver \<Rightarrow> string \<Rightarrow> string \<Rightarrow> string \<Rightarrow> bool \<Rightarrow> bool \<Rightarrow> bool" where
  "flag_value resolver key tenant_id company_id dflt failure =
     (case resolver key tenant_id company_id dflt of Inr b \<Rightarrow> b | Inl e \<Rightarrow> failure)"

definition decision ::
    "action_mode \<Rightarrow> bool \<Rightarrow> bool \<Rightarrow> string \<Rightarrow> string \<Rightarrow> string option \<Rightarrow> action_risk option \<Rightarrow> action_domain option \<Rightarrow> bool
     \<Rightarrow> string option \<Rightarrow> action_decision" where
  "decision mode dispatch safe reason requested action risk domain strict flag =
     \<lparr> ad_mode = mode, dispatch_allowed = dispatch, safe_mode_allowed = safe, ad_reason = reason,
       requested_action = requested, canonical_action = action, ad_risk = risk, ad_domain = domain,
       strict_runtime = strict, required_feature_flag = flag \<rparr>"

text \<open>What an unsafe action needs in a relaxed runtime; the reason it stays in shadow, if any.\<close>

definition shadow_reason ::
    "set_order \<Rightarrow> uuid_parser \<Rightarrow> flag_resolver option \<Rightarrow> capability_authorization option \<Rightarrow> bool
     \<Rightarrow> string \<Rightarrow> string \<Rightarrow> action_domain \<Rightarrow> string \<Rightarrow> action_risk \<Rightarrow> string option" where
  "shadow_reason before parse_uuid resolver auth strict tenant_id company_id domain canonical risk =
     (let flag = (\<lambda>key failure. case resolver of None \<Rightarrow> False
            | Some r \<Rightarrow> flag_value r key tenant_id company_id False failure)
      in if strict then Some ''unsafe_action_force_shadow''
         else if flag FORCE_SHADOW_FLAG True then Some ''unsafe_action_force_shadow''
         else if \<not> flag (capability_flag_key domain risk) False then Some ''live_capability_flag_disabled''
         else case auth of
                None \<Rightarrow> Some ''capability_authorization_missing''
              | Some a \<Rightarrow>
                  if authorization_matches before parse_uuid a tenant_id company_id domain canonical risk then None
                  else Some ''capability_authorization_mismatch'')"

definition blank_domain :: "domain_arg \<Rightarrow> bool" where
  "blank_domain d = (case d of DomainNone \<Rightarrow> True | DomainText s \<Rightarrow> strip s = [] | DomainEnum e \<Rightarrow> False)"

definition evaluate_action ::
    "set_order \<Rightarrow> uuid_parser \<Rightarrow> string \<Rightarrow> action_context \<Rightarrow> capability_authorization option \<Rightarrow> flag_resolver option
     \<Rightarrow> action_decision" where
  "evaluate_action before parse_uuid action ctx auth resolver =
     (let requested = strip action; strict = is_strict_runtime_env (ctx_runtime_env ctx);
          blocked = (\<lambda>reason canonical risk domain.
            decision M_BLOCKED False False reason requested canonical risk domain strict None)
      in case required_uuid parse_uuid (ctx_tenant_id ctx) ''tenant'' of
           Inl reason \<Rightarrow> blocked reason None None None
         | Inr tenant_id \<Rightarrow>
         (case required_uuid parse_uuid (ctx_company_id ctx) ''company'' of
           Inl reason \<Rightarrow> blocked reason None None None
         | Inr company_id \<Rightarrow>
         (case domain_of (ctx_domain ctx) of
           None \<Rightarrow> blocked (if blank_domain (ctx_domain ctx) then ''context_domain_missing'' else ''context_domain_unknown'')
                     None None None
         | Some domain \<Rightarrow>
         (case rule_of before action of
           None \<Rightarrow> blocked (if requested = [] then ''action_missing'' else ''action_unknown'') None None (Some domain)
         | Some (canonical, risk, domains) \<Rightarrow>
             if domain \<notin> set domains then blocked ''action_domain_mismatch'' (Some canonical) (Some risk) (Some domain)
             else if risk = R_READ then
               decision M_READ_ONLY True True ''read_action_allowed'' requested (Some canonical) (Some risk) (Some domain) strict None
             else if risk = R_DRAFT then
               decision M_DRAFT True True ''draft_action_allowed'' requested (Some canonical) (Some risk) (Some domain) strict None
             else
               (let required_flag = Some (capability_flag_key domain risk)
                in case shadow_reason before parse_uuid resolver auth strict tenant_id company_id domain canonical risk of
                     Some reason \<Rightarrow>
                       decision M_SHADOW False True reason requested (Some canonical) (Some risk) (Some domain) strict required_flag
                   | None \<Rightarrow>
                       decision M_LIVE True False ''live_capability_authorized'' requested (Some canonical) (Some risk)
                         (Some domain) strict required_flag)))))"

section \<open>What normalisation keeps\<close>

text \<open>The words of a name: its maximal runs of kept characters.\<close>

fun splits :: "string \<Rightarrow> string list" where
  "splits [] = [[]]"
| "splits (c # s) = (if kept c then (case splits s of w # ws \<Rightarrow> (c # w) # ws | [] \<Rightarrow> [[c]]) else [] # splits s)"

definition words :: "string \<Rightarrow> string list" where
  "words s = filter (\<lambda>w. w \<noteq> []) (splits s)"

fun join_words :: "string list \<Rightarrow> string" where
  "join_words [] = []"
| "join_words [w] = w"
| "join_words (w # v # ws) = w @ CHR ''_'' # join_words (v # ws)"

lemma splits_nonempty: "splits s \<noteq> []"
  by (induction s) (auto split: list.splits)

lemma splits_append: "\<not> kept x \<Longrightarrow> splits (a @ x # b) = splits a @ splits b"
  by (induction a) (auto split: list.splits simp: splits_nonempty)

lemma words_append: "\<not> kept x \<Longrightarrow> words (a @ x # b) = words a @ words b"
  by (simp add: words_def splits_append)

lemma words_Nil [simp]: "words [] = []"
  by (simp add: words_def)

lemma words_gap [simp]: "\<not> kept x \<Longrightarrow> words (x # s) = words s"
  by (simp add: words_def)

lemma words_snoc [simp]: "\<not> kept x \<Longrightarrow> words (s @ [x]) = words s"
  using words_append [of x s "[]"] by simp

lemma splits_kept: "w \<in> set (splits s) \<Longrightarrow> list_all kept w"
  by (induction s arbitrary: w) (auto split: if_splits list.splits)

lemma words_kept: "w \<in> set (words s) \<Longrightarrow> w \<noteq> [] \<and> list_all kept w"
  by (auto simp: words_def dest: splits_kept)

definition opens_gap :: "string \<Rightarrow> bool" where
  "opens_gap s \<longleftrightarrow> s \<noteq> [] \<and> \<not> kept (hd s)"

lemma splits_opens: "splits s = w # ws \<Longrightarrow> w = [] \<longleftrightarrow> s = [] \<or> opens_gap s"
  by (cases s) (auto simp: opens_gap_def split: if_splits list.splits)

lemma words_Cons:
  assumes "kept c"
  shows "words (c # s) = (if s = [] \<or> opens_gap s then [c] # words s else (c # hd (words s)) # tl (words s))"
proof -
  obtain w ws where s: "splits s = w # ws" using splits_nonempty by (cases "splits s") auto
  show ?thesis using assms splits_opens [OF s] s by (auto simp: words_def)
qed

lemma words_start: "s \<noteq> [] \<Longrightarrow> \<not> opens_gap s \<Longrightarrow> words s \<noteq> []"
  by (cases s) (auto simp: opens_gap_def words_Cons)

lemma join_words_Cons: "ws \<noteq> [] \<Longrightarrow> join_words (w # ws) = w @ CHR ''_'' # join_words ws"
  by (cases ws) auto

lemma join_words_extend: "ws \<noteq> [] \<Longrightarrow> join_words ((c # hd ws) # tl ws) = c # join_words ws"
  by (cases ws rule: join_words.cases) auto

definition underscore :: "bool \<Rightarrow> string" where
  "underscore b = (if b then ''_'' else [])"

lemma collapse_words:
  "\<exists>b. collapse gap s = (if words s = [] then underscore (gap \<or> s \<noteq> [])
     else underscore (gap \<or> opens_gap s) @ join_words (words s) @ underscore b)"
proof (induction s arbitrary: gap)
  case (Cons c s)
  show ?case
  proof (cases "kept c")
    case False
    then show ?thesis using Cons.IH [of True] by (auto simp: opens_gap_def)
  next
    case True
    obtain b where b: "collapse False s = (if words s = [] then underscore (s \<noteq> [])
        else underscore (opens_gap s) @ join_words (words s) @ underscore b)"
      using Cons.IH [of False] unfolding simp_thms by blast
    show ?thesis
    proof (cases "words s = []")
      case w: True
      then have "s = [] \<or> opens_gap s" using words_start by blast
      then show ?thesis using True b w
        by (intro exI [of _ "s \<noteq> []"]) (auto simp: words_Cons opens_gap_def underscore_def)
    next
      case w: False
      then show ?thesis using True b
        by (intro exI [of _ b])
          (auto simp: words_Cons opens_gap_def underscore_def join_words_Cons join_words_extend)
    qed
  qed
qed (auto simp: underscore_def)

lemma not_kept_underscore [simp]: "\<not> kept (CHR ''_'')" "\<not> kept (CHR '':'')"
  by code_simp+

lemma join_words_ends:
  assumes "ws \<noteq> []" "\<forall>w \<in> set ws. w \<noteq> [] \<and> kept (hd w) \<and> kept (last w)"
  shows "join_words ws \<noteq> [] \<and> kept (hd (join_words ws)) \<and> kept (last (join_words ws))"
  using assms by (induction ws rule: join_words.induct) auto

lemma strip_underscores_ends:
  assumes "s \<noteq> []" "kept (hd s)" "kept (last s)"
  shows "strip_underscores (underscore a @ s @ underscore b) = s"
proof -
  have h: "hd s \<noteq> CHR ''_''" "last s \<noteq> CHR ''_''" using assms not_kept_underscore by metis+
  have left: "dropWhile (\<lambda>c. c = CHR ''_'') (underscore a @ s @ t) = s @ t" for t
    using assms(1) h by (cases s) (auto simp: underscore_def)
  have right: "dropWhile (\<lambda>c. c = CHR ''_'') (underscore b @ rev s) = rev s"
    using assms(1) h by (cases s rule: rev_cases) (auto simp: underscore_def)
  have r: "rev (underscore b) = underscore b" by (simp add: underscore_def)
  show ?thesis unfolding strip_underscores_def left using right r by simp
qed

lemma strip_words: "strip_underscores (collapse False s) = join_words (words s)"
proof -
  obtain b where b: "collapse False s = (if words s = [] then underscore (s \<noteq> [])
      else underscore (opens_gap s) @ join_words (words s) @ underscore b)"
    using collapse_words [of False s] unfolding simp_thms by blast
  show ?thesis
  proof (cases "words s = []")
    case True
    then show ?thesis using b by (auto simp: underscore_def strip_underscores_def)
  next
    case False
    have ends: "join_words (words s) \<noteq> []" "kept (hd (join_words (words s)))" "kept (last (join_words (words s)))"
      using join_words_ends [OF False] words_kept by (auto simp: list_all_iff)
    show ?thesis using b False strip_underscores_ends [OF ends] by simp
  qed
qed
lemma space_not_kept: "is_space c \<Longrightarrow> \<not> kept (lower_char c)"
  by (auto simp: is_space_def kept_def lower_char_def is_lower_ascii_def is_digit_def is_upper_ascii_def Let_def)

lemma words_left: "words (lower (dropWhile is_space s)) = words (lower s)"
  by (induction s) (auto simp: lower_def space_not_kept)

lemma words_right: "words (lower (rev (dropWhile is_space (rev s)))) = words (lower s)"
  by (induction s rule: rev_induct) (auto simp: lower_def space_not_kept)

lemma norm_name_words: "norm_name s = join_words (words (lower s))"
  unfolding norm_name_def strip_words strip_def words_right words_left ..

lemma norm_name_right: "norm_name (rev (dropWhile is_space (rev s))) = norm_name s"
  by (simp add: norm_name_words words_right)

lemma colon_facts [simp]: "\<not> is_space (CHR '':'')" "lower_char (CHR '':'') = CHR '':''"
  by code_simp+

lemma norm_name_qualified:
  "norm_name (c @ CHR '':'' # t) = join_words (words (lower c) @ words (lower t))"
  by (simp add: norm_name_words lower_def words_append)

lemma strip_qualified:
  "strip (c @ CHR '':'' # t) = dropWhile is_space c @ CHR '':'' # rev (dropWhile is_space (rev t))"
proof -
  have left: "dropWhile is_space (c @ CHR '':'' # t) = dropWhile is_space c @ CHR '':'' # t"
    by (induction c) auto
  have right: "dropWhile is_space (rev t @ CHR '':'' # u) = dropWhile is_space (rev t) @ CHR '':'' # u" for u
    by (induction t rule: rev_induct) auto
  show ?thesis unfolding strip_def left using right by simp
qed

lemma after_colon_qualified: "CHR '':'' \<notin> set t \<Longrightarrow> after_colon (c @ CHR '':'' # t) = t"
proof -
  assume "CHR '':'' \<notin> set t"
  then have "takeWhile (\<lambda>c. c \<noteq> CHR '':'') (rev t @ CHR '':'' # rev c) = rev t"
    by (subst takeWhile_append2) auto
  then show ?thesis by (simp add: after_colon_def)
qed

lemma join_words_append:
  "us \<noteq> [] \<Longrightarrow> ws \<noteq> [] \<Longrightarrow> join_words (us @ ws) = join_words us @ CHR ''_'' # join_words ws"
  by (induction us rule: join_words.induct) (auto simp: join_words_Cons)

section \<open>What the tables say\<close>

lemma match_group_one:
  assumes "\<forall>g \<in> set gs. [] \<notin> set (snd (snd g))" "match_group cs gs = Some (m, k)"
  shows "m \<in> set cs \<and> match_group [m] gs = Some (m, k)"
  using assms
proof (induction cs gs rule: match_group.induct)
  case (2 cs risk domains actions gs)
  show ?case
  proof (cases "find (\<lambda>c. c \<in> set actions) cs")
    case None
    then have "m \<notin> set actions" if "m \<in> set cs" using that by (simp add: find_None_iff)
    then show ?thesis using 2 None by auto
  next
    case (Some x)
    then have "x \<in> set cs" "x \<in> set actions" by (auto simp: find_Some_iff)
    moreover have "x \<noteq> []" using 2(3) \<open>x \<in> set actions\<close> by auto
    ultimately show ?thesis using 2(4) Some by auto
  qed
qed simp

text \<open>No name of a read or a draft ends in an underscore and the name of an unsafe action.\<close>

definition safe_risk :: "action_risk \<Rightarrow> bool" where
  "safe_risk r \<longleftrightarrow> r = R_READ \<or> r = R_DRAFT"

fun starts :: "string \<Rightarrow> string \<Rightarrow> bool" where
  "starts [] t = True"
| "starts (c # s) [] = False"
| "starts (c # s) (d # t) = (if c = d then starts s t else False)"

definition tail_clash :: "string list list \<Rightarrow> string list list \<Rightarrow> bool" where
  "tail_clash ss ws = list_ex (list_ex (\<lambda>w. list_ex (list_ex (\<lambda>s. starts s w)) ss)) ws"

definition unsafe_tails :: "string list list" where
  "unsafe_tails =
     map (map (\<lambda>s. rev s @ ''_''))
       (map (snd \<circ> snd) (filter (\<lambda>g. \<not> safe_risk (fst g)) RULE_GROUPS)
        @ [map fst (filter (\<lambda>q. \<not> safe_risk (fst (snd q))) QUALIFIED_RULES)])"

definition safe_names :: "string list list" where
  "safe_names = map (map rev) (map (snd \<circ> snd) (filter (\<lambda>g. safe_risk (fst g)) RULE_GROUPS))"

lemma no_tail_clash: "\<not> tail_clash unsafe_tails safe_names"
  by code_simp

lemma starts_prefix: "starts s t = prefix s t"
  by (induction s t rule: starts.induct) auto

lemma no_clash:
  assumes "g \<in> set RULE_GROUPS" "safe_risk (fst g)" "w \<in> set (snd (snd g))"
    "h \<in> set RULE_GROUPS \<and> \<not> safe_risk (fst h) \<and> s \<in> set (snd (snd h))
     \<or> q \<in> set QUALIFIED_RULES \<and> \<not> safe_risk (fst (snd q)) \<and> s = fst q"
  shows "w \<noteq> p @ CHR ''_'' # s"
proof
  assume w: "w = p @ CHR ''_'' # s"
  have "starts (rev s @ ''_'') (rev w)" by (simp add: starts_prefix w)
  moreover have "\<exists>ss \<in> set unsafe_tails. rev s @ ''_'' \<in> set ss"
    using assms(4)
  proof (elim disjE conjE)
    assume h: "h \<in> set RULE_GROUPS" "\<not> safe_risk (fst h)" "s \<in> set (snd (snd h))"
    then have "map (\<lambda>s. rev s @ ''_'') (snd (snd h)) \<in> set unsafe_tails" by (simp add: unsafe_tails_def)
    then show ?thesis using h(3) by (intro bexI [of _ "map (\<lambda>s. rev s @ ''_'') (snd (snd h))"]) auto
  qed (auto simp: unsafe_tails_def)
  moreover have "\<exists>ws \<in> set safe_names. rev w \<in> set ws"
    using assms(1-3) by (intro bexI [of _ "map rev (snd (snd g))"]) (auto simp: safe_names_def)
  ultimately have "tail_clash unsafe_tails safe_names" unfolding tail_clash_def list_ex_iff by blast
  then show False using no_tail_clash by simp
qed

lemma names_nonempty: "\<forall>g \<in> set RULE_GROUPS. [] \<notin> set (snd (snd g))" "dget QUALIFIED_RULES [] = None"
  by code_simp+

lemma qualified_not_grouped: "list_all (\<lambda>q. match_group [fst q] RULE_GROUPS = None) QUALIFIED_RULES"
  by code_simp

lemma match_group_mem:
  "match_group [n] gs = Some (m, risk, ds) \<Longrightarrow>
     m = n \<and> n \<noteq> [] \<and> (\<exists>g \<in> set gs. fst g = risk \<and> fst (snd g) = ds \<and> n \<in> set (snd (snd g)))"
  by (induction gs) (auto split: if_splits)

lemma norm_name_strip: "norm_name (strip s) = norm_name s"
  unfolding norm_name_words strip_def words_right words_left ..

lemma strip_subset: "set (strip s) \<subseteq> set s"
  by (auto simp: strip_def dest!: set_dropWhileD)

lemma bare_rule:
  assumes "CHR '':'' \<notin> set t"
  shows "rule_of before t = (case dget QUALIFIED_RULES (norm_name t) of
     Some (risk, ds) \<Rightarrow> Some (norm_name t, risk, ds) | None \<Rightarrow> match_group [norm_name t] RULE_GROUPS)"
proof -
  have "CHR '':'' \<notin> set (strip t)" using assms strip_subset by blast
  then show ?thesis
    by (cases "dget QUALIFIED_RULES (norm_name t)") (auto simp: rule_of_def candidates_def norm_name_strip Let_def)
qed

lemma qualified_candidates:
  assumes "CHR '':'' \<notin> set t"
  shows "set (candidates before (strip (c @ CHR '':'' # t))) \<subseteq> {norm_name (c @ CHR '':'' # t), norm_name t}"
proof -
  have "set (rev (dropWhile is_space (rev t))) \<subseteq> set t" by (auto dest: set_dropWhileD)
  then have t: "CHR '':'' \<notin> set (rev (dropWhile is_space (rev t)))" using assms by blast
  have "norm_name (after_colon (strip (c @ CHR '':'' # t))) = norm_name t"
    unfolding strip_qualified using after_colon_qualified [OF t] norm_name_right by simp
  then show ?thesis by (auto simp: candidates_def Let_def norm_name_strip)
qed

text \<open>A connector name never lowers the class of a tool: an unsafe tool stays unsafe behind any
  connector, but for the names the qualified rules list.\<close>

lemma connector_keeps_unsafe:
  assumes t: "CHR '':'' \<notin> set t" and q: "dget QUALIFIED_RULES (norm_name (c @ CHR '':'' # t)) = None"
    and bare: "rule_of before t = Some (n, risk, ds)" "\<not> safe_risk risk"
    and whole: "rule_of before' (c @ CHR '':'' # t) = Some (m, risk', ds')"
  shows "\<not> safe_risk risk'"
proof
  assume safe: "safe_risk risk'"
  have "match_group (candidates before' (strip (c @ CHR '':'' # t))) RULE_GROUPS = Some (m, risk', ds')"
    using whole q by (simp add: rule_of_def norm_name_strip Let_def)
  then have m: "m \<in> {norm_name (c @ CHR '':'' # t), norm_name t}" "match_group [m] RULE_GROUPS = Some (m, risk', ds')"
    using match_group_one [OF names_nonempty(1)] qualified_candidates [OF t] by blast+
  obtain g where g: "g \<in> set RULE_GROUPS" "fst g = risk'" "m \<in> set (snd (snd g))" using match_group_mem [OF m(2)] by blast
  have unsafe: "(\<exists>h \<in> set RULE_GROUPS. \<not> safe_risk (fst h) \<and> norm_name t \<in> set (snd (snd h)) \<and> norm_name t \<noteq> [] \<and> fst h = risk
       \<and> match_group [norm_name t] RULE_GROUPS = Some (norm_name t, risk, ds))
     \<or> (\<exists>k \<in> set QUALIFIED_RULES. \<not> safe_risk (fst (snd k)) \<and> norm_name t = fst k)"
  proof (cases "dget QUALIFIED_RULES (norm_name t)")
    case None
    then have mg: "match_group [norm_name t] RULE_GROUPS = Some (n, risk, ds)" using bare(1) bare_rule [OF t] by simp
    then have "n = norm_name t" using match_group_mem by blast
    then show ?thesis using mg match_group_mem [OF mg] bare(2) by blast
  next
    case (Some rd)
    then have "rd = (risk, ds)" using bare(1) bare_rule [OF t] by (cases rd) simp
    then have "(norm_name t, risk, ds) \<in> set QUALIFIED_RULES" using Some by (simp add: dget_def map_of_SomeD)
    then show ?thesis using bare(2) by (intro disjI2 bexI) auto
  qed
  show False
  proof (cases "m = norm_name t")
    case True
    then show False
      using unsafe m(2) bare(2) safe qualified_not_grouped by (auto simp: list_all_iff)
  next
    case False
    then have ma: "m = norm_name (c @ CHR '':'' # t)" using m(1) by blast
    have wt: "words (lower t) \<noteq> []"
    proof
      assume "words (lower t) = []"
      then have e: "norm_name t = []" by (simp add: norm_name_words)
      have "dget QUALIFIED_RULES [] = None" by (rule names_nonempty(2))
      then have "\<not> (\<exists>k \<in> set QUALIFIED_RULES. [] = fst k)" by (auto simp: dget_def map_of_eq_None_iff)
      then show False using unsafe e by auto
    qed
    have wc: "words (lower c) \<noteq> []" using False unfolding ma norm_name_qualified by (auto simp: norm_name_words)
    have "m = join_words (words (lower c)) @ CHR ''_'' # norm_name t"
      unfolding ma norm_name_qualified by (simp add: join_words_append [OF wc wt] norm_name_words)
    then show False using no_clash [OF g(1)] g safe unsafe by metis
  qed
qed

section \<open>What a dispatch needs\<close>

lemma shadow_reason_None:
  "shadow_reason before pu resolver auth strict tid cid d canonical risk = None \<longleftrightarrow>
     \<not> strict \<and> (\<exists>r a. resolver = Some r \<and> auth = Some a
       \<and> \<not> flag_value r FORCE_SHADOW_FLAG tid cid False True
       \<and> flag_value r (capability_flag_key d risk) tid cid False False
       \<and> authorization_matches before pu a tid cid d canonical risk)"
  by (auto simp: shadow_reason_def Let_def split: option.splits)

lemma dispatch_facts:
  assumes "dispatch_allowed (evaluate_action before pu action ctx auth resolver)"
  obtains tid cid d canonical risk ds where
    "required_uuid pu (ctx_tenant_id ctx) ''tenant'' = Inr tid"
    "required_uuid pu (ctx_company_id ctx) ''company'' = Inr cid"
    "domain_of (ctx_domain ctx) = Some d" "rule_of before action = Some (canonical, risk, ds)" "d \<in> set ds"
    "ad_risk (evaluate_action before pu action ctx auth resolver) = Some risk"
    "safe_risk risk \<or> shadow_reason before pu resolver auth (is_strict_runtime_env (ctx_runtime_env ctx)) tid cid d canonical risk = None"
  using assms unfolding evaluate_action_def
  by (auto simp: Let_def decision_def safe_risk_def split: sum.splits option.splits prod.splits if_splits)

text \<open>C14: In a strict runtime an unsafe tool is contained behind every connector. Whatever the flags, the
  authorization, the caller and the hash order, a call \<open>connector:tool\<close> is not dispatched when the
  bare tool name is classed as anything but a read or a draft, unless the qualified rules list that
  very connector and tool.
\<close>

theorem strict_runtime_contains_unsafe:
  assumes "is_strict_runtime_env (ctx_runtime_env ctx)"
    and "CHR '':'' \<notin> set tool"
    and "classify_action before tool DomainNone = Some risk" "risk \<in> set UNSAFE_ACTION_RISKS"
    and "dget QUALIFIED_RULES (norm_name (connector @ '':'' @ tool)) = None"
  shows "\<not> dispatch_allowed (evaluate_action before' parse_uuid (connector @ '':'' @ tool) ctx auth resolver)"
proof
  assume d: "dispatch_allowed (evaluate_action before' parse_uuid (connector @ '':'' @ tool) ctx auth resolver)"
  obtain tid cid dom canonical risk' ds where
      r: "rule_of before' (connector @ '':'' @ tool) = Some (canonical, risk', ds)"
      "safe_risk risk' \<or> shadow_reason before' parse_uuid resolver auth
        (is_strict_runtime_env (ctx_runtime_env ctx)) tid cid dom canonical risk' = None"
    by (rule dispatch_facts [OF d])
  have "safe_risk risk'" using r(2) assms(1) unfolding shadow_reason_None by blast
  moreover obtain n ds0 where bare: "rule_of before tool = Some (n, risk, ds0)"
    using assms(3) by (auto simp: classify_action_def split: option.splits prod.splits if_splits)
  moreover have unsafe: "\<not> safe_risk risk" using assms(4) by (auto simp: UNSAFE_ACTION_RISKS_def safe_risk_def)
  moreover have "connector @ '':'' @ tool = connector @ CHR '':'' # tool" by simp
  ultimately show False using connector_keeps_unsafe [OF assms(2) _ bare unsafe] assms(5) r(1) by simp
qed

definition sample_context :: action_context where
  "sample_context = \<lparr> ctx_tenant_id = UuidText ''t'', ctx_company_id = UuidText ''c'', ctx_domain = DomainText ''CFO'',
     ctx_runtime_env = Some ''Production'' \<rparr>"

theorem strict_runtime_contains_unsafe_witness:
  "\<not> dispatch_allowed (evaluate_action (\<lambda>a b. True) Some (''stripe'' @ '':'' @ ''transfer_funds'') sample_context None
       (Some (\<lambda>key t c dflt. Inr True)))"
proof (rule strict_runtime_contains_unsafe)
  show "is_strict_runtime_env (ctx_runtime_env sample_context)" by code_simp
  show "CHR '':'' \<notin> set ''transfer_funds''" by simp
  show "classify_action (\<lambda>a b. True) ''transfer_funds'' DomainNone = Some R_MONEY" by code_simp
  show "R_MONEY \<in> set UNSAFE_ACTION_RISKS" by code_simp
  show "dget QUALIFIED_RULES (norm_name (''stripe'' @ '':'' @ ''transfer_funds'')) = None" by code_simp
qed

text \<open>The canonical name of one and the same call depends on the order of a set, so that an authorization
  for it can be refused or accepted by the hash seed.\<close>

lemma canonical_name_depends_on_order:
  "map_option fst (rule_of (\<lambda>a b. True) ''slack:send_message'') = Some ''slack_send_message''"
  "map_option fst (rule_of (\<lambda>a b. False) ''slack:send_message'') = Some ''send_message''"
  by code_simp+

end
