(* ===== verification/Grants.thy ===== *)
theory Grants
  imports Action_Policy
begin

text \<open>
  Grant enforcement (\<open>auth/grant_enforcement.py\<close>) and the grant an agent run carries
  (\<open>auth/run_grants.py\<close>), with the connector ids a grant may be held under
  (\<open>connectors/registry.py\<close>). The Grantex SDK is a parameter: a record of the functions the code calls
  on its client. So are the agent lookup and the token pool that mints run grants.
\<close>

section \<open>Modes and reasons\<close>

datatype enforcement_mode = OFF | WARN | DENY

fun strictness :: "enforcement_mode \<Rightarrow> nat" where
  "strictness OFF = 0"
| "strictness WARN = 1"
| "strictness DENY = 2"

definition stricter :: "enforcement_mode \<Rightarrow> enforcement_mode \<Rightarrow> enforcement_mode" where
  "stricter a b = (if strictness a \<ge> strictness b then a else b)"

datatype denial_reason = PURPOSE_NOT_ALLOWED | TOOL_NOT_GRANTED | PERMISSION_INSUFFICIENT | CAP_EXCEEDED
  | DECISION_REQUIRED | DECISION_INVALID | GRANT_REVOKED | REGION_MISMATCH | MANIFEST_UNKNOWN_TOOL | TOKEN_INVALID
  | GRANT_MISSING | ENFORCEMENT_UNAVAILABLE | UNCLASSIFIED

fun reason_value :: "denial_reason \<Rightarrow> string" where
  "reason_value PURPOSE_NOT_ALLOWED = ''purpose_not_allowed''"
| "reason_value TOOL_NOT_GRANTED = ''tool_not_granted''"
| "reason_value PERMISSION_INSUFFICIENT = ''permission_insufficient''"
| "reason_value CAP_EXCEEDED = ''cap_exceeded''"
| "reason_value DECISION_REQUIRED = ''decision_required''"
| "reason_value DECISION_INVALID = ''decision_invalid''"
| "reason_value GRANT_REVOKED = ''grant_revoked''"
| "reason_value REGION_MISMATCH = ''region_mismatch''"
| "reason_value MANIFEST_UNKNOWN_TOOL = ''manifest_unknown_tool''"
| "reason_value TOKEN_INVALID = ''token_invalid''"
| "reason_value GRANT_MISSING = ''grant_missing''"
| "reason_value ENFORCEMENT_UNAVAILABLE = ''enforcement_unavailable''"
| "reason_value UNCLASSIFIED = ''unclassified''"

definition SDK_REASON_CODES :: "denial_reason dict" where
  "SDK_REASON_CODES =
     [(''purpose_not_allowed'', PURPOSE_NOT_ALLOWED), (''tool_not_granted'', TOOL_NOT_GRANTED),
      (''permission_insufficient'', PERMISSION_INSUFFICIENT), (''cap_exceeded'', CAP_EXCEEDED),
      (''decision_required'', DECISION_REQUIRED), (''decision_invalid'', DECISION_INVALID),
      (''grant_revoked'', GRANT_REVOKED), (''region_mismatch'', REGION_MISMATCH),
      (''manifest_unknown_tool'', MANIFEST_UNKNOWN_TOOL), (''token_invalid'', TOKEN_INVALID)]"

record denial =
  dn_reason :: denial_reason
  dn_sub_reason :: string
  dn_grant_id :: string
  dn_detail :: string

record grant_check =
  gk_dispatch_allowed :: bool
  gk_denial :: "denial option"

section \<open>The mode of a tenant\<close>

definition FLAG_WARN :: string where "FLAG_WARN = ''grants.enforce_closed.warn''"
definition FLAG_DENY :: string where "FLAG_DENY = ''grants.enforce_closed.deny''"
definition LAST_KNOWN_TTL_SECONDS :: rat where "LAST_KNOWN_TTL_SECONDS = 3600"
definition LAST_KNOWN_MAX :: nat where "LAST_KNOWN_MAX = 4096"

text \<open>The last mode resolved for a tenant in this process, with the time, in insertion order.\<close>

type_synonym last_known = "(enforcement_mode \<times> rat) dict"

fun oldest_known :: "string \<times> enforcement_mode \<times> rat \<Rightarrow> last_known \<Rightarrow> string" where
  "oldest_known e [] = fst e"
| "oldest_known e (f # d) = oldest_known (if snd (snd f) < snd (snd e) then f else e) d"

definition remember :: "rat \<Rightarrow> last_known \<Rightarrow> string \<Rightarrow> enforcement_mode \<Rightarrow> last_known" where
  "remember now known tenant_key mode =
     (let known' = (if \<not> dhas known tenant_key \<and> LAST_KNOWN_MAX \<le> length known
                    then filter (\<lambda>e. fst e \<noteq> oldest_known (hd known) (tl known)) known else known)
      in dset known' tenant_key (mode, now))"

definition recall :: "rat \<Rightarrow> last_known \<Rightarrow> string \<Rightarrow> enforcement_mode option" where
  "recall now known tenant_key =
     (case dget known tenant_key of
        None \<Rightarrow> None
      | Some (mode, t) \<Rightarrow> if now - t > LAST_KNOWN_TTL_SECONDS then None else Some mode)"

record grant_settings =
  grants_isolate_run_tokens :: bool
  grants_enforce_closed :: enforcement_mode
  grantex_audience :: string

definition deployment_default_mode :: "grant_settings \<Rightarrow> enforcement_mode" where
  "deployment_default_mode s = (if grants_isolate_run_tokens s then DENY else grants_enforce_closed s)"

record mode_state =
  ms_cache :: flag_cache
  ms_known :: last_known

text \<open>The two flags are read one after the other, the warning flag first.\<close>

definition flag_mode ::
    "sha256_digest \<Rightarrow> rat \<Rightarrow> flag_store \<Rightarrow> string \<Rightarrow> string \<Rightarrow> (string \<times> enforcement_mode) \<Rightarrow> enforcement_mode \<times> flag_cache
     \<Rightarrow> (flag_error, enforcement_mode) res \<times> flag_cache" where
  "flag_mode sha256 now store tid tenant_key flag st =
     (let (rows, c) = load_flag_rows_strict now now store (snd st) (fst flag) tid
      in (case rows of
            Inl e \<Rightarrow> Inl e
          | Inr r \<Rightarrow> Inr (if authority_flag sha256 (fst flag) r tenant_key then stricter (fst st) (snd flag) else fst st), c))"

definition tenant_text :: "uuid_arg \<Rightarrow> string" where
  "tenant_text t = (case t of UuidNone \<Rightarrow> [] | UuidValue u \<Rightarrow> u | UuidText s \<Rightarrow> s)"

definition fallback_mode :: "rat \<Rightarrow> last_known \<Rightarrow> string \<Rightarrow> enforcement_mode \<Rightarrow> enforcement_mode" where
  "fallback_mode now known tenant_key dflt =
     (case recall now known tenant_key of Some m \<Rightarrow> stricter dflt m | None \<Rightarrow> DENY)"

definition resolve_enforcement_mode ::
    "sha256_digest \<Rightarrow> uuid_parser \<Rightarrow> grant_settings \<Rightarrow> rat \<Rightarrow> flag_store \<Rightarrow> mode_state \<Rightarrow> uuid_arg \<Rightarrow> enforcement_mode \<times> mode_state" where
  "resolve_enforcement_mode sha256 parse_uuid settings now store st tenant_id =
     (let dflt = deployment_default_mode settings; tenant_key = tenant_text tenant_id
      in case (case tenant_id of UuidValue u \<Rightarrow> Some u | _ \<Rightarrow> parse_uuid tenant_key) of
           None \<Rightarrow> (dflt, st)
         | Some tid \<Rightarrow>
             (case flag_mode sha256 now store tid tenant_key (FLAG_WARN, WARN) (dflt, ms_cache st) of
                (Inl e, c) \<Rightarrow> (fallback_mode now (ms_known st) tenant_key dflt, st\<lparr> ms_cache := c \<rparr>)
              | (Inr m, c) \<Rightarrow>
                  (case flag_mode sha256 now store tid tenant_key (FLAG_DENY, DENY) (m, c) of
                     (Inl e, c') \<Rightarrow> (fallback_mode now (ms_known st) tenant_key dflt, st\<lparr> ms_cache := c' \<rparr>)
                   | (Inr m', c') \<Rightarrow> (m', \<lparr> ms_cache = c', ms_known = remember now (ms_known st) tenant_key m' \<rparr>))))"

section \<open>Connector ids\<close>

text \<open>The registered connectors, and the deprecated ones with the replacement each names.\<close>

record connector_registry =
  cr_connectors :: "string list"
  cr_deprecated :: "(string option) dict"

fun fromkeys :: "'a list \<Rightarrow> 'a list" where
  "fromkeys [] = []"
| "fromkeys (x # xs) = x # filter (\<lambda>y. y \<noteq> x) (fromkeys xs)"

definition live_id :: "connector_registry \<Rightarrow> string \<Rightarrow> string" where
  "live_id reg name =
     (if name \<in> set (cr_connectors reg) then name
      else case dget (cr_deprecated reg) name of
             Some (Some r) \<Rightarrow> if r \<in> set (cr_connectors reg) then r else name
           | _ \<Rightarrow> name)"

definition ids_of :: "connector_registry \<Rightarrow> string \<Rightarrow> string list" where
  "ids_of reg name =
     (let live = live_id reg name
      in fromkeys ([name, live] @ map fst (filter (\<lambda>e. snd e = Some live) (cr_deprecated reg))))"

section \<open>Asking Grantex\<close>

record enforce_result =
  er_allowed :: bool
  er_reason :: string
  er_reason_code :: "string option"
  er_sub_reason :: string
  er_grant_id :: string
  er_scopes :: "string list"

text \<open>The SDK client: \<open>enforce\<close> by token, connector, tool and amount, the same on a copy that holds a
  manifest for one tool and an audience, whether the client is the SDK's class, and which permission covers
  which. Each call may raise.\<close>

type_synonym enforce_call = "string \<Rightarrow> string \<Rightarrow> string \<Rightarrow> rat option \<Rightarrow> (string, enforce_result) res"

record grantex_client =
  gx_factory :: "string option"
  gx_is_sdk :: bool
  gx_enforce :: enforce_call
  gx_scoped_enforce :: "string \<Rightarrow> enforce_call"
  gx_covers :: "string \<Rightarrow> string \<Rightarrow> bool"

definition mcp_tool_name :: "string \<Rightarrow> bool" where
  "mcp_tool_name s \<longleftrightarrow> s \<noteq> [] \<and> length s \<le> 64 \<and> (is_lower_ascii (hd s) \<or> is_upper_ascii (hd s))
     \<and> list_all (\<lambda>c. is_lower_ascii c \<or> is_upper_ascii c \<or> is_digit c \<or> c = CHR ''_'' \<or> c = CHR ''-'') (tl s)"

definition mcp_scope_covers :: "grantex_client \<Rightarrow> string \<Rightarrow> string \<Rightarrow> string \<Rightarrow> bool" where
  "mcp_scope_covers gx connector tool scope =
     (let parts = split_on '':'' scope
      in length parts \<ge> 3 \<and> parts ! 0 = ''tool'' \<and> parts ! 1 = connector \<and> gx_covers gx (parts ! 2) ''write''
         \<and> (length parts = 3 \<or> parts ! 3 = tool))"

fun first_allowed :: "grantex_client \<Rightarrow> string \<Rightarrow> string \<Rightarrow> rat option \<Rightarrow> enforce_result \<Rightarrow> string list \<Rightarrow> (string, enforce_result) res" where
  "first_allowed gx token tool amount result [] = Inr result"
| "first_allowed gx token tool amount result (i # is) =
     rbind (gx_enforce gx token i tool amount)
       (\<lambda>other. if er_allowed other then Inr other else first_allowed gx token tool amount result is)"

definition enforce_connector_grant ::
    "grant_settings \<Rightarrow> connector_registry \<Rightarrow> grantex_client \<Rightarrow> string \<Rightarrow> string \<Rightarrow> string \<Rightarrow> rat option \<Rightarrow> (string, enforce_result) res" where
  "enforce_connector_grant settings reg gx token connector tool amount =
     (if prefix ''mcp_'' connector then
        if \<not> gx_is_sdk gx \<or> \<not> mcp_tool_name tool then Inl ''ValueError''
        else rbind (gx_scoped_enforce gx (grantex_audience settings) token connector tool amount)
          (\<lambda>result. if \<not> er_allowed result then Inr result
             else if list_ex (mcp_scope_covers gx connector tool) (er_scopes result) then Inr result
             else Inr (result\<lparr> er_allowed := False,
                 er_reason := ''The verified grant does not authorize this remote MCP tool'',
                 er_reason_code := Some ''tool_not_granted'', er_sub_reason := ''tool_scope_missing'' \<rparr>))
      else rbind (gx_enforce gx token connector tool amount)
        (\<lambda>result. if er_allowed result then Inr result
           else first_allowed gx token tool amount result (tl (ids_of reg connector))))"

section \<open>Classifying a denial\<close>

definition nonspace_run :: "string \<Rightarrow> string \<times> string" where
  "nonspace_run s = (takeWhile (\<lambda>c. \<not> is_space c) s, dropWhile (\<lambda>c. \<not> is_space c) s)"

definition after_prefix :: "string \<Rightarrow> string \<Rightarrow> string option" where
  "after_prefix p s = (if prefix p s then Some (drop (length p) s) else None)"

definition PERMISSIONS :: "string list" where "PERMISSIONS = [''read'', ''write'', ''delete'', ''admin'']"

text \<open>\<open>Amount \S+ exceeds budget cap of \S+ on {connector}\.\<close> and
  \<open>A capped scope on {connector} carries a malformed cap; refusing to authorize amount \S+\.\<close>\<close>

definition amount_message :: "string \<Rightarrow> string \<Rightarrow> bool" where
  "amount_message connector message =
     (case after_prefix ''Amount '' message of None \<Rightarrow> False | Some s \<Rightarrow>
        (case nonspace_run s of (a, s1) \<Rightarrow> a \<noteq> [] \<and>
           (case after_prefix '' exceeds budget cap of '' s1 of None \<Rightarrow> False | Some s2 \<Rightarrow>
              (case nonspace_run s2 of (b, s3) \<Rightarrow> b \<noteq> [] \<and> s3 = '' on '' @ connector @ ''.''))))"

definition malformed_message :: "string \<Rightarrow> string \<Rightarrow> bool" where
  "malformed_message connector message =
     (case after_prefix (''A capped scope on '' @ connector @ '' carries a malformed cap; refusing to authorize amount '') message of
        None \<Rightarrow> False
      | Some s \<Rightarrow> length s \<ge> 2 \<and> last s = CHR ''.'' \<and> list_all (\<lambda>c. \<not> is_space c) s)"

definition SDK_05_MESSAGES :: "string \<Rightarrow> string \<Rightarrow> ((string \<Rightarrow> bool) \<times> denial_reason \<times> string) list" where
  "SDK_05_MESSAGES connector tool =
     [(\<lambda>s. s = ''Token verification failed: Signature has expired'', TOKEN_INVALID, ''expired''),
      (\<lambda>s. case after_prefix ''Token verification failed: '' s of Some r \<Rightarrow> r \<noteq> [] | None \<Rightarrow> False, TOKEN_INVALID, []),
      (\<lambda>s. s = ''No manifest loaded for connector '' @ CHR 39 # connector @ CHR 39 # ''. Load a manifest first.'',
         MANIFEST_UNKNOWN_TOOL, ''unknown_connector''),
      (\<lambda>s. s = ''Unknown tool '' @ CHR 39 # tool @ CHR 39 # '' on connector '' @ CHR 39 # connector @ CHR 39 #
         ''. Tool not found in manifest.'', MANIFEST_UNKNOWN_TOOL, ''unknown_tool''),
      (\<lambda>s. s = ''No scope grants access to connector '' @ CHR 39 # connector @ CHR 39 # ''.'', TOOL_NOT_GRANTED, []),
      (\<lambda>s. list_ex (\<lambda>p. list_ex (\<lambda>q. s = p @ '' scope does not permit '' @ q @ '' operations on '' @ connector @ ''.'')
         PERMISSIONS) PERMISSIONS, PERMISSION_INSUFFICIENT, []),
      (amount_message connector, CAP_EXCEEDED, ''amount_cap''),
      (\<lambda>s. s = ''Amount must be a finite number to enforce a budget cap on '' @ connector @ ''.'', CAP_EXCEEDED, ''invalid_amount''),
      (malformed_message connector, CAP_EXCEEDED, ''malformed_cap'')]"

definition classify_sdk_05_message :: "string \<Rightarrow> string \<Rightarrow> string \<Rightarrow> denial_reason \<times> string" where
  "classify_sdk_05_message message connector tool =
     (case find (\<lambda>p. fst p message) (SDK_05_MESSAGES connector tool) of
        Some p \<Rightarrow> snd p
      | None \<Rightarrow> (UNCLASSIFIED, ''unknown_message''))"

definition classify_enforce_result :: "enforce_result \<Rightarrow> string \<Rightarrow> string \<Rightarrow> denial_reason \<times> string" where
  "classify_enforce_result result connector tool =
     (let code = strip (case er_reason_code result of None \<Rightarrow> [] | Some c \<Rightarrow> c)
      in if code \<noteq> [] then
           (case dget SDK_REASON_CODES code of
              Some r \<Rightarrow> (r, take 64 (strip (er_sub_reason result)))
            | None \<Rightarrow> (UNCLASSIFIED, ''unknown_reason_code''))
         else if er_reason_code result \<noteq> None then (UNCLASSIFIED, ''no_reason_code'')
         else classify_sdk_05_message (er_reason result) connector tool)"

section \<open>Checking a call\<close>

record grant_env =
  ge_settings :: grant_settings
  ge_registry :: connector_registry
  ge_client :: grantex_client

definition ask_grantex :: "grant_env \<Rightarrow> string \<Rightarrow> string \<Rightarrow> string \<Rightarrow> rat option \<Rightarrow> (string, enforce_result) res" where
  "ask_grantex env token connector tool amount =
     (case gx_factory (ge_client env) of
        Some e \<Rightarrow> Inl e
      | None \<Rightarrow> enforce_connector_grant (ge_settings env) (ge_registry env) (ge_client env) token connector tool amount)"

definition tool_denial :: "grant_env \<Rightarrow> string \<Rightarrow> string \<Rightarrow> string \<Rightarrow> rat option \<Rightarrow> string \<Rightarrow> denial option" where
  "tool_denial env token connector tool amount missing =
     (if token = [] then
        Some \<lparr> dn_reason = GRANT_MISSING, dn_sub_reason = text_or missing ''no_grant'', dn_grant_id = [], dn_detail = [] \<rparr>
      else case ask_grantex env token connector tool amount of
        Inl e \<Rightarrow> Some \<lparr> dn_reason = ENFORCEMENT_UNAVAILABLE, dn_sub_reason = e, dn_grant_id = [], dn_detail = [] \<rparr>
      | Inr result \<Rightarrow>
          if er_allowed result then None
          else let (reason, sub) = classify_enforce_result result connector tool
               in Some \<lparr> dn_reason = reason, dn_sub_reason = sub, dn_grant_id = er_grant_id result,
                    dn_detail = (if reason = UNCLASSIFIED then take 200 (er_reason result) else []) \<rparr>)"

definition check_tool_grant ::
    "grant_env \<Rightarrow> enforcement_mode \<Rightarrow> string \<Rightarrow> string \<Rightarrow> string \<Rightarrow> rat option \<Rightarrow> string \<Rightarrow> (string, grant_check) res" where
  "check_tool_grant env mode token connector tool amount missing =
     (if mode = OFF then Inl ''check_tool_grant is only for warn and deny modes''
      else case tool_denial env token connector tool amount missing of
        None \<Rightarrow> Inr \<lparr> gk_dispatch_allowed = True, gk_denial = None \<rparr>
      | Some d \<Rightarrow> Inr \<lparr> gk_dispatch_allowed = (mode = WARN), gk_denial = Some d \<rparr>)"

section \<open>Run grants\<close>

record run_grant =
  rg_mode :: enforcement_mode
  rg_token :: string
  rg_source :: string
  rg_grant_id :: string
  rg_missing_sub_reason :: string
  rg_expires_at :: "rat option"
  rg_ttl_seconds :: int
  rg_tenant_id :: string
  rg_agent_id :: string
  rg_grantex_agent_id :: string
  rg_scopes :: "string list"
  rg_isolation_key :: string
  rg_caller_token :: string
  rg_caller_agent_id :: string
  rg_caller_token_unavailable :: bool

definition plain_grant :: "enforcement_mode \<Rightarrow> string \<Rightarrow> string \<Rightarrow> string \<Rightarrow> run_grant" where
  "plain_grant mode token source missing =
     \<lparr> rg_mode = mode, rg_token = token, rg_source = source, rg_grant_id = [], rg_missing_sub_reason = missing,
       rg_expires_at = None, rg_ttl_seconds = 0, rg_tenant_id = [], rg_agent_id = [], rg_grantex_agent_id = [],
       rg_scopes = [], rg_isolation_key = [], rg_caller_token = [], rg_caller_agent_id = [],
       rg_caller_token_unavailable = False \<rparr>"

definition LEGACY_ENFORCED_SOURCES :: "string list" where
  "LEGACY_ENFORCED_SOURCES = [''supplied'', ''agent_config'']"

definition POOL_SOURCES :: "string list" where "POOL_SOURCES = [''minted'', ''pool_cache'']"

definition call_mode :: "run_grant \<Rightarrow> enforcement_mode" where
  "call_mode g = (if rg_mode g = WARN \<and> rg_token g \<noteq> [] \<and> rg_source g \<in> set LEGACY_ENFORCED_SOURCES then DENY else rg_mode g)"

subsection \<open>The caller of a run\<close>

record caller_grant =
  cg_token :: string
  cg_agent_id :: string
  cg_required :: bool

definition NO_CALLER :: caller_grant where
  "NO_CALLER = \<lparr> cg_token = [], cg_agent_id = [], cg_required = False \<rparr>"

definition bound :: "caller_grant \<Rightarrow> bool" where
  "bound c \<longleftrightarrow> cg_token c \<noteq> [] \<or> cg_required c"

text \<open>What a run remembers of its caller: the agent, never the token.\<close>

definition marker :: "caller_grant \<Rightarrow> string option" where
  "marker c = (if bound c then Some (cg_agent_id c) else None)"

definition caller_grant_for_run :: "caller_grant \<Rightarrow> string option \<Rightarrow> caller_grant" where
  "caller_grant_for_run active m =
     (case m of
        None \<Rightarrow> active
      | Some agent_id \<Rightarrow>
          if cg_token active \<noteq> [] \<and> cg_agent_id active = agent_id then active
          else \<lparr> cg_token = [], cg_agent_id = agent_id, cg_required = True \<rparr>)"

subsection \<open>Resolving the grant of a run\<close>

record pool_grant =
  pg_token :: string
  pg_grant_id :: string
  pg_expires_at :: "rat option"
  pg_source :: string
  pg_ttl_seconds :: int

text \<open>The agent's stored Grantex configuration (or the failed lookup), \<open>str\<close> of a stored value, and the token
  pool: by tenant, agent, Grantex agent, scopes and isolation key, a grant or the code of the failure.\<close>

record resolve_env =
  re_load_config :: "string \<Rightarrow> string \<Rightarrow> (unit, pv dict) res"
  re_str :: "pv \<Rightarrow> string"
  re_pool :: "string \<Rightarrow> string \<Rightarrow> string \<Rightarrow> string list \<Rightarrow> int option \<Rightarrow> string option \<Rightarrow> (string, pool_grant) res"

fun nonempty_items :: "pv list \<Rightarrow> string list" where
  "nonempty_items [] = []"
| "nonempty_items (VStr s # vs) = (if s = [] then nonempty_items vs else s # nonempty_items vs)"
| "nonempty_items (v # vs) = nonempty_items vs"

definition config_scopes :: "pv dict \<Rightarrow> string list" where
  "config_scopes config = (case vget config ''grantex_scopes'' of VList vs \<Rightarrow> nonempty_items vs | _ \<Rightarrow> [])"

definition legacy_token :: "pv dict \<Rightarrow> string option" where
  "legacy_token config = (case vget config ''grant_token'' of VStr s \<Rightarrow> if strip s = [] then None else Some (strip s) | _ \<Rightarrow> None)"

definition resolve_run_agent_grant ::
    "resolve_env \<Rightarrow> enforcement_mode \<Rightarrow> string option \<Rightarrow> string option \<Rightarrow> string \<Rightarrow> pv dict option \<Rightarrow> string option \<Rightarrow> run_grant" where
  "resolve_run_agent_grant env mode tenant_id agent_id supplied grantex_config isolation_key =
     (let tenant = (case tenant_id of Some t \<Rightarrow> t | None \<Rightarrow> []); agent = (case agent_id of Some a \<Rightarrow> a | None \<Rightarrow> []);
          missing = (\<lambda>sub. plain_grant mode [] ''none'' sub)
      in if supplied \<noteq> [] then plain_grant mode supplied ''supplied'' []
         else if agent = [] then missing ''no_agent''
         else case (case grantex_config of Some c \<Rightarrow> Inr c | None \<Rightarrow> re_load_config env tenant agent) of
           Inl e \<Rightarrow> missing ''lookup_failed''
         | Inr config \<Rightarrow>
             (case (if isolation_key = None then legacy_token config else None) of
                Some t \<Rightarrow> plain_grant mode t ''agent_config'' []
              | None \<Rightarrow>
                  let scopes = config_scopes config;
                      gid = (let v = vget config ''grantex_agent_id'' in if truthy v then re_str env v else [])
                  in case re_pool env tenant agent gid scopes None isolation_key of
                       Inl sub \<Rightarrow> missing sub
                     | Inr p \<Rightarrow>
                         \<lparr> rg_mode = mode, rg_token = pg_token p, rg_source = pg_source p, rg_grant_id = pg_grant_id p,
                           rg_missing_sub_reason = [], rg_expires_at = pg_expires_at p, rg_ttl_seconds = pg_ttl_seconds p,
                           rg_tenant_id = tenant, rg_agent_id = agent, rg_grantex_agent_id = gid, rg_scopes = scopes,
                           rg_isolation_key = (case isolation_key of Some k \<Rightarrow> k | None \<Rightarrow> []),
                           rg_caller_token = [], rg_caller_agent_id = [], rg_caller_token_unavailable = False \<rparr>))"

record run_request =
  rr_tenant_id :: "string option"
  rr_agent_id :: "string option"
  rr_supplied_token :: string
  rr_grantex_config :: "pv dict option"
  rr_caller_token :: string
  rr_caller_agent_id :: string
  rr_caller_required :: bool
  rr_isolation_key :: "string option"

definition bind_caller :: "string \<Rightarrow> string \<Rightarrow> run_request \<Rightarrow> run_grant \<Rightarrow> run_grant" where
  "bind_caller caller caller_agent q g =
     (if caller \<noteq> [] then g\<lparr> rg_caller_token := caller, rg_caller_agent_id := caller_agent \<rparr>
      else if rr_caller_required q \<and> strip (rr_caller_token q) = []
      then g\<lparr> rg_caller_agent_id := caller_agent, rg_caller_token_unavailable := True \<rparr>
      else g)"

text \<open>\<open>mode\<close> is the mode given or the one resolved for the tenant; \<open>fresh\<close> the new isolation key.\<close>

definition resolve_run_grant ::
    "resolve_env \<Rightarrow> grant_settings \<Rightarrow> enforcement_mode \<Rightarrow> string \<Rightarrow> run_request \<Rightarrow> run_grant" where
  "resolve_run_grant env settings mode0 fresh q =
     (let supplied = strip (rr_supplied_token q); caller = strip (rr_caller_token q);
          agent = (case rr_agent_id q of Some a \<Rightarrow> a | None \<Rightarrow> [])
      in if grants_isolate_run_tokens settings then
           let key = (case rr_isolation_key q of Some k \<Rightarrow> text_or k fresh | None \<Rightarrow> fresh)
           in if supplied \<noteq> [] \<and> caller \<noteq> [] \<and> caller \<noteq> supplied
              then plain_grant DENY [] ''none'' ''ambiguous_external_grants''
              else let caller' = (if supplied \<noteq> [] then supplied else caller);
                       caller_agent = (if supplied \<noteq> [] then text_or (rr_caller_agent_id q) agent else rr_caller_agent_id q)
                   in bind_caller caller' caller_agent q
                        (resolve_run_agent_grant env DENY (rr_tenant_id q) (rr_agent_id q) [] (rr_grantex_config q) (Some key))
         else if mode0 = OFF then
           let legacy = text_or (rr_supplied_token q) (rr_caller_token q)
           in plain_grant OFF legacy (if strip legacy \<noteq> [] then ''supplied'' else []) []
         else
           let own = caller \<noteq> [] \<and> supplied = [] \<and> rr_caller_agent_id q \<noteq> [] \<and> rr_caller_agent_id q = agent
           in bind_caller (if own then [] else caller) (rr_caller_agent_id q) q
                (resolve_run_agent_grant env mode0 (rr_tenant_id q) (rr_agent_id q) (if own then caller else supplied)
                   (rr_grantex_config q) None))"

subsection \<open>Refreshing\<close>

definition min_remaining_seconds :: "int \<Rightarrow> int" where
  "min_remaining_seconds ttl = max 120 (\<lceil>(of_int ttl / 10 :: rat)\<rceil>)"

definition refresh_run_grant :: "resolve_env \<Rightarrow> rat \<Rightarrow> run_grant \<Rightarrow> run_grant" where
  "refresh_run_grant env now g =
     (if rg_mode g = OFF \<or> rg_source g \<notin> set POOL_SOURCES then g
      else if (case rg_expires_at g of Some t \<Rightarrow> t - now \<ge> of_int (min_remaining_seconds (rg_ttl_seconds g)) | None \<Rightarrow> False) then g
      else case re_pool env (rg_tenant_id g) (rg_agent_id g) (rg_grantex_agent_id g) (rg_scopes g)
                  (if rg_ttl_seconds g = 0 then None else Some (rg_ttl_seconds g))
                  (if rg_isolation_key g = [] then None else Some (rg_isolation_key g)) of
             Inl e \<Rightarrow> g
           | Inr p \<Rightarrow> g\<lparr> rg_token := pg_token p, rg_source := pg_source p, rg_grant_id := pg_grant_id p,
                        rg_expires_at := pg_expires_at p, rg_ttl_seconds := pg_ttl_seconds p \<rparr>)"

subsection \<open>Checking a call of a run\<close>

definition connector_scope :: "string \<Rightarrow> string \<Rightarrow> string list option" where
  "connector_scope connector scope =
     (let parts = split_on '':'' scope
      in if length parts < 3 \<or> parts ! 0 \<notin> {''tool'', ''agenticorg''} \<or> parts ! 1 \<noteq> connector then None
         else Some parts)"

definition names_tool :: "string list \<Rightarrow> bool" where
  "names_tool parts \<longleftrightarrow> length parts \<ge> 4 \<and> parts ! 3 \<noteq> []"

definition tool_scope_denial :: "string list \<Rightarrow> string \<Rightarrow> string \<Rightarrow> denial option" where
  "tool_scope_denial scopes connector tool =
     (let own = List.map_filter (connector_scope connector) scopes;
          named = map (\<lambda>parts. parts ! 3) (filter names_tool own)
      in if list_ex (\<lambda>parts. \<not> names_tool parts) own \<or> named = [] \<or> tool \<in> set named then None
         else Some \<lparr> dn_reason = TOOL_NOT_GRANTED, dn_sub_reason = ''tool_scope_missing'', dn_grant_id = [],
                dn_detail = connector @ '':'' @ tool \<rparr>)"

definition check_run_tokens :: "grant_env \<Rightarrow> run_grant \<Rightarrow> string \<Rightarrow> string \<Rightarrow> rat option \<Rightarrow> (string, grant_check) res" where
  "check_run_tokens env g connector tool amount =
     (let own = check_tool_grant env (call_mode g) (rg_token g) connector tool amount (rg_missing_sub_reason g)
      in if rg_caller_token_unavailable g \<and> rg_caller_token g = [] then
           check_tool_grant env DENY [] connector tool amount ''caller_token_unavailable''
         else if rg_caller_token g \<noteq> [] then
           rbind (check_tool_grant env DENY (rg_caller_token g) connector tool amount [])
             (\<lambda>caller_check. if \<not> gk_dispatch_allowed caller_check then Inr caller_check else own)
         else own)"

definition check_run_grant :: "grant_env \<Rightarrow> run_grant \<Rightarrow> string \<Rightarrow> string \<Rightarrow> rat option \<Rightarrow> (string, grant_check) res" where
  "check_run_grant env g connector tool amount =
     (case (if call_mode g = OFF then None else tool_scope_denial (rg_scopes g) connector tool) of
        Some d \<Rightarrow>
          if call_mode g \<noteq> WARN then Inr \<lparr> gk_dispatch_allowed = False, gk_denial = Some d \<rparr>
          else check_run_tokens env g connector tool amount
      | None \<Rightarrow> check_run_tokens env g connector tool amount)"

definition direct_tool_call_permitted :: "grant_env \<Rightarrow> run_grant \<Rightarrow> string \<Rightarrow> string \<Rightarrow> (string, bool) res" where
  "direct_tool_call_permitted env g connector tool =
     (if rg_mode g = OFF then Inr True
      else rbind (check_run_grant env g connector tool None) (\<lambda>check. Inr (gk_dispatch_allowed check)))"

section \<open>What a check shows\<close>

text \<open>Grantex has allowed the token for the connector or for an id linked to it.\<close>

definition grantex_allowed :: "grant_env \<Rightarrow> string \<Rightarrow> string \<Rightarrow> string \<Rightarrow> rat option \<Rightarrow> bool" where
  "grantex_allowed env token connector tool amount \<longleftrightarrow> token \<noteq> []
     \<and> (\<exists>i r. er_allowed r
         \<and> (i \<in> set (ids_of (ge_registry env) connector) \<and> gx_enforce (ge_client env) token i tool amount = Inr r
            \<or> prefix ''mcp_'' connector
              \<and> gx_scoped_enforce (ge_client env) (grantex_audience (ge_settings env)) token connector tool amount = Inr r
              \<and> list_ex (mcp_scope_covers (ge_client env) connector tool) (er_scopes r)))"

lemma first_allowed_sound:
  "first_allowed gx token tool amount result is = Inr r \<Longrightarrow> er_allowed r \<Longrightarrow> \<not> er_allowed result \<Longrightarrow>
     \<exists>i \<in> set is. gx_enforce gx token i tool amount = Inr r"
  by (induction "is") (auto split: if_splits)

lemma set_fromkeys [simp]: "set (fromkeys xs) = set xs"
  by (induction xs) auto

lemma ids_of_self: "connector \<in> set (ids_of reg connector)"
  by (simp add: ids_of_def Let_def)

lemma ids_of_tail: "i \<in> set (tl (ids_of reg connector)) \<Longrightarrow> i \<in> set (ids_of reg connector)"
  by (cases "ids_of reg connector") auto

lemma ask_grantex_sound:
  assumes "ask_grantex env token connector tool amount = Inr r" "er_allowed r" "token \<noteq> []"
  shows "grantex_allowed env token connector tool amount"
proof (cases "prefix ''mcp_'' connector")
  case True
  obtain r0 where r0: "gx_scoped_enforce (ge_client env) (grantex_audience (ge_settings env)) token connector tool amount = Inr r0"
      "\<not> er_allowed r0 \<and> r = r0 \<or> list_ex (mcp_scope_covers (ge_client env) connector tool) (er_scopes r0) \<and> r = r0
        \<or> r = r0\<lparr> er_allowed := False, er_reason := ''The verified grant does not authorize this remote MCP tool'',
            er_reason_code := Some ''tool_not_granted'', er_sub_reason := ''tool_scope_missing'' \<rparr>"
    using assms(1) True by (auto simp: ask_grantex_def enforce_connector_grant_def split: option.splits if_splits)
  then have "list_ex (mcp_scope_covers (ge_client env) connector tool) (er_scopes r0) \<and> r = r0" using assms(2) by auto
  then show ?thesis using r0(1) True assms(2,3) unfolding grantex_allowed_def by blast
next
  case False
  obtain r0 where r0: "gx_enforce (ge_client env) token connector tool amount = Inr r0"
      "er_allowed r0 \<and> r = r0 \<or> \<not> er_allowed r0
        \<and> first_allowed (ge_client env) token tool amount r0 (tl (ids_of (ge_registry env) connector)) = Inr r"
    using assms False by (auto simp: ask_grantex_def enforce_connector_grant_def split: option.splits if_splits)
  then have "\<exists>i \<in> set (ids_of (ge_registry env) connector). gx_enforce (ge_client env) token i tool amount = Inr r"
    using first_allowed_sound assms(2) ids_of_self ids_of_tail by metis
  then show ?thesis using assms(2,3) by (auto simp: grantex_allowed_def)
qed

lemma check_tool_grant_sound:
  assumes "check_tool_grant env mode token connector tool amount missing = Inr k" "gk_dispatch_allowed k" "mode = DENY"
  shows "grantex_allowed env token connector tool amount"
  using assms ask_grantex_sound
  by (auto simp: check_tool_grant_def tool_denial_def split: option.splits sum.splits if_splits prod.splits)

lemma check_run_tokens_sound:
  assumes "check_run_tokens env g connector tool amount = Inr k" "gk_dispatch_allowed k"
  shows "rg_caller_token g \<noteq> [] \<Longrightarrow> grantex_allowed env (rg_caller_token g) connector tool amount"
    and "rg_caller_token_unavailable g \<Longrightarrow> rg_caller_token g \<noteq> []"
    and "call_mode g = DENY \<Longrightarrow> grantex_allowed env (rg_token g) connector tool amount"
proof -
  have none: "\<not> grantex_allowed env [] connector tool amount" by (simp add: grantex_allowed_def)
  show "rg_caller_token g \<noteq> [] \<Longrightarrow> grantex_allowed env (rg_caller_token g) connector tool amount"
    using assms check_tool_grant_sound [of env DENY "rg_caller_token g" connector tool amount]
    by (auto simp: check_run_tokens_def Let_def split: if_splits)
  show "rg_caller_token_unavailable g \<Longrightarrow> rg_caller_token g \<noteq> []"
    using assms none check_tool_grant_sound [of env DENY "[]" connector tool amount]
    by (auto simp: check_run_tokens_def Let_def split: if_splits)
  show "call_mode g = DENY \<Longrightarrow> grantex_allowed env (rg_token g) connector tool amount"
    using assms none check_tool_grant_sound [of env DENY _ connector tool amount]
    by (auto simp: check_run_tokens_def Let_def split: if_splits)
qed

lemma check_run_grant_tokens:
  assumes "check_run_grant env g connector tool amount = Inr k" "gk_dispatch_allowed k"
  shows "check_run_tokens env g connector tool amount = Inr k"
    and "call_mode g = DENY \<Longrightarrow> tool_scope_denial (rg_scopes g) connector tool = None"
  using assms by (auto simp: check_run_grant_def split: option.splits if_splits)

lemmas check_run_grant_sound = check_run_tokens_sound [OF check_run_grant_tokens(1)]

lemma resolve_run_agent_grant_facts:
  "rg_caller_token (resolve_run_agent_grant env mode t a supplied config key) = []"
  "rg_mode (resolve_run_agent_grant env mode t a supplied config key) = mode"
  "supplied \<noteq> [] \<Longrightarrow> resolve_run_agent_grant env mode t a supplied config key = plain_grant mode supplied ''supplied'' []"
  by (auto simp: resolve_run_agent_grant_def plain_grant_def Let_def split: option.splits sum.splits)

lemma bind_caller_facts:
  "caller \<noteq> [] \<Longrightarrow> rg_caller_token (bind_caller caller agent q g) = caller"
  "rg_caller_token g = [] \<Longrightarrow> rg_caller_token (bind_caller [] agent q g) = []"
  "rr_caller_required q \<Longrightarrow> strip (rr_caller_token q) = [] \<Longrightarrow> rg_caller_token_unavailable (bind_caller [] agent q g)"
  "strip (rr_caller_token q) \<noteq> [] \<Longrightarrow> bind_caller [] agent q g = g"
  by (auto simp: bind_caller_def)

text \<open>The token the caller's authority is checked with: the run's own token when the caller is the run's agent.\<close>

lemma resolved_caller:
  assumes "g = resolve_run_grant renv settings mode fresh q" "rg_mode g \<noteq> OFF" "strip (rr_caller_token q) \<noteq> []"
  shows "rg_caller_token g = strip (rr_caller_token q)
    \<or> call_mode g = DENY \<and> rg_token g \<in> {[], strip (rr_caller_token q)}"
proof (cases "grants_isolate_run_tokens settings")
  case True
  then show ?thesis
    using assms bind_caller_facts(1) [of "strip (rr_caller_token q)"]
    by (auto simp: resolve_run_grant_def Let_def plain_grant_def call_mode_def split: if_splits)
next
  case False
  define own where "own \<longleftrightarrow> strip (rr_supplied_token q) = [] \<and> rr_caller_agent_id q \<noteq> []
     \<and> rr_caller_agent_id q = (case rr_agent_id q of Some a \<Rightarrow> a | None \<Rightarrow> [])"
  have m: "mode \<noteq> OFF" using assms False by (auto simp: resolve_run_grant_def Let_def plain_grant_def)
  have g: "g = bind_caller (if own then [] else strip (rr_caller_token q)) (rr_caller_agent_id q) q
      (resolve_run_agent_grant renv mode (rr_tenant_id q) (rr_agent_id q)
        (if own then strip (rr_caller_token q) else strip (rr_supplied_token q)) (rr_grantex_config q) None)"
    using assms False m by (simp add: resolve_run_grant_def Let_def own_def)
  show ?thesis
  proof (cases own)
    case True
    then have "g = plain_grant mode (strip (rr_caller_token q)) ''supplied'' []"
      using g assms(3) bind_caller_facts(4) resolve_run_agent_grant_facts(3) by simp
    then show ?thesis
      using m assms(3) by (cases mode) (auto simp: plain_grant_def call_mode_def LEGACY_ENFORCED_SOURCES_def)
  qed (use g assms(3) bind_caller_facts(1) in simp)
qed

lemma resolved_required:
  assumes "g = resolve_run_grant renv settings mode fresh q" "rg_mode g \<noteq> OFF"
    "rr_caller_required q" "strip (rr_caller_token q) = []"
  shows "rg_caller_token g = [] \<and> rg_caller_token_unavailable g
    \<or> grants_isolate_run_tokens settings \<and> rg_caller_token g = strip (rr_supplied_token q) \<and> strip (rr_supplied_token q) \<noteq> []"
  using assms bind_caller_facts(1) [of "strip (rr_supplied_token q)"] bind_caller_facts(2)
    [OF resolve_run_agent_grant_facts(1)] bind_caller_facts(3)
  by (auto simp: resolve_run_grant_def Let_def plain_grant_def split: if_splits)



section \<open>An outage of the flag store\<close>

lemma stricter_ge: "strictness a \<le> strictness (stricter a b)" "strictness b \<le> strictness (stricter a b)"
  by (auto simp: stricter_def)

lemma strictness_max: "strictness m \<le> 2"
  by (cases m) auto

lemma fallback_ge: "strictness dflt \<le> strictness (fallback_mode now known key dflt)"
  by (auto simp: fallback_mode_def stricter_ge strictness_max split: option.splits)

lemma flag_mode_result:
  assumes "flag_mode sha256 now store tid key flag (m, c) = (x, c')"
  obtains e where "load_flag_rows_strict now now store c (fst flag) tid = (Inl e, c')" "x = Inl e"
  | r where "load_flag_rows_strict now now store c (fst flag) tid = (Inr r, c')"
      "x = Inr (if authority_flag sha256 (fst flag) r key then stricter m (snd flag) else m)"
  using assms by (auto simp: flag_mode_def split: prod.splits sum.splits)

definition mode_of :: "sha256_digest \<Rightarrow> string \<Rightarrow> enforcement_mode \<Rightarrow> flag_rows \<Rightarrow> flag_rows \<Rightarrow> enforcement_mode" where
  "mode_of sha256 key dflt w d =
     (let m = (if authority_flag sha256 FLAG_WARN w key then stricter dflt WARN else dflt)
      in if authority_flag sha256 FLAG_DENY d key then stricter m DENY else m)"

text \<open>A resolution reads both flags, or one of the reads fails and the mode is the fallback.\<close>

lemma resolve_cases:
  assumes tid: "(case tenant of UuidValue u \<Rightarrow> Some u | _ \<Rightarrow> pu (tenant_text tenant)) = Some tid"
    and "resolve_enforcement_mode sha256 pu settings now store st tenant = (m, st')"
  obtains w d c where "load_flag_rows_strict now now store (ms_cache st) FLAG_WARN tid = (Inr w, c)"
      "load_flag_rows_strict now now store c FLAG_DENY tid = (Inr d, ms_cache st')"
      "m = mode_of sha256 (tenant_text tenant) (deployment_default_mode settings) w d"
      "ms_known st' = remember now (ms_known st) (tenant_text tenant) m"
  | e where "load_flag_rows_strict now now store (ms_cache st) FLAG_WARN tid = (Inl e, ms_cache st')"
      "m = fallback_mode now (ms_known st) (tenant_text tenant) (deployment_default_mode settings)"
      "ms_known st' = ms_known st"
  | w c e where "load_flag_rows_strict now now store (ms_cache st) FLAG_WARN tid = (Inr w, c)"
      "load_flag_rows_strict now now store c FLAG_DENY tid = (Inl e, ms_cache st')"
      "m = fallback_mode now (ms_known st) (tenant_text tenant) (deployment_default_mode settings)"
      "ms_known st' = ms_known st"
  using assms
  by (auto simp: resolve_enforcement_mode_def mode_of_def Let_def elim!: flag_mode_result split: prod.splits sum.splits)

lemma fallback_later:
  assumes "now \<le> later"
  shows "strictness (fallback_mode now known key dflt) \<le> strictness (fallback_mode later known key dflt)"
  using assms by (auto simp: fallback_mode_def recall_def strictness_max split: option.splits prod.splits if_splits)

lemma fallback_remembered:
  assumes "now \<le> later" "later - now \<le> LAST_KNOWN_TTL_SECONDS"
  shows "strictness m \<le> strictness (fallback_mode later (remember now known key m) key dflt)"
  using assms by (auto simp: fallback_mode_def recall_def remember_def Let_def dget_dset stricter_ge)

text \<open>C30: An outage of the flag store never weakens enforcement. The mode resolved for a tenant is never
  below the deployment default, and when the store becomes unreadable after a resolution, the next
  resolution of that tenant within an hour is at least as strict, whatever the cache holds.
\<close>

theorem outage_never_weakens_enforcement:
  assumes "resolve_enforcement_mode sha256 parse_uuid settings now store st tenant = (m, st')"
    and "resolve_enforcement_mode sha256 parse_uuid settings later None st' tenant = (m', st'')"
    and "distinct (map fst (ms_cache st))" and "now \<le> later" "later - now \<le> LAST_KNOWN_TTL_SECONDS"
  shows "strictness (deployment_default_mode settings) \<le> strictness m \<and> strictness m \<le> strictness m'"
proof (cases "case tenant of UuidValue u \<Rightarrow> Some u | _ \<Rightarrow> parse_uuid (tenant_text tenant)")
  case None
  then show ?thesis using assms(1,2) by (simp add: resolve_enforcement_mode_def Let_def)
next
  case tid: (Some tid)
  let ?key = "tenant_text tenant" and ?dflt = "deployment_default_mode settings"
  have outage: "m' = fallback_mode later (ms_known st') ?key ?dflt \<or>
      (\<exists>w d. fst (load_flag_rows_strict later later None (ms_cache st') FLAG_WARN tid) = Inr w
        \<and> fst (load_flag_rows_strict later later None (ms_cache st') FLAG_DENY tid) = Inr d
        \<and> m' = mode_of sha256 ?key ?dflt w d)"
    by (rule resolve_cases [OF tid assms(2)]) (metis fst_conv snd_conv strict_read_outage(1))+
  show ?thesis
  proof (rule resolve_cases [OF tid assms(1)])
    fix w d c
    assume r: "load_flag_rows_strict now now store (ms_cache st) FLAG_WARN tid = (Inr w, c)"
        "load_flag_rows_strict now now store c FLAG_DENY tid = (Inr d, ms_cache st')"
      and m: "m = mode_of sha256 ?key ?dflt w d" and known: "ms_known st' = remember now (ms_known st) ?key m"
    have ge: "strictness ?dflt \<le> strictness m"
      unfolding m mode_of_def Let_def by (auto simp: stricter_def)
    obtain ew where "cache_get c (rows_key tid FLAG_WARN) = Some (CRows (global_row w) (tenant_row w), ew)"
      using strict_read_cached [OF r(1)] by blast
    then have w: "cache_get (ms_cache st') (rows_key tid FLAG_WARN) \<in> {None, Some (CRows (global_row w) (tenant_row w), ew)}"
      using strict_read_other [OF r(2) strict_read_distinct [OF r(1) assms(3)], of "rows_key tid FLAG_WARN"]
      by (auto simp: rows_key_def FLAG_WARN_def FLAG_DENY_def)
    obtain ed where d: "cache_get (ms_cache st') (rows_key tid FLAG_DENY) = Some (CRows (global_row d) (tenant_row d), ed)"
      using strict_read_cached [OF r(2)] by blast
    have same: "w' = w" if "fst (load_flag_rows_strict later later None (ms_cache st') FLAG_WARN tid) = Inr w'" for w'
      using w that strict_read_outage(2) [of "ms_cache st'" tid FLAG_WARN "global_row w" "tenant_row w" ew later later]
        strict_read_outage(3) [of "ms_cache st'" tid FLAG_WARN later later] by auto
    moreover have "d' = d" if "fst (load_flag_rows_strict later later None (ms_cache st') FLAG_DENY tid) = Inr d'" for d'
      using that strict_read_outage(2) [OF d, of later later] by auto
    ultimately show ?thesis
      using outage ge m fallback_remembered [OF assms(4,5)] unfolding known by auto
  next
    fix e
    assume "load_flag_rows_strict now now store (ms_cache st) FLAG_WARN tid = (Inl e, ms_cache st')"
      and f: "m = fallback_mode now (ms_known st) ?key ?dflt" "ms_known st' = ms_known st"
    then have "m' = fallback_mode later (ms_known st') ?key ?dflt"
      using outage strict_read_failed [of now now store "ms_cache st" FLAG_WARN tid e "ms_cache st'"] assms(4) by auto
    then show ?thesis using f fallback_ge fallback_later [OF assms(4)] by simp
  next
    fix w c e
    assume "load_flag_rows_strict now now store c FLAG_DENY tid = (Inl e, ms_cache st')"
      and f: "m = fallback_mode now (ms_known st) ?key ?dflt" "ms_known st' = ms_known st"
    then have "m' = fallback_mode later (ms_known st') ?key ?dflt"
      using outage strict_read_failed [of now now store c FLAG_DENY tid e "ms_cache st'"] assms(4) by auto
    then show ?thesis using f fallback_ge fallback_later [OF assms(4)] by simp
  qed
qed

section \<open>Samples\<close>

definition sample_settings :: grant_settings where
  "sample_settings = \<lparr> grants_isolate_run_tokens = False, grants_enforce_closed = WARN, grantex_audience = [] \<rparr>"

definition sample_flag_store :: flag_store where
  "sample_flag_store = Some [((Some ''t1'', FLAG_DENY), \<lparr> fr_enabled = True, fr_rollout = 100 \<rparr>)]"

definition sample_modes :: mode_state where
  "sample_modes = \<lparr> ms_cache = [], ms_known = [] \<rparr>"

definition sample_resolved :: "enforcement_mode \<times> mode_state" where
  "sample_resolved = resolve_enforcement_mode (\<lambda>s. []) Some sample_settings 0 sample_flag_store sample_modes (UuidText ''t1'')"

definition sample_outage :: "enforcement_mode \<times> mode_state" where
  "sample_outage = resolve_enforcement_mode (\<lambda>s. []) Some sample_settings 100 None (snd sample_resolved) (UuidText ''t1'')"

theorem outage_never_weakens_enforcement_witness:
  "strictness WARN \<le> strictness (fst sample_resolved) \<and> strictness (fst sample_resolved) \<le> strictness (fst sample_outage)
   \<and> fst sample_resolved = DENY"
proof -
  have "strictness (deployment_default_mode sample_settings) \<le> strictness (fst sample_resolved)
      \<and> strictness (fst sample_resolved) \<le> strictness (fst sample_outage)"
  proof (rule outage_never_weakens_enforcement)
    show "resolve_enforcement_mode (\<lambda>s. []) Some sample_settings 0 sample_flag_store sample_modes (UuidText ''t1'')
        = (fst sample_resolved, snd sample_resolved)" by (simp add: sample_resolved_def)
    show "resolve_enforcement_mode (\<lambda>s. []) Some sample_settings 100 None (snd sample_resolved) (UuidText ''t1'')
        = (fst sample_outage, snd sample_outage)" by (simp add: sample_outage_def)
  qed (simp_all add: sample_modes_def LAST_KNOWN_TTL_SECONDS_def)
  moreover have "deployment_default_mode sample_settings = WARN" "fst sample_resolved = DENY" by code_simp+
  ultimately show ?thesis by simp
qed

definition sample_client :: grantex_client where
  "sample_client = \<lparr> gx_factory = None, gx_is_sdk = True,
     gx_enforce = (\<lambda>token connector tool amount. Inr \<lparr> er_allowed = (token \<in> {''caller'', ''run''} \<and> connector = ''jira''),
       er_reason = ''No scope'', er_reason_code = None, er_sub_reason = [], er_grant_id = [], er_scopes = [] \<rparr>),
     gx_scoped_enforce = (\<lambda>audience token connector tool amount. Inl ''ValueError''), gx_covers = (\<lambda>p q. p = q) \<rparr>"

definition sample_grant_env :: grant_env where
  "sample_grant_env = \<lparr> ge_settings = sample_settings,
     ge_registry = \<lparr> cr_connectors = [''jira''], cr_deprecated = [(''jira_old'', Some ''jira'')] \<rparr>, ge_client = sample_client \<rparr>"

definition sample_resolve_env :: resolve_env where
  "sample_resolve_env = \<lparr> re_load_config = (\<lambda>t a. Inr [(''grant_token'', VStr ''run'')]), re_str = (\<lambda>v. []),
     re_pool = (\<lambda>t a g s ttl k. Inl ''mint_failed'') \<rparr>"

definition sample_run_request :: run_request where
  "sample_run_request = \<lparr> rr_tenant_id = Some ''t1'', rr_agent_id = Some ''a1'', rr_supplied_token = [], rr_grantex_config = None,
     rr_caller_token = '' caller '', rr_caller_agent_id = ''a2'', rr_caller_required = True, rr_isolation_key = None \<rparr>"

definition sample_run_grant :: run_grant where
  "sample_run_grant = resolve_run_grant sample_resolve_env sample_settings DENY ''k'' sample_run_request"


end
