(* ===== verification/Token_Pool.thy ===== *)
theory Token_Pool
  imports Grants
begin

text \<open>
  The pool of grant tokens (\<open>auth/token_pool.py\<close>): run grants are delegated by the Grantex service, kept in a
  bounded cache of the process and in the Redis all processes share, and evicted when an agent is revoked.
  The service, the clock and Redis, whose every command may fail, are arguments. Ids of tenants and agents
  hold no pattern characters, so a scan for a pattern is a search for a prefix; refresh tasks are not scheduled here.
\<close>

section \<open>Grants and their keys\<close>

definition usable :: "rat \<Rightarrow> pool_grant \<Rightarrow> bool" where
  "usable now g = (case pg_expires_at g of None \<Rightarrow> False | Some t \<Rightarrow> of_int (min_remaining_seconds (pg_ttl_seconds g)) \<le> t - now)"

definition LOCAL_CACHE_MAX :: nat where "LOCAL_CACHE_MAX = 1024"

record grant_request =
  gr_tenant :: string
  gr_agent :: string
  gr_grantex_agent :: string
  gr_scopes :: "string list"
  gr_ttl :: "int option"
  gr_isolation :: "string option"

text \<open>\<open>digest\<close> is the shortened SHA-256 of the JSON text of a list.\<close>

definition key_material :: "string \<Rightarrow> string list \<Rightarrow> string option \<Rightarrow> pv" where
  "key_material gid scopes isolation =
     VList ([VStr gid, VList (map VStr (sort scopes))] @ (case isolation of None \<Rightarrow> [] | Some k \<Rightarrow> [VStr k]))"

definition material_of :: "grant_request \<Rightarrow> pv" where
  "material_of q = key_material (gr_grantex_agent q) (gr_scopes q) (gr_isolation q)"

definition run_grant_cache_key :: "(pv \<Rightarrow> string) \<Rightarrow> grant_request \<Rightarrow> string" where
  "run_grant_cache_key digest q =
     ''grant:run:'' @ gr_tenant q @ '':'' @ gr_agent q @ '':'' @ digest (material_of q)"

section \<open>The caches\<close>

type_synonym local_grants = "(string \<times> pool_grant) list"

text \<open>
  The run grants, agent tokens and delegated grants of Redis, each with the time its key expires; a stored
  object that is not a grant is \<open>None\<close>.
\<close>

record redis_cache =
  rd_grants :: "(string \<times> pool_grant option \<times> rat) list"
  rd_tokens :: "(string \<times> pv dict \<times> rat) list"
  rd_delegated :: "(string \<times> pv \<times> rat) list"

definition live_entry :: "rat \<Rightarrow> (string \<times> 'v \<times> rat) list \<Rightarrow> string \<Rightarrow> 'v option" where
  "live_entry now entries k = (case map_of entries k of Some (v, t) \<Rightarrow> if now < t then Some v else None | None \<Rightarrow> None)"

definition put_entry :: "string \<Rightarrow> 'v \<Rightarrow> (string \<times> 'v) list \<Rightarrow> (string \<times> 'v) list" where
  "put_entry k v entries = filter (\<lambda>e. fst e \<noteq> k) entries @ [(k, v)]"

definition drop_entry :: "string \<Rightarrow> (string \<times> 'v) list \<Rightarrow> (string \<times> 'v) list" where
  "drop_entry k entries = filter (\<lambda>e. fst e \<noteq> k) entries"

definition from_cache :: "pool_grant \<Rightarrow> pool_grant" where
  "from_cache g = g\<lparr> pg_source := ''pool_cache'' \<rparr>"

definition read_run_grant :: "bool \<Rightarrow> rat \<Rightarrow> string \<Rightarrow> redis_cache \<Rightarrow> pool_grant option" where
  "read_run_grant answers now key r =
     (if \<not> answers then None
      else case live_entry now (rd_grants r) key of
        Some (Some g) \<Rightarrow> if pg_token g \<noteq> [] \<and> usable now g then Some (from_cache g) else None
      | _ \<Rightarrow> None)"

definition cached_run_grant :: "bool \<Rightarrow> rat \<Rightarrow> string \<Rightarrow> redis_cache \<Rightarrow> local_grants \<Rightarrow> pool_grant option \<times> local_grants" where
  "cached_run_grant answers now key r l =
     (case read_run_grant answers now key r of
        Some g \<Rightarrow> (Some g, l)
      | None \<Rightarrow>
          (case map_of l key of
             None \<Rightarrow> (None, l)
           | Some g \<Rightarrow> if usable now g then (Some (from_cache g), l) else (None, drop_entry key l)))"

text \<open>\<open>int(x)\<close> of a float.\<close>

definition truncated :: "rat \<Rightarrow> int" where
  "truncated x = (if 0 \<le> x then \<lfloor>x\<rfloor> else \<lceil>x\<rceil>)"

definition store_local :: "string \<Rightarrow> pool_grant \<Rightarrow> local_grants \<Rightarrow> local_grants" where
  "store_local key g l = (let l' = put_entry key g l in drop (length l' - LOCAL_CACHE_MAX) l')"

definition store_run_grant ::
    "bool \<Rightarrow> rat \<Rightarrow> string \<Rightarrow> pool_grant \<Rightarrow> redis_cache \<Rightarrow> local_grants \<Rightarrow> redis_cache \<times> local_grants" where
  "store_run_grant answers now key g r l =
     (case pg_expires_at g of
        None \<Rightarrow> (r, l)
      | Some t \<Rightarrow>
          if \<not> usable now g then (r, l)
          else
            let l' = store_local key g l; ttl = truncated (t - now) - min_remaining_seconds (pg_ttl_seconds g)
            in if \<not> answers \<or> ttl \<le> 0 then (r, l')
               else (r\<lparr> rd_grants := put_entry key (Some g, now + of_int ttl) (rd_grants r) \<rparr>, l'))"

section \<open>Minting\<close>

text \<open>
  The service: the scopes of an agent's registration and the answer to a delegation, each of which may raise;
  \<open>str\<close> of a value and the parser of a timestamp.
\<close>

record mint_env =
  me_root_grant :: string
  me_client :: bool
  me_registration :: "string \<Rightarrow> (unit, pv) res"
  me_delegate :: "string \<Rightarrow> string \<Rightarrow> string list \<Rightarrow> string \<Rightarrow> (unit, pv) res"
  me_timestamp :: "string \<Rightarrow> rat option"
  me_str :: "pv \<Rightarrow> string"
  me_default_ttl :: int

definition either_value :: "pv \<Rightarrow> pv \<Rightarrow> pv" where
  "either_value a b = (if truthy a then a else b)"

definition parse_expiry :: "mint_env \<Rightarrow> pv \<Rightarrow> rat option" where
  "parse_expiry E v = (case v of VStr s \<Rightarrow> if s = [] then None else me_timestamp E s | _ \<Rightarrow> None)"

definition scope_items :: "pv \<Rightarrow> pv list option" where
  "scope_items v = (case v of VList vs \<Rightarrow> Some vs | VTuple vs \<Rightarrow> Some vs | _ \<Rightarrow> None)"

definition registered_scopes :: "mint_env \<Rightarrow> string \<Rightarrow> string list \<Rightarrow> (string, string list) res" where
  "registered_scopes E gid scopes =
     (case me_registration E gid of
        Inl e \<Rightarrow> Inl ''mint_failed''
      | Inr v \<Rightarrow>
          (case scope_items v of
             None \<Rightarrow> Inl ''mint_failed''
           | Some vs \<Rightarrow>
               let delegated = filter (\<lambda>s. VStr s \<in> set vs) (fromkeys scopes)
               in if delegated = [] then Inl ''agent_not_registered'' else Inr delegated))"

definition mint_run_grant :: "mint_env \<Rightarrow> string \<Rightarrow> string list \<Rightarrow> int \<Rightarrow> (string, pool_grant) res" where
  "mint_run_grant E gid scopes ttl =
     (let root = strip (me_root_grant E) in
      if root = [] \<or> \<not> me_client E then Inl ''minting_unconfigured''
      else rbind (registered_scopes E gid scopes) (\<lambda>delegated.
        case me_delegate E root gid delegated (str_int (max 1 (ttl div 60)) @ ''m'') of
          Inl e \<Rightarrow> Inl ''mint_failed''
        | Inr response \<Rightarrow>
            let data = (case response of VDict d \<Rightarrow> d | _ \<Rightarrow> []);
                grant_id = either_value (vget data ''grantId'') (vget data ''grant_id'')
            in case either_value (vget data ''grantToken'') (vget data ''grant_token'') of
                 VStr token \<Rightarrow>
                   if token = [] then Inl ''mint_failed''
                   else (case parse_expiry E (either_value (vget data ''expiresAt'') (vget data ''expires_at'')) of
                           None \<Rightarrow> Inl ''mint_failed''
                         | Some t \<Rightarrow> Inr \<lparr> pg_token = token, pg_grant_id = (if truthy grant_id then me_str E grant_id else []),
                             pg_expires_at = Some t, pg_source = ''minted'', pg_ttl_seconds = ttl \<rparr>)
               | _ \<Rightarrow> Inl ''mint_failed''))"

section \<open>Obtaining the grant of a run\<close>

definition isolation_ok :: "string option \<Rightarrow> bool" where
  "isolation_ok isolation =
     (case isolation of None \<Rightarrow> True | Some k \<Rightarrow> length k = 32 \<and> list_all (\<lambda>c. c \<in> set ''0123456789abcdef'') k)"

definition request_error :: "grant_request \<Rightarrow> string option" where
  "request_error q =
     (if gr_tenant q = [] \<or> gr_agent q = [] then Some ''lookup_failed''
      else if gr_grantex_agent q = [] \<or> gr_scopes q = [] then Some ''agent_not_registered''
      else if \<not> isolation_ok (gr_isolation q) then Some ''invalid_isolation_key''
      else None)"

definition request_ttl :: "mint_env \<Rightarrow> grant_request \<Rightarrow> int" where
  "request_ttl E q = (case gr_ttl q of None \<Rightarrow> me_default_ttl E | Some t \<Rightarrow> if t = 0 then me_default_ttl E else t)"

text \<open>
  The call when nobody else uses the pool meanwhile: at \<open>t1\<close> it looks in the caches, at \<open>t2\<close>, holding the lock of the
  key, it looks again, and it stores what it minted at \<open>t3\<close>. The Redis commands answer or not.
\<close>

definition get_run_grant_token ::
    "mint_env \<Rightarrow> (pv \<Rightarrow> string) \<Rightarrow> rat \<times> rat \<times> rat \<Rightarrow> bool \<times> bool \<times> bool \<Rightarrow> grant_request \<Rightarrow> redis_cache \<Rightarrow> local_grants
     \<Rightarrow> (string, pool_grant) res \<times> redis_cache \<times> local_grants" where
  "get_run_grant_token E digest clock answers q r l =
     (case (clock, answers) of ((t1, t2, t3), (a1, a2, a3)) \<Rightarrow>
      case request_error q of
        Some e \<Rightarrow> (Inl e, r, l)
      | None \<Rightarrow>
          let key = run_grant_cache_key digest q in
          case cached_run_grant a1 t1 key r l of
            (Some g, l1) \<Rightarrow> (Inr g, r, l1)
          | (None, l1) \<Rightarrow>
              (case cached_run_grant a2 t2 key r l1 of
                 (Some g, l2) \<Rightarrow> (Inr g, r, l2)
               | (None, l2) \<Rightarrow>
                   (case mint_run_grant E (gr_grantex_agent q) (gr_scopes q) (request_ttl E q) of
                      Inl e \<Rightarrow> (Inl e, r, l2)
                    | Inr g \<Rightarrow> (case store_run_grant a3 t3 key g r l2 of (r', l3) \<Rightarrow> (Inr g, r', l3)))))"

section \<open>The locks of the mints\<close>

definition LOCKS_MAX :: nat where "LOCKS_MAX = 4096"

text \<open>The lock map, oldest first, with whether each lock is held; unheld ones are dropped until there is room.\<close>

fun evict_unheld :: "('k \<times> bool) list \<Rightarrow> ('k \<times> bool) list \<Rightarrow> ('k \<times> bool) list" where
  "evict_unheld before [] = before"
| "evict_unheld before ((k, held) # locks) =
     (if held then evict_unheld (before @ [(k, held)]) locks
      else if length before + length locks < LOCKS_MAX then before @ locks else evict_unheld before locks)"

text \<open>The map after the call and whether the lock returned is the shared one.\<close>

definition mint_lock :: "'k \<Rightarrow> ('k \<times> bool) list \<Rightarrow> ('k \<times> bool) list \<times> bool" where
  "mint_lock key locks =
     (if key \<in> fst ` set locks then (locks, True)
      else let locks' = (if LOCKS_MAX \<le> length locks then evict_unheld [] locks else locks)
           in if length locks' < LOCKS_MAX then (locks' @ [(key, False)], True) else (locks', False))"

section \<open>Revocation\<close>

definition agent_key :: "string \<Rightarrow> string \<Rightarrow> bool" where
  "agent_key agent k \<longleftrightarrow> take 10 k = ''grant:run:'' \<and> take 1 (drop 3 (split_on '':'' k)) = [agent]"

definition evict_local_agent_grants :: "string \<Rightarrow> local_grants \<Rightarrow> string list \<times> local_grants" where
  "evict_local_agent_grants agent l =
     (filter (\<lambda>t. t \<noteq> []) (map (\<lambda>e. pg_token (snd e)) (filter (\<lambda>e. agent_key agent (fst e)) l)),
      filter (\<lambda>e. \<not> agent_key agent (fst e)) l)"

definition add_token :: "string \<Rightarrow> string list \<Rightarrow> string list" where
  "add_token t ts = (if t = [] \<or> t \<in> set ts then ts else ts @ [t])"

definition stored_token :: "rat \<Rightarrow> string \<Rightarrow> redis_cache \<Rightarrow> string" where
  "stored_token now k r = (case live_entry now (rd_grants r) k of Some (Some g) \<Rightarrow> pg_token g | _ \<Rightarrow> [])"

text \<open>The keys one by one: the token is read and the key deleted. \<open>n\<close> commands succeed, the next one fails.\<close>

fun revoke_keys :: "rat \<Rightarrow> nat \<Rightarrow> string list \<Rightarrow> redis_cache \<Rightarrow> string list \<Rightarrow> nat option \<times> redis_cache \<times> string list" where
  "revoke_keys now n [] r ts = (Some n, r, ts)"
| "revoke_keys now n (k # ks) r ts =
     (if n = 0 then (None, r, ts)
      else let ts' = add_token (stored_token now k r) ts in
        if n = 1 then (None, r, ts')
        else revoke_keys now (n - 2) ks (r\<lparr> rd_grants := drop_entry k (rd_grants r) \<rparr>) ts')"

definition grant_token_of :: "pv option \<Rightarrow> (pv \<Rightarrow> string) \<Rightarrow> string" where
  "grant_token_of raw str_of =
     (case raw of
        Some (VDict d) \<Rightarrow>
          (let v = either_value (either_value (vget d ''grantToken'') (vget d ''grant_token'')) (vget d ''token'')
           in if truthy v then str_of v else [])
      | _ \<Rightarrow> [])"

definition revoke_rest ::
    "(pv \<Rightarrow> string) \<Rightarrow> rat \<Rightarrow> nat \<Rightarrow> string \<Rightarrow> redis_cache \<Rightarrow> string list \<Rightarrow> bool \<times> redis_cache \<times> string list" where
  "revoke_rest str_of now n agent r ts =
     (let r1 = (if 1 \<le> n then r\<lparr> rd_tokens := drop_entry agent (rd_tokens r) \<rparr> else r);
          ts1 = (if 2 \<le> n then add_token (grant_token_of (live_entry now (rd_delegated r1) agent) str_of) ts else ts);
          r2 = (if 3 \<le> n then r1\<lparr> rd_delegated := drop_entry agent (rd_delegated r1) \<rparr> else r1)
      in (4 \<le> n, r2, ts1))"

record revocation_outcome =
  ro_evicted :: nat
  ro_revoked :: nat
  ro_failed :: nat

definition token_revoked :: "revocation_outcome \<Rightarrow> bool" where
  "token_revoked o' \<longleftrightarrow> ro_failed o' = 0"

definition agent_grant_keys :: "string \<Rightarrow> string \<Rightarrow> redis_cache \<Rightarrow> string list" where
  "agent_grant_keys tenant agent r =
     (let p = ''grant:run:'' @ tenant @ '':'' @ agent @ '':'' in filter (\<lambda>k. take (length p) k = p) (map fst (rd_grants r)))"

text \<open>
  \<open>commands\<close> is \<open>None\<close> without a client, otherwise how many Redis commands succeed. The result is the outcome, the
  tokens handed to the revoker, whether the eviction was broadcast, and the caches.
\<close>

definition revoke_agent_grants ::
    "(pv \<Rightarrow> string) \<Rightarrow> rat \<Rightarrow> nat option \<Rightarrow> string \<Rightarrow> string \<Rightarrow> (string \<Rightarrow> bool) \<Rightarrow> redis_cache \<Rightarrow> local_grants
     \<Rightarrow> revocation_outcome \<times> string list \<times> bool \<times> redis_cache \<times> local_grants" where
  "revoke_agent_grants str_of now commands tenant agent revoker r l =
     (case evict_local_agent_grants agent l of (dropped, l') \<Rightarrow>
      let ts0 = fromkeys dropped
      in case (case commands of
                 None \<Rightarrow> (False, r, ts0)
               | Some 0 \<Rightarrow> (False, r, ts0)
               | Some (Suc n) \<Rightarrow>
                   (case revoke_keys now n (agent_grant_keys tenant agent r) r ts0 of
                      (None, r', ts) \<Rightarrow> (False, r', ts)
                    | (Some m, r', ts) \<Rightarrow> revoke_rest str_of now m agent r' ts)) of
           (published, r', ts) \<Rightarrow>
             (\<lparr> ro_evicted = length ts, ro_revoked = length (filter revoker ts), ro_failed = length (filter (\<lambda>t. \<not> revoker t) ts) \<rparr>,
              ts, published, r', l'))"

text \<open>What a process does when it hears of a revocation.\<close>

definition on_revocation :: "string \<Rightarrow> redis_cache \<Rightarrow> local_grants \<Rightarrow> redis_cache \<times> local_grants" where
  "on_revocation agent r l = (r\<lparr> rd_tokens := drop_entry agent (rd_tokens r) \<rparr>, snd (evict_local_agent_grants agent l))"

section \<open>Agent tokens\<close>

definition get_token :: "rat \<Rightarrow> string \<Rightarrow> redis_cache \<Rightarrow> pv" where
  "get_token now agent r = (case live_entry now (rd_tokens r) agent of Some d \<Rightarrow> vget d ''access_token'' | None \<Rightarrow> VNone)"

definition store_token :: "rat \<Rightarrow> string \<Rightarrow> pv dict \<Rightarrow> int \<Rightarrow> redis_cache \<Rightarrow> redis_cache" where
  "store_token now agent data expires_in r = r\<lparr> rd_tokens := put_entry agent (data, now + of_int expires_in) (rd_tokens r) \<rparr>"

definition revoke_token :: "string \<Rightarrow> redis_cache \<Rightarrow> redis_cache" where
  "revoke_token agent r = r\<lparr> rd_tokens := drop_entry agent (rd_tokens r) \<rparr>"

text \<open>The lifetime of a delegated grant; \<open>int_of\<close> is \<open>int(x)\<close>, which may raise.\<close>

definition delegated_ttl_seconds :: "mint_env \<Rightarrow> (pv \<Rightarrow> int option) \<Rightarrow> rat \<Rightarrow> pv dict \<Rightarrow> int" where
  "delegated_ttl_seconds E int_of now grant =
     (let ttl = (if dhas grant ''expiresIn'' then vget grant ''expiresIn'' else vget grant ''expires_in'')
      in case (if ttl = VNone then None else int_of ttl) of
           Some n \<Rightarrow> n
         | None \<Rightarrow>
             (case parse_expiry E (either_value (vget grant ''expiresAt'') (vget grant ''expires_at'')) of
                Some t \<Rightarrow> if t = 0 then 8 * 3600 else max 0 (truncated (t - now))
              | None \<Rightarrow> 8 * 3600))"

definition store_delegated_grant ::
    "mint_env \<Rightarrow> (pv \<Rightarrow> int option) \<Rightarrow> bool \<Rightarrow> rat \<Rightarrow> string \<Rightarrow> pv dict \<Rightarrow> redis_cache \<Rightarrow> bool \<times> redis_cache" where
  "store_delegated_grant E int_of answers now agent grant r =
     (if \<not> answers then (False, r)
      else (True, r\<lparr> rd_delegated := put_entry agent (VDict grant, now + of_int (max 60 (delegated_ttl_seconds E int_of now grant)))
                       (rd_delegated r) \<rparr>))"

text \<open>
  The refresh of an agent token once its delay has passed: the configuration is resolved, or the resolver raises or is
  missing; on every failure the token is removed.
\<close>

definition refresh_after :: "mint_env \<Rightarrow> rat \<Rightarrow> string \<Rightarrow> (unit, pv dict) res \<Rightarrow> (pv \<Rightarrow> int option) \<Rightarrow> redis_cache \<Rightarrow> redis_cache" where
  "refresh_after E now agent config int_of r =
     (case config of
        Inl e \<Rightarrow> revoke_token agent r
      | Inr cfg \<Rightarrow>
          let gid = (if truthy (vget cfg ''grantex_agent_id'') then me_str E (vget cfg ''grantex_agent_id'') else []);
              scopes = (case vget cfg ''scopes'' of VList vs \<Rightarrow> nonempty_items vs | VTuple vs \<Rightarrow> nonempty_items vs | VStr t \<Rightarrow> map (\<lambda>c. [c]) t
                | VDict d \<Rightarrow> filter (\<lambda>k. k \<noteq> []) (map fst d) | _ \<Rightarrow> [])
          in case (if truthy (vget cfg ''token_ttl'') then int_of (vget cfg ''token_ttl'') else Some (me_default_ttl E)) of
               None \<Rightarrow> revoke_token agent r
             | Some ttl \<Rightarrow>
                 if gid = [] \<or> scopes = [] then revoke_token agent r
                 else (case mint_run_grant E gid scopes ttl of
                         Inl e \<Rightarrow> revoke_token agent r
                       | Inr g \<Rightarrow>
                           let expires_in = max 1 (case pg_expires_at g of Some t \<Rightarrow> if t = 0 then ttl else truncated (t - now) | None \<Rightarrow> ttl)
                           in store_token now agent
                                [(''access_token'', VStr (pg_token g)), (''grant_id'', VStr (pg_grant_id g)), (''expires_in'', VInt expires_in)]
                                expires_in r))"

section \<open>Keys of different requests\<close>

definition plain_ids :: "grant_request \<Rightarrow> bool" where
  "plain_ids q \<longleftrightarrow> CHR '':'' \<notin> set (gr_tenant q) \<and> CHR '':'' \<notin> set (gr_agent q)"

text \<open>Requests that may share a grant.\<close>

definition same_run :: "grant_request \<Rightarrow> grant_request \<Rightarrow> bool" where
  "same_run q q' \<longleftrightarrow> gr_tenant q = gr_tenant q' \<and> gr_agent q = gr_agent q' \<and> gr_grantex_agent q = gr_grantex_agent q'
     \<and> set (gr_scopes q) = set (gr_scopes q') \<and> gr_isolation q = gr_isolation q'"

lemma before_colon: "c \<notin> set a \<Longrightarrow> c \<notin> set b \<Longrightarrow> a @ c # x = b @ c # y \<Longrightarrow> a = b \<and> x = y"
  by (induction a arbitrary: b) (auto simp: Cons_eq_append_conv append_eq_Cons_conv)

lemma key_material_inj:
  assumes "key_material g s i = key_material g' s' i'"
  shows "g = g' \<and> set s = set s' \<and> i = i'"
proof -
  have "map VStr (sort s) = map VStr (sort s') \<longleftrightarrow> sort s = sort s'" by (rule inj_map_eq_map) (simp add: inj_on_def)
  then have "g = g' \<and> sort s = sort s' \<and> i = i'" using assms by (auto simp: key_material_def split: option.splits)
  then show ?thesis by (metis set_sort)
qed

lemma same_key_same_run:
  assumes "run_grant_cache_key digest q = run_grant_cache_key digest q'" "plain_ids q" "plain_ids q'"
    and inj: "digest (material_of q) = digest (material_of q') \<Longrightarrow> material_of q = material_of q'"
  shows "same_run q q'"
proof -
  let ?d = "\<lambda>q. digest (material_of q)"
  have "gr_tenant q @ CHR '':'' # (gr_agent q @ CHR '':'' # ?d q) = gr_tenant q' @ CHR '':'' # (gr_agent q' @ CHR '':'' # ?d q')"
    using assms(1) by (simp add: run_grant_cache_key_def)
  from before_colon [OF _ _ this] have
    t: "gr_tenant q = gr_tenant q'" "gr_agent q @ CHR '':'' # ?d q = gr_agent q' @ CHR '':'' # ?d q'"
    using assms(2,3) by (simp_all add: plain_ids_def)
  from before_colon [OF _ _ t(2)] have a: "gr_agent q = gr_agent q'" "?d q = ?d q'"
    using assms(2,3) by (simp_all add: plain_ids_def)
  from key_material_inj [OF inj [OF a(2), unfolded material_of_def]] show ?thesis using t(1) a(1) by (simp add: same_run_def)
qed

section \<open>Histories of the pool\<close>

text \<open>
  Processes share Redis and have each their own cache. A call looks in the caches any number of times, mints, and
  stores what it minted later, at whatever process it runs; agents are revoked and revocations are heard; Redis
  may lose keys. The history records what was minted and what was served from the caches.
\<close>

datatype pool_event = Minted grant_request pool_grant | Served rat grant_request pool_grant

type_synonym pool_system = "redis_cache \<times> (nat \<Rightarrow> local_grants) \<times> (grant_request \<times> pool_grant) list"

inductive pool_history :: "(pv \<Rightarrow> string) \<Rightarrow> pool_event list \<Rightarrow> pool_system \<Rightarrow> bool" for digest where
  empty: "rd_grants r = [] \<Longrightarrow> pool_history digest [] (r, (\<lambda>i. []), [])"
| served: "pool_history digest h (r, loc, fl) \<Longrightarrow> request_error q = None \<Longrightarrow> plain_ids q \<Longrightarrow>
    cached_run_grant answers now (run_grant_cache_key digest q) r (loc i) = (Some g, l) \<Longrightarrow>
    pool_history digest (h @ [Served now q g]) (r, loc(i := l), fl)"
| missed: "pool_history digest h (r, loc, fl) \<Longrightarrow>
    cached_run_grant answers now (run_grant_cache_key digest q) r (loc i) = (None, l) \<Longrightarrow> pool_history digest h (r, loc(i := l), fl)"
| minted: "pool_history digest h (r, loc, fl) \<Longrightarrow> request_error q = None \<Longrightarrow> plain_ids q \<Longrightarrow>
    mint_run_grant E (gr_grantex_agent q) (gr_scopes q) (request_ttl E q) = Inr g \<Longrightarrow>
    pool_history digest (h @ [Minted q g]) (r, loc, (q, g) # fl)"
| stored: "pool_history digest h (r, loc, fl) \<Longrightarrow> (q, g) \<in> set fl \<Longrightarrow>
    store_run_grant answers now (run_grant_cache_key digest q) g r (loc i) = (r', l) \<Longrightarrow> pool_history digest h (r', loc(i := l), fl)"
| revoked: "pool_history digest h (r, loc, fl) \<Longrightarrow>
    revoke_agent_grants str_of now commands tenant agent revoker r (loc i) = (outcome, ts, published, r', l) \<Longrightarrow>
    pool_history digest h (r', loc(i := l), fl)"
| heard: "pool_history digest h (r, loc, fl) \<Longrightarrow> on_revocation agent r (loc i) = (r', l) \<Longrightarrow> pool_history digest h (r', loc(i := l), fl)"
| lost: "pool_history digest h (r, loc, fl) \<Longrightarrow> set (rd_grants r') \<subseteq> set (rd_grants r) \<Longrightarrow> pool_history digest h (r', loc, fl)"

text \<open>The requests of a history.\<close>

fun event_request :: "pool_event \<Rightarrow> grant_request" where
  "event_request (Minted q g) = q"
| "event_request (Served now q g) = q"

text \<open>The grant under a key was minted for a request with that key.\<close>

definition origin :: "(pv \<Rightarrow> string) \<Rightarrow> pool_event list \<Rightarrow> string \<Rightarrow> pool_grant \<Rightarrow> bool" where
  "origin digest h k g \<longleftrightarrow> pg_token g \<noteq> [] \<and>
     (\<exists>q g'. Minted q g' \<in> set h \<and> plain_ids q \<and> k = run_grant_cache_key digest q \<and> pg_token g' = pg_token g)"

definition pool_inv :: "(pv \<Rightarrow> string) \<Rightarrow> pool_event list \<Rightarrow> pool_system \<Rightarrow> bool" where
  "pool_inv digest h x = (case x of (r, loc, fl) \<Rightarrow>
     (\<forall>k g t. (k, Some g, t) \<in> set (rd_grants r) \<longrightarrow> origin digest h k g)
     \<and> (\<forall>i k g. (k, g) \<in> set (loc i) \<longrightarrow> origin digest h k g)
     \<and> (\<forall>q g. (q, g) \<in> set fl \<longrightarrow> origin digest h (run_grant_cache_key digest q) g))"

lemma origin_grows: "origin digest h k g \<Longrightarrow> origin digest (h @ h') k g"
  unfolding origin_def by auto

lemma pool_inv_grows: "pool_inv digest h (r, loc, fl) \<Longrightarrow> pool_inv digest (h @ h') (r, loc, fl)"
  unfolding pool_inv_def using origin_grows by fastforce

lemma pool_inv_smaller:
  assumes "pool_inv digest h (r, loc, fl)" "set (rd_grants r') \<subseteq> set (rd_grants r)" "set l \<subseteq> set (loc i)"
  shows "pool_inv digest h (r', loc(i := l), fl)"
proof -
  have "origin digest h k g" if "(k, Some g, t) \<in> set (rd_grants r')" for k g t
    using assms(1,2) that unfolding pool_inv_def by blast
  moreover have "origin digest h k g" if "(k, g) \<in> set ((loc(i := l)) j)" for j k g
    using assms(1,3) that unfolding pool_inv_def by (cases "j = i") auto
  ultimately show ?thesis using assms(1) unfolding pool_inv_def by blast
qed

lemma minted_token: "mint_run_grant E gid scopes ttl = Inr g \<Longrightarrow> pg_token g \<noteq> []"
  by (auto simp: mint_run_grant_def Let_def rbind_def split: if_splits sum.splits pv.splits option.splits)

lemma live_entry_mem: "live_entry now entries k = Some v \<Longrightarrow> \<exists>t. (k, v, t) \<in> set entries"
  unfolding live_entry_def by (auto split: option.splits if_splits dest!: map_of_SomeD)

lemma from_cache_simps [simp]: "usable now (from_cache g) = usable now g" "pg_token (from_cache g) = pg_token g"
  by (simp_all add: from_cache_def usable_def split: option.splits)

lemma cached_from:
  assumes "cached_run_grant answers now key r l = (res, l')"
  shows "set l' \<subseteq> set l \<and> (\<forall>g. res = Some g \<longrightarrow> usable now g \<and>
    (\<exists>g0. pg_token g0 = pg_token g \<and> ((\<exists>t. (key, Some g0, t) \<in> set (rd_grants r)) \<or> (key, g0) \<in> set l)))"
proof (cases "read_run_grant answers now key r")
  case None
  then show ?thesis using assms
    by (fastforce simp: cached_run_grant_def drop_entry_def split: option.splits if_splits dest!: map_of_SomeD)
next
  case (Some g)
  then obtain g0 where g0: "live_entry now (rd_grants r) key = Some (Some g0)" "usable now g0" "g = from_cache g0"
    by (auto simp: read_run_grant_def split: if_splits option.splits)
  obtain t where "(key, Some g0, t) \<in> set (rd_grants r)" using live_entry_mem [OF g0(1)] by blast
  moreover have "usable now g" "pg_token g = pg_token g0" using g0(2,3) by simp_all
  moreover have "res = Some g" "l' = l" using assms Some by (simp_all add: cached_run_grant_def)
  ultimately show ?thesis by auto
qed

lemma put_entry_mem: "(k', v') \<in> set (put_entry k v entries) \<longleftrightarrow> (k', v') = (k, v) \<or> k' \<noteq> k \<and> (k', v') \<in> set entries"
  by (auto simp: put_entry_def)

lemma stored_mem:
  assumes "store_run_grant answers now key g r l = (r', l')"
  shows "(\<forall>k x t. (k, Some x, t) \<in> set (rd_grants r') \<longrightarrow> (k, Some x, t) \<in> set (rd_grants r) \<or> k = key \<and> x = g)
    \<and> (\<forall>k x. (k, x) \<in> set l' \<longrightarrow> (k, x) \<in> set l \<or> k = key \<and> x = g)"
proof -
  have "(k, x) \<in> set l \<or> k = key \<and> x = g" if "(k, x) \<in> set (store_local key g l)" for k x
    using that by (auto simp: store_local_def Let_def dest!: in_set_dropD simp: put_entry_mem)
  then show ?thesis using assms
    by (auto simp: store_run_grant_def Let_def put_entry_mem split: option.splits if_splits)
qed

lemma revoke_keys_smaller: "revoke_keys now n ks r ts = (m, r', ts') \<Longrightarrow> set (rd_grants r') \<subseteq> set (rd_grants r)"
proof (induction ks arbitrary: n r ts)
  case (Cons k ks)
  show ?case
  proof (cases "n \<le> 1")
    case True
    then show ?thesis using Cons.prems by (auto simp: Let_def split: if_splits)
  next
    case False
    then have "revoke_keys now (n - 2) ks (r\<lparr> rd_grants := drop_entry k (rd_grants r) \<rparr>) (add_token (stored_token now k r) ts) = (m, r', ts')"
      using Cons.prems by (simp add: Let_def)
    from Cons.IH [OF this] show ?thesis by (auto simp: drop_entry_def)
  qed
qed simp

lemma revoke_smaller:
  assumes "revoke_agent_grants str_of now commands tenant agent revoker r l = (outcome, ts, published, r', l')"
  shows "set (rd_grants r') \<subseteq> set (rd_grants r) \<and> set l' \<subseteq> set l"
  using assms revoke_keys_smaller
  by (fastforce simp: revoke_agent_grants_def evict_local_agent_grants_def revoke_rest_def Let_def
      split: option.splits nat.splits prod.splits if_splits)

lemma pool_history_inv:
  assumes "pool_history digest h x"
  shows "pool_inv digest h x"
  using assms
proof (induction rule: pool_history.induct)
  case (empty r)
  then show ?case by (simp add: pool_inv_def)
next
  case (served h r loc fl q answers now i g l)
  then show ?case using cached_from [OF served(4)] by (blast intro: pool_inv_grows pool_inv_smaller)
next
  case (missed h r loc fl answers now q i l)
  then show ?case using cached_from [OF missed(2)] by (blast intro: pool_inv_smaller)
next
  case (minted h r loc fl q E g)
  have "origin digest (h @ [Minted q g]) (run_grant_cache_key digest q) g"
    using minted(3) minted_token [OF minted(4)] by (auto simp: origin_def)
  then show ?case using pool_inv_grows [OF minted.IH] unfolding pool_inv_def by auto
next
  case (stored h r loc fl q g answers now i r' l)
  have "origin digest h (run_grant_cache_key digest q) g" using stored unfolding pool_inv_def by blast
  note g = this
  have "origin digest h k x" if "(k, Some x, t) \<in> set (rd_grants r')" for k x t
    using g stored.IH stored_mem [OF stored(3)] that unfolding pool_inv_def by blast
  moreover have "origin digest h k x" if "(k, x) \<in> set ((loc(i := l)) j)" for j k x
  proof (cases "j = i")
    case True
    then have "(k, x) \<in> set (loc i) \<or> k = run_grant_cache_key digest q \<and> x = g" using that stored_mem [OF stored(3)] by simp
    then show ?thesis using g stored.IH unfolding pool_inv_def by blast
  next
    case False
    then have "(k, x) \<in> set (loc j)" using that by simp
    then show ?thesis using stored.IH unfolding pool_inv_def by blast
  qed
  ultimately show ?case using stored.IH unfolding pool_inv_def by blast
next
  case (revoked h r loc fl str_of now commands tenant agent revoker i outcome ts published r' l)
  then show ?case using revoke_smaller [OF revoked(2)] by (blast intro: pool_inv_smaller)
next
  case (heard h r loc fl agent i r' l)
  then have "rd_grants r' = rd_grants r" "set l \<subseteq> set (loc i)" by (auto simp: on_revocation_def evict_local_agent_grants_def)
  then show ?case using pool_inv_smaller [OF heard.IH, of r' l i] by simp
next
  case (lost h r loc fl r')
  then show ?case unfolding pool_inv_def by blast
qed

text \<open>
  A delegation by the service: of the scopes asked for, exactly those the registration of the agent carries were
  delegated from the root grant, and the service answered with the token.
\<close>

definition delegated_by_service :: "mint_env \<Rightarrow> string \<Rightarrow> string list \<Rightarrow> string \<Rightarrow> bool" where
  "delegated_by_service E gid scopes token \<longleftrightarrow>
     (\<exists>v vs delegated expires_in d. me_registration E gid = Inr v \<and> scope_items v = Some vs
        \<and> delegated \<noteq> [] \<and> set delegated = {s \<in> set scopes. VStr s \<in> set vs}
        \<and> me_delegate E (strip (me_root_grant E)) gid delegated expires_in = Inr (VDict d)
        \<and> (vget d ''grantToken'' = VStr token \<or> vget d ''grant_token'' = VStr token))"

lemma registered_scopes_spec:
  assumes "registered_scopes E gid scopes = Inr delegated"
  shows "\<exists>v vs. me_registration E gid = Inr v \<and> scope_items v = Some vs \<and> delegated \<noteq> [] \<and> set delegated = {s \<in> set scopes. VStr s \<in> set vs}"
proof -
  obtain v where v: "me_registration E gid = Inr v" using assms by (auto simp: registered_scopes_def split: sum.splits)
  obtain vs where vs: "scope_items v = Some vs" using assms v by (auto simp: registered_scopes_def split: option.splits)
  have "delegated = filter (\<lambda>s. VStr s \<in> set vs) (fromkeys scopes) \<and> delegated \<noteq> []"
    using assms v vs by (auto simp: registered_scopes_def Let_def split: if_splits)
  then show ?thesis using v vs by (auto simp: set_fromkeys)
qed

lemma minted_by_service:
  assumes "mint_run_grant E gid scopes ttl = Inr g"
  shows "delegated_by_service E gid scopes (pg_token g) \<and> pg_token g \<noteq> []"
proof -
  obtain delegated where d: "registered_scopes E gid scopes = Inr delegated"
    using assms by (cases "registered_scopes E gid scopes") (auto simp: mint_run_grant_def Let_def split: if_splits)
  obtain response where r: "me_delegate E (strip (me_root_grant E)) gid delegated (str_int (max 1 (ttl div 60)) @ ''m'') = Inr response"
    using assms d by (auto simp: mint_run_grant_def Let_def split: if_splits sum.splits)
  let ?d = "case response of VDict d \<Rightarrow> d | _ \<Rightarrow> []"
  obtain token where t: "either_value (vget ?d ''grantToken'') (vget ?d ''grant_token'') = VStr token" "token \<noteq> []" "pg_token g = token"
    using assms d r by (auto simp: mint_run_grant_def Let_def split: if_splits pv.splits option.splits)
  have "?d \<noteq> []" using t(1) by (auto simp: either_value_def vget_def split: if_splits)
  then obtain dd where "response = VDict dd" by (cases response) auto
  then show ?thesis using registered_scopes_spec [OF d] r t
    unfolding delegated_by_service_def either_value_def by (fastforce split: if_splits)
qed

definition serves_minted :: "(pv \<Rightarrow> string) \<Rightarrow> pool_event list \<Rightarrow> bool" where
  "serves_minted digest h \<longleftrightarrow> (\<forall>a b now q g. h = a @ Served now q g # b \<longrightarrow> usable now g \<and> plain_ids q
     \<and> origin digest a (run_grant_cache_key digest q) g)"

definition mints_delegated :: "pool_event list \<Rightarrow> bool" where
  "mints_delegated h \<longleftrightarrow> (\<forall>q g. Minted q g \<in> set h \<longrightarrow> (\<exists>E. delegated_by_service E (gr_grantex_agent q) (gr_scopes q) (pg_token g)))"

lemma serves_snoc:
  assumes "serves_minted digest h"
    and "\<And>now q g. x = Served now q g \<Longrightarrow> usable now g \<and> plain_ids q \<and> origin digest h (run_grant_cache_key digest q) g"
  shows "serves_minted digest (h @ [x])"
  unfolding serves_minted_def
proof (intro allI impI)
  fix a b now q g assume e: "h @ [x] = a @ Served now q g # b"
  show "usable now g \<and> plain_ids q \<and> origin digest a (run_grant_cache_key digest q) g"
  proof (cases b rule: rev_cases)
    case Nil
    then show ?thesis using e assms(2) by simp
  next
    case (snoc ys y)
    then have "h = a @ Served now q g # ys" using e by simp
    then show ?thesis using assms(1) unfolding serves_minted_def by blast
  qed
qed

lemma pool_history_events:
  assumes "pool_history digest h x"
  shows "serves_minted digest h \<and> mints_delegated h"
  using assms
proof (induction rule: pool_history.induct)
  case (empty r)
  then show ?case by (simp add: serves_minted_def mints_delegated_def)
next
  case (served h r loc fl q answers now i g l)
  have inv: "pool_inv digest h (r, loc, fl)" using pool_history_inv [OF served(1)] .
  obtain g0 where g0: "usable now g" "pg_token g0 = pg_token g"
      "(\<exists>t. (run_grant_cache_key digest q, Some g0, t) \<in> set (rd_grants r)) \<or> (run_grant_cache_key digest q, g0) \<in> set (loc i)"
    using cached_from [OF served(4)] by blast
  then have "origin digest h (run_grant_cache_key digest q) g0" using inv unfolding pool_inv_def by blast
  then have "origin digest h (run_grant_cache_key digest q) g" using g0(2) by (simp add: origin_def)
  then have "serves_minted digest (h @ [Served now q g])"
    using served.IH g0(1) served(3) by (intro serves_snoc) auto
  then show ?case using served.IH by (simp add: mints_delegated_def)
next
  case (minted h r loc fl q E g)
  have "serves_minted digest (h @ [Minted q g])" using minted.IH by (intro serves_snoc) auto
  moreover have "mints_delegated (h @ [Minted q g])"
    using minted.IH minted_by_service [OF minted(4)] by (auto simp: mints_delegated_def)
  ultimately show ?case by blast
qed simp_all

section \<open>Bounds\<close>

lemma local_bounded: "pool_history digest h x \<Longrightarrow> length (fst (snd x) i) \<le> LOCAL_CACHE_MAX"
proof (induction rule: pool_history.induct)
  case (served h r loc fl q answers now j g l)
  then have "length l \<le> length (loc j)" by (auto simp: cached_run_grant_def drop_entry_def split: option.splits if_splits)
  then show ?case using served.IH by (cases "i = j") auto
next
  case (missed h r loc fl answers now q j l)
  then have "length l \<le> length (loc j)" by (auto simp: cached_run_grant_def drop_entry_def split: option.splits if_splits)
  then show ?case using missed.IH by (cases "i = j") auto
next
  case (stored h r loc fl q g answers now j r' l)
  then have "l = loc j \<or> length l \<le> LOCAL_CACHE_MAX"
    by (auto simp: store_run_grant_def store_local_def Let_def split: option.splits if_splits)
  then show ?case using stored.IH by (cases "i = j") auto
next
  case (revoked h r loc fl str_of now commands tenant agent revoker j outcome ts published r' l)
  then have "l = snd (evict_local_agent_grants agent (loc j))" by (auto simp: revoke_agent_grants_def Let_def split: prod.splits)
  then have "length l \<le> length (loc j)" by (simp add: evict_local_agent_grants_def)
  then show ?case using revoked.IH by (cases "i = j") auto
next
  case (heard h r loc fl agent j r' l)
  then have "length l \<le> length (loc j)" by (auto simp: on_revocation_def evict_local_agent_grants_def)
  then show ?case using heard.IH by (cases "i = j") auto
qed simp_all

text \<open>Room is found unless every lock is held.\<close>

lemma evict_unheld_room:
  "length (evict_unheld before locks) < LOCKS_MAX \<or> list_all snd locks \<and> evict_unheld before locks = before @ locks
    \<or> LOCKS_MAX \<le> length (evict_unheld before locks) \<and> evict_unheld before locks = before @ filter snd locks"
  by (induction before locks rule: evict_unheld.induct) (auto simp: list_all_iff)

lemma mint_lock_bounded:
  assumes "length locks \<le> LOCKS_MAX" "mint_lock key locks = (locks', shared)"
  shows "length locks' \<le> LOCKS_MAX \<and> (\<not> shared \<longrightarrow> (\<forall>e \<in> set locks'. snd e))"
proof -
  have "length (filter snd locks) \<le> LOCKS_MAX" using length_filter_le [of snd locks] assms(1) by linarith
  then show ?thesis using assms evict_unheld_room [of "[]" locks]
    by (auto simp: mint_lock_def Let_def list_all_iff split: if_splits)
qed

section \<open>Properties\<close>


subsection \<open>Revocation\<close>

lemma agent_key_cache_key:
  assumes "CHR '':'' \<notin> set tenant" "CHR '':'' \<notin> set agent"
  shows "agent_key agent (''grant:run:'' @ tenant @ '':'' @ agent @ '':'' @ d)"
proof -
  have "split_on '':'' (''grant:run:'' @ tenant @ '':'' @ agent @ '':'' @ d) = ''grant'' # ''run'' # tenant # agent # split_on '':'' d"
    using split_on_char [of "CHR '':''" "''grant''" "''run:'' @ tenant @ '':'' @ agent @ '':'' @ d"]
      split_on_char [of "CHR '':''" "''run''" "tenant @ '':'' @ agent @ '':'' @ d"]
      split_on_char [of "CHR '':''" tenant "agent @ '':'' @ d"] split_on_char [of "CHR '':''" agent d] assms
    by simp
  then show ?thesis by (simp add: agent_key_def)
qed

lemma map_of_drop: "map_of (drop_entry k entries) k' = (if k' = k then None else map_of entries k')"
  by (induction entries) (auto simp: drop_entry_def)

lemma live_drop: "live_entry now (drop_entry k entries) k' = (if k' = k then None else live_entry now entries k')"
  by (simp add: live_entry_def map_of_drop)

lemma set_add_token: "set (add_token t ts) = set ts \<union> (if t = [] then {} else {t})"
  by (auto simp: add_token_def)

text \<open>With enough commands every key is deleted and every token read.\<close>

lemma revoke_keys_all:
  assumes "2 * length ks \<le> n"
  shows "\<exists>r' ts'. revoke_keys now n ks r ts = (Some (n - 2 * length ks), r', ts')
    \<and> (\<forall>t k. live_entry t (rd_grants r') k = (if k \<in> set ks then None else live_entry t (rd_grants r) k))
    \<and> set ts \<subseteq> set ts' \<and> (\<forall>k \<in> set ks. stored_token now k r = [] \<or> stored_token now k r \<in> set ts')"
  using assms
proof (induction ks arbitrary: n r ts)
  case (Cons k ks)
  let ?r = "r\<lparr> rd_grants := drop_entry k (rd_grants r) \<rparr>" and ?ts = "add_token (stored_token now k r) ts"
  from Cons.prems have n: "2 * length ks \<le> n - 2" "n \<noteq> 0" "n \<noteq> 1" "n - 2 - 2 * length ks = n - 2 * length (k # ks)" by auto
  from Cons.IH [OF n(1), of ?r ?ts] obtain r' ts' where
    i: "revoke_keys now (n - 2) ks ?r ?ts = (Some (n - 2 - 2 * length ks), r', ts')"
      "\<forall>t j. live_entry t (rd_grants r') j = (if j \<in> set ks then None else live_entry t (rd_grants ?r) j)"
      "set ?ts \<subseteq> set ts'" "\<forall>j \<in> set ks. stored_token now j ?r = [] \<or> stored_token now j ?r \<in> set ts'" by blast
  have "revoke_keys now n (k # ks) r ts = (Some (n - 2 * length (k # ks)), r', ts')" using i(1) n by (simp add: Let_def)
  moreover have "stored_token now j ?r = (if j = k then [] else stored_token now j r)" for j
    by (simp add: stored_token_def live_drop)
  ultimately show ?case using i(2-4) by (fastforce simp: live_drop set_add_token split: if_splits)
qed simp

lemma revoke_rest_keeps:
  assumes "revoke_rest str_of now n agent r ts = (published, r', ts')" "4 \<le> n"
  shows "published \<and> rd_grants r' = rd_grants r \<and> set ts \<subseteq> set ts' \<and> map_of (rd_tokens r') agent = None \<and> map_of (rd_delegated r') agent = None"
  using assms by (auto simp: revoke_rest_def Let_def set_add_token map_of_drop)


section \<open>A worked grant\<close>

definition sample_mint :: mint_env where
  "sample_mint = \<lparr> me_root_grant = ''root'', me_client = True,
     me_registration = (\<lambda>gid. Inr (VList [VStr ''tool:gmail:read:send_email''])),
     me_delegate = (\<lambda>root gid scopes expires_in. Inr (VDict [(''grantToken'', VStr ''tok''), (''grantId'', VStr ''g1''), (''expiresAt'', VStr ''t1000'')])),
     me_timestamp = (\<lambda>s. Some 1000), me_str = (\<lambda>v. ''g1''), me_default_ttl = 900 \<rparr>"

definition sample_request :: grant_request where
  "sample_request = \<lparr> gr_tenant = ''t1'', gr_agent = ''a1'', gr_grantex_agent = ''ag_1'',
     gr_scopes = [''tool:gmail:read:send_email'', ''tool:jira:write:create_issue''], gr_ttl = None, gr_isolation = None \<rparr>"

definition sample_digest :: "pv \<Rightarrow> string" where "sample_digest v = ''abc''"

definition empty_redis :: redis_cache where
  "empty_redis = \<lparr> rd_grants = [], rd_tokens = [], rd_delegated = [] \<rparr>"

definition sample_minted :: pool_grant where
  "sample_minted = \<lparr> pg_token = ''tok'', pg_grant_id = ''g1'', pg_expires_at = Some 1000, pg_source = ''minted'', pg_ttl_seconds = 900 \<rparr>"

definition sample_pool :: "redis_cache \<times> local_grants" where
  "sample_pool = store_run_grant True 0 (run_grant_cache_key sample_digest sample_request) sample_minted empty_redis []"

lemma sample_history:
  "pool_history sample_digest ([] @ [Minted sample_request sample_minted] @ [Served 10 sample_request (from_cache sample_minted)])
     (fst sample_pool, (\<lambda>i. [])(0 := snd sample_pool), [(sample_request, sample_minted)])"
proof -
  have ok: "request_error sample_request = None" "plain_ids sample_request" by code_simp+
  have e: "pool_history sample_digest [] (empty_redis, (\<lambda>i. []), [])" by (rule pool_history.empty) (simp add: empty_redis_def)
  have "mint_run_grant sample_mint (gr_grantex_agent sample_request) (gr_scopes sample_request) (request_ttl sample_mint sample_request) = Inr sample_minted"
    by code_simp
  from pool_history.minted [OF e ok this]
  have "pool_history sample_digest [Minted sample_request sample_minted] (empty_redis, (\<lambda>i. []), [(sample_request, sample_minted)])" by simp
  then have "pool_history sample_digest [Minted sample_request sample_minted]
      (fst sample_pool, (\<lambda>i. [])(0 := snd sample_pool), [(sample_request, sample_minted)])"
    by (rule pool_history.stored [of _ _ _ _ _ sample_request sample_minted]) (simp_all add: sample_pool_def)
  from pool_history.served [OF this ok, of True 10 0 "from_cache sample_minted" "snd sample_pool"]
  have "cached_run_grant True 10 (run_grant_cache_key sample_digest sample_request) (fst sample_pool) (snd sample_pool)
      = (Some (from_cache sample_minted), snd sample_pool) \<Longrightarrow> ?thesis"
    by simp
  moreover have "cached_run_grant True 10 (run_grant_cache_key sample_digest sample_request) (fst sample_pool) (snd sample_pool)
      = (Some (from_cache sample_minted), snd sample_pool)"
    by code_simp
  ultimately show ?thesis by blast
qed



end
