(* ===== verification/Operator_Override.thy ===== *)
theory Operator_Override
  imports Action_Policy
begin

text \<open>
  Operator overrides (\<open>core/governance/operator_override.py\<close>, \<open>core/models/operator_override.py\<close>) and the
  fixed-window counter behind a throttle (\<open>check_window_rate\<close> of \<open>core/auth_state.py\<close>). Redis and the
  database answer or fail call by call; \<open>world_answers\<close> says how for one call. Times are seconds.
\<close>

section \<open>Data\<close>

definition TARGET_KINDS :: "string list" where
  "TARGET_KINDS = [''provider'', ''model'', ''agent'', ''all_agents'', ''workflow'', ''connector'', ''tool'', ''tool_pipeline'']"

definition MODES :: "string list" where "MODES = [''halt'', ''throttle'']"

record override_row =
  or_id :: string
  or_tenant_id :: string
  or_target_kind :: string
  or_target_id :: string
  or_mode :: string
  or_limit :: "int option"
  or_reason :: string
  or_created_by :: string
  or_created_at :: rat
  or_expires_at :: "rat option"
  or_released_at :: "rat option"
  or_released_by :: "string option"

text \<open>The check constraints of the table.\<close>

definition row_constraints :: "override_row \<Rightarrow> bool" where
  "row_constraints r \<longleftrightarrow> or_target_kind r \<in> set TARGET_KINDS \<and> or_mode r \<in> set MODES
     \<and> (or_mode r = ''halt'' \<and> or_limit r = None
        \<or> or_mode r = ''throttle'' \<and> (case or_limit r of Some n \<Rightarrow> n \<ge> 0 | None \<Rightarrow> False))"

record override =
  ov_id :: string
  ov_target_kind :: string
  ov_target_id :: string
  ov_mode :: string
  ov_limit :: "int option"
  ov_reason :: string

definition override_of :: "override_row \<Rightarrow> override" where
  "override_of r = \<lparr> ov_id = or_id r, ov_target_kind = or_target_kind r, ov_target_id = or_target_id r, ov_mode = or_mode r,
     ov_limit = or_limit r, ov_reason = or_reason r \<rparr>"

record override_decision =
  od_blocked :: bool
  od_reason :: string
  od_override :: "override option"

definition ALLOWED :: override_decision where
  "ALLOWED = \<lparr> od_blocked = False, od_reason = [], od_override = None \<rparr>"

record override_event =
  oe_tenant_id :: string
  oe_action :: string
  oe_actor_id :: string
  oe_override :: override
  oe_expires_at :: "rat option"

text \<open>What the control keeps: the rows and their audit entries, the cached lists and the window counters in
  Redis, the counters in memory, and the flag cache of the process.\<close>

record override_state =
  os_rows :: "override_row list"
  os_audit :: "override_event list"
  os_cache :: "string \<Rightarrow> (override list \<times> rat) option"
  os_counters :: "string \<Rightarrow> (nat \<times> rat option) option"
  os_memory :: "string \<Rightarrow> rat list"
  os_flags :: flag_cache

record world_answers =
  wa_flags :: flag_store
  wa_redis :: bool
  wa_cache_read :: bool
  wa_cache_write :: bool
  wa_database :: bool
  wa_incr :: bool
  wa_expire :: bool

record override_config =
  oc_sha256 :: sha256_digest
  oc_parse_uuid :: uuid_parser
  oc_env :: "string option"
  oc_enabled :: bool

section \<open>Names and matching\<close>

definition FLAG_KEY :: string where "FLAG_KEY = ''operator_override.enabled''"
definition ERROR_CODE :: string where "ERROR_CODE = ''E1013''"
definition OVERRIDE_CACHE_TTL :: rat where "OVERRIDE_CACHE_TTL = 5"

definition PROVIDER_ALIASES :: "string dict" where
  "PROVIDER_ALIASES = [(''claude'', ''anthropic''), (''gpt'', ''openai''), (''azure_openai'', ''openai''),
     (''openai_compatible'', ''openai'')]"

definition clean :: "string \<Rightarrow> string" where
  "clean s = lower (strip s)"

definition normalise_provider :: "string \<Rightarrow> string" where
  "normalise_provider name = (let key = clean name in case dget PROVIDER_ALIASES key of Some a \<Rightarrow> a | None \<Rightarrow> key)"

definition THROTTLE_UNITS :: "string dict" where
  "THROTTLE_UNITS = [(''provider'', ''model''), (''model'', ''model''), (''agent'', ''agent''), (''all_agents'', ''agent''),
     (''workflow'', ''workflow''), (''connector'', ''tool''), (''tool'', ''tool''), (''tool_pipeline'', ''tool'')]"

definition as_uuid :: "uuid_parser \<Rightarrow> uuid_arg \<Rightarrow> string option" where
  "as_uuid parse_uuid v =
     (case v of UuidNone \<Rightarrow> None | UuidValue u \<Rightarrow> Some u | UuidText s \<Rightarrow> if s = [] then None else parse_uuid s)"

text \<open>What a call is about; an absent argument is the empty text.\<close>

record call_subject =
  cs_provider :: string
  cs_model :: string
  cs_agent_id :: string
  cs_workflow_id :: string
  cs_connector :: string
  cs_tool :: string

definition normal_subject :: "call_subject \<Rightarrow> call_subject" where
  "normal_subject c = \<lparr> cs_provider = normalise_provider (cs_provider c), cs_model = clean (cs_model c),
     cs_agent_id = clean (cs_agent_id c), cs_workflow_id = clean (cs_workflow_id c), cs_connector = clean (cs_connector c),
     cs_tool = clean (cs_tool c) \<rparr>"

definition override_matches :: "override \<Rightarrow> call_subject \<Rightarrow> bool" where
  "override_matches ov c =
     (let target = clean (ov_target_id ov); kind = ov_target_kind ov
      in if kind = ''provider'' then cs_provider c \<noteq> [] \<and> normalise_provider target = cs_provider c
         else if kind = ''model'' then cs_model c \<noteq> [] \<and> target = cs_model c
         else if kind = ''agent'' then cs_agent_id c \<noteq> [] \<and> target = cs_agent_id c
         else if kind = ''all_agents'' then cs_agent_id c \<noteq> []
         else if kind = ''workflow'' then cs_workflow_id c \<noteq> [] \<and> target = cs_workflow_id c
         else if kind = ''connector'' then cs_connector c \<noteq> [] \<and> target = cs_connector c
         else if kind = ''tool'' then cs_connector c \<noteq> [] \<and> cs_tool c \<noteq> []
            \<and> target \<in> {cs_tool c, cs_connector c @ '':'' @ cs_tool c}
         else if kind = ''tool_pipeline'' then cs_connector c \<noteq> []
         else False)"

definition describe :: "override \<Rightarrow> string" where
  "describe ov =
     (let target = ov_target_kind ov @ (if ov_target_id ov = [] then [] else '' '' @ ov_target_id ov)
      in if ov_mode ov = ''halt'' then ''Operator override: '' @ target @ '' is halted ('' @ ov_reason ov @ '').''
         else ''Operator override: '' @ target @ '' is throttled to ''
           @ (case ov_limit ov of Some n \<Rightarrow> str_int n | None \<Rightarrow> ''None'') @ '' calls per minute ('' @ ov_reason ov @ '').'')"

section \<open>Reading the overrides\<close>

definition active_row :: "rat \<Rightarrow> string \<Rightarrow> override_row \<Rightarrow> bool" where
  "active_row now tid r \<longleftrightarrow> or_tenant_id r = tid \<and> or_released_at r = None
     \<and> (case or_expires_at r of None \<Rightarrow> True | Some t \<Rightarrow> t > now)"

definition load_from_db :: "rat \<Rightarrow> override_row list \<Rightarrow> string \<Rightarrow> override list" where
  "load_from_db now rows tid = map override_of (filter (active_row now tid) rows)"

definition cached_overrides :: "rat \<Rightarrow> override_state \<Rightarrow> string \<Rightarrow> override list option" where
  "cached_overrides now st tid =
     (case os_cache st tid of Some (os, expires) \<Rightarrow> if expires > now then Some os else None | None \<Rightarrow> None)"

text \<open>The first half of \<open>active_overrides\<close>: the cached list, or the rows and whether they are to be cached.\<close>

definition read_overrides :: "rat \<Rightarrow> world_answers \<Rightarrow> override_state \<Rightarrow> string \<Rightarrow> (unit, override list \<times> bool) res" where
  "read_overrides now w st tid =
     (let redis = wa_redis w \<and> wa_cache_read w
      in case (if redis then cached_overrides now st tid else None) of
           Some os \<Rightarrow> Inr (os, False)
         | None \<Rightarrow> if wa_database w then Inr (load_from_db now (os_rows st) tid, redis) else Inl ())"

text \<open>The second half: the list goes to the cache for five seconds, best effort.\<close>

definition write_overrides :: "rat \<Rightarrow> override_state \<Rightarrow> string \<Rightarrow> override list \<Rightarrow> override_state" where
  "write_overrides now st tid os = st\<lparr> os_cache := (os_cache st)(tid \<mapsto> (os, now + OVERRIDE_CACHE_TTL)) \<rparr>"

definition active_overrides ::
    "rat \<Rightarrow> rat \<Rightarrow> world_answers \<Rightarrow> override_state \<Rightarrow> string \<Rightarrow> (unit, override list) res \<times> override_state" where
  "active_overrides now later w st tid =
     (case read_overrides now w st tid of
        Inl e \<Rightarrow> (Inl e, st)
      | Inr (os, fresh) \<Rightarrow> (Inr os, if fresh \<and> wa_cache_write w then write_overrides later st tid os else st))"

definition invalidate :: "bool \<Rightarrow> override_state \<Rightarrow> string \<Rightarrow> override_state" where
  "invalidate redis st tid = (if redis then st\<lparr> os_cache := (os_cache st)(tid := None) \<rparr> else st)"

definition control_enabled ::
    "override_config \<Rightarrow> rat \<Rightarrow> world_answers \<Rightarrow> override_state \<Rightarrow> string \<Rightarrow> (flag_error, bool) res \<times> override_state" where
  "control_enabled cfg now w st tid =
     (if oc_enabled cfg then (Inr True, st)
      else case load_flag_rows_strict now now (wa_flags w) (os_flags st) FLAG_KEY tid of
             (Inl e, c) \<Rightarrow> (Inl e, st\<lparr> os_flags := c \<rparr>)
           | (Inr rows, c) \<Rightarrow> (Inr (authority_flag (oc_sha256 cfg) FLAG_KEY rows tid), st\<lparr> os_flags := c \<rparr>))"

section \<open>Throttling\<close>

text \<open>\<open>INCR\<close> and, for the first call of a window, \<open>EXPIRE\<close>: two commands, so the second can fail after the first.\<close>

definition redis_window ::
    "rat \<Rightarrow> world_answers \<Rightarrow> override_state \<Rightarrow> string \<Rightarrow> nat \<Rightarrow> rat \<Rightarrow> (unit, bool) res \<times> override_state" where
  "redis_window now w st key limit window =
     (if \<not> wa_incr w then (Inl (), st)
      else let (n, e) = (case os_counters st key of
                 Some (n, Some e) \<Rightarrow> if e > now then (n, Some e) else (0, None)
               | Some (n, None) \<Rightarrow> (n, None)
               | None \<Rightarrow> (0, None));
               count = n + 1;
               put = (\<lambda>e. st\<lparr> os_counters := (os_counters st)(key \<mapsto> (count, e)) \<rparr>)
           in if count = 1 then
                if wa_expire w then (Inr (count > limit), put (Some (now + window))) else (Inl (), put None)
              else (Inr (count > limit), put e))"

definition memory_window :: "rat \<Rightarrow> override_state \<Rightarrow> string \<Rightarrow> nat \<Rightarrow> rat \<Rightarrow> bool \<times> override_state" where
  "memory_window now st key limit window =
     (let ts = filter (\<lambda>t. now - t < window) (os_memory st key)
      in if length ts \<ge> limit then (True, st\<lparr> os_memory := (os_memory st)(key := ts) \<rparr>)
         else (False, st\<lparr> os_memory := (os_memory st)(key := ts @ [now]) \<rparr>))"

definition check_window_rate ::
    "bool \<Rightarrow> rat \<Rightarrow> world_answers \<Rightarrow> override_state \<Rightarrow> string \<Rightarrow> string \<Rightarrow> nat \<Rightarrow> rat \<Rightarrow> (string, bool) res \<times> override_state" where
  "check_window_rate strict now w st namespace key limit window =
     (let fallback = (\<lambda>st'. if strict then (Inl (''auth_state: check_window_rate:'' @ namespace @ '' requires Redis in strict mode''), st')
            else let (b, st'') = memory_window now st' (namespace @ '':'' @ key) limit window in (Inr b, st''))
      in if wa_redis w then
           (case redis_window now w st (''auth:'' @ namespace @ '':'' @ key) limit window of
              (Inr b, st') \<Rightarrow> (Inr b, st')
            | (Inl e, st') \<Rightarrow> fallback st')
         else fallback st)"

definition throttled ::
    "override_config \<Rightarrow> rat \<Rightarrow> world_answers \<Rightarrow> override_state \<Rightarrow> string \<Rightarrow> override \<Rightarrow> bool \<times> override_state" where
  "throttled cfg now w st tid ov =
     (let limit = (case ov_limit ov of Some n \<Rightarrow> n | None \<Rightarrow> 0)
      in if limit \<le> 0 then (True, st)
         else case check_window_rate (is_strict_runtime_env (oc_env cfg)) now w st ''operator_override''
                     (tid @ '':'' @ ov_id ov) (nat limit) 60 of
                (Inr b, st') \<Rightarrow> (b, st')
              | (Inl e, st') \<Rightarrow> (True, st'))"

section \<open>The check\<close>

definition blocked_by :: "override \<Rightarrow> override_decision" where
  "blocked_by ov = \<lparr> od_blocked = True, od_reason = describe ov, od_override = Some ov \<rparr>"

fun check_throttles ::
    "override_config \<Rightarrow> rat \<Rightarrow> world_answers \<Rightarrow> string \<Rightarrow> string option \<Rightarrow> override list \<Rightarrow> override_state
     \<Rightarrow> override_decision \<times> override_state" where
  "check_throttles cfg now w tid unit [] st = (ALLOWED, st)"
| "check_throttles cfg now w tid unit (ov # os) st =
     (if unit = None \<or> dget THROTTLE_UNITS (ov_target_kind ov) \<noteq> unit then check_throttles cfg now w tid unit os st
      else case throttled cfg now w st tid ov of
             (True, st') \<Rightarrow> (blocked_by ov, st')
           | (False, st') \<Rightarrow> check_throttles cfg now w tid unit os st')"

definition decide_override ::
    "override_config \<Rightarrow> rat \<Rightarrow> world_answers \<Rightarrow> string \<Rightarrow> string option \<Rightarrow> call_subject \<Rightarrow> override list \<Rightarrow> override_state
     \<Rightarrow> override_decision \<times> override_state" where
  "decide_override cfg now w tid unit subject os st =
     (let matched = filter (\<lambda>ov. override_matches ov (normal_subject subject)) os
      in case filter (\<lambda>ov. ov_mode ov = ''halt'') matched of
           ov # _ \<Rightarrow> (blocked_by ov, st)
         | [] \<Rightarrow> check_throttles cfg now w tid unit matched st)"

definition read_failed :: "override_config \<Rightarrow> override_decision" where
  "read_failed cfg = (if is_strict_runtime_env (oc_env cfg)
     then \<lparr> od_blocked = True, od_reason = ''Operator overrides could not be read; refusing the call.'', od_override = None \<rparr>
     else ALLOWED)"

definition check_override ::
    "override_config \<Rightarrow> rat \<Rightarrow> rat \<Rightarrow> world_answers \<Rightarrow> override_state \<Rightarrow> uuid_arg \<Rightarrow> call_subject \<Rightarrow> string option
     \<Rightarrow> override_decision \<times> override_state" where
  "check_override cfg now later w st tenant_id subject unit =
     (case as_uuid (oc_parse_uuid cfg) tenant_id of
        None \<Rightarrow> (ALLOWED, st)
      | Some tid \<Rightarrow>
          (case control_enabled cfg now w st tid of
             (Inl e, st1) \<Rightarrow> (read_failed cfg, st1)
           | (Inr False, st1) \<Rightarrow> (ALLOWED, st1)
           | (Inr True, st1) \<Rightarrow>
               (case active_overrides now later w st1 tid of
                  (Inl e, st2) \<Rightarrow> (read_failed cfg, st2)
                | (Inr os, st2) \<Rightarrow> decide_override cfg later w tid unit subject os st2)))"

section \<open>Changes\<close>

record override_request =
  oq_target_kind :: string
  oq_target_id :: string
  oq_mode :: string
  oq_limit :: "int option"
  oq_reason :: string
  oq_actor_id :: string
  oq_expires_at :: "rat option"

definition validate_override :: "override_request \<Rightarrow> (py_error, string \<times> int option) res" where
  "validate_override q =
     (if oq_target_kind q \<notin> set TARGET_KINDS then Inl (ValueError (''unknown target kind: '' @ oq_target_kind q))
      else if oq_mode q \<notin> set MODES then Inl (ValueError (''unknown mode: '' @ oq_mode q))
      else if oq_mode q = ''throttle'' \<and> (case oq_limit q of None \<Rightarrow> True | Some n \<Rightarrow> n < 0)
      then Inl (ValueError ''a throttle needs limit_per_minute >= 0'')
      else let limit = (if oq_mode q = ''halt'' then None else oq_limit q)
           in if oq_target_kind q \<in> {''all_agents'', ''tool_pipeline''} then Inr ([], limit)
              else if strip (oq_target_id q) = [] then Inl (ValueError (''target kind '' @ oq_target_kind q @ '' needs a target_id''))
              else Inr (oq_target_id q, limit))"

text \<open>The row and its audit entry are one transaction; \<open>fresh\<close> is the new id, \<open>now\<close> the database's time.\<close>

definition set_override ::
    "rat \<Rightarrow> string \<Rightarrow> override_state \<Rightarrow> string \<Rightarrow> override_request \<Rightarrow> (py_error, override \<times> override_state) res" where
  "set_override now fresh st tid q =
     rbind (validate_override q) (\<lambda>(target, limit).
       let row = \<lparr> or_id = fresh, or_tenant_id = tid, or_target_kind = oq_target_kind q, or_target_id = strip target,
                   or_mode = oq_mode q, or_limit = limit, or_reason = strip (oq_reason q), or_created_by = oq_actor_id q,
                   or_created_at = now, or_expires_at = oq_expires_at q, or_released_at = None, or_released_by = None \<rparr>;
           event = \<lparr> oe_tenant_id = tid, oe_action = ''set'', oe_actor_id = oq_actor_id q, oe_override = override_of row,
                     oe_expires_at = oq_expires_at q \<rparr>
       in Inr (override_of row, st\<lparr> os_rows := os_rows st @ [row], os_audit := os_audit st @ [event] \<rparr>))"

definition release_row :: "rat \<Rightarrow> string \<Rightarrow> string \<Rightarrow> string \<Rightarrow> override_row \<Rightarrow> override_row" where
  "release_row now tid oid actor r =
     (if or_id r = oid \<and> or_tenant_id r = tid \<and> or_released_at r = None
      then r\<lparr> or_released_at := Some now, or_released_by := Some actor \<rparr> else r)"

definition release_override :: "rat \<Rightarrow> override_state \<Rightarrow> string \<Rightarrow> string \<Rightarrow> string \<Rightarrow> override option \<times> override_state" where
  "release_override now st tid oid actor =
     (case find (\<lambda>r. or_id r = oid \<and> or_tenant_id r = tid \<and> or_released_at r = None) (os_rows st) of
        None \<Rightarrow> (None, st)
      | Some r \<Rightarrow>
          (let event = \<lparr> oe_tenant_id = tid, oe_action = ''released'', oe_actor_id = actor, oe_override = override_of r,
                         oe_expires_at = None \<rparr>
           in (Some (override_of r), st\<lparr> os_rows := map (release_row now tid oid actor) (os_rows st),
                 os_audit := os_audit st @ [event] \<rparr>)))"
section \<open>Overrides over time\<close>

text \<open>
  The control with its clock and the reads whose result is still to be written to the cache: calls are
  read, written back, set, released and invalidated in any order. A read is written back within
  \<open>delay\<close> seconds or not at all; the invalidation after a change is best effort, so no step depends on it.
\<close>

record override_world =
  vw_now :: rat
  vw_state :: override_state
  vw_pending :: "(string \<times> override list \<times> rat) list"

definition empty_overrides :: override_state where
  "empty_overrides = \<lparr> os_rows = [], os_audit = [], os_cache = (\<lambda>t. None), os_counters = (\<lambda>k. None), os_memory = (\<lambda>k. []),
     os_flags = [] \<rparr>"

inductive override_reach :: "override_config \<Rightarrow> rat \<Rightarrow> override_world \<Rightarrow> bool" for cfg delay where
  start: "override_reach cfg delay \<lparr> vw_now = t, vw_state = empty_overrides, vw_pending = [] \<rparr>"
| tick: "override_reach cfg delay v \<Longrightarrow> vw_now v \<le> t \<Longrightarrow> override_reach cfg delay (v\<lparr> vw_now := t \<rparr>)"
| set: "override_reach cfg delay v \<Longrightarrow> set_override (vw_now v) fresh (vw_state v) tid q = Inr (ov, st) \<Longrightarrow>
    override_reach cfg delay (v\<lparr> vw_state := st \<rparr>)"
| release: "override_reach cfg delay v \<Longrightarrow> release_override (vw_now v) (vw_state v) tid oid actor = (res, st) \<Longrightarrow>
    override_reach cfg delay (v\<lparr> vw_state := st \<rparr>)"
| invalidate: "override_reach cfg delay v \<Longrightarrow> override_reach cfg delay (v\<lparr> vw_state := invalidate redis (vw_state v) tid \<rparr>)"
| read: "override_reach cfg delay v \<Longrightarrow> read_overrides (vw_now v) w (vw_state v) tid = Inr (os, True) \<Longrightarrow>
    override_reach cfg delay (v\<lparr> vw_pending := (tid, os, vw_now v) # vw_pending v \<rparr>)"
| written: "override_reach cfg delay v \<Longrightarrow> (tid, os, t) \<in> set (vw_pending v) \<Longrightarrow> vw_now v \<le> t + delay \<Longrightarrow>
    override_reach cfg delay (v\<lparr> vw_state := write_overrides (vw_now v) (vw_state v) tid os \<rparr>)"
| checked: "override_reach cfg delay v \<Longrightarrow> vw_now v \<le> t \<Longrightarrow> t \<le> vw_now v + delay \<Longrightarrow>
    check_override cfg (vw_now v) t w (vw_state v) tenant subject unit = (dec, st) \<Longrightarrow>
    override_reach cfg delay (v\<lparr> vw_now := t, vw_state := st \<rparr>)"

text \<open>A list read at time \<open>t\<close> holds every override placed before \<open>t\<close> that is still in force.\<close>

definition covers_rows :: "rat \<Rightarrow> override_row list \<Rightarrow> string \<Rightarrow> rat \<Rightarrow> override list \<Rightarrow> bool" where
  "covers_rows now rows tid t os \<longleftrightarrow> t \<le> now \<and>
     (\<forall>r \<in> set rows. active_row now tid r \<longrightarrow> or_created_at r < t \<longrightarrow> override_of r \<in> set os)"

definition override_inv :: "rat \<Rightarrow> override_world \<Rightarrow> bool" where
  "override_inv delay v \<longleftrightarrow>
     (\<forall>r \<in> set (os_rows (vw_state v)). or_created_at r \<le> vw_now v)
     \<and> (\<forall>(tid, os, t) \<in> set (vw_pending v). covers_rows (vw_now v) (os_rows (vw_state v)) tid t os)
     \<and> (\<forall>tid os e. os_cache (vw_state v) tid = Some (os, e) \<longrightarrow>
          (\<exists>t. e \<le> t + delay + OVERRIDE_CACHE_TTL \<and> covers_rows (vw_now v) (os_rows (vw_state v)) tid t os))"

lemma active_earlier: "active_row now tid r \<Longrightarrow> t \<le> now \<Longrightarrow> active_row t tid r"
  by (auto simp: active_row_def split: option.splits)

lemma covers_tick: "covers_rows now rows tid t os \<Longrightarrow> now \<le> now' \<Longrightarrow> covers_rows now' rows tid t os"
  using active_earlier by (fastforce simp: covers_rows_def)

lemma covers_read: "covers_rows now rows tid now (load_from_db now rows tid)"
  by (auto simp: covers_rows_def load_from_db_def)

lemma covers_new: "covers_rows now rows tid t os \<Longrightarrow> or_created_at r = now \<Longrightarrow> covers_rows now (rows @ [r]) tid t os"
  by (auto simp: covers_rows_def)

lemma release_row_facts:
  "or_created_at (release_row now tid' oid actor r) = or_created_at r"
  "active_row now tid (release_row now tid' oid actor r) \<Longrightarrow> release_row now tid' oid actor r = r"
  by (auto simp: release_row_def active_row_def)

lemma covers_release:
  "covers_rows now rows tid t os \<Longrightarrow> covers_rows now (map (release_row now tid' oid actor) rows) tid t os"
  using release_row_facts by (fastforce simp: covers_rows_def)

text \<open>Every operation changes the rows, the cache and the clock in one of these ways.\<close>

lemma inv_rows:
  assumes "override_inv delay v" "\<And>tid t os. covers_rows (vw_now v) (os_rows (vw_state v)) tid t os \<Longrightarrow> covers_rows (vw_now v) rows tid t os"
    "\<forall>r \<in> set rows. or_created_at r \<le> vw_now v" "os_rows st = rows" "os_cache st = os_cache (vw_state v)"
  shows "override_inv delay (v\<lparr> vw_state := st \<rparr>)"
proof -
  have "\<forall>p \<in> set (vw_pending v). case p of (tid, os, t) \<Rightarrow> covers_rows (vw_now v) rows tid t os"
    using assms(1,2) unfolding override_inv_def by blast
  moreover have "\<exists>t. e \<le> t + delay + OVERRIDE_CACHE_TTL \<and> covers_rows (vw_now v) rows tid t os"
    if "os_cache (vw_state v) tid = Some (os, e)" for tid os e
    using assms(1,2) that unfolding override_inv_def by blast
  ultimately show ?thesis using assms(3-5) unfolding override_inv_def by simp
qed

lemma inv_tick: "override_inv delay v \<Longrightarrow> vw_now v \<le> t \<Longrightarrow> override_inv delay (v\<lparr> vw_now := t \<rparr>)"
  using covers_tick by (fastforce simp: override_inv_def)

lemma inv_cache:
  assumes "override_inv delay v" "os_rows st = os_rows (vw_state v)"
    "\<And>tid os e. os_cache st tid = Some (os, e) \<Longrightarrow> os_cache (vw_state v) tid = Some (os, e)
       \<or> (\<exists>t. e \<le> t + delay + OVERRIDE_CACHE_TTL \<and> covers_rows (vw_now v) (os_rows (vw_state v)) tid t os)"
  shows "override_inv delay (v\<lparr> vw_state := st \<rparr>)"
  using assms unfolding override_inv_def by simp blast

lemma redis_window_keeps:
  "redis_window now w st key limit window = (x, st') \<Longrightarrow> os_rows st' = os_rows st \<and> os_cache st' = os_cache st"
  by (auto simp: redis_window_def Let_def split: prod.splits if_splits)

lemma check_window_rate_keeps:
  "check_window_rate strict now w st ns key limit window = (x, st') \<Longrightarrow> os_rows st' = os_rows st \<and> os_cache st' = os_cache st"
  by (auto simp: check_window_rate_def memory_window_def Let_def split: prod.splits sum.splits if_splits
      dest!: redis_window_keeps)

lemma throttled_keeps: "throttled cfg now w st tid ov = (b, st') \<Longrightarrow> os_rows st' = os_rows st \<and> os_cache st' = os_cache st"
  by (auto simp: throttled_def Let_def split: prod.splits sum.splits if_splits dest!: check_window_rate_keeps)

lemma check_throttles_keeps:
  "check_throttles cfg now w tid unit os st = (dec, st') \<Longrightarrow> os_rows st' = os_rows st \<and> os_cache st' = os_cache st"
  by (induction cfg now w tid unit os st rule: check_throttles.induct)
    (auto split: prod.splits if_splits bool.splits dest!: throttled_keeps)

lemma decide_keeps:
  "decide_override cfg now w tid unit subject os st = (dec, st') \<Longrightarrow> os_rows st' = os_rows st \<and> os_cache st' = os_cache st"
  by (auto simp: decide_override_def Let_def split: list.splits dest: check_throttles_keeps)

lemma control_enabled_keeps:
  "control_enabled cfg now w st tid = (x, st') \<Longrightarrow> os_rows st' = os_rows st \<and> os_cache st' = os_cache st"
  by (auto simp: control_enabled_def split: if_splits prod.splits sum.splits)

lemma active_overrides_cases:
  assumes "active_overrides now later w st tid = (x, st')"
  shows "st' = st \<or> st' = write_overrides later st tid (load_from_db now (os_rows st) tid)"
  using assms by (auto simp: active_overrides_def read_overrides_def Let_def split: sum.splits option.splits if_splits)

lemma check_override_keeps:
  assumes "check_override cfg now later w st tenant subject unit = (dec, st')"
  shows "os_rows st' = os_rows st \<and> (os_cache st' = os_cache st
     \<or> (\<exists>tid. os_cache st' = (os_cache st)(tid \<mapsto> (load_from_db now (os_rows st) tid, later + OVERRIDE_CACHE_TTL))))"
  using assms
  by (auto simp: check_override_def write_overrides_def split: option.splits prod.splits sum.splits bool.splits
      dest!: control_enabled_keeps active_overrides_cases decide_keeps)

lemma override_reach_inv: "override_reach cfg delay v \<Longrightarrow> 0 \<le> delay \<Longrightarrow> override_inv delay v"
proof (induction rule: override_reach.induct)
  case (start t)
  then show ?case by (simp add: override_inv_def empty_overrides_def)
next
  case (tick v t)
  then show ?case by (intro inv_tick) auto
next
  case (set v fresh tid q ov st)
  obtain r where r: "os_rows st = os_rows (vw_state v) @ [r]" "or_created_at r = vw_now v" "os_cache st = os_cache (vw_state v)"
    using set.hyps(2) by (auto simp: set_override_def Let_def)
  show ?case
    by (rule inv_rows [OF set.IH [OF set.prems] covers_new [OF _ r(2)] _ r(1,3)])
      (use set.IH [OF set.prems] r(2) in \<open>auto simp: override_inv_def\<close>)
next
  case (release v tid oid actor res st)
  have IH: "override_inv delay v" using release by simp
  show ?case
  proof (cases "find (\<lambda>r. or_id r = oid \<and> or_tenant_id r = tid \<and> or_released_at r = None) (os_rows (vw_state v))")
    case None
    then have "st = vw_state v" using release.hyps(2) by (simp add: release_override_def)
    then show ?thesis using IH by simp
  next
    case (Some r)
    then have st: "os_rows st = map (release_row (vw_now v) tid oid actor) (os_rows (vw_state v))" "os_cache st = os_cache (vw_state v)"
      using release.hyps(2) by (auto simp: release_override_def Let_def)
    show ?thesis
      by (rule inv_rows [OF IH covers_release _ st]) (use IH release_row_facts(1) in \<open>auto simp: override_inv_def\<close>)
  qed
next
  case (invalidate v redis tid)
  then show ?case by (intro inv_cache) (auto simp: invalidate_def split: if_splits)
next
  case (read v w tid os)
  have "os = load_from_db (vw_now v) (os_rows (vw_state v)) tid"
    using read.hyps(2) by (auto simp: read_overrides_def Let_def split: option.splits if_splits)
  then show ?case using read.IH [OF read.prems] covers_read by (auto simp: override_inv_def)
next
  case (written v tid os t)
  have IH: "override_inv delay v" using written by simp
  have "covers_rows (vw_now v) (os_rows (vw_state v)) tid t os"
    using IH written.hyps(2) unfolding override_inv_def by fastforce
  moreover have "vw_now v + OVERRIDE_CACHE_TTL \<le> t + delay + OVERRIDE_CACHE_TTL" using written.hyps(3) by simp
  ultimately show ?case
    by (intro inv_cache [OF IH]) (auto simp: write_overrides_def split: if_splits)
next
  case (checked v t w tenant subject unit dec st)
  have IH: "override_inv delay v" using checked by simp
  have keeps: "os_rows st = os_rows (vw_state v)" "os_cache st = os_cache (vw_state v)
     \<or> (\<exists>tid. os_cache st = (os_cache (vw_state v))(tid \<mapsto> (load_from_db (vw_now v) (os_rows (vw_state v)) tid, t + OVERRIDE_CACHE_TTL)))"
    using check_override_keeps [OF checked.hyps(4)] by auto
  have "override_inv delay (v\<lparr> vw_state := st \<rparr>)"
    by (rule inv_cache [OF IH keeps(1)])
      (use keeps(2) covers_read checked.hyps(3) in \<open>fastforce split: if_splits\<close>)
  then have "override_inv delay (v\<lparr> vw_state := st \<rparr>\<lparr> vw_now := t \<rparr>)" using inv_tick checked.hyps(2) by simp
  moreover have "v\<lparr> vw_state := st, vw_now := t \<rparr> = v\<lparr> vw_now := t, vw_state := st \<rparr>" by (cases v) simp
  ultimately show ?case by simp
qed

text \<open>A matching halt in the list blocks, whatever the throttles say.\<close>

lemma halt_blocks:
  assumes "ov \<in> set os" "ov_mode ov = ''halt''" "override_matches ov (normal_subject subject)"
  shows "od_blocked (fst (decide_override cfg now w tid unit subject os st))"
proof -
  have "ov \<in> set (filter (\<lambda>ov. ov_mode ov = ''halt'') (filter (\<lambda>ov. override_matches ov (normal_subject subject)) os))"
    using assms by simp
  then have "filter (\<lambda>ov. ov_mode ov = ''halt'') (filter (\<lambda>ov. override_matches ov (normal_subject subject)) os) \<noteq> []"
    by (metis empty_iff empty_set)
  then show ?thesis by (auto simp: decide_override_def blocked_by_def Let_def simp del: filter_filter split: list.splits)
qed

text \<open>A halt takes effect. Once an operator has placed a halt, every check of a matching call in a
  strict runtime is refused from \<open>delay\<close> plus five seconds later until the halt is released or expires:
  whatever was cached, however reads, write-backs and other changes interleave, whether or not the
  invalidation happened, and whether Redis, the flag store or the database answer. \<open>delay\<close> bounds the time
  between a read of the overrides and its write to the cache.
\<close>

lemma halt_in_force:
  assumes "override_reach cfg delay v" "0 \<le> delay"
    and "r \<in> set (os_rows (vw_state v))" "or_mode r = ''halt''" "active_row (vw_now v) tid r"
    and "or_created_at r + delay + OVERRIDE_CACHE_TTL < vw_now v"
    and "oc_enabled cfg" "is_strict_runtime_env (oc_env cfg)" "as_uuid (oc_parse_uuid cfg) tenant = Some tid"
    and "override_matches (override_of r) (normal_subject subject)"
  shows "od_blocked (fst (check_override cfg (vw_now v) later w (vw_state v) tenant subject unit))"
proof (cases "read_overrides (vw_now v) w (vw_state v) tid")
  case (Inl e)
  then show ?thesis
    using assms(7-9) by (simp add: check_override_def control_enabled_def active_overrides_def read_failed_def)
next
  case (Inr read)
  obtain os fresh where read: "read = (os, fresh)" by (cases read)
  have inv: "override_inv delay v" by (rule override_reach_inv [OF assms(1,2)])
  have "override_of r \<in> set os"
  proof (cases "os = load_from_db (vw_now v) (os_rows (vw_state v)) tid")
    case True
    then show ?thesis using assms(3,5) by (simp add: load_from_db_def)
  next
    case False
    then obtain e where "os_cache (vw_state v) tid = Some (os, e)" "vw_now v < e"
      using Inr read by (auto simp: read_overrides_def cached_overrides_def Let_def split: option.splits if_splits)
    then obtain t where "e \<le> t + delay + OVERRIDE_CACHE_TTL" "covers_rows (vw_now v) (os_rows (vw_state v)) tid t os"
      using inv unfolding override_inv_def by blast
    then show ?thesis using assms(3,5,6) \<open>vw_now v < e\<close> by (auto simp: covers_rows_def)
  qed
  moreover have "ov_mode (override_of r) = ''halt''" using assms(4) by (simp add: override_of_def)
  ultimately show ?thesis
    using halt_blocks [OF _ _ assms(10)] Inr assms(7,9)
    by (simp add: check_override_def control_enabled_def active_overrides_def read)
qed

text \<open>A counter whose \<open>EXPIRE\<close> failed has no expiry: once it has counted to the limit, every later call of
  that override is throttled, in every window.\<close>

lemma lost_expiry:
  assumes "os_counters st key = None" "wa_incr w" "\<not> wa_expire w"
  shows "\<exists>st'. redis_window now w st key limit window = (Inl (), st') \<and> os_counters st' key = Some (1, None)"
  using assms by (simp add: redis_window_def)

lemma lost_expiry_blocks:
  assumes "os_counters st key = Some (n, None)" "0 < n" "limit \<le> n" "wa_incr w"
  shows "\<exists>st'. redis_window now w st key limit window = (Inr True, st') \<and> os_counters st' key = Some (n + 1, None)"
  using assms by (simp add: redis_window_def)

section \<open>Sample\<close>

definition sample_override_config :: override_config where
  "sample_override_config = \<lparr> oc_sha256 = (\<lambda>s. []), oc_parse_uuid = Some, oc_env = Some ''production'', oc_enabled = True \<rparr>"

definition sample_halt :: override_request where
  "sample_halt = \<lparr> oq_target_kind = ''connector'', oq_target_id = '' Stripe '', oq_mode = ''halt'', oq_limit = None,
     oq_reason = ''incident'', oq_actor_id = ''admin'', oq_expires_at = Some 1000 \<rparr>"

definition sample_subject :: call_subject where
  "sample_subject = \<lparr> cs_provider = [], cs_model = [], cs_agent_id = ''a1'', cs_workflow_id = [], cs_connector = ''stripe'',
     cs_tool = ''create_payment_link'' \<rparr>"

definition sample_answers :: world_answers where
  "sample_answers = \<lparr> wa_flags = None, wa_redis = True, wa_cache_read = True, wa_cache_write = True, wa_database = True,
     wa_incr = True, wa_expire = True \<rparr>"

definition sample_halted :: "override \<times> override_state" where
  "sample_halted = projr (set_override 0 ''o1'' empty_overrides ''t1'' sample_halt)"

text \<open>A list read before the halt and cached after it.\<close>

definition sample_override_world :: override_world where
  "sample_override_world = \<lparr> vw_now = 9, vw_state = write_overrides 1 (snd sample_halted) ''t1'' [], vw_pending = [(''t1'', [], 0)] \<rparr>"

lemma sample_override_reach: "override_reach sample_override_config 2 sample_override_world"
proof -
  let ?v = "\<lparr> vw_now = 0, vw_state = empty_overrides, vw_pending = [] \<rparr>"
  have r: "override_reach sample_override_config 2 (?v\<lparr> vw_pending := [(''t1'', [], 0)] \<rparr>)"
    using override_reach.read [OF override_reach.start, of 0 sample_answers "''t1''" "[]" sample_override_config 2]
    by (simp add: read_overrides_def cached_overrides_def load_from_db_def empty_overrides_def sample_answers_def)
  have "set_override 0 ''o1'' empty_overrides ''t1'' sample_halt = Inr (fst sample_halted, snd sample_halted)"
    by (simp add: sample_halted_def set_override_def validate_override_def sample_halt_def TARGET_KINDS_def MODES_def Let_def) code_simp
  then have "override_reach sample_override_config 2 (?v\<lparr> vw_pending := [(''t1'', [], 0)], vw_state := snd sample_halted \<rparr>)"
    by (intro override_reach.set [OF r, of "''o1''" "''t1''" sample_halt "fst sample_halted"]) simp
  from override_reach.tick [OF this, of 1]
  have "override_reach sample_override_config 2 \<lparr> vw_now = 1, vw_state = snd sample_halted, vw_pending = [(''t1'', [], 0)] \<rparr>" by simp
  from override_reach.written [OF this, of "''t1''" "[]" 0]
  have "override_reach sample_override_config 2
      \<lparr> vw_now = 1, vw_state = write_overrides 1 (snd sample_halted) ''t1'' [], vw_pending = [(''t1'', [], 0)] \<rparr>" by simp
  from override_reach.tick [OF this, of 9] show ?thesis by (simp add: sample_override_world_def)
qed

end
