(* ===== verification/Rate_Limiter.thy ===== *)
theory Rate_Limiter
  imports Prelude
begin

text \<open>
  The per-connector token bucket (\<open>core/tool_gateway/rate_limiter.py\<close>): the Lua script Redis runs
  atomically, and the check around it. Numbers are exact rationals; \<open>now\<close> is the caller's clock, which
  the script is given, and \<open>redis_now\<close> the clock Redis expires keys by.
\<close>

section \<open>The script\<close>

record token_bucket =
  tb_tokens :: rat
  tb_last_refill :: rat
  tb_expires :: rat

record script_result =
  sr_allowed :: bool
  sr_remaining :: rat
  sr_retry_after :: rat

definition bucket_ttl :: "rat \<Rightarrow> rat \<Rightarrow> rat" where
  "bucket_ttl capacity refill_rate = (let ttl = of_int (\<lceil>capacity / refill_rate\<rceil> * 2) in if ttl < 120 then 120 else ttl)"

definition live_bucket :: "rat \<Rightarrow> token_bucket option \<Rightarrow> token_bucket option" where
  "live_bucket redis_now b = (case b of Some k \<Rightarrow> if tb_expires k > redis_now then Some k else None | None \<Rightarrow> None)"

definition token_bucket_lua ::
    "rat \<Rightarrow> rat \<Rightarrow> rat \<Rightarrow> rat \<Rightarrow> token_bucket option \<Rightarrow> script_result \<times> token_bucket option" where
  "token_bucket_lua redis_now capacity refill_rate now b =
     (let (tokens0, last) = (case live_bucket redis_now b of None \<Rightarrow> (capacity, now) | Some k \<Rightarrow> (tb_tokens k, tb_last_refill k));
          elapsed = max (now - last) 0;
          tokens = min capacity (tokens0 + elapsed * refill_rate);
          put = (\<lambda>t. Some \<lparr> tb_tokens = t, tb_last_refill = now, tb_expires = redis_now + bucket_ttl capacity refill_rate \<rparr>)
      in if tokens \<ge> 1 then (\<lparr> sr_allowed = True, sr_remaining = tokens - 1, sr_retry_after = 0 \<rparr>, put (tokens - 1))
         else (\<lparr> sr_allowed = False, sr_remaining = tokens, sr_retry_after = (1 - tokens) / refill_rate \<rparr>, put tokens))"

section \<open>The check\<close>

definition CONNECTOR_RPM :: "nat dict" where
  "CONNECTOR_RPM =
     [(''salesforce'', 1500), (''hubspot'', 6000), (''zendesk'', 400), (''zoho_crm'', 600), (''stripe'', 6000),
      (''quickbooks'', 500), (''netsuite'', 600), (''oracle_fusion'', 600), (''sap'', 600), (''tally'', 1200),
      (''zoho_books'', 600), (''darwinbox'', 300), (''greenhouse'', 300), (''keka'', 300), (''okta'', 1200),
      (''mailchimp'', 600), (''google_ads'', 600), (''meta_ads'', 400), (''linkedin_ads'', 400), (''jira'', 600),
      (''confluence'', 600), (''github'', 5000), (''pagerduty'', 900), (''servicenow'', 600), (''gstn'', 100),
      (''banking_aa'', 200), (''mca_portal'', 60), (''slack'', 600), (''twilio'', 1200), (''sendgrid'', 1800),
      (''whatsapp'', 480)]"

definition default_rpm :: nat where "default_rpm = 60"

definition limit_of :: "nat option \<Rightarrow> string \<Rightarrow> nat" where
  "limit_of rpm connector =
     (let configured = (case dget CONNECTOR_RPM connector of Some n \<Rightarrow> n | None \<Rightarrow> default_rpm)
      in case rpm of Some n \<Rightarrow> if n = 0 then configured else n | None \<Rightarrow> configured)"

text \<open>\<open>round(x, 3)\<close>: to the nearest thousandth, halves to the even one.\<close>

definition round3 :: "rat \<Rightarrow> rat" where
  "round3 r = of_int (round_half_even (r * 1000)) / 1000"

record rate_limit_result =
  rl_allowed :: bool
  rl_remaining :: rat
  rl_retry_after_seconds :: rat

type_synonym bucket_store = "string \<Rightarrow> token_bucket option"

definition bucket_key :: "string \<Rightarrow> string \<Rightarrow> string" where
  "bucket_key tenant_id connector = ''ratelimit:'' @ tenant_id @ '':'' @ connector"

definition check_rate ::
    "bool \<Rightarrow> rat \<Rightarrow> rat \<Rightarrow> bucket_store \<Rightarrow> string \<Rightarrow> string \<Rightarrow> nat option \<Rightarrow> rate_limit_result \<times> bucket_store" where
  "check_rate redis redis_now now buckets tenant_id connector rpm =
     (if \<not> redis then (\<lparr> rl_allowed = True, rl_remaining = 0, rl_retry_after_seconds = 0 \<rparr>, buckets)
      else let limit = of_nat (limit_of rpm connector); key = bucket_key tenant_id connector;
               (r, b) = token_bucket_lua redis_now limit (limit / 60) now (buckets key)
           in (\<lparr> rl_allowed = sr_allowed r, rl_remaining = max (sr_remaining r) 0,
                 rl_retry_after_seconds = (if sr_allowed r then 0 else round3 (sr_retry_after r)) \<rparr>,
               buckets(key := b)))"

section \<open>Admission by credit\<close>

text \<open>
  An admission control with a credit: what is in hand never exceeds the capacity, grows at most at the
  refill rate, and an admitted call costs one. However the control works, the calls it admits in a run
  are bounded by the capacity and the time the run takes.
\<close>

fun admissions :: "(rat \<Rightarrow> 's \<Rightarrow> bool \<times> 's) \<Rightarrow> 's \<Rightarrow> rat list \<Rightarrow> bool list \<times> 's" where
  "admissions admit s [] = ([], s)"
| "admissions admit s (t # ts) =
     (let (b, s') = admit t s; (bs, s'') = admissions admit s' ts in (b # bs, s''))"

locale credit_control =
  fixes admit :: "rat \<Rightarrow> 's \<Rightarrow> bool \<times> 's" and credit :: "'s \<Rightarrow> rat \<Rightarrow> rat" and sound :: "'s \<Rightarrow> rat \<Rightarrow> bool"
    and capacity :: rat and rate :: rat
  assumes credit_bounds: "sound s t \<Longrightarrow> 0 \<le> credit s t \<and> credit s t \<le> capacity"
    and later_sound: "sound s t \<Longrightarrow> t \<le> t' \<Longrightarrow> sound s t'"
    and later_credit: "sound s t \<Longrightarrow> t \<le> t' \<Longrightarrow> credit s t' \<le> credit s t + rate * (t' - t)"
    and admit_sound: "sound s t \<Longrightarrow> admit t s = (b, s') \<Longrightarrow> sound s' t"
    and admit_cost: "sound s t \<Longrightarrow> admit t s = (b, s') \<Longrightarrow> credit s' t + (if b then 1 else 0) \<le> credit s t"
begin

definition admitted :: "bool list \<Rightarrow> rat" where
  "admitted bs = of_nat (length (filter id bs))"

lemma admitted_Cons: "admitted (b # bs) = (if b then 1 else 0) + admitted bs"
  by (simp add: admitted_def)

lemma run_cost:
  assumes "sound s t" "sorted (t # ts)" "admissions admit s ts = (bs, s')"
  shows "sound s' (last (t # ts)) \<and> credit s' (last (t # ts)) + admitted bs \<le> credit s t + rate * (last (t # ts) - t)"
  using assms
proof (induction ts arbitrary: s t bs)
  case Nil
  then show ?case by (simp add: admitted_def)
next
  case (Cons u ts)
  obtain b s1 where a: "admit u s = (b, s1)" by fastforce
  obtain cs where r: "admissions admit s1 ts = (cs, s')" "bs = b # cs" using Cons.prems(3) a by (auto split: prod.splits)
  have tu: "t \<le> u" using Cons.prems(2) by simp
  have su: "sound s u" using later_sound [OF Cons.prems(1) tu] .
  have "credit s1 u + (if b then 1 else 0) \<le> credit s u" by (rule admit_cost [OF su a])
  moreover have "credit s u \<le> credit s t + rate * (u - t)" by (rule later_credit [OF Cons.prems(1) tu])
  moreover have "sound s' (last (u # ts)) \<and> credit s' (last (u # ts)) + admitted cs \<le> credit s1 u + rate * (last (u # ts) - u)"
    using Cons.IH [OF admit_sound [OF su a] _ r(1)] Cons.prems(2) by simp
  ultimately show ?case unfolding r(2) admitted_Cons by (auto simp: algebra_simps split: if_splits)
qed

lemma run_bound:
  assumes "sound s t" "sorted (t # ts)" "admissions admit s ts = (bs, s')"
  shows "admitted bs \<le> capacity + rate * (last (t # ts) - t)"
  using run_cost [OF assms] credit_bounds [OF assms(1)] credit_bounds [of s' "last (t # ts)"] by linarith

text \<open>Every stretch of a run is bounded by its own length.\<close>

lemma admissions_append:
  "admissions admit s (us @ ts) = (let (as, s1) = admissions admit s us; (bs, s2) = admissions admit s1 ts in (as @ bs, s2))"
  by (induction us arbitrary: s) (auto split: prod.splits)

lemma admissions_length: "admissions admit s ts = (bs, s') \<Longrightarrow> length bs = length ts"
  by (induction ts arbitrary: s bs) (auto split: prod.splits)

lemma window_bound:
  assumes "\<And>t. sound s t" "sorted (us @ t # ts)"
  shows "admitted (drop (length us) (fst (admissions admit s (us @ t # ts)))) \<le> capacity + rate * (last (t # ts) - t)"
proof -
  obtain as s1 where a: "admissions admit s us = (as, s1)" by fastforce
  obtain bs s2 where b: "admissions admit s1 (t # ts) = (bs, s2)" by fastforce
  have "sorted (hd (us @ [t]) # us)" using assms(2) by (cases us) (auto simp: sorted_append)
  then have "sound s1 (last (hd (us @ [t]) # us))" using run_cost [OF assms(1) _ a] by blast
  moreover have "last (hd (us @ [t]) # us) \<le> t" using assms(2) by (cases us) (auto simp: sorted_append dest: last_in_set)
  ultimately have "sound s1 t" using later_sound by blast
  then have "admitted bs \<le> capacity + rate * (last (t # t # ts) - t)"
    using assms(2) by (intro run_bound [OF _ _ b]) (auto simp: sorted_append)
  then show ?thesis using a b admissions_length [OF a] by (simp add: admissions_append)
qed

end

section \<open>The bucket as a credit control\<close>

text \<open>What one connector's calls see of the check: the caller's clock and Redis's agree.\<close>

definition admit_call :: "string \<Rightarrow> string \<Rightarrow> rat \<Rightarrow> bucket_store \<Rightarrow> bool \<times> bucket_store" where
  "admit_call tenant_id connector now buckets =
     (let (r, buckets') = check_rate True now now buckets tenant_id connector None in (rl_allowed r, buckets'))"

definition rpm_limit :: "string \<Rightarrow> rat" where
  "rpm_limit connector = of_nat (limit_of None connector)"

definition bucket_credit :: "rat \<Rightarrow> token_bucket option \<Rightarrow> rat \<Rightarrow> rat" where
  "bucket_credit limit b t =
     (case b of None \<Rightarrow> limit | Some k \<Rightarrow> min limit (tb_tokens k + (t - tb_last_refill k) * (limit / 60)))"

definition bucket_sound :: "rat \<Rightarrow> token_bucket option \<Rightarrow> rat \<Rightarrow> bool" where
  "bucket_sound limit b t \<longleftrightarrow>
     (case b of None \<Rightarrow> True
      | Some k \<Rightarrow> 0 \<le> tb_tokens k \<and> tb_last_refill k \<le> t \<and> tb_expires k = tb_last_refill k + bucket_ttl limit (limit / 60))"

lemma limit_positive: "0 < limit_of None connector"
proof -
  have "list_all (\<lambda>e. 0 < snd e) CONNECTOR_RPM" by code_simp
  then show ?thesis
    by (auto simp: limit_of_def default_rpm_def Let_def list_all_iff dget_def split: option.splits dest!: map_of_SomeD)
qed

lemma call_limit_positive: "0 < rpm_limit connector"
  using limit_positive by (simp add: rpm_limit_def)

lemma ttl_refills: "0 < limit \<Longrightarrow> limit \<le> bucket_ttl limit (limit / 60) * (limit / 60)"
  by (auto simp: bucket_ttl_def Let_def field_simps)

text \<open>A bucket that has expired was full.\<close>

lemma expired_full:
  assumes "0 < limit" "bucket_sound limit (Some k) t" "tb_expires k \<le> t"
  shows "bucket_credit limit (Some k) t = limit"
proof -
  have "bucket_ttl limit (limit / 60) \<le> t - tb_last_refill k" using assms(2,3) by (simp add: bucket_sound_def)
  then have "bucket_ttl limit (limit / 60) * (limit / 60) \<le> (t - tb_last_refill k) * (limit / 60)"
    using assms(1) by (intro mult_right_mono) auto
  then show ?thesis using ttl_refills [OF assms(1)] assms(2) by (simp add: bucket_credit_def bucket_sound_def)
qed

lemma script_tokens:
  assumes "0 < limit" "bucket_sound limit b t"
  shows "token_bucket_lua t limit (limit / 60) t b =
    (let tokens = bucket_credit limit b t;
         put = (\<lambda>n. Some \<lparr> tb_tokens = n, tb_last_refill = t, tb_expires = t + bucket_ttl limit (limit / 60) \<rparr>)
     in if tokens \<ge> 1 then (\<lparr> sr_allowed = True, sr_remaining = tokens - 1, sr_retry_after = 0 \<rparr>, put (tokens - 1))
        else (\<lparr> sr_allowed = False, sr_remaining = tokens, sr_retry_after = (1 - tokens) / (limit / 60) \<rparr>, put tokens))"
proof (cases b)
  case None
  then show ?thesis by (simp add: token_bucket_lua_def live_bucket_def bucket_credit_def)
next
  case (Some k)
  show ?thesis
  proof (cases "tb_expires k > t")
    case True
    then show ?thesis using assms(2) Some
      by (simp add: token_bucket_lua_def live_bucket_def bucket_credit_def bucket_sound_def Let_def)
  next
    case False
    then have "bucket_credit limit b t = limit" using expired_full assms Some by simp
    then show ?thesis using False Some by (simp add: token_bucket_lua_def live_bucket_def)
  qed
qed

lemma admit_call_eq:
  assumes "bucket_sound (rpm_limit connector) (buckets (bucket_key tenant_id connector)) t"
  shows "admit_call tenant_id connector t buckets =
    (let tokens = bucket_credit (rpm_limit connector) (buckets (bucket_key tenant_id connector)) t; ok = tokens \<ge> 1
     in (ok, buckets(bucket_key tenant_id connector \<mapsto>
          \<lparr> tb_tokens = (if ok then tokens - 1 else tokens), tb_last_refill = t,
            tb_expires = t + bucket_ttl (rpm_limit connector) (rpm_limit connector / 60) \<rparr>)))"
  using script_tokens [OF call_limit_positive assms]
  by (simp add: admit_call_def check_rate_def Let_def rpm_limit_def)

lemma bucket_credit_bounds:
  "0 < limit \<Longrightarrow> bucket_sound limit b t \<Longrightarrow> 0 \<le> bucket_credit limit b t \<and> bucket_credit limit b t \<le> limit"
  by (auto simp: bucket_credit_def bucket_sound_def split: option.splits)

lemma credit_growth:
  assumes "0 < limit" "t \<le> t'"
  shows "bucket_credit limit b t' \<le> bucket_credit limit b t + limit / 60 * (t' - t)"
proof (cases b)
  case (Some k)
  define d where "d = limit / 60 * (t' - t)"
  have "0 \<le> d" using assms by (simp add: d_def)
  moreover have "(t' - tb_last_refill k) * (limit / 60) = (t - tb_last_refill k) * (limit / 60) + d"
    by (simp add: d_def left_diff_distrib right_diff_distrib diff_divide_distrib mult.commute)
  ultimately show ?thesis unfolding Some bucket_credit_def option.case by (fold d_def) linarith
qed (use assms in \<open>simp add: bucket_credit_def\<close>)

interpretation bucket: credit_control "admit_call tenant_id connector"
  "\<lambda>buckets. bucket_credit (rpm_limit connector) (buckets (bucket_key tenant_id connector))"
  "\<lambda>buckets. bucket_sound (rpm_limit connector) (buckets (bucket_key tenant_id connector))"
  "rpm_limit connector" "rpm_limit connector / 60" for tenant_id connector
proof
  let ?l = "rpm_limit connector" and ?k = "bucket_key tenant_id connector"
  note pos = call_limit_positive [of connector]
  fix s :: bucket_store and s' and t t' and b
  show "bucket_sound ?l (s ?k) t \<Longrightarrow> 0 \<le> bucket_credit ?l (s ?k) t \<and> bucket_credit ?l (s ?k) t \<le> ?l"
    by (rule bucket_credit_bounds [OF pos])
  show "bucket_sound ?l (s ?k) t \<Longrightarrow> t \<le> t' \<Longrightarrow> bucket_sound ?l (s ?k) t'"
    by (auto simp: bucket_sound_def split: option.splits)
  show "bucket_sound ?l (s ?k) t \<Longrightarrow> t \<le> t' \<Longrightarrow> bucket_credit ?l (s ?k) t' \<le> bucket_credit ?l (s ?k) t + ?l / 60 * (t' - t)"
    using credit_growth [OF pos] by blast
  assume sound: "bucket_sound ?l (s ?k) t" and step: "admit_call tenant_id connector t s = (b, s')"
  note bounds = bucket_credit_bounds [OF pos sound]
  show "bucket_sound ?l (s' ?k) t"
    using step bounds unfolding admit_call_eq [of connector s tenant_id t, OF sound] by (auto simp: bucket_sound_def Let_def)
  show "bucket_credit ?l (s' ?k) t + (if b then 1 else 0) \<le> bucket_credit ?l (s ?k) t"
    using step bounds unfolding admit_call_eq [of connector s tenant_id t, OF sound] by (auto simp: bucket_credit_def Let_def)
qed




text \<open>A denied call may come back after the time it is told: if nothing else happens, it is then allowed.\<close>

lemma retry_after_enough:
  assumes "bucket_sound limit b t" "1 \<le> limit" "token_bucket_lua t limit (limit / 60) t b = (r, b')" "\<not> sr_allowed r"
  shows "sr_allowed (fst (token_bucket_lua (t + sr_retry_after r) limit (limit / 60) (t + sr_retry_after r) b'))"
proof -
  have pos: "0 < limit" using assms(2) by simp
  define n where "n = bucket_credit limit b t"
  have n: "n < 1" "0 \<le> n" using assms(3,4) bucket_credit_bounds [OF pos assms(1)] unfolding script_tokens [OF pos assms(1)]
    by (auto simp: Let_def n_def split: if_splits)
  have r: "sr_retry_after r = (1 - n) / (limit / 60)" and b': "b' = Some \<lparr> tb_tokens = n, tb_last_refill = t,
      tb_expires = t + bucket_ttl limit (limit / 60) \<rparr>"
    using assms(3,4) unfolding script_tokens [OF pos assms(1)] by (auto simp: Let_def n_def split: if_splits)
  have "0 \<le> sr_retry_after r" using n pos unfolding r by simp
  then have s: "bucket_sound limit b' (t + sr_retry_after r)" using n by (simp add: b' bucket_sound_def)
  have "(t + sr_retry_after r - t) * (limit / 60) = 1 - n" using pos unfolding r by simp
  then have "bucket_credit limit b' (t + sr_retry_after r) \<ge> 1"
    using assms(2) unfolding b' bucket_credit_def option.case token_bucket.select_convs by linarith
  then show ?thesis unfolding script_tokens [OF pos s] by (simp add: Let_def)
qed

text \<open>The bucket takes the caller's clock back as well as forward: two replicas whose clocks differ refill
  it again with every pair of calls.\<close>

definition drained :: "token_bucket option" where
  "drained = Some \<lparr> tb_tokens = 0, tb_last_refill = 10, tb_expires = 1000 \<rparr>"

lemma skewed_clock_refills:
  "sr_allowed (fst (token_bucket_lua 10 60 1 10 drained)) = False"
  "sr_allowed (fst (token_bucket_lua 10 60 1 10 (snd (token_bucket_lua 10 60 1 0 drained)))) = True"
  by (simp_all add: token_bucket_lua_def drained_def live_bucket_def bucket_ttl_def Let_def)

end
