(* ===== verification/Tool_Registry.thy ===== *)
theory Tool_Registry
  imports Prelude
begin

text \<open>
  The registry of tools and the envelope a registered call is held to
  (\<open>core/tool_gateway/registry.py\<close>). JSON Schema validation, the size of a JSON text, \<open>str\<close> of a value and
  the guardrails are parameters, gathered in \<open>registry_env\<close>. A JSON object is an ordered dictionary.
\<close>

section \<open>Parameters and settings\<close>

datatype guard_outcome = GuardBlocked string string string | GuardPassed | GuardText string

record registry_env =
  rv_str :: "pv \<Rightarrow> string"
  rv_schema_bytes :: "pv \<Rightarrow> int"
  rv_json_size :: "pv \<Rightarrow> nat option"
  rv_str_size :: "pv \<Rightarrow> nat"
  rv_json_text :: "pv \<Rightarrow> string"
  rv_json_object :: "string \<Rightarrow> (pv dict) option"
  rv_schema_problem :: "pv dict \<Rightarrow> string option"
  rv_iter_errors :: "pv dict \<Rightarrow> pv \<Rightarrow> (string list \<times> string) list"
  rv_guard :: "string \<Rightarrow> guard_outcome"

record registry_settings =
  tool_registry_enabled :: bool
  tool_registry_require_registration :: bool

definition registration_required :: "registry_settings \<Rightarrow> bool" where
  "registration_required s \<longleftrightarrow> tool_registry_enabled s \<and> tool_registry_require_registration s"

definition RISKS :: "string list" where
  "RISKS = [''read'', ''draft'', ''internal-write'', ''customer-write'', ''money'', ''destructive'']"

definition MAX_SCHEMA_BYTES :: int where "MAX_SCHEMA_BYTES = 32000"
definition MAX_NAME :: nat where "MAX_NAME = 160"
definition MAX_ERRORS :: nat where "MAX_ERRORS = 10"
definition MAX_ERROR_CHARS :: nat where "MAX_ERROR_CHARS = 300"
definition DEFAULT_TIMEOUT_SECONDS :: int where "DEFAULT_TIMEOUT_SECONDS = 30"
definition MAX_TIMEOUT_SECONDS :: int where "MAX_TIMEOUT_SECONDS = 300"
definition DEFAULT_MAX_OUTPUT_BYTES :: int where "DEFAULT_MAX_OUTPUT_BYTES = 256000"
definition MAX_OUTPUT_BYTES :: int where "MAX_OUTPUT_BYTES = 4000000"
definition CACHE_SECONDS :: rat where "CACHE_SECONDS = 15"
definition REFERENCE_KEYWORDS :: "string list" where
  "REFERENCE_KEYWORDS = [''$ref'', ''$dynamicRef'', ''$recursiveRef'']"
definition REGISTRY_ERROR_CODE :: string where "REGISTRY_ERROR_CODE = ''E1012''"

record tool_registry_error =
  ry_status :: nat
  ry_code :: string
  ry_message :: string

definition refuse :: "string \<Rightarrow> string \<Rightarrow> (tool_registry_error, 'a) res" where
  "refuse label message = Inl \<lparr> ry_status = 422, ry_code = label, ry_message = message \<rparr>"

section \<open>Names and schemas\<close>

definition name_char :: "char \<Rightarrow> bool" where
  "name_char c \<longleftrightarrow> is_lower_ascii c \<or> is_digit c \<or> c \<in> {CHR ''_'', CHR ''.'', CHR ''-''}"

definition registered_name :: "string \<Rightarrow> bool" where
  "registered_name name \<longleftrightarrow> length (split_on '':'' name) \<le> 3 \<and> list_all (\<lambda>p. p \<noteq> [] \<and> list_all name_char p) (split_on '':'' name)"

definition text_of :: "registry_env \<Rightarrow> pv \<Rightarrow> string" where
  "text_of env v = (if truthy v then (case v of VStr s \<Rightarrow> s | _ \<Rightarrow> rv_str env v) else [])"

definition normalise_name :: "registry_env \<Rightarrow> pv \<Rightarrow> (tool_registry_error, string) res" where
  "normalise_name env value =
     (let name = lower (strip (text_of env value))
      in if name = [] \<or> length name > MAX_NAME \<or> \<not> registered_name name
         then refuse ''name'' ''a tool name is letters, digits, dots, dashes and underscores, with at most two colons''
         else Inr name)"

text \<open>The reference keywords in a schema, at any depth.\<close>

fun references :: "pv \<Rightarrow> string list" where
  "references (VDict d) = concat (map (\<lambda>(k, v). (if k \<in> set REFERENCE_KEYWORDS then [k] else []) @ references v) d)"
| "references (VList vs) = concat (map references vs)"
| "references v = []"

definition joined :: "string \<Rightarrow> string list \<Rightarrow> string" where
  "joined sep ws = concat (case ws of [] \<Rightarrow> [] | w # vs \<Rightarrow> w # map (\<lambda>v. sep @ v) vs)"

definition check_schema :: "registry_env \<Rightarrow> pv \<Rightarrow> string \<Rightarrow> (tool_registry_error, pv dict) res" where
  "check_schema env schema label =
     (case schema of
        VDict d \<Rightarrow>
          if d = [] then refuse label (label @ '' is a JSON Schema object'')
          else if rv_schema_bytes env schema > MAX_SCHEMA_BYTES
          then refuse label (label @ '' is at most '' @ str_int MAX_SCHEMA_BYTES @ '' bytes'')
          else if references schema \<noteq> []
          then refuse label (label @ '' must not use '' @ joined '', '' (sort (remdups (references schema))))
          else (case rv_schema_problem env d of
                  Some m \<Rightarrow> refuse label (label @ '' is not a valid JSON Schema: '' @ take MAX_ERROR_CHARS m)
                | None \<Rightarrow> Inr d)
      | _ \<Rightarrow> refuse label (label @ '' is a JSON Schema object''))"

section \<open>The fields of a registration\<close>

definition ALLOWED_FIELDS :: "string list" where
  "ALLOWED_FIELDS = [''name'', ''description'', ''input_schema'', ''output_schema'', ''risk'', ''timeout_seconds'',
     ''max_output_bytes'', ''untrusted_output'', ''enabled'']"

definition vget_or :: "pv dict \<Rightarrow> string \<Rightarrow> pv \<Rightarrow> pv" where
  "vget_or d k v = (case dget d k of Some x \<Rightarrow> x | None \<Rightarrow> v)"

definition int_between :: "string \<Rightarrow> int \<Rightarrow> int \<Rightarrow> pv \<Rightarrow> (tool_registry_error, pv) res" where
  "int_between label lo hi v =
     (case v of VInt n \<Rightarrow> if lo \<le> n \<and> n \<le> hi then Inr v
                 else refuse label (label @ '' is '' @ str_int lo @ '' to '' @ str_int hi)
      | _ \<Rightarrow> refuse label (label @ '' is '' @ str_int lo @ '' to '' @ str_int hi))"

definition check_risk :: "registry_env \<Rightarrow> pv \<Rightarrow> (tool_registry_error, pv) res" where
  "check_risk env v =
     (let risk = lower (strip (if truthy v then text_of env v else ''read''))
      in if risk \<in> set RISKS then Inr (VStr risk) else refuse ''risk'' (''risk is one of '' @ joined '', '' RISKS))"

text \<open>The fields in the order they are checked: key, whether a full registration has it, the checked value.\<close>

definition field_checks :: "registry_env \<Rightarrow> pv dict \<Rightarrow> (string \<times> bool \<times> (tool_registry_error, pv) res) list" where
  "field_checks env raw =
     [(''name'', True, rbind (normalise_name env (vget raw ''name'')) (\<lambda>s. Inr (VStr s))),
      (''description'', False, Inr (VStr (take 500 (text_of env (vget raw ''description''))))),
      (''input_schema'', True, rbind (check_schema env (vget raw ''input_schema'') ''input_schema'') (\<lambda>d. Inr (VDict d))),
      (''output_schema'', False, if vget raw ''output_schema'' = VNone then Inr VNone
         else rbind (check_schema env (vget raw ''output_schema'') ''output_schema'') (\<lambda>d. Inr (VDict d))),
      (''risk'', True, check_risk env (vget raw ''risk'')),
      (''timeout_seconds'', True, int_between ''timeout_seconds'' 1 MAX_TIMEOUT_SECONDS
         (vget_or raw ''timeout_seconds'' (VInt DEFAULT_TIMEOUT_SECONDS))),
      (''max_output_bytes'', True, int_between ''max_output_bytes'' 1000 MAX_OUTPUT_BYTES
         (vget_or raw ''max_output_bytes'' (VInt DEFAULT_MAX_OUTPUT_BYTES))),
      (''untrusted_output'', True, Inr (VBool (truthy (vget_or raw ''untrusted_output'' (VBool True))))),
      (''enabled'', True, Inr (VBool (truthy (vget_or raw ''enabled'' (VBool True)))))]"

definition parse_fields :: "registry_env \<Rightarrow> pv dict \<Rightarrow> bool \<Rightarrow> (tool_registry_error, pv dict) res" where
  "parse_fields env raw partial =
     (let unknown = sort (filter (\<lambda>k. k \<notin> set ALLOWED_FIELDS) (dkeys raw))
      in if unknown \<noteq> [] then refuse ''unknown_field'' (''unknown registration fields: '' @ joined '', '' unknown)
         else map_res (\<lambda>(k, required, r). rbind r (\<lambda>v. Inr (k, v)))
                (filter (\<lambda>(k, required, r). dhas raw k \<or> required \<and> \<not> partial) (field_checks env raw)))"

record registration =
  tr_name :: string
  tr_input_schema :: "pv dict"
  tr_output_schema :: "(pv dict) option"
  tr_risk :: string
  tr_timeout_seconds :: int
  tr_max_output_bytes :: int
  tr_untrusted_output :: bool
  tr_enabled :: bool
  tr_description :: string

text \<open>\<open>tool_registrations\<close>: the stored row, its nullable columns as options.\<close>

record registration_row =
  gr_tenant_id :: string
  gr_name :: string
  gr_input_schema :: "(pv dict) option"
  gr_output_schema :: "(pv dict) option"
  gr_risk :: string
  gr_timeout_seconds :: "int option"
  gr_max_output_bytes :: "int option"
  gr_untrusted_output :: bool
  gr_enabled :: bool
  gr_description :: "string option"

definition int_or :: "int option \<Rightarrow> int \<Rightarrow> int" where
  "int_or v d = (case v of Some n \<Rightarrow> if n = 0 then d else n | None \<Rightarrow> d)"

definition registration_of :: "registration_row \<Rightarrow> registration" where
  "registration_of row =
     \<lparr> tr_name = gr_name row, tr_input_schema = (case gr_input_schema row of Some d \<Rightarrow> d | None \<Rightarrow> []),
       tr_output_schema = (case gr_output_schema row of Some d \<Rightarrow> if d = [] then None else Some d | None \<Rightarrow> None),
       tr_risk = gr_risk row, tr_timeout_seconds = int_or (gr_timeout_seconds row) DEFAULT_TIMEOUT_SECONDS,
       tr_max_output_bytes = int_or (gr_max_output_bytes row) DEFAULT_MAX_OUTPUT_BYTES,
       tr_untrusted_output = gr_untrusted_output row, tr_enabled = gr_enabled row,
       tr_description = (case gr_description row of Some s \<Rightarrow> s | None \<Rightarrow> []) \<rparr>"

section \<open>Screening a call\<close>

definition errors_for :: "registry_env \<Rightarrow> pv dict \<Rightarrow> pv \<Rightarrow> string list" where
  "errors_for env schema value =
     take MAX_ERRORS (map (\<lambda>(path, message).
       (let where = joined ''/'' path in if where = [] then ''(root)'' else where) @ '': '' @ take MAX_ERROR_CHARS message)
       (rv_iter_errors env schema value))"

definition tool_names :: "string \<Rightarrow> string \<Rightarrow> string list" where
  "tool_names connector tool_name =
     (let tool = lower (strip tool_name);
          names = (if connector \<noteq> [] then [lower (strip connector) @ '':'' @ tool] else []) @ [tool]
      in filter (\<lambda>n. n \<noteq> []) (case names of [a, b] \<Rightarrow> if a = b then [a] else names | _ \<Rightarrow> names))"

type_synonym registry_cache = "string \<Rightarrow> (rat \<times> registration dict) option"

text \<open>Rows by name, later rows over earlier ones; \<open>None\<close> when the tenant is no UUID or the read fails.\<close>

definition load_registrations ::
    "rat \<Rightarrow> (string \<Rightarrow> string option) \<Rightarrow> (registration_row list) option \<Rightarrow> registry_cache \<Rightarrow> string
     \<Rightarrow> (registration dict) option \<times> registry_cache" where
  "load_registrations now parse_uuid rows cache tenant_id =
     (let fetched = (case (parse_uuid tenant_id, rows) of
            (Some tid, Some rs) \<Rightarrow>
              (let entries = dict_of (map (\<lambda>r. (gr_name r, registration_of r))
                     (filter (\<lambda>r. gr_tenant_id r = tid \<and> gr_enabled r) rs))
               in (Some entries, cache(tenant_id \<mapsto> (now, entries))))
          | _ \<Rightarrow> (None, cache))
      in case cache tenant_id of
           Some (loaded_at, entries) \<Rightarrow> if now - loaded_at < CACHE_SECONDS then (Some entries, cache) else fetched
         | None \<Rightarrow> fetched)"

record registry_check =
  rk_registration :: "registration option"
  rk_errors :: "string list"
  rk_unregistered :: bool
  rk_unavailable :: bool

definition refused :: "registry_check \<Rightarrow> bool" where
  "refused k \<longleftrightarrow> rk_errors k \<noteq> [] \<or> rk_unregistered k \<or> rk_unavailable k"

fun first_entry :: "registration dict \<Rightarrow> string list \<Rightarrow> registration option" where
  "first_entry entries [] = None"
| "first_entry entries (n # ns) = (case dget entries n of Some r \<Rightarrow> Some r | None \<Rightarrow> first_entry entries ns)"

definition check_call ::
    "registry_env \<Rightarrow> registry_settings \<Rightarrow> registration dict \<Rightarrow> string \<Rightarrow> string \<Rightarrow> pv \<Rightarrow> registry_check" where
  "check_call env settings entries connector tool params =
     (case first_entry entries (tool_names connector tool) of
        None \<Rightarrow> \<lparr> rk_registration = None, rk_errors = [], rk_unregistered = registration_required settings, rk_unavailable = False \<rparr>
      | Some r \<Rightarrow> \<lparr> rk_registration = Some r,
          rk_errors = errors_for env (tr_input_schema r) (if params = VNone then VDict [] else params),
          rk_unregistered = False, rk_unavailable = False \<rparr>)"

definition screen_call ::
    "registry_env \<Rightarrow> registry_settings \<Rightarrow> rat \<Rightarrow> (string \<Rightarrow> string option) \<Rightarrow> (registration_row list) option \<Rightarrow> registry_cache
     \<Rightarrow> string option \<Rightarrow> string \<Rightarrow> string \<Rightarrow> pv \<Rightarrow> registry_check option \<times> registry_cache" where
  "screen_call env settings now parse_uuid rows cache tenant_id connector tool params =
     (if \<not> tool_registry_enabled settings then (None, cache)
      else case tenant_id of
        None \<Rightarrow> (Some (check_call env settings [] connector tool params), cache)
      | Some t \<Rightarrow>
          if strip t = [] then (Some (check_call env settings [] connector tool params), cache)
          else (case load_registrations now parse_uuid rows cache t of
                  (None, c) \<Rightarrow> (Some \<lparr> rk_registration = None, rk_errors = [], rk_unregistered = False, rk_unavailable = True \<rparr>, c)
                | (Some entries, c) \<Rightarrow> (Some (check_call env settings entries connector tool params), c)))"

definition error_payload :: "string \<Rightarrow> string \<Rightarrow> pv" where
  "error_payload label message = VDict [(''error'', VDict [(''code'', VStr label), (''message'', VStr message)])]"

definition registry_refusal :: "registry_check \<Rightarrow> string \<Rightarrow> pv" where
  "registry_refusal k tool =
     (let message = (if rk_unavailable k
            then ''tool_registry_unavailable: the registration of '' @ tool @ '' could not be read, so it is not run''
          else if rk_unregistered k then ''tool_unregistered: '' @ tool @ '' is not registered for this tenant''
          else ''tool_input_invalid: '' @ joined ''; '' (rk_errors k))
      in VDict [(''error'', VDict [(''code'', VStr REGISTRY_ERROR_CODE), (''message'', VStr message),
           (''tool_input_errors'', VList (map VStr (rk_errors k)))])])"

section \<open>The envelope\<close>

text \<open>What a dispatched call comes to: a value, a timeout or another exception.\<close>

datatype call_outcome = Returned pv | TimedOut | Raised string

definition is_dict :: "pv \<Rightarrow> bool" where
  "is_dict v = (case v of VDict d \<Rightarrow> True | _ \<Rightarrow> False)"

definition dict_has :: "pv \<Rightarrow> string \<Rightarrow> bool" where
  "dict_has v k = (case v of VDict d \<Rightarrow> dhas d k | _ \<Rightarrow> False)"

definition mark_untrusted :: "pv \<Rightarrow> pv" where
  "mark_untrusted v = (case v of VDict d \<Rightarrow> VDict (dset d ''_untrusted'' (VBool True)) | _ \<Rightarrow> v)"

definition screen_untrusted :: "registry_env \<Rightarrow> registration \<Rightarrow> pv \<Rightarrow> pv" where
  "screen_untrusted env r result =
     (let text = rv_json_text env result
      in case rv_guard env text of
           GuardBlocked stage rule_id rule_name \<Rightarrow>
             VDict [(''error'', VDict [(''code'', VStr REGISTRY_ERROR_CODE),
               (''message'', VStr (''tool_output_withheld: the output of '' @ tr_name r @ '' was blocked by a guardrail'')),
               (''guardrail'', VDict [(''stage'', VStr stage), (''rule_id'', VStr rule_id), (''rule_name'', VStr rule_name)])])]
         | GuardPassed \<Rightarrow> mark_untrusted result
         | GuardText t \<Rightarrow>
             if t = text then mark_untrusted result
             else mark_untrusted (case rv_json_object env t of Some d \<Rightarrow> VDict d | None \<Rightarrow> VDict [(''content'', VStr t)]))"

definition output_size :: "registry_env \<Rightarrow> pv \<Rightarrow> nat" where
  "output_size env v = (case rv_json_size env v of Some n \<Rightarrow> n | None \<Rightarrow> rv_str_size env v)"

definition enveloped :: "registry_env \<Rightarrow> registration \<Rightarrow> call_outcome \<Rightarrow> (string, pv) res" where
  "enveloped env r outcome =
     (case outcome of
        Raised e \<Rightarrow> Inl e
      | TimedOut \<Rightarrow> Inr (error_payload REGISTRY_ERROR_CODE
          (''tool_timeout: '' @ tr_name r @ '' exceeded its '' @ str_int (tr_timeout_seconds r) @ ''s envelope''))
      | Returned result \<Rightarrow>
          if int (output_size env result) > tr_max_output_bytes r then
            Inr (error_payload REGISTRY_ERROR_CODE (''tool_output_too_large: '' @ tr_name r @ '' returned ''
              @ str_nat (output_size env result) @ '' bytes, more than its '' @ str_int (tr_max_output_bytes r)))
          else let plain = is_dict result \<and> \<not> dict_has result ''error'';
                   problems = (case tr_output_schema r of Some s \<Rightarrow> if plain then errors_for env s result else [] | None \<Rightarrow> [])
               in if problems \<noteq> [] then
                    Inr (VDict [(''error'', VDict [(''code'', VStr REGISTRY_ERROR_CODE),
                      (''message'', VStr (''tool_output_invalid: '' @ joined ''; '' problems)),
                      (''tool_output_errors'', VList (map VStr problems))])])
                  else if tr_untrusted_output r \<and> plain then Inr (screen_untrusted env r result)
                  else Inr result)"

section \<open>What is stored and what is returned\<close>

definition usable_schema :: "pv dict \<Rightarrow> bool" where
  "usable_schema d \<longleftrightarrow> d \<noteq> [] \<and> references (VDict d) = []"

fun field_typed :: "string \<Rightarrow> pv \<Rightarrow> bool" where
  "field_typed k (VStr s) \<longleftrightarrow>
     k = ''name'' \<and> s \<noteq> [] \<and> length s \<le> MAX_NAME \<and> registered_name s \<or> k = ''description'' \<and> length s \<le> 500
     \<or> k = ''risk'' \<and> s \<in> set RISKS"
| "field_typed k (VDict d) \<longleftrightarrow> k \<in> {''input_schema'', ''output_schema''} \<and> usable_schema d"
| "field_typed k VNone \<longleftrightarrow> k = ''output_schema''"
| "field_typed k (VInt n) \<longleftrightarrow>
     k = ''timeout_seconds'' \<and> 1 \<le> n \<and> n \<le> MAX_TIMEOUT_SECONDS \<or> k = ''max_output_bytes'' \<and> 1000 \<le> n \<and> n \<le> MAX_OUTPUT_BYTES"
| "field_typed k (VBool b) \<longleftrightarrow> k \<in> {''untrusted_output'', ''enabled''}"
| "field_typed k v \<longleftrightarrow> False"

lemma refuse_not_Inr [simp]: "refuse label message \<noteq> Inr x"
  by (simp add: refuse_def)

lemma check_schema_Inr: "check_schema env v label = Inr d \<Longrightarrow> v = VDict d \<and> usable_schema d"
  by (auto simp: check_schema_def usable_schema_def split: pv.splits if_splits option.splits)

lemma normalise_name_Inr: "normalise_name env v = Inr s \<Longrightarrow> s \<noteq> [] \<and> length s \<le> MAX_NAME \<and> registered_name s"
  by (auto simp: normalise_name_def Let_def split: if_splits)

lemma int_between_Inr: "int_between label lo hi v = Inr w \<Longrightarrow> \<exists>n. w = VInt n \<and> lo \<le> n \<and> n \<le> hi"
  by (auto simp: int_between_def split: pv.splits if_splits)

lemma check_risk_Inr: "check_risk env v = Inr w \<Longrightarrow> \<exists>s. w = VStr s \<and> s \<in> set RISKS"
  by (auto simp: check_risk_def Let_def split: if_splits)

lemma field_checks_typed: "(k, required, Inr v) \<in> set (field_checks env raw) \<Longrightarrow> field_typed k v"
  by (auto simp: field_checks_def split: if_splits
      dest!: sym [of "Inr v"] check_schema_Inr normalise_name_Inr int_between_Inr check_risk_Inr)

lemma field_checks_keys: "map fst (field_checks env raw) = ALLOWED_FIELDS"
  by (simp add: field_checks_def ALLOWED_FIELDS_def)

lemma parse_fields_keys:
  assumes "parse_fields env raw partial = Inr stored"
  shows "dkeys stored = map fst (filter (\<lambda>(k, required, r). dhas raw k \<or> required \<and> \<not> partial) (field_checks env raw))"
proof -
  have "list_all2 (\<lambda>(k, required, r) (k', v). k' = k \<and> r = Inr v)
      (filter (\<lambda>(k, required, r). dhas raw k \<or> required \<and> \<not> partial) (field_checks env raw)) stored"
    using assms by (auto simp: parse_fields_def Let_def map_res_Inr_iff split: if_splits elim!: list_all2_mono)
  then show ?thesis unfolding dkeys_def
    by (induction rule: list_all2_induct) auto
qed

definition REQUIRED_FIELDS :: "string list" where
  "REQUIRED_FIELDS = [''name'', ''input_schema'', ''risk'', ''timeout_seconds'', ''max_output_bytes'', ''untrusted_output'', ''enabled'']"

text \<open>What is stored of a registration is well typed. When the fields of a request are accepted, every
  stored key is a known one and occurs once, every stored value has the type and the bounds of its
  key (a name of the allowed shape, a schema without references, a timeout of 1 to 300 seconds, an
  output cap of 1000 to 4000000 bytes, a known risk), every field of the request is stored, and a
  full registration has all the required fields.
\<close>

theorem stored_fields_well_typed:
  assumes "parse_fields env raw partial = Inr stored"
  shows "distinct (dkeys stored) \<and> set (dkeys raw) \<subseteq> set (dkeys stored) \<and> set (dkeys stored) \<subseteq> set ALLOWED_FIELDS
    \<and> (\<forall>(k, v) \<in> set stored. field_typed k v) \<and> (\<not> partial \<longrightarrow> set REQUIRED_FIELDS \<subseteq> set (dkeys stored))"
proof (intro conjI)
  let ?P = "\<lambda>(k, required, r). dhas raw k \<or> required \<and> \<not> partial"
  note keys = parse_fields_keys [OF assms]
  have known: "set (dkeys raw) \<subseteq> set ALLOWED_FIELDS"
    using assms by (auto simp: parse_fields_def Let_def filter_empty_conv split: if_splits)
  show "distinct (dkeys stored)" unfolding keys
    by (rule distinct_map_filter) (simp add: field_checks_keys, simp add: ALLOWED_FIELDS_def)
  show "set (dkeys stored) \<subseteq> set ALLOWED_FIELDS" unfolding keys field_checks_keys [of env raw, symmetric] by auto
  show "set (dkeys raw) \<subseteq> set (dkeys stored)"
  proof
    fix k assume k: "k \<in> set (dkeys raw)"
    then have "k \<in> fst ` set (field_checks env raw)"
      using known field_checks_keys [of env raw] by (metis image_set subsetD)
    then obtain x where "x \<in> set (field_checks env raw)" "k = fst x" by blast
    then show "k \<in> set (dkeys stored)" unfolding keys using k
      by (intro image_eqI [of _ _ x, THEN image_set [THEN equalityD1, THEN subsetD]]) (auto simp: dhas_keys)
  qed
  show "\<forall>(k, v) \<in> set stored. field_typed k v"
  proof clarify
    fix k v assume "(k, v) \<in> set stored"
    moreover have "map_res (\<lambda>(k, required, r). rbind r (\<lambda>v. Inr (k, v))) (filter ?P (field_checks env raw)) = Inr stored"
      using assms by (auto simp: parse_fields_def Let_def split: if_splits)
    ultimately obtain required where "(k, required, Inr v) \<in> set (field_checks env raw)"
      by (auto dest!: map_res_set)
    then show "field_typed k v" by (rule field_checks_typed)
  qed
  show "\<not> partial \<longrightarrow> set REQUIRED_FIELDS \<subseteq> set (dkeys stored)"
    unfolding keys by (auto simp: REQUIRED_FIELDS_def field_checks_def)
qed

definition sample_registry_env :: registry_env where
  "sample_registry_env = \<lparr> rv_str = (\<lambda>v. []), rv_schema_bytes = (\<lambda>v. 20), rv_json_size = (\<lambda>v. Some 20), rv_str_size = (\<lambda>v. 20),
     rv_json_text = (\<lambda>v. []), rv_json_object = (\<lambda>s. None), rv_schema_problem = (\<lambda>d. None),
     rv_iter_errors = (\<lambda>d v. []), rv_guard = (\<lambda>s. GuardPassed) \<rparr>"

definition sample_fields :: "(tool_registry_error, pv dict) res" where
  "sample_fields = parse_fields sample_registry_env
     [(''name'', VStr '' Jira:create_issue ''), (''input_schema'', VDict [(''type'', VStr ''object'')]), (''timeout_seconds'', VInt 60)] False"

theorem stored_fields_well_typed_witness:
  "set REQUIRED_FIELDS \<subseteq> set (dkeys (projr sample_fields)) \<and> dget (projr sample_fields) ''name'' = Some (VStr ''jira:create_issue'')"
proof -
  have "isl sample_fields = False" "dget (projr sample_fields) ''name'' = Some (VStr ''jira:create_issue'')" by code_simp+
  moreover from this have "sample_fields = Inr (projr sample_fields)" by (cases sample_fields) auto
  ultimately show ?thesis
    using stored_fields_well_typed [of sample_registry_env _ False "projr sample_fields"] unfolding sample_fields_def by blast
qed

end
