(* ===== verification/Scopes.thy ===== *)
theory Scopes
  imports Prelude
begin

text \<open>
  The legacy tool scopes (\<open>auth/scopes.py\<close>): parsing a scope, checking an operation against granted
  scopes and holding a clone's scopes against its parent's. Amounts are rationals.
\<close>

section \<open>Parsing\<close>

record parsed_scope =
  sc_category :: string
  sc_connector :: string
  sc_permission :: string
  sc_resource :: string
  sc_cap :: "nat option"

definition word :: "string \<Rightarrow> bool" where
  "word s \<longleftrightarrow> s \<noteq> [] \<and> list_all (\<lambda>c. is_alnum c \<or> c = CHR ''_'') s"

definition digits :: "string \<Rightarrow> bool" where
  "digits s \<longleftrightarrow> s \<noteq> [] \<and> list_all is_digit s"

text \<open>\<open>^(tool|agenticorg):([\w]+):([\w]+)(?::([\w]+))?(?::capped:(\d+))?$\<close>; the groups hold no colon, and
  \<open>$\<close> also matches before a final newline.\<close>

definition without_newline :: "string \<Rightarrow> string" where
  "without_newline s = (if s \<noteq> [] \<and> last s = CHR 0x0A then butlast s else s)"

definition parse_scope :: "string \<Rightarrow> parsed_scope option" where
  "parse_scope s =
     (let scope = (\<lambda>category connector perm res cap.
            if category \<in> {''tool'', ''agenticorg''} \<and> word connector \<and> word perm
            then Some \<lparr> sc_category = category, sc_connector = connector, sc_permission = perm, sc_resource = res, sc_cap = cap \<rparr>
            else None)
      in case split_on '':'' (without_newline s) of
           [c, k, p] \<Rightarrow> scope c k p [] None
         | [c, k, p, r] \<Rightarrow> if word r then scope c k p r None else None
         | [c, k, p, capped, n] \<Rightarrow> if capped = ''capped'' \<and> digits n then scope c k p [] (Some (digits_val n 0)) else None
         | [c, k, p, r, capped, n] \<Rightarrow>
             if word r \<and> capped = ''capped'' \<and> digits n then scope c k p r (Some (digits_val n 0)) else None
         | _ \<Rightarrow> None)"

section \<open>Checking an operation\<close>

fun check_scope :: "string list \<Rightarrow> string \<Rightarrow> string \<Rightarrow> string \<Rightarrow> rat option \<Rightarrow> bool \<times> string" where
  "check_scope [] connector permission resource amount = (False, ''no_matching_scope'')"
| "check_scope (s # granted) connector permission resource amount =
     (case parse_scope s of
        None \<Rightarrow> check_scope granted connector permission resource amount
      | Some p \<Rightarrow>
          if sc_connector p = connector \<and> sc_permission p = ''admin'' then (True, ''admin_scope'')
          else if sc_connector p = connector \<and> sc_permission p = permission \<and> sc_resource p = resource then
            (case (sc_cap p, amount) of
               (Some cap, Some a) \<Rightarrow> if a > of_nat cap then (False, ''cap_exceeded:'' @ str_nat cap) else (True, ''scope_match'')
             | _ \<Rightarrow> (True, ''scope_match''))
          else check_scope granted connector permission resource amount)"

section \<open>Cloning\<close>

text \<open>The first parent scope that covers the child's, with the violation it raises if any.\<close>

fun covering :: "string list \<Rightarrow> string \<Rightarrow> parsed_scope \<Rightarrow> (string list) option" where
  "covering [] child_scope c = None"
| "covering (parent_scope # parents) child_scope c =
     (case parse_scope parent_scope of
        None \<Rightarrow> covering parents child_scope c
      | Some p \<Rightarrow>
          if sc_connector p = sc_connector c \<and> sc_permission p = sc_permission c \<and> sc_resource p = sc_resource c then
            (case (sc_cap c, sc_cap p) of
               (Some n, Some m) \<Rightarrow>
                 if n \<noteq> 0 \<and> m \<noteq> 0 \<and> n > m then Some [''Cap elevation: '' @ child_scope @ '' exceeds parent '' @ parent_scope] else Some []
             | _ \<Rightarrow> Some [])
          else if sc_connector p = sc_connector c \<and> sc_permission p = ''admin'' then Some []
          else covering parents child_scope c)"

definition validate_clone_scopes :: "string list \<Rightarrow> string list \<Rightarrow> string list" where
  "validate_clone_scopes parent_scopes child_scopes =
     concat (map (\<lambda>s. case parse_scope s of
          None \<Rightarrow> []
        | Some c \<Rightarrow> (case covering parent_scopes s c of None \<Rightarrow> [''Scope not in parent: '' @ s] | Some vs \<Rightarrow> vs)) child_scopes)"

section \<open>What the checks mean\<close>

text \<open>A granted operation has a scope behind it: an admin scope of the connector, or the scope itself within its cap.\<close>

definition grants :: "parsed_scope \<Rightarrow> string \<Rightarrow> string \<Rightarrow> string \<Rightarrow> rat option \<Rightarrow> bool" where
  "grants p connector permission resource amount \<longleftrightarrow> sc_connector p = connector
     \<and> (sc_permission p = ''admin''
        \<or> sc_permission p = permission \<and> sc_resource p = resource
          \<and> (\<forall>cap a. sc_cap p = Some cap \<longrightarrow> amount = Some a \<longrightarrow> a \<le> of_nat cap))"

lemma check_scope_sound:
  "fst (check_scope granted connector permission resource amount) \<Longrightarrow>
     \<exists>s \<in> set granted. \<exists>p. parse_scope s = Some p \<and> grants p connector permission resource amount"
  by (induction granted) (force simp: grants_def split: option.splits if_splits)+

lemma check_scope_none:
  "check_scope granted connector permission resource amount = (False, ''no_matching_scope'') \<Longrightarrow>
     s \<in> set granted \<Longrightarrow> parse_scope s = Some p \<Longrightarrow> \<not> grants p connector permission resource amount"
  by (induction granted) (auto simp: grants_def split: option.splits if_splits)

text \<open>
  A clone without violations never reaches a connector, permission and resource its parent does not
  have; a cap is only compared when both scopes carry one that is not zero.
\<close>

lemma covering_some:
  "covering parents s c = Some vs \<Longrightarrow> \<exists>q \<in> set parents. \<exists>p. parse_scope q = Some p \<and> sc_connector p = sc_connector c
     \<and> (sc_permission p = ''admin'' \<or> sc_permission p = sc_permission c \<and> sc_resource p = sc_resource c
          \<and> (vs = [] \<longrightarrow> (\<forall>n m. sc_cap c = Some n \<longrightarrow> sc_cap p = Some m \<longrightarrow> n \<noteq> 0 \<longrightarrow> m \<noteq> 0 \<longrightarrow> n \<le> m)))"
  by (induction parents) (force split: option.splits if_splits)+

lemma clone_within_parent:
  assumes "validate_clone_scopes parents children = []" "fst (check_scope children connector permission resource None)"
  shows "\<exists>q \<in> set parents. \<exists>p. parse_scope q = Some p \<and> grants p connector permission resource None"
proof -
  obtain s c where c: "s \<in> set children" "parse_scope s = Some c" "grants c connector permission resource None"
    using check_scope_sound [OF assms(2)] by blast
  then have "covering parents s c = Some []"
    using assms(1) by (force simp: validate_clone_scopes_def split: option.splits)
  from covering_some [OF this] obtain q p where "q \<in> set parents" "parse_scope q = Some p" "sc_connector p = sc_connector c"
      "sc_permission p = ''admin'' \<or> sc_permission p = sc_permission c \<and> sc_resource p = sc_resource c" by blast
  then show ?thesis using c(3) by (intro bexI [of _ q] exI [of _ p]) (auto simp: grants_def)
qed

text \<open>A clone may drop its parent's cap: the uncapped child scope raises no violation and grants any amount.\<close>

lemma clone_drops_cap:
  "validate_clone_scopes [''tool:bank:write:payment:capped:100''] [''tool:bank:write:payment''] = []
   \<and> fst (check_scope [''tool:bank:write:payment''] ''bank'' ''write'' ''payment'' (Some 5000))
   \<and> \<not> fst (check_scope [''tool:bank:write:payment:capped:100''] ''bank'' ''write'' ''payment'' (Some 5000))"
  by code_simp

end
