(* ===== verification/Tool_Gateway.thy ===== *)
theory Tool_Gateway
  imports Operator_Override Grants Rate_Limiter Tool_Registry Scopes
begin

text \<open>
  The tool gateway (\<open>core/tool_gateway/gateway.py\<close>) and its idempotency store
  (\<open>core/tool_gateway/idempotency.py\<close>): every check of \<open>ToolGateway.execute\<close> in the order the code makes
  them, the reservation, the dispatch and the settling of the result. One call sees one
  \<open>gateway_env\<close>: the settings, the answers of the services it asks and what the connector does.
\<close>

section \<open>Data\<close>

record gateway_call =
  tc_tenant_id :: string
  tc_agent_id :: string
  tc_agent_scopes :: "string list"
  tc_connector :: string
  tc_tool :: string
  tc_params :: pv
  tc_idempotency_key :: "string option"
  tc_amount :: "rat option"
  tc_grant_token :: "string option"
  tc_company_id :: "string option"
  tc_domain :: domain_arg
  tc_authorization :: "capability_authorization option"
  tc_run_grant :: "run_grant option"

text \<open>
  What a call meets. \<open>ga_restore\<close> is what restoring the pseudonyms of the arguments gives, when there is a
  pseudonymiser; \<open>ga_mcp\<close> the remote MCP path, given by the authorization of the descriptor and by the
  adapter's answer; \<open>ga_resolve\<close> the connector built from the stored configuration; \<open>ga_json\<close> a value
  after \<open>json.dumps\<close> and \<open>json.loads\<close>. Each Redis command of the idempotency store may fail.
\<close>

record gateway_env =
  ga_env :: "string option"
  ga_override :: override_config
  ga_answers :: world_answers
  ga_before :: set_order
  ga_parse_uuid :: uuid_parser
  ga_flags :: flag_resolver
  ga_grants :: grant_env
  ga_current_token :: "string option"
  ga_restore :: "((string, pv) res) option"
  ga_mcp :: "(unit, pv) res"
  ga_rate_limiter :: bool
  ga_rate_redis :: bool
  ga_idempotency :: bool
  ga_idempotency_redis :: bool
  ga_reserve_ok :: bool
  ga_store_ok :: bool
  ga_release_ok :: bool
  ga_registry :: registry_env
  ga_registry_settings :: registry_settings
  ga_registry_rows :: "(registration_row list) option"
  ga_resolve :: "(string, string option) res"
  ga_audit :: bool
  ga_json :: "pv \<Rightarrow> pv"

record audit_entry =
  ae_tenant_id :: string
  ae_agent_id :: string
  ae_tool :: string
  ae_action :: string
  ae_outcome :: string

text \<open>What the gateway keeps, and what it has dispatched: the connector, the tool and the arguments.\<close>

record gateway_state =
  gs_override :: override_state
  gs_buckets :: bucket_store
  gs_idem :: "string \<Rightarrow> (pv \<times> rat) option"
  gs_registry :: registry_cache
  gs_connectors :: "(string \<times> string option \<times> string) \<Rightarrow> string option"
  gs_audit :: "audit_entry list"
  gs_dispatched :: "(string \<times> string \<times> pv) list"

section \<open>The idempotency store\<close>

definition IDEMPOTENCY_TTL :: rat where "IDEMPOTENCY_TTL = 86400"
definition RESERVATION_TTL :: rat where "RESERVATION_TTL = 300"
definition PENDING_MARKER :: pv where "PENDING_MARKER = VDict [(''__idempotency_pending__'', VBool True)]"

type_synonym idem_store = "string \<Rightarrow> (pv \<times> rat) option"

definition live_entry :: "rat \<Rightarrow> idem_store \<Rightarrow> string \<Rightarrow> pv option" where
  "live_entry now s k = (case s k of Some (v, e) \<Rightarrow> if e > now then Some v else None | None \<Rightarrow> None)"

definition is_pending :: "pv \<Rightarrow> bool" where
  "is_pending v = (case v of VDict d \<Rightarrow> truthy (vget d ''__idempotency_pending__'') | _ \<Rightarrow> False)"

text \<open>\<open>SET NX EX\<close> at \<open>now\<close> and, when the key is taken, \<open>GET\<close> at \<open>later\<close>; a JSON \<open>null\<close> reads as nothing.\<close>

definition reserve :: "rat \<Rightarrow> rat \<Rightarrow> idem_store \<Rightarrow> string \<Rightarrow> (bool \<times> pv option) \<times> idem_store" where
  "reserve now later s k =
     (if live_entry now s k = None then ((True, None), s(k \<mapsto> (PENDING_MARKER, now + RESERVATION_TTL)))
      else ((False, case live_entry later s k of
               None \<Rightarrow> None
             | Some v \<Rightarrow> if is_pending v \<or> v = VNone then None else Some v), s))"

definition release :: "idem_store \<Rightarrow> string \<Rightarrow> idem_store" where
  "release s k = s(k := None)"

definition store_result :: "rat \<Rightarrow> idem_store \<Rightarrow> string \<Rightarrow> pv \<Rightarrow> idem_store" where
  "store_result now s k v = s(k \<mapsto> (v, now + IDEMPOTENCY_TTL))"

definition idem_key :: "gateway_call \<Rightarrow> string option" where
  "idem_key c =
     (case tc_idempotency_key c of
        None \<Rightarrow> None
      | Some k \<Rightarrow> if k = [] then None
          else Some (''idempotency:'' @ tc_tenant_id c @ '':''
            @ text_or (case tc_company_id c of Some i \<Rightarrow> i | None \<Rightarrow> []) ''_global'' @ '':'' @ k))"

section \<open>Gates\<close>

text \<open>Why \<open>execute\<close> ends before a dispatch: a refusal, a stored answer, the answer of the remote MCP path, or an
  exception that leaves it.\<close>

datatype gateway_stop = Refused pv | Replayed pv | Delegated pv | Crashed string

type_synonym 'a gate = "gateway_state \<Rightarrow> (gateway_stop, 'a) res \<times> gateway_state"

definition then_gate :: "'a gate \<Rightarrow> ('a \<Rightarrow> 'b gate) \<Rightarrow> 'b gate" where
  "then_gate m f = (\<lambda>st. case m st of (Inl e, st') \<Rightarrow> (Inl e, st') | (Inr x, st') \<Rightarrow> f x st')"

definition audited :: "gateway_env \<Rightarrow> gateway_call \<Rightarrow> string \<Rightarrow> string \<Rightarrow> gateway_state \<Rightarrow> gateway_state" where
  "audited env c action outcome st =
     (if ga_audit env then st\<lparr> gs_audit := gs_audit st @ [\<lparr> ae_tenant_id = tc_tenant_id c, ae_agent_id = tc_agent_id c,
        ae_tool = tc_tool c, ae_action = action, ae_outcome = outcome \<rparr>] \<rparr> else st)"

text \<open>A refusal: the error with what else it says, and what stands beside it.\<close>

definition refusal_with :: "string \<Rightarrow> string \<Rightarrow> pv dict \<Rightarrow> pv dict \<Rightarrow> gateway_stop" where
  "refusal_with err message extra beside =
     Refused (VDict ((''error'', VDict ([(''code'', VStr err), (''message'', VStr message)] @ extra)) # beside))"

definition refusal :: "string \<Rightarrow> string \<Rightarrow> gateway_stop" where
  "refusal err message = refusal_with err message [] []"

definition REFUSAL_CODE :: string where "REFUSAL_CODE = ''E1012''"

definition override_dict :: "override option \<Rightarrow> pv" where
  "override_dict ov = (case ov of None \<Rightarrow> VNone | Some v \<Rightarrow>
     VDict [(''id'', VStr (ov_id v)), (''target_kind'', VStr (ov_target_kind v)), (''target_id'', VStr (ov_target_id v)),
       (''mode'', VStr (ov_mode v)), (''limit_per_minute'', case ov_limit v of Some n \<Rightarrow> VInt n | None \<Rightarrow> VNone),
       (''reason'', VStr (ov_reason v))])"

definition ACTION_TAXONOMY_VERSION :: string where "ACTION_TAXONOMY_VERSION = ''2026-07-14.v1''"

definition decision_dict :: "action_decision \<Rightarrow> pv" where
  "decision_dict d =
     VDict [(''mode'', VStr (mode_value (ad_mode d))), (''dispatch_allowed'', VBool (dispatch_allowed d)),
       (''safe_mode_allowed'', VBool (safe_mode_allowed d)), (''reason'', VStr (ad_reason d)),
       (''requested_action'', VStr (requested_action d)), (''canonical_action'', opt_text (canonical_action d)),
       (''risk'', opt_text (map_option risk_value (ad_risk d))), (''domain'', opt_text (map_option domain_value (ad_domain d))),
       (''strict_runtime'', VBool (strict_runtime d)), (''required_feature_flag'', opt_text (required_feature_flag d)),
       (''taxonomy_version'', VStr ACTION_TAXONOMY_VERSION)]"

definition restore_gate :: "gateway_env \<Rightarrow> gateway_call \<Rightarrow> pv gate" where
  "restore_gate env c st =
     (case ga_restore env of
        None \<Rightarrow> (Inr (tc_params c), st)
      | Some (Inr params) \<Rightarrow> (Inr params, st)
      | Some (Inl reason) \<Rightarrow> (Inl (refusal REFUSAL_CODE (''pseudonym_restore_failed: '' @ reason)), audited env c ''pseudonym_restore_failed'' ''blocked'' st))"

definition call_subject_of :: "gateway_call \<Rightarrow> call_subject" where
  "call_subject_of c = \<lparr> cs_provider = [], cs_model = [], cs_agent_id = tc_agent_id c, cs_workflow_id = [],
     cs_connector = tc_connector c, cs_tool = tc_tool c \<rparr>"

definition override_gate :: "gateway_env \<Rightarrow> rat \<Rightarrow> rat \<Rightarrow> gateway_call \<Rightarrow> unit gate" where
  "override_gate env now later c st =
     (let (decision, ov) = check_override (ga_override env) now later (ga_answers env) (gs_override st)
            (UuidText (tc_tenant_id c)) (call_subject_of c) (Some ''tool'');
          st' = st\<lparr> gs_override := ov \<rparr>
      in if od_blocked decision then
           (Inl (refusal_with ERROR_CODE (od_reason decision) [] [(''override'', override_dict (od_override decision))]), audited env c ''operator_override'' ''blocked'' st')
         else (Inr (), st'))"

definition effective_token :: "gateway_env \<Rightarrow> gateway_call \<Rightarrow> string" where
  "effective_token env c =
     text_or (case tc_grant_token c of Some t \<Rightarrow> t | None \<Rightarrow> []) (case ga_current_token env of Some t \<Rightarrow> t | None \<Rightarrow> [])"

definition grant_off :: "run_grant option \<Rightarrow> bool" where
  "grant_off g = (case g of None \<Rightarrow> True | Some r \<Rightarrow> rg_mode r = OFF)"

text \<open>A connector of a remote MCP server leaves the pipeline here: it is answered by the tool adapter.\<close>

definition mcp_gate :: "gateway_env \<Rightarrow> gateway_call \<Rightarrow> unit gate" where
  "mcp_gate env c st =
     (if \<not> prefix ''mcp_'' (tc_connector c) then (Inr (), st)
      else case ga_mcp env of
        Inl e \<Rightarrow> (Inl (refusal ''E1007'' ''MCP tool is not available to this agent''), st)
      | Inr answer \<Rightarrow>
          if effective_token env c = [] \<and> grant_off (tc_run_grant c)
             \<and> \<not> fst (check_scope (tc_agent_scopes c) (tc_connector c) ''write'' (tc_tool c) (tc_amount c))
          then (Inl (refusal ''E1007'' ''MCP tool scope is missing''), st)
          else (Inl (Delegated answer), st))"

definition action_context_of :: "gateway_env \<Rightarrow> gateway_call \<Rightarrow> action_context" where
  "action_context_of env c =
     \<lparr> ctx_tenant_id = UuidText (tc_tenant_id c),
       ctx_company_id = (case tc_company_id c of None \<Rightarrow> UuidNone | Some i \<Rightarrow> UuidText i),
       ctx_domain = tc_domain c, ctx_runtime_env = ga_env env \<rparr>"

definition governance_of :: "gateway_env \<Rightarrow> gateway_call \<Rightarrow> action_decision" where
  "governance_of env c =
     evaluate_action (ga_before env) (ga_parse_uuid env) (tc_connector c @ '':'' @ tc_tool c) (action_context_of env c)
       (tc_authorization c) (Some (ga_flags env))"

text \<open>A strict runtime governs every call, a relaxed one the calls that give a company or a domain.\<close>

definition governed :: "gateway_env \<Rightarrow> gateway_call \<Rightarrow> action_decision option" where
  "governed env c =
     (if is_strict_runtime_env (ga_env env) \<or> tc_company_id c \<noteq> None \<or> tc_domain c \<noteq> DomainNone
      then Some (governance_of env c) else None)"

definition governance_gate :: "gateway_env \<Rightarrow> gateway_call \<Rightarrow> (action_decision option) gate" where
  "governance_gate env c st =
     (case governed env c of
        Some d \<Rightarrow>
          (if dispatch_allowed d then (Inr (Some d), st)
            else (Inl (refusal_with ''E1011'' (''action_contained: '' @ ad_reason d) [] [(''governance'', decision_dict d)]),
                  audited env c ''action_contained'' ''blocked'' st))
      | None \<Rightarrow> (Inr None, st))"

definition run_grant_gate :: "gateway_env \<Rightarrow> gateway_call \<Rightarrow> unit gate" where
  "run_grant_gate env c st =
     (case tc_run_grant c of
        None \<Rightarrow> (Inr (), st)
      | Some g \<Rightarrow>
          if rg_mode g = OFF then (Inr (), st)
          else case check_run_grant (ga_grants env) g (tc_connector c) (tc_tool c) (tc_amount c) of
            Inl e \<Rightarrow> (Inl (Crashed e), st)
          | Inr k \<Rightarrow>
              (case gk_denial k of
                 Some d \<Rightarrow>
                   if \<not> gk_dispatch_allowed k
                   then (Inl (refusal_with ''E1007'' (''grant_denied: '' @ reason_value (dn_reason d))
                          [(''reason'', VStr (reason_value (dn_reason d))), (''sub_reason'', VStr (dn_sub_reason d))] []), audited env c ''scope_denied'' ''blocked'' st)
                   else (Inr (), st)
               | None \<Rightarrow> (Inr (), st)))"

definition WRITE_WORDS :: "string list" where
  "WRITE_WORDS = [''create'', ''post'', ''update'', ''delete'', ''send'', ''file'', ''initiate'', ''queue'']"

definition legacy_permission :: "action_decision option \<Rightarrow> string \<Rightarrow> string" where
  "legacy_permission d tool =
     (case d of
        Some g \<Rightarrow> if ad_risk g = Some R_READ then ''read'' else ''write''
      | None \<Rightarrow> if list_ex (\<lambda>w. contains w tool) WRITE_WORDS then ''write'' else ''read'')"

definition legacy_resource :: "string \<Rightarrow> string" where
  "legacy_resource tool = (case split1 ''_'' tool of Some (a, b) \<Rightarrow> b | None \<Rightarrow> tool)"

definition scope_gate :: "gateway_env \<Rightarrow> gateway_call \<Rightarrow> action_decision option \<Rightarrow> unit gate" where
  "scope_gate env c d st =
     (let token = effective_token env c; denied = audited env c ''scope_denied'' ''blocked'' st
      in if token \<noteq> [] then
           (case ask_grantex (ga_grants env) token (tc_connector c) (tc_tool c) (tc_amount c) of
              Inl e \<Rightarrow> (Inl (Crashed e), st)
            | Inr r \<Rightarrow> if er_allowed r then (Inr (), st)
                else (Inl (refusal ''E1007'' (''scope_denied: '' @ er_reason r)), denied))
         else if tc_agent_scopes c \<noteq> [] then
           (case check_scope (tc_agent_scopes c) (tc_connector c) (legacy_permission d (tc_tool c)) (legacy_resource (tc_tool c))
                   (tc_amount c) of
              (True, reason) \<Rightarrow> (Inr (), st)
            | (False, reason) \<Rightarrow>
                if contains ''cap_exceeded'' reason
                then (Inl (refusal ''E1008'' (''cap_exceeded: '' @ reason)), audited env c ''cap_exceeded'' ''blocked'' st)
                else (Inl (refusal ''E1007'' (''scope_denied: '' @ reason)), denied))
         else (Inl (refusal ''E1007'' ''scope_denied: missing_grant_and_legacy_scopes''), denied))"

definition rate_gate :: "gateway_env \<Rightarrow> rat \<Rightarrow> gateway_call \<Rightarrow> unit gate" where
  "rate_gate env now c st =
     (if \<not> ga_rate_limiter env then (Inr (), st)
      else let (r, buckets) = check_rate (ga_rate_redis env) now now (gs_buckets st) (tc_tenant_id c) (tc_connector c) None;
               st' = st\<lparr> gs_buckets := buckets \<rparr>
           in if rl_allowed r then (Inr (), st') else (Inl (refusal_with ''E1003'' ''Rate limit exceeded''
                  [(''retry_after_seconds'', VFloat (Fin (rl_retry_after_seconds r)))] []), st'))"

text \<open>The last gate: the key is reserved, or its stored answer is given, or another call holds it. A store that
  is not connected reserves everything.\<close>

definition reserve_gate :: "gateway_env \<Rightarrow> rat \<Rightarrow> rat \<Rightarrow> gateway_call \<Rightarrow> bool gate" where
  "reserve_gate env now later c st =
     (case idem_key c of
        None \<Rightarrow> (Inr False, st)
      | Some k \<Rightarrow>
          if \<not> ga_idempotency env then (Inr False, st)
          else if \<not> ga_idempotency_redis env then (Inr True, st)
          else if \<not> ga_reserve_ok env then (Inl (Crashed ''RedisError''), st)
          else (case reserve now later (gs_idem st) k of
                  ((True, cached), s) \<Rightarrow> (Inr True, st\<lparr> gs_idem := s \<rparr>)
                | ((False, Some v), s) \<Rightarrow> (Inl (Replayed v), st\<lparr> gs_idem := s \<rparr>)
                | ((False, None), s) \<Rightarrow> (Inl (refusal ''E1009''
                    ''idempotent_request_in_progress: a call with this key is already executing''), st\<lparr> gs_idem := s \<rparr>)))"

section \<open>The pipeline\<close>

text \<open>What a call that passed the gates carries: its restored arguments and whether it holds a reservation.\<close>

record ticket =
  tk_params :: pv
  tk_reserved :: bool

definition admit :: "gateway_env \<Rightarrow> rat \<Rightarrow> rat \<Rightarrow> gateway_call \<Rightarrow> ticket gate" where
  "admit env now later c =
     then_gate (restore_gate env c) (\<lambda>params.
     then_gate (override_gate env now later c) (\<lambda>_.
     then_gate (mcp_gate env c) (\<lambda>_.
     then_gate (governance_gate env c) (\<lambda>d.
     then_gate (run_grant_gate env c) (\<lambda>_.
     then_gate (scope_gate env c d) (\<lambda>_.
     then_gate (rate_gate env later c) (\<lambda>_.
     then_gate (reserve_gate env later later c) (\<lambda>reserved st.
       (Inr \<lparr> tk_params = params, tk_reserved = reserved \<rparr>, st)))))))))"

text \<open>Dropping a reservation; \<open>stop\<close> is what the call then ends with.\<close>

definition release_reservation :: "gateway_env \<Rightarrow> gateway_call \<Rightarrow> bool \<Rightarrow> (string, unit) res \<times> gateway_state \<Rightarrow> (string, unit) res \<times> gateway_state" where
  "release_reservation env c reserved r =
     (case r of (u, st) \<Rightarrow>
        (case idem_key c of
           Some k \<Rightarrow>
             if reserved \<and> ga_idempotency env \<and> ga_idempotency_redis env then
               (if ga_release_ok env then (u, st\<lparr> gs_idem := release (gs_idem st) k \<rparr>) else (Inl ''RedisError'', st))
             else (u, st)
         | None \<Rightarrow> (u, st)))"

definition released_stop :: "gateway_env \<Rightarrow> gateway_call \<Rightarrow> bool \<Rightarrow> (gateway_state \<Rightarrow> gateway_state) \<Rightarrow> gateway_stop \<Rightarrow> 'a gate" where
  "released_stop env c reserved after stop st =
     (case release_reservation env c reserved (Inr (), st) of
        (Inl e, st') \<Rightarrow> (Inl (Crashed e), st')
      | (Inr u, st') \<Rightarrow> (Inl stop, after st'))"

definition find_connector :: "gateway_env \<Rightarrow> gateway_call \<Rightarrow> gateway_state \<Rightarrow> (string, string option) res \<times> gateway_state" where
  "find_connector env c st =
     (let key = (tc_tenant_id c, tc_company_id c, tc_connector c);
          own = gs_connectors st key;
          shared = (if own = None \<and> tc_company_id c = None then gs_connectors st (''_global'', None, tc_connector c) else own)
      in if shared \<noteq> None then (Inr shared, st)
         else case ga_resolve env of
                Inl e \<Rightarrow> (Inl e, st)
              | Inr None \<Rightarrow> (Inr None, st)
              | Inr (Some k) \<Rightarrow> (Inr (Some k), st\<lparr> gs_connectors := (gs_connectors st)(key \<mapsto> k) \<rparr>))"

text \<open>The screening of the inputs and the resolution of the connector; the call leaves the gateway here.\<close>

definition dispatch :: "gateway_env \<Rightarrow> rat \<Rightarrow> gateway_call \<Rightarrow> ticket \<Rightarrow> (registration option) gate" where
  "dispatch env now c t st0 =
     (let (check, cache) = screen_call (ga_registry env) (ga_registry_settings env) now (ga_parse_uuid env) (ga_registry_rows env)
            (gs_registry st0) (Some (tc_tenant_id c)) (tc_connector c) (tc_tool c) (tk_params t);
          st = st0\<lparr> gs_registry := cache \<rparr>;
          registered = (case check of Some k \<Rightarrow> rk_registration k | None \<Rightarrow> None)
      in if (case check of Some k \<Rightarrow> refused k | None \<Rightarrow> False) then
           released_stop env c (tk_reserved t) (audited env c ''input_rejected'' ''blocked'')
             (Refused (registry_refusal (the check) (tc_tool c))) st
         else case find_connector env c st of
           (Inl e, st') \<Rightarrow> (Inl (Crashed e), st')
         | (Inr None, st') \<Rightarrow>
             released_stop env c (tk_reserved t) id (refusal ''E1005'' (''Connector not found: '' @ tc_connector c)) st'
         | (Inr (Some k), st') \<Rightarrow>
             (Inr registered, st'\<lparr> gs_dispatched := gs_dispatched st' @ [(tc_connector c, tc_tool c, tk_params t)] \<rparr>))"

definition has_error :: "pv \<Rightarrow> bool" where
  "has_error v = (case v of VDict d \<Rightarrow> truthy (vget d ''error'') | _ \<Rightarrow> False)"

text \<open>What \<open>execute\<close> answers: the tool's result, an error of the tool, or an exception.\<close>

datatype gateway_answer = Result pv | ToolError string | GatewayException string

definition failed_call :: "gateway_env \<Rightarrow> gateway_call \<Rightarrow> ticket \<Rightarrow> string \<Rightarrow> gateway_state \<Rightarrow> gateway_answer \<times> gateway_state" where
  "failed_call env c t e st =
     (case release_reservation env c (tk_reserved t) (Inr (), st) of
        (Inl x, st') \<Rightarrow> (GatewayException x, st')
      | (Inr u, st') \<Rightarrow> (ToolError e, audited env c ''execute'' ''error'' st'))"

definition settle_call ::
    "gateway_env \<Rightarrow> rat \<Rightarrow> gateway_call \<Rightarrow> ticket \<Rightarrow> registration option \<Rightarrow> call_outcome \<Rightarrow> gateway_state
     \<Rightarrow> gateway_answer \<times> gateway_state" where
  "settle_call env now c t registered outcome st =
     (case (case registered of
              Some r \<Rightarrow> enveloped (ga_registry env) r outcome
            | None \<Rightarrow> (case outcome of Returned v \<Rightarrow> Inr v | TimedOut \<Rightarrow> Inl ''TimeoutError'' | Raised e \<Rightarrow> Inl e)) of
        Inl e \<Rightarrow> failed_call env c t e st
      | Inr result \<Rightarrow>
          (case (if ga_idempotency env then idem_key c else None) of
             None \<Rightarrow> (Result result, audited env c ''execute'' ''success'' st)
           | Some k \<Rightarrow>
               if has_error result then
                 (case release_reservation env c (tk_reserved t) (Inr (), st) of
                    (Inl e, st') \<Rightarrow> failed_call env c t e st'
                  | (Inr u, st') \<Rightarrow> (Result result, audited env c ''execute'' ''success'' st'))
               else if \<not> ga_idempotency_redis env then (Result result, audited env c ''execute'' ''success'' st)
               else if \<not> ga_store_ok env then failed_call env c t ''RedisError'' st
               else (Result result, audited env c ''execute'' ''success''
                      (st\<lparr> gs_idem := store_result now (gs_idem st) k (ga_json env result) \<rparr>))))"

text \<open>\<open>ToolGateway.execute\<close>: the call is admitted at \<open>now\<close>, dispatched and, when the connector has answered, settled
  at \<open>done\<close>.\<close>

definition execute_call ::
    "gateway_env \<Rightarrow> rat \<Rightarrow> rat \<Rightarrow> rat \<Rightarrow> gateway_call \<Rightarrow> call_outcome \<Rightarrow> gateway_state \<Rightarrow> (gateway_stop, gateway_answer) res \<times> gateway_state" where
  "execute_call env now later finish c outcome =
     then_gate (admit env now later c) (\<lambda>t.
     then_gate (dispatch env later c t) (\<lambda>registered st.
       (case settle_call env finish c t registered outcome st of (answer, st') \<Rightarrow> (Inr answer, st'))))"

section \<open>What every gate lets through\<close>

lemma then_gate_Inr [simp]:
  "then_gate m f st = (Inr y, st2) \<longleftrightarrow> (\<exists>x st1. m st = (Inr x, st1) \<and> f x st1 = (Inr y, st2))"
  by (auto simp: then_gate_def split: prod.splits sum.splits)

text \<open>Gates that dispatch nothing, and leave the idempotency store alone.\<close>

definition quiet :: "'a gate \<Rightarrow> bool" where
  "quiet m \<longleftrightarrow> (\<forall>st r st'. m st = (r, st') \<longrightarrow> gs_dispatched st' = gs_dispatched st \<and> gs_registry st' = gs_registry st)"

definition still :: "'a gate \<Rightarrow> bool" where
  "still m \<longleftrightarrow> (\<forall>st r st'. m st = (r, st') \<longrightarrow> gs_dispatched st' = gs_dispatched st \<and> gs_registry st' = gs_registry st
     \<and> gs_idem st' = gs_idem st)"

lemma still_quiet: "still m \<Longrightarrow> quiet m"
  by (auto simp: still_def quiet_def)

lemma quiet_then: "quiet m \<Longrightarrow> (\<And>x. quiet (f x)) \<Longrightarrow> quiet (then_gate m f)"
  unfolding quiet_def then_gate_def by (auto split: prod.splits sum.splits)

lemma still_then: "still m \<Longrightarrow> (\<And>x. still (f x)) \<Longrightarrow> still (then_gate m f)"
  unfolding still_def then_gate_def by (auto split: prod.splits sum.splits)

lemma audited_keeps [simp]:
  "gs_dispatched (audited env c a r st) = gs_dispatched st" "gs_idem (audited env c a r st) = gs_idem st"
  "gs_registry (audited env c a r st) = gs_registry st"
  by (simp_all add: audited_def)

lemma gates_still [intro]:
  "still (restore_gate env c)" "still (override_gate env now later c)" "still (mcp_gate env c)" "still (governance_gate env c)"
  "still (run_grant_gate env c)" "still (scope_gate env c d)" "still (rate_gate env now c)"
  by (auto simp: still_def restore_gate_def override_gate_def mcp_gate_def governance_gate_def run_grant_gate_def scope_gate_def
      rate_gate_def Let_def split: option.splits sum.splits prod.splits bool.splits if_splits)

lemma reserve_gate_quiet: "quiet (reserve_gate env now later c)"
  by (auto simp: quiet_def reserve_gate_def split: option.splits prod.splits bool.splits if_splits)

lemma admit_quiet: "quiet (admit env now later c)"
  unfolding admit_def
  by (intro quiet_then reserve_gate_quiet gates_still [THEN still_quiet]) (simp add: quiet_def)

lemma release_reservation_quiet:
  "release_reservation env c reserved (u, st) = (r, st') \<Longrightarrow> gs_dispatched st' = gs_dispatched st"
  by (auto simp: release_reservation_def split: option.splits if_splits)

lemma find_connector_quiet:
  "find_connector env c st = (r, st') \<Longrightarrow> gs_dispatched st' = gs_dispatched st \<and> gs_idem st' = gs_idem st"
  by (auto simp: find_connector_def Let_def split: option.splits sum.splits if_splits)

lemma dispatch_cases:
  assumes "dispatch env now c t st = (r, st')"
  shows "(\<exists>e. r = Inl e) \<and> gs_dispatched st' = gs_dispatched st
    \<or> (\<exists>reg. r = Inr reg) \<and> gs_dispatched st' = gs_dispatched st @ [(tc_connector c, tc_tool c, tk_params t)]"
  using assms
  by (auto simp: dispatch_def released_stop_def Let_def split: option.splits sum.splits prod.splits if_splits
      dest!: find_connector_quiet release_reservation_quiet)

lemma settle_quiet: "settle_call env now c t reg outcome st = (r, st') \<Longrightarrow> gs_dispatched st' = gs_dispatched st"
  by (auto simp: settle_call_def failed_call_def split: option.splits sum.splits prod.splits if_splits
      dest!: release_reservation_quiet)

text \<open>The gates of an admitted call, one by one.\<close>

lemma override_gate_passed:
  "override_gate env now later c st = (Inr u, st') \<Longrightarrow>
     \<not> od_blocked (fst (check_override (ga_override env) now later (ga_answers env) (gs_override st) (UuidText (tc_tenant_id c))
         (call_subject_of c) (Some ''tool'')))"
  by (auto simp: override_gate_def Let_def split: prod.splits if_splits)

lemma governance_gate_passed:
  "governance_gate env c st = (Inr d, st') \<Longrightarrow> d = governed env c \<and> (\<forall>g. governed env c = Some g \<longrightarrow> dispatch_allowed g)"
  by (auto simp: governance_gate_def split: option.splits if_splits)

lemma strict_governed:
  assumes "governed env c = Some g" "dispatch_allowed g" "is_strict_runtime_env (ga_env env)"
  shows "\<exists>d m risk ds. domain_of (tc_domain c) = Some d
    \<and> rule_of (ga_before env) (tc_connector c @ '':'' @ tc_tool c) = Some (m, risk, ds) \<and> d \<in> set ds \<and> safe_risk risk"
proof -
  have g: "g = governance_of env c" using assms(1) by (auto simp: governed_def split: if_splits)
  from assms(2) have "dispatch_allowed (evaluate_action (ga_before env) (ga_parse_uuid env) (tc_connector c @ '':'' @ tc_tool c)
      (action_context_of env c) (tc_authorization c) (Some (ga_flags env)))" unfolding g governance_of_def .
  from dispatch_facts [OF this] obtain tid cid d m risk ds where
      "domain_of (ctx_domain (action_context_of env c)) = Some d" "d \<in> set ds"
      and rule: "rule_of (ga_before env) (tc_connector c @ '':'' @ tc_tool c) = Some (m, risk, ds)"
      and safe: "safe_risk risk \<or> shadow_reason (ga_before env) (ga_parse_uuid env) (Some (ga_flags env)) (tc_authorization c)
        (is_strict_runtime_env (ctx_runtime_env (action_context_of env c))) tid cid d m risk = None"
    by metis
  moreover have "safe_risk risk" using safe assms(3) unfolding shadow_reason_None by (simp add: action_context_of_def)
  ultimately show ?thesis by (auto simp: action_context_of_def)
qed

lemma check_tool_grant_denial: "check_tool_grant env mode token k tool amount missing = Inr g \<Longrightarrow> gk_denial g = None \<Longrightarrow> gk_dispatch_allowed g"
  by (auto simp: check_tool_grant_def split: if_splits option.splits)

lemma check_run_grant_denial: "check_run_grant env g k tool amount = Inr x \<Longrightarrow> gk_denial x = None \<Longrightarrow> gk_dispatch_allowed x"
  by (auto simp: check_run_grant_def check_run_tokens_def Let_def split: option.splits if_splits dest: check_tool_grant_denial)

lemma run_grant_gate_passed:
  assumes "run_grant_gate env c st = (Inr u, st')" "tc_run_grant c = Some g" "rg_mode g = DENY"
  shows "grantex_allowed (ga_grants env) (rg_token g) (tc_connector c) (tc_tool c) (tc_amount c)"
proof -
  obtain k where k: "check_run_grant (ga_grants env) g (tc_connector c) (tc_tool c) (tc_amount c) = Inr k"
      "gk_dispatch_allowed k \<or> gk_denial k = None"
    using assms by (auto simp: run_grant_gate_def split: sum.splits option.splits if_splits)
  then have "gk_dispatch_allowed k" using check_run_grant_denial by blast
  then show ?thesis using check_run_grant_sound(3) [OF k(1)] assms(3) by (simp add: call_mode_def)
qed

lemma scope_gate_passed:
  assumes "scope_gate env c d st = (Inr u, st')"
  shows "grantex_allowed (ga_grants env) (effective_token env c) (tc_connector c) (tc_tool c) (tc_amount c)
    \<or> effective_token env c = [] \<and> (\<exists>s \<in> set (tc_agent_scopes c). \<exists>p. parse_scope s = Some p
        \<and> grants p (tc_connector c) (legacy_permission d (tc_tool c)) (legacy_resource (tc_tool c)) (tc_amount c))"
proof (cases "effective_token env c = []")
  case True
  then have "fst (check_scope (tc_agent_scopes c) (tc_connector c) (legacy_permission d (tc_tool c)) (legacy_resource (tc_tool c)) (tc_amount c))"
    using assms by (auto simp: scope_gate_def Let_def split: prod.splits bool.splits if_splits)
  then show ?thesis using check_scope_sound True by blast
next
  case False
  then show ?thesis
    using assms ask_grantex_sound by (auto simp: scope_gate_def Let_def split: sum.splits if_splits)
qed

text \<open>The inputs a registered tool is called with conform to its schema.\<close>

definition inputs_screened :: "gateway_env \<Rightarrow> registry_check option \<Rightarrow> pv \<Rightarrow> bool" where
  "inputs_screened env check params \<longleftrightarrow>
     (case check of
        None \<Rightarrow> \<not> tool_registry_enabled (ga_registry_settings env)
      | Some k \<Rightarrow> (case rk_registration k of
            Some r \<Rightarrow> errors_for (ga_registry env) (tr_input_schema r) (if params = VNone then VDict [] else params) = []
          | None \<Rightarrow> \<not> registration_required (ga_registry_settings env)))"

lemma dispatch_screened:
  assumes "dispatch env now c t st = (Inr reg, st')"
  shows "inputs_screened env (fst (screen_call (ga_registry env) (ga_registry_settings env) now (ga_parse_uuid env)
      (ga_registry_rows env) (gs_registry st) (Some (tc_tenant_id c)) (tc_connector c) (tc_tool c) (tk_params t))) (tk_params t)"
proof -
  let ?check = "fst (screen_call (ga_registry env) (ga_registry_settings env) now (ga_parse_uuid env) (ga_registry_rows env)
      (gs_registry st) (Some (tc_tenant_id c)) (tc_connector c) (tc_tool c) (tk_params t))"
  have nr: "\<not> refused k" if "?check = Some k" for k
    using assms that by (auto simp: dispatch_def released_stop_def Let_def split: prod.splits sum.splits if_splits)
  show ?thesis
  proof (cases ?check)
    case None
    then show ?thesis by (auto simp: inputs_screened_def screen_call_def split: if_splits prod.splits option.splits)
  next
    case (Some k)
    then have "rk_unavailable k \<or> (\<exists>entries. k = check_call (ga_registry env) (ga_registry_settings env) entries (tc_connector c) (tc_tool c) (tk_params t))"
      by (auto simp: screen_call_def split: if_splits prod.splits option.splits)
    then show ?thesis using nr [OF Some] unfolding Some
      by (auto simp: inputs_screened_def refused_def check_call_def split: option.splits)
  qed
qed

definition call_params :: "gateway_env \<Rightarrow> gateway_call \<Rightarrow> pv" where
  "call_params env c = (case ga_restore env of Some (Inr p) \<Rightarrow> p | _ \<Rightarrow> tc_params c)"

lemma restore_gate_passed: "restore_gate env c st = (Inr p, st') \<Longrightarrow> st' = st \<and> p = call_params env c"
  by (auto simp: restore_gate_def call_params_def split: option.splits sum.splits)

lemma execute_dispatched:
  assumes "execute_call env now later finish c outcome st = (r, st')" "gs_dispatched st' \<noteq> gs_dispatched st"
  obtains t st1 reg st2 where "admit env now later c st = (Inr t, st1)" "dispatch env later c t st1 = (Inr reg, st2)"
    "gs_dispatched st' = gs_dispatched st @ [(tc_connector c, tc_tool c, tk_params t)]" "gs_registry st1 = gs_registry st"
proof -
  obtain a st1 where a: "admit env now later c st = (a, st1)" by fastforce
  have q: "gs_dispatched st1 = gs_dispatched st" "gs_registry st1 = gs_registry st" using a admit_quiet unfolding quiet_def by blast+
  then obtain t where t: "a = Inr t" using assms a by (cases a) (auto simp: execute_call_def then_gate_def)
  obtain d st2 where d: "dispatch env later c t st1 = (d, st2)" by fastforce
  then obtain reg where reg: "d = Inr reg"
    using assms a t q dispatch_cases [OF d] by (cases d) (auto simp: execute_call_def then_gate_def)
  have "gs_dispatched st' = gs_dispatched st2"
    using assms(1) a t d reg by (auto simp: execute_call_def then_gate_def split: prod.splits dest: settle_quiet)
  then show ?thesis using that [of t st1 reg st2] a t d reg q dispatch_cases [OF d] by auto
qed

lemma admit_passed:
  assumes "admit env now later c st = (Inr t, st')"
  shows "tk_params t = call_params env c"
    and "\<not> od_blocked (fst (check_override (ga_override env) now later (ga_answers env) (gs_override st) (UuidText (tc_tenant_id c))
         (call_subject_of c) (Some ''tool'')))"
    and "governed env c = Some g \<Longrightarrow> dispatch_allowed g"
    and "tc_run_grant c = Some rg \<Longrightarrow> rg_mode rg = DENY \<Longrightarrow>
      grantex_allowed (ga_grants env) (rg_token rg) (tc_connector c) (tc_tool c) (tc_amount c)"
    and "grantex_allowed (ga_grants env) (effective_token env c) (tc_connector c) (tc_tool c) (tc_amount c)
      \<or> effective_token env c = [] \<and> (\<exists>s \<in> set (tc_agent_scopes c). \<exists>p. parse_scope s = Some p
        \<and> grants p (tc_connector c) (legacy_permission (governed env c) (tc_tool c)) (legacy_resource (tc_tool c)) (tc_amount c))"
  using assms
  by (auto simp: admit_def dest!: restore_gate_passed governance_gate_passed dest: override_gate_passed run_grant_gate_passed scope_gate_passed)

text \<open>C7: Nothing leaves the gateway past a gate. A call that \<open>execute\<close> dispatches carries the restored
  arguments; no operator override blocked it; in a strict runtime its \<open>connector:tool\<close> is a read or a draft
  the given domain may make; a run in deny mode holds a grant that covers it; and it is authorised,
  by a token Grantex allows for this connector and tool or, without any token, by a scope of the agent
  that grants the operation within its cap; and its arguments passed the schema the tool is registered with.
\<close>

theorem dispatched_call_passed_every_gate:
  assumes "execute_call env now later finish c outcome st = (r, st')" and "gs_dispatched st' \<noteq> gs_dispatched st"
  shows "gs_dispatched st' = gs_dispatched st @ [(tc_connector c, tc_tool c, call_params env c)]
    \<and> \<not> od_blocked (fst (check_override (ga_override env) now later (ga_answers env) (gs_override st)
        (UuidText (tc_tenant_id c)) (call_subject_of c) (Some ''tool'')))
    \<and> (is_strict_runtime_env (ga_env env) \<longrightarrow> (\<exists>d m risk ds. domain_of (tc_domain c) = Some d \<and> d \<in> set ds
        \<and> rule_of (ga_before env) (tc_connector c @ '':'' @ tc_tool c) = Some (m, risk, ds) \<and> risk \<in> {R_READ, R_DRAFT}))
    \<and> (\<forall>g. tc_run_grant c = Some g \<longrightarrow> rg_mode g = DENY \<longrightarrow>
        grantex_allowed (ga_grants env) (rg_token g) (tc_connector c) (tc_tool c) (tc_amount c))
    \<and> (grantex_allowed (ga_grants env) (effective_token env c) (tc_connector c) (tc_tool c) (tc_amount c)
       \<or> effective_token env c = [] \<and> (\<exists>s \<in> set (tc_agent_scopes c). \<exists>p. parse_scope s = Some p
          \<and> grants p (tc_connector c) (legacy_permission (governed env c) (tc_tool c)) (legacy_resource (tc_tool c)) (tc_amount c)))
    \<and> inputs_screened env (fst (screen_call (ga_registry env) (ga_registry_settings env) later (ga_parse_uuid env)
        (ga_registry_rows env) (gs_registry st) (Some (tc_tenant_id c)) (tc_connector c) (tc_tool c) (call_params env c)))
        (call_params env c)"
proof -
  obtain t st1 reg st2 where a: "admit env now later c st = (Inr t, st1)" and d: "dispatch env later c t st1 = (Inr reg, st2)"
    and e: "gs_dispatched st' = gs_dispatched st @ [(tc_connector c, tc_tool c, tk_params t)]"
    and reg: "gs_registry st1 = gs_registry st"
    by (rule execute_dispatched [OF assms])
  note passed = admit_passed [OF a]
  have "is_strict_runtime_env (ga_env env) \<Longrightarrow> governed env c = Some (governance_of env c)" by (simp add: governed_def)
  then have strict: "is_strict_runtime_env (ga_env env) \<longrightarrow> (\<exists>d m risk ds. domain_of (tc_domain c) = Some d \<and> d \<in> set ds
      \<and> rule_of (ga_before env) (tc_connector c @ '':'' @ tc_tool c) = Some (m, risk, ds) \<and> risk \<in> {R_READ, R_DRAFT})"
    using strict_governed passed(3) unfolding safe_risk_def by blast
  note screened = dispatch_screened [OF d, unfolded reg passed(1)]
  show ?thesis
    using e [unfolded passed(1)] passed(2,4,5) strict screened by (intro conjI) blast+
qed

text \<open>An output the envelope turns into an error frees the key, although the tool has done its work: a retry
  with the same key runs it again.\<close>

lemma oversized_output_frees_key:
  assumes "int (output_size (ga_registry env) v) > tr_max_output_bytes r" "idem_key c = Some k" "tk_reserved t"
    and "ga_idempotency env" "ga_idempotency_redis env" "ga_release_ok env"
  shows "\<exists>e st'. settle_call env now c t (Some r) (Returned v) st = (Result e, st') \<and> has_error e \<and> gs_idem st' k = None"
  using assms
  by (simp add: settle_call_def enveloped_def error_payload_def has_error_def vget_def dget_def release_reservation_def release_def)

section \<open>Sample\<close>

definition sample_gateway_env :: gateway_env where
  "sample_gateway_env = \<lparr> ga_env = Some ''production'', ga_override = sample_override_config, ga_answers = sample_answers,
     ga_before = (\<lambda>a b. True), ga_parse_uuid = Some, ga_flags = (\<lambda>key t c dflt. Inr False), ga_grants = sample_grant_env,
     ga_current_token = None, ga_restore = None, ga_mcp = Inl (), ga_rate_limiter = False, ga_rate_redis = False,
     ga_idempotency = True, ga_idempotency_redis = True, ga_reserve_ok = True, ga_store_ok = True, ga_release_ok = True,
     ga_registry = sample_registry_env, ga_registry_settings = \<lparr> tool_registry_enabled = False, tool_registry_require_registration = False \<rparr>,
     ga_registry_rows = None, ga_resolve = Inr (Some ''jira''), ga_audit = True, ga_json = (\<lambda>v. v) \<rparr>"

definition sample_call :: gateway_call where
  "sample_call = \<lparr> tc_tenant_id = ''t1'', tc_agent_id = ''a1'', tc_agent_scopes = [''tool:jira:read:issues''], tc_connector = ''jira'',
     tc_tool = ''search_issues'', tc_params = VDict [], tc_idempotency_key = Some ''k1'', tc_amount = None, tc_grant_token = None,
     tc_company_id = Some ''c1'', tc_domain = DomainText ''Ops'', tc_authorization = None, tc_run_grant = None \<rparr>"

definition sample_gateway :: gateway_state where
  "sample_gateway = \<lparr> gs_override = empty_overrides, gs_buckets = (\<lambda>k. None), gs_idem = (\<lambda>k. None), gs_registry = (\<lambda>t. None),
     gs_connectors = (\<lambda>k. None), gs_audit = [], gs_dispatched = [] \<rparr>"

definition sample_executed :: "(gateway_stop, gateway_answer) res \<times> gateway_state" where
  "sample_executed = execute_call sample_gateway_env 0 0 1 sample_call (Returned (VDict [(''issues'', VList [])])) sample_gateway"

lemma sample_executed_dispatched: "gs_dispatched (snd sample_executed) = [(''jira'', ''search_issues'', VDict [])]"
  by code_simp

theorem dispatched_call_passed_every_gate_witness:
  "\<exists>m risk ds. rule_of (\<lambda>a b. True) (''jira'' @ '':'' @ ''search_issues'') = Some (m, risk, ds) \<and> risk \<in> {R_READ, R_DRAFT}"
proof -
  have e: "execute_call sample_gateway_env 0 0 1 sample_call (Returned (VDict [(''issues'', VList [])])) sample_gateway
      = (fst sample_executed, snd sample_executed)" by (simp add: sample_executed_def)
  have "gs_dispatched (snd sample_executed) \<noteq> gs_dispatched sample_gateway"
    unfolding sample_executed_dispatched by (simp add: sample_gateway_def)
  note passed = dispatched_call_passed_every_gate [OF e this]
  have "is_strict_runtime_env (ga_env sample_gateway_env)" by code_simp
  then show ?thesis using passed by (auto simp: sample_gateway_env_def sample_call_def)
qed

end
