(* ===== verification/Gateway_Runs.thy ===== *)
theory Gateway_Runs
  imports Tool_Gateway
begin

text \<open>
  Calls of the tool gateway that run side by side: the three parts of \<open>ToolGateway.execute\<close> (admission,
  dispatch and settling) of many calls interleave over the shared idempotency store while time passes.
\<close>

section \<open>Leases on a key\<close>

text \<open>
  What the idempotency store promises, apart from the gateway: at a time, the store, the leases still
  held (call, key and time of the reservation) and the keys completed with the time of completion.
\<close>

record lease_view =
  lv_now :: rat
  lv_store :: idem_store
  lv_held :: "(nat \<times> string \<times> rat) set"
  lv_done :: "(string \<times> rat) set"

definition in_time :: "rat \<Rightarrow> rat \<Rightarrow> bool" where
  "in_time now r \<longleftrightarrow> now < r + RESERVATION_TTL"

definition lease_inv :: "lease_view \<Rightarrow> bool" where
  "lease_inv v \<longleftrightarrow>
     (\<forall>i k r. (i, k, r) \<in> lv_held v \<longrightarrow> r \<le> lv_now v)
     \<and> (\<forall>i k r. (i, k, r) \<in> lv_held v \<longrightarrow> in_time (lv_now v) r \<longrightarrow> lv_store v k = Some (PENDING_MARKER, r + RESERVATION_TTL))
     \<and> (\<forall>i j k r r'. (i, k, r) \<in> lv_held v \<longrightarrow> (j, k, r') \<in> lv_held v \<longrightarrow> in_time (lv_now v) r \<longrightarrow> in_time (lv_now v) r' \<longrightarrow> i = j)
     \<and> (\<forall>i k r s. (i, k, r) \<in> lv_held v \<longrightarrow> (k, s) \<in> lv_done v \<longrightarrow> in_time (lv_now v) r \<longrightarrow> s + IDEMPOTENCY_TTL \<le> r)
     \<and> (\<forall>k s. (k, s) \<in> lv_done v \<longrightarrow> lv_now v < s + IDEMPOTENCY_TTL \<longrightarrow> (\<exists>x. lv_store v k = Some (x, s + IDEMPOTENCY_TTL)))"

lemma lease_invD:
  assumes "lease_inv v"
  shows "(i, k, r) \<in> lv_held v \<Longrightarrow> r \<le> lv_now v"
    and "(i, k, r) \<in> lv_held v \<Longrightarrow> in_time (lv_now v) r \<Longrightarrow> lv_store v k = Some (PENDING_MARKER, r + RESERVATION_TTL)"
    and "(i, k, r) \<in> lv_held v \<Longrightarrow> (j, k, r') \<in> lv_held v \<Longrightarrow> in_time (lv_now v) r \<Longrightarrow> in_time (lv_now v) r' \<Longrightarrow> i = j"
    and "(i, k, r) \<in> lv_held v \<Longrightarrow> (k, s) \<in> lv_done v \<Longrightarrow> in_time (lv_now v) r \<Longrightarrow> s + IDEMPOTENCY_TTL \<le> r"
    and "(k, s) \<in> lv_done v \<Longrightarrow> lv_now v < s + IDEMPOTENCY_TTL \<Longrightarrow> \<exists>x. lv_store v k = Some (x, s + IDEMPOTENCY_TTL)"
  using assms unfolding lease_inv_def by blast+

lemma lease_invI:
  assumes "\<And>i k r. (i, k, r) \<in> lv_held v \<Longrightarrow> r \<le> lv_now v"
    and "\<And>i k r. (i, k, r) \<in> lv_held v \<Longrightarrow> in_time (lv_now v) r \<Longrightarrow> lv_store v k = Some (PENDING_MARKER, r + RESERVATION_TTL)"
    and "\<And>i j k r r'. (i, k, r) \<in> lv_held v \<Longrightarrow> (j, k, r') \<in> lv_held v \<Longrightarrow> in_time (lv_now v) r \<Longrightarrow> in_time (lv_now v) r' \<Longrightarrow> i = j"
    and "\<And>i k r s. (i, k, r) \<in> lv_held v \<Longrightarrow> (k, s) \<in> lv_done v \<Longrightarrow> in_time (lv_now v) r \<Longrightarrow> s + IDEMPOTENCY_TTL \<le> r"
    and "\<And>k s. (k, s) \<in> lv_done v \<Longrightarrow> lv_now v < s + IDEMPOTENCY_TTL \<Longrightarrow> \<exists>x. lv_store v k = Some (x, s + IDEMPOTENCY_TTL)"
  shows "lease_inv v"
  using assms unfolding lease_inv_def by blast

lemma in_time_earlier: "in_time t r \<Longrightarrow> now \<le> t \<Longrightarrow> in_time now r"
  by (simp add: in_time_def)

text \<open>Time passes and leases are dropped.\<close>

lemma lease_later:
  assumes "lease_inv v" "lv_now v \<le> t" "held \<subseteq> lv_held v"
  shows "lease_inv (v\<lparr> lv_now := t, lv_held := held \<rparr>)"
proof (rule lease_invI; simp)
  fix i j k r r' s
  assume h: "(i, k, r) \<in> held"
  then have h': "(i, k, r) \<in> lv_held v" using assms(3) by blast
  show "r \<le> t" using lease_invD(1) [OF assms(1) h'] assms(2) by simp
  assume t: "in_time t r"
  note now = in_time_earlier [OF t assms(2)]
  show "lv_store v k = Some (PENDING_MARKER, r + RESERVATION_TTL)" by (rule lease_invD(2) [OF assms(1) h' now])
  show "(k, s) \<in> lv_done v \<Longrightarrow> s + IDEMPOTENCY_TTL \<le> r" by (rule lease_invD(4) [OF assms(1) h' _ now])
  assume "(j, k, r') \<in> held" "in_time t r'"
  then show "i = j" using lease_invD(3) [OF assms(1) h' _ now in_time_earlier] assms(2,3) by blast
next
  fix k s assume "(k, s) \<in> lv_done v" "t < s + IDEMPOTENCY_TTL"
  then show "\<exists>x. lv_store v k = Some (x, s + IDEMPOTENCY_TTL)" using lease_invD(5) [OF assms(1)] assms(2) by fastforce
qed

text \<open>Taking a free key; a key a call holds in time, or that was completed less than a day ago, is not free.\<close>

lemma free_key:
  assumes "lease_inv v" "live_entry (lv_now v) (lv_store v) k = None"
  shows "(i, k, r) \<in> lv_held v \<Longrightarrow> \<not> in_time (lv_now v) r"
    and "(k, s) \<in> lv_done v \<Longrightarrow> s + IDEMPOTENCY_TTL \<le> lv_now v"
proof -
  show "\<not> in_time (lv_now v) r" if "(i, k, r) \<in> lv_held v"
    using lease_invD(2) [OF assms(1) that] assms(2) by (auto simp: live_entry_def in_time_def)
  show "s + IDEMPOTENCY_TTL \<le> lv_now v" if d: "(k, s) \<in> lv_done v"
  proof (rule ccontr)
    assume "\<not> s + IDEMPOTENCY_TTL \<le> lv_now v"
    then have less: "lv_now v < s + IDEMPOTENCY_TTL" by simp
    obtain x where "lv_store v k = Some (x, s + IDEMPOTENCY_TTL)" using lease_invD(5) [OF assms(1) d less] by blast
    then show False using assms(2) less by (simp add: live_entry_def)
  qed
qed

lemma lease_take:
  assumes "lease_inv v" "live_entry (lv_now v) (lv_store v) k = None"
  shows "lease_inv (v\<lparr> lv_store := (lv_store v)(k \<mapsto> (PENDING_MARKER, lv_now v + RESERVATION_TTL)),
    lv_held := insert (i, k, lv_now v) (lv_held v) \<rparr>)" (is "lease_inv ?w")
proof (rule lease_invI)
  note inv = lease_invD [OF assms(1)] and free = free_key [OF assms]
  fix j j' k' r r' s
  show "r \<le> lv_now ?w" if "(j, k', r) \<in> lv_held ?w" using that inv(1) by auto
  show "lv_store ?w k' = Some (PENDING_MARKER, r + RESERVATION_TTL)" if "(j, k', r) \<in> lv_held ?w" "in_time (lv_now ?w) r"
    using that inv(2) free(1) by auto
  show "j = j'" if "(j, k', r) \<in> lv_held ?w" "(j', k', r') \<in> lv_held ?w" "in_time (lv_now ?w) r" "in_time (lv_now ?w) r'"
    using that inv(3) free(1) by auto
  show "s + IDEMPOTENCY_TTL \<le> r" if "(j, k', r) \<in> lv_held ?w" "(k', s) \<in> lv_done ?w" "in_time (lv_now ?w) r"
    using that inv(4) free(2) by auto
  show "\<exists>x. lv_store ?w k' = Some (x, s + IDEMPOTENCY_TTL)" if "(k', s) \<in> lv_done ?w" "lv_now ?w < s + IDEMPOTENCY_TTL"
    using that inv(5) free(2) by fastforce
qed

text \<open>A call that holds the key in time may do with it what it likes and give the lease up; when it
  completes, the key holds its result for a day.\<close>

lemma lease_retire:
  assumes "lease_inv v" "(i, k, r) \<in> lv_held v" "in_time (lv_now v) r"
    and "done \<subseteq> insert (k, lv_now v) (lv_done v)" "(k, lv_now v) \<in> done \<longrightarrow> (\<exists>x. e = Some (x, lv_now v + IDEMPOTENCY_TTL))"
    and "held \<subseteq> {h \<in> lv_held v. fst h \<noteq> i}"
  shows "lease_inv (v\<lparr> lv_store := (lv_store v)(k := e), lv_held := held, lv_done := done \<rparr>)" (is "lease_inv ?w")
proof (rule lease_invI)
  note inv = lease_invD [OF assms(1)]
  have other: "\<not> in_time (lv_now v) r'" if "(j, k, r') \<in> held" for j r'
  proof
    assume t: "in_time (lv_now v) r'"
    have j: "(j, k, r') \<in> lv_held v" "j \<noteq> i" using that assms(6) by auto
    show False using inv(3) [OF j(1) assms(2) t assms(3)] j(2) by simp
  qed
  have old: "s + IDEMPOTENCY_TTL \<le> lv_now v" if "(k, s) \<in> lv_done v" for s
    using inv(4) [OF assms(2) that assms(3)] inv(1) [OF assms(2)] by simp
  fix j j' k' r' r'' s
  show "r' \<le> lv_now ?w" if "(j, k', r') \<in> lv_held ?w" using that assms(6) inv(1) by auto
  show "lv_store ?w k' = Some (PENDING_MARKER, r' + RESERVATION_TTL)" if "(j, k', r') \<in> lv_held ?w" "in_time (lv_now ?w) r'"
    using that assms(6) inv(2) other by auto
  show "j = j'" if "(j, k', r') \<in> lv_held ?w" "(j', k', r'') \<in> lv_held ?w" "in_time (lv_now ?w) r'" "in_time (lv_now ?w) r''"
  proof -
    have "(j, k', r') \<in> lv_held v" "(j', k', r'') \<in> lv_held v" using that(1,2) assms(6) by auto
    then show ?thesis using inv(3) [of j k' r' j' r''] that(3,4) by simp
  qed
  show "s + IDEMPOTENCY_TTL \<le> r'" if "(j, k', r') \<in> lv_held ?w" "(k', s) \<in> lv_done ?w" "in_time (lv_now ?w) r'"
  proof -
    have "k' \<noteq> k" using that(1,3) other by auto
    then have "(j, k', r') \<in> lv_held v" "(k', s) \<in> lv_done v" using that(1,2) assms(4,6) by auto
    then show ?thesis using inv(4) [of j k' r' s] that(3) by simp
  qed
  show "\<exists>x. lv_store ?w k' = Some (x, s + IDEMPOTENCY_TTL)" if "(k', s) \<in> lv_done ?w" "lv_now ?w < s + IDEMPOTENCY_TTL"
  proof (cases "k' = k")
    case True
    have "s = lv_now v" using that True assms(4) old by fastforce
    then show ?thesis using that True assms(5) by auto
  next
    case False
    then show ?thesis using that assms(4) inv(5) by auto
  qed
qed

section \<open>Calls side by side\<close>

record running =
  rn_id :: nat
  rn_call :: gateway_call
  rn_ticket :: ticket
  rn_at :: rat
  rn_registered :: "(registration option) option"

text \<open>What has happened, newest first: a call dispatched (with the time it was admitted) or completed, that
  is, answered with a result that is no error.\<close>

datatype gateway_event = DispatchedAt nat string rat | CompletedAt nat string rat

record gateway_world =
  gw_now :: rat
  gw_state :: gateway_state
  gw_running :: "running list"
  gw_log :: "gateway_event list"
  gw_next :: nat

definition connected :: "gateway_env \<Rightarrow> bool" where
  "connected env \<longleftrightarrow> ga_idempotency env \<and> ga_idempotency_redis env"

definition others :: "running \<Rightarrow> running list \<Rightarrow> running list" where
  "others x xs = filter (\<lambda>y. rn_id y \<noteq> rn_id x) xs"

definition completes :: "gateway_answer \<Rightarrow> bool" where
  "completes a = (case a of Result v \<Rightarrow> \<not> has_error v | _ \<Rightarrow> False)"

definition key_event :: "(nat \<Rightarrow> string \<Rightarrow> rat \<Rightarrow> gateway_event) \<Rightarrow> running \<Rightarrow> rat \<Rightarrow> gateway_event list" where
  "key_event f x t = (case idem_key (rn_call x) of Some k \<Rightarrow> [f (rn_id x) k t] | None \<Rightarrow> [])"

text \<open>
  Every call that acts on its reservation does so within the five minutes the reservation lasts
  (\<open>in_time\<close>): the code assumes it, and does not enforce it. A worker may die at any point.
\<close>

inductive gateway_reach :: "gateway_world \<Rightarrow> bool" where
  start: "gs_idem st = (\<lambda>k. None) \<Longrightarrow>
    gateway_reach \<lparr> gw_now = t, gw_state = st, gw_running = [], gw_log = [], gw_next = 0 \<rparr>"
| tick: "gateway_reach w \<Longrightarrow> gw_now w \<le> t \<Longrightarrow> gateway_reach (w\<lparr> gw_now := t \<rparr>)"
| stopped: "gateway_reach w \<Longrightarrow> connected env \<Longrightarrow> gw_now w \<le> t \<Longrightarrow> admit env (gw_now w) t c (gw_state w) = (Inl e, st) \<Longrightarrow>
    gateway_reach (w\<lparr> gw_now := t, gw_state := st \<rparr>)"
| admitted: "gateway_reach w \<Longrightarrow> connected env \<Longrightarrow> gw_now w \<le> t \<Longrightarrow> admit env (gw_now w) t c (gw_state w) = (Inr k, st) \<Longrightarrow>
    gateway_reach (w\<lparr> gw_now := t, gw_state := st, gw_next := gw_next w + 1,
      gw_running := \<lparr> rn_id = gw_next w, rn_call = c, rn_ticket = k, rn_at = t, rn_registered = None \<rparr> # gw_running w \<rparr>)"
| refused: "gateway_reach w \<Longrightarrow> connected env \<Longrightarrow> x \<in> set (gw_running w) \<Longrightarrow> rn_registered x = None \<Longrightarrow> in_time (gw_now w) (rn_at x) \<Longrightarrow>
    dispatch env (gw_now w) (rn_call x) (rn_ticket x) (gw_state w) = (Inl e, st) \<Longrightarrow>
    gateway_reach (w\<lparr> gw_state := st, gw_running := others x (gw_running w) \<rparr>)"
| dispatched: "gateway_reach w \<Longrightarrow> connected env \<Longrightarrow> x \<in> set (gw_running w) \<Longrightarrow> rn_registered x = None \<Longrightarrow> in_time (gw_now w) (rn_at x) \<Longrightarrow>
    dispatch env (gw_now w) (rn_call x) (rn_ticket x) (gw_state w) = (Inr reg, st) \<Longrightarrow>
    gateway_reach (w\<lparr> gw_state := st, gw_running := x\<lparr> rn_registered := Some reg \<rparr> # others x (gw_running w),
      gw_log := key_event DispatchedAt x (rn_at x) @ gw_log w \<rparr>)"
| settled: "gateway_reach w \<Longrightarrow> connected env \<Longrightarrow> x \<in> set (gw_running w) \<Longrightarrow> rn_registered x = Some reg \<Longrightarrow> in_time (gw_now w) (rn_at x) \<Longrightarrow>
    settle_call env (gw_now w) (rn_call x) (rn_ticket x) reg outcome (gw_state w) = (answer, st) \<Longrightarrow>
    gateway_reach (w\<lparr> gw_state := st, gw_running := others x (gw_running w),
      gw_log := (if completes answer then key_event CompletedAt x (gw_now w) else []) @ gw_log w \<rparr>)"
| died: "gateway_reach w \<Longrightarrow> x \<in> set (gw_running w) \<Longrightarrow> gateway_reach (w\<lparr> gw_running := others x (gw_running w) \<rparr>)"

section \<open>What the parts do to the store\<close>

text \<open>\<open>stores P m\<close>: the gate relates the store before, its result and the store after by \<open>P\<close>.\<close>

definition stores :: "(idem_store \<Rightarrow> (gateway_stop, 'a) res \<Rightarrow> idem_store \<Rightarrow> bool) \<Rightarrow> 'a gate \<Rightarrow> bool" where
  "stores P m \<longleftrightarrow> (\<forall>st r st'. m st = (r, st') \<longrightarrow> P (gs_idem st) r (gs_idem st'))"

lemma stores_then:
  "still m \<Longrightarrow> (\<And>s e. P s (Inl e) s) \<Longrightarrow> (\<And>x. stores P (f x)) \<Longrightarrow> stores P (then_gate m f)"
  unfolding stores_def still_def then_gate_def by (auto split: prod.splits sum.splits) metis

text \<open>An admitted call with a key has taken it, and it was free.\<close>

definition takes :: "rat \<Rightarrow> gateway_call \<Rightarrow> ('a \<Rightarrow> bool) \<Rightarrow> idem_store \<Rightarrow> (gateway_stop, 'a) res \<Rightarrow> idem_store \<Rightarrow> bool" where
  "takes t c reserved s r s' =
     (case r of Inl e \<Rightarrow> s' = s
      | Inr x \<Rightarrow> (case idem_key c of
          None \<Rightarrow> s' = s
        | Some k \<Rightarrow> reserved x \<and> live_entry t s k = None \<and> s' = s(k \<mapsto> (PENDING_MARKER, t + RESERVATION_TTL))))"

lemma reserve_gate_takes: "connected env \<Longrightarrow> stores (takes t c id) (reserve_gate env t t c)"
  by (auto simp: stores_def takes_def reserve_gate_def reserve_def connected_def
      split: option.splits if_splits prod.splits bool.splits sum.splits)

lemma admit_takes:
  assumes "connected env"
  shows "stores (takes later c tk_reserved) (admit env now later c)"
proof -
  have final: "stores (takes later c tk_reserved) (then_gate (reserve_gate env later later c)
      (\<lambda>reserved st. (Inr \<lparr> tk_params = params, tk_reserved = reserved \<rparr>, st)))" for params
    using reserve_gate_takes [OF assms, of later c]
    by (fastforce simp: stores_def takes_def then_gate_def split: prod.splits sum.splits option.splits)
  show ?thesis unfolding admit_def by (rule final | rule stores_then | rule gates_still | simp add: takes_def)+
qed

text \<open>A call that ends has left the key alone, dropped it, or stored its result under it.\<close>

lemma released_idem:
  "release_reservation env c b (u, st) = (r, st') \<Longrightarrow>
     gs_idem st' = gs_idem st \<or> (\<exists>k. idem_key c = Some k \<and> gs_idem st' = (gs_idem st)(k := None))"
  by (auto simp: release_reservation_def release_def split: option.splits if_splits)

lemma dispatch_idem:
  assumes "dispatch env now c t st = (r, st')"
  shows "gs_idem st' = gs_idem st \<or> (\<exists>e k. r = Inl e \<and> idem_key c = Some k \<and> gs_idem st' = (gs_idem st)(k := None))"
  using assms
  by (auto simp: dispatch_def released_stop_def Let_def split: option.splits sum.splits prod.splits if_splits
      dest!: find_connector_quiet released_idem)

lemma settle_idem:
  assumes "settle_call env now c t reg outcome st = (a, st')" "connected env"
  shows "gs_idem st' = gs_idem st \<and> (completes a \<longrightarrow> idem_key c = None)
    \<or> (\<exists>k. idem_key c = Some k \<and> (gs_idem st' = (gs_idem st)(k := None) \<and> \<not> completes a
        \<or> (\<exists>v. gs_idem st' = (gs_idem st)(k \<mapsto> (v, now + IDEMPOTENCY_TTL)))))"
  using assms
  by (auto simp: settle_call_def failed_call_def connected_def completes_def store_result_def
      split: option.splits sum.splits prod.splits if_splits dest!: released_idem)

section \<open>The invariant\<close>

definition held_leases :: "running list \<Rightarrow> (nat \<times> string \<times> rat) set" where
  "held_leases xs = {(rn_id x, k, rn_at x) | x k. x \<in> set xs \<and> idem_key (rn_call x) = Some k}"

definition completions :: "gateway_event list \<Rightarrow> (string \<times> rat) set" where
  "completions es = {(k, s) | i k s. CompletedAt i k s \<in> set es}"

definition view :: "gateway_world \<Rightarrow> lease_view" where
  "view w = \<lparr> lv_now = gw_now w, lv_store = gs_idem (gw_state w), lv_held = held_leases (gw_running w),
     lv_done = completions (gw_log w) \<rparr>"

definition world_inv :: "gateway_world \<Rightarrow> bool" where
  "world_inv w \<longleftrightarrow> lease_inv (view w) \<and> (\<forall>x \<in> set (gw_running w). rn_id x < gw_next w) \<and> distinct (map rn_id (gw_running w))"

lemma held_others: "held_leases (others x xs) \<subseteq> {h \<in> held_leases xs. fst h \<noteq> rn_id x}"
  by (auto simp: held_leases_def others_def)

lemma held_Cons:
  "held_leases (x # xs) = (case idem_key (rn_call x) of Some k \<Rightarrow> insert (rn_id x, k, rn_at x) (held_leases xs) | None \<Rightarrow> held_leases xs)"
  by (auto simp: held_leases_def split: option.splits)

lemma completions_key_event:
  "completions (key_event DispatchedAt x t @ es) = completions es"
  "completions (key_event CompletedAt x t @ es)
     = (case idem_key (rn_call x) of Some k \<Rightarrow> insert (k, t) (completions es) | None \<Rightarrow> completions es)"
  by (auto simp: completions_def key_event_def split: option.splits)

lemma others_facts:
  "distinct (map rn_id xs) \<Longrightarrow> distinct (map rn_id (others x xs))"
  "y \<in> set (others x xs) \<Longrightarrow> y \<in> set xs \<and> rn_id y \<noteq> rn_id x"
  by (auto simp: others_def distinct_map_filter)

lemma inv_later:
  assumes "world_inv w" "gw_now w \<le> t" "gs_idem st = gs_idem (gw_state w)"
  shows "world_inv (w\<lparr> gw_now := t, gw_state := st \<rparr>)"
  using lease_later [of "view w" t "held_leases (gw_running w)"] assms by (simp add: world_inv_def view_def)

text \<open>A running call that acts in time and leaves.\<close>

lemma inv_leave:
  assumes "world_inv w" "x \<in> set (gw_running w)" "in_time (gw_now w) (rn_at x)"
    and "gs_idem st = gs_idem (gw_state w) \<and> es = []
      \<or> (\<exists>k e. idem_key (rn_call x) = Some k \<and> gs_idem st = (gs_idem (gw_state w))(k := e)
          \<and> (es = [] \<or> es = key_event CompletedAt x (gw_now w) \<and> (\<exists>v. e = Some (v, gw_now w + IDEMPOTENCY_TTL))))
      \<or> idem_key (rn_call x) = None \<and> gs_idem st = gs_idem (gw_state w) \<and> es = key_event CompletedAt x (gw_now w)"
  shows "world_inv (w\<lparr> gw_state := st, gw_running := others x (gw_running w), gw_log := es @ gw_log w \<rparr>)"
proof -
  have inv: "lease_inv (view w)" using assms(1) by (simp add: world_inv_def)
  have same: "lease_inv ((view w)\<lparr> lv_now := gw_now w, lv_held := held_leases (others x (gw_running w)) \<rparr>)"
    using held_others by (intro lease_later [OF inv]) (auto simp: view_def)
  have "lease_inv (view (w\<lparr> gw_state := st, gw_running := others x (gw_running w), gw_log := es @ gw_log w \<rparr>))"
  proof (cases "\<exists>k e. idem_key (rn_call x) = Some k \<and> gs_idem st = (gs_idem (gw_state w))(k := e)
          \<and> (es = [] \<or> es = key_event CompletedAt x (gw_now w) \<and> (\<exists>v. e = Some (v, gw_now w + IDEMPOTENCY_TTL)))")
    case True
    then obtain k e where k: "idem_key (rn_call x) = Some k" and st: "gs_idem st = (gs_idem (gw_state w))(k := e)"
      and es: "es = [] \<or> es = key_event CompletedAt x (gw_now w) \<and> (\<exists>v. e = Some (v, gw_now w + IDEMPOTENCY_TTL))"
      by blast
    have held: "(rn_id x, k, rn_at x) \<in> lv_held (view w)" using assms(2) k by (auto simp: view_def held_leases_def)
    let ?done = "completions (es @ gw_log w)"
    have "lease_inv ((view w)\<lparr> lv_store := (lv_store (view w))(k := e), lv_held := held_leases (others x (gw_running w)), lv_done := ?done \<rparr>)"
    proof (rule lease_retire [OF inv held])
      show "in_time (lv_now (view w)) (rn_at x)" using assms(3) by (simp add: view_def)
      show "?done \<subseteq> insert (k, lv_now (view w)) (lv_done (view w))"
        using es k completions_key_event(2) [of x "gw_now w"] by (auto simp: view_def)
      show "held_leases (others x (gw_running w)) \<subseteq> {h \<in> lv_held (view w). fst h \<noteq> rn_id x}"
        using held_others by (simp add: view_def)
      show "(k, lv_now (view w)) \<in> ?done \<longrightarrow> (\<exists>v. e = Some (v, lv_now (view w) + IDEMPOTENCY_TTL))"
      proof
        assume d: "(k, lv_now (view w)) \<in> ?done"
        have t: "in_time (lv_now (view w)) (rn_at x)" using assms(3) by (simp add: view_def)
        have "(k, lv_now (view w)) \<notin> lv_done (view w)"
          using lease_invD(4) [OF inv held _ t, of "lv_now (view w)"] lease_invD(1) [OF inv held] by (auto simp: IDEMPOTENCY_TTL_def)
        then have "es \<noteq> []" using d by (auto simp: view_def)
        then show "\<exists>v. e = Some (v, lv_now (view w) + IDEMPOTENCY_TTL)" using es by (simp add: view_def)
      qed
    qed
    then show ?thesis by (simp add: view_def st)
  next
    case False
    then have "gs_idem st = gs_idem (gw_state w)" "es = [] \<or> idem_key (rn_call x) = None \<and> es = key_event CompletedAt x (gw_now w)"
      using assms(4) by blast+
    then show ?thesis using same completions_key_event(2) [of x "gw_now w" "gw_log w"] by (auto simp: view_def)
  qed
  then show ?thesis using assms(1) others_facts by (auto simp: world_inv_def)
qed

lemma gateway_reach_inv: "gateway_reach w \<Longrightarrow> world_inv w"
proof (induction rule: gateway_reach.induct)
  case (start st t)
  then show ?case by (simp add: world_inv_def view_def lease_inv_def held_leases_def completions_def)
next
  case (tick w t)
  then show ?case using inv_later [of w t "gw_state w"] by simp
next
  case (stopped w env t c e st)
  have "gs_idem st = gs_idem (gw_state w)"
    using admit_takes [OF stopped.hyps(2), of t c "gw_now w"] stopped.hyps(4) by (fastforce simp: stores_def takes_def)
  then show ?case using inv_later [OF stopped.IH stopped.hyps(3)] by blast
next
  case (admitted w env t c k st)
  let ?x = "\<lparr> rn_id = gw_next w, rn_call = c, rn_ticket = k, rn_at = t, rn_registered = None \<rparr>"
  have takes: "takes t c tk_reserved (gs_idem (gw_state w)) (Inr k) (gs_idem st)"
    using admit_takes [OF admitted.hyps(2), of t c "gw_now w"] admitted.hyps(4) by (auto simp: stores_def)
  have later: "lease_inv ((view w)\<lparr> lv_now := t \<rparr>)"
    using lease_later [of "view w" t "lv_held (view w)"] admitted.IH admitted.hyps(3) by (simp add: world_inv_def view_def)
  have "lease_inv (view (w\<lparr> gw_now := t, gw_state := st, gw_next := gw_next w + 1, gw_running := ?x # gw_running w \<rparr>))"
  proof (cases "idem_key c")
    case None
    then show ?thesis using later takes by (simp add: takes_def view_def held_Cons)
  next
    case (Some key)
    then have "live_entry t (gs_idem (gw_state w)) key = None"
        "gs_idem st = (gs_idem (gw_state w))(key \<mapsto> (PENDING_MARKER, t + RESERVATION_TTL))"
      using takes by (auto simp: takes_def)
    then show ?thesis using lease_take [OF later, of key "gw_next w"] Some by (simp add: view_def held_Cons)
  qed
  then show ?case using admitted.IH by (auto simp: world_inv_def)
next
  case (refused w env x e st)
  show ?case
    using inv_leave [OF refused.IH refused.hyps(3,5), of st "[]"] dispatch_idem [OF refused.hyps(6)] by fastforce
next
  case (dispatched w env x reg st)
  have st: "gs_idem st = gs_idem (gw_state w)" using dispatch_idem [OF dispatched.hyps(6)] by auto
  have "held_leases (x\<lparr> rn_registered := Some reg \<rparr> # others x (gw_running w)) \<subseteq> held_leases (gw_running w)"
    using dispatched.hyps(3) by (auto simp: held_leases_def others_def)
  then have "lease_inv ((view w)\<lparr> lv_now := gw_now w, lv_held := held_leases (x\<lparr> rn_registered := Some reg \<rparr> # others x (gw_running w)) \<rparr>)"
    using dispatched.IH by (intro lease_later) (auto simp: world_inv_def view_def)
  then have "lease_inv (view (w\<lparr> gw_state := st, gw_running := x\<lparr> rn_registered := Some reg \<rparr> # others x (gw_running w),
      gw_log := key_event DispatchedAt x (rn_at x) @ gw_log w \<rparr>))"
    by (simp add: view_def completions_key_event st)
  moreover have "distinct (map rn_id (others x (gw_running w)))" "rn_id x < gw_next w"
    using dispatched.IH dispatched.hyps(3) others_facts(1) by (auto simp: world_inv_def)
  moreover have "rn_id x \<notin> rn_id ` set (others x (gw_running w))" "\<forall>y \<in> set (others x (gw_running w)). rn_id y < gw_next w"
    using dispatched.IH by (auto simp: world_inv_def dest: others_facts(2))
  ultimately show ?case by (simp add: world_inv_def)
next
  case (settled w env x reg outcome answer st)
  show ?case
    by (rule inv_leave [OF settled.IH settled.hyps(3,5)])
      (use settle_idem [OF settled.hyps(6,2)] in \<open>auto simp: key_event_def\<close>)
next
  case (died w x)
  have "held_leases (others x (gw_running w)) \<subseteq> held_leases (gw_running w)" using held_others by blast
  then have "lease_inv ((view w)\<lparr> lv_now := gw_now w, lv_held := held_leases (others x (gw_running w)) \<rparr>)"
    using died.IH by (intro lease_later) (auto simp: world_inv_def view_def)
  then show ?case using died.IH others_facts by (auto simp: world_inv_def view_def)
qed

section \<open>No call is repeated\<close>

text \<open>After a call with a key has completed, a dispatch with that key was admitted at least a day later.\<close>

definition log_ok :: "gateway_event list \<Rightarrow> bool" where
  "log_ok es \<longleftrightarrow> (\<forall>later i k r earlier j s. es = later @ DispatchedAt i k r # earlier \<longrightarrow> CompletedAt j k s \<in> set earlier \<longrightarrow>
     s + IDEMPOTENCY_TTL \<le> r)"

lemma log_ok_Cons:
  "log_ok (e # es) \<longleftrightarrow> log_ok es \<and> (\<forall>i k r j s. e = DispatchedAt i k r \<longrightarrow> CompletedAt j k s \<in> set es \<longrightarrow> s + IDEMPOTENCY_TTL \<le> r)"
  unfolding log_ok_def by (auto simp: Cons_eq_append_conv) blast+

lemma gateway_reach_log: "gateway_reach w \<Longrightarrow> log_ok (gw_log w)"
proof (induction rule: gateway_reach.induct)
  case (dispatched w env x reg st)
  have inv: "lease_inv (view w)" using gateway_reach_inv [OF dispatched.hyps(1)] by (simp add: world_inv_def)
  have "s + IDEMPOTENCY_TTL \<le> rn_at x" if "idem_key (rn_call x) = Some k" "CompletedAt j k s \<in> set (gw_log w)" for j k s
    by (rule lease_invD(4) [OF inv, of "rn_id x" k])
      (use that dispatched.hyps(3,5) in \<open>auto simp: view_def held_leases_def completions_def\<close>)
  then show ?case using dispatched.IH by (auto simp: key_event_def log_ok_Cons split: option.splits)
qed (auto simp: key_event_def log_ok_Cons log_ok_def [of "[]"] split: option.splits)

text \<open>C8: A completed call is not repeated. However the calls of the gateway interleave, with any refusals,
  failing connectors, failing Redis commands and dying workers: once a call with an idempotency key has
  answered with its result, another call with that key is dispatched only if it was admitted a day later;
  and at no moment do two running calls hold the same key, as long as each acts within the five
  minutes its reservation lasts.
\<close>

theorem completed_call_not_repeated:
  assumes "gateway_reach w"
  shows "(\<forall>later i k r earlier j s. gw_log w = later @ DispatchedAt i k r # earlier \<longrightarrow> CompletedAt j k s \<in> set earlier \<longrightarrow>
       s + IDEMPOTENCY_TTL \<le> r)
    \<and> (\<forall>x \<in> set (gw_running w). \<forall>y \<in> set (gw_running w). idem_key (rn_call x) \<noteq> None \<longrightarrow>
       idem_key (rn_call x) = idem_key (rn_call y) \<longrightarrow> in_time (gw_now w) (rn_at x) \<longrightarrow> in_time (gw_now w) (rn_at y) \<longrightarrow> x = y)"
proof (intro conjI ballI impI)
  have inv: "world_inv w" by (rule gateway_reach_inv [OF assms])
  fix x y assume xy: "x \<in> set (gw_running w)" "y \<in> set (gw_running w)" "idem_key (rn_call x) \<noteq> None"
    "idem_key (rn_call x) = idem_key (rn_call y)" "in_time (gw_now w) (rn_at x)" "in_time (gw_now w) (rn_at y)"
  then obtain k where k: "idem_key (rn_call x) = Some k" "idem_key (rn_call y) = Some k" by auto
  have "(rn_id x, k, rn_at x) \<in> lv_held (view w)" "(rn_id y, k, rn_at y) \<in> lv_held (view w)"
    using xy(1,2) k by (auto simp: view_def held_leases_def)
  then have "rn_id x = rn_id y" using lease_invD(3) [of "view w"] inv xy(5,6) by (simp add: world_inv_def view_def)
  then show "x = y" using inv xy(1,2) by (auto simp: world_inv_def distinct_map inj_on_def)
qed (use gateway_reach_log [OF assms] in \<open>simp add: log_ok_def\<close>)

text \<open>
  The reservation has no owner. A call that outlives its five minutes drops, when it fails, the reservation
  of the call that took the key after it, and a third call then runs beside the second.
\<close>

lemma late_release_frees_another_call:
  assumes "s k = None"
  shows "let s1 = snd (reserve 0 0 s k); (b2, s2) = reserve 301 301 s1 k; s3 = release s2 k; (b4, s4) = reserve 303 303 s3 k
    in fst b2 \<and> fst b4"
  using assms by (simp add: reserve_def release_def live_entry_def RESERVATION_TTL_def)

section \<open>Sample\<close>

text \<open>One call admitted, dispatched and completed, and the same call again two days later.\<close>

definition relaxed_env :: gateway_env where
  "relaxed_env = sample_gateway_env\<lparr> ga_env := Some ''development'',
     ga_override := sample_override_config\<lparr> oc_parse_uuid := (\<lambda>s. None) \<rparr> \<rparr>"

definition plain_call :: gateway_call where
  "plain_call = sample_call\<lparr> tc_company_id := None, tc_domain := DomainNone \<rparr>"

definition plain_state :: gateway_state where
  "plain_state = sample_gateway\<lparr> gs_connectors := [(''t1'', None, ''jira'') \<mapsto> ''jira''] \<rparr>"

definition sample_key :: string where "sample_key = ''idempotency:t1:_global:k1''"

definition plain_ticket :: ticket where "plain_ticket = \<lparr> tk_params = VDict [], tk_reserved = True \<rparr>"

definition sample_result :: pv where "sample_result = VDict [(''issues'', VList [])]"

lemma plain_key: "idem_key plain_call = Some sample_key"
  by code_simp

lemma plain_scope:
  "fst (check_scope (tc_agent_scopes plain_call) (tc_connector plain_call) (legacy_permission None (tc_tool plain_call))
     (legacy_resource (tc_tool plain_call)) (tc_amount plain_call))"
  by code_simp

lemma plain_ungoverned: "governed relaxed_env plain_call = None"
  by code_simp

lemma plain_gates:
  "restore_gate relaxed_env plain_call st = (Inr (VDict []), st)"
  "override_gate relaxed_env now later plain_call st = (Inr (), st)"
  "mcp_gate relaxed_env plain_call st = (Inr (), st)"
  "governance_gate relaxed_env plain_call st = (Inr None, st)"
  "run_grant_gate relaxed_env plain_call st = (Inr (), st)"
  "rate_gate relaxed_env now plain_call st = (Inr (), st)"
  using plain_ungoverned
  by (simp_all add: restore_gate_def override_gate_def mcp_gate_def governance_gate_def run_grant_gate_def
      rate_gate_def relaxed_env_def sample_gateway_env_def plain_call_def sample_call_def check_override_def as_uuid_def
      ALLOWED_def Let_def)

lemma plain_scope_gate: "scope_gate relaxed_env plain_call None st = (Inr (), st)"
proof -
  have "effective_token relaxed_env plain_call = []" "tc_agent_scopes plain_call \<noteq> []" by code_simp+
  then show ?thesis using plain_scope by (auto simp: scope_gate_def Let_def split: prod.splits bool.splits)
qed

lemma admit_plain:
  assumes "live_entry later (gs_idem st) sample_key = None"
  shows "admit relaxed_env now later plain_call st
    = (Inr plain_ticket, st\<lparr> gs_idem := (gs_idem st)(sample_key \<mapsto> (PENDING_MARKER, later + RESERVATION_TTL)) \<rparr>)"
proof -
  have "ga_idempotency relaxed_env" "ga_idempotency_redis relaxed_env" "ga_reserve_ok relaxed_env"
    by (simp_all add: relaxed_env_def sample_gateway_env_def)
  then show ?thesis
    using assms plain_key
    by (simp add: admit_def then_gate_def plain_gates plain_scope_gate reserve_gate_def reserve_def plain_ticket_def)
qed

lemma dispatch_plain:
  assumes "gs_connectors st (''t1'', None, ''jira'') = Some k"
  shows "dispatch relaxed_env now plain_call plain_ticket st
    = (Inr None, st\<lparr> gs_dispatched := gs_dispatched st @ [(''jira'', ''search_issues'', VDict [])] \<rparr>)"
  using assms
  by (simp add: dispatch_def screen_call_def find_connector_def relaxed_env_def sample_gateway_env_def plain_call_def
      sample_call_def plain_ticket_def)

lemma settle_plain:
  "settle_call relaxed_env now plain_call plain_ticket None (Returned sample_result) st
    = (Result sample_result, audited relaxed_env plain_call ''execute'' ''success''
        (st\<lparr> gs_idem := store_result now (gs_idem st) sample_key sample_result \<rparr>))"
  using plain_key
  by (simp add: settle_call_def relaxed_env_def sample_gateway_env_def sample_result_def has_error_def vget_def dget_def)

definition sample_running :: "nat \<Rightarrow> rat \<Rightarrow> (registration option) option \<Rightarrow> running" where
  "sample_running i r reg = \<lparr> rn_id = i, rn_call = plain_call, rn_ticket = plain_ticket, rn_at = r, rn_registered = reg \<rparr>"

text \<open>The state after an admission at \<open>t\<close>, a dispatch, and a completion at \<open>t\<close>.\<close>

definition admitted_at :: "rat \<Rightarrow> gateway_state \<Rightarrow> gateway_state" where
  "admitted_at t st = st\<lparr> gs_idem := (gs_idem st)(sample_key \<mapsto> (PENDING_MARKER, t + RESERVATION_TTL)) \<rparr>"

definition sent :: "gateway_state \<Rightarrow> gateway_state" where
  "sent st = st\<lparr> gs_dispatched := gs_dispatched st @ [(''jira'', ''search_issues'', VDict [])] \<rparr>"

definition completed_at :: "rat \<Rightarrow> gateway_state \<Rightarrow> gateway_state" where
  "completed_at t st = audited relaxed_env plain_call ''execute'' ''success''
     (st\<lparr> gs_idem := store_result t (gs_idem st) sample_key sample_result \<rparr>)"

lemma sample_reach:
  defines "fin \<equiv> completed_at 0 (sent (admitted_at 0 plain_state))"
  shows "gateway_reach \<lparr> gw_now = 172800, gw_state = sent (admitted_at 172800 fin),
     gw_running = [sample_running (Suc 0) 172800 (Some None)],
     gw_log = [DispatchedAt (Suc 0) sample_key 172800, CompletedAt 0 sample_key 0, DispatchedAt 0 sample_key 0], gw_next = Suc (Suc 0) \<rparr>"
proof -
  have c: "connected relaxed_env" by (simp add: connected_def relaxed_env_def sample_gateway_env_def)
  have t: "in_time t t" for t by (simp add: in_time_def RESERVATION_TTL_def)
  have ev: "key_event f (sample_running i r reg) s = [f i sample_key s]" for f i r reg s
    by (simp add: key_event_def sample_running_def plain_key)
  have k: "gs_connectors plain_state (''t1'', None, ''jira'') = Some ''jira''" "gs_connectors fin (''t1'', None, ''jira'') = Some ''jira''"
    by (simp_all add: fin_def completed_at_def audited_def sent_def admitted_at_def plain_state_def)
  have free: "live_entry 0 (gs_idem plain_state) sample_key = None" "live_entry 172800 (gs_idem fin) sample_key = None"
    by (simp_all add: live_entry_def fin_def completed_at_def audited_def store_result_def IDEMPOTENCY_TTL_def
        plain_state_def sample_gateway_def)
  have "gateway_reach \<lparr> gw_now = 0, gw_state = plain_state, gw_running = [], gw_log = [], gw_next = 0 \<rparr>"
    by (rule gateway_reach.start) (simp add: plain_state_def sample_gateway_def)
  from gateway_reach.admitted [OF this c, of 0 plain_call plain_ticket "admitted_at 0 plain_state"]
  have "gateway_reach \<lparr> gw_now = 0, gw_state = admitted_at 0 plain_state, gw_running = [sample_running 0 0 None], gw_log = [], gw_next = Suc 0 \<rparr>"
    using admit_plain [OF free(1)] by (simp add: admitted_at_def sample_running_def)
  from gateway_reach.dispatched [OF this c, of "sample_running 0 0 None" None "sent (admitted_at 0 plain_state)"]
  have "gateway_reach \<lparr> gw_now = 0, gw_state = sent (admitted_at 0 plain_state), gw_running = [sample_running 0 0 (Some None)],
      gw_log = [DispatchedAt 0 sample_key 0], gw_next = Suc 0 \<rparr>"
    using dispatch_plain [of "admitted_at 0 plain_state"] k(1) t ev
    by (simp add: admitted_at_def sent_def others_def sample_running_def)
  from gateway_reach.settled [OF this c, of "sample_running 0 0 (Some None)" None "Returned sample_result" "Result sample_result" fin]
  have "gateway_reach \<lparr> gw_now = 0, gw_state = fin, gw_running = [], gw_log = [CompletedAt 0 sample_key 0, DispatchedAt 0 sample_key 0],
      gw_next = Suc 0 \<rparr>"
    using settle_plain t ev
    by (simp add: fin_def completed_at_def others_def sample_running_def completes_def sample_result_def has_error_def vget_def dget_def)
  from gateway_reach.tick [OF this, of 172800]
  have "gateway_reach \<lparr> gw_now = 172800, gw_state = fin, gw_running = [], gw_log = [CompletedAt 0 sample_key 0, DispatchedAt 0 sample_key 0],
      gw_next = Suc 0 \<rparr>" by simp
  from gateway_reach.admitted [OF this c, of 172800 plain_call plain_ticket "admitted_at 172800 fin"]
  have "gateway_reach \<lparr> gw_now = 172800, gw_state = admitted_at 172800 fin, gw_running = [sample_running (Suc 0) 172800 None],
      gw_log = [CompletedAt 0 sample_key 0, DispatchedAt 0 sample_key 0], gw_next = Suc (Suc 0) \<rparr>"
    using admit_plain [OF free(2)] by (simp add: admitted_at_def sample_running_def)
  from gateway_reach.dispatched [OF this c, of "sample_running (Suc 0) 172800 None" None "sent (admitted_at 172800 fin)"]
  show ?thesis
    using dispatch_plain [of "admitted_at 172800 fin"] k(2) t ev
    by (simp add: admitted_at_def sent_def others_def sample_running_def)
qed

theorem completed_call_not_repeated_witness: "0 + IDEMPOTENCY_TTL \<le> 172800"
proof -
  note no_repeat = completed_call_not_repeated [OF sample_reach, THEN conjunct1, simplified, rule_format]
  show ?thesis
    using no_repeat [of "[]" "Suc 0" sample_key 172800 "[CompletedAt 0 sample_key 0, DispatchedAt 0 sample_key 0]" 0 0] by simp
qed

end
