(* ===== verification/Tool_Names.thy ===== *)
theory Tool_Names
  imports Grants
begin

text \<open>
  The names of tools (\<open>core/langgraph/tool_adapter.py\<close>, \<open>connectors/registry.py\<close>): which spelling of a tool means which connector
  and tool, the index of the tools a set of connectors offers, and the tools an agent is given.
\<close>

section \<open>Connector classes\<close>

text \<open>A class with the tools it registers and the first line of their documentation, \<open>None\<close> when the registration
  raises, and the external provider it hands calls to.\<close>

record connector_class =
  kc_tools :: "((string \<times> string) list) option"
  kc_residency_provider :: "string option"

record class_registry =
  xr_connectors :: "connector_class dict"
  xr_deprecated :: "connector_class dict"
  xr_composio_tools :: "string dict"

definition registry_get :: "class_registry \<Rightarrow> string \<Rightarrow> connector_class option" where
  "registry_get reg name = (case dget (xr_connectors reg) name of Some k \<Rightarrow> Some k | None \<Rightarrow> dget (xr_deprecated reg) name)"

definition all_names :: "class_registry \<Rightarrow> bool \<Rightarrow> string list" where
  "all_names reg include_deprecated =
     dkeys (xr_connectors reg)
     @ (if include_deprecated then filter (\<lambda>n. \<not> dhas (xr_connectors reg) n) (dkeys (xr_deprecated reg)) else [])"

section \<open>The spelling of a tool\<close>

definition removeprefix :: "string \<Rightarrow> string \<Rightarrow> string" where
  "removeprefix p s = (case after_prefix p s of Some r \<Rightarrow> r | None \<Rightarrow> s)"

definition canonical_connector_name :: "string \<Rightarrow> string" where
  "canonical_connector_name connector_name = lower (strip (removeprefix ''registry-'' connector_name))"

definition split_connector_tool_ref :: "string \<Rightarrow> string option \<times> string" where
  "split_connector_tool_ref tool_ref =
     (let raw = strip tool_ref
      in if prefix ''tool:'' raw then (None, raw)
         else let qualified = (if \<not> contains '':'' raw then (case split1 ''.'' raw of Some (a, b) \<Rightarrow> a @ '':'' @ b | None \<Rightarrow> raw) else raw)
              in case split1 '':'' qualified of
                   None \<Rightarrow> (None, raw)
                 | Some (c, t) \<Rightarrow>
                     let connector_name = canonical_connector_name c; tool_name = strip t
                     in if connector_name = [] \<or> tool_name = [] \<or> contains '':'' tool_name then (None, raw)
                        else (Some connector_name, tool_name))"

definition known_prefix :: "class_registry \<Rightarrow> string \<Rightarrow> bool" where
  "known_prefix reg maybe_connector \<longleftrightarrow>
     prefix ''mcp_'' maybe_connector \<or> registry_get reg (canonical_connector_name maybe_connector) \<noteq> None"

definition parse_authorized_tool_ref :: "class_registry \<Rightarrow> string \<Rightarrow> (string option \<times> string) option" where
  "parse_authorized_tool_ref reg raw =
     (let ref = strip raw
      in if ref = [] then None
         else if prefix ''tool:'' ref then
           (let parts = split_on '':'' ref
            in if length parts \<ge> 4 \<and> parts ! 1 \<noteq> [] \<and> parts ! 3 \<noteq> [] then Some (Some (canonical_connector_name (parts ! 1)), parts ! 3)
               else None)
         else case split_connector_tool_ref ref of
           (Some c, t) \<Rightarrow> Some (Some c, t)
         | (None, t) \<Rightarrow>
             (case split1 ''__'' ref of
                Some (maybe_connector, maybe_tool) \<Rightarrow>
                  if maybe_tool \<noteq> [] \<and> known_prefix reg maybe_connector
                  then Some (Some (canonical_connector_name maybe_connector), maybe_tool) else Some (None, ref)
              | None \<Rightarrow> Some (None, ref)))"

definition authorized_tool_refs :: "class_registry \<Rightarrow> string list \<Rightarrow> (string option \<times> string) list" where
  "authorized_tool_refs reg authorized_tools = List.map_filter (parse_authorized_tool_ref reg) authorized_tools"

definition llm_safe_tool_name :: "string \<Rightarrow> string \<Rightarrow> string" where
  "llm_safe_tool_name connector_name tool_name =
     (if connector_name = [] then tool_name else take 64 (connector_name @ ''__'' @ tool_name))"

section \<open>The index of tools\<close>

type_synonym tool_index = "(string \<times> string) dict"

definition add_first :: "string \<Rightarrow> string \<times> string \<Rightarrow> tool_index \<Rightarrow> tool_index" where
  "add_first k v index = (if dhas index k then index else dset index k v)"

definition add_native_tool :: "bool \<Rightarrow> string \<Rightarrow> tool_index \<Rightarrow> string \<times> string \<Rightarrow> tool_index" where
  "add_native_tool aliases connector_name index tool =
     (let v = (connector_name, snd tool); index1 = add_first (fst tool) v index
      in if aliases then
           dset (dset (dset index1 (connector_name @ '':'' @ fst tool) v) (connector_name @ ''.'' @ fst tool) v)
             (llm_safe_tool_name connector_name (fst tool)) v
         else index1)"

definition admits :: "string list option \<Rightarrow> string \<Rightarrow> bool" where
  "admits allowed name \<longleftrightarrow> (case allowed of None \<Rightarrow> True | Some ns \<Rightarrow> name \<in> set ns)"

definition add_native :: "class_registry \<Rightarrow> string list option \<Rightarrow> bool \<Rightarrow> tool_index \<Rightarrow> string \<Rightarrow> tool_index" where
  "add_native reg allowed aliases index connector_name =
     (if connector_name = ''composio'' \<or> \<not> admits allowed (lower connector_name) then index
      else case registry_get reg connector_name of
             None \<Rightarrow> index
           | Some k \<Rightarrow>
               (case kc_tools k of None \<Rightarrow> index | Some tools \<Rightarrow> foldl (add_native_tool aliases connector_name) index tools))"

text \<open>The reviewed tools of remote MCP servers: by connector, the name and the description of each.\<close>

type_synonym mcp_catalog = "((string \<times> string) list) dict"

definition mcp_tool_ref :: "string \<Rightarrow> string \<Rightarrow> string" where
  "mcp_tool_ref connector tool = connector @ ''__'' @ tool"

definition add_remote_tool :: "bool \<Rightarrow> string \<Rightarrow> tool_index \<Rightarrow> string \<times> string \<Rightarrow> tool_index" where
  "add_remote_tool aliases connector_name index tool =
     (let v = (connector_name, snd tool); index1 = dset index (mcp_tool_ref connector_name (fst tool)) v
      in if aliases then dset index1 (connector_name @ '':'' @ fst tool) v else index1)"

definition add_remote :: "string list option \<Rightarrow> bool \<Rightarrow> tool_index \<Rightarrow> string \<times> (string \<times> string) list \<Rightarrow> tool_index" where
  "add_remote allowed aliases index entry =
     (if allowed = None \<or> \<not> admits allowed (fst entry) then index
      else foldl (add_remote_tool aliases (fst entry)) index (snd entry))"

definition allowed_connectors :: "string list option \<Rightarrow> string list option" where
  "allowed_connectors connector_names = map_option (\<lambda>ns. map canonical_connector_name (filter (\<lambda>n. n \<noteq> []) ns)) connector_names"

definition build_tool_index :: "class_registry \<Rightarrow> mcp_catalog \<Rightarrow> string list option \<Rightarrow> bool \<Rightarrow> tool_index" where
  "build_tool_index reg catalog connector_names aliases =
     (let allowed = allowed_connectors connector_names;
          live_names = all_names reg False;
          deprecated_names = filter (\<lambda>n. n \<notin> set live_names) (all_names reg True);
          native = foldl (add_native reg allowed aliases) [] (deprecated_names @ live_names);
          remote = foldl (add_remote allowed aliases) native catalog
      in if admits allowed ''composio''
         then foldl (\<lambda>index (t, d). add_first t (''composio'', d) index) remote (xr_composio_tools reg)
         else remote)"

definition is_tool_authorized :: "class_registry \<Rightarrow> string list \<Rightarrow> string \<Rightarrow> string \<Rightarrow> bool" where
  "is_tool_authorized reg authorized_tools connector tool =
     (let connector_name = canonical_connector_name connector; tool_name = strip tool;
          refs = authorized_tool_refs reg authorized_tools
      in if connector_name = [] \<or> tool_name = [] then False
         else if (Some connector_name, tool_name) \<in> set refs then True
         else if (None, tool_name) \<notin> set refs then False
         else case dget (build_tool_index reg [] (Some [connector_name]) True) tool_name of
                Some (c, d) \<Rightarrow> c = connector_name
              | None \<Rightarrow> False)"

section \<open>The tools an agent is given\<close>

definition lookup_key :: "string option \<times> string \<Rightarrow> string" where
  "lookup_key ref = (case ref of (Some c, t) \<Rightarrow> if c = [] then t else c @ '':'' @ t | (None, t) \<Rightarrow> t)"

definition hinted :: "string option \<times> string \<Rightarrow> bool" where
  "hinted ref \<longleftrightarrow> fst ref \<noteq> None \<and> fst ref \<noteq> Some []"

text \<open>Each reference that resolves, with the connector it resolves to; references that name the connector make
  the public name qualified.\<close>

definition resolved_refs :: "tool_index \<Rightarrow> (string option \<times> string) list \<Rightarrow> (bool \<times> string \<times> string) list" where
  "resolved_refs index refs =
     List.map_filter (\<lambda>ref. map_option (\<lambda>m. (hinted ref, fst m, snd ref)) (dget index (lookup_key ref))) refs"

definition build_tools_for_agent ::
    "class_registry \<Rightarrow> mcp_catalog \<Rightarrow> string list \<Rightarrow> string list option \<Rightarrow> (string \<times> string \<times> string) list" where
  "build_tools_for_agent reg catalog authorized_tools connector_names =
     (let index = build_tool_index reg catalog connector_names True;
          resolved = resolved_refs index (authorized_tool_refs reg authorized_tools);
          qualified_pairs = map snd (filter fst resolved)
      in map (\<lambda>(c, t). (if (c, t) \<in> set qualified_pairs then llm_safe_tool_name c t else t, c, t))
           (fromkeys (map snd resolved)))"

subsection \<open>Every spelling means the same\<close>

definition plain_connector :: "string \<Rightarrow> bool" where
  "plain_connector c \<longleftrightarrow> c \<noteq> [] \<and> canonical_connector_name c = c \<and> strip c = c \<and> CHR '':'' \<notin> set c \<and> CHR ''.'' \<notin> set c \<and> c \<noteq> ''tool''"

definition plain_tool :: "string \<Rightarrow> bool" where
  "plain_tool t \<longleftrightarrow> t \<noteq> [] \<and> strip t = t \<and> CHR '':'' \<notin> set t \<and> CHR ''.'' \<notin> set t"

lemma split1_one: "split1 [x] s = (if x \<in> set s then Some (takeWhile (\<lambda>c. c \<noteq> x) s, tl (dropWhile (\<lambda>c. c \<noteq> x) s)) else None)"
  by (induction s) auto

lemma contains_one [simp]: "contains [x] s \<longleftrightarrow> x \<in> set s"
  by (simp add: contains_def split1_one)

lemma split1_at: "x \<notin> set a \<Longrightarrow> split1 [x] (a @ x # b) = Some (a, b)"
  by (induction a) auto

lemma split_on_at: "x \<notin> set a \<Longrightarrow> split_on [x] (a @ x # b) = a # split_on [x] b"
  by (subst split_on.simps) (simp add: split1_at)

lemma split_on_single: "x \<notin> set a \<Longrightarrow> split_on [x] a = [a]"
  by (subst split_on.simps) (simp add: split1_one)

lemma strip_ends: "strip s \<noteq> [] \<Longrightarrow> \<not> is_space (hd (strip s)) \<and> \<not> is_space (last (strip s))"
proof -
  assume ne: "strip s \<noteq> []"
  let ?x = "dropWhile is_space s"
  have y: "dropWhile is_space (rev ?x) \<noteq> []" using ne by (simp add: strip_def)
  then have "\<not> is_space (last (strip s))" using hd_dropWhile [OF y] by (simp add: strip_def last_rev)
  moreover obtain tail where "?x = strip s @ tail"
    by (metis strip_def rev_append rev_rev_ident takeWhile_dropWhile_id)
  then have "hd (strip s) = hd ?x" "?x \<noteq> []" using ne by auto
  then have "\<not> is_space (hd (strip s))" using hd_dropWhile [of is_space s] by simp
  ultimately show ?thesis by simp
qed

lemma strip_same: "s \<noteq> [] \<Longrightarrow> strip s = s \<longleftrightarrow> \<not> is_space (hd s) \<and> \<not> is_space (last s)"
proof
  assume "s \<noteq> []" "strip s = s"
  then show "\<not> is_space (hd s) \<and> \<not> is_space (last s)" by (metis strip_ends)
next
  assume s: "s \<noteq> []" and e: "\<not> is_space (hd s) \<and> \<not> is_space (last s)"
  then have "dropWhile is_space s = s" by (cases s) auto
  moreover have "dropWhile is_space (rev s) = rev s" using s e by (cases s rule: rev_cases) auto
  ultimately show "strip s = s" by (simp add: strip_def)
qed

lemma strip_join: "a \<noteq> [] \<Longrightarrow> b \<noteq> [] \<Longrightarrow> strip a = a \<Longrightarrow> strip b = b \<Longrightarrow> strip (a @ m @ b) = a @ m @ b"
  by (simp add: strip_same)

lemma tool_prefix: "CHR '':'' \<notin> set c \<Longrightarrow> prefix ''tool:'' (c @ CHR '':'' # t) \<longleftrightarrow> c = ''tool''"
  by (auto simp: prefix_def append_eq_append_conv2 append_eq_Cons_conv Cons_eq_append_conv)

lemma prefix_has_colon: "prefix ''tool:'' s \<Longrightarrow> CHR '':'' \<in> set s"
  by (auto simp: prefix_def)

lemma split1_underscores: "\<not> contains ''__'' (c @ ''_'') \<Longrightarrow> split1 ''__'' (c @ ''__'' @ t) = Some (c, t)"
proof (induction c)
  case (Cons x c)
  have "\<not> prefix ''__'' (x # c @ ''__'' @ t)" using Cons.prems by (cases c) (auto simp: contains_def split: if_splits)
  moreover have "\<not> contains ''__'' (c @ ''_'')" using Cons.prems by (auto simp: contains_def split: if_splits)
  ultimately show ?case using Cons.IH by simp
qed simp

lemma split_qualified:
  assumes "plain_connector c" "plain_tool t"
  shows "split_connector_tool_ref (c @ '':'' @ t) = (Some c, t)" "split_connector_tool_ref (c @ ''.'' @ t) = (Some c, t)"
proof -
  have c: "c \<noteq> []" "canonical_connector_name c = c" "CHR '':'' \<notin> set c" "CHR ''.'' \<notin> set c" "c \<noteq> ''tool''" "strip c = c"
    and t: "t \<noteq> []" "strip t = t" "CHR '':'' \<notin> set t" "CHR ''.'' \<notin> set t"
    using assms by (auto simp: plain_connector_def plain_tool_def)
  have s: "strip (c @ '':'' @ t) = c @ '':'' @ t" "strip (c @ ''.'' @ t) = c @ ''.'' @ t"
    by (rule strip_join [OF c(1) t(1) c(6) t(2)])+
  have "\<not> prefix ''tool:'' (c @ '':'' @ t)" using tool_prefix [OF c(3)] c(5) by simp
  then show "split_connector_tool_ref (c @ '':'' @ t) = (Some c, t)"
    unfolding split_connector_tool_ref_def s Let_def using c t by (simp add: split1_at)
  have "\<not> prefix ''tool:'' (c @ ''.'' @ t)"
    using prefix_has_colon [of "c @ ''.'' @ t"] c(3) t(3) by auto
  then show "split_connector_tool_ref (c @ ''.'' @ t) = (Some c, t)"
    unfolding split_connector_tool_ref_def s Let_def using c t by (simp add: split1_at)
qed

text \<open>C37: Every spelling of a tool means the same. A connector and a tool with plain names are read back from
  \<open>connector:tool\<close>, \<open>connector.tool\<close>, the Grantex scope \<open>tool:connector:permission:tool\<close> and, for a registered
  connector whose name does not clash with the separator, \<open>connector__tool\<close>.
\<close>

theorem tool_spellings_agree:
  assumes "plain_connector c" "plain_tool t" "CHR '':'' \<notin> set permission"
  shows "parse_authorized_tool_ref reg (c @ '':'' @ t) = Some (Some c, t)
    \<and> parse_authorized_tool_ref reg (c @ ''.'' @ t) = Some (Some c, t)
    \<and> parse_authorized_tool_ref reg (''tool:'' @ c @ '':'' @ permission @ '':'' @ t) = Some (Some c, t)
    \<and> (registry_get reg c \<noteq> None \<and> \<not> contains ''__'' (c @ ''_'') \<longrightarrow>
         parse_authorized_tool_ref reg (c @ ''__'' @ t) = Some (Some c, t))"
proof -
  have c: "c \<noteq> []" "canonical_connector_name c = c" "CHR '':'' \<notin> set c" "CHR ''.'' \<notin> set c" "c \<noteq> ''tool''" "strip c = c"
    and t: "t \<noteq> []" "strip t = t" "CHR '':'' \<notin> set t" "CHR ''.'' \<notin> set t"
    using assms by (auto simp: plain_connector_def plain_tool_def)
  have s: "strip (c @ m @ t) = c @ m @ t" for m by (rule strip_join [OF c(1) t(1) c(6) t(2)])
  have colon: "parse_authorized_tool_ref reg (c @ '':'' @ t) = Some (Some c, t)"
    unfolding parse_authorized_tool_ref_def Let_def s split_qualified [OF assms(1,2)] using tool_prefix [OF c(3)] c(1,5) by simp
  have none: "\<not> prefix ''tool:'' (c @ ''.'' @ t)" "\<not> prefix ''tool:'' (c @ ''__'' @ t)"
    using prefix_has_colon [of "c @ ''.'' @ t"] prefix_has_colon [of "c @ ''__'' @ t"] c(3) t(3) by auto
  have dot: "parse_authorized_tool_ref reg (c @ ''.'' @ t) = Some (Some c, t)"
    unfolding parse_authorized_tool_ref_def Let_def s split_qualified [OF assms(1,2)] using none c(1) by simp
  have "strip (''tool:'' @ (c @ '':'' @ permission @ '':'') @ t) = ''tool:'' @ (c @ '':'' @ permission @ '':'') @ t"
    by (rule strip_join [OF _ t(1) _ t(2)]) (simp, code_simp)
  moreover have "split_on '':'' (''tool'' @ CHR '':'' # c @ CHR '':'' # permission @ CHR '':'' # t) = [''tool'', c, permission, t]"
    using split_on_at [of "CHR '':''" "''tool''"] by (simp add: split_on_at split_on_single c(3) assms(3) t(3) del: append_Cons)
  ultimately have scope: "parse_authorized_tool_ref reg (''tool:'' @ c @ '':'' @ permission @ '':'' @ t) = Some (Some c, t)"
    unfolding parse_authorized_tool_ref_def Let_def using c t by simp
  have "parse_authorized_tool_ref reg (c @ ''__'' @ t) = Some (Some c, t)"
    if reg: "registry_get reg c \<noteq> None" "\<not> contains ''__'' (c @ ''_'')"
  proof -
    have "split_connector_tool_ref (c @ ''__'' @ t) = (None, c @ ''__'' @ t)"
      unfolding split_connector_tool_ref_def Let_def s using none c t by (simp add: split1_one)
    then show ?thesis
      unfolding parse_authorized_tool_ref_def Let_def s split1_underscores [OF reg(2)]
      using none c t reg(1) by (simp add: known_prefix_def)
  qed
  with colon dot scope show ?thesis by blast
qed

definition sample_classes :: class_registry where
  "sample_classes = \<lparr> xr_connectors = [(''gmail'', \<lparr> kc_tools = Some [(''send_email'', ''Send'')], kc_residency_provider = None \<rparr>),
       (''jira'', \<lparr> kc_tools = Some [(''search_issues'', ''Search''), (''send_email'', ''Mail'')], kc_residency_provider = None \<rparr>)],
     xr_deprecated = [], xr_composio_tools = [] \<rparr>"

theorem tool_spellings_agree_witness:
  "parse_authorized_tool_ref sample_classes ''gmail:send_email'' = parse_authorized_tool_ref sample_classes ''gmail__send_email''
    \<and> parse_authorized_tool_ref sample_classes ''tool:gmail:write:send_email'' = Some (Some ''gmail'', ''send_email'')"
proof -
  have "plain_connector ''gmail''" "plain_tool ''send_email''" "CHR '':'' \<notin> set ''write''"
    "registry_get sample_classes ''gmail'' \<noteq> None" "\<not> contains ''__'' (''gmail'' @ ''_'')" by code_simp+
  from tool_spellings_agree [OF this(1-3), of sample_classes] this(4,5) show ?thesis by simp
qed

subsection \<open>An agent's tools come from its connectors\<close>

definition index_in :: "string set \<Rightarrow> tool_index \<Rightarrow> bool" where
  "index_in A index \<longleftrightarrow> (\<forall>e \<in> set index. fst (snd e) \<in> A)"

lemma dset_elems: "e \<in> set (dset d k v) \<Longrightarrow> e = (k, v) \<or> e \<in> set d"
  by (induction d) (auto split: if_splits)

lemma index_in_dset: "index_in A index \<Longrightarrow> fst v \<in> A \<Longrightarrow> index_in A (dset index k v)"
  unfolding index_in_def using dset_elems [of _ index k v] by fastforce

lemma index_in_foldl:
  assumes "index_in A index" "\<And>i x. x \<in> set xs \<Longrightarrow> index_in A i \<Longrightarrow> index_in A (f i x)"
  shows "index_in A (foldl f index xs)"
  using assms by (induction xs arbitrary: index) auto

lemma add_first_in: "index_in A index \<Longrightarrow> fst v \<in> A \<Longrightarrow> index_in A (add_first k v index)"
  by (simp add: add_first_def index_in_dset)

lemma add_native_tool_in: "index_in A index \<Longrightarrow> c \<in> A \<Longrightarrow> index_in A (add_native_tool aliases c index tool)"
  by (simp add: add_native_tool_def Let_def index_in_dset add_first_in)

lemma add_remote_tool_in: "index_in A index \<Longrightarrow> c \<in> A \<Longrightarrow> index_in A (add_remote_tool aliases c index tool)"
  by (simp add: add_remote_tool_def Let_def index_in_dset)

definition permitted :: "string list option \<Rightarrow> string set" where
  "permitted allowed = {c. admits allowed c \<or> admits allowed (lower c)}"

lemma add_native_in: "index_in (permitted allowed) index \<Longrightarrow> index_in (permitted allowed) (add_native reg allowed aliases index c)"
  by (auto simp: add_native_def permitted_def intro!: index_in_foldl add_native_tool_in split: option.splits)

lemma add_remote_in: "index_in (permitted allowed) index \<Longrightarrow> index_in (permitted allowed) (add_remote allowed aliases index entry)"
  by (auto simp: add_remote_def permitted_def intro!: index_in_foldl add_remote_tool_in)

lemma build_tool_index_in: "index_in (permitted (allowed_connectors names)) (build_tool_index reg catalog names aliases)"
proof -
  let ?A = "permitted (allowed_connectors names)"
  have native: "index_in ?A (foldl (add_native reg (allowed_connectors names) aliases) [] cs)" for cs
    by (rule index_in_foldl) (simp_all add: index_in_def [of _ "[]"] add_native_in)
  have remote: "index_in ?A (foldl (add_remote (allowed_connectors names) aliases) i catalog)" if "index_in ?A i" for i
    using that by (rule index_in_foldl) (rule add_remote_in)
  have composio: "index_in ?A (foldl (\<lambda>index (t, d). add_first t (''composio'', d) index) i xs)"
    if "index_in ?A i" "admits (allowed_connectors names) ''composio''" for i xs
    using that by (intro index_in_foldl) (auto simp: permitted_def intro: add_first_in)
  show ?thesis unfolding build_tool_index_def Let_def by (simp add: native remote composio del: foldl_append)
qed

lemma resolved_refs_facts:
  assumes "(q, c, t) \<in> set (resolved_refs index refs)" "index_in A index"
  shows "c \<in> A \<and> (\<exists>h. (h, t) \<in> set refs)"
proof -
  obtain ref m where r: "ref \<in> set refs" "dget index (lookup_key ref) = Some m" "c = fst m" "t = snd ref"
    using assms(1) by (auto simp: resolved_refs_def map_filter_def split: option.splits)
  have "(lookup_key ref, m) \<in> set index" using r(2) by (simp add: dget_def map_of_SomeD)
  then show ?thesis using assms(2) r by (auto simp: index_in_def) (metis prod.collapse)
qed

text \<open>An agent is given only tools of its connectors, and each once. When a run has resolved the agent's connectors, every
  tool built for it belongs to one of them, whatever the deprecated and aliased names, the remote servers and
  the tool hub offer (so that an agent with no live connector has no tool); it was named by an authorized
  reference; and no connector and tool are registered twice.
\<close>

theorem agent_tools_within_connectors:
  "distinct (map snd (build_tools_for_agent reg catalog authorized_tools (Some connector_names)))
   \<and> (\<forall>(name, c, t) \<in> set (build_tools_for_agent reg catalog authorized_tools (Some connector_names)).
        (\<exists>n \<in> set connector_names. canonical_connector_name n \<in> {c, lower c})
        \<and> (\<exists>raw \<in> set authorized_tools. map_option snd (parse_authorized_tool_ref reg raw) = Some t))"
proof -
  let ?index = "build_tool_index reg catalog (Some connector_names) True"
  let ?refs = "authorized_tool_refs reg authorized_tools"
  have pairs: "map snd (build_tools_for_agent reg catalog authorized_tools (Some connector_names))
      = fromkeys (map snd (resolved_refs ?index ?refs))"
    by (simp add: build_tools_for_agent_def Let_def comp_def case_prod_unfold)
  have "distinct (fromkeys xs)" for xs :: "'a list" by (induction xs rule: fromkeys.induct) auto
  moreover have "(\<exists>n \<in> set connector_names. canonical_connector_name n \<in> {c, lower c})
      \<and> (\<exists>raw \<in> set authorized_tools. map_option snd (parse_authorized_tool_ref reg raw) = Some t)"
    if "(name, c, t) \<in> set (build_tools_for_agent reg catalog authorized_tools (Some connector_names))" for name c t
  proof -
    have "(c, t) \<in> set (map snd (build_tools_for_agent reg catalog authorized_tools (Some connector_names)))" using that by force
    then obtain q where "(q, c, t) \<in> set (resolved_refs ?index ?refs)" unfolding pairs set_fromkeys by auto
    from resolved_refs_facts [OF this build_tool_index_in] obtain h where
      "c \<in> permitted (allowed_connectors (Some connector_names))" "(h, t) \<in> set ?refs" by blast
    then show ?thesis
      by (auto simp: permitted_def admits_def allowed_connectors_def authorized_tool_refs_def map_filter_def split: option.splits)
        (metis option.map(2) snd_conv)+
  qed
  ultimately show ?thesis unfolding pairs by blast
qed

definition sample_refs :: "string list" where
  "sample_refs = [''gmail.send_email'', ''send_email'', ''search_issues'']"

definition sample_names :: "string list" where
  "sample_names = [''registry-gmail'']"

theorem agent_tools_within_connectors_witness:
  "build_tools_for_agent sample_classes [] sample_refs (Some sample_names) = [(''gmail__send_email'', ''gmail'', ''send_email'')]
   \<and> (\<exists>n \<in> set sample_names. canonical_connector_name n \<in> {''gmail'', lower ''gmail''})"
proof -
  have x: "build_tools_for_agent sample_classes [] sample_refs (Some sample_names) = [(''gmail__send_email'', ''gmail'', ''send_email'')]"
    by code_simp
  then show ?thesis using agent_tools_within_connectors [of sample_classes "[]" sample_refs sample_names] by auto
qed

end
