(* ===== verification/Tool_Adapter.thy ===== *)
theory Tool_Adapter
  imports Tool_Gateway Tool_Names
begin

text \<open>
  The tool adapter (\<open>core/langgraph/tool_adapter.py\<close>): the second boundary of tool calls, which agents without a gateway and the
  connector steps of workflows use. A call meets the operator override, the action guardrail, the tool registry, the action
  policy and the residency check before a cached client executes it, and is repeated once on a fresh client
  after a transport error. An agent's call is also checked against the agent's tools and the grant of its run.
\<close>

section \<open>What a connector raises\<close>

text \<open>
  What an execution can raise: an HTTP status with the body (when it is JSON) and the reason phrase, one of the transport
  errors that make a cached client unusable, another timeout or request error of the HTTP client, or anything else.
\<close>

datatype connector_error =
    HttpStatus nat "pv option" string
  | Transport string
  | ClientTimeout string
  | RequestError string
  | OtherError string string

text \<open>\<open>redact\<close> is the substitution of secrets in a text, \<open>text\<close> the text of a value.\<close>

record error_text =
  et_redact :: "string \<Rightarrow> string"
  et_text :: "pv \<Rightarrow> string"

definition sanitize_error_text :: "error_text \<Rightarrow> pv \<Rightarrow> string" where
  "sanitize_error_text E value = take 300 (et_redact E (strip (if truthy value then et_text E value else [])))"

fun first_nonempty :: "string list \<Rightarrow> string" where
  "first_nonempty [] = []"
| "first_nonempty (s # ss) = (if s = [] then first_nonempty ss else s)"

text \<open>The message of a dictionary, given the messages found inside its values.\<close>

definition blank :: "pv \<Rightarrow> bool" where
  "blank v = (case v of VStr s \<Rightarrow> strip s = [] | _ \<Rightarrow> True)"

definition dict_message :: "error_text \<Rightarrow> (pv \<times> string) dict \<Rightarrow> string" where
  "dict_message E d =
     (let value = (\<lambda>k. case dget d k of Some (v, m) \<Rightarrow> v | None \<Rightarrow> VNone);
          inner = (\<lambda>k. case dget d k of Some (v, m) \<Rightarrow> m | None \<Rightarrow> [])
      in case find (\<lambda>k. \<not> blank (value k)) [''message'', ''error_description'', ''detail'', ''reason''] of
           Some k \<Rightarrow> sanitize_error_text E (value k)
         | None \<Rightarrow>
             if \<not> blank (value ''error'') then sanitize_error_text E (value ''error'')
             else let from_error = (case value ''error'' of VDict e \<Rightarrow> inner ''error'' | _ \<Rightarrow> []);
                      from_errors = (case value ''errors'' of VList es \<Rightarrow> inner ''errors'' | _ \<Rightarrow> [])
                  in if from_error \<noteq> [] then from_error
                     else if from_errors \<noteq> [] then from_errors
                     else if value ''code'' \<in> {VNone, VStr []} then [] else sanitize_error_text E (value ''code''))"

fun provider_error_message :: "error_text \<Rightarrow> pv \<Rightarrow> string" where
  "provider_error_message E (VDict d) = dict_message E (map (\<lambda>(k, v). (k, v, provider_error_message E v)) d)"
| "provider_error_message E (VList vs) = first_nonempty (map (provider_error_message E) vs)"
| "provider_error_message E v = []"

definition classify_http_error :: "nat \<Rightarrow> string \<Rightarrow> string" where
  "classify_http_error status_code provider_message =
     (let lowered = lower provider_message
      in if status_code = 401 then
           (if contains ''expired'' lowered then ''expired_token''
            else if contains ''invalid'' lowered \<or> contains ''malformed'' lowered then ''invalid_access_token''
            else ''authentication_failed'')
         else if status_code = 403 then ''missing_permissions''
         else if status_code = 400 then
           (if contains ''payload'' lowered \<or> contains ''validation'' lowered \<or> contains ''required'' lowered then ''invalid_payload''
            else ''api_validation_failed'')
         else if status_code = 404 then ''invalid_endpoint_or_resource''
         else if status_code = 429 then ''rate_limited''
         else if 500 \<le> status_code then ''upstream_server_error''
         else ''upstream_http_error'')"

definition error_fields :: "string \<Rightarrow> string \<Rightarrow> string \<Rightarrow> string \<Rightarrow> string \<Rightarrow> pv" where
  "error_fields label message connector tool error_class =
     VDict [(''error'', VStr label), (''message'', VStr message), (''connector'', VStr connector), (''tool'', VStr tool),
       (''error_class'', VStr error_class)]"

definition timeout_payload :: "string \<Rightarrow> string \<Rightarrow> string \<Rightarrow> pv" where
  "timeout_payload connector tool error_class =
     error_fields ''upstream_timeout'' (connector @ ''.'' @ tool @ '' timed out while calling the upstream API.'') connector tool error_class"

definition request_payload :: "string \<Rightarrow> string \<Rightarrow> string \<Rightarrow> pv" where
  "request_payload connector tool error_class =
     error_fields ''upstream_connection_error'' (connector @ ''.'' @ tool @ '' could not reach the upstream API ('' @ error_class @ '').'')
       connector tool error_class"

text \<open>A \<open>PoolTimeout\<close> is a transport error and a timeout; the other transport errors are request errors.\<close>

definition connector_exception_payload :: "error_text \<Rightarrow> string \<Rightarrow> string \<Rightarrow> connector_error \<Rightarrow> pv" where
  "connector_exception_payload E connector tool exc =
     (case exc of
        HttpStatus status_code payload reason_phrase \<Rightarrow>
          (let found = (case payload of Some v \<Rightarrow> provider_error_message E v | None \<Rightarrow> []);
               provider_message = (if found = [] then sanitize_error_text E (VStr reason_phrase) else found)
           in VDict [(''error'', VStr (classify_http_error status_code provider_message)),
                (''message'', VStr (''Upstream '' @ connector @ '' API returned HTTP '' @ str_nat status_code
                   @ (if provider_message = [] then ''.'' else '': '' @ provider_message))),
                (''http_status'', VInt (int status_code)), (''connector'', VStr connector), (''tool'', VStr tool),
                (''error_class'', VStr ''HTTPStatusError'')])
      | Transport k \<Rightarrow> if k = ''PoolTimeout'' then timeout_payload connector tool k else request_payload connector tool k
      | ClientTimeout k \<Rightarrow> timeout_payload connector tool k
      | RequestError k \<Rightarrow> request_payload connector tool k
      | OtherError k msg \<Rightarrow>
          (let detail = sanitize_error_text E (VStr msg)
           in error_fields ''connector_tool_execution_failed''
                (connector @ ''.'' @ tool @ '' failed: '' @ k @ (if detail = [] then [] else '': '' @ detail)) connector tool k))"

section \<open>A call\<close>

record adapter_call =
  xc_connector :: string
  xc_tool :: string
  xc_params :: pv
  xc_config :: "pv dict"
  xc_tenant_id :: "string option"
  xc_company_id :: "string option"
  xc_domain :: domain_arg
  xc_authorization :: "capability_authorization option"
  xc_agent_id :: string

text \<open>A client: the class it is an instance of, its configuration, and the scope it was built in.\<close>

record connector_client =
  kl_connector :: string
  kl_config :: "pv dict"
  kl_tenant_id :: "string option"
  kl_company_id :: "string option"

text \<open>
  What a call meets. \<open>xe_guard\<close> is the action stage of the guardrails, which passes, blocks with a reason and the rule, or raises;
  \<open>xe_residency\<close> the attestation check for an external provider, with the refusal when it blocks; \<open>xe_remote\<close> the
  remote MCP path; \<open>xe_dumps\<close> \<open>json.dumps\<close> with sorted keys. \<open>xe_connect\<close> and \<open>xe_execute\<close> answer for the first (0) and the
  second (1) attempt of the call; a constructor may raise, a failed connection is \<open>False\<close>. \<open>xe_late\<close> says that the
  envelope of a registered tool ran out, before the call was made (\<open>False\<close>) or after (\<open>True\<close>).
\<close>

record adapter_env =
  xe_env :: "string option"
  xe_override :: override_config
  xe_answers :: world_answers
  xe_guard :: "adapter_call \<Rightarrow> (string, (string \<times> pv) option) res"
  xe_registry :: registry_env
  xe_registry_settings :: registry_settings
  xe_registry_rows :: "(registration_row list) option"
  xe_before :: set_order
  xe_parse_uuid :: uuid_parser
  xe_flags :: flag_resolver
  xe_remote :: "adapter_call \<Rightarrow> (string, pv) res"
  xe_classes :: class_registry
  xe_residency :: "string option \<Rightarrow> string \<Rightarrow> (string, pv option) res"
  xe_dumps :: "pv \<Rightarrow> (string, string) res"
  xe_connect :: "connector_client \<Rightarrow> nat \<Rightarrow> (string, bool) res"
  xe_execute :: "connector_client \<Rightarrow> adapter_call \<Rightarrow> nat \<Rightarrow> (connector_error, pv) res"
  xe_late :: "bool option"
  xe_errors :: error_text

record adapter_state =
  xs_override :: override_state
  xs_registry :: registry_cache
  xs_clients :: "connector_client dict"
  xs_executed :: "(connector_client \<times> adapter_call) list"
  xs_delegated :: "adapter_call list"
  xs_audit :: "(string \<times> string \<times> string) list"

definition CONNECTOR_CACHE_MAX_SIZE :: nat where "CONNECTOR_CACHE_MAX_SIZE = 128"

definition store_connector_cache :: "string \<Rightarrow> connector_client \<Rightarrow> connector_client dict \<Rightarrow> connector_client dict" where
  "store_connector_cache key k clients =
     (if \<not> dhas clients key \<and> length clients \<ge> CONNECTOR_CACHE_MAX_SIZE then dset (tl clients) key k else dset clients key k)"

definition scope_text :: "string option \<Rightarrow> string" where
  "scope_text v = text_or (case v of Some s \<Rightarrow> s | None \<Rightarrow> []) ''_global''"

definition cache_key :: "string option \<Rightarrow> string option \<Rightarrow> string \<Rightarrow> string \<Rightarrow> string" where
  "cache_key tenant_id company_id connector_name config_fingerprint =
     scope_text tenant_id @ '':'' @ scope_text company_id @ '':'' @ connector_name @ '':'' @ config_fingerprint"

definition client_of :: "adapter_call \<Rightarrow> connector_client" where
  "client_of c = \<lparr> kl_connector = xc_connector c, kl_config = xc_config c, kl_tenant_id = xc_tenant_id c, kl_company_id = xc_company_id c \<rparr>"

definition executed :: "connector_client \<Rightarrow> adapter_call \<Rightarrow> adapter_state \<Rightarrow> adapter_state" where
  "executed k c st = st\<lparr> xs_executed := xs_executed st @ [(k, c)] \<rparr>"

definition audit_refusal :: "adapter_call \<Rightarrow> string \<Rightarrow> adapter_state \<Rightarrow> adapter_state" where
  "audit_refusal c action st =
     st\<lparr> xs_audit := xs_audit st @ [((case xc_tenant_id c of Some t \<Rightarrow> t | None \<Rightarrow> []), xc_tool c, action)] \<rparr>"

definition plain_error :: "string \<Rightarrow> pv" where
  "plain_error message = VDict [(''error'', VStr message)]"

definition exec_answer :: "adapter_env \<Rightarrow> adapter_call \<Rightarrow> (connector_error, pv) res \<Rightarrow> pv" where
  "exec_answer env c outcome =
     (case outcome of Inr v \<Rightarrow> v | Inl e \<Rightarrow> connector_exception_payload (xe_errors env) (xc_connector c) (xc_tool c) e)"

text \<open>The second attempt: the client is evicted, built again and asked once more.\<close>

definition retry_fresh ::
    "adapter_env \<Rightarrow> adapter_call \<Rightarrow> string \<Rightarrow> string \<Rightarrow> adapter_state \<Rightarrow> (string, pv) res \<times> adapter_state" where
  "retry_fresh env c key error_class st0 =
     (let st = st0\<lparr> xs_clients := filter (\<lambda>e. fst e \<noteq> key) (xs_clients st0) \<rparr>; fresh = client_of c
      in case xe_connect env fresh 1 of
           Inl e \<Rightarrow> (Inl e, st)
         | Inr False \<Rightarrow>
             (Inr (VDict [(''error'', VStr (''Tool execution failed: '' @ error_class
                @ '' and reconnect attempt also failed. The upstream service may be unreachable.'')),
                (''error_class'', VStr ''transport_reconnect_failed'')]), st)
         | Inr True \<Rightarrow>
             (Inr (exec_answer env c (xe_execute env fresh c 1)),
              executed fresh c (st\<lparr> xs_clients := store_connector_cache key fresh (xs_clients st) \<rparr>)))"

definition execute_on ::
    "adapter_env \<Rightarrow> adapter_call \<Rightarrow> string \<Rightarrow> connector_client \<Rightarrow> adapter_state \<Rightarrow> (string, pv) res \<times> adapter_state" where
  "execute_on env c key k st0 =
     (let st = executed k c st0
      in case xe_execute env k c 0 of
           Inl (Transport e) \<Rightarrow> retry_fresh env c key e st
         | outcome \<Rightarrow> (Inr (exec_answer env c outcome), st))"

definition call_connector :: "adapter_env \<Rightarrow> adapter_call \<Rightarrow> adapter_state \<Rightarrow> (string, pv) res \<times> adapter_state" where
  "call_connector env c st =
     (case xe_dumps env (VDict (xc_config c)) of
        Inl e \<Rightarrow> (Inl e, st)
      | Inr fingerprint \<Rightarrow>
          (let key = cache_key (xc_tenant_id c) (xc_company_id c) (xc_connector c) fingerprint
           in case dget (xs_clients st) key of
                Some k \<Rightarrow> execute_on env c key k st
              | None \<Rightarrow>
                  (case xe_connect env (client_of c) 0 of
                     Inl e \<Rightarrow> (Inl e, st)
                   | Inr False \<Rightarrow> (Inr (plain_error (''Failed to connect to '' @ xc_connector c)), st)
                   | Inr True \<Rightarrow> execute_on env c key (client_of c)
                       (st\<lparr> xs_clients := store_connector_cache key (client_of c) (xs_clients st) \<rparr>))))"

definition adapter_decision :: "adapter_env \<Rightarrow> adapter_call \<Rightarrow> action_decision" where
  "adapter_decision env c =
     evaluate_action (xe_before env) (xe_parse_uuid env) (xc_connector c @ '':'' @ xc_tool c)
       \<lparr> ctx_tenant_id = (case xc_tenant_id c of None \<Rightarrow> UuidNone | Some t \<Rightarrow> UuidText t),
         ctx_company_id = (case xc_company_id c of None \<Rightarrow> UuidNone | Some i \<Rightarrow> UuidText i),
         ctx_domain = xc_domain c, ctx_runtime_env = xe_env env \<rparr>
       (xc_authorization c) (Some (xe_flags env))"

definition adapter_governed :: "adapter_env \<Rightarrow> adapter_call \<Rightarrow> bool" where
  "adapter_governed env c \<longleftrightarrow> is_strict_runtime_env (xe_env env) \<or> xc_tenant_id c \<noteq> None \<or> xc_company_id c \<noteq> None \<or> xc_domain c \<noteq> DomainNone"

definition dispatch_checked_tool :: "adapter_env \<Rightarrow> adapter_call \<Rightarrow> adapter_state \<Rightarrow> (string, pv) res \<times> adapter_state" where
  "dispatch_checked_tool env c st =
     (if prefix ''mcp_'' (xc_connector c) then (xe_remote env c, st\<lparr> xs_delegated := xs_delegated st @ [c] \<rparr>)
      else if adapter_governed env c \<and> \<not> dispatch_allowed (adapter_decision env c) then
        (Inr (VDict [(''error'', VStr ''action_contained''),
           (''message'', VStr (''Connector action contained: '' @ ad_reason (adapter_decision env c))),
           (''governance'', decision_dict (adapter_decision env c))]), st)
      else case registry_get (xe_classes env) (xc_connector c) of
        None \<Rightarrow> (Inr (plain_error (''Connector '' @ CHR 0x27 # xc_connector c @ CHR 0x27 # '' not found in registry'')), st)
      | Some k \<Rightarrow>
          (case (case kc_residency_provider k of None \<Rightarrow> Inr None | Some p \<Rightarrow> if p = [] then Inr None else xe_residency env (xc_tenant_id c) p) of
             Inl e \<Rightarrow> (Inl e, st)
           | Inr (Some refusal_payload) \<Rightarrow> (Inr refusal_payload, st)
           | Inr None \<Rightarrow> call_connector env c st))"

definition adapter_subject :: "adapter_call \<Rightarrow> call_subject" where
  "adapter_subject c = \<lparr> cs_provider = [], cs_model = [], cs_agent_id = xc_agent_id c, cs_workflow_id = [],
     cs_connector = xc_connector c, cs_tool = xc_tool c \<rparr>"

definition adapter_override :: "adapter_env \<Rightarrow> rat \<Rightarrow> rat \<Rightarrow> adapter_call \<Rightarrow> adapter_state \<Rightarrow> override_decision \<times> override_state" where
  "adapter_override env now later c st =
     check_override (xe_override env) now later (xe_answers env) (xs_override st)
       (case xc_tenant_id c of None \<Rightarrow> UuidNone | Some t \<Rightarrow> UuidText t) (adapter_subject c) (Some ''tool'')"

definition adapter_screen :: "adapter_env \<Rightarrow> rat \<Rightarrow> adapter_call \<Rightarrow> adapter_state \<Rightarrow> registry_check option \<times> registry_cache" where
  "adapter_screen env now c st =
     screen_call (xe_registry env) (xe_registry_settings env) now (xe_parse_uuid env) (xe_registry_rows env) (xs_registry st)
       (xc_tenant_id c) (xc_connector c) (xc_tool c) (xc_params c)"

text \<open>A registered tool runs in its envelope; a timeout cancels the call before or after it was made.\<close>

definition run_enveloped :: "adapter_env \<Rightarrow> registration \<Rightarrow> adapter_call \<Rightarrow> adapter_state \<Rightarrow> (string, pv) res \<times> adapter_state" where
  "run_enveloped env r c st =
     (let (res, st') = dispatch_checked_tool env c st
      in case xe_late env of
           Some False \<Rightarrow> (enveloped (xe_registry env) r TimedOut, st)
         | Some True \<Rightarrow> (enveloped (xe_registry env) r TimedOut, st')
         | None \<Rightarrow> (case res of Inl e \<Rightarrow> Inl e | Inr v \<Rightarrow> enveloped (xe_registry env) r (Returned v), st'))"

definition dispatch_connector_tool ::
    "adapter_env \<Rightarrow> rat \<Rightarrow> rat \<Rightarrow> adapter_call \<Rightarrow> adapter_state \<Rightarrow> (string, pv) res \<times> adapter_state" where
  "dispatch_connector_tool env now later c st0 =
     (let (ov, os) = adapter_override env now later c st0; st = st0\<lparr> xs_override := os \<rparr>
      in if od_blocked ov then
           (Inr (VDict [(''error'', VStr ''operator_override''), (''message'', VStr (od_reason ov)), (''override'', override_dict (od_override ov))]),
            audit_refusal c ''operator_override'' st)
         else case xe_guard env c of
           Inl e \<Rightarrow> (Inl e, st)
         | Inr (Some (reason, rule)) \<Rightarrow>
             (Inr (VDict [(''error'', VStr ''guardrail_blocked''), (''message'', VStr reason), (''guardrail'', rule)]), st)
         | Inr None \<Rightarrow>
             (let (check, cache) = adapter_screen env later c st; st1 = st\<lparr> xs_registry := cache \<rparr>
              in case check of
                   None \<Rightarrow> dispatch_checked_tool env c st1
                 | Some k \<Rightarrow>
                     if refused k then (Inr (registry_refusal k (xc_tool c)), audit_refusal c ''input_rejected'' st1)
                     else case rk_registration k of
                            Some r \<Rightarrow> run_enveloped env r c st1
                          | None \<Rightarrow> dispatch_checked_tool env c st1))"

section \<open>The call of an agent\<close>

record config_row =
  cf_tenant_id :: string
  cf_company_id :: string
  cf_connector_name :: string
  cf_config :: "(pv dict) option"
  cf_credentials :: pv

text \<open>The stored rows, \<open>json.loads\<close>, and the decryption for the tenant followed by \<open>json.loads\<close>; each may raise.\<close>

record config_store =
  cf_rows :: "(string, config_row list) res"
  cf_loads :: "string \<Rightarrow> (string, pv) res"
  cf_decrypt :: "pv \<Rightarrow> (string, pv) res"

definition scalar_one_or_none :: "'a list \<Rightarrow> (string, 'a option) res" where
  "scalar_one_or_none xs = (case xs of [] \<Rightarrow> Inr None | [x] \<Rightarrow> Inr (Some x) | _ \<Rightarrow> Inl ''MultipleResultsFound'')"

definition dict_update :: "pv dict \<Rightarrow> pv dict \<Rightarrow> pv dict" where
  "dict_update d e = foldl (\<lambda>acc (k, v). dset acc k v) d e"

definition stored_config :: "config_store \<Rightarrow> config_row \<Rightarrow> (string, pv dict) res" where
  "stored_config S row =
     (let config = (case cf_config row of Some d \<Rightarrow> d | None \<Rightarrow> []);
          creds = (if truthy (cf_credentials row) then cf_credentials row else VDict [])
      in rbind (case creds of VStr s \<Rightarrow> cf_loads S s | v \<Rightarrow> Inr v) (\<lambda>c1.
         rbind (case c1 of VDict d \<Rightarrow> (case dget d ''_encrypted'' of Some e \<Rightarrow> cf_decrypt S e | None \<Rightarrow> Inr c1) | v \<Rightarrow> Inr v) (\<lambda>c2.
           Inr (case c2 of VDict d \<Rightarrow> dict_update config d | _ \<Rightarrow> config))))"

definition config_rows_for :: "string \<Rightarrow> string \<Rightarrow> string \<Rightarrow> config_row list \<Rightarrow> config_row list" where
  "config_rows_for tenant company connector rows =
     filter (\<lambda>r. cf_tenant_id r = tenant \<and> cf_company_id r = company \<and> cf_connector_name r = connector) rows"

definition load_connector_config ::
    "config_store \<Rightarrow> uuid_parser \<Rightarrow> string \<Rightarrow> string option \<Rightarrow> string option \<Rightarrow> (string, (pv dict) option) res" where
  "load_connector_config S parse_uuid connector tenant_id company_id =
     (case (tenant_id, company_id) of
        (Some t, Some i) \<Rightarrow>
          if connector = [] \<or> t = [] \<or> i = [] then Inr None
          else (case (parse_uuid t, parse_uuid i) of
                  (Some tenant, Some company) \<Rightarrow>
                    rbind (cf_rows S) (\<lambda>rows. rbind (scalar_one_or_none (config_rows_for tenant company connector rows)) (\<lambda>row.
                      (case row of None \<Rightarrow> Inr None | Some r \<Rightarrow> rbind (stored_config S r) (\<lambda>d. Inr (Some d)))))
                | _ \<Rightarrow> Inr None)
      | _ \<Rightarrow> Inr None)"

text \<open>The amount of a call, when it is a number; the check without a run grant also takes a truth value.\<close>

definition amount_param :: "bool \<Rightarrow> pv dict \<Rightarrow> rat option" where
  "amount_param bools params =
     (case vget params ''amount'' of
        VInt n \<Rightarrow> Some (of_int n)
      | VFloat (Fin r) \<Rightarrow> Some r
      | VBool b \<Rightarrow> if bools then Some (if b then 1 else 0) else None
      | _ \<Rightarrow> None)"

record agent_call =
  av_connector :: string
  av_tool :: string
  av_params :: "pv dict"
  av_tenant_id :: "string option"
  av_company_id :: "string option"
  av_domain :: domain_arg
  av_authorized_tools :: "string list"
  av_grant_token :: "string option"
  av_authorization :: "capability_authorization option"
  av_run_grant :: "run_grant option"
  av_agent_id :: string

definition agent_error :: "string \<Rightarrow> string \<Rightarrow> pv dict \<Rightarrow> pv" where
  "agent_error label message extra = VDict [(''error'', VDict ([(''code'', VStr label), (''message'', VStr message)] @ extra))]"

text \<open>The grant check of an agent's call: the refusal, or nothing; an exception leaves the call.\<close>

definition agent_grant_refusal :: "grant_env \<Rightarrow> agent_call \<Rightarrow> string \<Rightarrow> pv dict \<Rightarrow> (string, pv option) res" where
  "agent_grant_refusal genv a connector params =
     (case (if grant_off (av_run_grant a) then None else av_run_grant a) of
        Some g \<Rightarrow>
          rbind (check_run_grant genv g connector (av_tool a) (amount_param False params)) (\<lambda>check.
            Inr (case gk_denial check of
                   Some d \<Rightarrow>
                     if gk_dispatch_allowed check then None
                     else Some (agent_error ''E1007'' (''grant_denied: '' @ reason_value (dn_reason d))
                       [(''reason'', VStr (reason_value (dn_reason d))), (''sub_reason'', VStr (dn_sub_reason d))])
                 | None \<Rightarrow> None))
      | None \<Rightarrow>
          (case av_grant_token a of
             Some token \<Rightarrow>
               if token = [] then Inr None
               else rbind (ask_grantex genv token connector (av_tool a) (amount_param True params)) (\<lambda>r.
                 Inr (if er_allowed r then None else Some (agent_error ''E1007'' (''scope_denied: '' @ er_reason r) [])))
           | None \<Rightarrow> Inr None))"

definition agent_adapter_call :: "agent_call \<Rightarrow> string \<Rightarrow> pv dict \<Rightarrow> pv dict \<Rightarrow> adapter_call" where
  "agent_adapter_call a connector params config =
     \<lparr> xc_connector = connector, xc_tool = av_tool a, xc_params = VDict params, xc_config = config,
       xc_tenant_id = av_tenant_id a, xc_company_id = av_company_id a, xc_domain = av_domain a,
       xc_authorization = av_authorization a, xc_agent_id = av_agent_id a \<rparr>"

text \<open>\<open>restored\<close> is what restoring the pseudonyms of the arguments gives, when there is a pseudonymiser.\<close>

definition execute_agent_tool ::
    "adapter_env \<Rightarrow> config_store \<Rightarrow> grant_env \<Rightarrow> rat \<Rightarrow> rat \<Rightarrow> agent_call \<Rightarrow> ((string, pv dict) res) option \<Rightarrow> adapter_state
     \<Rightarrow> (string, pv) res \<times> adapter_state" where
  "execute_agent_tool env S genv now later a restored st =
     (case (case restored of None \<Rightarrow> Inr (av_params a) | Some r \<Rightarrow> r) of
        Inl reason \<Rightarrow>
          (Inr (agent_error REFUSAL_CODE (''pseudonym_restore_failed: '' @ reason) []),
           audit_refusal (agent_adapter_call a (av_connector a) [] []) ''pseudonym_restore_failed'' st)
      | Inr params \<Rightarrow>
          (let connector = canonical_connector_name (av_connector a); scoped = av_company_id a \<noteq> None \<and> av_company_id a \<noteq> Some []
           in if \<not> is_tool_authorized (xe_classes env) (av_authorized_tools a) connector (av_tool a) then
                (Inr (agent_error ''E1007'' (''scope_denied: '' @ connector @ ''.'' @ av_tool a @ '' is not in the agent'' @ CHR 0x27 # ''s authorized_tools'') []), st)
              else case agent_grant_refusal genv a connector params of
                Inl e \<Rightarrow> (Inl e, st)
              | Inr (Some payload) \<Rightarrow> (Inr payload, st)
              | Inr None \<Rightarrow>
                  if \<not> scoped \<and> is_strict_runtime_env (xe_env env) then
                    (Inr (agent_error ''E1010'' ''company_scope_required: tool calls need a company-scoped agent in this runtime'' []), st)
                  else if prefix ''mcp_'' connector then dispatch_connector_tool env now later (agent_adapter_call a connector params []) st
                  else case load_connector_config S (xe_parse_uuid env) connector (av_tenant_id a) (av_company_id a) of
                    Inl e \<Rightarrow> (Inl e, st)
                  | Inr config \<Rightarrow>
                      if config = None \<and> scoped then
                        (Inr (agent_error ''E1005'' (''Connector not configured: '' @ connector @ '' has no connector config for this company'') []), st)
                      else dispatch_connector_tool env now later
                             (agent_adapter_call a connector params (case config of Some d \<Rightarrow> d | None \<Rightarrow> [])) st))"

section \<open>What a call that reaches a connector has passed\<close>

text \<open>What one call may execute: nothing, once, or again on a fresh client after a transport error.\<close>

definition call_attempts :: "adapter_env \<Rightarrow> adapter_call \<Rightarrow> (connector_client \<times> adapter_call) list \<Rightarrow> bool" where
  "call_attempts env c es \<longleftrightarrow> es = [] \<or> (\<exists>k. es = [(k, c)])
     \<or> (\<exists>k e. es = [(k, c), (client_of c, c)] \<and> xe_execute env k c 0 = Inl (Transport e))"

definition residency_clear :: "adapter_env \<Rightarrow> adapter_call \<Rightarrow> connector_class \<Rightarrow> bool" where
  "residency_clear env c k \<longleftrightarrow>
     (case kc_residency_provider k of None \<Rightarrow> True | Some p \<Rightarrow> p = [] \<or> xe_residency env (xc_tenant_id c) p = Inr None)"

lemma executed_simps [simp]:
  "xs_executed (executed k c st) = xs_executed st @ [(k, c)]" "xs_clients (executed k c st) = xs_clients st"
  "xs_override (executed k c st) = xs_override st" "xs_registry (executed k c st) = xs_registry st"
  "xs_executed (audit_refusal c a st) = xs_executed st" "xs_clients (audit_refusal c a st) = xs_clients st"
  by (simp_all add: executed_def audit_refusal_def)

lemma retry_fresh_executed:
  "retry_fresh env c key e st = (res, st') \<Longrightarrow> xs_executed st' = xs_executed st \<or> xs_executed st' = xs_executed st @ [(client_of c, c)]"
  by (auto simp: retry_fresh_def Let_def split: sum.splits bool.splits)

lemma execute_on_executed:
  assumes "execute_on env c key k st = (res, st')"
  shows "\<exists>es. call_attempts env c es \<and> xs_executed st' = xs_executed st @ es"
proof (cases "\<exists>e. xe_execute env k c 0 = Inl (Transport e)")
  case True
  then obtain e where e: "xe_execute env k c 0 = Inl (Transport e)" by blast
  then have "retry_fresh env c key e (executed k c st) = (res, st')" using assms by (simp add: execute_on_def Let_def)
  from retry_fresh_executed [OF this] show ?thesis using e by (fastforce simp: call_attempts_def)
next
  case False
  then have "st' = executed k c st"
    using assms by (auto simp: execute_on_def Let_def split: sum.splits connector_error.splits)
  then show ?thesis by (auto simp: call_attempts_def)
qed

lemma call_connector_executed:
  assumes "call_connector env c st = (res, st')"
  shows "\<exists>es. call_attempts env c es \<and> xs_executed st' = xs_executed st @ es"
proof -
  have none: ?thesis if "xs_executed st' = xs_executed st" using that by (auto simp: call_attempts_def)
  show ?thesis
    using assms none unfolding call_connector_def
    by (auto simp: Let_def split: sum.splits option.splits bool.splits dest!: execute_on_executed)
qed

lemma dispatch_checked_executed:
  assumes "dispatch_checked_tool env c st = (res, st')" "xs_executed st' \<noteq> xs_executed st"
  obtains k es where "\<not> prefix ''mcp_'' (xc_connector c)" "adapter_governed env c \<longrightarrow> dispatch_allowed (adapter_decision env c)"
    "registry_get (xe_classes env) (xc_connector c) = Some k" "residency_clear env c k"
    "call_connector env c st = (res, st')" "call_attempts env c es" "es \<noteq> []" "xs_executed st' = xs_executed st @ es"
proof -
  from assms obtain k where k: "\<not> prefix ''mcp_'' (xc_connector c)" "adapter_governed env c \<longrightarrow> dispatch_allowed (adapter_decision env c)"
    "registry_get (xe_classes env) (xc_connector c) = Some k" "residency_clear env c k" "call_connector env c st = (res, st')"
    by (auto simp: dispatch_checked_tool_def residency_clear_def split: if_splits option.splits sum.splits)
  from call_connector_executed [OF k(5)] obtain es where "call_attempts env c es" "xs_executed st' = xs_executed st @ es" by blast
  with k assms(2) show thesis by (intro that) auto
qed

lemma dispatch_cases_adapter:
  assumes "dispatch_connector_tool env now later c st = (res, st')" "xs_executed st' \<noteq> xs_executed st"
  obtains st1 res1 st2 where "\<not> od_blocked (fst (adapter_override env now later c st))" "xe_guard env c = Inr None"
    "case fst (adapter_screen env later c st) of Some k \<Rightarrow> \<not> refused k | None \<Rightarrow> True"
    "dispatch_checked_tool env c st1 = (res1, st2)" "xs_executed st1 = xs_executed st" "xs_clients st1 = xs_clients st"
    "xs_executed st' = xs_executed st2" "xs_clients st' = xs_clients st2"
proof -
  obtain ov os where ov: "adapter_override env now later c st = (ov, os)" by fastforce
  define s where "s = st\<lparr> xs_override := os \<rparr>"
  have keep: "xs_executed s = xs_executed st" "xs_clients s = xs_clients st" "adapter_screen env later c s = adapter_screen env later c st"
    by (simp_all add: s_def adapter_screen_def)
  have b: "\<not> od_blocked ov" "xe_guard env c = Inr None"
    using assms ov by (auto simp: dispatch_connector_tool_def Let_def split: if_splits sum.splits option.splits)
  obtain check cache where ch: "adapter_screen env later c st = (check, cache)" by fastforce
  define s1 where "s1 = s\<lparr> xs_registry := cache \<rparr>"
  have k1: "xs_executed s1 = xs_executed st" "xs_clients s1 = xs_clients st" by (simp_all add: s1_def keep)
  have eq: "dispatch_connector_tool env now later c st =
      (case check of None \<Rightarrow> dispatch_checked_tool env c s1
       | Some k \<Rightarrow> if refused k then (Inr (registry_refusal k (xc_tool c)), audit_refusal c ''input_rejected'' s1)
           else case rk_registration k of Some r \<Rightarrow> run_enveloped env r c s1 | None \<Rightarrow> dispatch_checked_tool env c s1)"
    using b ov ch keep(3) unfolding s1_def s_def by (simp add: dispatch_connector_tool_def Let_def)
  obtain res2 st2 where d: "dispatch_checked_tool env c s1 = (res2, st2)" by fastforce
  have run: "st' = st2" if "run_enveloped env r c s1 = (res, st')" for r
    using that d assms(2) k1 by (auto simp: run_enveloped_def split: option.splits bool.splits sum.splits)
  have "st' = st2 \<and> (case check of Some k \<Rightarrow> \<not> refused k | None \<Rightarrow> True)"
    using assms d eq k1 run by (auto split: option.splits if_splits)
  then show thesis using that [of s1 res2 st2] b ov ch d k1 by simp
qed

text \<open>C9: A call that reaches a connector has passed every check of the adapter. If a call makes a connector execute anything, then no
  operator override blocks it, the action guardrail passed it, the tool registry did not refuse it, the
  action policy allowed it (or the runtime is relaxed and the call names neither tenant nor company nor
  domain), the connector is registered and its provider's residency is clear; and it was executed once, or
  twice when the first client reported a transport error.
\<close>

theorem adapter_call_passed_every_check:
  assumes "dispatch_connector_tool env now later c st = (res, st')" "xs_executed st' \<noteq> xs_executed st"
  shows "\<not> od_blocked (fst (adapter_override env now later c st)) \<and> xe_guard env c = Inr None
    \<and> (case fst (adapter_screen env later c st) of Some k \<Rightarrow> \<not> refused k | None \<Rightarrow> True)
    \<and> (dispatch_allowed (adapter_decision env c)
       \<or> is_relaxed_env (xe_env env) \<and> xc_tenant_id c = None \<and> xc_company_id c = None \<and> xc_domain c = DomainNone)
    \<and> (\<exists>k. registry_get (xe_classes env) (xc_connector c) = Some k \<and> residency_clear env c k)
    \<and> (\<exists>es. call_attempts env c es \<and> xs_executed st' = xs_executed st @ es)"
proof -
  from dispatch_cases_adapter [OF assms] obtain st1 res1 st2 where
    a: "\<not> od_blocked (fst (adapter_override env now later c st))" "xe_guard env c = Inr None"
      "case fst (adapter_screen env later c st) of Some k \<Rightarrow> \<not> refused k | None \<Rightarrow> True"
    and d: "dispatch_checked_tool env c st1 = (res1, st2)" "xs_executed st1 = xs_executed st" "xs_executed st' = xs_executed st2"
    by metis
  have "xs_executed st2 \<noteq> xs_executed st1" using assms(2) d by simp
  from dispatch_checked_executed [OF d(1) this] obtain k es where
    e: "adapter_governed env c \<longrightarrow> dispatch_allowed (adapter_decision env c)" "registry_get (xe_classes env) (xc_connector c) = Some k"
      "residency_clear env c k" "call_attempts env c es" "xs_executed st2 = xs_executed st1 @ es" by metis
  have "dispatch_allowed (adapter_decision env c)
      \<or> is_relaxed_env (xe_env env) \<and> xc_tenant_id c = None \<and> xc_company_id c = None \<and> xc_domain c = DomainNone"
    using e(1) by (auto simp: adapter_governed_def is_strict_runtime_env_def)
  moreover have "\<exists>es. call_attempts env c es \<and> xs_executed st' = xs_executed st @ es" using e(4,5) d(2,3) by auto
  ultimately show ?thesis using a e(2,3) by blast
qed

section \<open>Clients are not shared between scopes\<close>

definition plain_client :: "connector_client \<Rightarrow> bool" where
  "plain_client k \<longleftrightarrow> CHR '':'' \<notin> set (scope_text (kl_tenant_id k)) \<and> CHR '':'' \<notin> set (scope_text (kl_company_id k)) \<and> CHR '':'' \<notin> set (kl_connector k)"

definition same_scope :: "(pv \<Rightarrow> (string, string) res) \<Rightarrow> connector_client \<Rightarrow> connector_client \<Rightarrow> bool" where
  "same_scope D k j \<longleftrightarrow> kl_connector k = kl_connector j \<and> D (VDict (kl_config k)) = D (VDict (kl_config j))
     \<and> scope_text (kl_tenant_id k) = scope_text (kl_tenant_id j) \<and> scope_text (kl_company_id k) = scope_text (kl_company_id j)"

definition client_key :: "(pv \<Rightarrow> (string, string) res) \<Rightarrow> connector_client \<Rightarrow> string option" where
  "client_key D k = (case D (VDict (kl_config k)) of Inl e \<Rightarrow> None
     | Inr fp \<Rightarrow> Some (cache_key (kl_tenant_id k) (kl_company_id k) (kl_connector k) fp))"

definition clients_ok :: "(pv \<Rightarrow> (string, string) res) \<Rightarrow> connector_client dict \<Rightarrow> bool" where
  "clients_ok D clients \<longleftrightarrow> (\<forall>(key, k) \<in> set clients. client_key D k = Some key \<and> plain_client k)"

definition executed_ok :: "(pv \<Rightarrow> (string, string) res) \<Rightarrow> (connector_client \<times> adapter_call) list \<Rightarrow> bool" where
  "executed_ok D es \<longleftrightarrow> (\<forall>(k, c) \<in> set es. same_scope D k (client_of c))"

text \<open>Every history of calls from an empty cache; \<open>D\<close> is \<open>json.dumps\<close>, and the ids and names of connectors have no colon.\<close>

inductive adapter_reach :: "(pv \<Rightarrow> (string, string) res) \<Rightarrow> adapter_state \<Rightarrow> bool" for D where
  start: "xs_clients st = [] \<Longrightarrow> xs_executed st = [] \<Longrightarrow> adapter_reach D st"
| call: "adapter_reach D st \<Longrightarrow> xe_dumps env = D \<Longrightarrow> plain_client (client_of c) \<Longrightarrow>
    dispatch_connector_tool env now later c st = (res, st') \<Longrightarrow> adapter_reach D st'"

lemma colon_split:
  assumes "(x :: char) \<notin> set a" "x \<notin> set b" "a @ x # s = b @ x # t"
  shows "a = b \<and> s = t"
proof -
  have "split1 [x] (a @ x # s) = Some (a, s)" by (rule split1_at [OF assms(1)])
  moreover have "split1 [x] (a @ x # s) = Some (b, t)" unfolding assms(3) by (rule split1_at [OF assms(2)])
  ultimately show ?thesis by simp
qed

lemma client_key_same:
  assumes "client_key D k = Some key" "client_key D j = Some key" "plain_client k" "plain_client j"
  shows "same_scope D k j"
proof -
  obtain f g where fg: "D (VDict (kl_config k)) = Inr f" "D (VDict (kl_config j)) = Inr g"
    "key = cache_key (kl_tenant_id k) (kl_company_id k) (kl_connector k) f"
    "key = cache_key (kl_tenant_id j) (kl_company_id j) (kl_connector j) g"
    using assms(1,2) by (auto simp: client_key_def split: sum.splits)
  then have "scope_text (kl_tenant_id k) @ CHR '':'' # scope_text (kl_company_id k) @ CHR '':'' # kl_connector k @ CHR '':'' # f
      = scope_text (kl_tenant_id j) @ CHR '':'' # scope_text (kl_company_id j) @ CHR '':'' # kl_connector j @ CHR '':'' # g"
    by (simp add: cache_key_def)
  then show ?thesis
    using assms(3,4) fg(1,2) unfolding plain_client_def same_scope_def by (metis colon_split)
qed

lemma clients_ok_dset: "clients_ok D d \<Longrightarrow> client_key D k = Some key \<Longrightarrow> plain_client k \<Longrightarrow> clients_ok D (dset d key k)"
  unfolding clients_ok_def using dset_elems [of _ d key k] by fastforce

lemma clients_ok_sub: "clients_ok D d \<Longrightarrow> set e \<subseteq> set d \<Longrightarrow> clients_ok D e"
  unfolding clients_ok_def by blast

lemma clients_ok_store:
  assumes "clients_ok D d" "client_key D k = Some key" "plain_client k"
  shows "clients_ok D (store_connector_cache key k d)"
proof -
  have "clients_ok D (tl d)" by (rule clients_ok_sub [OF assms(1)]) (cases d, auto)
  then show ?thesis using assms by (simp add: store_connector_cache_def clients_ok_dset)
qed

lemma executed_ok_snoc: "executed_ok D es \<Longrightarrow> same_scope D k (client_of c) \<Longrightarrow> executed_ok D (es @ [(k, c)])"
  by (auto simp: executed_ok_def)

definition scoped_ok :: "(pv \<Rightarrow> (string, string) res) \<Rightarrow> adapter_state \<Rightarrow> bool" where
  "scoped_ok D st \<longleftrightarrow> clients_ok D (xs_clients st) \<and> executed_ok D (xs_executed st)"

lemma retry_fresh_ok:
  assumes "scoped_ok D st" "client_key D (client_of c) = Some key" "plain_client (client_of c)" "retry_fresh env c key e st = (res, st')"
  shows "scoped_ok D st'"
proof -
  let ?d = "filter (\<lambda>e. fst e \<noteq> key) (xs_clients st)"
  have d: "clients_ok D ?d" by (rule clients_ok_sub) (use assms(1) in \<open>auto simp: scoped_ok_def\<close>)
  moreover have "executed_ok D (xs_executed st @ [(client_of c, c)])"
    by (rule executed_ok_snoc) (use assms(1) in \<open>simp_all add: scoped_ok_def same_scope_def\<close>)
  ultimately show ?thesis
    using assms(1,4) clients_ok_store [OF d assms(2,3)]
    by (auto simp: retry_fresh_def Let_def scoped_ok_def split: sum.splits bool.splits)
qed

lemma execute_on_ok:
  assumes "scoped_ok D st" "client_key D (client_of c) = Some key" "plain_client (client_of c)" "same_scope D k (client_of c)"
    "execute_on env c key k st = (res, st')"
  shows "scoped_ok D st'"
proof -
  have e: "scoped_ok D (executed k c st)" using assms(1,4) by (simp add: scoped_ok_def executed_ok_snoc)
  have "st' = executed k c st \<or> (\<exists>x. retry_fresh env c key x (executed k c st) = (res, st'))"
    using assms(5) by (auto simp: execute_on_def Let_def split: sum.splits connector_error.splits)
  with e retry_fresh_ok [OF e assms(2,3)] show ?thesis by blast
qed

lemma call_connector_ok:
  assumes "scoped_ok D st" "xe_dumps env = D" "plain_client (client_of c)" "call_connector env c st = (res, st')"
  shows "scoped_ok D st'"
proof (cases "D (VDict (xc_config c))")
  case (Inl e)
  then show ?thesis using assms by (simp add: call_connector_def)
next
  case (Inr fp)
  define key where "key = cache_key (xc_tenant_id c) (xc_company_id c) (xc_connector c) fp"
  have key: "client_key D (client_of c) = Some key" using Inr by (simp add: client_key_def client_of_def key_def)
  have self: "same_scope D (client_of c) (client_of c)" by (simp add: same_scope_def)
  have fresh: "scoped_ok D (st\<lparr> xs_clients := store_connector_cache key (client_of c) (xs_clients st) \<rparr>)"
    using assms(1,3) key by (simp add: scoped_ok_def clients_ok_store)
  show ?thesis
  proof (cases "dget (xs_clients st) key")
    case (Some k)
    then have "client_key D k = Some key \<and> plain_client k"
      using assms(1) by (auto simp: scoped_ok_def clients_ok_def dget_def dest: map_of_SomeD)
    then have "same_scope D k (client_of c)" using client_key_same [OF _ key] assms(3) by blast
    moreover have "execute_on env c key k st = (res, st')"
      using assms(2,4) Inr Some by (simp add: call_connector_def Let_def key_def)
    ultimately show ?thesis using execute_on_ok [OF assms(1) key assms(3)] by blast
  next
    case None
    then have "st' = st \<or> execute_on env c key (client_of c) (st\<lparr> xs_clients := store_connector_cache key (client_of c) (xs_clients st) \<rparr>) = (res, st')"
      using assms(2,4) Inr by (auto simp: call_connector_def Let_def key_def [symmetric] split: sum.splits bool.splits)
    then show ?thesis using execute_on_ok [OF fresh key assms(3) self] assms(1) by blast
  qed
qed

lemma dispatch_checked_ok:
  assumes "scoped_ok D st" "xe_dumps env = D" "plain_client (client_of c)" "dispatch_checked_tool env c st = (res, st')"
  shows "scoped_ok D st'"
proof -
  have "xs_clients st' = xs_clients st \<and> xs_executed st' = xs_executed st \<or> call_connector env c st = (res, st')"
    using assms(4) by (auto simp: dispatch_checked_tool_def split: if_splits option.splits sum.splits)
  then show ?thesis using call_connector_ok [OF assms(1-3)] assms(1) by (auto simp: scoped_ok_def)
qed

lemma dispatch_connector_ok:
  assumes "scoped_ok D st" "xe_dumps env = D" "plain_client (client_of c)" "dispatch_connector_tool env now later c st = (res, st')"
  shows "scoped_ok D st'"
proof -
  have checked: "scoped_ok D s'" if "scoped_ok D s" "dispatch_checked_tool env c s = (r, s')" for s r s'
    using dispatch_checked_ok [OF that(1) assms(2,3) that(2)] .
  have env: "scoped_ok D s'" if "scoped_ok D s" "run_enveloped env g c s = (r, s')" for g s r s'
    using that checked [OF that(1)] by (auto simp: run_enveloped_def split: option.splits bool.splits prod.splits)
  have same: "scoped_ok D (s\<lparr> xs_registry := g \<rparr>) = scoped_ok D s" "scoped_ok D (s\<lparr> xs_override := h \<rparr>) = scoped_ok D s"
    "scoped_ok D (audit_refusal c a s) = scoped_ok D s" for s g h a
    by (simp_all add: scoped_ok_def)
  obtain ov os where ov: "adapter_override env now later c st = (ov, os)" by fastforce
  define s where "s = st\<lparr> xs_override := os \<rparr>"
  obtain check cache where ch: "adapter_screen env later c s = (check, cache)" by fastforce
  define s1 where "s1 = s\<lparr> xs_registry := cache \<rparr>"
  have ok: "scoped_ok D s" "scoped_ok D s1" using assms(1) by (simp_all add: s_def s1_def same)
  have "st' \<in> {s, audit_refusal c ''operator_override'' s, audit_refusal c ''input_rejected'' s1}
      \<or> (\<exists>r. dispatch_checked_tool env c s1 = (r, st')) \<or> (\<exists>g r. run_enveloped env g c s1 = (r, st'))"
    using assms(4) ov ch unfolding s1_def s_def
    by (auto simp: dispatch_connector_tool_def Let_def split: if_splits sum.splits option.splits)
  then show ?thesis using ok checked [OF ok(2)] env [OF ok(2)] by (auto simp: same)
qed

text \<open>C25: A client is never used outside the scope it was built in. However many calls have shared the bounded cache of clients,
  been repeated on fresh clients or failed, every execution uses a client of the same connector, built for the
  same tenant and company with a configuration of the same JSON text.
\<close>

theorem connector_client_keeps_its_scope:
  assumes "adapter_reach D st" "(k, c) \<in> set (xs_executed st)"
  shows "same_scope D k (client_of c)"
proof -
  have "scoped_ok D st"
    using assms(1)
  proof induction
    case (start st)
    then show ?case by (simp add: scoped_ok_def clients_ok_def executed_ok_def)
  next
    case (call st env c now later res st')
    then show ?case by (metis dispatch_connector_ok)
  qed
  then show ?thesis using assms(2) by (auto simp: scoped_ok_def executed_ok_def)
qed

section \<open>What an agent's call has passed\<close>

lemma agent_grant_refusal_passed:
  assumes "agent_grant_refusal genv a connector params = Inr None" "av_run_grant a = Some g" "rg_mode g \<noteq> OFF"
  shows "\<exists>check. check_run_grant genv g connector (av_tool a) (amount_param False params) = Inr check \<and> gk_dispatch_allowed check"
proof -
  have "\<not> grant_off (av_run_grant a)" using assms(2,3) by (simp add: grant_off_def)
  then show ?thesis
    using assms by (auto simp: agent_grant_refusal_def rbind_def split: sum.splits option.splits if_splits dest: check_run_grant_denial)
qed

lemma load_connector_config_row:
  assumes "load_connector_config S pu connector t i = Inr (Some config)"
  shows "\<exists>rows row. cf_rows S = Inr rows \<and> row \<in> set rows \<and> stored_config S row = Inr config \<and> cf_connector_name row = connector
    \<and> t \<noteq> None \<and> pu (the t) = Some (cf_tenant_id row) \<and> i \<noteq> None \<and> pu (the i) = Some (cf_company_id row)"
proof -
  obtain t' i' tenant company rows row where
    x: "t = Some t'" "i = Some i'" "pu t' = Some tenant" "pu i' = Some company" "cf_rows S = Inr rows"
      "scalar_one_or_none (config_rows_for tenant company connector rows) = Inr (Some row)" "stored_config S row = Inr config"
    using assms by (auto simp: load_connector_config_def rbind_def split: option.splits if_splits sum.splits prod.splits)
  from x(6) have "row \<in> set (config_rows_for tenant company connector rows)"
    by (auto simp: scalar_one_or_none_def split: list.splits)
  with x show ?thesis by (auto simp: config_rows_for_def)
qed

lemma attempts_calls: "call_attempts env c es \<Longrightarrow> (k, c') \<in> set es \<Longrightarrow> c' = c"
  by (auto simp: call_attempts_def)

lemma dispatch_appends:
  assumes "dispatch_connector_tool env now later c st = (res, st')" "xs_executed st' \<noteq> xs_executed st"
  obtains es where "call_attempts env c es" "xs_executed st' = xs_executed st @ es"
proof -
  from dispatch_cases_adapter [OF assms] obtain st1 res1 st2 where
    "dispatch_checked_tool env c st1 = (res1, st2)" "xs_executed st1 = xs_executed st" "xs_executed st' = xs_executed st2" by metis
  with dispatch_checked_executed [of env c st1 res1 st2] assms(2) show thesis by (metis that)
qed


section \<open>Sample\<close>

text \<open>A search whose first client has lost its connection, for an agent of a company.\<close>

definition sample_adapter_env :: adapter_env where
  "sample_adapter_env = \<lparr> xe_env = Some ''production'', xe_override = sample_override_config, xe_answers = sample_answers,
     xe_guard = (\<lambda>c. Inr None), xe_registry = sample_registry_env,
     xe_registry_settings = \<lparr> tool_registry_enabled = False, tool_registry_require_registration = False \<rparr>, xe_registry_rows = None,
     xe_before = (\<lambda>a b. True), xe_parse_uuid = Some, xe_flags = (\<lambda>key t c dflt. Inr False), xe_remote = (\<lambda>c. Inl ''NotFound''),
     xe_classes = sample_classes, xe_residency = (\<lambda>t p. Inr None), xe_dumps = (\<lambda>v. Inr ''{}''), xe_connect = (\<lambda>k n. Inr True),
     xe_execute = (\<lambda>k c n. if n = 0 then Inl (Transport ''ReadError'') else Inr (VDict [(''issues'', VList [])])), xe_late = None,
     xe_errors = \<lparr> et_redact = (\<lambda>s. s), et_text = (\<lambda>v. []) \<rparr> \<rparr>"

definition sample_configs :: config_store where
  "sample_configs = \<lparr> cf_rows = Inr [\<lparr> cf_tenant_id = ''t1'', cf_company_id = ''c1'', cf_connector_name = ''jira'', cf_config = Some [],
       cf_credentials = VDict [(''token'', VStr ''x'')] \<rparr>],
     cf_loads = (\<lambda>s. Inl ''JSONDecodeError''), cf_decrypt = (\<lambda>v. Inl ''InvalidToken'') \<rparr>"

definition sample_agent_call :: agent_call where
  "sample_agent_call = \<lparr> av_connector = ''registry-Jira'', av_tool = ''search_issues'', av_params = [], av_tenant_id = Some ''t1'',
     av_company_id = Some ''c1'', av_domain = DomainText ''Ops'', av_authorized_tools = [''jira.search_issues''], av_grant_token = None,
     av_authorization = None, av_run_grant = None, av_agent_id = ''a1'' \<rparr>"

definition sample_adapter_call :: adapter_call where
  "sample_adapter_call = agent_adapter_call sample_agent_call ''jira'' [] [(''token'', VStr ''x'')]"

definition sample_adapter :: adapter_state where
  "sample_adapter = \<lparr> xs_override = empty_overrides, xs_registry = (\<lambda>t. None), xs_clients = [], xs_executed = [], xs_delegated = [], xs_audit = [] \<rparr>"

definition sample_dispatched :: "(string, pv) res \<times> adapter_state" where
  "sample_dispatched = dispatch_connector_tool sample_adapter_env 0 0 sample_adapter_call sample_adapter"

lemma sample_dispatched_twice: "map snd (xs_executed (snd sample_dispatched)) = [sample_adapter_call, sample_adapter_call]"
  by code_simp

lemma sample_agent_executes:
  "execute_agent_tool sample_adapter_env sample_configs sample_grant_env 0 0 sample_agent_call None sample_adapter
     = (fst sample_dispatched, snd sample_dispatched)"
proof -
  have "load_connector_config sample_configs (xe_parse_uuid sample_adapter_env) ''jira'' (Some ''t1'') (Some ''c1'') = Inr (Some [(''token'', VStr ''x'')])"
    "canonical_connector_name (av_connector sample_agent_call) = ''jira''"
    "is_tool_authorized (xe_classes sample_adapter_env) (av_authorized_tools sample_agent_call) ''jira'' (av_tool sample_agent_call)"
    "agent_grant_refusal sample_grant_env sample_agent_call ''jira'' [] = Inr None" "\<not> prefix ''mcp_'' ''jira''"
    by code_simp+
  then show ?thesis
    by (simp add: execute_agent_tool_def sample_dispatched_def sample_adapter_call_def) (simp add: sample_agent_call_def)
qed

lemma sample_changed: "xs_executed (snd sample_dispatched) \<noteq> xs_executed sample_adapter"
  using sample_dispatched_twice by (auto simp: sample_adapter_def)

lemma sample_dispatched_eq:
  "dispatch_connector_tool sample_adapter_env 0 0 sample_adapter_call sample_adapter = (fst sample_dispatched, snd sample_dispatched)"
  by (simp add: sample_dispatched_def)

theorem adapter_call_passed_every_check_witness:
  "xs_executed (snd sample_dispatched) \<noteq> [] \<and> dispatch_allowed (adapter_decision sample_adapter_env sample_adapter_call)"
proof -
  note passed = adapter_call_passed_every_check [OF sample_dispatched_eq sample_changed]
  have "xc_tenant_id sample_adapter_call \<noteq> None" by code_simp
  with passed sample_changed show ?thesis by (simp add: sample_adapter_def)
qed

theorem connector_client_keeps_its_scope_witness:
  "list_all (\<lambda>e. kl_connector (fst e) = ''jira'') (xs_executed (snd sample_dispatched))"
  unfolding list_all_iff
proof -
  have p: "plain_client (client_of sample_adapter_call)" by code_simp
  have s: "adapter_reach (xe_dumps sample_adapter_env) sample_adapter"
    by (rule adapter_reach.start) (simp_all add: sample_adapter_def)
  note r = adapter_reach.call [OF s refl p sample_dispatched_eq]
  show "\<forall>e \<in> set (xs_executed (snd sample_dispatched)). kl_connector (fst e) = ''jira''"
  proof
    fix e assume e: "e \<in> set (xs_executed (snd sample_dispatched))"
    then have "snd e \<in> set (map snd (xs_executed (snd sample_dispatched)))" by simp
    then have "snd e = sample_adapter_call" unfolding sample_dispatched_twice by simp
    moreover have "same_scope (xe_dumps sample_adapter_env) (fst e) (client_of (snd e))"
      by (rule connector_client_keeps_its_scope [OF r]) (simp add: e)
    ultimately show "kl_connector (fst e) = ''jira''"
      by (simp add: same_scope_def client_of_def sample_adapter_call_def agent_adapter_call_def)
  qed
qed


end
