(* ===== verification/Step_World.thy ===== *)
theory Step_World
  imports Workflow_Tasks Tool_Adapter
begin

text \<open>
  What the step handlers of \<open>workflows/step_types.py\<close> read and do: the tables and settings they consult, the log of what they
  cause outside the run, and the shape of their code (statements in sequence, exceptions, \<open>try\<close>). A triple
  \<open>does P l m Q\<close> says that, from the log \<open>l\<close>, every effect \<open>m\<close> adds satisfies \<open>P\<close> at the log before it, and a value it
  returns satisfies \<open>Q\<close> at the log after it; the rules for it are collected in \<open>does_intros\<close>.
\<close>

section \<open>Tables and answers\<close>

text \<open>An exception: the name of its class and its text.\<close>

type_synonym exn = "string \<times> string"

text \<open>A row of the agents; \<open>ag_more\<close> holds the columns that are only copied.\<close>

record agent_row =
  ag_id :: string
  ag_tenant_id :: string
  ag_company_id :: "string option"
  ag_domain :: pv
  ag_agent_type :: string
  ag_status :: string
  ag_visibility :: string
  ag_owner_user_id :: "string option"
  ag_more :: "pv dict"

record run_row =
  rn_id :: string
  rn_tenant_id :: string
  rn_context :: pv

text \<open>\<open>tb_companies\<close>: the id of a company and its tenant.\<close>

record wf_tables =
  tb_agents :: "agent_row list"
  tb_runs :: "run_row list"
  tb_companies :: "(string \<times> string) list"
  tb_configs :: config_store

record agent_result =
  ar_status :: string
  ar_output :: pv
  ar_error :: pv
  ar_confidence :: pv
  ar_reasoning_trace :: pv
  ar_tool_calls :: pv

text \<open>What a handler causes outside the run.\<close>

datatype step_effect =
    AgentRan "pv dict" "pv dict" caller_grant
  | ToolCalled adapter_call
  | EmailSent string string string
  | SubRunStarted pv pv pv pv
  | WaitRegistered "pv dict"
  | ResumeScheduled pv pv rat
  | TimeoutScheduled pv pv rat
  | CaseStepRun "pv dict"
  | CollaborationRun "pv dict"

record step_world =
  sw_adapter :: adapter_state
  sw_log :: "step_effect list"

text \<open>
  The surroundings. What may change while a step runs is a function of the log so far. \<open>sv_write_result\<close> is the evaluation of
  a marketing write, \<open>sv_timeout_policy\<close> the approval policy of an action, \<open>sv_create_agent\<close> the construction of the agent (whether it
  can be bound to a caller), \<open>sv_check_task\<close> the validation of the task message, \<open>sv_text\<close> and \<open>sv_error_text\<close> the text of
  an exception, \<open>sv_value_error\<close> whether a class of exceptions is below \<open>ValueError\<close>. \<open>sv_order\<close> is the order in which the
  children of a parallel step end; of a cancelled child, \<open>sv_cut\<close> is how many of its effects it had made and \<open>sv_cut_adapter\<close> the
  clients it leaves.
\<close>

record step_env =
  sv_lib :: py_lib
  sv_runtime :: "string option"
  sv_getenv :: "string \<Rightarrow> string option"
  sv_llm_keys :: bool
  sv_llm_mode :: string
  sv_paused_agents_refused :: bool
  sv_parse_uuid :: uuid_parser
  sv_tables :: "step_effect list \<Rightarrow> (exn, wf_tables) res"
  sv_now :: "step_effect list \<Rightarrow> rat"
  sv_adapter :: "step_effect list \<Rightarrow> adapter_env"
  sv_caller :: caller_grant
  sv_grants :: grant_env
  sv_resolve :: resolve_env
  sv_grant_mode :: "step_effect list \<Rightarrow> enforcement_mode"
  sv_fresh_key :: "step_effect list \<Rightarrow> string"
  sv_before :: set_order
  sv_flags :: "step_effect list \<Rightarrow> flag_resolver"
  sv_thinking_profile :: "pv \<Rightarrow> pv"
  sv_write_result :: "pv \<Rightarrow> pv \<Rightarrow> pv \<Rightarrow> string \<Rightarrow> pv dict \<Rightarrow> pv dict \<Rightarrow> pv dict \<Rightarrow> (exn, pv dict) res"
  sv_timeout_policy :: "pv \<Rightarrow> pv dict \<Rightarrow> pv"
  sv_create_agent :: "bool \<Rightarrow> pv dict \<Rightarrow> (exn, bool) res"
  sv_check_task :: "pv \<Rightarrow> pv \<Rightarrow> pv \<Rightarrow> pv dict \<Rightarrow> (exn, unit) res"
  sv_run_agent :: "pv dict \<Rightarrow> pv \<Rightarrow> pv \<Rightarrow> step_effect list \<Rightarrow> (exn, agent_result) res"
  sv_send_email :: "step_effect list \<Rightarrow> (exn, bool) res"
  sv_sub_run :: "pv \<Rightarrow> step_effect list \<Rightarrow> (exn, string \<times> pv dict) res"
  sv_register_wait :: "step_effect list \<Rightarrow> (exn, unit) res"
  sv_schedule :: "step_effect list \<Rightarrow> (exn, unit) res"
  sv_case_step :: "pv dict \<Rightarrow> step_effect list \<Rightarrow> (exn, pv dict) res"
  sv_collaboration :: "pv dict \<Rightarrow> step_effect list \<Rightarrow> (exn, pv dict) res"
  sv_order :: "step_effect list \<Rightarrow> nat list"
  sv_cut :: "step_effect list \<Rightarrow> nat"
  sv_cut_adapter :: "step_effect list \<Rightarrow> adapter_state"
  sv_text :: "string \<Rightarrow> string"
  sv_error_text :: "py_error \<Rightarrow> string"
  sv_value_error :: "string \<Rightarrow> bool"
  sv_isoformat :: "rat \<Rightarrow> string"

section \<open>Code\<close>

type_synonym 'a io = "step_world \<Rightarrow> (exn, 'a) res \<times> step_world"

definition ret :: "'a \<Rightarrow> 'a io" where
  "ret x w = (Inr x, w)"

definition raise :: "exn \<Rightarrow> 'a io" where
  "raise e w = (Inl e, w)"

definition and_then :: "'a io \<Rightarrow> ('a \<Rightarrow> 'b io) \<Rightarrow> 'b io" where
  "and_then m f w = (case m w of (Inl e, w') \<Rightarrow> (Inl e, w') | (Inr x, w') \<Rightarrow> f x w')"

definition try_except :: "'a io \<Rightarrow> (exn \<Rightarrow> bool) \<Rightarrow> (exn \<Rightarrow> 'a io) \<Rightarrow> 'a io" where
  "try_except m caught h w =
     (case m w of (Inl e, w') \<Rightarrow> if caught e then h e w' else (Inl e, w') | (Inr x, w') \<Rightarrow> (Inr x, w'))"

definition ask :: "(step_effect list \<Rightarrow> 'a) \<Rightarrow> 'a io" where
  "ask f w = (Inr (f (sw_log w)), w)"

definition lift :: "(exn, 'a) res \<Rightarrow> 'a io" where
  "lift r w = (r, w)"

definition with_effect :: "step_effect \<Rightarrow> step_world \<Rightarrow> step_world" where
  "with_effect e w = w\<lparr> sw_log := sw_log w @ [e] \<rparr>"

text \<open>An effect with the answer it gets.\<close>

definition perform :: "step_effect \<Rightarrow> (step_effect list \<Rightarrow> (exn, 'a) res) \<Rightarrow> 'a io" where
  "perform e answer w = (answer (sw_log w), with_effect e w)"

definition perform_tool :: "step_env \<Rightarrow> adapter_call \<Rightarrow> pv io" where
  "perform_tool env c w =
     (case dispatch_connector_tool (sv_adapter env (sw_log w)) (sv_now env (sw_log w)) (sv_now env (sw_log w)) c (sw_adapter w) of
        (res, a) \<Rightarrow> (case res of Inl e \<Rightarrow> Inl (e, sv_text env e) | Inr v \<Rightarrow> Inr v, (with_effect (ToolCalled c) w)\<lparr> sw_adapter := a \<rparr>))"

fun error_class :: "py_error \<Rightarrow> string" where
  "error_class (KeyError k) = ''KeyError''"
| "error_class IndexError = ''IndexError''"
| "error_class (TypeError m) = ''TypeError''"
| "error_class (ValueError m) = ''ValueError''"
| "error_class OverflowError = ''OverflowError''"
| "error_class (AttributeError m) = ''AttributeError''"
| "error_class RecursionError = ''RecursionError''"

definition py :: "step_env \<Rightarrow> (py_error, 'a) res \<Rightarrow> 'a io" where
  "py env r = (case r of Inr x \<Rightarrow> ret x | Inl e \<Rightarrow> raise (error_class e, sv_error_text env e))"

definition named :: "step_env \<Rightarrow> (string, 'a) res \<Rightarrow> 'a io" where
  "named env r = (case r of Inr x \<Rightarrow> ret x | Inl e \<Rightarrow> raise (e, sv_text env e))"

fun map_io :: "('a \<Rightarrow> 'b io) \<Rightarrow> 'a list \<Rightarrow> 'b list io" where
  "map_io f [] = ret []"
| "map_io f (x # xs) = and_then (f x) (\<lambda>y. and_then (map_io f xs) (\<lambda>ys. ret (y # ys)))"

section \<open>Triples\<close>

named_theorems does_intros "rules for the effects and values of code"

fun all_steps :: "(step_effect list \<Rightarrow> step_effect \<Rightarrow> bool) \<Rightarrow> step_effect list \<Rightarrow> step_effect list \<Rightarrow> bool" where
  "all_steps P l [] = True"
| "all_steps P l (e # es) = (P l e \<and> all_steps P (l @ [e]) es)"

lemma all_steps_append [simp]: "all_steps P l (xs @ ys) \<longleftrightarrow> all_steps P l xs \<and> all_steps P (l @ xs) ys"
  by (induction xs arbitrary: l) auto

lemma all_steps_take: "all_steps P l es \<Longrightarrow> all_steps P l (take n es)"
  by (metis all_steps_append append_take_drop_id)

lemma all_steps_iff: "all_steps P l es \<longleftrightarrow> (\<forall>i < length es. P (l @ take i es) (es ! i))"
proof (induction es arbitrary: l)
  case (Cons e es)
  show ?case by (auto simp: Cons.IH less_Suc_eq_0_disj)
qed simp

definition does ::
    "(step_effect list \<Rightarrow> step_effect \<Rightarrow> bool) \<Rightarrow> step_effect list \<Rightarrow> 'a io \<Rightarrow> (step_effect list \<Rightarrow> 'a \<Rightarrow> bool) \<Rightarrow> bool" where
  "does P l m Q \<longleftrightarrow> (\<forall>w r w'. sw_log w = l \<longrightarrow> m w = (r, w') \<longrightarrow>
     (\<exists>es. sw_log w' = l @ es \<and> all_steps P l es \<and> (\<forall>x. r = Inr x \<longrightarrow> Q (l @ es) x)))"

lemma doesI:
  assumes "\<And>w r w'. sw_log w = l \<Longrightarrow> m w = (r, w') \<Longrightarrow> \<exists>es. sw_log w' = l @ es \<and> all_steps P l es \<and> (\<forall>x. r = Inr x \<longrightarrow> Q (l @ es) x)"
  shows "does P l m Q"
  unfolding does_def by (intro allI impI) (rule assms)

lemma doesE:
  assumes "does P l m Q" "sw_log w = l" "m w = (r, w')"
  obtains es where "sw_log w' = l @ es" "all_steps P l es" "\<forall>x. r = Inr x \<longrightarrow> Q (l @ es) x"
  using assms(1) [unfolded does_def, rule_format, OF assms(2,3)] that by blast

lemma does_ret [does_intros]: "Q l x \<Longrightarrow> does P l (ret x) Q"
  by (simp add: does_def ret_def)

lemma does_raise [does_intros]: "does P l (raise e) Q"
  by (simp add: does_def raise_def)

lemma does_ask [does_intros]: "Q l (f l) \<Longrightarrow> does P l (ask f) Q"
  by (simp add: does_def ask_def)

lemma does_lift [does_intros]: "(\<And>x. r = Inr x \<Longrightarrow> Q l x) \<Longrightarrow> does P l (lift r) Q"
  by (simp add: does_def lift_def)

lemma does_py [does_intros]: "(\<And>x. r = Inr x \<Longrightarrow> Q l x) \<Longrightarrow> does P l (py env r) Q"
  by (auto simp: py_def intro: does_intros split: sum.splits)

lemma does_named [does_intros]: "(\<And>x. r = Inr x \<Longrightarrow> Q l x) \<Longrightarrow> does P l (named env r) Q"
  by (auto simp: named_def intro: does_intros split: sum.splits)

lemma does_perform [does_intros]: "P l e \<Longrightarrow> (\<And>x. answer l = Inr x \<Longrightarrow> Q (l @ [e]) x) \<Longrightarrow> does P l (perform e answer) Q"
  by (auto simp: does_def perform_def with_effect_def)

lemma does_perform_tool [does_intros]:
  assumes "P l (ToolCalled c)" "\<And>v. Q (l @ [ToolCalled c]) v"
  shows "does P l (perform_tool env c) Q"
  using assms by (auto simp: does_def perform_tool_def with_effect_def split: prod.splits sum.splits)

lemma does_bind:
  assumes "does P l m Q" "\<And>l' x. Q l' x \<Longrightarrow> does P l' (f x) R"
  shows "does P l (and_then m f) R"
proof (rule doesI)
  fix w r w'' assume w: "sw_log w = l" and run: "and_then m f w = (r, w'')"
  obtain r1 w' where m: "m w = (r1, w')" by fastforce
  obtain es where es: "sw_log w' = l @ es" "all_steps P l es" "\<forall>x. r1 = Inr x \<longrightarrow> Q (l @ es) x"
    using doesE [OF assms(1) w m] .
  show "\<exists>es. sw_log w'' = l @ es \<and> all_steps P l es \<and> (\<forall>x. r = Inr x \<longrightarrow> R (l @ es) x)"
  proof (cases r1)
    case (Inl e)
    then have "r = Inl e" "w'' = w'" using run m by (simp_all add: and_then_def)
    then show ?thesis using es(1,2) by (intro exI [of _ es]) simp
  next
    case (Inr x)
    then have "f x w' = (r, w'')" using run m by (simp add: and_then_def)
    from doesE [OF assms(2) [OF es(3) [rule_format, OF Inr]] es(1) this] obtain fs where
      "sw_log w'' = (l @ es) @ fs" "all_steps P (l @ es) fs" "\<forall>y. r = Inr y \<longrightarrow> R ((l @ es) @ fs) y" .
    with es(2) show ?thesis by (intro exI [of _ "es @ fs"]) simp
  qed
qed

lemma does_try:
  assumes "does P l m Q" "\<And>l' e. does P l' (h e) Q"
  shows "does P l (try_except m caught h) Q"
proof (rule doesI)
  fix w r w'' assume w: "sw_log w = l" and run: "try_except m caught h w = (r, w'')"
  obtain r1 w' where m: "m w = (r1, w')" by fastforce
  obtain es where es: "sw_log w' = l @ es" "all_steps P l es" "\<forall>x. r1 = Inr x \<longrightarrow> Q (l @ es) x"
    using doesE [OF assms(1) w m] .
  show "\<exists>es. sw_log w'' = l @ es \<and> all_steps P l es \<and> (\<forall>x. r = Inr x \<longrightarrow> Q (l @ es) x)"
  proof (cases "\<exists>e. r1 = Inl e \<and> caught e")
    case True
    then obtain e where "r1 = Inl e" "caught e" by blast
    then have "h e w' = (r, w'')" using run m by (simp add: try_except_def)
    from doesE [OF assms(2) es(1) this] obtain fs where
      "sw_log w'' = (l @ es) @ fs" "all_steps P (l @ es) fs" "\<forall>y. r = Inr y \<longrightarrow> Q ((l @ es) @ fs) y" .
    with es(2) show ?thesis by (intro exI [of _ "es @ fs"]) simp
  next
    case False
    then have "r = r1" "w'' = w'" using run m by (cases r1; simp add: try_except_def)+
    then show ?thesis using es by (intro exI [of _ es]) simp
  qed
qed

lemma does_weaken:
  assumes "does P l m Q" "\<And>l' x. Q l' x \<Longrightarrow> R l' x"
  shows "does P l m R"
proof (rule doesI)
  fix w r w' assume "sw_log w = l" "m w = (r, w')"
  from doesE [OF assms(1) this] obtain es where "sw_log w' = l @ es" "all_steps P l es" "\<forall>x. r = Inr x \<longrightarrow> Q (l @ es) x" .
  then show "\<exists>es. sw_log w' = l @ es \<and> all_steps P l es \<and> (\<forall>x. r = Inr x \<longrightarrow> R (l @ es) x)"
    using assms(2) by (intro exI [of _ es]) simp
qed

lemma does_map_io:
  assumes "\<And>l x. x \<in> set xs \<Longrightarrow> does P l (f x) (\<lambda>l' y. R x y)"
  shows "does P l (map_io f xs) (\<lambda>l' ys. list_all2 R xs ys)"
  using assms
proof (induction xs arbitrary: l)
  case (Cons x xs)
  show ?case
    unfolding map_io.simps
    by (rule does_bind [OF Cons.prems], simp, rule does_bind [OF Cons.IH], simp add: Cons.prems, rule does_ret) simp
qed (simp add: does_ret)

text \<open>A value of code is a value of a run of it.\<close>

lemma does_self:
  assumes "does P l m Q"
  shows "does P l m (\<lambda>l' x. \<exists>u v. m u = (Inr x, v))"
proof (rule doesI)
  fix w r w' assume w: "sw_log w = l" and m: "m w = (r, w')"
  obtain es where "sw_log w' = l @ es" "all_steps P l es" using doesE [OF assms w m] by metis
  with m show "\<exists>es. sw_log w' = l @ es \<and> all_steps P l es \<and> (\<forall>x. r = Inr x \<longrightarrow> (\<exists>u v. m u = (Inr x, v)))"
    by (intro exI [of _ es]) metis
qed

end
