(* ===== verification/Step_Handlers.thy ===== *)
theory Step_Handlers
  imports Step_World
begin

text \<open>
  The step handlers (\<open>workflows/step_types.py\<close>, \<open>workflows/parallel_executor.py\<close> and the errors of \<open>workflows/step_results.py\<close>): what each type
  of step checks, causes and answers. A step and the state of its run are dictionaries; the state carries the context the
  engine built. Nested steps are run by the same dispatcher, to the depth the interpreter allows.
\<close>

section \<open>Errors\<close>

definition failed_step :: "pv \<Rightarrow> string \<Rightarrow> step_error \<Rightarrow> pv \<Rightarrow> pv dict" where
  "failed_step step_id step_type failure output =
     [(''step_id'', step_id), (''type'', VStr step_type), (''status'', VStr ''failed''), (''output'', output), (''error'', to_error failure)]"

definition MissingAgentConfigError :: "pv \<Rightarrow> step_error" where
  "MissingAgentConfigError step_id = \<lparr> se_code = ''missing_agent_config'',
     se_message = ''Agent step is missing an agent or agent_id configuration.'', se_details = [(''step_id'', step_id)] \<rparr>"

definition MissingLLMProviderConfigError :: "pv \<Rightarrow> pv \<Rightarrow> step_error" where
  "MissingLLMProviderConfigError agent step_id = \<lparr> se_code = ''missing_llm_provider_config'',
     se_message = ''Agent step cannot run because no usable LLM/provider configuration is available.'',
     se_details = [(''agent'', agent), (''step_id'', step_id)] \<rparr>"

definition AgentExecutionError :: "pv \<Rightarrow> pv \<Rightarrow> string \<Rightarrow> string option \<Rightarrow> step_error" where
  "AgentExecutionError agent step_id cause exception_type = \<lparr> se_code = ''agent_execution_failed'', se_message = ''Agent execution failed.'',
     se_details = [(''agent'', agent), (''step_id'', step_id), (''cause'', VStr cause)]
       @ (case exception_type of Some t \<Rightarrow> if t = [] then [] else [(''exception_type'', VStr t)] | None \<Rightarrow> []) \<rparr>"

definition UnsupportedTransformConfigError :: "pv \<Rightarrow> string \<Rightarrow> step_error" where
  "UnsupportedTransformConfigError step_id operation = \<lparr> se_code = ''unsupported_transform_configuration'',
     se_message = ''Transform step is missing a supported transform configuration.'',
     se_details = (''step_id'', step_id) # (if operation = [] then [] else [(''operation'', VStr operation)]) \<rparr>"

definition NotifySideEffectNotConfiguredError :: "pv \<Rightarrow> string \<Rightarrow> step_error" where
  "NotifySideEffectNotConfiguredError step_id connector = \<lparr> se_code = ''notify_side_effect_not_configured'',
     se_message = ''Notify step is missing a configured delivery path.'', se_details = [(''step_id'', step_id), (''connector'', VStr connector)] \<rparr>"

definition NotifyActionContainedError :: "pv \<Rightarrow> string \<Rightarrow> string \<Rightarrow> pv \<Rightarrow> step_error" where
  "NotifyActionContainedError step_id connector reason governance = \<lparr> se_code = ''notify_action_contained'',
     se_message = ''Notify side effect was contained by the action policy.'',
     se_details = [(''step_id'', step_id), (''connector'', VStr connector), (''reason'', VStr reason)]
       @ (if truthy governance then [(''governance'', governance)] else []) \<rparr>"

definition ConnectorToolConfigError :: "pv \<Rightarrow> pv \<Rightarrow> pv \<Rightarrow> step_error" where
  "ConnectorToolConfigError step_id connector tool = \<lparr> se_code = ''connector_tool_config_missing'',
     se_message = ''Connector tool step is missing connector or tool configuration.'',
     se_details = [(''step_id'', step_id), (''connector'', connector), (''tool'', tool)] \<rparr>"

definition ConnectorToolExecutionError :: "py_lib \<Rightarrow> pv \<Rightarrow> string \<Rightarrow> string \<Rightarrow> pv dict \<Rightarrow> step_error" where
  "ConnectorToolExecutionError L step_id connector tool result = \<lparr> se_code = ''connector_tool_execution_failed'',
     se_message = py_str L (or_value (or_value (vget result ''message'') (vget result ''error'')) (VStr (connector @ ''.'' @ tool @ '' failed.''))),
     se_details = [(''step_id'', step_id), (''connector'', VStr connector), (''tool'', VStr tool), (''provider_error'', vget result ''error''),
       (''http_status'', vget result ''http_status''), (''error_class'', vget result ''error_class'')] \<rparr>"

definition ExternalWriteConfirmationMissingError ::
    "string \<Rightarrow> string \<Rightarrow> pv \<Rightarrow> pv \<Rightarrow> string \<Rightarrow> string \<Rightarrow> string \<Rightarrow> string \<Rightarrow> string \<Rightarrow> step_error" where
  "ExternalWriteConfirmationMissingError err step_id action connector mode reason final_state next_action audit_reference =
     \<lparr> se_code = err, se_message = ''External marketing write step cannot complete without write confirmation.'',
       se_details = [(''step_id'', VStr step_id), (''action'', action), (''reason'', VStr reason)]
         @ (if truthy connector then [(''connector'', connector)] else []) @ (if mode = [] then [] else [(''mode'', VStr mode)])
         @ (if final_state = [] then [] else [(''final_state'', VStr final_state)])
         @ (if next_action = [] then [] else [(''next_action'', VStr next_action)])
         @ (if audit_reference = [] then [] else [(''audit_reference'', VStr audit_reference)]) \<rparr>"

definition ParallelChildError :: "pv \<Rightarrow> pv dict list \<Rightarrow> step_error" where
  "ParallelChildError step_id failed_children = \<lparr> se_code = ''parallel_child_failed'',
     se_message = ''One or more parallel child steps failed.'',
     se_details = [(''step_id'', step_id), (''failed_children'', VList (map VDict failed_children))] \<rparr>"

definition stubbed_result :: "pv \<Rightarrow> string \<Rightarrow> string \<Rightarrow> string \<Rightarrow> pv dict \<Rightarrow> pv dict" where
  "stubbed_result step_id step_type err message extra =
     dict_update [(''step_id'', step_id), (''type'', VStr step_type), (''status'', VStr ''stubbed''), (''stubbed'', VBool True),
       (''code'', VStr err), (''reason'', VStr message), (''output'', VDict [])] extra"

section \<open>Settings\<close>

definition TRUTHY_ENV_VALUES :: "string list" where "TRUTHY_ENV_VALUES = [''1'', ''true'', ''yes'', ''on'']"

definition env_flag :: "step_env \<Rightarrow> string \<Rightarrow> bool" where
  "env_flag env name \<longleftrightarrow> lower (strip (case sv_getenv env name of Some v \<Rightarrow> v | None \<Rightarrow> [])) \<in> set TRUTHY_ENV_VALUES"

definition stub_steps_allowed :: "step_env \<Rightarrow> bool" where
  "stub_steps_allowed env \<longleftrightarrow> env_flag env ''AGENTICORG_WORKFLOW_ALLOW_STUB_STEPS'' \<and> is_relaxed_env (sv_runtime env)"

definition fake_llm_allowed :: "step_env \<Rightarrow> bool" where
  "fake_llm_allowed env \<longleftrightarrow> env_flag env ''AGENTICORG_TEST_FAKE_LLM'' \<and> is_relaxed_env (sv_runtime env)"

definition variable_set :: "step_env \<Rightarrow> string \<Rightarrow> bool" where
  "variable_set env name \<longleftrightarrow> sv_getenv env name \<noteq> None \<and> sv_getenv env name \<noteq> Some []"

definition llm_available_for_workflow :: "step_env \<Rightarrow> bool" where
  "llm_available_for_workflow env =
     (if env_flag env ''AGENTICORG_TEST_FAKE_LLM'' \<and> is_strict_runtime_env (sv_runtime env) then False
      else if sv_llm_keys env then True
      else if strip (lower (sv_llm_mode env)) = ''local'' then variable_set env ''OLLAMA_HOST'' \<or> variable_set env ''VLLM_BASE_URL''
      else fake_llm_allowed env)"

section \<open>Reading a step and its run\<close>

definition get_or :: "pv dict \<Rightarrow> string \<Rightarrow> pv \<Rightarrow> pv" where
  "get_or d k v = (case dget d k of Some x \<Rightarrow> x | None \<Rightarrow> v)"

definition dict_at :: "pv dict \<Rightarrow> string \<Rightarrow> pv dict" where
  "dict_at d k = (case vget d k of VDict e \<Rightarrow> e | _ \<Rightarrow> [])"

definition id_or_empty :: "pv dict \<Rightarrow> pv" where
  "id_or_empty step = get_or step ''id'' (VStr [])"

definition id_text :: "step_env \<Rightarrow> pv dict \<Rightarrow> pv" where
  "id_text env step = VStr (py_str (sv_lib env) (id_or_empty step))"

definition the_id :: "step_env \<Rightarrow> pv dict \<Rightarrow> pv io" where
  "the_id env step = py env (dindex step ''id'')"

definition state_lookup :: "pv dict \<Rightarrow> string list \<Rightarrow> pv" where
  "state_lookup state keys =
     (case find (\<lambda>v. v \<noteq> VNone) (concat (map (\<lambda>c. map (vget c) keys) [state, dict_at state ''context'', dict_at state ''definition''])) of
        Some v \<Rightarrow> v
      | None \<Rightarrow> VNone)"

definition tenant_text_of :: "step_env \<Rightarrow> pv dict \<Rightarrow> string" where
  "tenant_text_of env state = (if truthy (vget state ''tenant_id'') then py_str (sv_lib env) (vget state ''tenant_id'') else [])"

definition requested_company :: "pv dict \<Rightarrow> pv dict \<Rightarrow> pv" where
  "requested_company step state = or_value (vget step ''company_id'') (state_lookup state [''company_id''])"

definition requested_domain :: "pv dict \<Rightarrow> pv dict \<Rightarrow> pv" where
  "requested_domain step state = or_value (vget step ''domain'') (state_lookup state [''domain''])"

text \<open>A domain that is no text is normalised by its text, an empty value by the empty one.\<close>

definition domain_arg_of :: "py_lib \<Rightarrow> pv \<Rightarrow> domain_arg" where
  "domain_arg_of L v = (case v of VNone \<Rightarrow> DomainNone | _ \<Rightarrow> DomainText (if truthy v then py_str L v else []))"

definition CALLER_GRANT_KEY :: string where "CALLER_GRANT_KEY = ''grant_caller''"

definition caller_of_run :: "step_env \<Rightarrow> pv dict \<Rightarrow> caller_grant" where
  "caller_of_run env state =
     caller_grant_for_run (sv_caller env)
       (case vget state CALLER_GRANT_KEY of
          VDict m \<Rightarrow> Some (if truthy (vget m ''agent_id'') then py_str (sv_lib env) (vget m ''agent_id'') else [])
        | _ \<Rightarrow> None)"

section \<open>The tables\<close>

definition NEVER_RUNS :: "string list" where "NEVER_RUNS = [''deleted'', ''retired'']"

definition inactive_agent_statuses :: "step_env \<Rightarrow> string list" where
  "inactive_agent_statuses env = (if sv_paused_agents_refused env then ''paused'' # NEVER_RUNS else NEVER_RUNS)"

definition agent_config_of :: "step_env \<Rightarrow> agent_row \<Rightarrow> pv dict" where
  "agent_config_of env agent =
     (let more = ag_more agent; profile = sv_thinking_profile env (vget more ''llm_config'')
      in [(''id'', VStr (ag_id agent)), (''tenant_id'', VStr (ag_tenant_id agent)), (''company_id'', opt_text (ag_company_id agent)),
          (''domain'', ag_domain agent), (''agent_type'', VStr (ag_agent_type agent)),
          (''authorized_tools'', or_value (vget more ''authorized_tools'') (VList [])),
          (''prompt_variables'', or_value (vget more ''prompt_variables'') (VDict [])),
          (''hitl_condition'', or_value (vget more ''hitl_condition'') (VStr [])), (''output_schema'', vget more ''output_schema''),
          (''llm_model'', vget more ''llm_model'')]
         @ (if truthy profile then [(''llm_config'', profile)] else [])
         @ [(''cost_controls'', or_value (vget more ''cost_controls'') (VDict [])),
            (''system_prompt_text'', or_value (vget more ''system_prompt_text'') (VStr [])),
            (''visibility'', VStr (text_or (ag_visibility agent) ''tenant'')), (''owner_user_id'', opt_text (ag_owner_user_id agent))])"

definition tables :: "step_env \<Rightarrow> wf_tables io" where
  "tables env = and_then (ask (sv_tables env)) lift"

definition load_workflow_agent_config :: "step_env \<Rightarrow> pv \<Rightarrow> pv \<Rightarrow> pv dict io" where
  "load_workflow_agent_config env agent_id tenant_id =
     (if \<not> truthy agent_id \<or> \<not> truthy tenant_id then ret []
      else case (sv_parse_uuid env (py_str (sv_lib env) agent_id), sv_parse_uuid env (py_str (sv_lib env) tenant_id)) of
        (Some a, Some t) \<Rightarrow>
          and_then (tables env) (\<lambda>T.
          and_then (named env (scalar_one_or_none (filter (\<lambda>r. ag_id r = a \<and> ag_tenant_id r = t) (tb_agents T)))) (\<lambda>row.
            ret (case row of
                   None \<Rightarrow> []
                 | Some r \<Rightarrow> if ag_status r \<in> set (inactive_agent_statuses env) then [] else agent_config_of env r)))
      | _ \<Rightarrow> ret [])"

definition WORKFLOW_RUN_INITIATOR_KEY :: string where "WORKFLOW_RUN_INITIATOR_KEY = ''initiated_by_user_id''"

definition workflow_run_initiator :: "step_env \<Rightarrow> run_row option \<Rightarrow> string option" where
  "workflow_run_initiator env row =
     (case row of
        None \<Rightarrow> None
      | Some r \<Rightarrow>
          (case rn_context r of
             VDict d \<Rightarrow>
               (let raw = vget d WORKFLOW_RUN_INITIATOR_KEY
                in if truthy raw then sv_parse_uuid env (py_str (sv_lib env) raw) else None)
           | _ \<Rightarrow> None))"

definition workflow_run_may_use_agent :: "step_env \<Rightarrow> pv dict \<Rightarrow> pv dict \<Rightarrow> bool io" where
  "workflow_run_may_use_agent env stored state =
     (let owner = vget stored ''owner_user_id''; run_id = vget state ''workflow_run_id''; tenant_id = vget state ''tenant_id''
      in if vget stored ''visibility'' \<noteq> VStr ''personal'' then ret True
         else if \<not> truthy owner \<or> \<not> truthy run_id \<or> \<not> truthy tenant_id then ret False
         else case (sv_parse_uuid env (py_str (sv_lib env) run_id), sv_parse_uuid env (py_str (sv_lib env) tenant_id)) of
           (Some r, Some t) \<Rightarrow>
             and_then (tables env) (\<lambda>T.
             and_then (named env (scalar_one_or_none (filter (\<lambda>x. rn_id x = r \<and> rn_tenant_id x = t) (tb_runs T)))) (\<lambda>row.
               ret (workflow_run_initiator env row = Some (py_str (sv_lib env) owner))))
         | _ \<Rightarrow> ret False)"

definition validated_workflow_company :: "step_env \<Rightarrow> string \<Rightarrow> pv \<Rightarrow> string io" where
  "validated_workflow_company env tenant_id company_id =
     (case (sv_parse_uuid env tenant_id, sv_parse_uuid env (py_str (sv_lib env) company_id)) of
        (Some t, Some c) \<Rightarrow>
          and_then (tables env) (\<lambda>T.
            if (c, t) \<in> set (tb_companies T) then ret c
            else raise (''ValueError'', ''Workflow company scope does not belong to tenant''))
      | _ \<Rightarrow> raise (''ValueError'', ''A valid company_id is required for workflow execution''))"

definition is_value_error :: "step_env \<Rightarrow> exn \<Rightarrow> bool" where
  "is_value_error env e \<longleftrightarrow> fst e = ''ValueError'' \<or> sv_value_error env (fst e)"

text \<open>The outcome of code as a value: what it returns, or the exception it raises when that is to be caught.\<close>

definition outcome_of :: "'a io \<Rightarrow> (exn \<Rightarrow> bool) \<Rightarrow> ((exn, 'a) res) io" where
  "outcome_of m caught = try_except (and_then m (\<lambda>x. ret (Inr x))) caught (\<lambda>e. ret (Inl e))"

definition load_workflow_connector_config :: "step_env \<Rightarrow> string \<Rightarrow> string \<Rightarrow> string \<Rightarrow> pv dict io" where
  "load_workflow_connector_config env connector tenant_id company =
     (if connector = [] \<or> tenant_id = [] then ret []
      else case sv_parse_uuid env tenant_id of
        None \<Rightarrow> ret []
      | Some t \<Rightarrow>
          and_then (tables env) (\<lambda>T.
          and_then (named env (cf_rows (tb_configs T))) (\<lambda>rows.
          and_then (named env (scalar_one_or_none (config_rows_for t company connector rows))) (\<lambda>row.
            (case row of None \<Rightarrow> ret [] | Some r \<Rightarrow> named env (stored_config (tb_configs T) r))))))"

section \<open>Connector steps\<close>

definition substitute_inputs :: "pv dict \<Rightarrow> pv dict \<Rightarrow> pv dict \<Rightarrow> pv dict" where
  "substitute_inputs context_values trigger inputs =
     map (\<lambda>(k, v). (k, case v of
          VStr s \<Rightarrow>
            (case s of
               c # name \<Rightarrow>
                 if c = CHR ''$'' then
                   (case dget context_values name of Some x \<Rightarrow> x | None \<Rightarrow> (case dget trigger name of Some x \<Rightarrow> x | None \<Rightarrow> v))
                 else v
             | [] \<Rightarrow> v)
        | _ \<Rightarrow> v)) inputs"

definition connector_step_inputs :: "pv dict \<Rightarrow> pv dict \<Rightarrow> pv dict" where
  "connector_step_inputs step state =
     (case get_or step ''params'' (get_or step ''arguments'' (get_or step ''inputs'' (VDict []))) of
        VDict raw \<Rightarrow> substitute_inputs (dict_at state ''context'') (dict_at state ''trigger_payload'') raw
      | _ \<Rightarrow> [])"

definition text_option :: "string \<Rightarrow> string option" where
  "text_option s = (if s = [] then None else Some s)"

definition step_request :: "step_env \<Rightarrow> pv dict \<Rightarrow> run_request" where
  "step_request env state =
     (let caller = caller_of_run env state
      in \<lparr> rr_tenant_id = text_option (tenant_text_of env state), rr_agent_id = Some [], rr_supplied_token = [], rr_grantex_config = None,
           rr_caller_token = cg_token caller, rr_caller_agent_id = cg_agent_id caller, rr_caller_required = cg_required caller,
           rr_isolation_key = None \<rparr>)"

text \<open>The grant of a connector step: no agent makes the call, but the caller of the run binds it.\<close>

definition step_grant :: "step_env \<Rightarrow> pv dict \<Rightarrow> step_effect list \<Rightarrow> run_grant" where
  "step_grant env state l =
     resolve_run_grant (sv_resolve env) (ge_settings (sv_grants env)) (sv_grant_mode env l) (sv_fresh_key env l) (step_request env state)"

definition step_tool_call :: "step_env \<Rightarrow> pv dict \<Rightarrow> pv dict \<Rightarrow> string \<Rightarrow> string \<Rightarrow> string \<Rightarrow> pv dict \<Rightarrow> adapter_call" where
  "step_tool_call env step state connector tool company config =
     \<lparr> xc_connector = connector, xc_tool = tool, xc_params = VDict (connector_step_inputs step state), xc_config = config,
       xc_tenant_id = text_option (tenant_text_of env state), xc_company_id = Some company,
       xc_domain = domain_arg_of (sv_lib env) (requested_domain step state), xc_authorization = None, xc_agent_id = [] \<rparr>"

definition grant_missing_result :: pv where
  "grant_missing_result = VDict [(''error'', VDict [(''code'', VStr ''E1007''), (''message'', VStr ''grant_denied: grant_missing''),
     (''reason'', VStr ''grant_missing'')])]"

definition company_and_config :: "step_env \<Rightarrow> string \<Rightarrow> string \<Rightarrow> pv \<Rightarrow> (string \<times> pv dict) io" where
  "company_and_config env connector tenant_id company_id =
     and_then (validated_workflow_company env tenant_id company_id) (\<lambda>company.
     and_then (load_workflow_connector_config env connector tenant_id company) (\<lambda>config. ret (company, config)))"

definition settle_tool :: "step_env \<Rightarrow> pv dict \<Rightarrow> string \<Rightarrow> string \<Rightarrow> pv \<Rightarrow> pv dict io" where
  "settle_tool env step connector tool result =
     (case result of
        VDict d \<Rightarrow>
          if truthy (vget d ''error'') then
            ret (failed_step (id_text env step) ''connector_tool'' (ConnectorToolExecutionError (sv_lib env) (id_text env step) connector tool d) result)
          else and_then (the_id env step) (\<lambda>i. ret [(''step_id'', i), (''type'', VStr ''connector_tool''), (''status'', VStr ''completed''),
                 (''output'', result), (''connector'', VStr connector), (''tool'', VStr tool)])
      | _ \<Rightarrow> and_then (the_id env step) (\<lambda>i. ret [(''step_id'', i), (''type'', VStr ''connector_tool''), (''status'', VStr ''completed''),
               (''output'', result), (''connector'', VStr connector), (''tool'', VStr tool)]))"

definition call_step_tool :: "step_env \<Rightarrow> pv dict \<Rightarrow> pv dict \<Rightarrow> string \<Rightarrow> string \<Rightarrow> string \<Rightarrow> pv dict \<Rightarrow> pv dict io" where
  "call_step_tool env step state connector tool company config =
     and_then (ask (step_grant env state)) (\<lambda>grant.
     and_then (named env (direct_tool_call_permitted (sv_grants env) grant connector tool)) (\<lambda>permitted_call.
     and_then (if permitted_call then perform_tool env (step_tool_call env step state connector tool company config)
               else ret grant_missing_result) (\<lambda>result.
       settle_tool env step connector tool result)))"

definition execute_connector_tool_step :: "step_env \<Rightarrow> pv dict \<Rightarrow> pv dict \<Rightarrow> pv dict io" where
  "execute_connector_tool_step env step state =
     (case tool_ref_of (sv_lib env) step (vget step ''id'') True of
        None \<Rightarrow> ret (failed_step (id_text env step) ''connector_tool'' (ConnectorToolConfigError (id_text env step) VNone VNone) VNone)
      | Some (connector, tool) \<Rightarrow>
          if connector = [] \<or> tool = [] then
            ret (failed_step (id_text env step) ''connector_tool'' (ConnectorToolConfigError (id_text env step) (VStr connector) (VStr tool)) VNone)
          else
            and_then (outcome_of (company_and_config env connector (tenant_text_of env state) (requested_company step state)) (is_value_error env)) (\<lambda>scope.
              (case scope of
                 Inl e \<Rightarrow>
                   (let result = [(''error'', VStr ''company_scope_invalid''), (''message'', VStr (snd e))]
                    in ret (failed_step (id_text env step) ''connector_tool''
                         (ConnectorToolExecutionError (sv_lib env) (id_text env step) connector tool result) (VDict result)))
               | Inr (company, config) \<Rightarrow>
                   call_step_tool env step state connector tool company config)))"

section \<open>Marketing writes\<close>

definition MARKETING_AGENT_TYPES :: "string list" where
  "MARKETING_AGENT_TYPES = [''abm_agent'', ''brand_monitor'', ''campaign_pilot'', ''competitive_intel'', ''content_factory'',
     ''crm_intelligence'', ''email_marketing'', ''seo_strategist'', ''social_media'']"

definition MARKETING_WRITE_ACTION_HINTS :: "string list" where
  "MARKETING_WRITE_ACTION_HINTS = [''activate'', ''add_to_drip'', ''launch'', ''mutate'', ''publish'', ''schedule'', ''send'', ''setup'',
     ''spend'', ''start_nurture'', ''update_crm'']"

definition EXTERNAL_WRITE_ACTIONS :: "string list" where
  "EXTERNAL_WRITE_ACTIONS = [''bulk_crm_update'', ''change_segment_membership'', ''change_target_accounts'', ''comparative_claim'',
     ''apply_redirect'', ''create_abm_campaign'', ''create_campaign'', ''crisis_response'', ''launch_campaign'', ''launch_abm_campaign'',
     ''launch_competitive_campaign'', ''mutate_ad_budget'', ''pause_campaign'', ''pricing_claim'', ''promote_lifecycle_stage'',
     ''public_response'', ''publish'', ''publish_brand_response'', ''publish_competitive_response'', ''publish_landing_page'',
     ''publish_post'', ''publish_seo_change'', ''publish_to_wordpress'', ''reply_to_mention'', ''schedule_campaign_posts'',
     ''schedule_content_promotion'', ''schedule_post'', ''send'', ''send_email'', ''spend'', ''sync_target_accounts'',
     ''target_account_list_change'', ''update_canonical_tag'', ''update_ad_budget'', ''update_crm'', ''update_landing_page'',
     ''update_lead_scores'', ''update_lifecycle_stage'', ''update_page_metadata'', ''update_robots_txt'', ''update_segment_membership'',
     ''update_sitemap'', ''update_target_accounts'', ''write_external'']"

definition workflow_mode :: "step_env \<Rightarrow> pv dict \<Rightarrow> pv dict \<Rightarrow> pv dict \<Rightarrow> string" where
  "workflow_mode env step state output =
     normalize_key (sv_lib env) (or_value (or_value (or_value (or_value (vget step ''workflow_mode'') (vget step ''mode''))
       (vget output ''workflow_mode'')) (vget output ''mode''))
       (state_lookup state [''workflow_mode'', ''cmo_workflow_mode'', ''configured_mode'', ''mode'']))"

definition marketing_context :: "step_env \<Rightarrow> pv dict \<Rightarrow> pv dict \<Rightarrow> pv \<Rightarrow> bool" where
  "marketing_context env step state agent_type \<longleftrightarrow>
     normalize_key (sv_lib env) (requested_domain step state) = ''marketing''
     \<or> normalize_key (sv_lib env) agent_type \<in> set MARKETING_AGENT_TYPES"

definition requires_marketing_write_confirmation :: "step_env \<Rightarrow> pv dict \<Rightarrow> pv dict \<Rightarrow> pv \<Rightarrow> pv \<Rightarrow> bool" where
  "requires_marketing_write_confirmation env step state agent_type action =
     (let marked = (\<lambda>b. vget step ''external_write_required'' = VBool b \<or> vget step ''requires_external_write'' = VBool b);
          normalized_action = normalize_key (sv_lib env) action
      in if marked False then False
         else if marked True then True
         else marketing_context env step state agent_type
           \<and> (normalized_action \<in> set EXTERNAL_WRITE_ACTIONS \<or> list_ex (\<lambda>hint. contains hint normalized_action) MARKETING_WRITE_ACTION_HINTS))"

definition connector_key_of :: "step_env \<Rightarrow> pv dict \<Rightarrow> pv dict \<Rightarrow> pv" where
  "connector_key_of env step output =
     (let value = or_value (or_value (or_value (vget step ''connector_key'') (vget step ''connector'')) (vget output ''connector_key''))
            (vget output ''connector'')
      in if truthy value then VStr (lower (strip (py_str (sv_lib env) value))) else VNone)"

definition connector_contracts_from_state :: "pv dict \<Rightarrow> pv" where
  "connector_contracts_from_state state =
     (case state_lookup state [''connector_contracts'', ''marketing_connector_contracts'', ''cmo_connector_contracts''] of
        VList xs \<Rightarrow> VList xs
      | _ \<Rightarrow> VList [])"

text \<open>\<open>None\<close> as a verdict is the empty dictionary: both are falsy.\<close>

definition external_write_decision :: "step_env \<Rightarrow> pv dict \<Rightarrow> pv dict \<Rightarrow> pv \<Rightarrow> pv \<Rightarrow> pv dict \<Rightarrow> pv dict io" where
  "external_write_decision env step state agent_type action output =
     (if \<not> requires_marketing_write_confirmation env step state agent_type action then ret []
      else lift (sv_write_result env (connector_contracts_from_state state) (connector_key_of env step output) action
             (text_or (workflow_mode env step state output) ''active'') output step state))"

definition output_with_external_write_decision :: "pv \<Rightarrow> pv dict \<Rightarrow> pv dict" where
  "output_with_external_write_decision output verdict =
     dict_update (case output of VDict d \<Rightarrow> d | v \<Rightarrow> [(''result'', v)])
       ([(''external_write_state'', vget verdict ''final_state''), (''external_write_reason'', vget verdict ''reason''),
         (''external_write_next_action'', vget verdict ''next_action''), (''external_write_attempt'', vget verdict ''attempt''),
         (''external_write_confirmation'', vget verdict ''confirmation''), (''external_write_retry_plan'', vget verdict ''retry_plan''),
         (''external_write_audit'', or_value (vget verdict ''audit_events'') (VList [])),
         (''external_write_audit_reference'', vget verdict ''audit_reference''), (''decision_audit'', vget verdict ''decision_audit''),
         (''decision_audit_ref'', vget verdict ''decision_audit_ref'')]
        @ (if vget verdict ''escalation_decision'' \<noteq> VNone
           then [(''external_write_escalation_decision'', vget verdict ''escalation_decision''),
                 (''external_write_escalation_evidence'', vget verdict ''escalation_evidence'')] else [])
        @ (if vget verdict ''marketing_policy_decision'' \<noteq> VNone
           then [(''marketing_policy_decision'', vget verdict ''marketing_policy_decision'')] else []))"

definition text_value_or :: "step_env \<Rightarrow> pv \<Rightarrow> string \<Rightarrow> string" where
  "text_value_or env v dflt = (if truthy v then py_str (sv_lib env) v else dflt)"

definition external_write_failure :: "step_env \<Rightarrow> pv dict \<Rightarrow> pv \<Rightarrow> pv \<Rightarrow> string \<Rightarrow> pv dict \<Rightarrow> step_error" where
  "external_write_failure env step action connector_key mode verdict =
     ExternalWriteConfirmationMissingError (text_value_or env (vget verdict ''error_code'') ''external_write_confirmation_missing'')
       (py_str (sv_lib env) (id_or_empty step)) action connector_key mode
       (text_value_or env (vget verdict ''reason'') ''External write confirmation is missing.'')
       (text_value_or env (vget verdict ''final_state'') []) (text_value_or env (vget verdict ''next_action'') [])
       (text_value_or env (vget verdict ''audit_reference'') [])"

section \<open>Agent steps\<close>

definition missing_agent_result :: "step_env \<Rightarrow> pv dict \<Rightarrow> pv \<Rightarrow> pv dict" where
  "missing_agent_result env step action =
     (if stub_steps_allowed env then
        stubbed_result (id_or_empty step) ''agent'' ''missing_agent_config''
          ''Agent execution uses relaxed-env placeholder because no agent config was provided.'' [(''agent'', VStr []), (''action'', action)]
      else failed_step (id_or_empty step) ''agent'' (MissingAgentConfigError (id_or_empty step)) VNone)"

definition missing_llm_result :: "step_env \<Rightarrow> pv dict \<Rightarrow> pv \<Rightarrow> pv \<Rightarrow> pv dict" where
  "missing_llm_result env step agent_type action =
     (if stub_steps_allowed env then
        stubbed_result (id_or_empty step) ''agent'' ''missing_llm_provider_config''
          ''Agent execution uses relaxed-env placeholder because no LLM/provider config is available.'' [(''agent'', agent_type), (''action'', action)]
      else failed_step (id_or_empty step) ''agent'' (MissingLLMProviderConfigError agent_type (id_or_empty step)) VNone)"

definition agent_failure :: "step_env \<Rightarrow> pv dict \<Rightarrow> pv \<Rightarrow> string \<Rightarrow> pv dict" where
  "agent_failure env step agent_type cause =
     failed_step (id_text env step) ''agent'' (AgentExecutionError agent_type (id_text env step) cause None) VNone"

definition from_step :: "pv dict \<Rightarrow> pv dict \<Rightarrow> string \<Rightarrow> pv \<Rightarrow> pv" where
  "from_step step stored k dflt = (if dhas step k then vget step k else get_or stored k dflt)"

definition agent_instance_config :: "pv dict \<Rightarrow> pv dict \<Rightarrow> pv dict \<Rightarrow> pv \<Rightarrow> pv \<Rightarrow> string \<Rightarrow> pv \<Rightarrow> pv dict" where
  "agent_instance_config step state stored agent_id agent_type company config_id =
     [(''id'', config_id), (''tenant_id'', or_value (vget stored ''tenant_id'') (get_or state ''tenant_id'' (VStr []))), (''company_id'', VStr company),
      (''domain'', or_value (or_value (vget step ''domain'') (vget stored ''domain'')) (state_lookup state [''domain''])),
      (''agent_type'', agent_type), (''authorized_tools'', from_step step stored ''authorized_tools'' (VList [])),
      (''prompt_variables'', from_step step stored ''prompt_variables'' (VDict [])),
      (''hitl_condition'', from_step step stored ''hitl_condition'' (VStr [])), (''output_schema'', from_step step stored ''output_schema'' VNone),
      (''system_prompt_text'', from_step step stored ''system_prompt_text'' (VStr [])),
      (''llm_model'', or_value (vget step ''llm_model'') (vget stored ''llm_model''))]
     @ (if truthy (vget stored ''llm_config'') then [(''llm_config'', vget stored ''llm_config'')] else [])
     @ [(''cost_controls'', from_step step stored ''cost_controls'' VNone)]"

definition agent_config_id :: "step_env \<Rightarrow> pv dict \<Rightarrow> pv dict \<Rightarrow> pv \<Rightarrow> pv io" where
  "agent_config_id env step stored agent_id =
     (if truthy (vget stored ''id'') then ret (vget stored ''id'')
      else if truthy agent_id then ret agent_id
      else and_then (the_id env step) (\<lambda>i. ret (VStr (''wf_agent_'' @ py_str (sv_lib env) i))))"

definition agent_answer :: "pv \<Rightarrow> string \<Rightarrow> pv \<Rightarrow> pv dict \<Rightarrow> agent_result \<Rightarrow> pv \<Rightarrow> pv \<Rightarrow> pv dict" where
  "agent_answer i status output resume result agent_type action =
     [(''step_id'', i), (''type'', VStr ''agent''), (''status'', VStr status), (''output'', output)] @ resume
     @ [(''confidence'', ar_confidence result), (''reasoning_trace'', ar_reasoning_trace result), (''tool_calls'', ar_tool_calls result),
        (''agent'', agent_type), (''action'', action)]"

text \<open>What an agent failed with: its own code and message where it gives them.\<close>

definition agent_failed :: "step_env \<Rightarrow> pv \<Rightarrow> pv \<Rightarrow> pv \<Rightarrow> step_error" where
  "agent_failed env agent_type i err =
     (let fields = (case err of VDict d \<Rightarrow> d | _ \<Rightarrow> []);
          failure = AgentExecutionError agent_type i (text_value_or env (vget fields ''message'') ''Agent returned failed status.'') None
      in if truthy (vget fields ''code'') then failure\<lparr> se_code := py_str (sv_lib env) (vget fields ''code'') \<rparr> else failure)"

definition settle_agent :: "step_env \<Rightarrow> pv dict \<Rightarrow> pv dict \<Rightarrow> pv \<Rightarrow> pv \<Rightarrow> pv \<Rightarrow> agent_result \<Rightarrow> pv dict io" where
  "settle_agent env step state agent_type action i result =
     (let status = (if ar_status result = ''hitl_triggered'' then ''waiting_hitl'' else ar_status result);
          output = (case ar_output result of VDict d \<Rightarrow> d | _ \<Rightarrow> [])
      in if status \<notin> set ALLOWED_STEP_STATUSES then
           ret (failed_step i ''agent'' ((UnknownStepStatusError [] (VStr status))\<lparr> se_details := [(''step_id'', i), (''status'', VStr status)] \<rparr>) (ar_output result))
         else if status = ''failed'' then ret (failed_step i ''agent'' (agent_failed env agent_type i (ar_error result)) (ar_output result))
         else if status = ''completed'' then
           and_then (external_write_decision env step state agent_type action output) (\<lambda>verdict.
             if verdict = [] then ret (agent_answer i status (ar_output result) [] result agent_type action)
             else let augmented = VDict (output_with_external_write_decision (ar_output result) verdict);
                      step_status = text_value_or env (vget verdict ''step_status'') ''failed''
                  in if step_status = ''failed'' then
                       ret (failed_step i ''agent'' (external_write_failure env step action (connector_key_of env step output)
                              (workflow_mode env step state output) verdict) augmented)
                     else if step_status = ''waiting_delay'' then
                       ret (agent_answer i ''waiting_delay'' augmented [(''resume_at'', vget verdict ''resume_at'')] result agent_type action)
                     else ret (agent_answer i status augmented [] result agent_type action))
         else ret (agent_answer i status (ar_output result) [] result agent_type action))"

definition run_agent :: "step_env \<Rightarrow> pv dict \<Rightarrow> pv dict \<Rightarrow> pv dict \<Rightarrow> pv \<Rightarrow> pv \<Rightarrow> pv \<Rightarrow> pv \<Rightarrow> string \<Rightarrow> pv dict io" where
  "run_agent env step state stored agent_id agent_type action inputs company =
     and_then (agent_config_id env step stored agent_id) (\<lambda>config_id.
       (let config = agent_instance_config step state stored agent_id agent_type company config_id; caller = caller_of_run env state
        in and_then (lift (sv_create_agent env (fake_llm_allowed env \<and> \<not> sv_llm_keys env) config)) (\<lambda>can_bind.
             if \<not> can_bind \<and> bound caller then
               ret (agent_failure env step agent_type ''Agent cannot be bound to the caller grant that started this run.'')
             else and_then (the_id env step) (\<lambda>i.
                  and_then (lift (sv_check_task env i action inputs state)) (\<lambda>u.
                  and_then (perform (AgentRan stored config caller) (sv_run_agent env config action inputs)) (\<lambda>result.
                    settle_agent env step state agent_type action i result))))))"

definition run_agent_or_fail ::
    "step_env \<Rightarrow> pv dict \<Rightarrow> pv dict \<Rightarrow> pv dict \<Rightarrow> pv \<Rightarrow> pv \<Rightarrow> pv \<Rightarrow> pv \<Rightarrow> string \<Rightarrow> pv dict io" where
  "run_agent_or_fail env step state stored agent_id agent_type action inputs company =
     try_except (run_agent env step state stored agent_id agent_type action inputs company) (\<lambda>e. True)
       (\<lambda>e. and_then (the_id env step) (\<lambda>i.
          ret (failed_step i ''agent'' (AgentExecutionError agent_type i (snd e) (Some (fst e))) VNone)))"

definition execute_agent :: "step_env \<Rightarrow> pv dict \<Rightarrow> pv dict \<Rightarrow> pv dict io" where
  "execute_agent env step state =
     (let L = sv_lib env; agent_id = get_or step ''agent_id'' (VStr []); tenant_id = get_or state ''tenant_id'' (VStr [])
      in and_then (load_workflow_agent_config env agent_id tenant_id) (\<lambda>stored.
           (let agent_type = or_value (get_or step ''agent'' (get_or step ''agent_type'' (VStr []))) (get_or stored ''agent_type'' (VStr []));
                action = get_or step ''action'' (VStr ''process'');
                inputs = get_or step ''inputs'' (get_or state ''trigger_payload'' (VDict []))
            in and_then (if stored = [] then ret True else workflow_run_may_use_agent env stored state) (\<lambda>allowed.
                 if \<not> allowed then
                   ret (agent_failure env step agent_type
                     (''Workflow step references a personal agent; only a run started by the agent'' @ CHR 0x27 # ''s owner may use it.''))
                 else if \<not> truthy agent_type \<and> \<not> truthy agent_id then ret (missing_agent_result env step action)
                 else if \<not> llm_available_for_workflow env then ret (missing_llm_result env step agent_type action)
                 else let step_company = vget step ''company_id''; stored_company = vget stored ''company_id'';
                          requested = or_value (or_value step_company stored_company) (state_lookup state [''company_id''])
                      in if truthy step_company \<and> truthy stored_company \<and> py_str L step_company \<noteq> py_str L stored_company then
                           ret (agent_failure env step agent_type ''Workflow step cannot override the stored agent company scope.'')
                         else and_then (outcome_of (validated_workflow_company env (py_str L tenant_id) requested) (is_value_error env)) (\<lambda>scope.
                                (case scope of
                                   Inl e \<Rightarrow> ret (agent_failure env step agent_type (snd e))
                                 | Inr company \<Rightarrow> run_agent_or_fail env step state stored agent_id agent_type action inputs company))))))"

section \<open>Conditions and approvals\<close>

definition execute_condition :: "step_env \<Rightarrow> pv dict \<Rightarrow> pv dict \<Rightarrow> pv dict io" where
  "execute_condition env step state =
     (case get_or step ''condition'' (get_or step ''expression'' (VStr ''true'')) of
        VStr condition \<Rightarrow>
          and_then (py env (evaluate_condition (sv_lib env) (dict_at state ''context'') condition)) (\<lambda>result.
          and_then (the_id env step) (\<lambda>i.
            ret [(''step_id'', i), (''type'', VStr ''condition''), (''status'', VStr ''completed''), (''result'', VBool result),
                 (''next_path'', if result then vget step ''true_path'' else vget step ''false_path'')]))
      | _ \<Rightarrow> py env (Inl (AttributeError ''strip'')))"

definition execute_hitl :: "step_env \<Rightarrow> pv dict \<Rightarrow> pv dict \<Rightarrow> pv dict io" where
  "execute_hitl env step state =
     (let action = or_value (or_value (vget step ''approval_action'') (vget step ''action''))
            (state_lookup state [''action'', ''approval_action'', ''blocked_action'']);
          timeout_policy = (if truthy action then sv_timeout_policy env action step else VNone);
          timeout_hours = (case timeout_policy of VDict d \<Rightarrow> vget d ''default_sla_hours'' | _ \<Rightarrow> get_or step ''timeout_hours'' (VInt 4))
      in and_then (the_id env step) (\<lambda>i.
           ret [(''step_id'', i), (''type'', VStr ''human_in_loop''), (''status'', VStr ''waiting_hitl''),
                (''assignee_role'', get_or step ''assignee_role'' (VStr [])), (''timeout_hours'', timeout_hours),
                (''approval_action'', action), (''approval_timeout_policy'', timeout_policy)]))"

section \<open>Notifications\<close>

definition EMAIL_CONNECTORS :: "string list" where "EMAIL_CONNECTORS = [''email'', ''sendgrid'', ''smtp'']"

definition notify_decision :: "step_env \<Rightarrow> pv dict \<Rightarrow> pv dict \<Rightarrow> string option \<Rightarrow> step_effect list \<Rightarrow> action_decision" where
  "notify_decision env step state company l =
     evaluate_action (sv_before env) (sv_parse_uuid env) ''email:send_email''
       \<lparr> ctx_tenant_id = (case text_option (tenant_text_of env state) of None \<Rightarrow> UuidNone | Some t \<Rightarrow> UuidText t),
         ctx_company_id = (case company of None \<Rightarrow> UuidNone | Some c \<Rightarrow> UuidText c),
         ctx_domain = domain_arg_of (sv_lib env) (requested_domain step state), ctx_runtime_env = sv_runtime env \<rparr>
       None (Some (sv_flags env l))"

definition notify_governed :: "step_env \<Rightarrow> pv dict \<Rightarrow> pv dict \<Rightarrow> bool" where
  "notify_governed env step state \<longleftrightarrow>
     is_strict_runtime_env (sv_runtime env) \<or> tenant_text_of env state \<noteq> [] \<or> truthy (requested_company step state)
     \<or> truthy (requested_domain step state)"

text \<open>The refusal of the policy, if any: the failed result. \<open>scope\<close> is the company, or the error of its validation.\<close>

definition notify_verdict :: "step_env \<Rightarrow> pv dict \<Rightarrow> pv dict \<Rightarrow> string \<Rightarrow> (exn, string option) res \<Rightarrow> ((pv dict) option) io" where
  "notify_verdict env step state connector scope =
     (case scope of
        Inl e \<Rightarrow> and_then (the_id env step) (\<lambda>i.
          ret (Some (failed_step i ''notify'' (NotifyActionContainedError i connector (snd e) VNone) VNone)))
      | Inr company \<Rightarrow>
          and_then (ask (notify_decision env step state company)) (\<lambda>verdict.
            if dispatch_allowed verdict then ret None
            else and_then (the_id env step) (\<lambda>i.
              ret (Some (failed_step i ''notify'' (NotifyActionContainedError i connector (ad_reason verdict) (decision_dict verdict))
                (VDict [(''governance'', decision_dict verdict)]))))))"

definition notify_refusal :: "step_env \<Rightarrow> pv dict \<Rightarrow> pv dict \<Rightarrow> string \<Rightarrow> ((pv dict) option) io" where
  "notify_refusal env step state connector =
     (if \<not> notify_governed env step state then ret None
      else if truthy (requested_company step state) then
        and_then (outcome_of (validated_workflow_company env (tenant_text_of env state) (requested_company step state)) (is_value_error env)) (\<lambda>scope.
          notify_verdict env step state connector (case scope of Inl e \<Rightarrow> Inl e | Inr c \<Rightarrow> Inr (Some c)))
      else notify_verdict env step state connector (Inr None))"

definition notify_fallback :: "step_env \<Rightarrow> pv dict \<Rightarrow> string \<Rightarrow> pv dict io" where
  "notify_fallback env step connector =
     and_then (the_id env step) (\<lambda>i.
       ret (if stub_steps_allowed env then
              stubbed_result i ''notify'' ''notify_side_effect_not_configured''
                ''Notify execution uses relaxed-env placeholder because no delivery path is configured.'' [(''connector'', VStr connector)]
            else failed_step i ''notify'' (NotifySideEffectNotConfiguredError i connector) VNone))"

definition execute_notify :: "step_env \<Rightarrow> pv dict \<Rightarrow> pv dict \<Rightarrow> pv dict io" where
  "execute_notify env step state =
     (let L = sv_lib env; connector = lower (py_str L (get_or step ''connector'' (get_or step ''channel'' (VStr []))));
          target = or_value (vget step ''to'') (vget step ''target'');
          subject = or_value (vget step ''subject'') (VStr ''AgenticOrg workflow notification'');
          html = or_value (or_value (or_value (vget step ''html'') (vget step ''message'')) (vget step ''body'')) (VStr [])
      in if connector \<in> set EMAIL_CONNECTORS \<and> truthy target \<and> truthy html then
           and_then (notify_refusal env step state connector) (\<lambda>refused_step.
             (case refused_step of
                Some result \<Rightarrow> ret result
              | None \<Rightarrow>
                  and_then (perform (EmailSent (py_str L target) (py_str L subject) (py_str L html)) (sv_send_email env)) (\<lambda>sent.
                    if sent then and_then (the_id env step) (\<lambda>i.
                      ret [(''step_id'', i), (''type'', VStr ''notify''), (''status'', VStr ''completed''),
                        (''output'', VDict [(''status'', VStr ''sent''), (''connector'', VStr connector), (''target'', target),
                           (''side_effect'', VStr ''email_send'')])])
                    else notify_fallback env step connector)))
         else notify_fallback env step connector)"

section \<open>Transformations\<close>

definition context_value :: "pv dict \<Rightarrow> string \<Rightarrow> pv \<Rightarrow> pv" where
  "context_value state key dflt =
     (case dget (dict_at state ''context'') key of
        Some v \<Rightarrow> v
      | None \<Rightarrow> get_or (dict_at state ''trigger_payload'') key dflt)"

text \<open>Keys are texts; the model has no dictionary with another key.\<close>

definition text_key :: "pv \<Rightarrow> (py_error, string) res" where
  "text_key v = (case v of VStr s \<Rightarrow> Inr s | _ \<Rightarrow> Inl (TypeError ''key''))"

fun fl_negative :: "pyfloat \<Rightarrow> bool" where
  "fl_negative (Fin r) = (r < 0)"
| "fl_negative NegInf = True"
| "fl_negative _ = False"

fun fl_times :: "pyfloat \<Rightarrow> pyfloat \<Rightarrow> pyfloat" where
  "fl_times (Fin a) (Fin b) = to_double (a * b)"
| "fl_times NaN b = NaN"
| "fl_times a NaN = NaN"
| "fl_times a b = (if a = Fin 0 \<or> b = Fin 0 then NaN else if fl_negative a = fl_negative b then PosInf else NegInf)"

definition completed_transform :: "step_env \<Rightarrow> pv dict \<Rightarrow> pv \<Rightarrow> pv dict io" where
  "completed_transform env step output =
     and_then (the_id env step) (\<lambda>i.
       ret [(''step_id'', i), (''type'', VStr ''transform''), (''status'', VStr ''completed''), (''output'', output)])"

definition currency_convert :: "pv dict \<Rightarrow> pv \<Rightarrow> (py_error, pv) res" where
  "currency_convert state config =
     rbind (get_default config ''amount_field'' (VStr ''invoice_amount_usd'')) (\<lambda>amount_field.
     rbind (get_default config ''rate_field'' (VStr ''exchange_rate'')) (\<lambda>rate_field.
     rbind (get_default config ''output_field'' (VStr ''converted_amount'')) (\<lambda>output_field.
     rbind (text_key amount_field) (\<lambda>a. rbind (text_key rate_field) (\<lambda>r. rbind (text_key output_field) (\<lambda>out.
     rbind (py_float (context_value state a (VInt 0))) (\<lambda>amount.
     rbind (py_float (context_value state r (VInt 0))) (\<lambda>rate.
       Inr (VDict (dict_of [(out, VFloat (fl_times amount rate)), (''amount_field'', amount_field), (''rate_field'', rate_field)]))))))))))"

definition pick_fields :: "pv dict \<Rightarrow> pv dict \<Rightarrow> pv \<Rightarrow> (py_error, pv) res" where
  "pick_fields step state config =
     rbind (get_default config ''fields'' VNone) (\<lambda>configured.
     rbind (py_iter (or_value (or_value configured (vget step ''fields'')) (VList []))) (\<lambda>names.
     rbind (map_res text_key names) (\<lambda>keys. Inr (VDict (dict_of (map (\<lambda>k. (k, context_value state k VNone)) keys))))))"

definition transform_operation :: "step_env \<Rightarrow> pv dict \<Rightarrow> pv \<Rightarrow> (py_error, string) res" where
  "transform_operation env step config =
     rbind (if truthy (vget step ''operation'') then Inr (vget step ''operation'') else get_default config ''operation'' VNone) (\<lambda>op.
       Inr (lower (strip (text_value_or env (or_value op (vget step ''action'')) []))))"

definition execute_transform :: "step_env \<Rightarrow> pv dict \<Rightarrow> pv dict \<Rightarrow> pv dict io" where
  "execute_transform env step state =
     (let config = or_value (or_value (vget step ''transform'') (vget step ''config'')) (VDict [])
      in and_then (py env (transform_operation env step config)) (\<lambda>operation.
           if operation \<in> {''identity'', ''copy'', ''passthrough''} then
             completed_transform env step (get_or step ''inputs'' (get_or state ''context'' (VDict [])))
           else if operation = ''pick'' then and_then (py env (pick_fields step state config)) (completed_transform env step)
           else if operation = ''currency_convert'' then and_then (py env (currency_convert state config)) (completed_transform env step)
           else and_then (the_id env step) (\<lambda>i.
             ret (if stub_steps_allowed env then
                    stubbed_result i ''transform'' ''unsupported_transform_configuration''
                      ''Transform execution uses relaxed-env placeholder because no supported transform is configured.''
                      [(''operation'', opt_text (text_option operation))]
                  else failed_step i ''transform'' (UnsupportedTransformConfigError i operation) VNone))))"

section \<open>Nested runs and waits\<close>

definition PAUSED_STEP_STATUSES :: "string list" where
  "PAUSED_STEP_STATUSES = [''waiting_hitl'', ''waiting_delay'', ''waiting_event'']"

definition sub_workflow_error :: "pv \<Rightarrow> string \<Rightarrow> pv dict" where
  "sub_workflow_error i message =
     [(''step_id'', i), (''type'', VStr ''sub_workflow''), (''status'', VStr ''failed''), (''error'', VStr message)]"

text \<open>The definition of the nested run, or the failed result. \<open>state['workflow_registry']\<close> maps ids to definitions.\<close>

definition sub_definition_of :: "step_env \<Rightarrow> pv dict \<Rightarrow> pv dict \<Rightarrow> pv \<Rightarrow> (pv dict, pv) res" where
  "sub_definition_of env step state i =
     (let definition_id = vget step ''workflow_definition_id''; text = py_str (sv_lib env) definition_id;
          found = (case definition_id of VStr s \<Rightarrow> dget (dict_at state ''workflow_registry'') s | _ \<Rightarrow> None)
      in if vget step ''definition'' \<noteq> VNone then Inr (vget step ''definition'')
         else if \<not> truthy definition_id then
           Inl (sub_workflow_error i (''No '' @ quoted ''definition'' @ '' or '' @ quoted ''workflow_definition_id'' @ '' provided for sub_workflow step''))
         else case found of
                Some d \<Rightarrow> Inr d
              | None \<Rightarrow> Inl (sub_workflow_error i (''Sub-workflow definition '' @ quoted text @ '' not found in registry'')))"

definition settle_sub_run :: "pv \<Rightarrow> string \<Rightarrow> pv dict \<Rightarrow> (py_error, pv dict) res" where
  "settle_sub_run i sub_run_id result =
     (let status = get_or result ''status'' (VStr ''failed''); output = get_or result ''step_results'' (VDict [])
      in rbind (hash_key status) (\<lambda>key.
           Inr (if key \<in> VStr ` set PAUSED_STEP_STATUSES then
                  [(''step_id'', i), (''type'', VStr ''sub_workflow''), (''status'', VStr ''failed''), (''sub_run_id'', VStr sub_run_id),
                   (''output'', output), (''code'', VStr ''sub_workflow_pause_unsupported''),
                   (''error'', VStr (''sub_workflow_pause_unsupported: nested run '' @ sub_run_id @ '' paused with status ''
                     @ quoted (status_word status) @ ''; pausing steps are not supported inside sub_workflow''))]
                else
                  [(''step_id'', i), (''type'', VStr ''sub_workflow''),
                   (''status'', if key \<in> VStr ` set ALLOWED_STEP_STATUSES then status else VStr ''failed''),
                   (''sub_run_id'', VStr sub_run_id), (''output'', output)])))"

text \<open>A definition that is found needs no id before the nested run has ended. The nested run keeps the tenant and the caller's grant.\<close>

definition execute_sub_workflow :: "step_env \<Rightarrow> pv dict \<Rightarrow> pv dict \<Rightarrow> pv dict io" where
  "execute_sub_workflow env step state =
     (case sub_definition_of env step state (vget step ''id'') of
        Inl result \<Rightarrow> and_then (the_id env step) (\<lambda>i. ret result)
      | Inr sub_definition \<Rightarrow>
          and_then (perform (SubRunStarted sub_definition (get_or step ''input'' (VDict [])) (vget state ''tenant_id'') (vget state CALLER_GRANT_KEY))
            (sv_sub_run env sub_definition)) (\<lambda>run.
          and_then (the_id env step) (\<lambda>i. py env (settle_sub_run i (fst run) (snd run)))))"

definition number_of :: "pv \<Rightarrow> (py_error, pyfloat) res" where
  "number_of v = (case num_of v of Some f \<Rightarrow> Inr f | None \<Rightarrow> Inl (TypeError ''unsupported operand type''))"

text \<open>
  \<open>now + timedelta(...)\<close>: an infinite or undefined length raises, and so does a time outside the years 1 to 9999. Times are exact
  here; the code rounds them to microseconds.
\<close>

definition MIN_TIME :: rat where "MIN_TIME = -62135596800"

definition MAX_TIME :: rat where "MAX_TIME = 253402300800"

definition time_after :: "rat \<Rightarrow> pyfloat \<Rightarrow> rat \<Rightarrow> (py_error, rat) res" where
  "time_after now amount unit =
     (case amount of
        Fin r \<Rightarrow> if MIN_TIME \<le> now + r * unit \<and> now + r * unit < MAX_TIME then Inr (now + r * unit) else Inl OverflowError
      | NaN \<Rightarrow> Inl (ValueError ''cannot convert float NaN to integer'')
      | _ \<Rightarrow> Inl OverflowError)"

text \<open>The sum of hours, minutes and seconds; \<open>None\<close> when it is not positive.\<close>

definition fl_plus :: "pyfloat \<Rightarrow> pyfloat \<Rightarrow> pyfloat" where
  "fl_plus a b =
     (case (a, b) of
        (Fin x, Fin y) \<Rightarrow> Fin (x + y)
      | (NaN, _) \<Rightarrow> NaN
      | (_, NaN) \<Rightarrow> NaN
      | (Fin x, y) \<Rightarrow> y
      | (x, Fin y) \<Rightarrow> x
      | (x, y) \<Rightarrow> if x = y then x else NaN)"

definition fl_scale :: "rat \<Rightarrow> pyfloat \<Rightarrow> pyfloat" where
  "fl_scale k a = (case a of Fin x \<Rightarrow> Fin (k * x) | _ \<Rightarrow> a)"

definition duration_end :: "rat \<Rightarrow> pv dict \<Rightarrow> (py_error, rat option) res" where
  "duration_end now step =
     rbind (number_of (get_or step ''duration_hours'' (VInt 0))) (\<lambda>h.
     rbind (number_of (get_or step ''duration_minutes'' (VInt 0))) (\<lambda>m.
     rbind (number_of (get_or step ''duration_seconds'' (VInt 0))) (\<lambda>s.
       (let total = fl_plus (fl_plus (fl_scale 3600 h) (fl_scale 60 m)) s
        in if fl_lt (Fin 0) total then rbind (time_after now total 1) (\<lambda>t. Inr (Some t)) else Inr None))))"

text \<open>The end of a wait for a given time: a text without a time zone cannot be compared with the clock.\<close>

definition replace_z :: "string \<Rightarrow> string" where
  "replace_z s = concat (map (\<lambda>c. if c = CHR ''Z'' then ''+00:00'' else [c]) s)"

definition until_end :: "step_env \<Rightarrow> pv \<Rightarrow> (py_error, rat option) res" where
  "until_end env v =
     (case v of
        VStr s \<Rightarrow>
          (case lib_fromisoformat (sv_lib env) (replace_z s) of
             None \<Rightarrow> Inl (ValueError ''Invalid isoformat string'')
           | Some (aware, micros) \<Rightarrow>
               if aware then Inr (Some (of_int micros / 1000000))
               else Inl (TypeError ''can not compare offset-naive and offset-aware datetimes''))
      | _ \<Rightarrow> Inl (AttributeError ''replace''))"

definition wait_end :: "step_env \<Rightarrow> rat \<Rightarrow> pv dict \<Rightarrow> (py_error, rat option) res" where
  "wait_end env now step =
     (if truthy (vget step ''until'') then until_end env (vget step ''until'') else duration_end now step)"

definition wait_completed :: "step_env \<Rightarrow> pv dict \<Rightarrow> pv dict io" where
  "wait_completed env step =
     and_then (the_id env step) (\<lambda>i. ret [(''step_id'', i), (''type'', VStr ''wait''), (''status'', VStr ''completed'')])"

definition wait_until :: "step_env \<Rightarrow> pv dict \<Rightarrow> pv dict \<Rightarrow> rat \<Rightarrow> pv dict io" where
  "wait_until env step state t =
     and_then (try_except (and_then (the_id env step) (\<lambda>i.
         perform (ResumeScheduled (get_or state ''id'' (VStr [])) i t) (sv_schedule env))) (\<lambda>e. True) (\<lambda>e. ret ())) (\<lambda>u.
     and_then (the_id env step) (\<lambda>i.
       ret [(''step_id'', i), (''type'', VStr ''wait''), (''status'', VStr ''waiting_delay''), (''resume_at'', VStr (sv_isoformat env t))]))"

definition execute_wait :: "step_env \<Rightarrow> pv dict \<Rightarrow> pv dict \<Rightarrow> pv dict io" where
  "execute_wait env step state =
     and_then (ask (sv_now env)) (\<lambda>now.
     and_then (py env (wait_end env now step)) (\<lambda>resume_at.
       (case resume_at of
          None \<Rightarrow> wait_completed env step
        | Some t \<Rightarrow> if t \<le> now then wait_completed env step else wait_until env step state t)))"

definition event_wait_record :: "pv dict \<Rightarrow> pv dict \<Rightarrow> pv \<Rightarrow> pv \<Rightarrow> pv dict" where
  "event_wait_record step state i timeout_at =
     (let trigger = dict_at state ''trigger_payload''
      in [(''engine_run_id'', get_or state ''id'' (VStr [])), (''step_id'', i), (''event_type'', get_or step ''event_type'' (VStr [])),
          (''match_criteria'', get_or step ''match'' (VDict [])), (''timeout_at'', timeout_at),
          (''tenant_id'', or_value (or_value (vget state ''tenant_id'') (vget trigger ''tenant_id'')) (vget trigger ''agenticorg:tenant_id'')),
          (''workflow_run_id'', or_value (or_value (vget state ''workflow_run_id'') (vget state ''db_workflow_run_id''))
             (vget state ''database_workflow_run_id'')),
          (''connector'', vget step ''connector''), (''provider'', vget step ''provider'')])"

definition execute_wait_for_event :: "step_env \<Rightarrow> pv dict \<Rightarrow> pv dict \<Rightarrow> pv dict io" where
  "execute_wait_for_event env step state =
     and_then (ask (sv_now env)) (\<lambda>now.
     and_then (py env (rbind (number_of (get_or step ''timeout_hours'' (VInt 48))) (\<lambda>h. time_after now h 3600))) (\<lambda>timeout_at.
     and_then (the_id env step) (\<lambda>i.
     and_then (perform (WaitRegistered (event_wait_record step state i (VStr (sv_isoformat env timeout_at)))) (sv_register_wait env)) (\<lambda>u.
     and_then (try_except (perform (TimeoutScheduled (get_or state ''id'' (VStr [])) i timeout_at) (sv_schedule env)) (\<lambda>e. True) (\<lambda>e. ret ())) (\<lambda>u.
       ret [(''step_id'', i), (''type'', VStr ''wait_for_event''), (''status'', VStr ''waiting_event''),
            (''event_type'', get_or step ''event_type'' (VStr [])), (''timeout_at'', VStr (sv_isoformat env timeout_at))])))))"

section \<open>Children\<close>

text \<open>The children end in the order the surroundings give, completed to a permutation of their indices.\<close>

definition completion_order :: "nat list \<Rightarrow> nat \<Rightarrow> nat list" where
  "completion_order given n =
     (let first = filter (\<lambda>i. i < n) (fromkeys given) in first @ filter (\<lambda>i. i \<notin> set first) [0..<n])"

definition run_one :: "step_env \<Rightarrow> (nat \<Rightarrow> pv dict io) \<Rightarrow> nat \<Rightarrow> pv dict io" where
  "run_one env child i =
     and_then (outcome_of (child i) (\<lambda>e. True)) (\<lambda>value.
       py env (normalize_child_result (sv_lib env) (case value of Inl e \<Rightarrow> Inl e | Inr d \<Rightarrow> Inr (VDict d)) (str_nat i)))"

text \<open>A cancelled child has made some of its effects; nobody reads its result.\<close>

definition cancelled :: "step_env \<Rightarrow> pv dict io \<Rightarrow> unit io" where
  "cancelled env m w =
     (case m w of (r, w') \<Rightarrow>
        (Inr (), \<lparr> sw_adapter = sv_cut_adapter env (sw_log w'),
           sw_log = sw_log w @ take (sv_cut env (sw_log w)) (drop (length (sw_log w)) (sw_log w')) \<rparr>))"

definition is_completed :: "pv dict \<Rightarrow> bool" where
  "is_completed d \<longleftrightarrow> vget d ''status'' = VStr ''completed''"

text \<open>Results are collected in the order of completion until there are enough; the children left are cancelled.\<close>

fun collect :: "step_env \<Rightarrow> (nat \<Rightarrow> pv dict io) \<Rightarrow> (pv dict list \<Rightarrow> bool) \<Rightarrow> nat list \<Rightarrow> pv dict list \<Rightarrow> pv dict list io" where
  "collect env child enough [] acc = ret acc"
| "collect env child enough (i # rest) acc =
     and_then (run_one env child i) (\<lambda>r.
       if enough (acc @ [r]) then and_then (map_io (\<lambda>j. cancelled env (run_one env child j)) rest) (\<lambda>u. ret (acc @ [r]))
       else collect env child enough rest (acc @ [r]))"

definition parallel_count :: "string \<Rightarrow> (py_error, nat) res" where
  "parallel_count wait_for =
     (if wait_for \<noteq> [] \<and> list_all isdigit_char wait_for then
        (if list_all is_digit wait_for then Inr (digits_val wait_for 0) else Inl (ValueError ''invalid literal for int()''))
      else Inr 1)"

definition run_all :: "step_env \<Rightarrow> (nat \<Rightarrow> pv dict io) \<Rightarrow> nat list \<Rightarrow> pv dict list io" where
  "run_all env child order =
     and_then (map_io (\<lambda>i. and_then (run_one env child i) (\<lambda>r. ret (i, r))) order) (\<lambda>rs.
       ret (map (\<lambda>i. the (map_of rs i)) [0..<length order]))"

definition execute_parallel :: "step_env \<Rightarrow> nat \<Rightarrow> (nat \<Rightarrow> pv dict io) \<Rightarrow> string \<Rightarrow> pv dict list io" where
  "execute_parallel env n child wait_for =
     and_then (ask (sv_order env)) (\<lambda>given.
       (let order = completion_order given n
        in if wait_for = ''all'' then run_all env child order
           else if wait_for = ''any'' then collect env child (\<lambda>acc. is_completed (last acc)) order []
           else and_then (py env (parallel_count wait_for)) (\<lambda>count.
             collect env child (\<lambda>acc. length (filter is_completed acc) \<ge> count) order [])))"

definition parallel_child_step :: "step_env \<Rightarrow> pv \<Rightarrow> pv dict" where
  "parallel_child_step env child =
     (case child of
        VDict d \<Rightarrow> set_default d ''type'' (VStr ''agent'')
      | v \<Rightarrow> (let child_id = VStr (py_str (sv_lib env) v) in [(''id'', child_id), (''type'', VStr ''agent''), (''agent'', child_id)]))"

text \<open>\<open>is_success_status\<close> of a status that is not hashable raises.\<close>

definition child_successful :: "pv dict \<Rightarrow> (py_error, bool) res" where
  "child_successful d = rbind (hash_key (vget d ''status'')) (\<lambda>k. Inr (k \<in> VStr ` set SUCCESSFUL_STEP_STATUSES))"

definition parallel_failures :: "pv dict list \<Rightarrow> (py_error, pv dict list) res" where
  "parallel_failures results =
     rbind (map_res child_successful results) (\<lambda>oks. Inr (map fst (filter (\<lambda>p. \<not> snd p) (zip results oks))))"

definition children_failed :: "pv \<Rightarrow> string \<Rightarrow> pv dict list \<Rightarrow> pv dict list \<Rightarrow> pv dict" where
  "children_failed i step_type results failures =
     failed_step i step_type (ParallelChildError i failures)
       (VDict [(''results'', VList (map VDict results)), (''failed_children'', VList (map VDict failures))])"

definition children_completed :: "pv \<Rightarrow> string \<Rightarrow> pv dict list \<Rightarrow> pv dict" where
  "children_completed i step_type results =
     [(''step_id'', i), (''type'', VStr step_type), (''status'', VStr ''completed''), (''results'', VList (map VDict results))]"

text \<open>\<open>rec\<close> runs a nested step.\<close>

type_synonym step_runner = "pv dict \<Rightarrow> pv dict \<Rightarrow> pv dict io"

definition execute_parallel_step :: "step_runner \<Rightarrow> step_env \<Rightarrow> pv dict \<Rightarrow> pv dict \<Rightarrow> pv dict io" where
  "execute_parallel_step rec env step state =
     (let wait_for = py_str (sv_lib env) (get_or step ''wait_for'' (VStr ''all''))
      in and_then (py env (py_iter (get_or step ''steps'' (VList [])))) (\<lambda>sub_steps.
         and_then (execute_parallel env (length sub_steps) (\<lambda>i. rec (parallel_child_step env (sub_steps ! i)) state) wait_for) (\<lambda>results.
         and_then (py env (parallel_failures results)) (\<lambda>failures.
         and_then (the_id env step) (\<lambda>i.
           ret (if (if wait_for \<noteq> ''any'' then failures \<noteq> [] else length failures = length results)
                then children_failed i ''parallel'' results failures else children_completed i ''parallel'' results))))))"

definition loop_child_step :: "step_env \<Rightarrow> pv dict \<Rightarrow> nat \<Rightarrow> pv \<Rightarrow> (py_error, pv dict) res" where
  "loop_child_step env step n i =
     (let name = py_str (sv_lib env) i;
          child = get_or step ''step'' (VDict [(''id'', VStr (name @ ''_item'')), (''type'', VStr ''agent''), (''agent'', VStr (name @ ''_item''))])
      in case child of
           VDict d \<Rightarrow> Inr (dset d ''id'' (VStr (name @ ''_'' @ str_nat n)))
         | _ \<Rightarrow> Inl (TypeError ''object is not a mapping''))"

fun run_items :: "step_runner \<Rightarrow> step_env \<Rightarrow> pv dict \<Rightarrow> pv dict \<Rightarrow> pv list \<Rightarrow> pv dict list \<Rightarrow> pv dict list io" where
  "run_items rec env step state [] results = ret results"
| "run_items rec env step state (item # items) results =
     and_then (the_id env step) (\<lambda>i.
     and_then (py env (loop_child_step env step (length results) i)) (\<lambda>child.
     and_then (rec child (dset state ''loop_item'' item)) (\<lambda>r.
       run_items rec env step state items (results @ [r]))))"

definition execute_loop_step :: "step_runner \<Rightarrow> step_env \<Rightarrow> pv dict \<Rightarrow> pv dict \<Rightarrow> pv dict io" where
  "execute_loop_step rec env step state =
     and_then (py env (py_iter (get_or step ''items'' (VList [])))) (\<lambda>items.
     and_then (run_items rec env step state items []) (\<lambda>results.
     and_then (py env (parallel_failures results)) (\<lambda>failures.
     and_then (the_id env step) (\<lambda>i.
       ret (if failures \<noteq> [] then children_failed i ''loop'' results failures else children_completed i ''loop'' results)))))"

section \<open>The dispatcher\<close>

definition handler_of :: "step_runner \<Rightarrow> step_env \<Rightarrow> string \<Rightarrow> step_runner" where
  "handler_of rec env step_type =
     (if step_type = ''condition'' then execute_condition env
      else if step_type = ''human_in_loop'' then execute_hitl env
      else if step_type = ''parallel'' then execute_parallel_step rec env
      else if step_type = ''loop'' then execute_loop_step rec env
      else if step_type = ''transform'' then execute_transform env
      else if step_type = ''connector_tool'' then execute_connector_tool_step env
      else if step_type = ''notify'' then execute_notify env
      else if step_type = ''sub_workflow'' then execute_sub_workflow env
      else if step_type = ''wait'' then execute_wait env
      else if step_type = ''wait_for_event'' then execute_wait_for_event env
      else if step_type = ''collaboration'' then (\<lambda>step state. perform (CollaborationRun step) (sv_collaboration env step))
      else if step_type = ''case_agent'' then (\<lambda>step state. perform (CaseStepRun step) (sv_case_step env step))
      else execute_agent env)"

definition dispatch_step :: "step_runner \<Rightarrow> step_env \<Rightarrow> pv dict \<Rightarrow> pv dict \<Rightarrow> pv dict io" where
  "dispatch_step rec env step state =
     (let step_type = get_or step ''type'' (VStr ''agent'')
      in if step_type = VStr ''agent'' \<and> (dhas step ''tool'' \<or> dhas step ''tool_name'') then execute_connector_tool_step env step state
         else if step_type = VStr ''agent'' \<and> tool_ref_of (sv_lib env) step (vget step ''id'') False \<noteq> None
         then execute_connector_tool_step env step state
         else and_then (py env (hash_key step_type)) (\<lambda>k.
           handler_of rec env (case step_type of VStr s \<Rightarrow> s | _ \<Rightarrow> ''agent'') step state))"

text \<open>The interpreter allows \<open>n\<close> nested steps.\<close>

primrec execute_step :: "nat \<Rightarrow> step_env \<Rightarrow> step_runner" where
  "execute_step 0 env = (\<lambda>step state. py env (Inl RecursionError))"
| "execute_step (Suc n) env = dispatch_step (execute_step n env) env"

end
