(* ===== verification/Step_Effects.thy ===== *)
theory Step_Effects
  imports Step_Handlers
begin

text \<open>
  What the step handlers may cause and answer: every effect of a step, however deeply nested, is within the run's tenant, its
  caller's grant and the owner of the agent; every result has a status the engine accepts.
\<close>

section \<open>Rules in continuation form\<close>

lemma and_then_ret [simp]: "and_then (ret x) f = f x"
  by (rule ext) (simp add: and_then_def ret_def)

lemma and_then_raise [simp]: "and_then (raise e) f = raise e"
  by (rule ext) (simp add: and_then_def raise_def)

lemma and_then_assoc [simp]: "and_then (and_then m f) g = and_then m (\<lambda>x. and_then (f x) g)"
  by (rule ext) (simp add: and_then_def split: prod.splits sum.splits)

lemma does_ask_then [does_intros]: "does P l (f (g l)) R \<Longrightarrow> does P l (and_then (ask g) f) R"
  by (rule does_bind [where Q = "\<lambda>l' x. l' = l \<and> x = g l"]) (auto intro: does_ask)

lemma does_lift_then [does_intros]: "(\<And>x. r = Inr x \<Longrightarrow> does P l (f x) R) \<Longrightarrow> does P l (and_then (lift r) f) R"
  by (rule does_bind [where Q = "\<lambda>l' x. l' = l \<and> r = Inr x"]) (auto intro: does_lift)

lemma does_py_then [does_intros]: "(\<And>x. r = Inr x \<Longrightarrow> does P l (f x) R) \<Longrightarrow> does P l (and_then (py env r) f) R"
  by (rule does_bind [where Q = "\<lambda>l' x. l' = l \<and> r = Inr x"]) (auto intro: does_py)

lemma does_named_then [does_intros]: "(\<And>x. r = Inr x \<Longrightarrow> does P l (f x) R) \<Longrightarrow> does P l (and_then (named env r) f) R"
  by (rule does_bind [where Q = "\<lambda>l' x. l' = l \<and> r = Inr x"]) (auto intro: does_named)

lemma does_id_then [does_intros]: "(\<And>i. dget step ''id'' = Some i \<Longrightarrow> does P l (f i) R) \<Longrightarrow> does P l (and_then (the_id env step) f) R"
  unfolding the_id_def by (rule does_py_then) (simp add: dindex_def split: option.splits)

lemma does_perform_then [does_intros]:
  "P l e \<Longrightarrow> (\<And>x. answer l = Inr x \<Longrightarrow> does P (l @ [e]) (f x) R) \<Longrightarrow> does P l (and_then (perform e answer) f) R"
  by (rule does_bind [where Q = "\<lambda>l' x. l' = l @ [e] \<and> answer l = Inr x"]) (auto intro: does_perform)

lemma does_perform_tool_then [does_intros]:
  "P l (ToolCalled c) \<Longrightarrow> (\<And>v. does P (l @ [ToolCalled c]) (f v) R) \<Longrightarrow> does P l (and_then (perform_tool env c) f) R"
  by (rule does_bind [where Q = "\<lambda>l' x. l' = l @ [ToolCalled c]"]) (auto intro: does_perform_tool)

lemma does_tables_then [does_intros]:
  "(\<And>T. sv_tables env l = Inr T \<Longrightarrow> does P l (f T) R) \<Longrightarrow> does P l (and_then (tables env) f) R"
  unfolding tables_def by (simp add: does_intros)

lemma does_if [does_intros]: "(b \<Longrightarrow> does P l m R) \<Longrightarrow> (\<not> b \<Longrightarrow> does P l n R) \<Longrightarrow> does P l (if b then m else n) R"
  by simp

lemma does_if_then [does_intros]:
  "(b \<Longrightarrow> does P l (and_then m f) R) \<Longrightarrow> (\<not> b \<Longrightarrow> does P l (and_then n f) R) \<Longrightarrow> does P l (and_then (if b then m else n) f) R"
  by simp

text \<open>Code that only reads: it adds nothing to the log, and what it returns satisfies \<open>Q\<close>.\<close>

lemma does_outcome_then:
  assumes "does (\<lambda>l e. False) l m Q" "\<And>x. Q l x \<Longrightarrow> does P l (f (Inr x)) R" "\<And>e. does P l (f (Inl e)) R"
  shows "does P l (and_then (outcome_of m caught) f) R"
proof (rule does_bind [where Q = "\<lambda>l' r. l' = l \<and> (case r of Inr x \<Rightarrow> Q l x | Inl e \<Rightarrow> True)"])
  have reads: "does (\<lambda>l e. False) l (outcome_of m caught) (\<lambda>l' r. l' = l \<and> (case r of Inr x \<Rightarrow> Q l x | Inl e \<Rightarrow> True))"
  proof (rule doesI)
    fix w r w' assume w: "sw_log w = l" and run: "outcome_of m caught w = (r, w')"
    obtain r1 w1 where m: "m w = (r1, w1)" by fastforce
    obtain es where "sw_log w1 = l @ es" "all_steps (\<lambda>l e. False) l es" "\<forall>x. r1 = Inr x \<longrightarrow> Q (l @ es) x"
      using doesE [OF assms(1) w m] .
    then have q: "sw_log w1 = l" "\<forall>x. r1 = Inr x \<longrightarrow> Q l x" by (cases es; simp)+
    have "w' = w1" using run m by (simp add: outcome_of_def try_except_def and_then_def ret_def split: sum.splits if_splits)
    moreover have "\<forall>x. r = Inr x \<longrightarrow> (case x of Inr y \<Rightarrow> Q l y | Inl e \<Rightarrow> True)"
      using run m q(2) by (cases r1) (auto simp: outcome_of_def try_except_def and_then_def ret_def split: if_splits)
    ultimately show "\<exists>es. sw_log w' = l @ es \<and> all_steps (\<lambda>l e. False) l es \<and>
        (\<forall>x. r = Inr x \<longrightarrow> l @ es = l \<and> (case x of Inr x \<Rightarrow> Q l x | Inl e \<Rightarrow> True))"
      using q(1) by (intro exI [of _ "[]"]) simp
  qed
  show "does P l (outcome_of m caught) (\<lambda>l' r. l' = l \<and> (case r of Inr x \<Rightarrow> Q l x | Inl e \<Rightarrow> True))"
  proof (rule doesI)
    fix w r w' assume "sw_log w = l" "outcome_of m caught w = (r, w')"
    from doesE [OF reads this] obtain es where es: "sw_log w' = l @ es" "all_steps (\<lambda>l e. False) l es"
      "\<forall>x. r = Inr x \<longrightarrow> l @ es = l \<and> (case x of Inr x \<Rightarrow> Q l x | Inl e \<Rightarrow> True)" .
    then have "es = []" by (cases es) simp_all
    with es show "\<exists>es. sw_log w' = l @ es \<and> all_steps P l es \<and>
        (\<forall>x. r = Inr x \<longrightarrow> l @ es = l \<and> (case x of Inr x \<Rightarrow> Q l x | Inl e \<Rightarrow> True))" by (intro exI [of _ "[]"]) simp
  qed
  show "does P l' (f x) R" if "l' = l \<and> (case x of Inr x \<Rightarrow> Q l x | Inl e \<Rightarrow> True)" for l' x
    using that assms(2,3) by (cases x) simp_all
qed

section \<open>What each handler causes and answers\<close>

definition accepted :: "pv dict \<Rightarrow> bool" where
  "accepted d \<longleftrightarrow> vget d ''status'' \<in> VStr ` set ALLOWED_STEP_STATUSES"

definition company_of_tenant :: "step_env \<Rightarrow> step_effect list \<Rightarrow> string \<Rightarrow> string \<Rightarrow> bool" where
  "company_of_tenant env l tenant company \<longleftrightarrow>
     (\<exists>T t. sv_tables env l = Inr T \<and> sv_parse_uuid env tenant = Some t \<and> (company, t) \<in> set (tb_companies T))"

text \<open>The run the state names was started by the user \<open>owner\<close>, as its row in the database says.\<close>

definition run_started_by :: "step_env \<Rightarrow> step_effect list \<Rightarrow> pv dict \<Rightarrow> pv \<Rightarrow> bool" where
  "run_started_by env l state owner \<longleftrightarrow>
     (\<exists>T row. sv_tables env l = Inr T \<and> row \<in> set (tb_runs T)
        \<and> sv_parse_uuid env (py_str (sv_lib env) (vget state ''workflow_run_id'')) = Some (rn_id row)
        \<and> sv_parse_uuid env (py_str (sv_lib env) (vget state ''tenant_id'')) = Some (rn_tenant_id row)
        \<and> workflow_run_initiator env (Some row) = Some (py_str (sv_lib env) owner))"

text \<open>The stored configuration is that of an active agent of the tenant, when there is one.\<close>

definition stored_agent_ok :: "step_env \<Rightarrow> step_effect list \<Rightarrow> pv dict \<Rightarrow> pv dict \<Rightarrow> bool" where
  "stored_agent_ok env l state stored \<longleftrightarrow> stored = [] \<or>
     (\<exists>T row. sv_tables env l = Inr T \<and> row \<in> set (tb_agents T) \<and> stored = agent_config_of env row
        \<and> ag_status row \<notin> set (inactive_agent_statuses env)
        \<and> sv_parse_uuid env (py_str (sv_lib env) (get_or state ''tenant_id'' (VStr []))) = Some (ag_tenant_id row))"

definition governed_effect :: "step_env \<Rightarrow> pv dict \<Rightarrow> step_effect list \<Rightarrow> step_effect \<Rightarrow> bool" where
  "governed_effect env state l e =
     (case e of
        EmailSent target subject html \<Rightarrow> is_relaxed_env (sv_runtime env) \<and> tenant_text_of env state = []
      | ToolCalled c \<Rightarrow>
          xc_tenant_id c = text_option (tenant_text_of env state)
          \<and> (\<exists>company. xc_company_id c = Some company \<and> company_of_tenant env l (tenant_text_of env state) company)
          \<and> direct_tool_call_permitted (sv_grants env) (step_grant env state l) (xc_connector c) (xc_tool c) = Inr True
      | AgentRan stored config caller \<Rightarrow>
          caller = caller_of_run env state \<and> stored_agent_ok env l state stored
          \<and> (\<exists>company. vget config ''company_id'' = VStr company
               \<and> company_of_tenant env l (py_str (sv_lib env) (get_or state ''tenant_id'' (VStr []))) company)
          \<and> (vget stored ''visibility'' = VStr ''personal'' \<longrightarrow> run_started_by env l state (vget stored ''owner_user_id''))
      | SubRunStarted sub_definition payload tenant grant \<Rightarrow> tenant = vget state ''tenant_id'' \<and> grant = vget state CALLER_GRANT_KEY
      | WaitRegistered entry \<Rightarrow> truthy (vget state ''tenant_id'') \<longrightarrow> vget entry ''tenant_id'' = vget state ''tenant_id''
      | _ \<Rightarrow> True)"

lemma accepted_literal [simp]:
  "accepted (failed_step i t f out)" "accepted (children_failed i t rs fs)" "accepted (children_completed i t rs)"
  by (simp_all add: accepted_def failed_step_def children_failed_def children_completed_def vget_def dget_def ALLOWED_STEP_STATUSES_def)

lemma vget_dset [simp]: "vget (dset d k v) k' = (if k' = k then v else vget d k')"
  by (induction d) (auto simp: vget_def dget_def)

lemma accepted_stubbed [simp]:
  assumes "''status'' \<notin> fst ` set extra"
  shows "accepted (stubbed_result i t err message extra)"
proof -
  have "vget (dict_update d extra) ''status'' = vget d ''status''" for d
    using assms unfolding dict_update_def by (induction extra arbitrary: d) auto
  then show ?thesis by (simp add: stubbed_result_def accepted_def vget_def dget_def ALLOWED_STEP_STATUSES_def)
qed

lemma accepted_fields [simp]:
  "accepted ((''step_id'', i) # (''type'', t) # (''status'', VStr s) # rest) \<longleftrightarrow> s \<in> set ALLOWED_STEP_STATUSES"
  by (auto simp: accepted_def vget_def dget_def)

lemma allowed_literals [simp]:
  "''completed'' \<in> set ALLOWED_STEP_STATUSES" "''failed'' \<in> set ALLOWED_STEP_STATUSES" "''waiting_hitl'' \<in> set ALLOWED_STEP_STATUSES"
  "''waiting_delay'' \<in> set ALLOWED_STEP_STATUSES" "''waiting_event'' \<in> set ALLOWED_STEP_STATUSES"
  by (simp_all add: ALLOWED_STEP_STATUSES_def)

lemma does_py_Inl [simp]: "does P l (py env (Inl e)) Q"
  by (rule does_py) simp

lemma does_condition: "does P l (execute_condition env step state) (\<lambda>l' d. accepted d)"
  unfolding execute_condition_def by (simp split: pv.split) (intro allI impI does_intros, simp)

lemma does_hitl: "does P l (execute_hitl env step state) (\<lambda>l' d. accepted d)"
  unfolding execute_hitl_def Let_def by (intro does_intros) simp

lemma does_completed_transform: "does P l (completed_transform env step output) (\<lambda>l' d. accepted d)"
  unfolding completed_transform_def by (intro does_intros) simp

lemma does_transform: "does P l (execute_transform env step state) (\<lambda>l' d. accepted d)"
  unfolding execute_transform_def Let_def by (intro does_intros does_completed_transform) simp

lemma settle_sub_run_accepted: "settle_sub_run i r result = Inr d \<Longrightarrow> accepted d"
proof -
  have "accepted ((''step_id'', i) # (''type'', t) # (''status'', v) # rest)" if "hash_key v = Inr (VStr s)" "s \<in> set ALLOWED_STEP_STATUSES" for t v s rest
  proof -
    have "v = VStr s" using that(1) by (cases v rule: hash_key.cases) (auto simp: rbind_def split: sum.splits if_splits)
    then show ?thesis using that(2) by simp
  qed
  then show "settle_sub_run i r result = Inr d \<Longrightarrow> accepted d"
    by (auto simp: settle_sub_run_def Let_def rbind_def split: sum.splits if_splits)
qed

lemma does_sub_workflow: "does (governed_effect env state) l (execute_sub_workflow env step state) (\<lambda>l' d. accepted d)"
proof (cases "sub_definition_of env step state (vget step ''id'')")
  case (Inl result)
  then have "accepted result"
    by (auto simp: sub_definition_of_def sub_workflow_error_def Let_def split: if_splits option.splits pv.splits)
  with Inl show ?thesis unfolding execute_sub_workflow_def by (simp add: does_intros)
next
  case (Inr sub_definition)
  then show ?thesis
    unfolding execute_sub_workflow_def
    by (simp, intro does_intros) (simp_all add: governed_effect_def settle_sub_run_accepted)
qed

lemma does_swallow_then [does_intros]:
  assumes "does P l m (\<lambda>l' x. True)" "\<And>l'. does P l' (f ()) R"
  shows "does P l (and_then (try_except m caught (\<lambda>e. ret ())) f) R"
  by (rule does_bind [where Q = "\<lambda>l' x. True"])
    (rule does_try, rule does_weaken [OF assms(1)], simp_all add: does_ret assms(2))

lemma does_wait_completed: "does P l (wait_completed env step) (\<lambda>l' d. accepted d)"
  unfolding wait_completed_def by (intro does_intros) simp

lemma does_wait_until: "does (governed_effect env state) l (wait_until env step state t) (\<lambda>l' d. accepted d)"
  unfolding wait_until_def by (intro does_intros) (simp_all add: governed_effect_def)

lemma does_wait: "does (governed_effect env state) l (execute_wait env step state) (\<lambda>l' d. accepted d)"
  unfolding execute_wait_def
  by (intro does_intros) (simp add: does_wait_completed does_wait_until split: option.split)

lemma wait_tenant: "truthy (vget state ''tenant_id'') \<Longrightarrow> vget (event_wait_record step state i t) ''tenant_id'' = vget state ''tenant_id''"
  by (simp add: event_wait_record_def Let_def or_value_def vget_def [of "_ # _"])

lemma does_wait_for_event: "does (governed_effect env state) l (execute_wait_for_event env step state) (\<lambda>l' d. accepted d)"
  unfolding execute_wait_for_event_def by (intro does_intros) (simp_all add: governed_effect_def wait_tenant)

subsection \<open>Notifications\<close>

text \<open>No authorization comes with the email of a notification, so the action policy never lets it out.\<close>

lemma email_contained: "\<not> dispatch_allowed (evaluate_action before pu ''email:send_email'' ctx None resolver)"
proof
  assume d: "dispatch_allowed (evaluate_action before pu ''email:send_email'' ctx None resolver)"
  obtain tid cid dom canonical risk ds where r: "rule_of before ''email:send_email'' = Some (canonical, risk, ds)"
    "safe_risk risk \<or> shadow_reason before pu resolver None (is_strict_runtime_env (ctx_runtime_env ctx)) tid cid dom canonical risk = None"
    by (rule dispatch_facts [OF d])
  then have "safe_risk risk" unfolding shadow_reason_None by blast
  moreover have "CHR '':'' \<notin> set ''send_email''" by simp
  moreover have "dget QUALIFIED_RULES (norm_name (''email'' @ CHR '':'' # ''send_email'')) = None" by code_simp
  moreover have "\<exists>n risk ds. rule_of (\<lambda>a b. True) ''send_email'' = Some (n, risk, ds) \<and> \<not> safe_risk risk"
  proof -
    have "case rule_of (\<lambda>a b. True) ''send_email'' of Some (n, risk, ds) \<Rightarrow> \<not> safe_risk risk | None \<Rightarrow> False" by code_simp
    then show ?thesis by (auto split: option.splits)
  qed
  ultimately show False using connector_keeps_unsafe [of "''send_email''" "''email''"] r(1) by auto
qed

lemma does_validated:
  "does P l (validated_workflow_company env tenant company) (\<lambda>l' c. l' = l \<and> company_of_tenant env l tenant c)"
  unfolding validated_workflow_company_def
  by (simp split: option.split) (intro allI impI conjI does_intros, auto simp: company_of_tenant_def)

lemma does_notify_fallback: "does P l (notify_fallback env step connector) (\<lambda>l' d. accepted d)"
  unfolding notify_fallback_def by (intro does_intros) simp

lemma does_notify_verdict:
  "does P l (notify_verdict env step state connector scope) (\<lambda>l' r. case r of Some d \<Rightarrow> accepted d | None \<Rightarrow> False)"
proof -
  have email: "\<not> dispatch_allowed (notify_decision env step state c l')" for c l'
    unfolding notify_decision_def by (rule email_contained)
  show ?thesis
    unfolding notify_verdict_def by (cases scope; simp; intro does_intros; simp add: email)
qed

lemma does_notify_refusal:
  "does P l (notify_refusal env step state connector)
     (\<lambda>l' r. case r of Some d \<Rightarrow> accepted d | None \<Rightarrow> \<not> notify_governed env step state)"
proof -
  have v: "does P l (notify_verdict env step state connector scope)
      (\<lambda>l' r. case r of Some d \<Rightarrow> accepted d | None \<Rightarrow> \<not> notify_governed env step state)" for scope
    by (rule does_weaken [OF does_notify_verdict]) (simp split: option.splits)
  show ?thesis
    unfolding notify_refusal_def
    by (intro does_if does_outcome_then [OF does_validated]) (simp_all add: v does_ret)
qed

lemma does_notify: "does (governed_effect env state) l (execute_notify env step state) (\<lambda>l' d. accepted d)"
proof -
  have ok: "governed_effect env state l' (EmailSent t s h)" if "\<not> notify_governed env step state" for l' t s h
    using that by (simp add: governed_effect_def notify_governed_def is_strict_runtime_env_def)
  show ?thesis
    unfolding execute_notify_def Let_def
  proof (intro does_if does_notify_fallback does_bind [OF does_notify_refusal])
    fix l' and r :: "(pv dict) option"
    assume "case r of Some d \<Rightarrow> accepted d | None \<Rightarrow> \<not> notify_governed env step state"
    then show "does (governed_effect env state) l' (case r of Some result \<Rightarrow> ret result
        | None \<Rightarrow> and_then (perform (EmailSent t s h) (sv_send_email env)) (\<lambda>sent. if sent then and_then (the_id env step) (\<lambda>i.
            ret [(''step_id'', i), (''type'', VStr ''notify''), (''status'', VStr ''completed''), (''output'', out)])
          else notify_fallback env step c)) (\<lambda>l' d. accepted d)" for t s h out c
      by (cases r) (simp_all add: does_ret, intro does_intros does_notify_fallback, simp_all add: ok)
  qed
qed

subsection \<open>Connector steps\<close>

lemma scalar_member: "scalar_one_or_none xs = Inr (Some x) \<Longrightarrow> x \<in> set xs"
  by (auto simp: scalar_one_or_none_def split: list.splits)

lemma does_load_config: "does P l (load_workflow_connector_config env connector tenant company) (\<lambda>l' d. l' = l)"
  unfolding load_workflow_connector_config_def
  by (simp split: option.split) (intro conjI impI allI does_intros, simp_all add: does_intros split: option.split)

lemma does_company_and_config:
  "does P l (company_and_config env connector tenant company) (\<lambda>l' r. l' = l \<and> company_of_tenant env l tenant (fst r))"
  unfolding company_and_config_def
  by (rule does_bind [OF does_validated], rule does_bind [OF does_load_config], rule does_ret) simp

lemma does_settle_tool: "does P l (settle_tool env step connector tool result) (\<lambda>l' d. accepted d)"
  unfolding settle_tool_def by (simp split: pv.split) (intro conjI impI allI does_intros; simp)

lemma does_call_step_tool:
  assumes "company_of_tenant env l (tenant_text_of env state) company"
  shows "does (governed_effect env state) l (call_step_tool env step state connector tool company config) (\<lambda>l' d. accepted d)"
  unfolding call_step_tool_def using assms
  by (intro does_intros) (simp_all add: does_settle_tool governed_effect_def step_tool_call_def)

lemma does_connector_tool: "does (governed_effect env state) l (execute_connector_tool_step env step state) (\<lambda>l' d. accepted d)"
proof (cases "tool_ref_of (sv_lib env) step (vget step ''id'') True")
  case None
  then show ?thesis unfolding execute_connector_tool_step_def by (simp add: does_ret)
next
  case (Some ref)
  obtain connector tool where ref: "ref = (connector, tool)" by fastforce
  show ?thesis
    unfolding execute_connector_tool_step_def Some ref option.case prod.case Let_def
    by (intro does_if does_outcome_then [OF does_company_and_config])
      (simp_all add: does_call_step_tool does_ret case_prod_unfold)
qed

subsection \<open>Agent steps\<close>

lemma scalar_filter: "scalar_one_or_none (filter Q xs) = Inr (Some x) \<Longrightarrow> x \<in> set xs \<and> Q x"
  by (drule scalar_member) simp

lemma does_load_agent:
  "does P l (load_workflow_agent_config env agent_id (get_or state ''tenant_id'' (VStr []))) (\<lambda>l' stored. l' = l \<and> stored_agent_ok env l state stored)"
proof -
  let ?t = "get_or state ''tenant_id'' (VStr [])"
  have row: "stored_agent_ok env l state (case row of None \<Rightarrow> []
      | Some r \<Rightarrow> if ag_status r \<in> set (inactive_agent_statuses env) then [] else agent_config_of env r)"
    if "sv_tables env l = Inr T" "sv_parse_uuid env (py_str (sv_lib env) ?t) = Some t"
      "scalar_one_or_none (filter (\<lambda>r. ag_id r = a \<and> ag_tenant_id r = t) (tb_agents T)) = Inr row" for T t a row
  proof (cases row)
    case (Some r)
    with that(3) have "r \<in> set (tb_agents T)" "ag_tenant_id r = t" using scalar_filter by fastforce+
    then show ?thesis using Some that(1,2) unfolding stored_agent_ok_def by (cases "ag_status r \<in> set (inactive_agent_statuses env)"; simp; blast)
  qed (simp add: stored_agent_ok_def)
  have none: "stored_agent_ok env l state []" by (simp add: stored_agent_ok_def)
  show ?thesis
    unfolding load_workflow_agent_config_def
    by (simp add: does_ret none split: option.split) (intro conjI impI allI does_intros, simp_all add: none row)
qed

lemma does_may_use:
  "does P l (workflow_run_may_use_agent env stored state)
     (\<lambda>l' b. l' = l \<and> (b \<longrightarrow> vget stored ''visibility'' = VStr ''personal'' \<longrightarrow> run_started_by env l state (vget stored ''owner_user_id'')))"
proof -
  let ?u = "py_str (sv_lib env) (vget stored ''owner_user_id'')"
  have row: "run_started_by env l state (vget stored ''owner_user_id'')"
    if h: "sv_tables env l = Inr T" "sv_parse_uuid env (py_str (sv_lib env) (vget state ''tenant_id'')) = Some t"
      "sv_parse_uuid env (py_str (sv_lib env) (vget state ''workflow_run_id'')) = Some r"
      "scalar_one_or_none (filter (\<lambda>x. rn_id x = r \<and> rn_tenant_id x = t) (tb_runs T)) = Inr row"
      "workflow_run_initiator env row = Some ?u" for T t r row
  proof -
    obtain x where x: "row = Some x" using h(5) by (cases row) (simp_all add: workflow_run_initiator_def)
    with h(4) have "x \<in> set (tb_runs T)" "rn_id x = r" "rn_tenant_id x = t" using scalar_filter by fastforce+
    then show ?thesis using h(1,2,3,5) x unfolding run_started_by_def by metis
  qed
  show ?thesis
    unfolding workflow_run_may_use_agent_def Let_def
    by (simp add: does_ret split: option.split) (intro conjI impI allI does_intros, simp_all add: row)
qed

lemma accepted_agent_answer [simp]: "accepted (agent_answer i s out resume result agent_type action) \<longleftrightarrow> s \<in> set ALLOWED_STEP_STATUSES"
  by (simp add: agent_answer_def)

lemma does_write_decision: "does P l (external_write_decision env step state agent_type action output) (\<lambda>l' d. l' = l)"
  unfolding external_write_decision_def by (intro does_intros) simp_all

lemma does_settle_agent: "does P l (settle_agent env step state agent_type action i result) (\<lambda>l' d. accepted d)"
  unfolding settle_agent_def Let_def
  by (intro does_if does_bind [OF does_write_decision]; simp add: does_ret)

lemma does_config_id: "does P l (agent_config_id env step stored agent_id) (\<lambda>l' i. l' = l)"
  unfolding agent_config_id_def by (intro does_intros) simp_all

lemma config_company: "vget (agent_instance_config step state stored agent_id agent_type company config_id) ''company_id'' = VStr company"
  by (simp add: agent_instance_config_def vget_def dget_def)

lemma does_run_agent:
  assumes "stored_agent_ok env l state stored" "company_of_tenant env l (py_str (sv_lib env) (get_or state ''tenant_id'' (VStr []))) company"
    and "vget stored ''visibility'' = VStr ''personal'' \<longrightarrow> run_started_by env l state (vget stored ''owner_user_id'')"
  shows "does (governed_effect env state) l (run_agent env step state stored agent_id agent_type action inputs company) (\<lambda>l' d. accepted d)"
proof -
  have "governed_effect env state l
      (AgentRan stored (agent_instance_config step state stored agent_id agent_type company i) (caller_of_run env state))" for i
    using assms by (simp add: governed_effect_def config_company)
  then show ?thesis
    unfolding run_agent_def Let_def
    by (intro does_bind [OF does_config_id] does_intros) (simp_all add: agent_failure_def does_settle_agent)
qed

lemma does_run_agent_or_fail:
  assumes "stored_agent_ok env l state stored" "company_of_tenant env l (py_str (sv_lib env) (get_or state ''tenant_id'' (VStr []))) company"
    and "vget stored ''visibility'' = VStr ''personal'' \<longrightarrow> run_started_by env l state (vget stored ''owner_user_id'')"
  shows "does (governed_effect env state) l (run_agent_or_fail env step state stored agent_id agent_type action inputs company) (\<lambda>l' d. accepted d)"
  unfolding run_agent_or_fail_def
  by (rule does_try [OF does_run_agent [OF assms]]) (intro does_intros, simp)

lemma accepted_agent [simp]:
  "accepted (missing_agent_result env step action)" "accepted (missing_llm_result env step agent_type action)" "accepted (agent_failure env step agent_type c)"
  by (simp_all add: missing_agent_result_def missing_llm_result_def agent_failure_def)

lemma does_agent: "does (governed_effect env state) l (execute_agent env step state) (\<lambda>l' d. accepted d)"
proof -
  let ?R = "\<lambda>l' d. accepted d"
  have run: "does (governed_effect env state) l (run_agent_or_fail env step state stored agent_id agent_type action inputs company) ?R"
    if "stored_agent_ok env l state stored" "company_of_tenant env l (py_str (sv_lib env) (get_or state ''tenant_id'' (VStr []))) company"
      "stored = [] \<or> (vget stored ''visibility'' = VStr ''personal'' \<longrightarrow> run_started_by env l state (vget stored ''owner_user_id''))"
    for stored agent_id agent_type action inputs company
    using does_run_agent_or_fail [OF that(1,2)] that(3) by (auto simp: vget_def dget_def)
  have allowed: "does (governed_effect env state) l (if stored = [] then ret True else workflow_run_may_use_agent env stored state)
      (\<lambda>l' b. l' = l \<and> (b \<longrightarrow> stored = [] \<or> (vget stored ''visibility'' = VStr ''personal'' \<longrightarrow> run_started_by env l state (vget stored ''owner_user_id''))))" for stored
    by (intro does_if does_ret) (simp_all add: does_weaken [OF does_may_use])
  show ?thesis
    unfolding execute_agent_def Let_def
    by (intro does_bind [OF does_load_agent])
      (elim conjE, simp only:, intro does_bind [OF allowed], elim conjE, simp only:,
        intro does_if does_ret does_outcome_then [OF does_validated]; simp add: run does_ret)
qed

subsection \<open>Children\<close>

abbreviation causes :: "(step_effect list \<Rightarrow> step_effect \<Rightarrow> bool) \<Rightarrow> step_effect list \<Rightarrow> 'a io \<Rightarrow> bool" where
  "causes P l m \<equiv> does P l m (\<lambda>l' x. True)"

lemma causes_then: "causes P l m \<Longrightarrow> (\<And>l' x. does P l' (f x) R) \<Longrightarrow> does P l (and_then m f) R"
  by (rule does_bind)

lemma causes_outcome: "causes P l m \<Longrightarrow> causes P l (outcome_of m caught)"
  unfolding outcome_of_def by (intro does_try causes_then does_ret) simp_all

lemma causes_run_one: "(\<And>l. causes P l (child i)) \<Longrightarrow> causes P l (run_one env child i)"
  unfolding run_one_def by (intro causes_then causes_outcome does_py) simp_all

lemma causes_cancelled:
  assumes "causes P l m"
  shows "causes P l (cancelled env m)"
proof (rule doesI)
  fix w r w' assume w: "sw_log w = l" and run: "cancelled env m w = (r, w')"
  obtain r1 w1 where m: "m w = (r1, w1)" by fastforce
  obtain es where es: "sw_log w1 = l @ es" "all_steps P l es" using doesE [OF assms w m] by metis
  have "w' = \<lparr> sw_adapter = sv_cut_adapter env (sw_log w1), sw_log = l @ take (sv_cut env l) es \<rparr>"
    using run m w es(1) by (simp add: cancelled_def)
  then have "sw_log w' = l @ take (sv_cut env l) es" by simp
  then show "\<exists>es. sw_log w' = l @ es \<and> all_steps P l es \<and> (\<forall>x. r = Inr x \<longrightarrow> True)"
    using all_steps_take [OF es(2)] by blast
qed

lemma causes_map_io: "(\<And>l x. x \<in> set xs \<Longrightarrow> causes P l (f x)) \<Longrightarrow> causes P l (map_io f xs)"
  by (rule does_weaken [OF does_map_io [where R = "\<lambda>x y. True"]]) simp_all

lemma causes_collect: "(\<And>l i. causes P l (child i)) \<Longrightarrow> causes P l (collect env child enough order acc)"
proof (induction order arbitrary: acc l)
  case (Cons i rest)
  have "causes P l (run_one env child j)" for j l using Cons.prems by (rule causes_run_one)
  then show ?case
    using Cons.IH [OF Cons.prems] by (simp, intro causes_then does_if causes_map_io causes_cancelled does_ret) simp_all
qed (simp add: does_ret)

lemma causes_run_all: "(\<And>l i. causes P l (child i)) \<Longrightarrow> causes P l (run_all env child order)"
  unfolding run_all_def by (intro causes_then causes_map_io causes_run_one does_ret) simp_all

lemma causes_parallel: "(\<And>l i. causes P l (child i)) \<Longrightarrow> causes P l (execute_parallel env n child wait_for)"
  unfolding execute_parallel_def Let_def by (intro does_intros causes_run_all causes_collect)

lemma does_parallel_step:
  assumes "\<And>l step. causes P l (rec step state)"
  shows "does P l (execute_parallel_step rec env step state) (\<lambda>l' d. accepted d)"
  unfolding execute_parallel_step_def Let_def
  by (intro does_py_then causes_then [OF causes_parallel] does_intros assms) simp

lemma causes_run_items:
  assumes "\<And>l step item. causes P l (rec step (dset state ''loop_item'' item))"
  shows "causes P l (run_items rec env step state items results)"
proof (induction items arbitrary: l results)
  case (Cons item items)
  show ?case unfolding run_items.simps by (intro does_intros causes_then [OF assms] Cons.IH)
qed (simp add: does_ret)

lemma does_loop_step:
  assumes "\<And>l step item. causes P l (rec step (dset state ''loop_item'' item))"
  shows "does P l (execute_loop_step rec env step state) (\<lambda>l' d. accepted d)"
  unfolding execute_loop_step_def by (intro does_py_then causes_then [OF causes_run_items] does_intros assms) simp

lemma governed_loop_item: "governed_effect env (dset state ''loop_item'' item) = governed_effect env state"
proof -
  have "get_or (dset state ''loop_item'' item) ''tenant_id'' v = get_or state ''tenant_id'' v" for v
    unfolding get_or_def dget_def by (induction state) auto
  then show ?thesis
    by (intro ext) (simp add: governed_effect_def tenant_text_of_def step_grant_def step_request_def caller_of_run_def CALLER_GRANT_KEY_def
      run_started_by_def stored_agent_ok_def split: step_effect.split)
qed

text \<open>What a step relies on from the runner of the steps nested in it: whatever that causes is governed for the state it is given.\<close>

locale nested_runner =
  fixes env :: step_env and rec :: step_runner
  assumes governed_runner: "causes (governed_effect env state) l (rec step state)"
begin

lemma does_dispatch: "does (governed_effect env state) l (dispatch_step rec env step state)
    (\<lambda>l' d. accepted d \<or> get_or step ''type'' (VStr ''agent'') \<in> {VStr ''collaboration'', VStr ''case_agent''})"
proof -
  let ?v = "get_or step ''type'' (VStr ''agent'')"
  have loop: "causes (governed_effect env state) l (rec step (dset state ''loop_item'' item))" for l step item
    using governed_runner [of "dset state ''loop_item'' item"] unfolding governed_loop_item .
  have any: "governed_effect env state l (CollaborationRun step)" "governed_effect env state l (CaseStepRun step)" for l
    by (simp_all add: governed_effect_def)
  note handlers = does_condition does_hitl does_parallel_step [of "governed_effect env state" rec state, OF governed_runner]
    does_loop_step [of "governed_effect env state" rec state, OF loop] does_transform does_connector_tool
    does_notify does_sub_workflow does_wait does_wait_for_event does_agent
  have handled: "does (governed_effect env state) l (handler_of rec env s step state)
      (\<lambda>l' d. accepted d \<or> s \<in> {''collaboration'', ''case_agent''})" for s
    unfolding handler_of_def by (simp add: handlers [THEN does_weaken] does_perform any)
  have connector: "does (governed_effect env state) l (execute_connector_tool_step env step state)
      (\<lambda>l' d. accepted d \<or> ?v \<in> {VStr ''collaboration'', VStr ''case_agent''})"
    by (rule does_weaken [OF does_connector_tool]) simp
  show ?thesis
    unfolding dispatch_step_def Let_def
    by (intro does_if connector does_py_then does_weaken [OF handled]) (auto split: pv.splits)
qed

end

lemma does_step: "does (governed_effect env state) l (execute_step n env step state)
    (\<lambda>l' d. accepted d \<or> get_or step ''type'' (VStr ''agent'') \<in> {VStr ''collaboration'', VStr ''case_agent''})"
proof (induction n arbitrary: l step state)
  case (Suc n)
  show ?case unfolding execute_step.simps by (rule nested_runner.does_dispatch, unfold_locales, rule does_weaken [OF Suc.IH]) simp
qed simp

interpretation steps: nested_runner env "execute_step n env" for env n
  by unfold_locales (rule does_weaken [OF does_step], simp)

section \<open>What a step causes and answers\<close>


lemma accepted_known: "accepted d \<Longrightarrow> known_status (vget d ''status'') = Inr True"
  by (auto simp: accepted_def known_status_def)

text \<open>
  C0: A result of a step has a status the engine knows, unless the step is a collaboration or a case step, whose results come from
  elsewhere: the engine keeps the result as it is and never takes it for a failure of unknown status.
\<close>

theorem step_results_accepted:
  assumes "execute_step n env step state w = (Inr d, w')"
    and "get_or step ''type'' (VStr ''agent'') \<noteq> VStr ''collaboration''" "get_or step ''type'' (VStr ''agent'') \<noteq> VStr ''case_agent''"
  shows "normalize_step_result L s (VDict d) = Inr d"
proof -
  have "accepted d" using doesE [OF does_step refl assms(1)] assms(2,3) by (metis insertE singletonD)
  from accepted_known [OF this] show ?thesis by (simp add: normalize_step_result_def)
qed

section \<open>An example\<close>

text \<open>A parallel step with one child that calls a connector.\<close>

definition sample_step_env :: step_env where
  "sample_step_env = \<lparr> sv_lib = sample_lib, sv_runtime = Some ''production'', sv_getenv = (\<lambda>v. None), sv_llm_keys = True, sv_llm_mode = [],
     sv_paused_agents_refused = True, sv_parse_uuid = Some,
     sv_tables = (\<lambda>l. Inr \<lparr> tb_agents = [], tb_runs = [], tb_companies = [(''c1'', ''t1'')], tb_configs = sample_configs \<rparr>),
     sv_now = (\<lambda>l. 0), sv_adapter = (\<lambda>l. sample_adapter_env),
     sv_caller = \<lparr> cg_token = [], cg_agent_id = [], cg_required = False \<rparr>, sv_grants = sample_grant_env, sv_resolve = sample_resolve_env,
     sv_grant_mode = (\<lambda>l. OFF), sv_fresh_key = (\<lambda>l. ''k''), sv_before = (\<lambda>a b. True), sv_flags = (\<lambda>l t c f b. Inr False),
     sv_thinking_profile = (\<lambda>v. VNone), sv_write_result = (\<lambda>c k a m out step state. Inr []), sv_timeout_policy = (\<lambda>a s. VNone),
     sv_create_agent = (\<lambda>b c. Inr True), sv_check_task = (\<lambda>i a inp s. Inr ()), sv_run_agent = (\<lambda>c a inp l. Inl (''E'', [])),
     sv_send_email = (\<lambda>l. Inr True), sv_sub_run = (\<lambda>d l. Inl (''E'', [])), sv_register_wait = (\<lambda>l. Inr ()), sv_schedule = (\<lambda>l. Inr ()),
     sv_case_step = (\<lambda>s l. Inl (''E'', [])), sv_collaboration = (\<lambda>s l. Inl (''E'', [])), sv_order = (\<lambda>l. []), sv_cut = (\<lambda>l. 0),
     sv_cut_adapter = (\<lambda>l. sample_adapter), sv_text = (\<lambda>s. s), sv_error_text = (\<lambda>e. []), sv_value_error = (\<lambda>s. False),
     sv_isoformat = (\<lambda>t. []) \<rparr>"

definition sample_tool_step :: "pv dict" where
  "sample_tool_step = [(''id'', VStr ''look''), (''type'', VStr ''connector_tool''), (''connector'', VStr ''jira''), (''tool'', VStr ''search_issues'')]"

definition sample_parallel_step :: "pv dict" where
  "sample_parallel_step = [(''id'', VStr ''both''), (''type'', VStr ''parallel''), (''steps'', VList [VDict sample_tool_step])]"

definition sample_run_state :: "pv dict" where
  "sample_run_state = [(''tenant_id'', VStr ''t1''), (''company_id'', VStr ''c1''), (''domain'', VStr ''Ops'')]"

definition sample_wf_step :: wf_step where
  "sample_wf_step = \<lparr> ws_id = ''both'', ws_type = ''parallel'', ws_depends_on = [], ws_on_failure = [], ws_optional = False,
     ws_allow_failure = False, ws_true_path = None, ws_false_path = None, ws_fields = sample_parallel_step \<rparr>"

definition sample_world :: step_world where
  "sample_world = \<lparr> sw_adapter = sample_adapter, sw_log = [] \<rparr>"

definition sample_ran_step :: "(exn, pv dict) res \<times> step_world" where
  "sample_ran_step = execute_step 2 sample_step_env sample_parallel_step sample_run_state sample_world"

lemma sample_step_called:
  "map (\<lambda>e. case e of ToolCalled c \<Rightarrow> (xc_connector c, xc_company_id c) | _ \<Rightarrow> ([], None)) (sw_log (snd sample_ran_step)) = [(''jira'', Some ''c1'')]"
  by code_simp

lemma sample_step_result: "(case fst sample_ran_step of Inr d \<Rightarrow> vget d ''status'' | _ \<Rightarrow> VNone) = VStr ''completed''"
  by code_simp


theorem step_results_accepted_witness:
  "\<exists>d. fst sample_ran_step = Inr d \<and> is_completed d
     \<and> normalize_step_result sample_lib sample_wf_step (VDict d) = Inr d"
proof -
  obtain d where d: "fst sample_ran_step = Inr d" "is_completed d"
    using sample_step_result by (cases "fst sample_ran_step") (simp_all add: is_completed_def)
  then have run: "execute_step 2 sample_step_env sample_parallel_step sample_run_state sample_world = (Inr d, snd sample_ran_step)"
    unfolding sample_ran_step_def by (metis prod.collapse)
  have "get_or sample_parallel_step ''type'' (VStr ''agent'') = VStr ''parallel''" by code_simp
  with step_results_accepted [OF run] d show ?thesis by simp
qed

end
