(* ===== verification/Step_Nesting.thy ===== *)
theory Step_Nesting
  imports Step_Effects
begin

text \<open>
  Steps inside steps: what a parallel step makes of the results of its children, whatever the order in which they end, and how deep
  the dispatcher has to go.
\<close>

section \<open>Results of children\<close>

text \<open>\<open>r\<close> is a result of the child \<open>i\<close>.\<close>

definition child_result :: "step_env \<Rightarrow> (nat \<Rightarrow> pv dict io) \<Rightarrow> nat \<Rightarrow> pv dict \<Rightarrow> bool" where
  "child_result env child i r \<longleftrightarrow> (\<exists>u v. run_one env child i u = (Inr r, v))"

lemma completion_order_set [simp]: "set (completion_order given n) = {0..<n}"
  by (auto simp: completion_order_def Let_def)

lemma distinct_fromkeys: "distinct (fromkeys xs)"
  by (induction xs) auto

lemma completion_order_distinct: "distinct (completion_order given n)"
  by (auto simp: completion_order_def Let_def distinct_fromkeys)

lemma completion_order_length [simp]: "length (completion_order given n) = n"
  using distinct_card [OF completion_order_distinct, of given n] by simp

lemma does_run_one:
  assumes "\<And>l. causes P l (child i)"
  shows "does P l (run_one env child i) (\<lambda>l' r. child_result env child i r)"
  unfolding child_result_def by (rule does_self, rule causes_run_one, rule assms)

lemma map_of_list_all2:
  assumes "list_all2 (\<lambda>i p. fst p = i \<and> S i (snd p)) order rs" "i \<in> set order"
  shows "\<exists>r. map_of rs i = Some r \<and> S i r"
  using assms by (induction rule: list_all2_induct) auto

lemma does_run_all:
  assumes "\<And>l i. causes P l (child i)" "set order = {0..<n}" "length order = n"
  shows "does P l (run_all env child order) (\<lambda>l' rs. length rs = n \<and> (\<forall>i < n. child_result env child i (rs ! i)))"
proof -
  have one: "does P l (and_then (run_one env child i) (\<lambda>r. ret (i, r))) (\<lambda>l' p. fst p = i \<and> child_result env child i (snd p))" for l i
    by (rule does_bind [OF does_run_one [OF assms(1)]], rule does_ret) simp
  have "length (map (\<lambda>i. the (map_of rs i)) [0..<length order]) = n
      \<and> (\<forall>i < n. child_result env child i (map (\<lambda>i. the (map_of rs i)) [0..<length order] ! i))"
    if "list_all2 (\<lambda>i p. fst p = i \<and> child_result env child i (snd p)) order rs" for rs
    using map_of_list_all2 [OF that] assms(2,3) by (auto simp: atLeast0LessThan) (metis option.sel)
  then show ?thesis unfolding run_all_def by (intro does_bind [OF does_map_io, OF one] does_ret)
qed

lemma does_collect:
  assumes "\<And>l i. causes P l (child i)"
  shows "does P l (collect env child enough order acc)
    (\<lambda>l' rs. \<forall>r \<in> set rs. r \<in> set acc \<or> (\<exists>i \<in> set order. child_result env child i r))"
proof (induction order arbitrary: acc l)
  case (Cons i rest)
  have one: "causes P l (cancelled env (run_one env child j))" for j l by (rule causes_cancelled, rule causes_run_one, rule assms)
  show ?case
    unfolding collect.simps
    by (rule does_bind [OF does_run_one [OF assms]], intro does_if causes_then [OF causes_map_io] one does_ret does_weaken [OF Cons.IH])
      auto
qed (simp add: does_ret)

section \<open>Parallel steps\<close>

lemma successful_iff: "child_successful d = Inr b \<Longrightarrow> b \<longleftrightarrow> is_completed d"
proof -
  assume "child_successful d = Inr b"
  then obtain k where k: "hash_key (vget d ''status'') = Inr k" and b: "b \<longleftrightarrow> k = VStr ''completed''"
    by (auto simp: child_successful_def SUCCESSFUL_STEP_STATUSES_def)
  have "k = VStr s \<longleftrightarrow> vget d ''status'' = VStr s" for s
    using k by (cases "vget d ''status''" rule: hash_key.cases) (auto split: if_splits)
  then show ?thesis by (simp add: b is_completed_def)
qed

lemma parallel_failures_eq:
  assumes "parallel_failures rs = Inr fs"
  shows "fs = filter (\<lambda>r. \<not> is_completed r) rs"
proof -
  have "map_res child_successful rs = Inr oks \<Longrightarrow> map fst (filter (\<lambda>p. \<not> snd p) (zip rs oks)) = filter (\<lambda>r. \<not> is_completed r) rs" for oks
    by (induction rs arbitrary: oks) (auto simp: rbind_eq_Inr dest: successful_iff)
  then show ?thesis using assms by (auto simp: parallel_failures_def)
qed

lemma is_completed_children [simp]:
  "\<not> is_completed (children_failed i t rs fs)" "is_completed (children_completed i t rs)"
  "vget (children_completed i t rs) ''results'' = VList (map VDict rs)"
  by (simp_all add: is_completed_def children_failed_def failed_step_def children_completed_def vget_def dget_def)

lemma does_parallel:
  assumes "\<And>l i. causes P l (child i)"
  shows "does P l (execute_parallel env n child wait_for)
    (\<lambda>l' rs. (\<forall>r \<in> set rs. \<exists>i < n. child_result env child i r)
       \<and> (wait_for = ''all'' \<longrightarrow> length rs = n \<and> (\<forall>i < n. child_result env child i (rs ! i))))"
proof -
  have all: "does P l (run_all env child (completion_order given n))
      (\<lambda>l' rs. (\<forall>r \<in> set rs. \<exists>i < n. child_result env child i r) \<and> length rs = n \<and> (\<forall>i < n. child_result env child i (rs ! i)))" for given
    by (rule does_weaken [OF does_run_all [OF assms]]) (auto simp: in_set_conv_nth, blast)
  have some: "does P l (collect env child enough (completion_order given n) []) (\<lambda>l' rs. \<forall>r \<in> set rs. \<exists>i < n. child_result env child i r)" for enough given
    by (rule does_weaken [OF does_collect [OF assms]]) (auto simp: Bex_def)
  show ?thesis
    unfolding execute_parallel_def Let_def
    by (intro does_intros) (simp_all add: all some)
qed

text \<open>
  C0: The outcome of a parallel step, for every order in which its children end and however deep they nest. Its results are results of
  its children; waiting for all of them, there is one result for each child, in the order of the children. The step completes only
  if all its results are completed, and when it waits for any child, if one of them is.
\<close>

theorem parallel_step_outcome:
  assumes run: "execute_parallel_step (execute_step n env) env step state w = (Inr d, w')"
    and wait: "py_str (sv_lib env) (get_or step ''wait_for'' (VStr ''all'')) = wait_for"
    and subs: "py_iter (get_or step ''steps'' (VList [])) = Inr subs"
    and child: "child = (\<lambda>i. execute_step n env (parallel_child_step env (subs ! i)) state)"
  shows "\<exists>rs. (is_completed d \<longleftrightarrow> (if wait_for = ''any'' then list_ex is_completed rs else list_all is_completed rs))
     \<and> (is_completed d \<longrightarrow> vget d ''results'' = VList (map VDict rs))
     \<and> (\<forall>r \<in> set rs. \<exists>i < length subs. child_result env child i r)
     \<and> (wait_for = ''all'' \<longrightarrow> length rs = length subs \<and> (\<forall>i < length subs. child_result env child i (rs ! i)))"
proof -
  have c: "causes (governed_effect env state) l (child i)" for l i unfolding child by (rule steps.governed_runner)
  define from_children where "from_children rs \<longleftrightarrow> (\<forall>r \<in> set rs. \<exists>i < length subs. child_result env child i r)
     \<and> (wait_for = ''all'' \<longrightarrow> length rs = length subs \<and> (\<forall>i < length subs. child_result env child i (rs ! i)))" for rs
  define good where "good rs d \<longleftrightarrow> (is_completed d \<longleftrightarrow> (if wait_for = ''any'' then list_ex is_completed rs else list_all is_completed rs))
     \<and> (is_completed d \<longrightarrow> vget d ''results'' = VList (map VDict rs))" for rs d
  have settled: "good rs (if (if wait_for \<noteq> ''any'' then fs \<noteq> [] else length fs = length rs)
      then children_failed i ''parallel'' rs fs else children_completed i ''parallel'' rs)" if "parallel_failures rs = Inr fs" for rs fs i
  proof -
    have "length fs = length rs \<longleftrightarrow> filter is_completed rs = []"
      using parallel_failures_eq [OF that] sum_length_filter_compl [of is_completed rs]
      by (metis add_cancel_left_left length_0_conv)
    then show ?thesis using parallel_failures_eq [OF that]
      by (cases "wait_for = ''any''") (auto simp: good_def filter_empty_conv list_all_iff list_ex_iff)
  qed
  have children: "does (governed_effect env state) l (execute_parallel env (length subs) child wait_for) (\<lambda>l' rs. from_children rs)" for l
    unfolding from_children_def by (rule does_parallel [OF c])
  have "does (governed_effect env state) (sw_log w) (execute_parallel_step (execute_step n env) env step state)
      (\<lambda>l' d. \<exists>rs. good rs d \<and> from_children rs)"
    unfolding execute_parallel_step_def Let_def wait subs py_def [of env "Inr subs"] sum.case and_then_ret child [symmetric]
    by (rule does_bind [OF children], intro does_intros, rule exI, rule conjI, rule settled)
  from doesE [OF this refl run] obtain rs where "good rs d" "from_children rs" by blast
  then show ?thesis unfolding good_def from_children_def by (intro exI [of _ rs]) simp
qed

section \<open>Depth\<close>

text \<open>How deep a value nests; a dictionary of texts has height one.\<close>

fun pv_height :: "pv \<Rightarrow> nat" where
  "pv_height (VList xs) = Suc (foldr max (map pv_height xs) 0)"
| "pv_height (VTuple xs) = Suc (foldr max (map pv_height xs) 0)"
| "pv_height (VDict d) = Suc (foldr max (map (\<lambda>e. pv_height (snd e)) d) 0)"
| "pv_height _ = 0"

lemma foldr_max_member: "x \<in> set xs \<Longrightarrow> x \<le> foldr max xs (0 :: nat)"
  by (induction xs) auto

lemma height_dget: "dget d k = Some v \<Longrightarrow> pv_height v < pv_height (VDict d)"
  by (force simp: less_Suc_eq_le dest!: dget_Some_set intro: foldr_max_member)

lemma height_iter: "py_iter v = Inr xs \<Longrightarrow> x \<in> set xs \<Longrightarrow> pv_height x < max 1 (pv_height v)"
  by (cases v rule: py_iter.cases) (auto simp: less_Suc_eq_le intro: foldr_max_member)

lemma height_dset_text: "pv_height (VDict (dset d k (VStr s))) \<le> pv_height (VDict d)"
  by (induction d) auto

text \<open>A step below a step: either a plain agent step, or one that nests less deep.\<close>

definition nests :: "pv dict \<Rightarrow> bool" where
  "nests step \<longleftrightarrow> get_or step ''type'' (VStr ''agent'') \<in> {VStr ''parallel'', VStr ''loop''}"

definition below :: "pv dict \<Rightarrow> pv dict \<Rightarrow> bool" where
  "below step child \<longleftrightarrow> \<not> nests child \<or> pv_height (VDict child) < pv_height (VDict step)"

lemma parallel_child_below:
  assumes "py_iter (get_or step ''steps'' (VList [])) = Inr subs" "v \<in> set subs"
  shows "below step (parallel_child_step env v)"
proof (cases v)
  case (VDict d)
  obtain x where x: "dget step ''steps'' = Some x" using assms by (cases "dget step ''steps''") (auto simp: get_or_def)
  then have "pv_height v < max 1 (pv_height x)" using assms height_iter by (simp add: get_or_def)
  then have "pv_height v < pv_height (VDict step)" using height_dget [OF x] VDict by simp
  moreover have "pv_height (VDict (parallel_child_step env v)) \<le> pv_height v"
    using height_dset_text [of d "''type''" "''agent''"]
    by (cases "dhas d ''type''") (simp_all add: VDict parallel_child_step_def set_default_def del: pv_height.simps)
  ultimately show ?thesis by (simp add: below_def)
qed (simp_all add: below_def nests_def parallel_child_step_def Let_def get_or_def dget_def)

lemma loop_child_below:
  assumes "loop_child_step env step n i = Inr child"
  shows "below step child"
proof (cases "dget step ''step''")
  case None
  then show ?thesis using assms by (auto simp: loop_child_step_def Let_def get_or_def below_def nests_def dget_def)
next
  case (Some x)
  then obtain d where d: "x = VDict d" "child = dset d ''id'' (VStr (py_str (sv_lib env) i @ ''_'' @ str_nat n))"
    using assms by (auto simp: loop_child_step_def Let_def get_or_def split: pv.splits)
  show ?thesis using height_dget [OF Some] height_dset_text [of d] unfolding d below_def by (meson le_less_trans)
qed

section \<open>Runners that agree below a step\<close>

lemma map_io_cong: "(\<And>x. x \<in> set xs \<Longrightarrow> f x = g x) \<Longrightarrow> map_io f xs = map_io g xs"
proof (induction xs)
  case (Cons x xs)
  have "f x = g x" "map_io f xs = map_io g xs" using Cons.prems by (simp, intro Cons.IH) simp
  then show ?case by (simp only: map_io.simps)
qed simp

lemma run_one_cong: "child i = child' i \<Longrightarrow> run_one env child i = run_one env child' i"
  by (simp add: run_one_def)

lemma collect_cong: "(\<And>i. i \<in> set order \<Longrightarrow> child i = child' i) \<Longrightarrow> collect env child enough order acc = collect env child' enough order acc"
proof (induction order arbitrary: acc)
  case (Cons i rest)
  have one: "run_one env child j = run_one env child' j" if "j \<in> set (i # rest)" for j
    by (rule run_one_cong, rule Cons.prems, rule that)
  have rest: "map_io (\<lambda>j. cancelled env (run_one env child j)) rest = map_io (\<lambda>j. cancelled env (run_one env child' j)) rest"
    by (rule map_io_cong) (simp add: one)
  have "collect env child enough rest acc' = collect env child' enough rest acc'" for acc' by (rule Cons.IH, rule Cons.prems) simp
  then show ?case by (simp only: collect.simps one [of i] rest list.set_intros)
qed simp

lemma execute_parallel_cong:
  assumes "\<And>i. i < n \<Longrightarrow> child i = child' i"
  shows "execute_parallel env n child wait_for = execute_parallel env n child' wait_for"
proof -
  have "run_all env child (completion_order given n) = run_all env child' (completion_order given n)" for given
  proof -
    have one: "run_one env child i = run_one env child' i" if "i \<in> set (completion_order given n)" for i
      by (rule run_one_cong, rule assms) (use that in simp)
    have "map_io (\<lambda>i. and_then (run_one env child i) (\<lambda>r. ret (i, r))) (completion_order given n)
        = map_io (\<lambda>i. and_then (run_one env child' i) (\<lambda>r. ret (i, r))) (completion_order given n)"
      by (rule map_io_cong) (simp only: one)
    then show ?thesis by (simp only: run_all_def)
  qed
  moreover have "collect env child enough (completion_order given n) acc = collect env child' enough (completion_order given n) acc" for given enough acc
    by (rule collect_cong, rule assms) simp
  ultimately show ?thesis by (simp only: execute_parallel_def Let_def)
qed

lemma parallel_step_cong:
  assumes "\<And>child. below step child \<Longrightarrow> rec child state = rec' child state"
  shows "execute_parallel_step rec env step state = execute_parallel_step rec' env step state"
proof (cases "py_iter (get_or step ''steps'' (VList []))")
  case (Inr subs)
  have "execute_parallel env (length subs) (\<lambda>i. rec (parallel_child_step env (subs ! i)) state) wait_for
      = execute_parallel env (length subs) (\<lambda>i. rec' (parallel_child_step env (subs ! i)) state) wait_for" for wait_for
    by (intro execute_parallel_cong assms parallel_child_below [OF Inr]) simp
  then show ?thesis by (simp add: execute_parallel_step_def Inr py_def)
qed (simp add: execute_parallel_step_def py_def)

lemma run_items_cong:
  assumes "\<And>child state. below step child \<Longrightarrow> rec child state = rec' child state"
  shows "run_items rec env step state items results = run_items rec' env step state items results"
proof (induction items arbitrary: results)
  case (Cons item items)
  have eq: "and_then (py env (loop_child_step env step (length results) i)) (\<lambda>child. and_then (rec child (dset state ''loop_item'' item)) f)
      = and_then (py env (loop_child_step env step (length results) i)) (\<lambda>child. and_then (rec' child (dset state ''loop_item'' item)) f)" for i f
    by (cases "loop_child_step env step (length results) i") (simp_all add: py_def assms loop_child_below)
  show ?case unfolding run_items.simps Cons.IH by (rule arg_cong [where f = "and_then (the_id env step)"], rule ext, rule eq)
qed simp

lemma dispatch_cong:
  assumes "\<And>child state. below step child \<Longrightarrow> rec child state = rec' child state"
  shows "dispatch_step rec env step state = dispatch_step rec' env step state"
proof -
  have eq: "handler_of rec env s step state = handler_of rec' env s step state" for s
    by (simp add: handler_of_def parallel_step_cong [OF assms] execute_loop_step_def run_items_cong [OF assms])
  show ?thesis unfolding dispatch_step_def Let_def eq ..
qed

lemma flat_dispatch: "\<not> nests step \<Longrightarrow> dispatch_step rec env step state = dispatch_step rec' env step state"
  by (auto simp: dispatch_step_def handler_of_def nests_def Let_def split: pv.split)

text \<open>
  C0: Nested steps end. A depth one above the nesting of the step's own value is enough: with any greater depth a step does and answers
  exactly the same, so no step of a finite definition runs into the bound.
\<close>

theorem nested_steps_end:
  assumes "pv_height (VDict step) < n"
  shows "execute_step n env step state = execute_step (Suc (pv_height (VDict step))) env step state"
proof -
  have "execute_step n env step state = execute_step m env step state"
    if "pv_height (VDict step) < n" "pv_height (VDict step) < m" for n m step state
    using that
  proof (induction "pv_height (VDict step)" arbitrary: step state n m rule: less_induct)
    case less
    obtain n' m' where nm: "n = Suc n'" "m = Suc m'" using less.prems by (metis less_imp_Suc_add)
    have "execute_step n' env child st = execute_step m' env child st" if b: "below step child" for child st
    proof (cases "nests child")
      case True
      then have "pv_height (VDict child) < pv_height (VDict step)" using b unfolding below_def by blast
      then show ?thesis using less nm by (metis less_Suc_eq_le less_le_trans)
    next
      case False
      have "0 < pv_height (VDict step)" by simp
      then obtain n2 m2 where "n' = Suc n2" "m' = Suc m2" using less.prems nm by (metis less_Suc_eq_le less_le_trans gr0_implies_Suc)
      then show ?thesis using flat_dispatch [OF False] by simp
    qed
    then show ?case unfolding nm execute_step.simps by (rule dispatch_cong)
  qed
  then show ?thesis using assms by blast
qed

section \<open>An example\<close>

text \<open>The parallel step of the example: one child, whose call succeeds, in the state of the run.\<close>

definition sample_child :: "nat \<Rightarrow> pv dict io" where
  "sample_child i = execute_step 1 sample_step_env (parallel_child_step sample_step_env ([VDict sample_tool_step] ! i)) sample_run_state"

definition sample_parallel_run :: "(exn, pv dict) res \<times> step_world" where
  "sample_parallel_run = execute_parallel_step (execute_step 1 sample_step_env) sample_step_env sample_parallel_step sample_run_state sample_world"

theorem parallel_step_outcome_witness:
  "\<exists>d r. fst sample_parallel_run = Inr d \<and> is_completed d \<and> vget d ''results'' = VList [VDict r] \<and> is_completed r
     \<and> child_result sample_step_env sample_child 0 r"
proof -
  have "(case fst sample_parallel_run of Inr d \<Rightarrow> is_completed d | _ \<Rightarrow> False)" by code_simp
  then obtain d where d: "fst sample_parallel_run = Inr d" "is_completed d" by (cases "fst sample_parallel_run") simp_all
  then have run: "execute_parallel_step (execute_step 1 sample_step_env) sample_step_env sample_parallel_step sample_run_state sample_world
      = (Inr d, snd sample_parallel_run)" unfolding sample_parallel_run_def by (metis prod.collapse)
  have subs: "py_iter (get_or sample_parallel_step ''steps'' (VList [])) = Inr [VDict sample_tool_step]"
    and wait: "py_str (sv_lib sample_step_env) (get_or sample_parallel_step ''wait_for'' (VStr ''all'')) = ''all''" by code_simp+
  have child: "sample_child = (\<lambda>i. execute_step 1 sample_step_env (parallel_child_step sample_step_env ([VDict sample_tool_step] ! i)) sample_run_state)"
    by (rule ext) (simp only: sample_child_def)
  from parallel_step_outcome [OF run wait subs child] obtain rs where rs: "list_all is_completed rs" "vget d ''results'' = VList (map VDict rs)"
    "length rs = 1" "child_result sample_step_env sample_child 0 (rs ! 0)" using d(2) by auto
  then obtain r where "rs = [r]" by (auto simp: length_Suc_conv)
  with rs d show ?thesis by simp
qed

theorem nested_steps_end_witness:
  "pv_height (VDict sample_parallel_step) = 3 \<and> execute_step 1000 sample_step_env sample_parallel_step sample_run_state
     = execute_step 4 sample_step_env sample_parallel_step sample_run_state"
proof -
  have h: "pv_height (VDict sample_parallel_step) = 3" by code_simp
  then have "pv_height (VDict sample_parallel_step) < 1000" by simp
  note deep = nested_steps_end [OF this, of sample_step_env sample_run_state, unfolded h]
  have "Suc 3 = 4" by simp
  with h deep show ?thesis by (simp only: simp_thms)
qed

end
