(* ===== verification/Spec2Isabelle.thy ===== *)
theory Spec2Isabelle
  imports Policy_Loader Agent_Registry Cases Approvals Workflow_Tasks Audit_Chain Token_Pool Gateway_Runs Tool_Adapter Step_Nesting
begin

text \<open>
  This development verifies the decision core of the agent platform: the code that decides whether
  something happens. Around it are connectors, the model calls, the HTTP API and the user interface,
  which this development does not describe.

  \<^bold>\<open>Parts and how they interact.\<close> An agent works on a \<^emph>\<open>governed case\<close>: evidence is collected, a \<^emph>\<open>policy\<close>
  is evaluated over it, people decide, and the outcome is handed off to a receiver. Several agents and
  people work together in a \<^emph>\<open>workflow\<close>, a graph of steps an engine runs over a versioned state store.
  A human step is an \<^emph>\<open>approval\<close> with its own policy of steps and quorums. Everything an agent does to the
  outside passes the \<^emph>\<open>tool gateway\<close>, which asks the operator overrides, the action policy (with feature
  flags), the grant the run carries, the legacy scopes, the rate limiter, the idempotency store and the
  tool registry before it calls a connector; agents without a gateway and the connector steps of workflows call through the
  \<^emph>\<open>tool adapter\<close>, which asks the same controls. What happened is written to an \<^emph>\<open>audit log\<close> that is sealed into a
  hash chain.

  \<^bold>\<open>Theories.\<close> Paths are relative to \<open>src/\<close>.

  \<^item> \<open>Prelude\<close>: Python values, ordered dictionaries, strings, exceptions as a sum type, three-valued truth,
    and the lemma collections \<open>dict_simps\<close>, \<open>res_simps\<close> and \<open>kleene_simps\<close>.
  \<^item> \<open>Policy_Types\<close>, \<open>Policy_Engine\<close>, \<open>Policy_Loader\<close> (\<open>core/policy\<close>): a policy document is compiled with every
    check of the loader and evaluated with three-valued conditions. The engine refines a denotational
    specification, losing evidence never lowers a tier or a score, and what the loader accepts the engine
    evaluates without an exception.
  \<^item> \<open>Lifecycle\<close>, \<open>Agent_Registry\<close> (\<open>core/orchestrator/state_machine.py\<close>, \<open>scaling/lifecycle.py\<close>,
    \<open>core/agent_registry\<close>): the locale \<open>lifecycle\<close> states what a table of transitions with a checked move promises;
    it is interpreted on the four lifecycles of the platform (workflow, agent, registry entry, case).
  \<^item> \<open>Case_Types\<close>, \<open>Cases\<close>, \<open>Case_Push\<close> (\<open>core/cases\<close>): the tables, transactions and reachable databases of cases,
    the outbox and the signed delivery. Decided cases carry a decision the verifier granted, the recorded
    history is a path of the table, and every delivery settles.
  \<^item> \<open>Conditions\<close>, \<open>Rbac\<close>, \<open>Approvals\<close> (\<open>workflows/condition_evaluator.py\<close>, \<open>core/rbac.py\<close>, \<open>core/approvals\<close>,
    \<open>api/v1/approvals.py\<close>): the condition language with exact binary floating-point rounding, roles, and the
    decide endpoint as a sequence of requests over one item. A decided item met every quorum of its policy.
  \<^item> \<open>Workflow_Parser\<close>, \<open>Workflow_Order\<close>, \<open>Workflow_Steps\<close>, \<open>State_Store\<close>, \<open>Workflow_Engine\<close>, \<open>Workflow_Runs\<close>,
    \<open>Workflow_Results\<close> (\<open>workflows\<close>): definitions, the execution order, the rules around a step, the store (locale
    \<open>versioned_store\<close>, interpreted on the durable store), the engine's operations as programs of interactions, and what
    holds however programs and other writers interleave.
  \<^item> \<open>Event_Waits\<close>, \<open>Workflow_Tasks\<close> (\<open>workflows/event_waits.py\<close>, \<open>core/tasks/workflow_tasks.py\<close>): the waits for events in both
    repositories (locale \<open>wait_repository\<close>, interpreted on the one in memory and the one in SQL) and the scheduled tasks that resume and
    time out runs. An event reaches exactly the waits it matches, a wait is closed once, and what a task saves does not undo
    a finished run. The locale \<open>run_invariant\<close> of \<open>Workflow_Results\<close> carries invariants of stored runs over all operations.
  \<^item> \<open>Audit_Chain\<close> (\<open>core/governance/audit_chain.py\<close>, \<open>audit_chain_link.py\<close>, \<open>core/tool_gateway/audit_logger.py\<close>): signing,
    sealing and verification. A chain that verifies against a known head is the one that was sealed.
  \<^item> \<open>Scopes\<close>, \<open>Feature_Flags\<close>, \<open>Action_Policy\<close>, \<open>Grants\<close>, \<open>Operator_Override\<close>, \<open>Rate_Limiter\<close>, \<open>Tool_Registry\<close>
    (\<open>auth/scopes.py\<close>, \<open>core/feature_flags.py\<close>, \<open>core/governance/action_policy.py\<close>, \<open>auth/grant_enforcement.py\<close>,
    \<open>auth/run_grants.py\<close>, \<open>core/governance/operator_override.py\<close>, \<open>core/tool_gateway\<close>): the checks a tool call meets. The
    locale \<open>credit_control\<close> bounds what a credit scheme admits and is interpreted on the token bucket.
  \<^item> \<open>Tool_Gateway\<close>, \<open>Gateway_Runs\<close> (\<open>core/tool_gateway/gateway.py\<close>, \<open>idempotency.py\<close>): the pipeline of one call, and many calls
    side by side. A dispatched call passed every check; a completed call is not repeated while its result is kept.
  \<^item> \<open>Token_Pool\<close> (\<open>auth/token_pool.py\<close>): the grants of runs, cached in the process and in Redis, and their revocation. A grant is
    only served to the tenant, agent, scopes and isolation key it was minted for, and not after a revocation.
  \<^item> \<open>Tool_Names\<close>, \<open>Tool_Adapter\<close> (\<open>core/langgraph/tool_adapter.py\<close>, \<open>connectors/registry.py\<close>): the spellings and the index of tools, the
    tools of an agent, and the calls outside the gateway. A call that reaches a connector passed every check, an agent's
    call is authorized, and a cached client is not used outside its tenant and company.
  \<^item> \<open>Step_World\<close>, \<open>Step_Handlers\<close>, \<open>Step_Effects\<close>, \<open>Step_Nesting\<close> (\<open>workflows/step_types.py\<close>, \<open>parallel_executor.py\<close>,
    \<open>step_results.py\<close>): the handlers of the step types as code that reads tables, raises and causes effects, with triples on the log of
    effects (collection \<open>does_intros\<close>). The locale \<open>nested_runner\<close> states what a step relies on from the runner of its nested steps and
    is interpreted on the dispatcher. Every effect is within the tenant, the company, the caller's grant and the owner of the agent, every
    result has a status the engine knows, and the outcome of a parallel step does not depend on the order its children end in.
  \<^item> This theory: what needs several of them, an operator's halt as the tool gateway obeys it.

  \<^bold>\<open>How code becomes definitions.\<close> A class is a record, an enumeration a datatype, a table a list of rows. An exception is
  \<open>Inl\<close> of an error. A function that changes state takes it and returns it; a transaction that raises returns
  no state, so nothing changes. A function that awaits between reading and writing is split where it awaits
  wherever a property depends on it: the engine's operations, the investigation of a case, the cached overrides, the three parts
  of a gateway call. Dictionaries keep insertion order. Text has the code points 0 to 255. Times are numbers that the
  caller supplies; clocks of different sources are different arguments.

  \<^bold>\<open>Parameters.\<close> Code outside the repository is an argument: SHA-256 and HMAC, UUID parsing, YAML and JSON Schema,
  \<open>repr\<close> and \<open>json.dumps\<close>, the Grantex client, Redis and the database (which answer or fail), the iteration order of a set.
  The hypotheses on them are named where they are used: that the hash and the encodings the audit chain signs are
  injective, that the shortened hashes of the token pool do not collide in the history considered, that ids and names have no colon, that a reservation outlives the call it is made for, that a read of the overrides is cached within a delay. Every
  property with a hypothesis is applied to a concrete input after it.

  \<^bold>\<open>Bounds and recursion.\<close> The search for a cycle in a workflow recurses in the interpreter; the model takes the depth
  as an argument, raises \<open>RecursionError\<close> beyond it, and the property on accepted definitions says which depth is
  enough. The dispatcher of nested steps takes a depth in the same way, and one above the nesting of the step is shown to be enough. All other loops are structural or have a termination proof; no definition runs on fuel. Constants (cache sizes,
  lifetimes, limits, page sizes) are those of the code.

  \<^bold>\<open>Not modelled.\<close> Connectors, model calls, the remote MCP adapter, guardrails and pseudonymisation call services or libraries
  and are parameters where the core asks them. The service that mints grants and the residency check are parameters too; the scheduling of refreshes and the
  copies of a run in other tables are left out. To the engine the step handlers are arbitrary answers; to the handlers the agents, the nested
  engine, email, the scheduler, the evaluation of marketing writes and the approval time limits are. Children of a parallel step run one after
  the other, in any order of completion. Collaboration steps are not described. Logging, metrics and tracing change no result. The commerce runtime, the HTTP
  endpoints other than the decision of an approval, the user interface, the scripts and the reports are separate from the decisions described
  here. Floating point is exact in the condition evaluator and rational elsewhere.
\<close>

section \<open>An operator's halt at the tool gateway\<close>

lemma blocked_call_refused:
  assumes "od_blocked (fst (check_override (ga_override env) now later (ga_answers env) (gs_override st)
      (UuidText (tc_tenant_id c)) (call_subject_of c) (Some ''tool'')))"
    and "execute_call env now later finish c outcome st = (res, st')"
  shows "(\<exists>p. res = Inl (Refused p)) \<and> gs_dispatched st' = gs_dispatched st \<and> gs_buckets st' = gs_buckets st \<and> gs_idem st' = gs_idem st"
proof -
  obtain d ov where d: "check_override (ga_override env) now later (ga_answers env) (gs_override st)
      (UuidText (tc_tenant_id c)) (call_subject_of c) (Some ''tool'') = (d, ov)" "od_blocked d"
    using assms(1) by (metis prod.collapse)
  show ?thesis
  proof (cases "restore_gate env c st")
    case (Pair a st1)
    show ?thesis
    proof (cases a)
      case (Inl e)
      then show ?thesis
        using assms(2) Pair
        by (auto simp: execute_call_def admit_def then_gate_def restore_gate_def refusal_def refusal_with_def audited_def
            split: option.splits sum.splits if_splits)
    next
      case (Inr params)
      then have "st1 = st" using Pair restore_gate_passed by blast
      then show ?thesis
        using assms(2) Pair Inr d
        by (auto simp: execute_call_def admit_def then_gate_def override_gate_def refusal_with_def audited_def Let_def)
    qed
  qed
qed


definition halted_gateway :: gateway_state where
  "halted_gateway = sample_gateway\<lparr> gs_override := vw_state sample_override_world \<rparr>"

definition stripe_call :: gateway_call where
  "stripe_call = sample_call\<lparr> tc_connector := ''stripe'', tc_tool := ''list_charges'' \<rparr>"


end
